(* ===== verification/Axv_Prelude.thy ===== *)
theory Axv_Prelude
  imports Main "HOL-Library.Word"
begin

text \<open>
  Shared vocabulary of the development: the machine types of the C++ code, its wide and
  narrow strings, the handful of \<open>std::string\<close> operations the source uses, and the generic
  lemmas on words, lists and ring buffers that more than one component needs.

  \<^item> \<open>std::uint64_t\<close> and \<open>std::uintptr_t\<close> are \<open>64 word\<close>, \<open>std::uint32_t\<close> is \<open>32 word\<close>;
    a null pointer is \<open>0\<close>.
  \<^item> \<open>wchar_t\<close> is \<open>16 word\<close> (the product is a Windows desktop program), so a
    \<open>std::wstring\<close> is a list of UTF-16 code units.
  \<^item> \<open>std::string\<close> is Isabelle's \<open>string\<close>, a list of 8-bit characters.
\<close>

section \<open>Machine types\<close>

type_synonym u64 = "64 word"
type_synonym u32 = "32 word"
type_synonym wchar = "16 word"
type_synonym wstr = "wchar list"

text \<open>\<open>std::numeric_limits<std::uint64_t>::max()\<close>.\<close>

abbreviation u64_max :: u64 where
  "u64_max \<equiv> - 1"

text \<open>Wide character and wide string literals \<open>L'x'\<close> and \<open>L"..."\<close>.\<close>

definition wc :: "char \<Rightarrow> wchar" where
  [simp]: "wc c = of_char c"

definition W :: "string \<Rightarrow> wstr" where
  "W s = map wc s"

named_theorems policy_defs \<open>definitions of the pure policy functions\<close>
named_theorems step_defs \<open>definitions of the operations that change a component's state\<close>
named_theorems message_defs \<open>definitions of the fixed user-visible messages\<close>

section \<open>Counters that stop before they wrap\<close>

lemma unat_inc: "g \<noteq> u64_max \<Longrightarrow> unat (g + 1) = Suc (unat g)"
  for g :: u64
  by (metis Suc_eq_plus1 add.commute add_eq_0_iff unatSuc)

lemma unat_u64_max: "unat u64_max = 2 ^ 64 - 1"
  by (simp add: unsigned_minus_1_eq_mask mask_eq_exp_minus_1)

lemma unat_of_nat_less: "k < 2 ^ LENGTH('a) \<Longrightarrow> unat (of_nat k :: 'a :: len word) = k"
  by (simp add: unsigned_of_nat take_bit_nat_eq_self)

lemma inc_gt [simp, intro]: "g \<noteq> u64_max \<Longrightarrow> g < g + 1"
  for g :: u64
  by (simp add: unat_inc word_less_nat_alt)

lemma inc_nonzero [simp, intro]: "g \<noteq> u64_max \<Longrightarrow> g + 1 \<noteq> 0"
  for g :: u64
  using unat_inc by fastforce

lemma le_inc: "x \<le> g \<Longrightarrow> g \<noteq> u64_max \<Longrightarrow> x < g + 1"
  for x g :: u64
  using inc_gt order_le_less_trans by blast

lemma less_inc_iff: "g \<noteq> u64_max \<Longrightarrow> x < g + 1 \<longleftrightarrow> x \<le> g"
  for x g :: u64
  by (simp add: unat_inc word_less_nat_alt word_le_nat_alt less_Suc_eq_le)

section \<open>The string operations the source uses\<close>

text \<open>
  \<open>find_idx x s\<close> is \<open>s.find(x)\<close> for a single character: the index of its first occurrence,
  \<open>None\<close> for \<open>npos\<close>. \<open>substr s p n\<close> is \<open>s.substr(p, n)\<close> (for \<open>p\<close> within the string) and
  \<open>starts_with p s\<close> is \<open>s.compare(0, p.size(), p) == 0\<close>.
\<close>

fun find_idx :: "'a \<Rightarrow> 'a list \<Rightarrow> nat option" where
  "find_idx x [] = None"
| "find_idx x (y # ys) = (if y = x then Some 0 else map_option Suc (find_idx x ys))"

definition substr :: "'a list \<Rightarrow> nat \<Rightarrow> nat \<Rightarrow> 'a list" where
  [simp]: "substr s p n = take n (drop p s)"

definition starts_with :: "'a list \<Rightarrow> 'a list \<Rightarrow> bool" where
  "starts_with p s \<longleftrightarrow> take (length p) s = p"

lemma find_idx_None [simp]: "find_idx x s = None \<longleftrightarrow> x \<notin> set s"
  by (induction s) auto

lemma find_idx_Some:
  "find_idx x s = Some i \<longleftrightarrow> i < length s \<and> s ! i = x \<and> x \<notin> set (take i s)"
proof (induction s arbitrary: i)
  case Nil
  then show ?case by simp
next
  case (Cons y s)
  show ?case
  proof (cases i)
    case 0
    then show ?thesis by auto
  next
    case (Suc j)
    then show ?thesis by (auto simp: Cons.IH)
  qed
qed

lemma find_idx_less: "find_idx x s = Some i \<Longrightarrow> i < length s"
  by (simp add: find_idx_Some)

lemma find_idx_append_first:
  "x \<notin> set a \<Longrightarrow> find_idx x (a @ x # b) = Some (length a)"
  by (induction a) auto

lemma starts_with_append [simp]: "starts_with p (p @ s)"
  by (simp add: starts_with_def)

lemma starts_with_conv: "starts_with p s \<longleftrightarrow> (\<exists>t. s = p @ t)"
  unfolding starts_with_def by (metis append_eq_conv_conj append_take_drop_id)

lemma W_Nil [simp]: "W [] = []"
  by (simp add: W_def)

lemma W_append [simp]: "W (a @ b) = W a @ W b"
  by (simp add: W_def)

lemma length_W [simp]: "length (W s) = length s"
  by (simp add: W_def)

text \<open>Narrow and wide characters: \<open>static_cast<wchar_t>(c)\<close> and, for codes below 256, its
  inverse \<open>static_cast<char>(c)\<close>.\<close>

definition narrow :: "wchar \<Rightarrow> char" where
  "narrow c = char_of (unat c)"

lemma unat_wchar_of_char [simp]: "unat (of_char c :: wchar) = of_char c"
proof -
  have e: "(of_char c :: wchar) = of_nat (of_char c)" by (rule of_nat_of_char [symmetric])
  have "(of_char c :: nat) < 2 ^ 16" by (rule order_less_trans [OF nat_of_char_less_256]) simp
  then show ?thesis unfolding e by (intro unat_of_nat_less) simp
qed

lemma of_char_narrow [simp]: "c < 256 \<Longrightarrow> (of_char (narrow c) :: wchar) = c"
  unfolding narrow_def by (rule word_unat_eq_iff [THEN iffD2]) (simp add: word_less_nat_alt)

lemma nat_of_char_narrow: "c < 256 \<Longrightarrow> (of_char (narrow c) :: nat) = unat c"
  by (simp add: narrow_def word_less_nat_alt)

lemma narrow_of_char [simp]: "narrow (of_char c) = c"
  by (simp add: narrow_def)

section \<open>Decimal text\<close>

text \<open>\<open>std::to_string\<close> and \<open>std::to_wstring\<close> of an unsigned value.\<close>

definition digit_char :: "nat \<Rightarrow> char" where
  "digit_char d = char_of (48 + d)"

fun to_dec :: "nat \<Rightarrow> string" where
  "to_dec n = (if n < 10 then [digit_char n] else to_dec (n div 10) @ [digit_char (n mod 10)])"

declare to_dec.simps [simp del]

lemma to_dec_nonempty [simp]: "to_dec n \<noteq> []"
  by (subst to_dec.simps) simp

lemma of_char_digit: "d < 10 \<Longrightarrow> (of_char (digit_char d) :: nat) = 48 + d"
  by (simp add: digit_char_def)

lemma set_to_dec: "c \<in> set (to_dec n) \<Longrightarrow> \<exists>d<10. c = digit_char d"
proof (induction n rule: to_dec.induct)
  case (1 n)
  show ?case
  proof (cases "n < 10")
    case True
    with "1.prems" show ?thesis by (auto simp: to_dec.simps [of n])
  next
    case False
    with "1.prems" have "c \<in> set (to_dec (n div 10)) \<or> c = digit_char (n mod 10)"
      by (auto simp: to_dec.simps [of n])
    moreover have "n mod 10 < 10" by simp
    ultimately show ?thesis using "1.IH" False by blast
  qed
qed

text \<open>Reading decimal text back.\<close>

definition dec_digit :: "char \<Rightarrow> bool" where
  "dec_digit c \<longleftrightarrow> 48 \<le> (of_char c :: nat) \<and> (of_char c :: nat) \<le> 57"

definition dec_step :: "nat \<Rightarrow> char \<Rightarrow> nat" where
  "dec_step n c = n * 10 + (of_char c - 48)"

definition dec_value :: "string \<Rightarrow> nat" where
  "dec_value s = foldl dec_step 0 s"

lemma dec_digit_digit_char [simp]: "d < 10 \<Longrightarrow> dec_digit (digit_char d)"
  by (simp add: dec_digit_def of_char_digit)

lemma dec_value_to_dec [simp]: "dec_value (to_dec n) = n"
proof (induction n rule: to_dec.induct)
  case (1 n)
  show ?case
  proof (cases "n < 10")
    case True
    then show ?thesis
      by (subst to_dec.simps) (simp add: dec_value_def dec_step_def of_char_digit)
  next
    case False
    with "1.IH" show ?thesis
      by (subst to_dec.simps) (simp add: dec_value_def dec_step_def of_char_digit)
  qed
qed

lemma digits_to_dec: "c \<in> set (to_dec n) \<Longrightarrow> dec_digit c"
  using set_to_dec dec_digit_digit_char by blast

lemma length_to_dec: "k \<noteq> 0 \<Longrightarrow> n < 10 ^ k \<Longrightarrow> length (to_dec n) \<le> k"
proof (induction k arbitrary: n)
  case 0
  then show ?case by simp
next
  case (Suc k)
  show ?case
  proof (cases "n < 10")
    case True
    then show ?thesis by (subst to_dec.simps) simp
  next
    case False
    then have "k \<noteq> 0" using Suc.prems by (cases k) auto
    moreover have "n div 10 < 10 ^ k" using Suc.prems by (simp add: div_less_iff_less_mult mult.commute)
    ultimately show ?thesis using Suc.IH [of "n div 10"] False by (subst to_dec.simps) simp
  qed
qed

section \<open>Ring buffers\<close>

text \<open>
  \<open>ring_slice xs first n\<close> reads \<open>n\<close> elements of the array \<open>xs\<close> from position \<open>first\<close>,
  wrapping at its end: \<open>entries_[(first_ + i) % kCapacity]\<close> for \<open>i < n\<close>.
\<close>

definition ring_slice :: "'a list \<Rightarrow> nat \<Rightarrow> nat \<Rightarrow> 'a list" where
  "ring_slice xs first n = map (\<lambda>i. xs ! ((first + i) mod length xs)) [0..<n]"

lemma length_ring_slice [simp]: "length (ring_slice xs f n) = n"
  by (simp add: ring_slice_def)

lemma ring_slice_0 [simp]: "ring_slice xs f 0 = []"
  by (simp add: ring_slice_def)

lemma mod_add_less_neq:
  fixes f i j n :: nat
  assumes "i < j" "j < n"
  shows "(f + i) mod n \<noteq> (f + j) mod n"
proof
  assume "(f + i) mod n = (f + j) mod n"
  then have "n dvd (f + j) - (f + i)"
    using assms by (metis add_le_mono1 add.commute less_imp_le mod_eq_dvd_iff_nat)
  then have "n dvd j - i" by simp
  then show False using assms by (auto dest: dvd_imp_le)
qed

lemma ring_slice_push:
  assumes "n < length xs"
  shows "ring_slice (xs[(f + n) mod length xs := x]) f (Suc n) = ring_slice xs f n @ [x]"
proof -
  have "(f + n) mod length xs \<noteq> (f + i) mod length xs" if "i < n" for i
    using mod_add_less_neq [of i n "length xs" f] that assms by simp
  moreover have "(f + n) mod length xs < length xs"
    using assms by (intro mod_less_divisor) linarith
  ultimately show ?thesis
    by (auto simp: ring_slice_def)
qed

end
