(* ===== verification/Sip_Runtime.thy ===== *)
theory Sip_Runtime
  imports Axv_Prelude
begin

text \<open>
  The vocabulary every SIP component shares, and the pure policies over it:
  \<open>sip_engine.h\<close> and \<open>native_codec_mode.h\<close> (status, account, codec mode), \<open>call_policy.h\<close>,
  \<open>engine_lifecycle.h\<close>, \<open>sip_runtime_observation.h\<close> (the evidence-carrying observation of the
  native engine and the gate \<open>sip_proof_is_current\<close>), \<open>essential_call_actions.h\<close>,
  \<open>preferences_incoming_policy.h\<close>, \<open>native_security_status.h\<close>, \<open>native_call_duration.h\<close>,
  \<open>call_readiness.h\<close> and \<open>baresip_native_thread_guard.h\<close>. Enumerations keep the constructors
  of the source and are written qualified, as \<open>SipStatus.Registered\<close> is in C++.
\<close>

section \<open>Status, account and codec mode\<close>

datatype SipStatus =
  Unavailable | Disconnected | Registering | Registered | Calling | Ringing | InCall | Failed

text \<open>
  A C++ enumeration variable can hold integers that are no enumerator (a cast combo-box index);
  the source rejects them, so they are values here too. \<open>SipEvidence::None\<close> is written
  \<open>NoEvidence\<close> below, to keep \<open>None\<close> for the option type.
\<close>

datatype NativeCodecMode = Automatic | Pcma | Pcmu | InvalidCodecMode int

definition valid_native_codec_mode :: "NativeCodecMode \<Rightarrow> bool" where
  "valid_native_codec_mode m \<longleftrightarrow>
     m = NativeCodecMode.Automatic \<or> m = NativeCodecMode.Pcma \<or> m = NativeCodecMode.Pcmu"

fun native_audio_codec_list :: "NativeCodecMode \<Rightarrow> string" where
  "native_audio_codec_list NativeCodecMode.Automatic = ''PCMU/8000/1,PCMA/8000/1''"
| "native_audio_codec_list NativeCodecMode.Pcma = ''PCMA/8000/1''"
| "native_audio_codec_list NativeCodecMode.Pcmu = ''PCMU/8000/1''"
| "native_audio_codec_list (NativeCodecMode.InvalidCodecMode n) = []"

record SipAccount =
  acc_server :: wstr
  acc_username :: wstr
  acc_port :: "16 word"
  acc_use_tls :: bool
  acc_codec_mode :: NativeCodecMode

definition default_account :: SipAccount where
  "default_account = \<lparr>acc_server = [], acc_username = [], acc_port = 5060, acc_use_tls = False,
     acc_codec_mode = NativeCodecMode.Automatic\<rparr>"

datatype EngineKind = Unavailable | Baresip

text \<open>\<open>EngineSelection\<close>: the engine pointer may be null; what the policies read of a present
  engine is its \<open>status()\<close>.\<close>

record EngineSelection =
  sel_engine :: "SipStatus option"
  sel_kind :: EngineKind

text \<open>\<open>create_sip_engine\<close>: the argument is the build flag \<open>AXV_ENABLE_NATIVE_SIP\<close>; a fresh
  native engine reports \<open>Disconnected\<close>, the stub reports \<open>Unavailable\<close>.\<close>

definition create_sip_engine :: "bool \<Rightarrow> EngineSelection" where
  "create_sip_engine native_sip =
     (if native_sip then \<lparr>sel_engine = Some SipStatus.Disconnected, sel_kind = EngineKind.Baresip\<rparr>
      else \<lparr>sel_engine = Some SipStatus.Unavailable, sel_kind = EngineKind.Unavailable\<rparr>)"

section \<open>Call policy and engine lifecycle\<close>

datatype CallAction = Dial | Answer | Hangup

fun can_apply_call_action :: "SipStatus \<Rightarrow> CallAction \<Rightarrow> bool" where
  "can_apply_call_action status CallAction.Dial \<longleftrightarrow> status = SipStatus.Registered"
| "can_apply_call_action status CallAction.Answer \<longleftrightarrow> status = SipStatus.Ringing"
| "can_apply_call_action status CallAction.Hangup \<longleftrightarrow>
     status = SipStatus.Calling \<or> status = SipStatus.Ringing \<or> status = SipStatus.InCall"

datatype EngineLifecycle = Stopped | Starting | Running | Stopping | Failed

datatype LifecycleEvent = StartRequested | Started | StartFailed | StopRequested | Stopped | Fault

fun transition :: "EngineLifecycle \<Rightarrow> LifecycleEvent \<Rightarrow> EngineLifecycle" where
  "transition EngineLifecycle.Stopped event =
     (if event = LifecycleEvent.StartRequested then EngineLifecycle.Starting
      else EngineLifecycle.Stopped)"
| "transition EngineLifecycle.Starting event =
     (if event = LifecycleEvent.Started then EngineLifecycle.Running
      else if event = LifecycleEvent.StartFailed \<or> event = LifecycleEvent.Fault
        then EngineLifecycle.Failed
      else if event = LifecycleEvent.StopRequested then EngineLifecycle.Stopping
      else EngineLifecycle.Starting)"
| "transition EngineLifecycle.Running event =
     (if event = LifecycleEvent.StopRequested then EngineLifecycle.Stopping
      else if event = LifecycleEvent.Fault then EngineLifecycle.Failed
      else EngineLifecycle.Running)"
| "transition EngineLifecycle.Stopping event =
     (if event = LifecycleEvent.Stopped then EngineLifecycle.Stopped
      else if event = LifecycleEvent.Fault then EngineLifecycle.Failed
      else EngineLifecycle.Stopping)"
| "transition EngineLifecycle.Failed event =
     (if event = LifecycleEvent.StopRequested then EngineLifecycle.Stopping
      else EngineLifecycle.Failed)"

text \<open>An engine that failed can only be reached again through a stop that completed.\<close>

lemma failed_restart_path:
  "foldl transition EngineLifecycle.Failed es = EngineLifecycle.Running \<Longrightarrow>
     LifecycleEvent.StopRequested \<in> set es \<and> LifecycleEvent.Stopped \<in> set es \<and>
     LifecycleEvent.StartRequested \<in> set es \<and> LifecycleEvent.Started \<in> set es"
proof -
  have "(foldl transition EngineLifecycle.Starting es = EngineLifecycle.Running \<longrightarrow>
           LifecycleEvent.Started \<in> set es) \<and>
        (foldl transition EngineLifecycle.Stopped es = EngineLifecycle.Running \<longrightarrow>
           LifecycleEvent.StartRequested \<in> set es \<and> LifecycleEvent.Started \<in> set es) \<and>
        (foldl transition EngineLifecycle.Stopping es = EngineLifecycle.Running \<longrightarrow>
           LifecycleEvent.Stopped \<in> set es \<and>
           LifecycleEvent.StartRequested \<in> set es \<and> LifecycleEvent.Started \<in> set es) \<and>
        (foldl transition EngineLifecycle.Failed es = EngineLifecycle.Running \<longrightarrow>
           LifecycleEvent.StopRequested \<in> set es \<and> LifecycleEvent.Stopped \<in> set es \<and>
           LifecycleEvent.StartRequested \<in> set es \<and> LifecycleEvent.Started \<in> set es)" for es
    by (induction es) auto
  then show "foldl transition EngineLifecycle.Failed es = EngineLifecycle.Running \<Longrightarrow> ?thesis"
    by blast
qed

section \<open>Runtime observation\<close>

datatype SipEvidence = NoEvidence | VerifiedNativeApi

datatype RuntimeProcess = Stopped | Running | Stopping | Failed

record SipRuntimeObservation =
  obs_process :: RuntimeProcess
  obs_sip :: SipStatus
  obs_evidence :: SipEvidence
  obs_session :: u64
  obs_call_id :: u64
  obs_last_call_id :: u64

text \<open>The aggregate initialisers \<open>{}\<close>, \<open>{process, sip}\<close> and \<open>{process, sip, evidence,
  session}\<close> of the source: members not listed take their defaults.\<close>

definition observation :: "RuntimeProcess \<Rightarrow> SipStatus \<Rightarrow> SipEvidence \<Rightarrow> u64 \<Rightarrow>
    SipRuntimeObservation" where
  [simp]: "observation p s e n = \<lparr>obs_process = p, obs_sip = s, obs_evidence = e, obs_session = n,
     obs_call_id = 0, obs_last_call_id = 0\<rparr>"

definition default_observation :: SipRuntimeObservation where
  "default_observation =
     observation RuntimeProcess.Stopped SipStatus.Unavailable SipEvidence.NoEvidence 0"

definition sip_proof_is_current :: "SipRuntimeObservation \<Rightarrow> u64 \<Rightarrow> bool" where
  "sip_proof_is_current obs current_session \<longleftrightarrow>
     obs_process obs = RuntimeProcess.Running \<and>
     obs_evidence obs = SipEvidence.VerifiedNativeApi \<and>
     current_session \<noteq> 0 \<and> obs_session obs = current_session"

definition effective_sip_status :: "SipRuntimeObservation \<Rightarrow> u64 \<Rightarrow> SipStatus" where
  "effective_sip_status obs current_session =
     (if sip_proof_is_current obs current_session then obs_sip obs else SipStatus.Unavailable)"

definition may_use_call_control ::
    "SipRuntimeObservation \<Rightarrow> u64 \<Rightarrow> CallAction \<Rightarrow> bool" where
  "may_use_call_control obs current_session action =
     can_apply_call_action (effective_sip_status obs current_session) action"

definition runtime_status_banner :: "SipRuntimeObservation \<Rightarrow> u64 \<Rightarrow> wstr" where
  "runtime_status_banner obs current_session =
     (case obs_process obs of
        RuntimeProcess.Stopped \<Rightarrow> W ''MOTOR PARADO  |  SIP NAO REGISTRADO''
      | RuntimeProcess.Stopping \<Rightarrow> W ''MOTOR ENCERRANDO  |  SIP NAO REGISTRADO''
      | RuntimeProcess.Failed \<Rightarrow> W ''FALHA NO MOTOR  |  SIP NAO REGISTRADO''
      | RuntimeProcess.Running \<Rightarrow>
          (if \<not> sip_proof_is_current obs current_session
           then W ''MOTOR ATIVO  |  REGISTRO SIP NAO CONFIRMADO''
           else (case obs_sip obs of
               SipStatus.Registered \<Rightarrow> W ''SIP REGISTRADO  |  EVENTO NATIVO VALIDADO''
             | SipStatus.Calling \<Rightarrow> W ''CHAMADA ORIGINANDO  |  EVENTO NATIVO VALIDADO''
             | SipStatus.Ringing \<Rightarrow> W ''CHAMADA ENTRANTE  |  EVENTO NATIVO VALIDADO''
             | SipStatus.InCall \<Rightarrow> W ''EM CHAMADA  |  EVENTO NATIVO VALIDADO''
             | SipStatus.Registering \<Rightarrow> W ''REGISTRO SIP EM ANDAMENTO''
             | SipStatus.Failed \<Rightarrow> W ''FALHA NO REGISTRO SIP''
             | SipStatus.Disconnected \<Rightarrow> W ''SIP DESCONECTADO''
             | SipStatus.Unavailable \<Rightarrow> W ''SIP INDISPONIVEL'')))"

definition is_stale_session :: "u64 \<Rightarrow> u64 \<Rightarrow> bool" where
  "is_stale_session event_session current_session \<longleftrightarrow>
     event_session = 0 \<or> event_session \<noteq> current_session"

lemmas runtime_policy_defs =
  sip_proof_is_current_def effective_sip_status_def may_use_call_control_def is_stale_session_def

declare runtime_policy_defs [policy_defs]

lemma no_proof_no_control:
  "\<not> sip_proof_is_current obs s \<Longrightarrow> \<not> may_use_call_control obs s a"
  by (cases a) (auto simp: effective_sip_status_def may_use_call_control_def)

lemma call_control_status:
  "may_use_call_control obs s a \<longleftrightarrow>
     sip_proof_is_current obs s \<and> can_apply_call_action (obs_sip obs) a"
  by (cases a) (auto simp: effective_sip_status_def may_use_call_control_def)

section \<open>What the interface offers for an observation\<close>

datatype EssentialConnectionSignal = Offline | Pending | Online

definition essential_connection_signal ::
    "SipRuntimeObservation \<Rightarrow> u64 \<Rightarrow> EssentialConnectionSignal" where
  "essential_connection_signal observed active_session =
     (if obs_process observed = RuntimeProcess.Running \<and> obs_sip observed = SipStatus.Registering
      then EssentialConnectionSignal.Pending
      else if \<not> sip_proof_is_current observed active_session
      then EssentialConnectionSignal.Offline
      else (case obs_sip observed of
          SipStatus.Registered \<Rightarrow> EssentialConnectionSignal.Online
        | SipStatus.Ringing \<Rightarrow> EssentialConnectionSignal.Online
        | SipStatus.Calling \<Rightarrow> EssentialConnectionSignal.Online
        | SipStatus.InCall \<Rightarrow> EssentialConnectionSignal.Online
        | _ \<Rightarrow> EssentialConnectionSignal.Offline))"

datatype EssentialCallView = Idle | Incoming | Outgoing | Connected

record EssentialCallActions =
  act_view :: EssentialCallView
  act_dial :: bool
  act_answer :: bool
  act_hangup :: bool
  act_secondary :: bool

definition no_call_actions :: EssentialCallActions where
  [simp]: "no_call_actions = \<lparr>act_view = EssentialCallView.Idle, act_dial = False,
     act_answer = False, act_hangup = False, act_secondary = False\<rparr>"

definition essential_call_actions ::
    "SipRuntimeObservation \<Rightarrow> u64 \<Rightarrow> bool \<Rightarrow> EssentialCallActions" where
  "essential_call_actions observed active_session dial_authorized =
     (if \<not> sip_proof_is_current observed active_session then no_call_actions
      else if obs_sip observed = SipStatus.Registered
      then no_call_actions\<lparr>act_dial := obs_call_id observed = 0 \<and> dial_authorized\<rparr>
      else if obs_call_id observed = 0 then no_call_actions
      else (case obs_sip observed of
          SipStatus.Ringing \<Rightarrow> no_call_actions\<lparr>act_view := EssentialCallView.Incoming,
            act_answer := True, act_hangup := True\<rparr>
        | SipStatus.Calling \<Rightarrow> no_call_actions\<lparr>act_view := EssentialCallView.Outgoing,
            act_hangup := True\<rparr>
        | SipStatus.InCall \<Rightarrow> no_call_actions\<lparr>act_view := EssentialCallView.Connected,
            act_hangup := True, act_secondary := True\<rparr>
        | _ \<Rightarrow> no_call_actions))"

definition preferences_incoming_controls_available ::
    "SipRuntimeObservation \<Rightarrow> SipRuntimeObservation \<Rightarrow> bool" where
  "preferences_incoming_controls_available current displayed \<longleftrightarrow>
     obs_call_id current \<noteq> 0 \<and> obs_sip current = SipStatus.Ringing \<and>
     obs_sip displayed = SipStatus.Ringing \<and>
     sip_proof_is_current current (obs_session current) \<and>
     sip_proof_is_current displayed (obs_session current) \<and>
     obs_session displayed = obs_session current \<and>
     obs_call_id displayed = obs_call_id current"

record NativeSecurityStatus =
  sec_policy_selected :: bool
  sec_tls_required :: bool
  sec_running_process :: bool
  sec_verified_registration :: bool

definition native_security_status ::
    "bool \<Rightarrow> bool \<Rightarrow> SipRuntimeObservation \<Rightarrow> NativeSecurityStatus" where
  "native_security_status selected tls view =
     (let registered = obs_sip view = SipStatus.Registered \<or> obs_sip view = SipStatus.Calling \<or>
            obs_sip view = SipStatus.Ringing \<or> obs_sip view = SipStatus.InCall
      in \<lparr>sec_policy_selected = selected, sec_tls_required = tls,
          sec_running_process = (obs_process view = RuntimeProcess.Running),
          sec_verified_registration =
            (selected \<and> registered \<and> sip_proof_is_current view (obs_session view))\<rparr>)"

definition format_native_security_status :: "NativeSecurityStatus \<Rightarrow> wstr" where
  "format_native_security_status s =
     W ''SEGURANCA DA SESSAO'' @ [10] @ W ''Politica SIP: '' @
     (if \<not> sec_policy_selected s then W ''sem politica de sessao selecionada''
      else if sec_tls_required s then W ''TLS obrigatorio; CA confiavel exigida''
      else W ''UDP sem criptografia'') @
     [10] @ W ''Sessao nativa: '' @
     (if sec_running_process s then W ''em execucao'' else W ''sem sessao em execucao'') @
     [10] @ W ''Registro SIP atual: '' @
     (if sec_policy_selected s \<and> sec_running_process s \<and> sec_verified_registration s
      then W ''verificado'' else W ''sem evidencia atual'') @
     [10] @ W ''Midia: este candidato nao oferece SRTP'' @
     [10] @ W ''Homologacao real: nao concluida''"

text \<open>No call button is offered without current native proof and, but for dialling, a call
  token; and the buttons offered are exactly the actions the call policy allows.\<close>

lemma essential_actions_sound:
  "act_dial (essential_call_actions obs s d) \<longleftrightarrow>
     d \<and> obs_call_id obs = 0 \<and> may_use_call_control obs s CallAction.Dial"
  "act_answer (essential_call_actions obs s d) \<longleftrightarrow>
     obs_call_id obs \<noteq> 0 \<and> may_use_call_control obs s CallAction.Answer"
  "act_hangup (essential_call_actions obs s d) \<longleftrightarrow>
     obs_call_id obs \<noteq> 0 \<and> may_use_call_control obs s CallAction.Hangup"
  by (auto simp: essential_call_actions_def call_control_status split: SipStatus.splits)

section \<open>Call duration\<close>

record NativeCallDuration =
  dur_active :: bool
  dur_session :: u64
  dur_call_id :: u64
  dur_start_ms :: u64
  dur_last_ms :: u64

definition duration_reset :: NativeCallDuration where
  "duration_reset = \<lparr>dur_active = False, dur_session = 0, dur_call_id = 0, dur_start_ms = 0,
     dur_last_ms = 0\<rparr>"

text \<open>The result is the pair (active, elapsed) of \<open>CallDurationSnapshot\<close>.\<close>

definition duration_observe ::
    "NativeCallDuration \<Rightarrow> SipRuntimeObservation \<Rightarrow> u64 \<Rightarrow> (bool \<times> u64) \<times> NativeCallDuration" where
  "duration_observe d obs now_ms =
     (if obs_process obs \<noteq> RuntimeProcess.Running \<or>
         obs_evidence obs \<noteq> SipEvidence.VerifiedNativeApi \<or>
         obs_session obs = 0 \<or> obs_call_id obs = 0 \<or> obs_sip obs \<noteq> SipStatus.InCall
      then ((False, 0), duration_reset)
      else let d' = (if \<not> dur_active d \<or> dur_session d \<noteq> obs_session obs \<or>
                        dur_call_id d \<noteq> obs_call_id obs
                     then \<lparr>dur_active = True, dur_session = obs_session obs,
                           dur_call_id = obs_call_id obs, dur_start_ms = now_ms,
                           dur_last_ms = now_ms\<rparr>
                     else if now_ms > dur_last_ms d then d\<lparr>dur_last_ms := now_ms\<rparr>
                     else d)
           in ((True, dur_last_ms d' - dur_start_ms d'), d'))"

definition duration_inv :: "NativeCallDuration \<Rightarrow> bool" where
  "duration_inv d \<longleftrightarrow> dur_start_ms d \<le> dur_last_ms d"

lemma duration_inv_reset [simp]: "duration_inv duration_reset"
  by (simp add: duration_inv_def duration_reset_def)

lemma duration_observe_inv: "duration_inv d \<Longrightarrow> duration_inv (snd (duration_observe d obs now))"
  by (auto simp: duration_inv_def duration_observe_def duration_reset_def Let_def)

text \<open>\<open>format_call_duration\<close>.\<close>

definition format_call_duration :: "u64 \<Rightarrow> wstr" where
  "format_call_duration elapsed_ms =
     (let total_seconds = unat elapsed_ms div 1000;
          hours = total_seconds div 3600;
          minutes = (total_seconds div 60) mod 60;
          seconds = total_seconds mod 60;
          result = W (to_dec hours);
          result = (if length result < 2 then wc CHR ''0'' # result else result)
      in result @ [wc CHR '':''] @ (if minutes < 10 then [wc CHR ''0''] else []) @
         W (to_dec minutes) @ [wc CHR '':''] @ (if seconds < 10 then [wc CHR ''0''] else []) @
         W (to_dec seconds))"

section \<open>Call readiness\<close>

record CallReadiness =
  rdy_destination_syntax :: bool
  rdy_account_syntax :: bool
  rdy_native_engine :: bool
  rdy_running_process :: bool
  rdy_verified_registration :: bool
  rdy_verified_media :: bool
  rdy_dial_control_available :: bool

definition call_readiness_gates_pass :: "CallReadiness \<Rightarrow> bool" where
  "call_readiness_gates_pass s \<longleftrightarrow>
     rdy_destination_syntax s \<and> rdy_account_syntax s \<and> rdy_native_engine s \<and>
     rdy_running_process s \<and> rdy_verified_registration s \<and> rdy_verified_media s"

definition readiness_line :: "string \<Rightarrow> bool \<Rightarrow> string \<Rightarrow> string \<Rightarrow> wstr" where
  "readiness_line label ok yes no =
     (if ok then W ''[OK] '' else W ''[PENDENTE] '') @ W label @ W '': '' @
     (if ok then W yes else W no) @ [10]"

definition format_call_readiness :: "CallReadiness \<Rightarrow> wstr" where
  "format_call_readiness s =
     W ''AXE VOICE - PRONTIDAO DE CHAMADAS'' @ [10, 10] @
     readiness_line ''Destino'' (rdy_destination_syntax s)
       ''sintaxe valida'' ''corrigir ou informar destino'' @
     readiness_line ''Conta'' (rdy_account_syntax s)
       ''sintaxe local valida'' ''revisar servidor, usuario e porta'' @
     readiness_line ''Motor nativo'' (rdy_native_engine s)
       ''adaptador disponivel'' ''adaptador Baresip nao integrado'' @
     readiness_line ''Processo'' (rdy_running_process s)
       ''em execucao'' ''nao esta em execucao'' @
     readiness_line ''Registro SIP'' (rdy_verified_registration s)
       ''evidencia nativa atual'' ''sem evidencia real de registro'' @
     readiness_line ''Midia'' (rdy_verified_media s)
       ''caminho de audio verificado'' ''RTP/SRTP nao verificado'' @
     (if rdy_dial_control_available s
      then [10] @ W ''Botao Chamar: disponivel na interface; motor revalida ao discar.'' @ [10]
      else [10] @ W ''Botao Chamar: indisponivel na interface.'' @ [10]) @
     (if call_readiness_gates_pass s
      then [10] @ W ''GATES LOCAIS COMPLETOS; homologacao real ainda necessaria.''
      else [10] @ W ''CHECKLIST PENDENTE - homologacao nao concluida.'') @
     [10, 10] @ W ''Diagnostico local. Nao conecta ao SIP nem valida audio real.''"

end
