(* ===== verification/Event_Reducer.thy ===== *)
theory Event_Reducer
  imports Sip_Runtime
begin

text \<open>
  The reducer of native SIP events (\<open>baresip_event_reducer.h\<close>) and the identity layer on top
  of it (\<open>baresip_event_identity.h\<close>). The reducer is specified by a step relation, \<open>sip_step\<close>,
  that says which native event may follow which status; \<open>apply_baresip_event\<close> is proved to
  accept exactly those steps, and to keep the observation well formed.
\<close>

section \<open>Events and the reducer\<close>

datatype BaresipEventKind =
  Registering | RegisterOk | RegisterFail | Unregistering
  | CallIncoming | CallOutgoing | CallEstablished | CallClosed | TransportLost

record BaresipNativeEvent =
  ev_kind :: BaresipEventKind
  ev_session :: u64
  ev_call_id :: u64
  ev_account_token :: u64
  ev_call_token :: u64

text \<open>\<open>{kind, session, call_id}\<close>, and the value-initialised event \<open>{}\<close> of a fresh array.\<close>

definition native_event :: "BaresipEventKind \<Rightarrow> u64 \<Rightarrow> u64 \<Rightarrow> BaresipNativeEvent" where
  [simp]: "native_event k s c = \<lparr>ev_kind = k, ev_session = s, ev_call_id = c,
     ev_account_token = 0, ev_call_token = 0\<rparr>"

definition default_event :: BaresipNativeEvent where
  "default_event = native_event BaresipEventKind.Registering 0 0"

datatype EventTransition = Applied | StaleSession | UnverifiedSource | InvalidOrder | StaleCall

text \<open>
  \<open>next_status event current call last\<close> is the body of the reducer's \<open>switch\<close>: the error it
  returns, or the status, call token and last call token it goes on to store.
\<close>

fun next_status ::
    "BaresipNativeEvent \<Rightarrow> SipStatus \<Rightarrow> u64 \<Rightarrow> u64 \<Rightarrow> EventTransition + (SipStatus \<times> u64 \<times> u64)"
  where
  "next_status event current next_call_id last_call_id =
     (case ev_kind event of
        BaresipEventKind.Registering \<Rightarrow>
          if ev_call_id event \<noteq> 0 \<or> (current \<noteq> SipStatus.Unavailable \<and>
             current \<noteq> SipStatus.Disconnected \<and> current \<noteq> SipStatus.Failed \<and>
             current \<noteq> SipStatus.Registered)
          then Inl EventTransition.InvalidOrder
          else Inr (SipStatus.Registering, next_call_id, last_call_id)
      | BaresipEventKind.RegisterOk \<Rightarrow>
          if ev_call_id event \<noteq> 0 \<or> current \<noteq> SipStatus.Registering
          then Inl EventTransition.InvalidOrder
          else Inr (SipStatus.Registered, next_call_id, last_call_id)
      | BaresipEventKind.RegisterFail \<Rightarrow>
          if ev_call_id event \<noteq> 0 \<or> current \<noteq> SipStatus.Registering
          then Inl EventTransition.InvalidOrder
          else Inr (SipStatus.Failed, next_call_id, last_call_id)
      | BaresipEventKind.Unregistering \<Rightarrow>
          if ev_call_id event \<noteq> 0 \<or>
             (current \<noteq> SipStatus.Registering \<and> current \<noteq> SipStatus.Registered)
          then Inl EventTransition.InvalidOrder
          else Inr (SipStatus.Disconnected, next_call_id, last_call_id)
      | BaresipEventKind.CallEstablished \<Rightarrow>
          if current \<noteq> SipStatus.Calling \<and> current \<noteq> SipStatus.Ringing
          then Inl EventTransition.InvalidOrder
          else if ev_call_id event = 0 \<or> ev_call_id event \<noteq> next_call_id
          then Inl EventTransition.StaleCall
          else Inr (SipStatus.InCall, next_call_id, last_call_id)
      | BaresipEventKind.CallClosed \<Rightarrow>
          if current \<noteq> SipStatus.Calling \<and> current \<noteq> SipStatus.Ringing \<and>
             current \<noteq> SipStatus.InCall
          then Inl EventTransition.InvalidOrder
          else if ev_call_id event = 0 \<or> ev_call_id event \<noteq> next_call_id
          then Inl EventTransition.StaleCall
          else Inr (SipStatus.Registered, 0, last_call_id)
      | BaresipEventKind.TransportLost \<Rightarrow>
          if ev_call_id event \<noteq> 0 then Inl EventTransition.InvalidOrder
          else Inr (SipStatus.Disconnected, 0, last_call_id)
      | _ \<comment> \<open>\<open>CallIncoming\<close>, \<open>CallOutgoing\<close>\<close> \<Rightarrow>
          if current \<noteq> SipStatus.Registered then Inl EventTransition.InvalidOrder
          else if ev_call_id event = 0 \<or> next_call_id \<noteq> 0 \<or> ev_call_id event \<le> last_call_id
          then Inl EventTransition.StaleCall
          else Inr (if ev_kind event = BaresipEventKind.CallIncoming then SipStatus.Ringing
                    else SipStatus.Calling, ev_call_id event, ev_call_id event))"

definition apply_baresip_event ::
    "SipRuntimeObservation \<Rightarrow> u64 \<Rightarrow> BaresipNativeEvent \<Rightarrow>
     EventTransition \<times> SipRuntimeObservation" where
  "apply_baresip_event state active_session event =
     (if is_stale_session (ev_session event) active_session \<or> obs_session state \<noteq> active_session
      then (EventTransition.StaleSession, state)
      else if \<not> sip_proof_is_current state active_session
      then (EventTransition.UnverifiedSource, state)
      else (case next_status event (obs_sip state) (obs_call_id state) (obs_last_call_id state) of
          Inl err \<Rightarrow> (err, state)
        | Inr (next, next_call_id, last_call_id) \<Rightarrow>
            (EventTransition.Applied,
             state\<lparr>obs_sip := next, obs_call_id := next_call_id,
                   obs_last_call_id := last_call_id\<rparr>)))"

declare next_status.simps [simp del]

text \<open>Folding the reducer over a list of events until the first one it refuses.\<close>

fun reduce_events ::
    "SipRuntimeObservation \<Rightarrow> u64 \<Rightarrow> BaresipNativeEvent list \<Rightarrow> SipRuntimeObservation option"
  where
  "reduce_events state s [] = Some state"
| "reduce_events state s (e # es) =
     (case apply_baresip_event state s e of
        (EventTransition.Applied, state') \<Rightarrow> reduce_events state' s es
      | _ \<Rightarrow> None)"

section \<open>The protocol as a step relation\<close>

text \<open>
  Which native event may follow which status, with the call token the line holds and the last
  one it ever held. A call opens only on a registered idle line, with a token larger than
  every earlier one; it is answered and closed under its own token; losing the transport
  drops the call.
\<close>

inductive sip_step ::
    "SipStatus \<times> u64 \<times> u64 \<Rightarrow> BaresipEventKind \<Rightarrow> u64 \<Rightarrow> SipStatus \<times> u64 \<times> u64 \<Rightarrow> bool"
  where
  registering: "st \<in> {SipStatus.Unavailable, SipStatus.Disconnected, SipStatus.Failed,
       SipStatus.Registered} \<Longrightarrow>
     sip_step (st, c, l) BaresipEventKind.Registering 0 (SipStatus.Registering, c, l)"
| register_ok:
    "sip_step (SipStatus.Registering, c, l) BaresipEventKind.RegisterOk 0
       (SipStatus.Registered, c, l)"
| register_fail:
    "sip_step (SipStatus.Registering, c, l) BaresipEventKind.RegisterFail 0
       (SipStatus.Failed, c, l)"
| unregistering: "st \<in> {SipStatus.Registering, SipStatus.Registered} \<Longrightarrow>
     sip_step (st, c, l) BaresipEventKind.Unregistering 0 (SipStatus.Disconnected, c, l)"
| incoming: "t \<noteq> 0 \<Longrightarrow> l < t \<Longrightarrow>
     sip_step (SipStatus.Registered, 0, l) BaresipEventKind.CallIncoming t (SipStatus.Ringing, t, t)"
| outgoing: "t \<noteq> 0 \<Longrightarrow> l < t \<Longrightarrow>
     sip_step (SipStatus.Registered, 0, l) BaresipEventKind.CallOutgoing t (SipStatus.Calling, t, t)"
| established: "st \<in> {SipStatus.Calling, SipStatus.Ringing} \<Longrightarrow> c \<noteq> 0 \<Longrightarrow>
     sip_step (st, c, l) BaresipEventKind.CallEstablished c (SipStatus.InCall, c, l)"
| closed: "st \<in> {SipStatus.Calling, SipStatus.Ringing, SipStatus.InCall} \<Longrightarrow> c \<noteq> 0 \<Longrightarrow>
     sip_step (st, c, l) BaresipEventKind.CallClosed c (SipStatus.Registered, 0, l)"
| transport_lost:
    "sip_step (st, c, l) BaresipEventKind.TransportLost 0 (SipStatus.Disconnected, 0, l)"

inductive_cases sip_stepE: "sip_step x k t y"

inductive_simps sip_step_simps:
  "sip_step (st, c, l) BaresipEventKind.Registering t y"
  "sip_step (st, c, l) BaresipEventKind.RegisterOk t y"
  "sip_step (st, c, l) BaresipEventKind.RegisterFail t y"
  "sip_step (st, c, l) BaresipEventKind.Unregistering t y"
  "sip_step (st, c, l) BaresipEventKind.CallIncoming t y"
  "sip_step (st, c, l) BaresipEventKind.CallOutgoing t y"
  "sip_step (st, c, l) BaresipEventKind.CallEstablished t y"
  "sip_step (st, c, l) BaresipEventKind.CallClosed t y"
  "sip_step (st, c, l) BaresipEventKind.TransportLost t y"

lemma next_status_iff_step:
  "next_status event st c l = Inr y \<longleftrightarrow> sip_step (st, c, l) (ev_kind event) (ev_call_id event) y"
  by (cases y; cases "ev_kind event"; cases st)
     (auto simp: next_status.simps sip_step_simps not_le)

definition obs_line :: "SipRuntimeObservation \<Rightarrow> SipStatus \<times> u64 \<times> u64" where
  "obs_line obs = (obs_sip obs, obs_call_id obs, obs_last_call_id obs)"

text \<open>
  A well-formed observation holds a call token exactly in the three call states, and that
  token is the last one issued; without proof there is no call at all.
\<close>

definition in_call_status :: "SipStatus \<Rightarrow> bool" where
  "in_call_status st \<longleftrightarrow>
     st = SipStatus.Calling \<or> st = SipStatus.Ringing \<or> st = SipStatus.InCall"

definition line_inv :: "SipStatus \<times> u64 \<times> u64 \<Rightarrow> bool" where
  "line_inv = (\<lambda>(st, c, l). (c \<noteq> 0 \<longleftrightarrow> in_call_status st) \<and> (c \<noteq> 0 \<longrightarrow> c = l))"

definition obs_inv :: "SipRuntimeObservation \<Rightarrow> bool" where
  "obs_inv obs \<longleftrightarrow> line_inv (obs_line obs)"

lemma sip_step_inv: "sip_step x k t y \<Longrightarrow> line_inv x \<Longrightarrow> line_inv y"
  by (erule sip_step.cases) (auto simp: line_inv_def in_call_status_def)

lemma sip_step_last_mono: "sip_step (st, c, l) k t (st', c', l') \<Longrightarrow> l \<le> l'"
  by (erule sip_step.cases) auto

lemma apply_Applied_iff:
  "apply_baresip_event state s event = (EventTransition.Applied, state') \<longleftrightarrow>
     ev_session event = s \<and> sip_proof_is_current state s \<and>
     sip_step (obs_line state) (ev_kind event) (ev_call_id event) (obs_line state') \<and>
     state' = state\<lparr>obs_sip := obs_sip state', obs_call_id := obs_call_id state',
                    obs_last_call_id := obs_last_call_id state'\<rparr>"
proof -
  have err: "next_status event st c l \<noteq> Inl EventTransition.Applied" for st c l
    by (cases "ev_kind event") (auto simp: next_status.simps)
  show ?thesis
    unfolding obs_line_def next_status_iff_step [symmetric]
    using err
    by (auto simp: apply_baresip_event_def is_stale_session_def sip_proof_is_current_def
        split: sum.splits prod.splits)
qed

lemma apply_not_Applied: "fst (apply_baresip_event state s event) \<noteq> EventTransition.Applied \<Longrightarrow>
    snd (apply_baresip_event state s event) = state"
  by (auto simp: apply_baresip_event_def split: sum.splits prod.splits)

lemma apply_step_or_same:
  "(sip_step (obs_line state) (ev_kind event) (ev_call_id event)
      (obs_line (snd (apply_baresip_event state s event)))) \<or>
   snd (apply_baresip_event state s event) = state"
proof (cases "fst (apply_baresip_event state s event) = EventTransition.Applied")
  case True
  then obtain mid where mid: "apply_baresip_event state s event = (EventTransition.Applied, mid)"
    by (metis prod.collapse)
  then have "sip_step (obs_line state) (ev_kind event) (ev_call_id event) (obs_line mid)"
    by (simp only: apply_Applied_iff)
  with mid show ?thesis by simp
next
  case False
  then show ?thesis by (simp add: apply_not_Applied)
qed

lemma apply_inv: "obs_inv state \<Longrightarrow> obs_inv (snd (apply_baresip_event state s event))"
  using apply_step_or_same [of state event s] by (auto simp: obs_inv_def dest: sip_step_inv)

lemma apply_keeps:
  "obs_process (snd (apply_baresip_event state s event)) = obs_process state"
  "obs_evidence (snd (apply_baresip_event state s event)) = obs_evidence state"
  "obs_session (snd (apply_baresip_event state s event)) = obs_session state"
  by (auto simp: apply_baresip_event_def split: sum.splits prod.splits)

lemma apply_keeps_pair:
  "apply_baresip_event state s event = (r, state') \<Longrightarrow>
     obs_process state' = obs_process state \<and> obs_evidence state' = obs_evidence state \<and>
     obs_session state' = obs_session state"
  using apply_keeps [of state s event] by simp

lemma apply_proof [simp]:
  "sip_proof_is_current (snd (apply_baresip_event state s event)) n =
   sip_proof_is_current state n"
  by (simp add: sip_proof_is_current_def apply_keeps)

text \<open>Folding from \<open>reduce_events\<close>: the invariant, and what a successful run implies.\<close>

lemma reduce_events_Cons_Some:
  "reduce_events state s (e # es) = Some out \<longleftrightarrow>
     (\<exists>mid. apply_baresip_event state s e = (EventTransition.Applied, mid) \<and>
            reduce_events mid s es = Some out)"
  by (cases "apply_baresip_event state s e"; cases "fst (apply_baresip_event state s e)") auto

lemma reduce_events_append:
  "reduce_events state s (es @ fs) =
     Option.bind (reduce_events state s es) (\<lambda>mid. reduce_events mid s fs)"
proof (induction es arbitrary: state)
  case Nil
  then show ?case by simp
next
  case (Cons e es)
  then show ?case
    by (cases "apply_baresip_event state s e"; cases "fst (apply_baresip_event state s e)") auto
qed

lemma reduce_events_inv:
  "reduce_events state s es = Some out \<Longrightarrow> obs_inv state \<Longrightarrow> obs_inv out"
proof (induction es arbitrary: state)
  case Nil
  then show ?case by simp
next
  case (Cons e es)
  then show ?case
    unfolding reduce_events_Cons_Some by (metis apply_inv snd_conv)
qed

lemma reduce_events_keeps:
  "reduce_events state s es = Some out \<Longrightarrow>
     obs_process out = obs_process state \<and> obs_evidence out = obs_evidence state \<and>
     obs_session out = obs_session state"
proof (induction es arbitrary: state)
  case Nil
  then show ?case by simp
next
  case (Cons e es)
  then show ?case
    unfolding reduce_events_Cons_Some by (metis apply_keeps snd_conv)
qed

lemma apply_last_mono:
  "obs_last_call_id state \<le> obs_last_call_id (snd (apply_baresip_event state s event))"
  using apply_step_or_same [of state event s] by (auto simp: obs_line_def dest: sip_step_last_mono)

section \<open>Identified events\<close>

text \<open>\<open>BoundBaresipState\<close>: one selected account and at most one active call.\<close>

record BoundBaresipState =
  bnd_observation :: SipRuntimeObservation
  bnd_expected_account_token :: u64
  bnd_active_call_token :: u64
  bnd_last_call_token :: u64

definition default_bound :: BoundBaresipState where
  "default_bound = \<lparr>bnd_observation = default_observation, bnd_expected_account_token = 0,
     bnd_active_call_token = 0, bnd_last_call_token = 0\<rparr>"

datatype IdentityResult =
  Applied | StaleSession | UnverifiedSource | WrongAccount | MissingCall
  | ConcurrentCall | WrongCall | ReplayedCall | UnexpectedCall | InvalidOrder

definition opening_kind :: "BaresipEventKind \<Rightarrow> bool" where
  "opening_kind k \<longleftrightarrow> k = BaresipEventKind.CallIncoming \<or> k = BaresipEventKind.CallOutgoing"

definition continuing_kind :: "BaresipEventKind \<Rightarrow> bool" where
  "continuing_kind k \<longleftrightarrow> k = BaresipEventKind.CallEstablished \<or> k = BaresipEventKind.CallClosed"

text \<open>The identity checks that precede the reducer, in the order of the source.\<close>

definition identity_check :: "BoundBaresipState \<Rightarrow> u64 \<Rightarrow> BaresipNativeEvent \<Rightarrow> IdentityResult" where
  "identity_check bound active_session event =
     (if is_stale_session (ev_session event) active_session \<or>
         obs_session (bnd_observation bound) \<noteq> active_session
      then IdentityResult.StaleSession
      else if \<not> sip_proof_is_current (bnd_observation bound) active_session
      then IdentityResult.UnverifiedSource
      else if bnd_expected_account_token bound = 0 \<or>
              ev_account_token event \<noteq> bnd_expected_account_token bound
      then IdentityResult.WrongAccount
      else if opening_kind (ev_kind event)
      then (if ev_call_token event = 0 then IdentityResult.MissingCall
            else if bnd_active_call_token bound \<noteq> 0 then IdentityResult.ConcurrentCall
            else if ev_call_token event \<le> bnd_last_call_token bound
            then IdentityResult.ReplayedCall
            else IdentityResult.Applied)
      else if continuing_kind (ev_kind event)
      then (if ev_call_token event = 0 then IdentityResult.MissingCall
            else if ev_call_token event \<noteq> bnd_active_call_token bound
            then IdentityResult.WrongCall
            else IdentityResult.Applied)
      else if ev_call_token event \<noteq> 0 then IdentityResult.UnexpectedCall
      else IdentityResult.Applied)"

definition apply_identified_event ::
    "BoundBaresipState \<Rightarrow> u64 \<Rightarrow> BaresipNativeEvent \<Rightarrow> IdentityResult \<times> BoundBaresipState" where
  "apply_identified_event bound active_session event =
     (if identity_check bound active_session event \<noteq> IdentityResult.Applied
      then (identity_check bound active_session event, bound)
      else (let identified = event\<lparr>ev_call_id := ev_call_token event\<rparr>;
                (result, obs') = apply_baresip_event (bnd_observation bound) active_session identified;
                bound' = bound\<lparr>bnd_observation := obs'\<rparr>
            in if result \<noteq> EventTransition.Applied then (IdentityResult.InvalidOrder, bound')
               else if opening_kind (ev_kind event)
               then (IdentityResult.Applied,
                     bound'\<lparr>bnd_active_call_token := ev_call_token event,
                            bnd_last_call_token := ev_call_token event\<rparr>)
               else if ev_kind event = BaresipEventKind.CallClosed \<or>
                       ev_kind event = BaresipEventKind.TransportLost
               then (IdentityResult.Applied, bound'\<lparr>bnd_active_call_token := 0\<rparr>)
               else (IdentityResult.Applied, bound')))"

definition invalidate_identity :: "BoundBaresipState \<Rightarrow> BoundBaresipState" where
  "invalidate_identity bound = default_bound"

text \<open>The identity layer and the reducer it wraps never disagree about the call.\<close>

definition bound_inv :: "BoundBaresipState \<Rightarrow> bool" where
  "bound_inv b \<longleftrightarrow> obs_inv (bnd_observation b) \<and>
     bnd_active_call_token b = obs_call_id (bnd_observation b) \<and>
     bnd_last_call_token b = obs_last_call_id (bnd_observation b)"

lemma obs_inv_no_call: "obs_call_id obs = 0 \<Longrightarrow> \<not> in_call_status (obs_sip obs) \<Longrightarrow> obs_inv obs"
  by (simp add: obs_inv_def obs_line_def line_inv_def)

lemma bound_inv_default [simp]: "bound_inv default_bound"
  by (simp add: bound_inv_def default_bound_def default_observation_def obs_inv_no_call
      in_call_status_def)

lemma apply_identified_bound_inv:
  "bound_inv b \<Longrightarrow> bound_inv (snd (apply_identified_event b s e))"
proof (cases "identity_check b s e = IdentityResult.Applied")
  case False
  assume "bound_inv b"
  with False show ?thesis by (simp add: apply_identified_event_def)
next
  case True
  assume inv: "bound_inv b"
  let ?e = "e\<lparr>ev_call_id := ev_call_token e\<rparr>"
  obtain r o' where ro: "apply_baresip_event (bnd_observation b) s ?e = (r, o')"
    by fastforce
  have oinv: "obs_inv o'"
    using apply_inv [of "bnd_observation b" s ?e] inv ro by (simp add: bound_inv_def)
  show ?thesis
  proof (cases "r = EventTransition.Applied")
    case False
    then have "o' = bnd_observation b"
      using apply_not_Applied [of "bnd_observation b" s ?e] ro by simp
    with inv True ro False show ?thesis
      by (simp add: apply_identified_event_def bound_inv_def)
  next
    case r: True
    have step: "sip_step (obs_line (bnd_observation b)) (ev_kind e) (ev_call_token e) (obs_line o')"
      using ro r by (simp only: apply_Applied_iff) simp
    show ?thesis
      using step inv oinv True ro r
      by (cases "ev_kind e")
        (auto simp: apply_identified_event_def bound_inv_def obs_line_def sip_step_simps
          opening_kind_def)
  qed
qed


section \<open>Properties\<close>

text \<open>The tokens of the calls a list of events opens, in order.\<close>

definition opened_tokens :: "BaresipNativeEvent list \<Rightarrow> u64 list" where
  "opened_tokens es = map ev_call_id (filter (\<lambda>e. opening_kind (ev_kind e)) es)"

lemma opened_tokens_increasing:
  "reduce_events state s es = Some out \<Longrightarrow>
     sorted_wrt (<) (opened_tokens es) \<and> (\<forall>t \<in> set (opened_tokens es). obs_last_call_id state < t) \<and>
     obs_last_call_id out = (if opened_tokens es = [] then obs_last_call_id state
                             else last (opened_tokens es))"
proof (induction es arbitrary: state)
  case Nil
  then show ?case by (simp add: opened_tokens_def)
next
  case (Cons e es)
  then obtain mid where ap: "apply_baresip_event state s e = (EventTransition.Applied, mid)"
    and rest: "reduce_events mid s es = Some out"
    unfolding reduce_events_Cons_Some by blast
  have step: "sip_step (obs_line state) (ev_kind e) (ev_call_id e) (obs_line mid)"
    using ap by (simp only: apply_Applied_iff)
  have one: "(if opening_kind (ev_kind e)
      then obs_last_call_id state < ev_call_id e \<and> obs_last_call_id mid = ev_call_id e
      else obs_last_call_id mid = obs_last_call_id state)"
    using step by (cases "ev_kind e") (auto simp: obs_line_def sip_step_simps opening_kind_def)
  from Cons.IH [OF rest] one show ?case
    by (cases "opening_kind (ev_kind e)") (auto simp: opened_tokens_def)
qed

text \<open>
  C1. The reducer implements the SIP event protocol. An event is applied exactly when it carries
  the session of a currently proven observation and is a legal step of the protocol from the
  observed status, call token and last token; then only those three members change, to the
  protocol's next ones. An event that is not applied changes nothing.
\<close>

theorem reducer_implements_protocol:
  "(case apply_baresip_event state s event of (result, state') \<Rightarrow>
     (result = EventTransition.Applied \<longleftrightarrow>
        ev_session event = s \<and> sip_proof_is_current state s \<and>
        (\<exists>line. sip_step (obs_line state) (ev_kind event) (ev_call_id event) line)) \<and>
     (if result = EventTransition.Applied
      then sip_step (obs_line state) (ev_kind event) (ev_call_id event) (obs_line state') \<and>
           state' = state\<lparr>obs_sip := obs_sip state', obs_call_id := obs_call_id state',
                          obs_last_call_id := obs_last_call_id state'\<rparr>
      else state' = state))"
proof -
  obtain r st' where ap: "apply_baresip_event state s event = (r, st')" by fastforce
  show ?thesis
  proof (cases "r = EventTransition.Applied")
    case True
    with ap have "ev_session event = s \<and> sip_proof_is_current state s \<and>
        sip_step (obs_line state) (ev_kind event) (ev_call_id event) (obs_line st') \<and>
        st' = state\<lparr>obs_sip := obs_sip st', obs_call_id := obs_call_id st',
                    obs_last_call_id := obs_last_call_id st'\<rparr>"
      by (simp only: apply_Applied_iff)
    note facts = this
    from facts have "\<exists>line. sip_step (obs_line state) (ev_kind event) (ev_call_id event) line"
      by blast
    with facts True show ?thesis unfolding ap prod.case by (simp only: if_True simp_thms)
  next
    case False
    have "\<not> (ev_session event = s \<and> sip_proof_is_current state s \<and>
        (\<exists>line. sip_step (obs_line state) (ev_kind event) (ev_call_id event) line))"
      using False ap
      by (auto simp: apply_baresip_event_def is_stale_session_def sip_proof_is_current_def
          obs_line_def next_status_iff_step [symmetric] split: sum.splits)
    with False ap apply_not_Applied [of state s event] show ?thesis by simp
  qed
qed

text \<open>
  Whatever events a session delivers, as long as the reducer takes them: call tokens are
  strictly increasing, so none is ever used for two calls; the observation holds a call token
  exactly while calling, ringing or in a call, and it is the last one opened.
\<close>

theorem session_call_tokens:
  assumes "reduce_events (observation RuntimeProcess.Running SipStatus.Unavailable
      SipEvidence.VerifiedNativeApi s) s es = Some out"
  shows "sorted_wrt (<) (opened_tokens es) \<and> 0 \<notin> set (opened_tokens es) \<and>
    (obs_call_id out \<noteq> 0 \<longleftrightarrow> obs_sip out \<in> {SipStatus.Calling, SipStatus.Ringing, SipStatus.InCall}) \<and>
    (obs_call_id out \<noteq> 0 \<longrightarrow> opened_tokens es \<noteq> [] \<and> obs_call_id out = last (opened_tokens es))"
proof -
  have "obs_inv out"
    by (rule reduce_events_inv [OF assms]) (auto intro!: obs_inv_no_call simp: in_call_status_def)
  then have line: "obs_call_id out \<noteq> 0 \<longleftrightarrow> in_call_status (obs_sip out)"
    "obs_call_id out \<noteq> 0 \<Longrightarrow> obs_call_id out = obs_last_call_id out"
    by (auto simp: obs_inv_def obs_line_def line_inv_def)
  from opened_tokens_increasing [OF assms] line show ?thesis
    by (auto simp: in_call_status_def split: if_splits)
qed

definition two_call_events :: "BaresipNativeEvent list" where
  "two_call_events =
     [native_event BaresipEventKind.Registering 4 0, native_event BaresipEventKind.RegisterOk 4 0,
      native_event BaresipEventKind.CallIncoming 4 1, native_event BaresipEventKind.CallClosed 4 1,
      native_event BaresipEventKind.CallOutgoing 4 2]"

theorem session_call_tokens_witness:
  "sorted_wrt (<) (opened_tokens two_call_events) \<and> opened_tokens two_call_events = [1, 2]"
proof -
  have "reduce_events (observation RuntimeProcess.Running SipStatus.Unavailable
      SipEvidence.VerifiedNativeApi 4) 4 two_call_events =
    Some \<lparr>obs_process = RuntimeProcess.Running, obs_sip = SipStatus.Calling,
      obs_evidence = SipEvidence.VerifiedNativeApi, obs_session = 4, obs_call_id = 2,
      obs_last_call_id = 2\<rparr>"
    by code_simp
  from session_call_tokens [OF this] show ?thesis
    by (simp add: opened_tokens_def two_call_events_def opening_kind_def)
qed

text \<open>
  The identity layer adds checks but no verdicts: on a state whose tokens agree with its
  observation, an event of the selected account whose call token and call id coincide is
  applied by the identity layer exactly when the plain reducer applies it, with the same
  observation, and the tokens still agree afterwards.
\<close>

theorem identity_agrees_with_reducer:
  assumes "bound_inv b" and "bnd_expected_account_token b \<noteq> 0"
    and "ev_account_token e = bnd_expected_account_token b" and "ev_call_token e = ev_call_id e"
  shows "(fst (apply_identified_event b s e) = IdentityResult.Applied \<longleftrightarrow>
      fst (apply_baresip_event (bnd_observation b) s e) = EventTransition.Applied) \<and>
    bnd_observation (snd (apply_identified_event b s e)) =
      snd (apply_baresip_event (bnd_observation b) s e) \<and>
    bound_inv (snd (apply_identified_event b s e))"
proof -
  have e: "e\<lparr>ev_call_id := ev_call_token e\<rparr> = e" using assms(4) by simp
  have "fst (apply_baresip_event (bnd_observation b) s e) \<noteq> EventTransition.Applied"
    if "identity_check b s e \<noteq> IdentityResult.Applied"
    using that assms
    by (cases "ev_kind e")
      (auto simp: identity_check_def bound_inv_def apply_baresip_event_def next_status.simps
        is_stale_session_def sip_proof_is_current_def opening_kind_def continuing_kind_def
        split: if_splits)
  then show ?thesis
    using apply_identified_bound_inv [OF assms(1), of s e] apply_not_Applied [of "bnd_observation b" s e]
    by (auto simp: apply_identified_event_def e Let_def split: prod.splits)
qed

theorem identity_agrees_with_reducer_witness:
  "fst (apply_identified_event
      (default_bound\<lparr>bnd_observation := observation RuntimeProcess.Running SipStatus.Registering
          SipEvidence.VerifiedNativeApi 4, bnd_expected_account_token := 9\<rparr>) 4
      ((native_event BaresipEventKind.RegisterOk 4 0)\<lparr>ev_account_token := 9\<rparr>)) =
    IdentityResult.Applied"
proof -
  let ?b = "default_bound\<lparr>bnd_observation := observation RuntimeProcess.Running
      SipStatus.Registering SipEvidence.VerifiedNativeApi 4, bnd_expected_account_token := 9\<rparr>"
  let ?e = "(native_event BaresipEventKind.RegisterOk 4 0)\<lparr>ev_account_token := 9\<rparr>"
  have "bound_inv ?b"
    by (auto simp: bound_inv_def default_bound_def in_call_status_def intro!: obs_inv_no_call)
  moreover have "fst (apply_baresip_event (bnd_observation ?b) 4 ?e) = EventTransition.Applied"
    by code_simp
  ultimately show ?thesis
    using identity_agrees_with_reducer [of ?b ?e 4] by simp
qed

end
