(* ===== verification/Event_Mailbox.thy ===== *)
theory Event_Mailbox
  imports Event_Reducer
begin

text \<open>
  The bounded, session-fenced mailbox between the native callback thread and the UI thread
  (\<open>baresip_event_mailbox.h\<close>). Every operation runs under one mutex, so each is a function on
  the state. The ring buffer is kept as the source has it, a fixed array with \<open>first_\<close> and
  \<open>pending_\<close>; \<open>mailbox_events\<close> abstracts it to the list of events it holds. The contract its
  clients rely on is the locale \<open>session_queue\<close>, interpreted on the mailbox at the end.
\<close>

section \<open>The mailbox\<close>

definition mailbox_capacity :: nat where
  "mailbox_capacity = 32"

record BaresipEventMailbox =
  mb_entries :: "BaresipNativeEvent list"
  mb_pending :: nat
  mb_first :: nat
  mb_generation :: u64
  mb_session :: u64
  mb_overflow :: bool

definition empty_mailbox :: BaresipEventMailbox where
  "empty_mailbox = \<lparr>mb_entries = replicate mailbox_capacity default_event, mb_pending = 0,
     mb_first = 0, mb_generation = 0, mb_session = 0, mb_overflow = False\<rparr>"

text \<open>\<open>Batch\<close>: a fixed array, of which the first \<open>size\<close> entries are events.\<close>

record Batch =
  batch_events :: "BaresipNativeEvent list"
  batch_size :: nat
  batch_session :: u64
  batch_overflow :: bool

definition default_batch :: Batch where
  "default_batch = \<lparr>batch_events = replicate mailbox_capacity default_event, batch_size = 0,
     batch_session = 0, batch_overflow = False\<rparr>"

definition mailbox_begin_session :: "BaresipEventMailbox \<Rightarrow> u64 \<times> BaresipEventMailbox" where
  "mailbox_begin_session mb =
     (if mb_generation mb = u64_max
      then (0, mb\<lparr>mb_session := 0, mb_overflow := True, mb_pending := 0\<rparr>)
      else (let g = mb_generation mb + 1
            in (g, mb\<lparr>mb_generation := g, mb_session := g, mb_pending := 0, mb_first := 0,
                      mb_overflow := False\<rparr>)))"

definition mailbox_invalidate_session :: "BaresipEventMailbox \<Rightarrow> BaresipEventMailbox" where
  "mailbox_invalidate_session mb =
     mb\<lparr>mb_session := 0, mb_pending := 0, mb_first := 0, mb_overflow := False\<rparr>"

definition mailbox_enqueue ::
    "BaresipEventMailbox \<Rightarrow> BaresipNativeEvent \<Rightarrow> bool \<times> BaresipEventMailbox" where
  "mailbox_enqueue mb event =
     (if mb_session mb = 0 \<or> ev_session event \<noteq> mb_session mb \<or> mb_overflow mb
      then (False, mb)
      else if mb_pending mb = mailbox_capacity
      then (False, mb\<lparr>mb_pending := 0, mb_first := 0, mb_overflow := True\<rparr>)
      else (True, mb\<lparr>mb_entries :=
              (mb_entries mb)[(mb_first mb + mb_pending mb) mod mailbox_capacity := event],
              mb_pending := mb_pending mb + 1\<rparr>))"

definition mailbox_drain :: "BaresipEventMailbox \<Rightarrow> Batch \<times> BaresipEventMailbox" where
  "mailbox_drain mb =
     (let n = (if mb_overflow mb then 0 else mb_pending mb)
      in (\<lparr>batch_events = ring_slice (mb_entries mb) (mb_first mb) n @
             replicate (mailbox_capacity - n) default_event,
           batch_size = n, batch_session = mb_session mb, batch_overflow = mb_overflow mb\<rparr>,
          mb\<lparr>mb_first := 0, mb_pending := 0\<rparr>))"

declare mailbox_begin_session_def [step_defs] mailbox_invalidate_session_def [step_defs]
  mailbox_enqueue_def [step_defs] mailbox_drain_def [step_defs]

section \<open>Representation invariant and abstraction\<close>

definition mailbox_events :: "BaresipEventMailbox \<Rightarrow> BaresipNativeEvent list" where
  "mailbox_events mb = ring_slice (mb_entries mb) (mb_first mb) (mb_pending mb)"

definition mailbox_inv :: "BaresipEventMailbox \<Rightarrow> bool" where
  "mailbox_inv mb \<longleftrightarrow>
     length (mb_entries mb) = mailbox_capacity \<and> mb_pending mb \<le> mailbox_capacity \<and>
     mb_session mb \<le> mb_generation mb \<and>
     (mb_overflow mb \<longrightarrow> mb_pending mb = 0) \<and> (mb_session mb = 0 \<longrightarrow> mb_pending mb = 0) \<and>
     (\<forall>e \<in> set (mailbox_events mb). ev_session e = mb_session mb)"

text \<open>The events of a batch, as the consumers read them.\<close>

definition batch_list :: "Batch \<Rightarrow> BaresipNativeEvent list" where
  "batch_list b = take (batch_size b) (batch_events b)"

lemma mailbox_inv_empty [simp]: "mailbox_inv empty_mailbox"
  by (simp add: mailbox_inv_def empty_mailbox_def mailbox_events_def)

lemma begin_session_inv: "mailbox_inv mb \<Longrightarrow> mailbox_inv (snd (mailbox_begin_session mb))"
  by (simp add: mailbox_inv_def mailbox_begin_session_def mailbox_events_def Let_def)

lemma invalidate_inv [simp]: "mailbox_inv mb \<Longrightarrow> mailbox_inv (mailbox_invalidate_session mb)"
  by (simp add: mailbox_inv_def mailbox_invalidate_session_def mailbox_events_def)

lemma enqueue_events:
  assumes "mailbox_inv mb"
  shows "mailbox_events (snd (mailbox_enqueue mb e)) =
     (if fst (mailbox_enqueue mb e) then mailbox_events mb @ [e]
      else if mb_session mb \<noteq> 0 \<and> ev_session e = mb_session mb then []
      else mailbox_events mb)"
  using assms ring_slice_push [of "mb_pending mb" "mb_entries mb" "mb_first mb" e]
  by (auto simp: mailbox_inv_def mailbox_enqueue_def mailbox_events_def)

lemma enqueue_inv: "mailbox_inv mb \<Longrightarrow> mailbox_inv (snd (mailbox_enqueue mb e))"
  using enqueue_events [of mb e]
  by (auto simp: mailbox_inv_def mailbox_enqueue_def split: if_splits)

lemma drain_inv: "mailbox_inv mb \<Longrightarrow> mailbox_inv (snd (mailbox_drain mb))"
  by (simp add: mailbox_inv_def mailbox_drain_def mailbox_events_def Let_def)

lemma drain_list: "mailbox_inv mb \<Longrightarrow> batch_list (fst (mailbox_drain mb)) = mailbox_events mb"
  by (simp add: mailbox_inv_def mailbox_drain_def batch_list_def mailbox_events_def Let_def)

lemma drain_fields [simp]:
  "batch_session (fst (mailbox_drain mb)) = mb_session mb"
  "batch_overflow (fst (mailbox_drain mb)) = mb_overflow mb"
  by (simp_all add: mailbox_drain_def Let_def)

lemma drain_bounds:
  "mailbox_inv mb \<Longrightarrow> batch_size (fst (mailbox_drain mb)) \<le> length (batch_events (fst (mailbox_drain mb)))"
  "mailbox_inv mb \<Longrightarrow> length (batch_events (fst (mailbox_drain mb))) = mailbox_capacity"
  by (auto simp: mailbox_inv_def mailbox_drain_def Let_def)

lemma mailbox_events_length: "mailbox_inv mb \<Longrightarrow> length (mailbox_events mb) \<le> mailbox_capacity"
  by (simp add: mailbox_inv_def mailbox_events_def)

section \<open>The contract of a session-fenced queue\<close>

text \<open>
  What the producers of SIP events rely on. \<open>live q\<close> is the session the queue accepts events
  for (0: none), \<open>events q\<close> the events it holds, \<open>spent q\<close> the largest session ever issued.
\<close>

locale session_queue =
  fixes begin_s :: "'q \<Rightarrow> u64 \<times> 'q"
    and invalidate :: "'q \<Rightarrow> 'q"
    and put :: "'q \<Rightarrow> BaresipNativeEvent \<Rightarrow> bool \<times> 'q"
    and live :: "'q \<Rightarrow> u64"
    and events :: "'q \<Rightarrow> BaresipNativeEvent list"
    and spent :: "'q \<Rightarrow> u64"
    and inv :: "'q \<Rightarrow> bool"
  assumes inv_begin: "inv q \<Longrightarrow> inv (snd (begin_s q))"
    and inv_invalidate: "inv q \<Longrightarrow> inv (invalidate q)"
    and inv_put: "inv q \<Longrightarrow> inv (snd (put q e))"
    and live_begin: "inv q \<Longrightarrow> live (snd (begin_s q)) = fst (begin_s q)"
    and fresh_begin: "inv q \<Longrightarrow> fst (begin_s q) \<noteq> 0 \<Longrightarrow>
          spent q < fst (begin_s q) \<and> spent (snd (begin_s q)) = fst (begin_s q)"
    and spent_begin: "inv q \<Longrightarrow> spent q \<le> spent (snd (begin_s q))"
    and events_begin: "inv q \<Longrightarrow> events (snd (begin_s q)) = []"
    and live_invalidate: "live (invalidate q) = 0"
    and events_invalidate: "inv q \<Longrightarrow> events (invalidate q) = []"
    and spent_invalidate: "spent (invalidate q) = spent q"
    and live_put: "live (snd (put q e)) = live q"
    and spent_put: "spent (snd (put q e)) = spent q"
    and put_accepts: "inv q \<Longrightarrow> fst (put q e) \<Longrightarrow>
          live q \<noteq> 0 \<and> ev_session e = live q \<and> events (snd (put q e)) = events q @ [e]"
    and put_refuses: "inv q \<Longrightarrow> \<not> fst (put q e) \<Longrightarrow>
          events (snd (put q e)) = events q \<or> events (snd (put q e)) = []"
    and live_bound: "inv q \<Longrightarrow> live q \<le> spent q"
    and events_live: "inv q \<Longrightarrow> e \<in> set (events q) \<Longrightarrow> ev_session e = live q"
begin

text \<open>Publishing a list of events, stopping at the first refusal.\<close>

fun put_all :: "'q \<Rightarrow> BaresipNativeEvent list \<Rightarrow> bool \<times> 'q" where
  "put_all q [] = (True, q)"
| "put_all q (e # es) = (case put q e of (ok, q') \<Rightarrow> if ok then put_all q' es else (False, q'))"

lemma put_all_accepts:
  "inv q \<Longrightarrow> fst (put_all q es) \<Longrightarrow> events (snd (put_all q es)) = events q @ es"
proof (induction es arbitrary: q)
  case Nil
  then show ?case by simp
next
  case (Cons e es)
  obtain ok q' where p: "put q e = (ok, q')" by fastforce
  then have ok: "ok" using Cons.prems(2) by (simp split: if_splits)
  then have "events q' = events q @ [e]" and "inv q'"
    using put_accepts [of q e] inv_put [of q e] Cons.prems(1) p by auto
  with Cons.IH [of q'] Cons.prems(2) p ok show ?case by simp
qed

text \<open>No history is ever delivered with a gap: what a queue holds after a publication is a
  suffix-closed continuation or nothing at all.\<close>

lemma put_all_no_gap:
  "inv q \<Longrightarrow> \<exists>k\<le>length es. events (snd (put_all q es)) = events q @ take k es \<or>
     events (snd (put_all q es)) = []"
proof (induction es arbitrary: q)
  case Nil
  then show ?case by simp
next
  case (Cons e es)
  obtain ok q' where p: "put q e = (ok, q')" by fastforce
  show ?case
  proof (cases ok)
    case True
    with p Cons.prems have q': "events q' = events q @ [e]" "inv q'"
      using put_accepts [of q e] inv_put [of q e] by auto
    from Cons.IH [OF q'(2)] obtain k where
      "k \<le> length es" and "events (snd (put_all q' es)) = events q' @ take k es \<or>
        events (snd (put_all q' es)) = []" by blast
    with q' p True show ?thesis
      by (intro exI [of _ "Suc k"]) auto
  next
    case False
    with p Cons.prems show ?thesis
      using put_refuses [of q e] by auto
  qed
qed

text \<open>An event of an old session is never accepted again: sessions are not reused.\<close>

lemma stale_event_refused:
  assumes "inv q" "ev_session e \<le> spent q" "fst (begin_s q) \<noteq> 0"
  shows "\<not> fst (put (snd (begin_s q)) e)"
  using fresh_begin [OF assms(1,3)] put_accepts [of "snd (begin_s q)" e] inv_begin [OF assms(1)]
    live_begin [OF assms(1)] assms(2) by fastforce

end

interpretation mailbox: session_queue
  where begin_s = mailbox_begin_session and invalidate = mailbox_invalidate_session
    and put = mailbox_enqueue and live = mb_session and events = mailbox_events
    and spent = mb_generation and inv = mailbox_inv
proof (unfold_locales, goal_cases)
  case (1 q) then show ?case by (rule begin_session_inv)
next
  case (2 q) then show ?case by simp
next
  case (3 q e) then show ?case by (rule enqueue_inv)
next
  case (4 q) then show ?case by (simp add: mailbox_begin_session_def Let_def)
next
  case (5 q) then show ?case by (auto simp: mailbox_begin_session_def Let_def split: if_splits)
next
  case (6 q) then show ?case
    by (auto simp: mailbox_begin_session_def Let_def intro: less_imp_le)
next
  case (7 q) then show ?case
    by (simp add: mailbox_begin_session_def mailbox_events_def Let_def)
next
  case (8 q) then show ?case by (simp add: mailbox_invalidate_session_def)
next
  case (9 q) then show ?case by (simp add: mailbox_invalidate_session_def mailbox_events_def)
next
  case (10 q) then show ?case by (simp add: mailbox_invalidate_session_def)
next
  case (11 q e) then show ?case by (simp add: mailbox_enqueue_def)
next
  case (12 q e) then show ?case by (simp add: mailbox_enqueue_def)
next
  case (13 q e) then show ?case
    using enqueue_events [of q e] by (auto simp: mailbox_enqueue_def split: if_splits)
next
  case (14 q e) then show ?case using enqueue_events [of q e] by auto
next
  case (15 q) then show ?case by (simp add: mailbox_inv_def)
next
  case (16 q e) then show ?case by (simp add: mailbox_inv_def)
qed

section \<open>Properties\<close>

text \<open>
  C2. The mailbox delivers whole histories or nothing. After a session starts, publishing a
  list of events of that session and draining gives back exactly that list, in order, when it
  fits the 32 slots; when it does not, the batch is empty and flagged as an overflow. A partial
  history is never delivered.
\<close>

theorem mailbox_whole_history:
  assumes "mailbox_inv mb" and "mailbox_begin_session mb = (s, mb1)" and "s \<noteq> 0"
    and "\<forall>e \<in> set es. ev_session e = s"
  shows "let mb2 = foldl (\<lambda>m e. snd (mailbox_enqueue m e)) mb1 es; batch = fst (mailbox_drain mb2)
    in batch_session batch = s \<and>
       (if length es \<le> mailbox_capacity
        then batch_list batch = es \<and> \<not> batch_overflow batch
        else batch_list batch = [] \<and> batch_overflow batch)"
proof -
  let ?put = "\<lambda>m e. snd (mailbox_enqueue m e)"
  have start: "mailbox_inv mb1" "mb_session mb1 = s" "mailbox_events mb1 = []" "\<not> mb_overflow mb1"
    using mailbox.inv_begin [OF assms(1)] mailbox.live_begin [OF assms(1)]
      mailbox.events_begin [OF assms(1)] assms(2,3)
    by (auto simp: mailbox_begin_session_def Let_def split: if_splits)
  have over: "mailbox_inv (foldl ?put m fs) \<and> mb_session (foldl ?put m fs) = s \<and>
      mb_overflow (foldl ?put m fs)"
    if "mailbox_inv m" "mb_session m = s" "mb_overflow m" for m fs
    using that by (induction fs arbitrary: m) (auto simp: mailbox_enqueue_def)
  have run: "mailbox_inv (foldl ?put m fs) \<and> mb_session (foldl ?put m fs) = s \<and>
      (if length (mailbox_events m) + length fs \<le> mailbox_capacity
       then mailbox_events (foldl ?put m fs) = mailbox_events m @ fs \<and> \<not> mb_overflow (foldl ?put m fs)
       else mb_overflow (foldl ?put m fs))"
    if "mailbox_inv m" "mb_session m = s" "\<not> mb_overflow m" "\<forall>e \<in> set fs. ev_session e = s" for m fs
    using that
  proof (induction fs arbitrary: m)
    case Nil
    then show ?case using mailbox_events_length by simp
  next
    case (Cons e fs)
    have len: "length (mailbox_events m) = mb_pending m" by (simp add: mailbox_events_def)
    have inv: "mailbox_inv (?put m e)" by (rule enqueue_inv [OF Cons.prems(1)])
    show ?case
    proof (cases "mb_pending m = mailbox_capacity")
      case True
      then have "mb_overflow (?put m e)" "mb_session (?put m e) = s"
        using Cons.prems assms(3) by (auto simp: mailbox_enqueue_def)
      with over [OF inv] True len show ?thesis by simp
    next
      case False
      then have "fst (mailbox_enqueue m e)" "mb_session (?put m e) = s" "\<not> mb_overflow (?put m e)"
        using Cons.prems assms(3) by (auto simp: mailbox_enqueue_def)
      with enqueue_events [OF Cons.prems(1), of e] Cons.IH [OF inv] Cons.prems(4)
      show ?thesis by simp
    qed
  qed
  let ?m = "foldl ?put mb1 es"
  from run [OF start(1,2,4) assms(4)] start(3) have m: "mailbox_inv ?m" "mb_session ?m = s"
    "if length es \<le> mailbox_capacity then mailbox_events ?m = es \<and> \<not> mb_overflow ?m
     else mb_overflow ?m" by auto
  moreover have "mb_overflow ?m \<Longrightarrow> mailbox_events ?m = []"
    using m(1) by (simp add: mailbox_inv_def mailbox_events_def)
  ultimately show ?thesis
    using drain_list [OF m(1)] by (auto simp: Let_def split: if_splits)
qed

theorem mailbox_whole_history_witness:
  "batch_list (fst (mailbox_drain (foldl (\<lambda>m e. snd (mailbox_enqueue m e))
      (snd (mailbox_begin_session empty_mailbox)) (replicate 33 (native_event BaresipEventKind.RegisterOk 1 0))))) = []"
proof -
  have "mailbox_begin_session empty_mailbox = (1, snd (mailbox_begin_session empty_mailbox))"
    by (simp add: mailbox_begin_session_def empty_mailbox_def Let_def)
  from mailbox_whole_history [OF mailbox_inv_empty this, of "replicate 33 (native_event BaresipEventKind.RegisterOk 1 0)"]
  show ?thesis by (simp add: Let_def mailbox_capacity_def)
qed

end
