(* ===== verification/Event_Projection.thy ===== *)
theory Event_Projection
  imports Event_Mailbox
begin

text \<open>
  The UI-thread projections of a drained batch onto one observation:
  \<open>legacy_sip_event_projection.h\<close>, \<open>sip_event_projection.h\<close>, the session guard
  \<open>sip_runtime_session_guard.h\<close>, and \<open>project_native_sdk_batch\<close> of
  \<open>native_session_control.h\<close>. Both projections fail closed: a broken sequence, an overflow or
  withdrawn evidence rejects the whole session. What they have in common is the locale
  \<open>fenced_projection\<close>; it is interpreted on both.
\<close>

section \<open>The legacy projection\<close>

record LegacySipEventProjection =
  leg_state :: SipRuntimeObservation
  leg_rejected_session :: u64

definition default_legacy :: LegacySipEventProjection where
  "default_legacy = \<lparr>leg_state = default_observation, leg_rejected_session = 0\<rparr>"

text \<open>\<open>{process, SipStatus::Unavailable, SipEvidence::None, 0}\<close>.\<close>

definition unverified :: "RuntimeProcess \<Rightarrow> SipRuntimeObservation" where
  "unverified process = observation process SipStatus.Unavailable SipEvidence.NoEvidence 0"

text \<open>The observation a session starts from, before its first event.\<close>

definition session_start :: "u64 \<Rightarrow> SipRuntimeObservation" where
  "session_start s =
     observation RuntimeProcess.Running SipStatus.Unavailable SipEvidence.VerifiedNativeApi s"

definition legacy_reject :: "u64 \<Rightarrow> RuntimeProcess \<Rightarrow> LegacySipEventProjection" where
  "legacy_reject session process =
     \<lparr>leg_state = unverified process, leg_rejected_session = session\<rparr>"

definition legacy_observe ::
    "LegacySipEventProjection \<Rightarrow> RuntimeProcess \<Rightarrow> SipEvidence \<Rightarrow> Batch \<Rightarrow> LegacySipEventProjection"
  where
  "legacy_observe p process evidence batch =
     (if process \<noteq> RuntimeProcess.Running \<or> batch_session batch = 0
      then \<lparr>leg_state = unverified process,
            leg_rejected_session = (if obs_session (leg_state p) \<noteq> 0
              then obs_session (leg_state p) else leg_rejected_session p)\<rparr>
      else if batch_session batch = leg_rejected_session p
      then p\<lparr>leg_state := unverified process\<rparr>
      else if batch_overflow batch \<or> batch_size batch > mailbox_capacity
      then legacy_reject (batch_session batch) process
      else if evidence \<noteq> SipEvidence.VerifiedNativeApi
      then \<lparr>leg_state = unverified process,
            leg_rejected_session =
              (if obs_evidence (leg_state p) = SipEvidence.VerifiedNativeApi
               then batch_session batch else leg_rejected_session p)\<rparr>
      else (let state = (if obs_session (leg_state p) \<noteq> batch_session batch \<or>
                            obs_evidence (leg_state p) \<noteq> evidence
                         then observation process SipStatus.Unavailable evidence
                                (batch_session batch)
                         else leg_state p)
            in case reduce_events state (batch_session batch) (batch_list batch) of
                 Some state' \<Rightarrow> p\<lparr>leg_state := state'\<rparr>
               | None \<Rightarrow> legacy_reject (batch_session batch) process))"

section \<open>The identity projection\<close>

text \<open>Folding \<open>apply_identified_event\<close> until the first event it refuses.\<close>

fun reduce_identified ::
    "BoundBaresipState \<Rightarrow> u64 \<Rightarrow> BaresipNativeEvent list \<Rightarrow> BoundBaresipState option" where
  "reduce_identified b s [] = Some b"
| "reduce_identified b s (e # es) =
     (case apply_identified_event b s e of
        (IdentityResult.Applied, b') \<Rightarrow> reduce_identified b' s es
      | _ \<Rightarrow> None)"

record SipEventProjection =
  prj_identity_mode :: bool
  prj_legacy :: LegacySipEventProjection
  prj_bound :: BoundBaresipState
  prj_rejected_session :: u64

definition default_projection :: SipEventProjection where
  "default_projection = \<lparr>prj_identity_mode = False, prj_legacy = default_legacy,
     prj_bound = default_bound, prj_rejected_session = 0\<rparr>"

text \<open>\<open>invalidate_identity(bound_); bound_.observation.process = process;\<close>\<close>

definition invalidated :: "BoundBaresipState \<Rightarrow> RuntimeProcess \<Rightarrow> BoundBaresipState" where
  "invalidated b process = (invalidate_identity b)\<lparr>bnd_observation :=
     (bnd_observation (invalidate_identity b))\<lparr>obs_process := process\<rparr>\<rparr>"

definition projection_reject ::
    "SipEventProjection \<Rightarrow> u64 \<Rightarrow> RuntimeProcess \<Rightarrow> SipEventProjection" where
  "projection_reject p session process =
     p\<lparr>prj_rejected_session := session, prj_bound := invalidated (prj_bound p) process\<rparr>"

definition observe_identified ::
    "SipEventProjection \<Rightarrow> RuntimeProcess \<Rightarrow> SipEvidence \<Rightarrow> Batch \<Rightarrow> u64 \<Rightarrow> SipEventProjection"
  where
  "observe_identified p0 process evidence batch expected_account_token =
     (let p = p0\<lparr>prj_identity_mode := True\<rparr>; bound = prj_bound p; obs = bnd_observation bound in
      if process \<noteq> RuntimeProcess.Running \<or> batch_session batch = 0
      then p\<lparr>prj_rejected_session :=
               (if obs_session obs \<noteq> 0 then obs_session obs else prj_rejected_session p),
             prj_bound := invalidated bound process\<rparr>
      else if batch_session batch = prj_rejected_session p
      then p\<lparr>prj_bound := invalidated bound process\<rparr>
      else if batch_overflow batch \<or> batch_size batch > mailbox_capacity
      then projection_reject p (batch_session batch) process
      else if evidence \<noteq> SipEvidence.VerifiedNativeApi \<or> expected_account_token = 0
      then p\<lparr>prj_rejected_session :=
               (if obs_evidence obs = SipEvidence.VerifiedNativeApi
                then batch_session batch else prj_rejected_session p),
             prj_bound := invalidated bound process\<rparr>
      else (let bound' = (if obs_session obs \<noteq> batch_session batch \<or> obs_evidence obs \<noteq> evidence
                          then (invalidate_identity bound)\<lparr>bnd_observation :=
                                  observation process SipStatus.Unavailable evidence
                                    (batch_session batch),
                                bnd_expected_account_token := expected_account_token\<rparr>
                          else bound)
            in if bnd_expected_account_token bound' \<noteq> expected_account_token
               then projection_reject p (batch_session batch) process
               else (case reduce_identified bound' (batch_session batch) (batch_list batch) of
                       Some bound'' \<Rightarrow> p\<lparr>prj_bound := bound''\<rparr>
                     | None \<Rightarrow> projection_reject p (batch_session batch) process)))"

text \<open>The three-argument \<open>observe\<close>, and \<open>snapshot\<close>.\<close>

definition projection_observe ::
    "SipEventProjection \<Rightarrow> RuntimeProcess \<Rightarrow> SipEvidence \<Rightarrow> Batch \<Rightarrow> SipEventProjection" where
  "projection_observe p process evidence batch =
     (if prj_identity_mode p
      then observe_identified p process evidence batch (bnd_expected_account_token (prj_bound p))
      else p\<lparr>prj_legacy := legacy_observe (prj_legacy p) process evidence batch\<rparr>)"

definition projection_snapshot :: "SipEventProjection \<Rightarrow> SipRuntimeObservation" where
  "projection_snapshot p =
     (if prj_identity_mode p then bnd_observation (prj_bound p) else leg_state (prj_legacy p))"

section \<open>The session guard\<close>

text \<open>\<open>guard_previous\<close> is the guard's only member; the calls act on mailbox and projection.\<close>

definition guard_observe ::
    "RuntimeProcess \<Rightarrow> RuntimeProcess \<Rightarrow> SipEvidence \<Rightarrow> BaresipEventMailbox \<Rightarrow> SipEventProjection \<Rightarrow>
     RuntimeProcess \<times> BaresipEventMailbox \<times> SipEventProjection" where
  "guard_observe guard_previous process evidence mb p =
     (let mb = (if process \<noteq> RuntimeProcess.Running \<or> guard_previous \<noteq> RuntimeProcess.Running
                then mailbox_invalidate_session mb else mb);
          (batch, mb) = mailbox_drain mb
      in (process, mb, projection_observe p process evidence batch))"

definition guard_revoke ::
    "RuntimeProcess \<Rightarrow> BaresipEventMailbox \<Rightarrow> SipEventProjection \<Rightarrow>
     RuntimeProcess \<times> BaresipEventMailbox \<times> SipEventProjection" where
  "guard_revoke process mb p =
     (let process = (if process = RuntimeProcess.Running then RuntimeProcess.Stopped else process);
          mb = mailbox_invalidate_session mb;
          (batch, mb) = mailbox_drain mb
      in (process, mb, projection_observe p process SipEvidence.NoEvidence batch))"

section \<open>The SDK batch\<close>

definition live_status :: "SipStatus \<Rightarrow> bool" where
  "live_status st \<longleftrightarrow> st = SipStatus.Registered \<or> st = SipStatus.Calling \<or>
     st = SipStatus.Ringing \<or> st = SipStatus.InCall"

text \<open>The loop over the events of the batch: \<open>blank\<close> (the source's \<open>empty\<close>) is the batch with size 0.\<close>

fun project_events ::
    "SipEventProjection \<Rightarrow> Batch \<Rightarrow> bool \<Rightarrow> BaresipNativeEvent list \<Rightarrow> SipEventProjection" where
  "project_events p blank register_confirmed [] = p"
| "project_events p blank register_confirmed (e # es) =
     (let state = projection_snapshot p in
      if register_confirmed \<and> live_status (obs_sip state) \<and>
         sip_proof_is_current state (batch_session blank) \<and>
         ev_kind e = BaresipEventKind.RegisterOk \<and> ev_session e = batch_session blank \<and>
         ev_call_id e = 0
      then project_events p blank register_confirmed es
      else project_events
             (projection_observe p RuntimeProcess.Running SipEvidence.VerifiedNativeApi
                (blank\<lparr>batch_events := (batch_events blank)[0 := e], batch_size := 1\<rparr>))
             blank register_confirmed es)"

definition project_native_sdk_batch ::
    "SipEventProjection \<Rightarrow> Batch \<Rightarrow> bool \<Rightarrow> SipRuntimeObservation \<times> SipEventProjection" where
  "project_native_sdk_batch p batch register_confirmed =
     (let blank = batch\<lparr>batch_size := 0\<rparr>;
          p1 = projection_observe p RuntimeProcess.Running SipEvidence.VerifiedNativeApi blank
      in if batch_overflow batch \<or> batch_size batch > mailbox_capacity
         then (let p2 = projection_observe p1 RuntimeProcess.Running
                          SipEvidence.VerifiedNativeApi batch
               in (projection_snapshot p2, p2))
         else (let p2 = project_events p1 blank register_confirmed (batch_list batch);
                   state = projection_snapshot p2
               in if live_status (obs_sip state) \<and> \<not> register_confirmed
                  then (let p3 = projection_observe p2 RuntimeProcess.Failed
                                   SipEvidence.NoEvidence default_batch
                        in (projection_snapshot p3, p3))
                  else (state, p2)))"

section \<open>The contract of a fenced projection\<close>

text \<open>
  An input is what one call of \<open>observe\<close> receives. The laws say where proof can come from, what
  the projection can remember as rejected, and which session it can report.
\<close>

record ProjectionInput =
  in_process :: RuntimeProcess
  in_evidence :: SipEvidence
  in_batch :: Batch

text \<open>Batches as the mailbox issues them: session 0 or never smaller than before.\<close>

fun sessions_from :: "u64 \<Rightarrow> ProjectionInput list \<Rightarrow> bool" where
  "sessions_from m [] \<longleftrightarrow> True"
| "sessions_from m (i # is) \<longleftrightarrow>
     (if batch_session (in_batch i) = 0 then sessions_from m is
      else m \<le> batch_session (in_batch i) \<and> sessions_from (batch_session (in_batch i)) is)"

locale fenced_projection =
  fixes see :: "'p \<Rightarrow> ProjectionInput \<Rightarrow> 'p"
    and shown :: "'p \<Rightarrow> SipRuntimeObservation"
    and rejected :: "'p \<Rightarrow> u64"
  assumes shown_session: "obs_session (shown (see p i)) = 0 \<or>
        in_process i = RuntimeProcess.Running \<and> in_evidence i = SipEvidence.VerifiedNativeApi \<and>
        \<not> batch_overflow (in_batch i) \<and>
        obs_session (shown (see p i)) = batch_session (in_batch i) \<and>
        batch_session (in_batch i) \<noteq> rejected p"
    and rejected_from: "rejected (see p i) = rejected p \<or>
        rejected (see p i) = obs_session (shown p) \<and> obs_session (shown p) \<noteq> 0 \<or>
        rejected (see p i) = batch_session (in_batch i) \<and> batch_session (in_batch i) \<noteq> 0 \<and>
          batch_session (in_batch i) \<noteq> rejected p"
begin

lemma proof_needs_evidence:
  "sip_proof_is_current (shown (see p i)) s \<Longrightarrow>
     in_process i = RuntimeProcess.Running \<and> in_evidence i = SipEvidence.VerifiedNativeApi \<and>
     \<not> batch_overflow (in_batch i) \<and> batch_session (in_batch i) = s \<and> s \<noteq> rejected p"
  using shown_session [of p i] by (auto simp: sip_proof_is_current_def)

text \<open>
  The invariant of a run after session \<open>s\<close> was rejected, with \<open>m\<close> the largest session seen:
  either \<open>s\<close> is still the remembered one and only larger sessions are shown, or the stream has
  moved past \<open>s\<close> for good.
\<close>

definition fenced :: "u64 \<Rightarrow> u64 \<Rightarrow> 'p \<Rightarrow> bool" where
  "fenced s m p \<longleftrightarrow> s \<noteq> 0 \<and> s \<le> m \<and> obs_session (shown p) \<le> m \<and>
     (s < m \<or> rejected p = s \<and> obs_session (shown p) = 0)"

lemma fenced_step:
  assumes "fenced s m p"
    and "batch_session (in_batch i) = 0 \<or> m \<le> batch_session (in_batch i)"
  shows "fenced s (if batch_session (in_batch i) = 0 then m else batch_session (in_batch i))
    (see p i)" "\<not> sip_proof_is_current (shown (see p i)) s"
proof -
  show "fenced s (if batch_session (in_batch i) = 0 then m else batch_session (in_batch i))
    (see p i)"
    using assms shown_session [of p i] rejected_from [of p i] by (auto simp: fenced_def)
  show "\<not> sip_proof_is_current (shown (see p i)) s"
    using assms proof_needs_evidence [of p i s] by (auto simp: fenced_def)
qed

lemma fenced_run:
  "fenced s m p \<Longrightarrow> sessions_from m is \<Longrightarrow> is \<noteq> [] \<Longrightarrow>
     \<not> sip_proof_is_current (shown (foldl see p is)) s"
proof (induction "is" arbitrary: p m)
  case Nil
  then show ?case by simp
next
  case (Cons i "is")
  let ?m = "if batch_session (in_batch i) = 0 then m else batch_session (in_batch i)"
  from Cons.prems have b: "batch_session (in_batch i) = 0 \<or> m \<le> batch_session (in_batch i)"
    and rest: "sessions_from ?m is" by (auto split: if_splits)
  note step = fenced_step [OF Cons.prems(1) b]
  show ?case
  proof (cases "is")
    case Nil
    with step(2) show ?thesis by simp
  next
    case (Cons j js)
    with Cons.IH [OF step(1) rest] show ?thesis by simp
  qed
qed

lemma rejected_never_returns:
  assumes "rejected p = s" "s \<noteq> 0" "obs_session (shown p) = 0" "sessions_from s is"
  shows "\<not> sip_proof_is_current (shown (foldl see p is)) s"
proof (cases "is = []")
  case True
  with assms show ?thesis by (auto simp: sip_proof_is_current_def)
next
  case False
  have "fenced s s p" using assms by (simp add: fenced_def)
  from fenced_run [OF this assms(4) False] show ?thesis .
qed

end

definition legacy_see :: "LegacySipEventProjection \<Rightarrow> ProjectionInput \<Rightarrow> LegacySipEventProjection"
  where "legacy_see p i = legacy_observe p (in_process i) (in_evidence i) (in_batch i)"

definition identity_see :: "u64 \<Rightarrow> SipEventProjection \<Rightarrow> ProjectionInput \<Rightarrow> SipEventProjection"
  where "identity_see account p i =
    observe_identified p (in_process i) (in_evidence i) (in_batch i) account"

lemma reduce_identified_keeps:
  "reduce_identified b s es = Some out \<Longrightarrow>
     obs_session (bnd_observation out) = obs_session (bnd_observation b) \<and>
     obs_process (bnd_observation out) = obs_process (bnd_observation b) \<and>
     obs_evidence (bnd_observation out) = obs_evidence (bnd_observation b)"
proof (induction es arbitrary: b)
  case Nil
  then show ?case by simp
next
  case (Cons e es)
  then obtain mid where mid: "apply_identified_event b s e = (IdentityResult.Applied, mid)"
    and "reduce_identified mid s es = Some out"
    by (cases "apply_identified_event b s e"; cases "fst (apply_identified_event b s e)") auto
  moreover have "obs_session (bnd_observation mid) = obs_session (bnd_observation b) \<and>
     obs_process (bnd_observation mid) = obs_process (bnd_observation b) \<and>
     obs_evidence (bnd_observation mid) = obs_evidence (bnd_observation b)"
    using mid by (auto simp: apply_identified_event_def Let_def
        split: if_splits prod.splits dest: apply_keeps_pair)
  ultimately show ?case using Cons.IH by auto
qed

interpretation legacy: fenced_projection
  where see = legacy_see and shown = leg_state and rejected = leg_rejected_session
proof (unfold_locales, goal_cases)
  case (1 p i)
  show ?case
    by (auto simp: legacy_see_def legacy_observe_def legacy_reject_def unverified_def Let_def
        split: option.splits dest!: reduce_events_keeps)
next
  case (2 p i)
  show ?case
    by (auto simp: legacy_see_def legacy_observe_def legacy_reject_def Let_def
        split: option.splits)
qed

interpretation identity: fenced_projection
  where see = "identity_see account" and shown = "\<lambda>p. bnd_observation (prj_bound p)"
    and rejected = prj_rejected_session
proof (unfold_locales, goal_cases)
  case (1 p i)
  show ?case
    by (auto simp: identity_see_def observe_identified_def projection_reject_def invalidated_def
        invalidate_identity_def default_bound_def default_observation_def Let_def
        split: option.splits dest!: reduce_identified_keeps)
next
  case (2 p i)
  show ?case
    by (auto simp: identity_see_def observe_identified_def projection_reject_def Let_def
        split: option.splits)
qed

section \<open>What a session's batches add up to\<close>

definition deliverable :: "u64 \<Rightarrow> Batch \<Rightarrow> bool" where
  "deliverable s b \<longleftrightarrow>
     batch_session b = s \<and> \<not> batch_overflow b \<and> batch_size b \<le> mailbox_capacity"

text \<open>Running with verified evidence, as the engine observes a healthy process.\<close>

definition healthy_observe :: "LegacySipEventProjection \<Rightarrow> Batch \<Rightarrow> LegacySipEventProjection" where
  "healthy_observe p b =
     legacy_observe p RuntimeProcess.Running SipEvidence.VerifiedNativeApi b"

text \<open>The state of a projection that has seen exactly the events \<open>es\<close> of session \<open>s\<close>.\<close>

definition has_seen :: "u64 \<Rightarrow> BaresipNativeEvent list \<Rightarrow> LegacySipEventProjection \<Rightarrow> bool" where
  "has_seen s es p \<longleftrightarrow>
     (case reduce_events (session_start s) s es of
        Some obs \<Rightarrow> leg_state p = obs \<and> leg_rejected_session p \<noteq> s
      | None \<Rightarrow> leg_state p = unverified RuntimeProcess.Running \<and> leg_rejected_session p = s)"

lemma unverified_zero [simp]:
  "obs_session (unverified r) = 0" "obs_evidence (unverified r) = SipEvidence.NoEvidence"
  by (simp_all add: unverified_def)

lemma reduce_events_append_None:
  "reduce_events st s es = None \<Longrightarrow> reduce_events st s (es @ fs) = None"
  by (simp add: reduce_events_append)

lemma healthy_first:
  assumes "s \<noteq> 0" "deliverable s b" "leg_rejected_session p \<noteq> s" "obs_session (leg_state p) \<noteq> s"
  shows "has_seen s (batch_list b) (healthy_observe p b)"
  using assms
  by (auto simp: has_seen_def healthy_observe_def legacy_observe_def deliverable_def
      legacy_reject_def session_start_def Let_def split: option.splits)

lemma healthy_next:
  assumes "s \<noteq> 0" "deliverable s b" "has_seen s es p"
  shows "has_seen s (es @ batch_list b) (healthy_observe p b)"
proof (cases "reduce_events (session_start s) s es")
  case None
  with assms show ?thesis
    by (simp add: has_seen_def healthy_observe_def legacy_observe_def deliverable_def
        reduce_events_append_None)
next
  case (Some obs)
  then have keep: "obs_session obs = s" "obs_evidence obs = SipEvidence.VerifiedNativeApi"
    using reduce_events_keeps [OF Some] by (auto simp: session_start_def)
  have "reduce_events (session_start s) s (es @ batch_list b) = reduce_events obs s (batch_list b)"
    using Some by (simp add: reduce_events_append)
  with Some keep assms show ?thesis
    by (auto simp: has_seen_def healthy_observe_def legacy_observe_def deliverable_def
        legacy_reject_def Let_def split: option.splits)
qed

lemma healthy_run:
  assumes "s \<noteq> 0" "\<forall>b \<in> set bs. deliverable s b" "has_seen s es p"
  shows "has_seen s (es @ concat (map batch_list bs)) (foldl healthy_observe p bs)"
  using assms(2,3)
proof (induction bs arbitrary: es p)
  case Nil
  then show ?case by simp
next
  case (Cons b bs)
  have "has_seen s (es @ batch_list b) (healthy_observe p b)"
    using healthy_next [OF assms(1)] Cons.prems by simp
  from Cons.IH [OF _ this] Cons.prems show ?case by simp
qed

section \<open>The SDK batch keeps the proof it started with\<close>

definition sdk_shown :: "SipEventProjection \<Rightarrow> bool \<Rightarrow> bool" where
  "sdk_shown p register_confirmed \<longleftrightarrow>
     live_status (obs_sip (projection_snapshot p)) \<longrightarrow> register_confirmed"

lemma unverified_not_live [simp]: "\<not> live_status (obs_sip (unverified r))"
  by (simp add: unverified_def live_status_def)

lemma failed_not_live:
  "\<not> live_status (obs_sip (projection_snapshot
      (projection_observe p RuntimeProcess.Failed evidence batch)))"
  by (simp add: projection_observe_def projection_snapshot_def observe_identified_def
      legacy_observe_def unverified_def invalidated_def invalidate_identity_def default_bound_def
      default_observation_def live_status_def Let_def)

lemma observe_identified_mode [simp]:
  "prj_identity_mode (observe_identified p process evidence batch account)"
  by (simp add: observe_identified_def projection_reject_def Let_def split: option.split)

lemma overflow_not_live:
  assumes "batch_overflow batch \<or> batch_size batch > mailbox_capacity"
  shows "\<not> live_status (obs_sip (projection_snapshot
      (projection_observe p RuntimeProcess.Running SipEvidence.VerifiedNativeApi batch)))"
  using assms
  by (auto simp: projection_observe_def projection_snapshot_def observe_identified_def
      legacy_observe_def legacy_reject_def projection_reject_def invalidated_def
      invalidate_identity_def default_bound_def default_observation_def live_status_def
      unverified_def Let_def)

section \<open>Properties\<close>

text \<open>
  C3. The legacy projection is exact. However the events of one session are cut into batches,
  a fresh projection that observed them shows what the reducer computes from the session's
  start over all of them in one go; if the reducer refuses any of them, the projection shows
  nothing, permanently: the session is the rejected one.
\<close>

theorem legacy_projection_exact:
  assumes "s \<noteq> 0" "bs \<noteq> []" "\<forall>b \<in> set bs. deliverable s b"
    and "leg_rejected_session p \<noteq> s" "obs_session (leg_state p) \<noteq> s"
  shows "leg_state (foldl healthy_observe p bs) =
      (case reduce_events (session_start s) s (concat (map batch_list bs)) of
         Some obs \<Rightarrow> obs | None \<Rightarrow> unverified RuntimeProcess.Running) \<and>
    (leg_rejected_session (foldl healthy_observe p bs) = s \<longleftrightarrow>
      reduce_events (session_start s) s (concat (map batch_list bs)) = None)"
proof -
  obtain b bs' where bs: "bs = b # bs'" using assms(2) by (cases bs) auto
  have "has_seen s (batch_list b) (healthy_observe p b)"
    using healthy_first assms bs by simp
  from healthy_run [OF assms(1) _ this] assms(3) bs
  have "has_seen s (concat (map batch_list bs)) (foldl healthy_observe p bs)" by simp
  then show ?thesis
    by (auto simp: has_seen_def split: option.splits)
qed

definition sample_batch :: "BaresipNativeEvent list \<Rightarrow> Batch" where
  "sample_batch es = \<lparr>batch_events = es @ replicate (mailbox_capacity - length es) default_event,
     batch_size = length es, batch_session = 3,
     batch_overflow = False\<rparr>"

definition sample_batches :: "Batch list" where
  "sample_batches =
     [sample_batch [native_event BaresipEventKind.Registering 3 0],
      sample_batch [native_event BaresipEventKind.RegisterOk 3 0,
                    native_event BaresipEventKind.CallIncoming 3 1]]"

theorem legacy_projection_exact_witness:
  "obs_sip (leg_state (foldl healthy_observe default_legacy sample_batches)) = SipStatus.Ringing \<and>
   leg_rejected_session (foldl healthy_observe default_legacy sample_batches) \<noteq> 3"
proof -
  have "\<forall>b \<in> set sample_batches. deliverable 3 b"
    by (simp add: sample_batches_def sample_batch_def deliverable_def mailbox_capacity_def)
  moreover have "sample_batches \<noteq> []" by (simp add: sample_batches_def)
  moreover have "leg_rejected_session default_legacy \<noteq> 3" "obs_session (leg_state default_legacy) \<noteq> 3"
    by code_simp+
  ultimately have e: "leg_state (foldl healthy_observe default_legacy sample_batches) =
      (case reduce_events (session_start 3) 3 (concat (map batch_list sample_batches)) of
         Some obs \<Rightarrow> obs | None \<Rightarrow> unverified RuntimeProcess.Running)"
    and r: "leg_rejected_session (foldl healthy_observe default_legacy sample_batches) = 3 \<longleftrightarrow>
      reduce_events (session_start 3) 3 (concat (map batch_list sample_batches)) = None"
    using legacy_projection_exact [of 3 sample_batches default_legacy] by simp_all
  have "map_option obs_sip (reduce_events (session_start 3) 3
      (concat (map batch_list sample_batches))) = Some SipStatus.Ringing"
    by code_simp
  with e r show ?thesis by auto
qed

text \<open>
  A rejected session never comes back. Once the projection (in its legacy or in its
  identity mode) remembers a session as rejected, no later sequence of observations shows a
  proof of that session again, whatever processes, evidence and batches it is fed, as long as
  the batch sessions are the mailbox's: none, or never smaller than before.
\<close>

theorem rejected_session_never_trusted:
  assumes "s \<noteq> 0" and "sessions_from s inputs"
    and "leg_rejected_session l = s" "obs_session (leg_state l) = 0"
    and "prj_rejected_session p = s" "obs_session (bnd_observation (prj_bound p)) = 0"
  shows "\<not> sip_proof_is_current (leg_state (foldl legacy_see l inputs)) s \<and>
    \<not> sip_proof_is_current (bnd_observation (prj_bound (foldl (identity_see account) p inputs))) s"
  using legacy.rejected_never_returns [OF assms(3,1,4,2)]
    identity.rejected_never_returns [OF assms(5,1,6,2)] by blast

definition sample_inputs :: "ProjectionInput list" where
  "sample_inputs = map (\<lambda>b. \<lparr>in_process = RuntimeProcess.Running,
     in_evidence = SipEvidence.VerifiedNativeApi, in_batch = b\<rparr>) sample_batches"

theorem rejected_session_never_trusted_witness:
  "\<not> sip_proof_is_current (leg_state (foldl legacy_see
      (legacy_reject 3 RuntimeProcess.Running) sample_inputs)) 3"
proof -
  have "sessions_from 3 sample_inputs"
    by (simp add: sample_inputs_def sample_batches_def sample_batch_def)
  moreover have "obs_session (bnd_observation (prj_bound
      (projection_reject default_projection 3 RuntimeProcess.Running))) = 0"
    by code_simp
  ultimately show ?thesis
    using rejected_session_never_trusted [of 3 sample_inputs "legacy_reject 3 RuntimeProcess.Running"
        "projection_reject default_projection 3 RuntimeProcess.Running"]
    by (simp add: legacy_reject_def projection_reject_def)
qed

text \<open>
  The SDK projection fails closed. Without the owner's confirmation that the registration
  stands, \<open>project_native_sdk_batch\<close> never returns a live SIP status (registered, calling,
  ringing, in a call), whatever the batch holds; with an overflowed or oversized batch it does
  not even with the confirmation. The observation returned is the one the projection is left in.
\<close>

theorem sdk_batch_fails_closed:
  "fst (project_native_sdk_batch p batch confirmed) =
     projection_snapshot (snd (project_native_sdk_batch p batch confirmed)) \<and>
   (live_status (obs_sip (fst (project_native_sdk_batch p batch confirmed))) \<longrightarrow>
      confirmed \<and> \<not> batch_overflow batch \<and> batch_size batch \<le> mailbox_capacity)"
  using failed_not_live overflow_not_live
  by (auto simp: project_native_sdk_batch_def Let_def)

definition sample_sdk_projection :: SipEventProjection where
  "sample_sdk_projection = snd (project_native_sdk_batch default_projection (sample_batch
     [native_event BaresipEventKind.Registering 3 0, native_event BaresipEventKind.RegisterOk 3 0])
     True)"

theorem sdk_batch_fails_closed_witness:
  "\<not> live_status (obs_sip (fst (project_native_sdk_batch sample_sdk_projection
      (sample_batch []) False))) \<and>
   live_status (obs_sip (fst (project_native_sdk_batch sample_sdk_projection
      (sample_batch [native_event BaresipEventKind.RegisterOk 3 0]) True)))"
proof -
  have "live_status (obs_sip (fst (project_native_sdk_batch sample_sdk_projection
      (sample_batch [native_event BaresipEventKind.RegisterOk 3 0]) True)))"
    by code_simp
  with sdk_batch_fails_closed [of sample_sdk_projection "sample_batch []" False]
    sdk_batch_fails_closed [of sample_sdk_projection
      "sample_batch [native_event BaresipEventKind.RegisterOk 3 0]" True]
  show ?thesis by blast
qed

text \<open>
  The session guard. A proof shown after \<open>observe\<close> presupposes that the process runs now
  and ran at the previous tick; a process that was just started, failed or stopped shows none,
  and the mailbox then serves no session.
\<close>

theorem guard_needs_two_running_ticks:
  assumes "guard_observe previous process evidence mb p = (previous', mb', p')"
    and "sip_proof_is_current (projection_snapshot p') s"
  shows "previous = RuntimeProcess.Running \<and> process = RuntimeProcess.Running \<and>
    evidence = SipEvidence.VerifiedNativeApi \<and> mb_session mb = s \<and> \<not> mb_overflow mb"
proof -
  let ?mb = "if process \<noteq> RuntimeProcess.Running \<or> previous \<noteq> RuntimeProcess.Running
    then mailbox_invalidate_session mb else mb"
  obtain batch m where d: "mailbox_drain ?mb = (batch, m)" by (metis surj_pair)
  then have b: "batch_session batch = mb_session ?mb" "batch_overflow batch = mb_overflow ?mb"
    using drain_fields [of ?mb] by auto
  have p': "p' = projection_observe p process evidence batch"
    using assms(1) d by (auto simp: guard_observe_def Let_def)
  have "process = RuntimeProcess.Running \<and> evidence = SipEvidence.VerifiedNativeApi \<and>
      \<not> batch_overflow batch \<and> batch_session batch = s"
  proof (cases "prj_identity_mode p")
    case True
    have "sip_proof_is_current (bnd_observation (prj_bound (identity_see
        (bnd_expected_account_token (prj_bound p)) p \<lparr>in_process = process,
          in_evidence = evidence, in_batch = batch\<rparr>))) s"
      using assms(2) p' True
      by (simp add: projection_observe_def projection_snapshot_def identity_see_def)
    from identity.proof_needs_evidence [OF this] show ?thesis by simp
  next
    case False
    then have "sip_proof_is_current (leg_state (legacy_see (prj_legacy p) \<lparr>in_process = process,
          in_evidence = evidence, in_batch = batch\<rparr>)) s"
      using assms(2) p' by (simp add: projection_observe_def projection_snapshot_def legacy_see_def)
    from legacy.proof_needs_evidence [OF this] show ?thesis by simp
  qed
  moreover have "s \<noteq> 0" using assms(2) by (simp add: sip_proof_is_current_def)
  ultimately show ?thesis
    using b by (auto simp: mailbox_invalidate_session_def split: if_splits)
qed

theorem guard_needs_two_running_ticks_witness:
  "\<exists>p'. sip_proof_is_current (projection_snapshot p') 1 \<and>
     mb_session (snd (mailbox_begin_session empty_mailbox)) = 1"
proof -
  let ?mb = "snd (mailbox_begin_session empty_mailbox)"
  let ?g = "guard_observe RuntimeProcess.Running RuntimeProcess.Running
    SipEvidence.VerifiedNativeApi ?mb default_projection"
  have "sip_proof_is_current (projection_snapshot (snd (snd ?g))) 1" by code_simp
  with guard_needs_two_running_ticks [of _ _ _ _ _ "fst ?g" "fst (snd ?g)" "snd (snd ?g)" 1]
  show ?thesis by (metis prod.collapse)
qed

end
