(* ===== verification/Callback_Ingress.thy ===== *)
theory Callback_Ingress
  imports Event_Projection
begin

text \<open>
  The adapter-side ingress of native callbacks (\<open>baresip_callback_ingress.h\<close>): it admits a
  callback for the session and account it was registered for, mints one token per call and
  publishes the event in the mailbox. The state is the pair of the ingress's members and the
  mailbox it holds a reference to. The last section relates it to the reducer: what the ingress
  publishes the reducer never refuses as a stale call.
\<close>

section \<open>The ingress\<close>

record BaresipCallbackIngress =
  ing_session :: u64
  ing_account :: u64
  ing_active_native_key :: u64
  ing_active_token :: u64
  ing_last_native_key :: u64
  ing_last_token :: u64

definition empty_ingress :: BaresipCallbackIngress where
  "empty_ingress = \<lparr>ing_session = 0, ing_account = 0, ing_active_native_key = 0,
     ing_active_token = 0, ing_last_native_key = 0, ing_last_token = 0\<rparr>"

type_synonym ingress_state = "BaresipCallbackIngress \<times> BaresipEventMailbox"

definition ingress_begin_session :: "ingress_state \<Rightarrow> u64 \<Rightarrow> u64 \<times> ingress_state" where
  "ingress_begin_session = (\<lambda>(ing, mb) validated_account.
     if validated_account = 0 \<or> ing_session ing \<noteq> 0 then (0, (ing, mb))
     else (let (session, mb) = mailbox_begin_session mb
           in (session, (\<lparr>ing_session = session,
                 ing_account = (if session \<noteq> 0 then validated_account else 0),
                 ing_active_native_key = 0, ing_active_token = 0,
                 ing_last_native_key = 0, ing_last_token = 0\<rparr>, mb))))"

definition ingress_revoke :: "ingress_state \<Rightarrow> ingress_state" where
  "ingress_revoke = (\<lambda>(ing, mb).
     (ing\<lparr>ing_session := 0, ing_account := 0, ing_active_native_key := 0, ing_active_token := 0,
          ing_last_native_key := 0, ing_last_token := 0\<rparr>, mailbox_invalidate_session mb))"

definition ingress_admit :: "ingress_state \<Rightarrow> u64 \<Rightarrow> u64 \<Rightarrow> bool \<times> ingress_state" where
  "ingress_admit st callback_session callback_account =
     (let ing = fst st in
      if \<not> (ing_session ing \<noteq> 0 \<and> callback_session = ing_session ing) then (False, st)
      else if callback_account = 0 \<or> callback_account \<noteq> ing_account ing
      then (False, ingress_revoke st)
      else (True, st))"

definition ingress_enqueue :: "ingress_state \<Rightarrow> BaresipEventKind \<Rightarrow> u64 \<Rightarrow> bool \<times> ingress_state" where
  "ingress_enqueue = (\<lambda>(ing, mb) kind call_token.
     let (ok, mb) = mailbox_enqueue mb (native_event kind (ing_session ing) call_token)
     in if ok then (True, (ing, mb)) else (False, ingress_revoke (ing, mb)))"

definition ingress_registration ::
    "ingress_state \<Rightarrow> u64 \<Rightarrow> u64 \<Rightarrow> BaresipEventKind \<Rightarrow> bool \<times> ingress_state" where
  "ingress_registration st callback_session callback_account kind =
     (let (admitted, st) = ingress_admit st callback_session callback_account in
      if \<not> admitted then (False, st)
      else if kind \<in> {BaresipEventKind.Registering, BaresipEventKind.RegisterOk,
                      BaresipEventKind.RegisterFail, BaresipEventKind.Unregistering}
      then ingress_enqueue st kind 0
      else if kind = BaresipEventKind.TransportLost
      then ingress_enqueue ((fst st)\<lparr>ing_active_native_key := 0, ing_active_token := 0\<rparr>, snd st)
             kind 0
      else (False, ingress_revoke st))"

text \<open>The result carries \<open>*emitted_token\<close>, which the source zeroes first.\<close>

definition ingress_call_started ::
    "ingress_state \<Rightarrow> u64 \<Rightarrow> u64 \<Rightarrow> u64 \<Rightarrow> BaresipEventKind \<Rightarrow> (bool \<times> u64) \<times> ingress_state" where
  "ingress_call_started st callback_session callback_account native_call_key kind =
     (let (admitted, st) = ingress_admit st callback_session callback_account; ing = fst st in
      if \<not> admitted then ((False, 0), st)
      else if (kind \<noteq> BaresipEventKind.CallIncoming \<and> kind \<noteq> BaresipEventKind.CallOutgoing) \<or>
              native_call_key = 0 \<or> native_call_key \<le> ing_last_native_key ing \<or>
              ing_active_native_key ing \<noteq> 0 \<or> ing_last_token ing = u64_max
      then ((False, 0), ingress_revoke st)
      else (let token = ing_last_token ing + 1;
                (ok, st) = ingress_enqueue st kind token
            in if \<not> ok then ((False, 0), st)
               else ((True, token),
                     ((fst st)\<lparr>ing_active_native_key := native_call_key, ing_active_token := token,
                        ing_last_native_key := native_call_key, ing_last_token := token\<rparr>,
                      snd st))))"

definition ingress_call_changed ::
    "ingress_state \<Rightarrow> u64 \<Rightarrow> u64 \<Rightarrow> u64 \<Rightarrow> BaresipEventKind \<Rightarrow> bool \<times> ingress_state" where
  "ingress_call_changed st callback_session callback_account native_call_key kind =
     (let (admitted, st) = ingress_admit st callback_session callback_account; ing = fst st in
      if \<not> admitted then (False, st)
      else if (kind \<noteq> BaresipEventKind.CallEstablished \<and> kind \<noteq> BaresipEventKind.CallClosed) \<or>
              native_call_key = 0 \<or> native_call_key \<noteq> ing_active_native_key ing \<or>
              ing_active_token ing = 0
      then (False, ingress_revoke st)
      else (let (ok, st) = ingress_enqueue st kind (ing_active_token ing)
            in if \<not> ok then (False, st)
               else (True, (if kind = BaresipEventKind.CallClosed
                            then (fst st)\<lparr>ing_active_native_key := 0, ing_active_token := 0\<rparr>
                            else fst st, snd st))))"

section \<open>Callbacks as steps\<close>

text \<open>One callback, or one management call, on the shared state.\<close>

datatype IngressCall =
  CallBegin u64
  | CallRevoke
  | CallRegistration u64 u64 BaresipEventKind
  | CallStarted u64 u64 u64 BaresipEventKind
  | CallChanged u64 u64 u64 BaresipEventKind

fun ingress_step :: "ingress_state \<Rightarrow> IngressCall \<Rightarrow> ingress_state" where
  "ingress_step st (CallBegin account) = snd (ingress_begin_session st account)"
| "ingress_step st CallRevoke = ingress_revoke st"
| "ingress_step st (CallRegistration s a k) = snd (ingress_registration st s a k)"
| "ingress_step st (CallStarted s a key k) = snd (ingress_call_started st s a key k)"
| "ingress_step st (CallChanged s a key k) = snd (ingress_call_changed st s a key k)"

definition ingress_run :: "IngressCall list \<Rightarrow> ingress_state" where
  "ingress_run cs = foldl ingress_step (empty_ingress, empty_mailbox) cs"

section \<open>What the ingress publishes\<close>

text \<open>
  The token discipline of a list of published events, as a run of a small checker: \<open>act\<close> is
  the token of the open call (0: none), \<open>lst\<close> the last token issued.
\<close>

fun tokens_ok :: "u64 \<Rightarrow> u64 \<Rightarrow> BaresipNativeEvent list \<Rightarrow> (u64 \<times> u64) option" where
  "tokens_ok act lst [] = Some (act, lst)"
| "tokens_ok act lst (e # es) =
     (if opening_kind (ev_kind e)
      then (if act = 0 \<and> lst < ev_call_id e then tokens_ok (ev_call_id e) (ev_call_id e) es
            else None)
      else if continuing_kind (ev_kind e)
      then (if act \<noteq> 0 \<and> ev_call_id e = act
            then tokens_ok (if ev_kind e = BaresipEventKind.CallClosed then 0 else act) lst es
            else None)
      else if ev_call_id e \<noteq> 0 then None
      else tokens_ok (if ev_kind e = BaresipEventKind.TransportLost then 0 else act) lst es)"

lemma tokens_ok_snoc:
  "tokens_ok a l (es @ [e]) = Option.bind (tokens_ok a l es) (\<lambda>(a', l'). tokens_ok a' l' [e])"
  by (induction a l es rule: tokens_ok.induct) auto

text \<open>
  The invariant between callbacks. The mailbox serves the ingress's session, and the events it
  holds continue the token counters \<open>(a, l)\<close> that the consumer has reached up to the
  ingress's own.
\<close>

definition ingress_inv :: "u64 \<Rightarrow> u64 \<Rightarrow> ingress_state \<Rightarrow> bool" where
  "ingress_inv a l = (\<lambda>(ing, mb). mailbox_inv mb \<and> mb_session mb = ing_session ing \<and>
     (ing_session ing = 0 \<longrightarrow> ing_account ing = 0 \<and> ing_active_native_key ing = 0 \<and>
        ing_active_token ing = 0 \<and> ing_last_token ing = 0) \<and>
     (ing_session ing \<noteq> 0 \<longrightarrow> ing_account ing \<noteq> 0 \<and> \<not> mb_overflow mb \<and>
        tokens_ok a l (mailbox_events mb) = Some (ing_active_token ing, ing_last_token ing)) \<and>
     (ing_active_native_key ing = 0 \<longleftrightarrow> ing_active_token ing = 0))"

lemma ingress_inv_revoke:
  "mailbox_inv (snd st) \<Longrightarrow> ingress_inv a l (ingress_revoke st)"
  by (cases st)
    (auto simp: ingress_inv_def ingress_revoke_def mailbox.live_invalidate)

lemma revoke_session: "ing_session (fst (ingress_revoke st)) = 0"
  by (cases st) (simp add: ingress_revoke_def)

lemma revoke_generation: "mb_generation (snd (ingress_revoke st)) = mb_generation (snd st)"
  by (cases st) (simp add: ingress_revoke_def mailbox_invalidate_session_def)

lemma ingress_inv_mailbox: "ingress_inv a l st \<Longrightarrow> mailbox_inv (snd st)"
  by (auto simp: ingress_inv_def)

text \<open>A step outcome: the state revoked, or the session kept with the invariant.\<close>

definition kept_or_revoked :: "u64 \<Rightarrow> u64 \<Rightarrow> ingress_state \<Rightarrow> ingress_state \<Rightarrow> bool" where
  "kept_or_revoked a l st st' \<longleftrightarrow> ingress_inv a l st' \<and>
     mb_generation (snd st') = mb_generation (snd st) \<and>
     (ing_session (fst st') = ing_session (fst st) \<or> ing_session (fst st') = 0)"

lemma kept_or_revoked_refl: "ingress_inv a l st \<Longrightarrow> kept_or_revoked a l st st"
  by (simp add: kept_or_revoked_def)

lemma kept_or_revoked_revoke: "mailbox_inv (snd st) \<Longrightarrow> kept_or_revoked a l st (ingress_revoke st)"
  by (simp add: kept_or_revoked_def ingress_inv_revoke revoke_session revoke_generation)

lemma ingress_admit_cases:
  assumes "ingress_admit st s acc = (ok, st')"
  obtains (admitted) "ok" "st' = st" "s = ing_session (fst st)" "ing_session (fst st) \<noteq> 0"
  | (refused) "\<not> ok" "st' = st"
  | (revoked) "\<not> ok" "st' = ingress_revoke st"
  using assms by (auto simp: ingress_admit_def Let_def split: if_splits)

text \<open>One publication keeps the invariant when the event continues the tokens.\<close>

lemma ingress_enqueue_cases:
  assumes "mailbox_inv mb" "mb_session mb = ing_session ing"
    and "tokens_ok a l (mailbox_events mb) = Some (act, lst)"
    and "tokens_ok act lst [native_event kind (ing_session ing) t] = Some (act', lst')"
    and "\<not> mb_overflow mb"
    and "ingress_enqueue (ing, mb) kind t = (ok, st')"
  obtains (published) mb' where "ok" "st' = (ing, mb')" "mailbox_inv mb'"
      "mb_session mb' = ing_session ing" "\<not> mb_overflow mb'"
      "mb_generation mb' = mb_generation mb"
      "tokens_ok a l (mailbox_events mb') = Some (act', lst')"
  | (revoked) "\<not> ok" "\<And>b m. ingress_inv b m st'" "ing_session (fst st') = 0"
      "mb_generation (snd st') = mb_generation mb"
proof -
  let ?e = "native_event kind (ing_session ing) t"
  obtain put mb' where e: "mailbox_enqueue mb ?e = (put, mb')" by fastforce
  have inv': "mailbox_inv mb'" using enqueue_inv [OF assms(1), of ?e] e by simp
  have gen: "mb_generation mb' = mb_generation mb"
    using e by (auto simp: mailbox_enqueue_def split: if_splits)
  show ?thesis
  proof (cases put)
    case True
    then have "mailbox_events mb' = mailbox_events mb @ [?e]"
      using enqueue_events [OF assms(1), of ?e] e by simp
    then have "tokens_ok a l (mailbox_events mb') = Some (act', lst')"
      using assms(3,4) by (simp only: tokens_ok_snoc) simp
    moreover have "mb_session mb' = ing_session ing" "\<not> mb_overflow mb'"
      using e True assms(2,5) by (auto simp: mailbox_enqueue_def split: if_splits)
    moreover have "ok" "st' = (ing, mb')"
      using assms(6) e True by (simp_all add: ingress_enqueue_def)
    ultimately show ?thesis using inv' gen published by blast
  next
    case False
    then have "\<not> ok" "st' = ingress_revoke (ing, mb')"
      using assms(6) e by (simp_all add: ingress_enqueue_def)
    then show ?thesis
      using revoked inv' gen by (simp add: ingress_inv_revoke revoke_session revoke_generation)
  qed
qed

lemma registration_kept:
  assumes "ingress_inv a l st"
  shows "kept_or_revoked a l st (snd (ingress_registration st s acc k))"
proof -
  obtain ing mb where st: "st = (ing, mb)" by fastforce
  obtain ok st1 where adm: "ingress_admit st s acc = (ok, st1)" by (metis surj_pair)
  from adm show ?thesis
  proof (cases rule: ingress_admit_cases)
    case refused
    with adm assms show ?thesis by (simp add: ingress_registration_def kept_or_revoked_refl)
  next
    case revoked
    with adm assms show ?thesis
      by (simp add: ingress_registration_def kept_or_revoked_revoke ingress_inv_mailbox)
  next
    case admitted
    from assms st admitted have inv: "mailbox_inv mb" "mb_session mb = ing_session ing"
      "\<not> mb_overflow mb" "ing_account ing \<noteq> 0" "ing_session ing \<noteq> 0"
      "tokens_ok a l (mailbox_events mb) = Some (ing_active_token ing, ing_last_token ing)"
      "ing_active_native_key ing = 0 \<longleftrightarrow> ing_active_token ing = 0"
      by (auto simp: ingress_inv_def)
    consider (reg) "k \<in> {BaresipEventKind.Registering, BaresipEventKind.RegisterOk,
        BaresipEventKind.RegisterFail, BaresipEventKind.Unregistering}"
      | (lost) "k = BaresipEventKind.TransportLost"
      | (other) "k \<notin> {BaresipEventKind.Registering, BaresipEventKind.RegisterOk,
        BaresipEventKind.RegisterFail, BaresipEventKind.Unregistering,
        BaresipEventKind.TransportLost}" by blast
    then show ?thesis
    proof cases
      case reg
      obtain ok2 st2 where e: "ingress_enqueue (ing, mb) k 0 = (ok2, st2)" by (metis surj_pair)
      have tok: "tokens_ok (ing_active_token ing) (ing_last_token ing)
          [native_event k (ing_session ing) 0] = Some (ing_active_token ing, ing_last_token ing)"
        using reg by (auto simp: opening_kind_def continuing_kind_def)
      from inv(1,2,6) tok inv(3) e show ?thesis
        by (cases rule: ingress_enqueue_cases)
          (use st adm admitted reg inv e in
            \<open>auto simp: ingress_registration_def kept_or_revoked_def ingress_inv_def\<close>)
    next
      case lost
      let ?ing = "ing\<lparr>ing_active_native_key := 0, ing_active_token := 0\<rparr>"
      obtain ok2 st2 where e: "ingress_enqueue (?ing, mb) k 0 = (ok2, st2)" by (metis surj_pair)
      have tok: "tokens_ok (ing_active_token ing) (ing_last_token ing)
          [native_event k (ing_session ?ing) 0] = Some (0, ing_last_token ing)"
        using lost by (auto simp: opening_kind_def continuing_kind_def)
      have sess: "mb_session mb = ing_session ?ing" using inv(2) by simp
      from inv(1) sess inv(6) tok inv(3) e show ?thesis
        by (cases rule: ingress_enqueue_cases)
          (use st adm admitted lost inv e in
            \<open>auto simp: ingress_registration_def kept_or_revoked_def ingress_inv_def\<close>)
    next
      case other
      with adm admitted assms show ?thesis
        by (simp add: ingress_registration_def kept_or_revoked_revoke ingress_inv_mailbox)
    qed
  qed
qed

lemma call_started_kept:
  assumes "ingress_inv a l st"
  shows "kept_or_revoked a l st (snd (ingress_call_started st s acc key k))"
proof -
  obtain ing mb where st: "st = (ing, mb)" by fastforce
  obtain ok st1 where adm: "ingress_admit st s acc = (ok, st1)" by (metis surj_pair)
  from adm show ?thesis
  proof (cases rule: ingress_admit_cases)
    case refused
    with adm assms show ?thesis by (simp add: ingress_call_started_def kept_or_revoked_refl)
  next
    case revoked
    with adm assms show ?thesis
      by (simp add: ingress_call_started_def kept_or_revoked_revoke ingress_inv_mailbox)
  next
    case admitted
    from assms st admitted have inv: "mailbox_inv mb" "mb_session mb = ing_session ing"
      "\<not> mb_overflow mb" "ing_account ing \<noteq> 0" "ing_session ing \<noteq> 0"
      "tokens_ok a l (mailbox_events mb) = Some (ing_active_token ing, ing_last_token ing)"
      "ing_active_native_key ing = 0 \<longleftrightarrow> ing_active_token ing = 0"
      by (auto simp: ingress_inv_def)
    show ?thesis
    proof (cases "(k \<noteq> BaresipEventKind.CallIncoming \<and> k \<noteq> BaresipEventKind.CallOutgoing) \<or>
        key = 0 \<or> key \<le> ing_last_native_key ing \<or> ing_active_native_key ing \<noteq> 0 \<or>
        ing_last_token ing = u64_max")
      case True
      with adm admitted st inv(1) show ?thesis
        by (simp add: ingress_call_started_def kept_or_revoked_revoke)
    next
      case False
      let ?t = "ing_last_token ing + 1"
      obtain ok2 st2 where e: "ingress_enqueue (ing, mb) k ?t = (ok2, st2)" by (metis surj_pair)
      have tok: "tokens_ok (ing_active_token ing) (ing_last_token ing)
          [native_event k (ing_session ing) ?t] = Some (?t, ?t)"
        using False inv(7) by (auto simp: opening_kind_def)
      from inv(1,2,6) tok inv(3) e show ?thesis
        by (cases rule: ingress_enqueue_cases)
          (use st adm admitted False inv e in
            \<open>auto simp: ingress_call_started_def kept_or_revoked_def ingress_inv_def Let_def\<close>)
    qed
  qed
qed

lemma call_changed_kept:
  assumes "ingress_inv a l st"
  shows "kept_or_revoked a l st (snd (ingress_call_changed st s acc key k))"
proof -
  obtain ing mb where st: "st = (ing, mb)" by fastforce
  obtain ok st1 where adm: "ingress_admit st s acc = (ok, st1)" by (metis surj_pair)
  from adm show ?thesis
  proof (cases rule: ingress_admit_cases)
    case refused
    with adm assms show ?thesis by (simp add: ingress_call_changed_def kept_or_revoked_refl)
  next
    case revoked
    with adm assms show ?thesis
      by (simp add: ingress_call_changed_def kept_or_revoked_revoke ingress_inv_mailbox)
  next
    case admitted
    from assms st admitted have inv: "mailbox_inv mb" "mb_session mb = ing_session ing"
      "\<not> mb_overflow mb" "ing_account ing \<noteq> 0" "ing_session ing \<noteq> 0"
      "tokens_ok a l (mailbox_events mb) = Some (ing_active_token ing, ing_last_token ing)"
      "ing_active_native_key ing = 0 \<longleftrightarrow> ing_active_token ing = 0"
      by (auto simp: ingress_inv_def)
    show ?thesis
    proof (cases "(k \<noteq> BaresipEventKind.CallEstablished \<and> k \<noteq> BaresipEventKind.CallClosed) \<or>
        key = 0 \<or> key \<noteq> ing_active_native_key ing \<or> ing_active_token ing = 0")
      case True
      with adm admitted st inv(1) show ?thesis
        by (auto simp: ingress_call_changed_def kept_or_revoked_revoke)
    next
      case False
      let ?t = "ing_active_token ing"
      obtain ok2 st2 where e: "ingress_enqueue (ing, mb) k ?t = (ok2, st2)" by (metis surj_pair)
      have tok: "tokens_ok ?t (ing_last_token ing) [native_event k (ing_session ing) ?t] =
          Some (if k = BaresipEventKind.CallClosed then 0 else ?t, ing_last_token ing)"
        using False by (auto simp: opening_kind_def continuing_kind_def)
      from inv(1,2,6) tok inv(3) e show ?thesis
        by (cases rule: ingress_enqueue_cases)
          (use st adm admitted False inv e in
            \<open>auto simp: ingress_call_changed_def kept_or_revoked_def ingress_inv_def\<close>)
    qed
  qed
qed

text \<open>Starting a session: the counters restart, under a session number never used before.\<close>

lemma begin_session_inv_fresh:
  assumes "ingress_inv a l st" "ingress_begin_session st acc = (session, st')" "session \<noteq> 0"
  shows "ingress_inv 0 0 st'" "ing_session (fst st') = session"
    "mb_generation (snd st) < session" "mb_generation (snd st') = session"
proof -
  obtain ing mb where st: "st = (ing, mb)" by fastforce
  obtain g mb' where b: "mailbox_begin_session mb = (g, mb')" by fastforce
  have inv: "mailbox_inv mb" using assms(1) st by (simp add: ingress_inv_def)
  have acc: "acc \<noteq> 0" "g = session" "st' = (\<lparr>ing_session = session, ing_account = acc,
      ing_active_native_key = 0, ing_active_token = 0, ing_last_native_key = 0,
      ing_last_token = 0\<rparr>, mb')"
    using assms(2,3) st b by (auto simp: ingress_begin_session_def split: if_splits)
  have "mailbox_inv mb'" "mb_session mb' = session" "mailbox_events mb' = []"
    "mb_generation mb < session" "mb_generation mb' = session"
    using mailbox.inv_begin [OF inv] mailbox.live_begin [OF inv] mailbox.events_begin [OF inv]
      mailbox.fresh_begin [OF inv] b acc assms(3) by auto
  moreover have "\<not> mb_overflow mb'"
    using b acc assms(3) by (auto simp: mailbox_begin_session_def Let_def split: if_splits)
  ultimately show "ingress_inv 0 0 st'" "ing_session (fst st') = session"
    "mb_generation (snd st) < session" "mb_generation (snd st') = session"
    using acc assms(3) st by (simp_all add: ingress_inv_def)
qed

lemma begin_session_refused:
  assumes "ingress_inv a l st" "ingress_begin_session st acc = (0, st')"
  shows "ingress_inv a l st' \<and> mb_generation (snd st') = mb_generation (snd st) \<and>
    (ing_session (fst st') = ing_session (fst st) \<or> ing_session (fst st') = 0)"
proof -
  obtain ing mb where st: "st = (ing, mb)" by fastforce
  show ?thesis
  proof (cases "acc = 0 \<or> ing_session ing \<noteq> 0")
    case True
    with assms st show ?thesis by (auto simp: ingress_begin_session_def)
  next
    case False
    obtain mb' where b: "mailbox_begin_session mb = (0, mb')"
      using assms(2) st False by (auto simp: ingress_begin_session_def split: prod.splits)
    then have g: "mb_generation mb = u64_max"
      by (auto simp: mailbox_begin_session_def Let_def split: if_splits)
    have "mailbox_inv mb" using assms(1) st by (simp add: ingress_inv_def)
    with b g assms st False show ?thesis
      using begin_session_inv [of mb]
      by (auto simp: ingress_begin_session_def ingress_inv_def mailbox_begin_session_def)
  qed
qed

section \<open>Ingress, mailbox and projection together\<close>

text \<open>
  The whole pipeline: native callbacks enter the ingress, the UI thread drains the mailbox into
  the legacy projection. Any interleaving of the two is a list of steps.
\<close>

datatype PipelineStep = Native IngressCall | Drain

record Pipeline =
  pl_ingress :: ingress_state
  pl_projection :: LegacySipEventProjection

definition empty_pipeline :: Pipeline where
  "empty_pipeline =
     \<lparr>pl_ingress = (empty_ingress, empty_mailbox), pl_projection = default_legacy\<rparr>"

fun pipeline_step :: "Pipeline \<Rightarrow> PipelineStep \<Rightarrow> Pipeline" where
  "pipeline_step w (Native c) = w\<lparr>pl_ingress := ingress_step (pl_ingress w) c\<rparr>"
| "pipeline_step w Drain =
     (let (batch, mb) = mailbox_drain (snd (pl_ingress w))
      in w\<lparr>pl_ingress := (fst (pl_ingress w), mb),
           pl_projection := legacy_observe (pl_projection w) RuntimeProcess.Running
             SipEvidence.VerifiedNativeApi batch\<rparr>)"

definition pipeline_run :: "PipelineStep list \<Rightarrow> Pipeline" where
  "pipeline_run steps = foldl pipeline_step empty_pipeline steps"

text \<open>The observation the projection resumes a session from.\<close>

definition resume_state :: "LegacySipEventProjection \<Rightarrow> u64 \<Rightarrow> SipRuntimeObservation" where
  "resume_state p s =
     (if obs_session (leg_state p) \<noteq> s \<or>
         obs_evidence (leg_state p) \<noteq> SipEvidence.VerifiedNativeApi
      then session_start s else leg_state p)"

text \<open>The reducer's verdict on the first event it refuses; \<open>Applied\<close> if it takes them all.\<close>

fun first_refusal :: "SipRuntimeObservation \<Rightarrow> u64 \<Rightarrow> BaresipNativeEvent list \<Rightarrow> EventTransition"
  where
  "first_refusal state s [] = EventTransition.Applied"
| "first_refusal state s (e # es) =
     (case apply_baresip_event state s e of
        (EventTransition.Applied, state') \<Rightarrow> first_refusal state' s es
      | (r, _) \<Rightarrow> r)"

lemma first_refusal_Applied_iff:
  "first_refusal state s es = EventTransition.Applied \<longleftrightarrow> reduce_events state s es \<noteq> None"
proof (induction es arbitrary: state)
  case Nil
  then show ?case by simp
next
  case (Cons e es)
  then show ?case
    by (cases "apply_baresip_event state s e"; cases "fst (apply_baresip_event state s e)") auto
qed

text \<open>One event that continues the tokens: the reducer either takes it, moving to the same
  tokens, or refuses its order.\<close>

lemma token_event_reduced:
  assumes "tokens_ok (obs_call_id o1) (obs_last_call_id o1) [e] = Some (a', l')"
    and "ev_session e = s" and "sip_proof_is_current o1 s" and "obs_inv o1"
    and "apply_baresip_event o1 s e = (r, o2)"
  shows "r = EventTransition.Applied \<and> obs_call_id o2 = a' \<and> obs_last_call_id o2 = l' \<or>
    r = EventTransition.InvalidOrder"
  using assms
  by (cases "ev_kind e"; cases "obs_sip o1")
    (auto simp: apply_baresip_event_def is_stale_session_def sip_proof_is_current_def
      next_status.simps opening_kind_def continuing_kind_def obs_inv_def obs_line_def
      line_inv_def in_call_status_def split: if_splits)

lemma token_events_reduced:
  assumes "tokens_ok (obs_call_id o1) (obs_last_call_id o1) es = Some (a', l')"
    and "\<forall>e \<in> set es. ev_session e = s" and "sip_proof_is_current o1 s" and "obs_inv o1"
  shows "first_refusal o1 s es \<in> {EventTransition.Applied, EventTransition.InvalidOrder} \<and>
    (\<forall>o2. reduce_events o1 s es = Some o2 \<longrightarrow> obs_call_id o2 = a' \<and> obs_last_call_id o2 = l')"
  using assms
proof (induction es arbitrary: o1)
  case Nil
  then show ?case by simp
next
  case (Cons e es)
  obtain r o2 where ap: "apply_baresip_event o1 s e = (r, o2)" by fastforce
  obtain a1 l1 where one: "tokens_ok (obs_call_id o1) (obs_last_call_id o1) [e] = Some (a1, l1)"
    and rest: "tokens_ok a1 l1 es = Some (a', l')"
    using Cons.prems(1) by (auto split: if_splits)
  from token_event_reduced [OF one _ Cons.prems(3,4) ap] Cons.prems(2)
  consider (app) "r = EventTransition.Applied" "obs_call_id o2 = a1" "obs_last_call_id o2 = l1"
    | (ord) "r = EventTransition.InvalidOrder" by auto
  then show ?case
  proof cases
    case app
    have "sip_proof_is_current o2 s" "obs_inv o2"
      using apply_proof [of o1 s e s] apply_inv [OF Cons.prems(4), of s e] Cons.prems(3) ap by auto
    with Cons.IH [of o2] Cons.prems(2) rest app ap show ?thesis by simp
  next
    case ord
    with ap show ?thesis by simp
  qed
qed

definition pipeline_inv :: "Pipeline \<Rightarrow> bool" where
  "pipeline_inv w \<longleftrightarrow>
     (let ing = fst (pl_ingress w); mb = snd (pl_ingress w); p = pl_projection w;
          s = ing_session ing; o1 = resume_state p s in
      obs_session (leg_state p) \<le> mb_generation mb \<and>
      leg_rejected_session p \<le> mb_generation mb \<and> obs_inv (leg_state p) \<and>
      (obs_evidence (leg_state p) = SipEvidence.VerifiedNativeApi \<longrightarrow>
         obs_process (leg_state p) = RuntimeProcess.Running) \<and>
      (if s \<noteq> 0 \<and> leg_rejected_session p \<noteq> s
       then ingress_inv (obs_call_id o1) (obs_last_call_id o1) (pl_ingress w)
       else \<exists>a l. ingress_inv a l (pl_ingress w)))"

lemma obs_inv_start [simp]: "obs_inv (session_start s)" "obs_inv (unverified p)"
  by (auto simp: session_start_def unverified_def in_call_status_def intro!: obs_inv_no_call)

lemma ingress_inv_empty: "ingress_inv 0 0 (empty_ingress, empty_mailbox)"
  by (simp add: ingress_inv_def empty_ingress_def) (simp add: empty_mailbox_def)

lemma pipeline_inv_empty: "pipeline_inv empty_pipeline"
  using ingress_inv_empty
  by (auto simp: pipeline_inv_def empty_pipeline_def default_legacy_def default_observation_def
      empty_ingress_def in_call_status_def Let_def intro!: obs_inv_no_call)

lemma pipeline_inv_kept:
  assumes "pipeline_inv w"
    and "\<And>a l. ingress_inv a l (pl_ingress w) \<Longrightarrow> kept_or_revoked a l (pl_ingress w) st'"
  shows "pipeline_inv (w\<lparr>pl_ingress := st'\<rparr>)"
proof -
  obtain ing mb where w: "pl_ingress w = (ing, mb)" by fastforce
  obtain ing' mb' where st': "st' = (ing', mb')" by fastforce
  obtain a0 l0 where "ingress_inv a0 l0 (pl_ingress w)"
    using assms(1) by (auto simp: pipeline_inv_def Let_def split: if_splits)
  then have k: "mb_generation mb' = mb_generation mb"
    "ing_session ing' = ing_session ing \<or> ing_session ing' = 0"
    using assms(2) w st' by (auto simp: kept_or_revoked_def)
  show ?thesis
    using assms k w st' by (auto simp: pipeline_inv_def Let_def kept_or_revoked_def split: if_splits)
qed

lemma pipeline_inv_native:
  assumes "pipeline_inv w"
  shows "pipeline_inv (pipeline_step w (Native c))"
proof (cases c)
  case (CallBegin acc)
  obtain session st' where b: "ingress_begin_session (pl_ingress w) acc = (session, st')"
    by (metis surj_pair)
  obtain a l where inv: "ingress_inv a l (pl_ingress w)"
    using assms by (auto simp: pipeline_inv_def Let_def split: if_splits)
  show ?thesis
  proof (cases "session = 0")
    case True
    have "kept_or_revoked a l (pl_ingress w) st'" if "ingress_inv a l (pl_ingress w)" for a l
      using begin_session_refused [OF that] b True by (auto simp: kept_or_revoked_def)
    then have "pipeline_inv (w\<lparr>pl_ingress := st'\<rparr>)"
      by (rule pipeline_inv_kept [OF assms])
    with b CallBegin show ?thesis by simp
  next
    case False
    note fresh = begin_session_inv_fresh [OF inv b False]
    have "obs_session (leg_state (pl_projection w)) < session"
      using assms fresh(3) by (auto simp: pipeline_inv_def Let_def)
    moreover have "leg_rejected_session (pl_projection w) < session"
      using assms fresh(3) by (auto simp: pipeline_inv_def Let_def)
    ultimately show ?thesis
      using assms fresh b CallBegin False
      by (auto simp: pipeline_inv_def Let_def resume_state_def session_start_def)
  qed
next
  case CallRevoke
  have "kept_or_revoked a l (pl_ingress w) (ingress_revoke (pl_ingress w))"
    if "ingress_inv a l (pl_ingress w)" for a l
    using that by (simp add: kept_or_revoked_revoke ingress_inv_mailbox)
  from pipeline_inv_kept [OF assms this] CallRevoke show ?thesis by simp
next
  case (CallRegistration s acc k)
  from pipeline_inv_kept [OF assms registration_kept] CallRegistration show ?thesis by simp
next
  case (CallStarted s acc key k)
  from pipeline_inv_kept [OF assms call_started_kept] CallStarted show ?thesis by simp
next
  case (CallChanged s acc key k)
  from pipeline_inv_kept [OF assms call_changed_kept] CallChanged show ?thesis by simp
qed

lemma ingress_inv_drained:
  assumes "ingress_inv a l (ing, mb)" "mailbox_drain mb = (batch, mb')"
  shows "ingress_inv (ing_active_token ing) (ing_last_token ing) (ing, mb')"
    "mb_generation mb' = mb_generation mb"
  using assms drain_inv [of mb]
  by (auto simp: ingress_inv_def mailbox_drain_def mailbox_events_def Let_def)

lemma unverified_fields [simp]:
  "obs_session (unverified p) = 0" "obs_evidence (unverified p) = SipEvidence.NoEvidence"
  by (simp_all add: unverified_def)

lemma pipeline_inv_drain:
  assumes "pipeline_inv w"
  shows "pipeline_inv (pipeline_step w Drain)"
proof -
  obtain ing mb where w: "pl_ingress w = (ing, mb)" by fastforce
  obtain batch mb' where d: "mailbox_drain mb = (batch, mb')" by (metis surj_pair)
  let ?s = "ing_session ing" and ?p = "pl_projection w"
  let ?o = "resume_state ?p ?s"
  let ?p' = "legacy_observe ?p RuntimeProcess.Running SipEvidence.VerifiedNativeApi batch"
  have step: "pipeline_step w Drain = w\<lparr>pl_ingress := (ing, mb'), pl_projection := ?p'\<rparr>"
    using w d by simp
  obtain a0 l0 where inv0: "ingress_inv a0 l0 (ing, mb)"
    using assms w by (auto simp: pipeline_inv_def Let_def split: if_splits)
  have p: "obs_session (leg_state ?p) \<le> mb_generation mb" "leg_rejected_session ?p \<le> mb_generation mb"
    "obs_inv (leg_state ?p)"
    "obs_evidence (leg_state ?p) = SipEvidence.VerifiedNativeApi \<Longrightarrow>
       obs_process (leg_state ?p) = RuntimeProcess.Running"
    using assms w by (auto simp: pipeline_inv_def Let_def)
  have mbi: "mailbox_inv mb" "mb_session mb = ?s" using inv0 by (auto simp: ingress_inv_def)
  note drained = ingress_inv_drained [OF inv0 d]
  have bs: "batch_session batch = ?s" "batch_overflow batch = mb_overflow mb"
    "batch_list batch = mailbox_events mb" "\<not> batch_size batch > mailbox_capacity"
    using d mbi drain_fields [of mb] drain_list [OF mbi(1)] drain_bounds [OF mbi(1)] by auto
  consider (idle) "?s = 0" | (rejected) "?s \<noteq> 0" "leg_rejected_session ?p = ?s"
    | (live) "?s \<noteq> 0" "leg_rejected_session ?p \<noteq> ?s" by blast
  then have "pipeline_inv (w\<lparr>pl_ingress := (ing, mb'), pl_projection := ?p'\<rparr>)"
  proof cases
    case idle
    with bs p drained show ?thesis
      by (auto simp: pipeline_inv_def legacy_observe_def Let_def)
  next
    case rejected
    with bs p drained show ?thesis
      by (auto simp: pipeline_inv_def legacy_observe_def Let_def)
  next
    case live
    have inv: "ingress_inv (obs_call_id ?o) (obs_last_call_id ?o) (ing, mb)"
      using assms w live by (simp add: pipeline_inv_def Let_def)
    have novf: "\<not> mb_overflow mb" and evs: "\<forall>e \<in> set (mailbox_events mb). ev_session e = ?s"
      and tok: "tokens_ok (obs_call_id ?o) (obs_last_call_id ?o) (mailbox_events mb) =
        Some (ing_active_token ing, ing_last_token ing)"
      using inv live mbi by (auto simp: ingress_inv_def mailbox_inv_def)
    have o: "sip_proof_is_current ?o ?s" "obs_inv ?o"
      "obs_evidence ?o = SipEvidence.VerifiedNativeApi" "obs_session ?o = ?s"
      "obs_process ?o = RuntimeProcess.Running"
      using p(3,4) live by (auto simp: resume_state_def sip_proof_is_current_def session_start_def
          in_call_status_def intro!: obs_inv_no_call)
    note red = token_events_reduced [OF tok evs o(1,2)]
    have p': "?p' = (case reduce_events ?o ?s (mailbox_events mb) of
        Some o' \<Rightarrow> ?p\<lparr>leg_state := o'\<rparr> | None \<Rightarrow> legacy_reject ?s RuntimeProcess.Running)"
      using live bs novf
      by (auto simp: legacy_observe_def Let_def resume_state_def session_start_def
          split: option.split)
    show ?thesis
    proof (cases "reduce_events ?o ?s (mailbox_events mb)")
      case None
      have "?s \<le> mb_generation mb'"
        using drained(1) by (auto simp: ingress_inv_def mailbox_inv_def)
      with None p' p drained show ?thesis
        by (auto simp: pipeline_inv_def legacy_reject_def Let_def)
    next
      case (Some o')
      have o': "obs_session o' = ?s" "obs_evidence o' = SipEvidence.VerifiedNativeApi"
        "obs_process o' = RuntimeProcess.Running" "obs_inv o'"
        using reduce_events_keeps [OF Some] reduce_events_inv [OF Some] o by auto
      have "?s \<le> mb_generation mb'"
        using drained(1) by (auto simp: ingress_inv_def mailbox_inv_def)
      with Some p' p drained o' red show ?thesis
        by (auto simp: pipeline_inv_def Let_def resume_state_def)
    qed
  qed
  then show ?thesis by (simp only: step)
qed

lemma pipeline_inv_run: "pipeline_inv (pipeline_run steps)"
proof -
  have "pipeline_inv w \<Longrightarrow> pipeline_inv (foldl pipeline_step w steps)" for w
  proof (induction steps arbitrary: w)
    case Nil
    then show ?case by simp
  next
    case (Cons x xs)
    then show ?case
      using pipeline_inv_native pipeline_inv_drain by (cases x) auto
  qed
  then show ?thesis using pipeline_inv_empty by (simp add: pipeline_run_def)
qed

lemma pipeline_run_cases:
  assumes "pipeline_run steps = w" "pl_ingress w = (ing, mb)" "pl_projection w = p"
    "ing_session ing \<noteq> 0" "leg_rejected_session p \<noteq> ing_session ing"
  shows "mailbox_inv mb" "mb_session mb = ing_session ing" "\<not> mb_overflow mb"
    "tokens_ok (obs_call_id (resume_state p (ing_session ing)))
       (obs_last_call_id (resume_state p (ing_session ing))) (mailbox_events mb) =
     Some (ing_active_token ing, ing_last_token ing)"
    "sip_proof_is_current (resume_state p (ing_session ing)) (ing_session ing)"
    "obs_inv (resume_state p (ing_session ing))"
proof -
  have inv: "pipeline_inv w" using pipeline_inv_run assms(1) by blast
  with assms show "mailbox_inv mb" "mb_session mb = ing_session ing" "\<not> mb_overflow mb"
    "tokens_ok (obs_call_id (resume_state p (ing_session ing)))
       (obs_last_call_id (resume_state p (ing_session ing))) (mailbox_events mb) =
     Some (ing_active_token ing, ing_last_token ing)"
    by (auto simp: pipeline_inv_def ingress_inv_def Let_def)
  from inv assms show "sip_proof_is_current (resume_state p (ing_session ing)) (ing_session ing)"
    by (auto simp: pipeline_inv_def resume_state_def session_start_def sip_proof_is_current_def
        Let_def)
  from inv assms show "obs_inv (resume_state p (ing_session ing))"
    by (auto simp: pipeline_inv_def resume_state_def Let_def)
qed

section \<open>Properties\<close>

text \<open>
  C4. Ingress, mailbox and projection agree on call identity. Take any interleaving of native
  callbacks, session starts, revocations and UI drains. While the ingress serves a session the
  projection has not rejected, the events waiting in the mailbox are never refused by the
  reducer as belonging to a stale call, to another session or to an unverified source: at worst
  their order is refused. If it takes them all, it arrives at exactly the call token and the
  last token the ingress holds.
\<close>

theorem ingress_events_never_stale:
  assumes "pipeline_run steps = w" and "pl_ingress w = (ing, mb)" and "pl_projection w = p"
    and "ing_session ing \<noteq> 0" and "leg_rejected_session p \<noteq> ing_session ing"
  shows "first_refusal (resume_state p (ing_session ing)) (ing_session ing) (mailbox_events mb)
      \<in> {EventTransition.Applied, EventTransition.InvalidOrder} \<and>
    (\<forall>obs. reduce_events (resume_state p (ing_session ing)) (ing_session ing)
        (mailbox_events mb) = Some obs \<longrightarrow>
      obs_call_id obs = ing_active_token ing \<and> obs_last_call_id obs = ing_last_token ing)"
proof -
  note c = pipeline_run_cases [OF assms]
  have "\<forall>e \<in> set (mailbox_events mb). ev_session e = ing_session ing"
    using c(1,2) by (simp add: mailbox_inv_def)
  from token_events_reduced [OF c(4) this c(5,6)] show ?thesis .
qed

definition sample_steps :: "PipelineStep list" where
  "sample_steps = [Native (CallBegin 7), Native (CallRegistration 1 7 BaresipEventKind.Registering),
     Native (CallRegistration 1 7 BaresipEventKind.RegisterOk), Drain,
     Native (CallStarted 1 7 5 BaresipEventKind.CallIncoming),
     Native (CallChanged 1 7 5 BaresipEventKind.CallEstablished)]"

theorem ingress_events_never_stale_witness:
  "first_refusal (resume_state (pl_projection (pipeline_run sample_steps)) 1) 1
     (mailbox_events (snd (pl_ingress (pipeline_run sample_steps))))
   \<in> {EventTransition.Applied, EventTransition.InvalidOrder} \<and>
   length (mailbox_events (snd (pl_ingress (pipeline_run sample_steps)))) = 2"
proof -
  have s: "ing_session (fst (pl_ingress (pipeline_run sample_steps))) = 1"
    and r: "leg_rejected_session (pl_projection (pipeline_run sample_steps)) = 0"
    and n: "mb_pending (snd (pl_ingress (pipeline_run sample_steps))) = 2"
    by code_simp+
  from s r ingress_events_never_stale [OF refl prod.collapse [symmetric] refl, of sample_steps]
  show ?thesis using n by (simp add: mailbox_events_def)
qed

end
