(* ===== verification/Callback_Lifecycle.thy ===== *)
theory Callback_Lifecycle
  imports Callback_Ingress
begin

text \<open>
  The quiescence gate of native callbacks, \<open>baresip_callback_lifecycle.h\<close>: the fence that counts
  the callbacks inside, and the lifecycle that couples it to the ingress. Each method of the two
  classes that holds a mutex throughout is one function. The condition variable in \<open>wait\<close> is an
  \<open>option\<close>: \<open>None\<close> while it blocks. Callbacks overlap, so the last sections give the threads
  inside as a list of captured sessions and the interleavings as an inductive step relation.
\<close>

section \<open>The fence\<close>

record BaresipCallbackFence =
  fen_generation :: u64
  fen_in_flight :: u64
  fen_accepting :: bool
  fen_closing :: bool

definition empty_fence :: BaresipCallbackFence where
  "empty_fence = \<lparr>fen_generation = 0, fen_in_flight = 0, fen_accepting = False,
     fen_closing = False\<rparr>"

definition fence_begin :: "BaresipCallbackFence \<Rightarrow> u64 \<times> BaresipCallbackFence" where
  "fence_begin f =
     (if fen_accepting f \<or> fen_closing f \<or> fen_in_flight f \<noteq> 0 \<or> fen_generation f = u64_max
      then (0, f)
      else (fen_generation f + 1,
            f\<lparr>fen_accepting := True, fen_generation := fen_generation f + 1\<rparr>))"

text \<open>The result is whether the lease is nonempty.\<close>

definition fence_admit :: "BaresipCallbackFence \<Rightarrow> u64 \<Rightarrow> bool \<times> BaresipCallbackFence" where
  "fence_admit f captured_generation =
     (if \<not> fen_accepting f \<or> fen_closing f \<or> captured_generation = 0 \<or>
         captured_generation \<noteq> fen_generation f
      then (False, f)
      else (True, f\<lparr>fen_in_flight := fen_in_flight f + 1\<rparr>))"

definition fence_close :: "BaresipCallbackFence \<Rightarrow> BaresipCallbackFence" where
  "fence_close f = f\<lparr>fen_accepting := False, fen_closing := True\<rparr>"

definition fence_wait :: "BaresipCallbackFence \<Rightarrow> BaresipCallbackFence option" where
  "fence_wait f = (if fen_in_flight f = 0 then Some (f\<lparr>fen_closing := False\<rparr>) else None)"

text \<open>\<open>release_one\<close>, which the destructor of a nonempty lease runs.\<close>

definition fence_release :: "BaresipCallbackFence \<Rightarrow> BaresipCallbackFence" where
  "fence_release f = f\<lparr>fen_in_flight := fen_in_flight f - 1\<rparr>"

lemmas fence_defs [step_defs] =
  fence_begin_def fence_admit_def fence_close_def fence_wait_def fence_release_def

lemma admit_release [simp]: "fst (fence_admit f g) \<Longrightarrow> fence_release (snd (fence_admit f g)) = f"
  by (auto simp: fence_defs split: if_splits)

section \<open>The lifecycle\<close>

record CapturedSession =
  cap_fence_generation :: u64
  cap_mailbox_session :: u64
  cap_account_identity :: u64

definition no_session :: CapturedSession where
  "no_session = \<lparr>cap_fence_generation = 0, cap_mailbox_session = 0, cap_account_identity = 0\<rparr>"

definition captured :: "CapturedSession \<Rightarrow> bool" where
  "captured c \<longleftrightarrow>
     cap_fence_generation c \<noteq> 0 \<and> cap_mailbox_session c \<noteq> 0 \<and> cap_account_identity c \<noteq> 0"

record BaresipCallbackLifecycle =
  lif_fence :: BaresipCallbackFence
  lif_ingress :: ingress_state
  lif_current :: CapturedSession

definition empty_lifecycle :: BaresipCallbackLifecycle where
  "empty_lifecycle = \<lparr>lif_fence = empty_fence, lif_ingress = (empty_ingress, empty_mailbox),
     lif_current = no_session\<rparr>"

definition lif_session :: "BaresipCallbackLifecycle \<Rightarrow> u64" where
  "lif_session l = ing_session (fst (lif_ingress l))"

text \<open>\<open>None\<close>: \<open>close_and_wait\<close> inside \<open>begin\<close> blocks. Lemma \<open>begin_returns\<close> excludes it.\<close>

definition lifecycle_begin ::
    "BaresipCallbackLifecycle \<Rightarrow> u64 \<Rightarrow> (CapturedSession \<times> BaresipCallbackLifecycle) option" where
  "lifecycle_begin l validated_account =
     (if validated_account = 0 \<or> captured (lif_current l) then Some (no_session, l)
      else (let (generation, f) = fence_begin (lif_fence l) in
            if generation = 0 then Some (no_session, l\<lparr>lif_fence := f\<rparr>)
            else (let (session, ing) = ingress_begin_session (lif_ingress l) validated_account in
                  if session = 0
                  then (case fence_wait (fence_close f) of
                          None \<Rightarrow> None
                        | Some f' \<Rightarrow> Some (no_session, l\<lparr>lif_fence := f', lif_ingress := ing\<rparr>))
                  else (let c = \<lparr>cap_fence_generation = generation, cap_mailbox_session = session,
                                 cap_account_identity = validated_account\<rparr>
                        in Some (c, l\<lparr>lif_fence := f, lif_ingress := ing, lif_current := c\<rparr>)))))"

text \<open>Whether the lease that covers the whole native callback is nonempty; an admitted lease
  whose session is no longer the ingress's is destroyed at once.\<close>

definition hold_native_callback ::
    "BaresipCallbackLifecycle \<Rightarrow> CapturedSession \<Rightarrow> bool \<times> BaresipCallbackLifecycle" where
  "hold_native_callback l c =
     (let (ok, f) = fence_admit (lif_fence l) (cap_fence_generation c) in
      if \<not> ok then (False, l)
      else if lif_session l \<noteq> cap_mailbox_session c
      then (False, l\<lparr>lif_fence := fence_release f\<rparr>)
      else (True, l\<lparr>lif_fence := f\<rparr>))"

definition lifecycle_registration ::
    "BaresipCallbackLifecycle \<Rightarrow> CapturedSession \<Rightarrow> BaresipEventKind \<Rightarrow>
     bool \<times> BaresipCallbackLifecycle" where
  "lifecycle_registration l c event =
     (let (lease, f) = fence_admit (lif_fence l) (cap_fence_generation c) in
      if \<not> lease then (False, l)
      else (let (ok, ing) = ingress_registration (lif_ingress l) (cap_mailbox_session c)
                              (cap_account_identity c) event
            in (ok, l\<lparr>lif_fence := fence_release f, lif_ingress := ing\<rparr>)))"

definition lifecycle_call_started ::
    "BaresipCallbackLifecycle \<Rightarrow> CapturedSession \<Rightarrow> u64 \<Rightarrow> BaresipEventKind \<Rightarrow>
     (bool \<times> u64) \<times> BaresipCallbackLifecycle" where
  "lifecycle_call_started l c native_key event =
     (let (lease, f) = fence_admit (lif_fence l) (cap_fence_generation c) in
      if \<not> lease then ((False, 0), l)
      else (let (res, ing) = ingress_call_started (lif_ingress l) (cap_mailbox_session c)
                               (cap_account_identity c) native_key event
            in (res, l\<lparr>lif_fence := fence_release f, lif_ingress := ing\<rparr>)))"

definition lifecycle_call_changed ::
    "BaresipCallbackLifecycle \<Rightarrow> CapturedSession \<Rightarrow> u64 \<Rightarrow> BaresipEventKind \<Rightarrow>
     bool \<times> BaresipCallbackLifecycle" where
  "lifecycle_call_changed l c native_key event =
     (let (lease, f) = fence_admit (lif_fence l) (cap_fence_generation c) in
      if \<not> lease then (False, l)
      else (let (ok, ing) = ingress_call_changed (lif_ingress l) (cap_mailbox_session c)
                              (cap_account_identity c) native_key event
            in (ok, l\<lparr>lif_fence := fence_release f, lif_ingress := ing\<rparr>)))"

definition reject_current :: "BaresipCallbackLifecycle \<Rightarrow> BaresipCallbackLifecycle" where
  "reject_current l =
     l\<lparr>lif_fence := fence_close (lif_fence l), lif_ingress := ingress_revoke (lif_ingress l)\<rparr>"

definition is_live :: "BaresipCallbackLifecycle \<Rightarrow> CapturedSession \<Rightarrow> bool" where
  "is_live l c \<longleftrightarrow> fst (fence_admit (lif_fence l) (cap_fence_generation c)) \<and>
     lif_session l = cap_mailbox_session c"

text \<open>\<open>revoke_and_wait\<close> gives up its mutex while it waits: it is two steps.\<close>

definition revoke_start :: "BaresipCallbackLifecycle \<Rightarrow> BaresipCallbackLifecycle" where
  "revoke_start l =
     l\<lparr>lif_fence := fence_close (lif_fence l), lif_ingress := ingress_revoke (lif_ingress l)\<rparr>"

definition revoke_finish :: "BaresipCallbackLifecycle \<Rightarrow> BaresipCallbackLifecycle option" where
  "revoke_finish l =
     (case fence_wait (lif_fence l) of
        None \<Rightarrow> None
      | Some f \<Rightarrow> Some (l\<lparr>lif_fence := f, lif_current := no_session\<rparr>))"

definition revoke_and_wait :: "BaresipCallbackLifecycle \<Rightarrow> BaresipCallbackLifecycle option" where
  "revoke_and_wait l = revoke_finish (revoke_start l)"

lemma begin_returns: "lifecycle_begin l account \<noteq> None"
  by (auto simp: lifecycle_begin_def fence_defs Let_def split: prod.splits)

lemma lifecycle_registration_fence [simp]:
  "lif_fence (snd (lifecycle_registration l c k)) = lif_fence l"
  "lif_current (snd (lifecycle_registration l c k)) = lif_current l"
  by (auto simp: lifecycle_registration_def fence_defs split: prod.splits if_splits)

lemma lifecycle_call_started_fence [simp]:
  "lif_fence (snd (lifecycle_call_started l c key k)) = lif_fence l"
  "lif_current (snd (lifecycle_call_started l c key k)) = lif_current l"
  by (auto simp: lifecycle_call_started_def fence_defs split: prod.splits if_splits)

lemma lifecycle_call_changed_fence [simp]:
  "lif_fence (snd (lifecycle_call_changed l c key k)) = lif_fence l"
  "lif_current (snd (lifecycle_call_changed l c key k)) = lif_current l"
  by (auto simp: lifecycle_call_changed_def fence_defs split: prod.splits if_splits)

section \<open>Callbacks that overlap\<close>

text \<open>What a callback publishes while it is inside.\<close>

datatype CallbackWork =
    WorkRegistration BaresipEventKind
  | WorkStarted u64 BaresipEventKind
  | WorkChanged u64 BaresipEventKind

fun callback_work :: "ingress_state \<Rightarrow> CapturedSession \<Rightarrow> CallbackWork \<Rightarrow> bool \<times> ingress_state"
  where
  "callback_work ing c (WorkRegistration k) =
     ingress_registration ing (cap_mailbox_session c) (cap_account_identity c) k"
| "callback_work ing c (WorkStarted key k) =
     (let ((ok, _), ing) = ingress_call_started ing (cap_mailbox_session c)
        (cap_account_identity c) key k in (ok, ing))"
| "callback_work ing c (WorkChanged key k) =
     ingress_call_changed ing (cap_mailbox_session c) (cap_account_identity c) key k"

text \<open>
  Between its admission and its release another thread may close the fence, revoke the session
  and so on. \<open>inside\<close> lists the callbacks that hold a lease; a step publishes for one of them.
  Fewer than \<open>2 ^ 64 - 1\<close> threads exist, so the counter does not wrap. As the header demands, the
  owner serializes \<open>begin\<close> and \<open>revoke_and_wait\<close>: \<open>waiting\<close> says it is inside the latter.
  \<open>reject_current\<close> and everything the callbacks do may happen meanwhile.
\<close>

record LifecycleWorld =
  lw_state :: BaresipCallbackLifecycle
  lw_inside :: "CapturedSession list"
  lw_waiting :: bool

datatype FenceEvent =
    Begun CapturedSession
  | Entered CapturedSession
  | Published CapturedSession CallbackWork bool
  | Left CapturedSession
  | RejectedCurrent
  | RevokeStarted
  | RevokeFinished

inductive lifecycle_step :: "LifecycleWorld \<Rightarrow> FenceEvent \<Rightarrow> LifecycleWorld \<Rightarrow> bool" where
  begins: "lifecycle_begin l account = Some (c, l') \<Longrightarrow>
    lifecycle_step \<lparr>lw_state = l, lw_inside = cs, lw_waiting = False\<rparr> (Begun c)
      \<lparr>lw_state = l', lw_inside = cs, lw_waiting = False\<rparr>"
| enters: "fence_admit (lif_fence l) (cap_fence_generation c) = (True, f) \<Longrightarrow>
    length cs < 2 ^ 64 - 1 \<Longrightarrow>
    lifecycle_step \<lparr>lw_state = l, lw_inside = cs, lw_waiting = b\<rparr> (Entered c)
      \<lparr>lw_state = l\<lparr>lif_fence := f\<rparr>, lw_inside = c # cs, lw_waiting = b\<rparr>"
| publishes: "c \<in> set cs \<Longrightarrow> callback_work (lif_ingress l) c work = (ok, ing) \<Longrightarrow>
    lifecycle_step \<lparr>lw_state = l, lw_inside = cs, lw_waiting = b\<rparr> (Published c work ok)
      \<lparr>lw_state = l\<lparr>lif_ingress := ing\<rparr>, lw_inside = cs, lw_waiting = b\<rparr>"
| leaves: "c \<in> set cs \<Longrightarrow>
    lifecycle_step \<lparr>lw_state = l, lw_inside = cs, lw_waiting = b\<rparr> (Left c)
      \<lparr>lw_state = l\<lparr>lif_fence := fence_release (lif_fence l)\<rparr>, lw_inside = remove1 c cs,
       lw_waiting = b\<rparr>"
| rejects: "lifecycle_step \<lparr>lw_state = l, lw_inside = cs, lw_waiting = b\<rparr> RejectedCurrent
      \<lparr>lw_state = reject_current l, lw_inside = cs, lw_waiting = b\<rparr>"
| revokes: "lifecycle_step \<lparr>lw_state = l, lw_inside = cs, lw_waiting = False\<rparr> RevokeStarted
      \<lparr>lw_state = revoke_start l, lw_inside = cs, lw_waiting = True\<rparr>"
| finishes: "revoke_finish l = Some l' \<Longrightarrow>
    lifecycle_step \<lparr>lw_state = l, lw_inside = cs, lw_waiting = True\<rparr> RevokeFinished
      \<lparr>lw_state = l', lw_inside = cs, lw_waiting = False\<rparr>"

inductive_cases lifecycle_stepE: "lifecycle_step w e w'"

inductive lifecycle_run :: "FenceEvent list \<Rightarrow> LifecycleWorld \<Rightarrow> bool" where
  start: "lifecycle_run [] \<lparr>lw_state = empty_lifecycle, lw_inside = [], lw_waiting = False\<rparr>"
| step: "lifecycle_run es w \<Longrightarrow> lifecycle_step w e w' \<Longrightarrow> lifecycle_run (es @ [e]) w'"

text \<open>
  The invariant: the fence counts exactly the callbacks inside, all of them of its generation,
  and the ingress serves a session only while the fence accepts, and then the one captured.
\<close>

definition lifecycle_inv :: "LifecycleWorld \<Rightarrow> bool" where
  "lifecycle_inv w \<longleftrightarrow>
     (let l = lw_state w; f = lif_fence l; ing = fst (lif_ingress l) in
        unat (fen_in_flight f) = length (lw_inside w) \<and>
        (\<forall>c \<in> set (lw_inside w). cap_fence_generation c = fen_generation f) \<and>
        (fen_accepting f \<longrightarrow> \<not> fen_closing f \<and> \<not> lw_waiting w) \<and>
        mailbox_inv (snd (lif_ingress l)) \<and>
        (ing_session ing \<noteq> 0 \<longrightarrow> fen_accepting f \<and>
           lif_current l = \<lparr>cap_fence_generation = fen_generation f,
             cap_mailbox_session = ing_session ing, cap_account_identity = ing_account ing\<rparr>))"

lemma lifecycle_inv_start:
  "lifecycle_inv \<lparr>lw_state = empty_lifecycle, lw_inside = [], lw_waiting = False\<rparr>"
  by (simp add: lifecycle_inv_def empty_lifecycle_def empty_fence_def empty_ingress_def Let_def)

lemma ingress_enqueue_result:
  assumes "ingress_enqueue (ing, mb) kind t = (ok, st')"
  shows "ing_session (fst st') = (if ok then ing_session ing else 0)"
    "ok \<Longrightarrow> ing_account (fst st') = ing_account ing"
    "mailbox_inv mb \<Longrightarrow> mailbox_inv (snd st')"
    "ok \<Longrightarrow> mb_session mb = ing_session ing \<and> mb_session (snd st') = ing_session ing"
  using assms enqueue_inv [of mb "native_event kind (ing_session ing) t"]
  by (auto simp: ingress_enqueue_def ingress_revoke_def mailbox_enqueue_def Let_def
      split: prod.splits if_splits)

lemma ingress_admit_result:
  assumes "ingress_admit st s a = (ok, st')"
  shows "ok \<Longrightarrow> st' = st \<and> s = ing_session (fst st) \<and> s \<noteq> 0 \<and> a = ing_account (fst st) \<and> a \<noteq> 0"
    "\<not> ok \<Longrightarrow> st' = st \<or> st' = ingress_revoke st"
  using assms by (auto simp: ingress_admit_def Let_def split: if_splits)

text \<open>What the ingress looks like after any callback: as before, or revoked.\<close>

definition same_or_revoked :: "ingress_state \<Rightarrow> ingress_state \<Rightarrow> bool" where
  "same_or_revoked st st' \<longleftrightarrow>
     (ing_session (fst st') = 0 \<or>
      ing_session (fst st') = ing_session (fst st) \<and> ing_account (fst st') = ing_account (fst st)) \<and>
     (mailbox_inv (snd st) \<longrightarrow> mailbox_inv (snd st'))"

lemma same_or_revoked_refl [simp]: "same_or_revoked st st"
  by (simp add: same_or_revoked_def)

lemma same_or_revoked_revoke [simp]: "same_or_revoked st (ingress_revoke st)"
  by (cases st) (simp add: same_or_revoked_def ingress_revoke_def)

lemma registration_result:
  assumes "ingress_registration st s a k = (ok, st')"
  shows "same_or_revoked st st'"
    "ok \<Longrightarrow> s \<noteq> 0 \<and> s = ing_session (fst st) \<and> a = ing_account (fst st) \<and>
       ing_session (fst st') = s"
proof -
  obtain ad st1 where ad: "ingress_admit st s a = (ad, st1)" by (metis surj_pair)
  obtain ing mb where st: "st = (ing, mb)" by fastforce
  note r = ingress_admit_result [OF ad]
  have "same_or_revoked st st' \<and> (ok \<longrightarrow> s \<noteq> 0 \<and> s = ing_session (fst st) \<and>
      a = ing_account (fst st) \<and> ing_session (fst st') = s)"
  proof (cases ad)
    case False
    with assms ad r show ?thesis by (auto simp: ingress_registration_def)
  next
    case True
    with r st have s: "s = ing_session ing" "s \<noteq> 0" "a = ing_account ing" "st1 = (ing, mb)" by auto
    obtain eok est where e: "ingress_enqueue (ing, mb) k 0 = (eok, est)" by (metis surj_pair)
    obtain lok lst where l: "ingress_enqueue
        (ing\<lparr>ing_active_native_key := 0, ing_active_token := 0\<rparr>, mb) k 0 = (lok, lst)"
      by (metis surj_pair)
    have "ok = eok \<and> st' = est \<or> ok = lok \<and> st' = lst \<or> \<not> ok \<and> st' = ingress_revoke st"
      using assms ad True s st e l by (auto simp: ingress_registration_def Let_def split: if_splits)
    then show ?thesis
      using s st ingress_enqueue_result [OF e] ingress_enqueue_result [OF l]
      by (auto simp: same_or_revoked_def ingress_revoke_def)
  qed
  then show "same_or_revoked st st'" "ok \<Longrightarrow> s \<noteq> 0 \<and> s = ing_session (fst st) \<and>
      a = ing_account (fst st) \<and> ing_session (fst st') = s" by blast+
qed

lemma call_started_result:
  assumes "ingress_call_started st s a key k = ((ok, token), st')"
  shows "same_or_revoked st st'"
    "ok \<Longrightarrow> s \<noteq> 0 \<and> s = ing_session (fst st) \<and> a = ing_account (fst st) \<and>
       ing_session (fst st') = s"
proof -
  obtain ad st1 where ad: "ingress_admit st s a = (ad, st1)" by (metis surj_pair)
  obtain ing mb where st: "st = (ing, mb)" by fastforce
  note r = ingress_admit_result [OF ad]
  have "same_or_revoked st st' \<and> (ok \<longrightarrow> s \<noteq> 0 \<and> s = ing_session (fst st) \<and>
      a = ing_account (fst st) \<and> ing_session (fst st') = s)"
  proof (cases ad)
    case False
    with assms ad r show ?thesis by (auto simp: ingress_call_started_def Let_def)
  next
    case True
    with r st have s: "s = ing_session ing" "s \<noteq> 0" "a = ing_account ing" "st1 = (ing, mb)" by auto
    obtain eok est where e: "ingress_enqueue (ing, mb) k (ing_last_token ing + 1) = (eok, est)"
      by (metis surj_pair)
    from assms ad True s st e ingress_enqueue_result [OF e] show ?thesis
      by (auto simp: ingress_call_started_def same_or_revoked_def ingress_revoke_def Let_def
          split: if_splits)
  qed
  then show "same_or_revoked st st'" "ok \<Longrightarrow> s \<noteq> 0 \<and> s = ing_session (fst st) \<and>
      a = ing_account (fst st) \<and> ing_session (fst st') = s" by blast+
qed

lemma call_changed_result:
  assumes "ingress_call_changed st s a key k = (ok, st')"
  shows "same_or_revoked st st'"
    "ok \<Longrightarrow> s \<noteq> 0 \<and> s = ing_session (fst st) \<and> a = ing_account (fst st) \<and>
       ing_session (fst st') = s"
proof -
  obtain ad st1 where ad: "ingress_admit st s a = (ad, st1)" by (metis surj_pair)
  obtain ing mb where st: "st = (ing, mb)" by fastforce
  note r = ingress_admit_result [OF ad]
  have "same_or_revoked st st' \<and> (ok \<longrightarrow> s \<noteq> 0 \<and> s = ing_session (fst st) \<and>
      a = ing_account (fst st) \<and> ing_session (fst st') = s)"
  proof (cases ad)
    case False
    with assms ad r show ?thesis by (auto simp: ingress_call_changed_def Let_def)
  next
    case True
    with r st have s: "s = ing_session ing" "s \<noteq> 0" "a = ing_account ing" "st1 = (ing, mb)" by auto
    obtain eok est where e: "ingress_enqueue (ing, mb) k (ing_active_token ing) = (eok, est)"
      by (metis surj_pair)
    from assms ad True s st e ingress_enqueue_result [OF e] show ?thesis
      by (auto simp: ingress_call_changed_def same_or_revoked_def ingress_revoke_def Let_def
          split: if_splits)
  qed
  then show "same_or_revoked st st'" "ok \<Longrightarrow> s \<noteq> 0 \<and> s = ing_session (fst st) \<and>
      a = ing_account (fst st) \<and> ing_session (fst st') = s" by blast+
qed

lemma callback_work_result:
  assumes "callback_work st c work = (ok, st')"
  shows "same_or_revoked st st'"
    "ok \<Longrightarrow> cap_mailbox_session c \<noteq> 0 \<and> cap_mailbox_session c = ing_session (fst st) \<and>
       cap_account_identity c = ing_account (fst st) \<and> ing_session (fst st') = ing_session (fst st)"
proof -
  have "same_or_revoked st st' \<and> (ok \<longrightarrow> cap_mailbox_session c \<noteq> 0 \<and>
      cap_mailbox_session c = ing_session (fst st) \<and> cap_account_identity c = ing_account (fst st) \<and>
      ing_session (fst st') = ing_session (fst st))"
    using assms
    by (cases work)
      (auto dest: registration_result call_started_result call_changed_result
        split: prod.splits)
  then show "same_or_revoked st st'"
    "ok \<Longrightarrow> cap_mailbox_session c \<noteq> 0 \<and> cap_mailbox_session c = ing_session (fst st) \<and>
       cap_account_identity c = ing_account (fst st) \<and> ing_session (fst st') = ing_session (fst st)"
    by blast+
qed

section \<open>The invariant is kept\<close>

lemma begin_cases:
  assumes "lifecycle_begin l account = Some (c, l')"
    "lifecycle_inv \<lparr>lw_state = l, lw_inside = cs, lw_waiting = b\<rparr>"
  obtains (refused) "c = no_session" "lif_current l' = lif_current l"
      "lif_ingress l' = lif_ingress l" "lif_fence l' = lif_fence l"
    | (exhausted) "c = no_session" "cs = []" "ing_session (fst (lif_ingress l')) = 0"
      "mailbox_inv (snd (lif_ingress l'))" "fen_in_flight (lif_fence l') = 0"
      "\<not> fen_accepting (lif_fence l')" "fen_generation (lif_fence l) < fen_generation (lif_fence l')"
    | (begun) "captured c" "cs = []" "lif_current l' = c" "mailbox_inv (snd (lif_ingress l'))"
      "fen_in_flight (lif_fence l') = 0" "fen_accepting (lif_fence l')" "\<not> fen_closing (lif_fence l')"
      "c = \<lparr>cap_fence_generation = fen_generation (lif_fence l'),
            cap_mailbox_session = ing_session (fst (lif_ingress l')),
            cap_account_identity = ing_account (fst (lif_ingress l'))\<rparr>"
      "fen_generation (lif_fence l) < fen_generation (lif_fence l')"
      "mb_generation (snd (lif_ingress l)) < ing_session (fst (lif_ingress l'))"
proof -
  let ?f = "lif_fence l"
  obtain ing mb where li: "lif_ingress l = (ing, mb)" by fastforce
  show thesis
  proof (cases "account = 0 \<or> captured (lif_current l) \<or> fst (fence_begin ?f) = 0")
    case True
    then have "c = no_session \<and> lif_current l' = lif_current l \<and>
        lif_ingress l' = lif_ingress l \<and> lif_fence l' = lif_fence l"
      using assms(1)
      by (auto simp: lifecycle_begin_def fence_begin_def Let_def split: if_splits)
    with refused show thesis by blast
  next
    case False
    then have fb: "\<not> fen_accepting ?f" "\<not> fen_closing ?f" "fen_in_flight ?f = 0"
      "fen_generation ?f \<noteq> u64_max"
      by (auto simp: fence_begin_def split: if_splits)
    have idle: "ing_session ing = 0" "cs = []" "mailbox_inv mb"
      using assms(2) fb li by (auto simp: lifecycle_inv_def Let_def)
    obtain session mb' where mb': "mailbox_begin_session mb = (session, mb')" by fastforce
    have inv': "mailbox_inv mb'" and fresh: "session \<noteq> 0 \<Longrightarrow> mb_generation mb < session"
      using mailbox.inv_begin [OF idle(3)] mailbox.fresh_begin [OF idle(3)] mb' by auto
    have eq: "lifecycle_begin l account = Some (c, l')" by (rule assms(1))
    show thesis
    proof (cases "session = 0")
      case True
      have "c = no_session \<and> ing_session (fst (lif_ingress l')) = 0 \<and> snd (lif_ingress l') = mb' \<and>
          fen_in_flight (lif_fence l') = 0 \<and> \<not> fen_accepting (lif_fence l') \<and>
          fen_generation (lif_fence l') = fen_generation ?f + 1"
        using eq False fb idle li mb' True
        by (auto simp: lifecycle_begin_def fence_defs ingress_begin_session_def Let_def)
      with exhausted idle(2) inv' inc_gt [OF fb(4)] show thesis by auto
    next
      case nz: False
      have "c = \<lparr>cap_fence_generation = fen_generation ?f + 1, cap_mailbox_session = session,
            cap_account_identity = account\<rparr> \<and> lif_current l' = c \<and>
          ing_session (fst (lif_ingress l')) = session \<and>
          ing_account (fst (lif_ingress l')) = account \<and> snd (lif_ingress l') = mb' \<and>
          fen_in_flight (lif_fence l') = 0 \<and> fen_accepting (lif_fence l') \<and>
          \<not> fen_closing (lif_fence l') \<and> fen_generation (lif_fence l') = fen_generation ?f + 1"
        using eq False fb idle li mb' nz
        by (auto simp: lifecycle_begin_def fence_defs ingress_begin_session_def Let_def)
      with begun idle(2) inv' inc_gt [OF fb(4)] fb(4) nz fresh False li show thesis
        by (auto simp: captured_def)
    qed
  qed
qed

lemma lifecycle_step_inv: "lifecycle_step w e w' \<Longrightarrow> lifecycle_inv w \<Longrightarrow> lifecycle_inv w'"
proof (induction rule: lifecycle_step.induct)
  case (begins l account c l' cs)
  from begins(1,2) show ?case
    by (cases rule: begin_cases) (use begins(2) in \<open>auto simp: lifecycle_inv_def Let_def\<close>)
next
  case (enters l c f cs)
  have "unat (fen_in_flight (lif_fence l) + 1) = Suc (unat (fen_in_flight (lif_fence l)))"
    using enters(2,3) unat_u64_max by (intro unat_inc) (auto simp: lifecycle_inv_def Let_def)
  with enters show ?case
    by (auto simp: lifecycle_inv_def fence_defs Let_def split: if_splits)
next
  case (publishes c cs l work ok ing)
  from callback_work_result(1) [OF publishes(2)] publishes(3) show ?case
    by (auto simp: lifecycle_inv_def same_or_revoked_def Let_def)
next
  case (leaves c cs l)
  then have "fen_in_flight (lif_fence l) \<noteq> 0"
    by (auto simp: lifecycle_inv_def Let_def)
  then have "unat (fen_in_flight (lif_fence l) - 1) = unat (fen_in_flight (lif_fence l)) - 1"
    by (simp add: unat_minus_one)
  with leaves show ?case
    by (auto simp: lifecycle_inv_def fence_defs Let_def length_remove1 dest: notin_set_remove1 set_remove1_subset [THEN subsetD])
next
  case (rejects l cs)
  then show ?case
    by (cases "lif_ingress l")
      (auto simp: lifecycle_inv_def reject_current_def fence_defs ingress_revoke_def Let_def)
next
  case (revokes l cs)
  then show ?case
    by (cases "lif_ingress l")
      (auto simp: lifecycle_inv_def revoke_start_def fence_defs ingress_revoke_def Let_def)
next
  case (finishes l l' cs)
  then show ?case
    by (auto simp: lifecycle_inv_def revoke_finish_def fence_defs Let_def split: if_splits)
qed

section \<open>What a trace of the lifecycle captures\<close>

text \<open>The session that is live after a trace: the last one begun, unless it was rejected or
  revoked since.\<close>

fun capture_step :: "CapturedSession option \<Rightarrow> FenceEvent \<Rightarrow> CapturedSession option" where
  "capture_step live (Begun c) = (if captured c then Some c else live)"
| "capture_step live RejectedCurrent = None"
| "capture_step live RevokeStarted = None"
| "capture_step live _ = live"

definition live_capture :: "FenceEvent list \<Rightarrow> CapturedSession option" where
  "live_capture es = foldl capture_step None es"

text \<open>The fence generations a trace handed out, in order.\<close>

definition begun_generations :: "FenceEvent list \<Rightarrow> u64 list" where
  "begun_generations es =
     concat (map (\<lambda>e. case e of Begun c \<Rightarrow> if captured c then [cap_fence_generation c] else []
                      | _ \<Rightarrow> []) es)"

definition trace_inv :: "FenceEvent list \<Rightarrow> LifecycleWorld \<Rightarrow> bool" where
  "trace_inv es w \<longleftrightarrow> lifecycle_inv w \<and>
     (lif_session (lw_state w) \<noteq> 0 \<longrightarrow> live_capture es = Some (lif_current (lw_state w))) \<and>
     sorted_wrt (<) (begun_generations es) \<and>
     (\<forall>g \<in> set (begun_generations es). g \<le> fen_generation (lif_fence (lw_state w)))"

lemma captured_no_session [simp]: "\<not> captured no_session"
  by (simp add: captured_def no_session_def)

lemma live_capture_snoc [simp]: "live_capture (es @ [e]) = capture_step (live_capture es) e"
  by (simp add: live_capture_def)

lemma begun_generations_snoc [simp]:
  "begun_generations (es @ [e]) = begun_generations es @
     (case e of Begun c \<Rightarrow> if captured c then [cap_fence_generation c] else [] | _ \<Rightarrow> [])"
  by (simp add: begun_generations_def)

lemma publish_live:
  assumes "trace_inv es \<lparr>lw_state = l, lw_inside = cs, lw_waiting = b\<rparr>" "c \<in> set cs"
    and "callback_work (lif_ingress l) c work = (True, ing)"
  shows "live_capture es = Some c"
proof -
  have "cap_mailbox_session c \<noteq> 0" "cap_mailbox_session c = lif_session l"
    "cap_account_identity c = ing_account (fst (lif_ingress l))"
    using callback_work_result(2) [OF assms(3)] by (auto simp: lif_session_def)
  then show ?thesis
    using assms(1,2) by (auto simp: trace_inv_def lifecycle_inv_def lif_session_def Let_def)
qed

lemma trace_step:
  assumes "lifecycle_step w e w'" "trace_inv es w"
  shows "trace_inv (es @ [e]) w'"
proof -
  have inv: "lifecycle_inv w" and inv': "lifecycle_inv w'"
    using assms lifecycle_step_inv by (auto simp: trace_inv_def)
  from assms(1) show ?thesis
  proof (cases rule: lifecycle_step.cases)
    case (begins l account c l' cs)
    from begins inv have "lifecycle_inv \<lparr>lw_state = l, lw_inside = cs, lw_waiting = False\<rparr>" by simp
    with begins(4) show ?thesis
    proof (cases rule: begin_cases)
      case refused
      then show ?thesis using begins assms(2) inv'
        by (auto simp: trace_inv_def lif_session_def)
    next
      case exhausted
      then show ?thesis using begins assms(2) inv'
        by (auto simp: trace_inv_def lif_session_def intro: order_trans less_imp_le)
    next
      case begun
      then have "\<forall>g \<in> set (begun_generations es). g < fen_generation (lif_fence l')"
        using begins assms(2) by (auto simp: trace_inv_def intro: order_le_less_trans)
      moreover have "cap_fence_generation c = fen_generation (lif_fence l')"
        using begun(8) by (metis CapturedSession.select_convs(1))
      ultimately show ?thesis using begins begun assms(2) inv'
        by (auto simp: trace_inv_def sorted_wrt_append less_imp_le)
    qed
  next
    case (enters l c f cs b)
    then show ?thesis using assms(2) inv'
      by (auto simp: trace_inv_def lif_session_def fence_defs split: if_splits)
  next
    case (publishes c cs l work ok ing b)
    then show ?thesis using assms(2) inv' callback_work_result(1) [OF publishes(5)]
      by (auto simp: trace_inv_def lif_session_def same_or_revoked_def)
  next
    case (leaves c cs l b)
    then show ?thesis using assms(2) inv'
      by (auto simp: trace_inv_def lif_session_def fence_defs)
  next
    case (rejects l cs b)
    then show ?thesis using assms(2) inv' revoke_session [of "lif_ingress l"]
      by (auto simp: trace_inv_def lif_session_def reject_current_def fence_defs)
  next
    case (revokes l cs)
    then show ?thesis using assms(2) inv' revoke_session [of "lif_ingress l"]
      by (auto simp: trace_inv_def lif_session_def revoke_start_def fence_defs)
  next
    case (finishes l l' cs)
    then have "lif_session l = 0" "lif_session l' = 0"
      using inv by (auto simp: lifecycle_inv_def lif_session_def revoke_finish_def fence_defs Let_def
          split: if_splits)
    with finishes show ?thesis using assms(2) inv'
      by (auto simp: trace_inv_def revoke_finish_def fence_defs split: if_splits)
  qed
qed

lemma trace_inv_run: "lifecycle_run es w \<Longrightarrow> trace_inv es w"
proof (induction rule: lifecycle_run.induct)
  case start
  then show ?case using lifecycle_inv_start
    by (simp add: trace_inv_def lif_session_def empty_lifecycle_def empty_ingress_def
        begun_generations_def)
next
  case (step es w e w')
  then show ?case using trace_step by blast
qed

section \<open>Properties\<close>

text \<open>
  C7. Only the live session publishes. However callbacks, admissions, rejections and
  revocations of several threads interleave, a callback that succeeds in publishing an event was
  captured by the session that is live at that moment: the last one begun, neither rejected nor
  revoked since. A callback still inside after its session was withdrawn publishes nothing.
\<close>

theorem only_live_session_publishes:
  assumes "lifecycle_run (es @ [Published c work True]) w"
  shows "live_capture es = Some c"
  using assms
proof (cases rule: lifecycle_run.cases)
  case (step es' w1 e)
  then have e: "es' = es" "e = Published c work True" by auto
  from step(3) [unfolded e] obtain l cs b ing where
    w1: "w1 = \<lparr>lw_state = l, lw_inside = cs, lw_waiting = b\<rparr>" and c: "c \<in> set cs"
    and p: "callback_work (lif_ingress l) c work = (True, ing)"
    by (cases rule: lifecycle_stepE) auto
  from trace_inv_run [OF step(2)] e w1
  have "trace_inv es \<lparr>lw_state = l, lw_inside = cs, lw_waiting = b\<rparr>" by simp
  from publish_live [OF this c p] show ?thesis .
qed auto

definition sample_capture :: CapturedSession where
  "sample_capture =
     \<lparr>cap_fence_generation = 1, cap_mailbox_session = 1, cap_account_identity = 7\<rparr>"

definition sample_begun :: BaresipCallbackLifecycle where
  "sample_begun = snd (the (lifecycle_begin empty_lifecycle 7))"

definition sample_inside :: BaresipCallbackLifecycle where
  "sample_inside = sample_begun\<lparr>lif_fence := snd (fence_admit (lif_fence sample_begun) 1)\<rparr>"

lemma sample_run:
  "lifecycle_run [Begun sample_capture, Entered sample_capture]
     \<lparr>lw_state = sample_inside, lw_inside = [sample_capture], lw_waiting = False\<rparr>"
proof -
  have b: "lifecycle_begin empty_lifecycle 7 = Some (sample_capture, sample_begun)"
    by code_simp
  have "fence_admit (lif_fence sample_begun) 1 = (True, snd (fence_admit (lif_fence sample_begun) 1))"
    by code_simp
  then have "fence_admit (lif_fence sample_begun) (cap_fence_generation sample_capture) =
      (True, snd (fence_admit (lif_fence sample_begun) 1))"
    by (simp add: sample_capture_def)
  from lifecycle_run.step [OF lifecycle_run.step
      [OF lifecycle_run.start lifecycle_step.begins [OF b]] lifecycle_step.enters [OF this]]
  show ?thesis by (simp add: sample_inside_def)
qed

theorem only_live_session_publishes_witness:
  "live_capture [Begun sample_capture, Entered sample_capture] = Some sample_capture"
proof -
  let ?work = "WorkRegistration BaresipEventKind.Registering"
  have "fst (callback_work (lif_ingress sample_inside) sample_capture ?work)" by code_simp
  then have p: "callback_work (lif_ingress sample_inside) sample_capture ?work =
      (True, snd (callback_work (lif_ingress sample_inside) sample_capture ?work))"
    by (simp add: prod_eq_iff)
  have "sample_capture \<in> set [sample_capture]" by simp
  from lifecycle_run.step [OF sample_run lifecycle_step.publishes [OF this p]]
  show ?thesis by (rule only_live_session_publishes)
qed

text \<open>
  C8. Quiescence. In every reachable state the fence counts exactly the callbacks inside, all
  of them of the current generation; generations are handed out in strictly increasing order, so
  no callback ever overlaps with a later generation; \<open>begin\<close> and \<open>wait\<close> succeed only with nobody
  inside; and \<open>wait\<close> returns as soon as that holds.
\<close>

theorem fence_quiescence:
  assumes "lifecycle_run es w"
  shows "unat (fen_in_flight (lif_fence (lw_state w))) = length (lw_inside w) \<and>
    (\<forall>c \<in> set (lw_inside w). cap_fence_generation c = fen_generation (lif_fence (lw_state w))) \<and>
    sorted_wrt (<) (begun_generations es) \<and>
    (\<forall>c w'. lifecycle_step w (Begun c) w' \<longrightarrow> captured c \<longrightarrow> lw_inside w = []) \<and>
    (revoke_finish (lw_state w) \<noteq> None \<longleftrightarrow> lw_inside w = [])"
proof -
  have t: "trace_inv es w" by (rule trace_inv_run [OF assms])
  then have inv: "lifecycle_inv w" by (simp add: trace_inv_def)
  have "lw_inside w = []" if "lifecycle_step w (Begun c) w'" "captured c" for c w'
    using that(1)
  proof (cases rule: lifecycle_step.cases)
    case (begins l account l' cs)
    from begins inv have i: "lifecycle_inv \<lparr>lw_state = l, lw_inside = cs, lw_waiting = False\<rparr>"
      by simp
    show ?thesis using that(2) begins by (cases rule: begin_cases [OF begins(3) i]) auto
  qed
  moreover have "revoke_finish (lw_state w) \<noteq> None \<longleftrightarrow> lw_inside w = []"
    using inv by (auto simp: revoke_finish_def fence_defs lifecycle_inv_def Let_def unat_eq_0
        split: option.splits if_splits)
  ultimately show ?thesis
    using t inv by (auto simp: trace_inv_def lifecycle_inv_def Let_def)
qed

theorem fence_quiescence_witness:
  "revoke_finish (revoke_start sample_inside) = None"
proof -
  from fence_quiescence [OF lifecycle_run.step [OF sample_run lifecycle_step.revokes]]
  show ?thesis by simp
qed

end
