(* ===== verification/Sdk_Adapter.thy ===== *)
theory Sdk_Adapter
  imports Callback_Lifecycle
begin

text \<open>
  The bridge from Baresip's \<open>bevent\<close> callbacks to the lifecycle,
  \<open>baresip_sdk_event_adapter.h\<close>. The SDK is not part of the repository: what the adapter asks of
  it (\<open>bevent_register\<close>'s result, \<open>ua_isregistered\<close>, the agent and the call of an event) is an
  argument. Pointers are 64-bit words, null is 0. Every operation runs on the event-loop thread;
  an operation that would wait there for callbacks is \<open>None\<close>.
\<close>

section \<open>State\<close>

text \<open>The event types the source distinguishes; every other value is \<open>BEVENT_OTHER\<close>.\<close>

datatype bevent_ev =
    BEVENT_REGISTERING | BEVENT_REGISTER_OK | BEVENT_REGISTER_FAIL | BEVENT_UNREGISTERING
  | BEVENT_SHUTDOWN | BEVENT_EXIT | BEVENT_AUDIO_ERROR
  | BEVENT_CALL_INCOMING | BEVENT_CALL_OUTGOING | BEVENT_CALL_ESTABLISHED | BEVENT_CALL_CLOSED
  | BEVENT_CALL_TRANSFER_FAILED | BEVENT_OTHER int

text \<open>What \<open>bevent_get_ua\<close> and \<open>bevent_get_call\<close> return for an event.\<close>

record SdkEvent =
  sdk_ua :: u64
  sdk_call :: u64

record BaresipSdkEventAdapter =
  ad_lifecycle :: BaresipCallbackLifecycle
  ad_owner :: u64
  ad_active_call :: u64
  ad_seen_calls :: "u64 list"
  ad_captured :: CapturedSession
  ad_contexts :: "CapturedSession list"
  ad_native_key :: u64
  ad_active_token :: u64
  ad_registered :: bool
  ad_sip_registered :: bool
  ad_active_incoming :: bool
  ad_call_established :: bool
  ad_hangup_sent :: bool
  ad_answer_sent :: bool
  ad_transfer_attempted :: bool
  ad_transfer_failed :: bool

definition empty_adapter :: BaresipSdkEventAdapter where
  "empty_adapter = \<lparr>ad_lifecycle = empty_lifecycle, ad_owner = 0, ad_active_call = 0,
     ad_seen_calls = [], ad_captured = no_session, ad_contexts = [], ad_native_key = 0,
     ad_active_token = 0, ad_registered = False, ad_sip_registered = False,
     ad_active_incoming = False, ad_call_established = False, ad_hangup_sent = False,
     ad_answer_sent = False, ad_transfer_attempted = False, ad_transfer_failed = False\<rparr>"

definition max_contexts :: nat where
  "max_contexts = 512"

definition max_seen_calls :: nat where
  "max_seen_calls = 4096"

definition adapter_active :: "BaresipSdkEventAdapter \<Rightarrow> bool" where
  "adapter_active a \<longleftrightarrow>
     ad_registered a \<and> captured (ad_captured a) \<and> is_live (ad_lifecycle a) (ad_captured a)"

definition adapter_session :: "BaresipSdkEventAdapter \<Rightarrow> u64" where
  "adapter_session a = (if adapter_active a then cap_mailbox_session (ad_captured a) else 0)"

text \<open>\<open>ua_registered\<close> is \<open>ua_isregistered\<close> as the SDK answers it now.\<close>

definition native_register_ok_seen :: "(u64 \<Rightarrow> bool) \<Rightarrow> BaresipSdkEventAdapter \<Rightarrow> bool" where
  "native_register_ok_seen ua_registered a \<longleftrightarrow>
     adapter_active a \<and> ad_sip_registered a \<and> ad_owner a \<noteq> 0 \<and> ua_registered (ad_owner a)"

section \<open>Starting and stopping\<close>

text \<open>
  \<open>process_owner\<close> is the static claim on the SDK's event registry (0: free, otherwise the
  address of the adapter that holds it); \<open>self\<close> is this adapter's address.
\<close>

definition release_owner :: "u64 \<Rightarrow> u64 \<Rightarrow> u64" where
  "release_owner self process_owner = (if process_owner = self then 0 else process_owner)"

definition clear_call_flags :: "BaresipSdkEventAdapter \<Rightarrow> BaresipSdkEventAdapter" where
  "clear_call_flags a = a\<lparr>ad_active_call := 0, ad_active_token := 0, ad_active_incoming := False,
     ad_call_established := False, ad_hangup_sent := False, ad_answer_sent := False,
     ad_transfer_attempted := False, ad_transfer_failed := False\<rparr>"

text \<open>\<open>allocated\<close>: the context was allocated and stored. \<open>register_error\<close>: what
  \<open>bevent_register\<close> returns.\<close>

definition adapter_start ::
    "u64 \<Rightarrow> u64 \<Rightarrow> BaresipSdkEventAdapter \<Rightarrow> u64 \<Rightarrow> bool \<Rightarrow> int \<Rightarrow>
     (bool \<times> u64 \<times> BaresipSdkEventAdapter) option" where
  "adapter_start self process_owner a owned_ua allocated register_error =
     (if ad_registered a \<or> owned_ua = 0 \<or> length (ad_contexts a) \<ge> max_contexts
      then Some (False, process_owner, a)
      else if process_owner \<noteq> 0 then Some (False, process_owner, a)
      else (case lifecycle_begin (ad_lifecycle a) owned_ua of
              None \<Rightarrow> None
            | Some (session, l) \<Rightarrow>
                (if \<not> captured session
                 then Some (False, release_owner self self, a\<lparr>ad_lifecycle := l\<rparr>)
                 else (let a = (clear_call_flags a)\<lparr>ad_lifecycle := l, ad_owner := owned_ua,
                                  ad_captured := session, ad_native_key := 0,
                                  ad_sip_registered := False, ad_seen_calls := []\<rparr>;
                           failed = (\<lambda>a. case revoke_and_wait (ad_lifecycle a) of
                               None \<Rightarrow> None
                             | Some l' \<Rightarrow> Some (False, release_owner self self,
                                 a\<lparr>ad_lifecycle := l', ad_registered := False, ad_owner := 0,
                                   ad_captured := no_session\<rparr>))
                       in if \<not> allocated then failed a
                          else (let a = a\<lparr>ad_contexts := ad_contexts a @ [session],
                                          ad_registered := True\<rparr>
                                in if register_error \<noteq> 0 then failed a
                                   else Some (True, self, a))))))"

definition adapter_stop ::
    "u64 \<Rightarrow> u64 \<Rightarrow> BaresipSdkEventAdapter \<Rightarrow> (u64 \<times> BaresipSdkEventAdapter) option" where
  "adapter_stop self process_owner a =
     (case revoke_and_wait (ad_lifecycle a) of
        None \<Rightarrow> None
      | Some l \<Rightarrow> Some (release_owner self process_owner,
          (clear_call_flags a)\<lparr>ad_lifecycle := l, ad_registered := False, ad_owner := 0,
             ad_captured := no_session, ad_native_key := 0, ad_sip_registered := False,
             ad_seen_calls := []\<rparr>))"

section \<open>The callback\<close>

definition same_epoch :: "BaresipSdkEventAdapter \<Rightarrow> CapturedSession \<Rightarrow> bool" where
  "same_epoch a c \<longleftrightarrow>
     cap_fence_generation c = cap_fence_generation (ad_captured a) \<and>
     cap_mailbox_session c = cap_mailbox_session (ad_captured a)"

definition fail_closed :: "BaresipSdkEventAdapter \<Rightarrow> BaresipSdkEventAdapter" where
  "fail_closed a = (clear_call_flags a)\<lparr>ad_lifecycle := reject_current (ad_lifecycle a),
     ad_captured := no_session, ad_sip_registered := False\<rparr>"

text \<open>The event types that pass the first \<open>switch\<close>.\<close>

fun ua_event :: "bevent_ev \<Rightarrow> bool" where
  "ua_event BEVENT_EXIT = False"
| "ua_event (BEVENT_OTHER n) = False"
| "ua_event _ = True"

text \<open>Publishing a registration event and keeping the flag, or failing closed.\<close>

definition publish_registration ::
    "BaresipSdkEventAdapter \<Rightarrow> CapturedSession \<Rightarrow> BaresipEventKind \<Rightarrow> bool \<Rightarrow>
     BaresipSdkEventAdapter" where
  "publish_registration a c kind flag =
     (let (ok, l) = lifecycle_registration (ad_lifecycle a) c kind; a = a\<lparr>ad_lifecycle := l\<rparr>
      in if \<not> ok then fail_closed a else a\<lparr>ad_sip_registered := flag\<rparr>)"

definition on_call_opened ::
    "(u64 \<Rightarrow> bool) \<Rightarrow> BaresipSdkEventAdapter \<Rightarrow> CapturedSession \<Rightarrow> bevent_ev \<Rightarrow> SdkEvent \<Rightarrow>
     BaresipSdkEventAdapter" where
  "on_call_opened ua_registered a c type event =
     (if \<not> native_register_ok_seen ua_registered a then fail_closed a
      else if \<not> ua_registered (ad_owner a) then fail_closed a
      else (let call = sdk_call event in
            if call = 0 \<or> ad_active_call a \<noteq> 0 \<or> call \<in> set (ad_seen_calls a) \<or>
               length (ad_seen_calls a) \<ge> max_seen_calls \<or> ad_native_key a = u64_max
            then fail_closed a
            else (let new_key = ad_native_key a + 1;
                      kind = (if type = BEVENT_CALL_INCOMING then BaresipEventKind.CallIncoming
                              else BaresipEventKind.CallOutgoing);
                      ((ok, token), l) = lifecycle_call_started (ad_lifecycle a) c new_key kind;
                      a = a\<lparr>ad_lifecycle := l\<rparr>
                  in if \<not> ok \<or> token = 0 then fail_closed a
                     else (clear_call_flags a)\<lparr>ad_native_key := new_key, ad_active_call := call,
                            ad_active_token := token,
                            ad_active_incoming := (type = BEVENT_CALL_INCOMING),
                            ad_seen_calls := call # ad_seen_calls a\<rparr>)))"

definition on_call_changed ::
    "BaresipSdkEventAdapter \<Rightarrow> CapturedSession \<Rightarrow> bevent_ev \<Rightarrow> SdkEvent \<Rightarrow> BaresipSdkEventAdapter"
  where
  "on_call_changed a c type event =
     (if sdk_call event = 0 \<or> sdk_call event \<noteq> ad_active_call a then fail_closed a
      else (let kind = (if type = BEVENT_CALL_ESTABLISHED then BaresipEventKind.CallEstablished
                        else BaresipEventKind.CallClosed);
                (ok, l) = lifecycle_call_changed (ad_lifecycle a) c (ad_native_key a) kind;
                a = a\<lparr>ad_lifecycle := l\<rparr>
            in if \<not> ok then fail_closed a
               else if type = BEVENT_CALL_CLOSED then clear_call_flags a
               else a\<lparr>ad_call_established := True\<rparr>))"

definition on_event ::
    "(u64 \<Rightarrow> bool) \<Rightarrow> BaresipSdkEventAdapter \<Rightarrow> CapturedSession \<Rightarrow> bevent_ev \<Rightarrow>
     SdkEvent option \<Rightarrow> BaresipSdkEventAdapter" where
  "on_event ua_registered a c type event_ptr =
     (if \<not> same_epoch a c \<or> \<not> adapter_active a then a
      else if type = BEVENT_EXIT then fail_closed a
      else if \<not> ua_event type then a
      else (case event_ptr of
              None \<Rightarrow> a
            | Some event \<Rightarrow>
                (if sdk_ua event \<noteq> ad_owner a then a
                 else (case type of
                     BEVENT_SHUTDOWN \<Rightarrow> fail_closed a
                   | BEVENT_AUDIO_ERROR \<Rightarrow> fail_closed a
                   | BEVENT_REGISTERING \<Rightarrow>
                       (if ad_active_call a \<noteq> 0
                        then (if \<not> ad_sip_registered a \<or> \<not> ua_registered (ad_owner a)
                              then fail_closed a else a)
                        else publish_registration a c BaresipEventKind.Registering False)
                   | BEVENT_REGISTER_OK \<Rightarrow>
                       (if \<not> ua_registered (ad_owner a) then fail_closed a
                        else if ad_active_call a \<noteq> 0 \<and> ad_sip_registered a then a
                        else publish_registration a c BaresipEventKind.RegisterOk True)
                   | BEVENT_REGISTER_FAIL \<Rightarrow>
                       publish_registration a c BaresipEventKind.RegisterFail False
                   | BEVENT_UNREGISTERING \<Rightarrow>
                       publish_registration a c BaresipEventKind.Unregistering False
                   | BEVENT_CALL_TRANSFER_FAILED \<Rightarrow>
                       (if ad_transfer_attempted a \<and> ad_active_call a \<noteq> 0 \<and>
                           sdk_call event = ad_active_call a
                        then a\<lparr>ad_transfer_failed := True\<rparr> else a)
                   | BEVENT_CALL_INCOMING \<Rightarrow> on_call_opened ua_registered a c type event
                   | BEVENT_CALL_OUTGOING \<Rightarrow> on_call_opened ua_registered a c type event
                   | BEVENT_CALL_ESTABLISHED \<Rightarrow> on_call_changed a c type event
                   | BEVENT_CALL_CLOSED \<Rightarrow> on_call_changed a c type event
                   | _ \<Rightarrow> a))))"

text \<open>The static \<open>callback\<close>: the whole of \<open>on_event\<close> runs under a lease.\<close>

definition adapter_callback ::
    "(u64 \<Rightarrow> bool) \<Rightarrow> BaresipSdkEventAdapter \<Rightarrow> CapturedSession \<Rightarrow> bevent_ev \<Rightarrow>
     SdkEvent option \<Rightarrow> BaresipSdkEventAdapter" where
  "adapter_callback ua_registered a c type event_ptr =
     (let (lease, l) = hold_native_callback (ad_lifecycle a) c in
      if \<not> lease then a\<lparr>ad_lifecycle := l\<rparr>
      else (let a = on_event ua_registered (a\<lparr>ad_lifecycle := l\<rparr>) c type event_ptr
            in a\<lparr>ad_lifecycle := (ad_lifecycle a)\<lparr>lif_fence :=
                 fence_release (lif_fence (ad_lifecycle a))\<rparr>\<rparr>))"

lemmas adapter_defs [step_defs] =
  adapter_start_def adapter_stop_def fail_closed_def clear_call_flags_def
  publish_registration_def on_call_opened_def on_call_changed_def on_event_def
  adapter_callback_def

section \<open>Successful publications\<close>

lemma ingress_enqueue_ok:
  "ingress_enqueue (ing, mb) kind t = (True, st') \<Longrightarrow> fst st' = ing"
  by (auto simp: ingress_enqueue_def Let_def split: prod.splits if_splits)

lemma registration_ok:
  assumes "ingress_registration st s a k = (True, st')" "k \<noteq> BaresipEventKind.TransportLost"
  shows "fst st' = fst st"
proof -
  obtain ad st1 where ad: "ingress_admit st s a = (ad, st1)" by (metis surj_pair)
  with assms have "ad" by (auto simp: ingress_registration_def split: if_splits)
  with ad have "st1 = st" using ingress_admit_result(1) [OF ad] by blast
  with assms ad \<open>ad\<close> have "ingress_enqueue st k 0 = (True, st')"
    by (auto simp: ingress_registration_def split: if_splits)
  then show ?thesis using ingress_enqueue_ok by (metis prod.collapse)
qed

lemma call_started_ok:
  assumes "ingress_call_started st s a key k = ((True, token), st')"
  shows "token = ing_last_token (fst st) + 1 \<and> ing_last_token (fst st) \<noteq> u64_max \<and>
    ing_active_native_key (fst st) = 0 \<and>
    fst st' = (fst st)\<lparr>ing_active_native_key := key, ing_active_token := token,
                 ing_last_native_key := key, ing_last_token := token\<rparr>"
proof -
  obtain ad st1 where ad: "ingress_admit st s a = (ad, st1)" by (metis surj_pair)
  with assms have "ad" by (auto simp: ingress_call_started_def Let_def split: if_splits)
  with ad have st1: "st1 = st" using ingress_admit_result(1) [OF ad] by blast
  obtain ok st2 where e: "ingress_enqueue st k (ing_last_token (fst st) + 1) = (ok, st2)"
    by (metis surj_pair)
  have "ok \<Longrightarrow> fst st2 = fst st" using e ingress_enqueue_ok by (metis prod.collapse)
  with assms ad \<open>ad\<close> st1 e show ?thesis
    by (auto simp: ingress_call_started_def Let_def split: if_splits)
qed

lemma call_changed_ok:
  assumes "ingress_call_changed st s a key k = (True, st')"
  shows "ing_active_native_key (fst st) = key \<and>
    fst st' = (if k = BaresipEventKind.CallClosed
      then (fst st)\<lparr>ing_active_native_key := 0, ing_active_token := 0\<rparr> else fst st)"
proof -
  obtain ad st1 where ad: "ingress_admit st s a = (ad, st1)" by (metis surj_pair)
  with assms have "ad" by (auto simp: ingress_call_changed_def Let_def split: if_splits)
  with ad have st1: "st1 = st" using ingress_admit_result(1) [OF ad] by blast
  obtain ok st2 where e: "ingress_enqueue st k (ing_active_token (fst st)) = (ok, st2)"
    by (metis surj_pair)
  have "ok \<Longrightarrow> fst st2 = fst st" using e ingress_enqueue_ok by (metis prod.collapse)
  with assms ad \<open>ad\<close> st1 e show ?thesis
    by (auto simp: ingress_call_changed_def Let_def split: if_splits)
qed

lemma lifecycle_registration_ok:
  assumes "lifecycle_registration l c k = (True, l')" "k \<noteq> BaresipEventKind.TransportLost"
  shows "fst (lif_ingress l') = fst (lif_ingress l)"
proof -
  obtain ok st' where r: "ingress_registration (lif_ingress l) (cap_mailbox_session c)
      (cap_account_identity c) k = (ok, st')" by (metis surj_pair)
  with assms(1) have "ok" "lif_ingress l' = st'"
    by (auto simp: lifecycle_registration_def split: prod.splits if_splits)
  with r have "ingress_registration (lif_ingress l) (cap_mailbox_session c)
      (cap_account_identity c) k = (True, lif_ingress l')" by simp
  from registration_ok [OF this assms(2)] show ?thesis .
qed

lemma lifecycle_call_started_ok:
  assumes "lifecycle_call_started l c key k = ((True, token), l')"
  shows "token = ing_last_token (fst (lif_ingress l)) + 1 \<and>
    ing_last_token (fst (lif_ingress l)) \<noteq> u64_max \<and>
    fst (lif_ingress l') = (fst (lif_ingress l))\<lparr>ing_active_native_key := key,
      ing_active_token := token, ing_last_native_key := key, ing_last_token := token\<rparr>"
proof -
  obtain ok t st' where r: "ingress_call_started (lif_ingress l) (cap_mailbox_session c)
      (cap_account_identity c) key k = ((ok, t), st')" by (metis surj_pair)
  with assms have "ok" "t = token" "lif_ingress l' = st'"
    by (auto simp: lifecycle_call_started_def split: prod.splits if_splits)
  with call_started_ok [of "lif_ingress l" _ _ key k token st'] r show ?thesis by simp
qed

lemma lifecycle_call_changed_ok:
  assumes "lifecycle_call_changed l c key k = (True, l')"
  shows "fst (lif_ingress l') = (if k = BaresipEventKind.CallClosed
      then (fst (lif_ingress l))\<lparr>ing_active_native_key := 0, ing_active_token := 0\<rparr>
      else fst (lif_ingress l))"
proof -
  obtain ok st' where r: "ingress_call_changed (lif_ingress l) (cap_mailbox_session c)
      (cap_account_identity c) key k = (ok, st')" by (metis surj_pair)
  with assms have "ok" "lif_ingress l' = st'"
    by (auto simp: lifecycle_call_changed_def split: prod.splits if_splits)
  with call_changed_ok [of "lif_ingress l" _ _ key k st'] r show ?thesis by simp
qed

text \<open>A publication keeps the mailbox and the ingress in shape.\<close>

lemma lifecycle_publish_same_or_revoked:
  "same_or_revoked (lif_ingress l) (lif_ingress (snd (lifecycle_registration l c k)))"
  "same_or_revoked (lif_ingress l) (lif_ingress (snd (lifecycle_call_started l c key k)))"
  "same_or_revoked (lif_ingress l) (lif_ingress (snd (lifecycle_call_changed l c key k)))"
  using registration_result(1) call_started_result(1) call_changed_result(1)
  by (auto simp: lifecycle_registration_def lifecycle_call_started_def lifecycle_call_changed_def
      split: prod.splits)

section \<open>The adapter tracks the ingress\<close>

text \<open>The keys and tokens of the ingress are the adapter's.\<close>

definition linked :: "BaresipSdkEventAdapter \<Rightarrow> bool" where
  "linked a \<longleftrightarrow>
     (let ing = fst (lif_ingress (ad_lifecycle a)) in
      ad_registered a \<and> ad_captured a = lif_current (ad_lifecycle a) \<and>
      ing_last_native_key ing = ad_native_key a \<and> ing_last_token ing = ad_native_key a \<and>
      ing_active_native_key ing = ad_active_token a \<and> ing_active_token ing = ad_active_token a \<and>
      (ad_active_token a \<noteq> 0 \<longrightarrow> ad_active_token a = ad_native_key a))"

text \<open>The call pointers the adapter remembers.\<close>

definition calls_ok :: "BaresipSdkEventAdapter \<Rightarrow> bool" where
  "calls_ok a \<longleftrightarrow>
     (ad_active_call a = 0 \<longleftrightarrow> ad_active_token a = 0) \<and>
     (ad_active_call a \<noteq> 0 \<longrightarrow> ad_active_call a \<in> set (ad_seen_calls a)) \<and>
     0 \<notin> set (ad_seen_calls a) \<and> distinct (ad_seen_calls a) \<and>
     length (ad_seen_calls a) \<le> max_seen_calls"

definition tracks :: "BaresipSdkEventAdapter \<Rightarrow> bool" where
  "tracks a \<longleftrightarrow>
     mailbox_inv (snd (lif_ingress (ad_lifecycle a))) \<and> calls_ok a \<and>
     (lif_session (ad_lifecycle a) \<noteq> 0 \<longrightarrow> linked a)"

lemma linkedI:
  assumes "fst (lif_ingress (ad_lifecycle a)) = ing" "ad_registered a"
    "ad_captured a = lif_current (ad_lifecycle a)"
    "ing_last_native_key ing = ad_native_key a" "ing_last_token ing = ad_native_key a"
    "ing_active_native_key ing = ad_active_token a" "ing_active_token ing = ad_active_token a"
    "ad_active_token a \<noteq> 0 \<Longrightarrow> ad_active_token a = ad_native_key a"
  shows "linked a"
  using assms by (simp add: linked_def Let_def)

lemma tracks_fail_closed:
  assumes "mailbox_inv (snd (lif_ingress (ad_lifecycle a)))" "calls_ok a"
  shows "tracks (fail_closed a)"
proof -
  have "lif_session (reject_current (ad_lifecycle a)) = 0"
    by (simp add: lif_session_def reject_current_def revoke_session)
  moreover have "mailbox_inv (snd (lif_ingress (reject_current (ad_lifecycle a))))"
    using assms(1) by (cases "lif_ingress (ad_lifecycle a)")
      (simp add: reject_current_def ingress_revoke_def)
  ultimately show ?thesis
    using assms(2) by (simp add: tracks_def fail_closed_def clear_call_flags_def calls_ok_def)
qed

lemma tracks_fail [simp]: "tracks a \<Longrightarrow> tracks (fail_closed a)"
  by (rule tracks_fail_closed) (simp_all add: tracks_def)

lemma calls_ok_lifecycle [simp]:
  "calls_ok (a\<lparr>ad_lifecycle := l\<rparr>) = calls_ok a"
  "calls_ok (a\<lparr>ad_sip_registered := f\<rparr>) = calls_ok a"
  "calls_ok (a\<lparr>ad_call_established := f\<rparr>) = calls_ok a"
  "calls_ok (a\<lparr>ad_transfer_failed := f\<rparr>) = calls_ok a"
  by (simp_all add: calls_ok_def)

lemma linked_flags [simp]:
  "linked (a\<lparr>ad_sip_registered := f\<rparr>) = linked a"
  "linked (a\<lparr>ad_call_established := f\<rparr>) = linked a"
  "linked (a\<lparr>ad_transfer_failed := f\<rparr>) = linked a"
  by (simp_all add: linked_def)

lemma tracks_flags [simp]:
  "tracks (a\<lparr>ad_sip_registered := f\<rparr>) = tracks a"
  "tracks (a\<lparr>ad_call_established := f\<rparr>) = tracks a"
  "tracks (a\<lparr>ad_transfer_failed := f\<rparr>) = tracks a"
  by (simp_all add: tracks_def)

lemma tracks_lifecycle:
  assumes "tracks a" "mailbox_inv (snd (lif_ingress l))"
    "fst (lif_ingress l) = fst (lif_ingress (ad_lifecycle a))"
    "lif_current l = lif_current (ad_lifecycle a)"
  shows "tracks (a\<lparr>ad_lifecycle := l\<rparr>)"
  using assms by (simp add: tracks_def linked_def lif_session_def Let_def)

lemma tracks_registration:
  assumes "tracks a" "kind \<noteq> BaresipEventKind.TransportLost"
  shows "tracks (publish_registration a c kind flag)"
proof -
  obtain ok l where l: "lifecycle_registration (ad_lifecycle a) c kind = (ok, l)" by fastforce
  have m: "mailbox_inv (snd (lif_ingress l))"
    using lifecycle_publish_same_or_revoked(1) [of "ad_lifecycle a" c kind] l assms(1)
    by (simp add: same_or_revoked_def tracks_def)
  have cur: "lif_current l = lif_current (ad_lifecycle a)"
    using lifecycle_registration_fence(2) [of "ad_lifecycle a" c kind] l by simp
  show ?thesis
  proof (cases ok)
    case True
    with l have "fst (lif_ingress l) = fst (lif_ingress (ad_lifecycle a))"
      using lifecycle_registration_ok [of "ad_lifecycle a" c kind l] assms(2) by simp
    from tracks_lifecycle [OF assms(1) m this cur] True l show ?thesis
      by (simp add: publish_registration_def)
  next
    case False
    have "tracks (fail_closed (a\<lparr>ad_lifecycle := l\<rparr>))"
      by (rule tracks_fail_closed) (use m assms(1) in \<open>simp_all add: tracks_def\<close>)
    with False l show ?thesis by (simp add: publish_registration_def)
  qed
qed

lemma tracks_call_opened:
  assumes "tracks a"
  shows "tracks (on_call_opened ua_registered a c type event)"
proof -
  define kind where "kind = (if type = BEVENT_CALL_INCOMING then BaresipEventKind.CallIncoming
    else BaresipEventKind.CallOutgoing)"
  obtain ok token l where
    l: "lifecycle_call_started (ad_lifecycle a) c (ad_native_key a + 1) kind = ((ok, token), l)"
    by (metis surj_pair)
  have s: "same_or_revoked (lif_ingress (ad_lifecycle a)) (lif_ingress l)"
    using lifecycle_publish_same_or_revoked(2) [of "ad_lifecycle a" c "ad_native_key a + 1" kind] l
    by simp
  then have m: "mailbox_inv (snd (lif_ingress l))"
    using assms by (simp add: same_or_revoked_def tracks_def)
  have cur: "lif_current l = lif_current (ad_lifecycle a)"
    using lifecycle_call_started_fence(2) [of "ad_lifecycle a" c "ad_native_key a + 1" kind] l
    by simp
  let ?bad = "fail_closed (a\<lparr>ad_lifecycle := l\<rparr>)"
  let ?call = "sdk_call event"
  let ?good = "(clear_call_flags (a\<lparr>ad_lifecycle := l\<rparr>))\<lparr>ad_native_key := ad_native_key a + 1,
    ad_active_call := ?call, ad_active_token := token,
    ad_active_incoming := (type = BEVENT_CALL_INCOMING),
    ad_seen_calls := ?call # ad_seen_calls a\<rparr>"
  have bad: "tracks ?bad"
    by (rule tracks_fail_closed) (use m assms in \<open>simp_all add: tracks_def\<close>)
  have good: "tracks ?good" if ok: "ok" and "token \<noteq> 0" "?call \<noteq> 0"
    "?call \<notin> set (ad_seen_calls a)" "length (ad_seen_calls a) < max_seen_calls"
  proof -
    have st: "token = ing_last_token (fst (lif_ingress (ad_lifecycle a))) + 1"
      "fst (lif_ingress l) = (fst (lif_ingress (ad_lifecycle a)))\<lparr>
         ing_active_native_key := ad_native_key a + 1, ing_active_token := token,
         ing_last_native_key := ad_native_key a + 1, ing_last_token := token\<rparr>"
      using lifecycle_call_started_ok [of "ad_lifecycle a" c "ad_native_key a + 1" kind token l] l ok
      by simp_all
    have "calls_ok ?good"
      using that assms by (simp add: tracks_def calls_ok_def clear_call_flags_def Suc_le_eq)
    moreover have "linked ?good" if "lif_session l \<noteq> 0"
    proof -
      have "lif_session (ad_lifecycle a) \<noteq> 0"
        using that s by (auto simp: same_or_revoked_def lif_session_def)
      then have lk: "linked a" using assms by (simp add: tracks_def)
      then have t: "token = ad_native_key a + 1" using st(1) by (simp add: linked_def Let_def)
      show ?thesis
        by (rule linkedI [OF refl]; insert lk t st(2) cur)
          (simp_all add: linked_def clear_call_flags_def Let_def)
    qed
    ultimately show ?thesis
      using m by (simp add: tracks_def clear_call_flags_def)
  qed
  have eq: "on_call_opened ua_registered a c type event =
      (if \<not> native_register_ok_seen ua_registered a \<or> \<not> ua_registered (ad_owner a) \<or> ?call = 0 \<or>
          ad_active_call a \<noteq> 0 \<or> ?call \<in> set (ad_seen_calls a) \<or>
          length (ad_seen_calls a) \<ge> max_seen_calls \<or> ad_native_key a = u64_max
       then fail_closed a else if \<not> ok \<or> token = 0 then ?bad else ?good)"
    using l by (simp add: on_call_opened_def kind_def Let_def)
  show ?thesis
    using bad good assms by (simp add: eq not_le)
qed

lemma tracks_call_changed:
  assumes "tracks a" "type = BEVENT_CALL_ESTABLISHED \<or> type = BEVENT_CALL_CLOSED"
  shows "tracks (on_call_changed a c type event)"
proof -
  define kind where "kind = (if type = BEVENT_CALL_ESTABLISHED then BaresipEventKind.CallEstablished
    else BaresipEventKind.CallClosed)"
  obtain ok l where
    l: "lifecycle_call_changed (ad_lifecycle a) c (ad_native_key a) kind = (ok, l)" by fastforce
  have s: "same_or_revoked (lif_ingress (ad_lifecycle a)) (lif_ingress l)"
    using lifecycle_publish_same_or_revoked(3) [of "ad_lifecycle a" c "ad_native_key a" kind] l
    by simp
  then have m: "mailbox_inv (snd (lif_ingress l))"
    using assms(1) by (simp add: same_or_revoked_def tracks_def)
  have cur: "lif_current l = lif_current (ad_lifecycle a)"
    using lifecycle_call_changed_fence(2) [of "ad_lifecycle a" c "ad_native_key a" kind] l by simp
  have bad: "tracks (fail_closed (a\<lparr>ad_lifecycle := l\<rparr>))"
    by (rule tracks_fail_closed) (use m assms(1) in \<open>simp_all add: tracks_def\<close>)
  have lk: "lif_session l \<noteq> 0 \<Longrightarrow> linked a"
    using s assms(1) by (auto simp: same_or_revoked_def lif_session_def tracks_def)
  note st = lifecycle_call_changed_ok [of "ad_lifecycle a" c "ad_native_key a" kind l]
  have closed: "tracks (clear_call_flags (a\<lparr>ad_lifecycle := l\<rparr>))"
    if ok: "ok" and k: "kind = BaresipEventKind.CallClosed"
  proof -
    have "fst (lif_ingress l) = (fst (lif_ingress (ad_lifecycle a)))\<lparr>
        ing_active_native_key := 0, ing_active_token := 0\<rparr>" using st l ok k by simp
    then have "linked (clear_call_flags (a\<lparr>ad_lifecycle := l\<rparr>))" if "lif_session l \<noteq> 0"
      using lk [OF that] cur by (simp add: linked_def clear_call_flags_def Let_def)
    moreover have "calls_ok (clear_call_flags (a\<lparr>ad_lifecycle := l\<rparr>))"
      using assms(1) by (simp add: tracks_def calls_ok_def clear_call_flags_def)
    ultimately show ?thesis using m by (simp add: tracks_def clear_call_flags_def)
  qed
  have est: "tracks (a\<lparr>ad_lifecycle := l\<rparr>)" if "ok" "kind \<noteq> BaresipEventKind.CallClosed"
    using tracks_lifecycle [OF assms(1) m _ cur] st l that by simp
  have eq: "on_call_changed a c type event =
      (if sdk_call event = 0 \<or> sdk_call event \<noteq> ad_active_call a then fail_closed a
       else if \<not> ok then fail_closed (a\<lparr>ad_lifecycle := l\<rparr>)
       else if type = BEVENT_CALL_CLOSED then clear_call_flags (a\<lparr>ad_lifecycle := l\<rparr>)
       else a\<lparr>ad_lifecycle := l, ad_call_established := True\<rparr>)"
    by (simp only: on_call_changed_def kind_def [symmetric] Let_def l prod.case)
  have "kind = BaresipEventKind.CallClosed \<longleftrightarrow> type = BEVENT_CALL_CLOSED"
    using assms(2) by (auto simp: kind_def)
  then show ?thesis
    using bad closed est assms(1) by (simp add: eq)
qed

section \<open>The adapter never blocks and stays linked\<close>

text \<open>What holds between two operations of the event loop: nobody is inside the fence.\<close>

definition adapter_inv :: "BaresipSdkEventAdapter \<Rightarrow> bool" where
  "adapter_inv a \<longleftrightarrow> tracks a \<and>
     lifecycle_inv \<lparr>lw_state = ad_lifecycle a, lw_inside = [], lw_waiting = False\<rparr>"

lemma lifecycle_inv_idle:
  "lifecycle_inv \<lparr>lw_state = l, lw_inside = [], lw_waiting = False\<rparr> \<longleftrightarrow>
     fen_in_flight (lif_fence l) = 0 \<and> (fen_accepting (lif_fence l) \<longrightarrow> \<not> fen_closing (lif_fence l)) \<and>
     mailbox_inv (snd (lif_ingress l)) \<and>
     (lif_session l \<noteq> 0 \<longrightarrow> fen_accepting (lif_fence l) \<and>
        lif_current l = \<lparr>cap_fence_generation = fen_generation (lif_fence l),
          cap_mailbox_session = lif_session l,
          cap_account_identity = ing_account (fst (lif_ingress l))\<rparr>)"
  by (auto simp: lifecycle_inv_def lif_session_def Let_def unat_eq_0)

lemma revoke_and_wait_idle:
  assumes "lifecycle_inv \<lparr>lw_state = l, lw_inside = [], lw_waiting = False\<rparr>"
  obtains l' where "revoke_and_wait l = Some l'" "lif_session l' = 0" "lif_current l' = no_session"
    "lifecycle_inv \<lparr>lw_state = l', lw_inside = [], lw_waiting = False\<rparr>"
    "mailbox_inv (snd (lif_ingress l'))"
proof -
  let ?l = "(revoke_start l)\<lparr>lif_fence := (fence_close (lif_fence l))\<lparr>fen_closing := False\<rparr>,
    lif_current := no_session\<rparr>"
  have m: "mailbox_inv (snd (ingress_revoke (lif_ingress l)))"
    using assms by (cases "lif_ingress l") (simp add: lifecycle_inv_idle ingress_revoke_def)
  have "revoke_and_wait l = Some ?l"
    using assms by (simp add: revoke_and_wait_def revoke_finish_def revoke_start_def fence_defs
        lifecycle_inv_idle)
  moreover have "lif_session ?l = 0"
    by (simp add: lif_session_def revoke_start_def revoke_session)
  ultimately show thesis
    using that [of ?l] m assms
    by (simp add: lifecycle_inv_idle revoke_start_def fence_defs)
qed

lemma stop_inv:
  assumes "adapter_inv a"
  obtains po' a' where "adapter_stop self po a = Some (po', a')" "adapter_inv a'"
    "\<not> adapter_active a'" "\<not> ad_registered a'" "po' = release_owner self po"
proof -
  have li: "lifecycle_inv \<lparr>lw_state = ad_lifecycle a, lw_inside = [], lw_waiting = False\<rparr>"
    using assms by (simp add: adapter_inv_def)
  obtain l where l: "revoke_and_wait (ad_lifecycle a) = Some l" "lif_session l = 0"
    "lifecycle_inv \<lparr>lw_state = l, lw_inside = [], lw_waiting = False\<rparr>"
    "mailbox_inv (snd (lif_ingress l))"
    using revoke_and_wait_idle [OF li] by blast
  let ?a = "(clear_call_flags a)\<lparr>ad_lifecycle := l, ad_registered := False, ad_owner := 0,
    ad_captured := no_session, ad_native_key := 0, ad_sip_registered := False, ad_seen_calls := []\<rparr>"
  have "adapter_stop self po a = Some (release_owner self po, ?a)"
    using l(1) by (simp add: adapter_stop_def)
  moreover have "adapter_inv ?a"
    using l by (simp add: adapter_inv_def tracks_def calls_ok_def clear_call_flags_def)
  ultimately show thesis using that by (simp add: adapter_active_def)
qed

text \<open>What a callback may do to the lifecycle: nothing but publish, or close it for good.\<close>

definition calmer :: "BaresipCallbackLifecycle \<Rightarrow> BaresipCallbackLifecycle \<Rightarrow> bool" where
  "calmer l l' \<longleftrightarrow>
     fen_in_flight (lif_fence l') = fen_in_flight (lif_fence l) \<and>
     (lif_fence l' = lif_fence l \<or> lif_fence l' = fence_close (lif_fence l)) \<and>
     lif_current l' = lif_current l \<and>
     (lif_session l' \<noteq> 0 \<longrightarrow> lif_fence l' = lif_fence l \<and> lif_session l' = lif_session l \<and>
        ing_account (fst (lif_ingress l')) = ing_account (fst (lif_ingress l)))"

lemma calmer_refl [simp]: "calmer l l"
  by (simp add: calmer_def)

lemma calmer_reject [simp]: "calmer l (reject_current l)"
  by (simp add: calmer_def reject_current_def fence_defs lif_session_def revoke_session)

lemma calmer_published:
  assumes "same_or_revoked (lif_ingress l) (lif_ingress l')" "lif_fence l' = lif_fence l"
    "lif_current l' = lif_current l"
  shows "calmer l l'" "calmer l (reject_current l')"
  using assms
  by (auto simp: calmer_def same_or_revoked_def lif_session_def reject_current_def fence_defs
      revoke_session)

lemma calmer_publications:
  "calmer l (snd (lifecycle_registration l c k))"
  "calmer l (reject_current (snd (lifecycle_registration l c k)))"
  "calmer l (snd (lifecycle_call_started l c key k))"
  "calmer l (reject_current (snd (lifecycle_call_started l c key k)))"
  "calmer l (snd (lifecycle_call_changed l c key k))"
  "calmer l (reject_current (snd (lifecycle_call_changed l c key k)))"
  by (rule calmer_published; simp add: lifecycle_publish_same_or_revoked)+

lemma fail_closed_lifecycle [simp]:
  "ad_lifecycle (fail_closed a) = reject_current (ad_lifecycle a)"
  by (simp add: fail_closed_def)

lemma clear_call_flags_lifecycle [simp]: "ad_lifecycle (clear_call_flags a) = ad_lifecycle a"
  by (simp add: clear_call_flags_def)

lemma calmer_registration:
  "calmer (ad_lifecycle a) (ad_lifecycle (publish_registration a c kind flag))"
  using calmer_publications(1,2) [of "ad_lifecycle a" c kind]
  by (auto simp: publish_registration_def Let_def split: prod.splits)

lemma calmer_call_opened:
  "calmer (ad_lifecycle a) (ad_lifecycle (on_call_opened ua_registered a c type event))"
  using calmer_publications(3,4) [of "ad_lifecycle a" c "ad_native_key a + 1"
      BaresipEventKind.CallIncoming]
    calmer_publications(3,4) [of "ad_lifecycle a" c "ad_native_key a + 1"
      BaresipEventKind.CallOutgoing]
  by (cases "type = BEVENT_CALL_INCOMING")
    (auto simp: on_call_opened_def Let_def split: prod.splits)

lemma calmer_call_changed:
  "calmer (ad_lifecycle a) (ad_lifecycle (on_call_changed a c type event))"
  using calmer_publications(5,6) [of "ad_lifecycle a" c "ad_native_key a"
      BaresipEventKind.CallEstablished]
    calmer_publications(5,6) [of "ad_lifecycle a" c "ad_native_key a" BaresipEventKind.CallClosed]
  by (cases "type = BEVENT_CALL_ESTABLISHED")
    (auto simp: on_call_changed_def Let_def split: prod.splits)

lemma on_event_keeps:
  assumes "tracks a"
  shows "tracks (on_event ua_registered a c type event_ptr)"
    "calmer (ad_lifecycle a) (ad_lifecycle (on_event ua_registered a c type event_ptr))"
proof -
  note kept = tracks_registration [OF assms] tracks_call_opened [OF assms]
    tracks_call_changed [OF assms]
  show "tracks (on_event ua_registered a c type event_ptr)"
    using assms kept
    by (cases type) (simp_all add: on_event_def split: option.split)
  show "calmer (ad_lifecycle a) (ad_lifecycle (on_event ua_registered a c type event_ptr))"
    by (cases type)
      (simp_all add: on_event_def calmer_registration calmer_call_opened calmer_call_changed
        split: option.split)
qed

lemma callback_inv:
  assumes "adapter_inv a"
  shows "adapter_inv (adapter_callback ua_registered a c type event_ptr)"
proof -
  let ?l = "ad_lifecycle a"
  obtain lease l1 where h: "hold_native_callback ?l c = (lease, l1)" by fastforce
  have li: "lifecycle_inv \<lparr>lw_state = ?l, lw_inside = [], lw_waiting = False\<rparr>" and t: "tracks a"
    using assms by (auto simp: adapter_inv_def)
  show ?thesis
  proof (cases lease)
    case False
    with h have "l1 = ?l"
      by (auto simp: hold_native_callback_def fence_defs Let_def split: if_splits)
    with False h assms show ?thesis by (simp add: adapter_callback_def)
  next
    case True
    with h have l1: "l1 = ?l\<lparr>lif_fence := (lif_fence ?l)\<lparr>fen_in_flight := fen_in_flight (lif_fence ?l) + 1\<rparr>\<rparr>"
      by (auto simp: hold_native_callback_def fence_defs Let_def split: if_splits)
    define b where "b = on_event ua_registered (a\<lparr>ad_lifecycle := l1\<rparr>) c type event_ptr"
    have "tracks (a\<lparr>ad_lifecycle := l1\<rparr>)"
      by (rule tracks_lifecycle [OF t]) (use t l1 in \<open>simp_all add: tracks_def\<close>)
    from on_event_keeps [OF this] have b: "tracks b" "calmer l1 (ad_lifecycle b)"
      by (simp_all add: b_def)
    let ?l2 = "(ad_lifecycle b)\<lparr>lif_fence := fence_release (lif_fence (ad_lifecycle b))\<rparr>"
    have "tracks (b\<lparr>ad_lifecycle := ?l2\<rparr>)"
      by (rule tracks_lifecycle [OF b(1)]) (use b(1) in \<open>simp_all add: tracks_def\<close>)
    moreover have "lifecycle_inv \<lparr>lw_state = ?l2, lw_inside = [], lw_waiting = False\<rparr>"
      using li b l1
      by (auto simp: lifecycle_inv_idle calmer_def fence_defs tracks_def lif_session_def)
    ultimately show ?thesis
      using True h by (simp add: adapter_callback_def adapter_inv_def b_def Let_def)
  qed
qed

lemma begin_fresh_keys:
  assumes "lifecycle_begin l account = Some (c, l')" "captured c"
  shows "let ing = fst (lif_ingress l') in ing_last_native_key ing = 0 \<and> ing_last_token ing = 0 \<and>
    ing_active_native_key ing = 0 \<and> ing_active_token ing = 0"
  using assms
  by (auto simp: lifecycle_begin_def ingress_begin_session_def Let_def
      split: if_splits prod.splits option.splits)

lemma start_inv:
  assumes "adapter_inv a"
  obtains ok po' a' where "adapter_start self po a ua allocated err = Some (ok, po', a')"
    "adapter_inv a'" "ok \<longrightarrow> adapter_active a' \<and> ad_owner a' = ua \<and> ad_active_call a' = 0"
proof -
  let ?l = "ad_lifecycle a"
  have li: "lifecycle_inv \<lparr>lw_state = ?l, lw_inside = [], lw_waiting = False\<rparr>" and t: "tracks a"
    using assms by (auto simp: adapter_inv_def)
  obtain c l where b: "lifecycle_begin ?l ua = Some (c, l)" using begin_returns by fastforce
  have li': "lifecycle_inv \<lparr>lw_state = l, lw_inside = [], lw_waiting = False\<rparr>"
    using lifecycle_step_inv [OF lifecycle_step.begins [OF b] li] .
  have not_begun: "adapter_inv (a\<lparr>ad_lifecycle := l\<rparr>)" if "\<not> captured c"
  proof -
    have "tracks (a\<lparr>ad_lifecycle := l\<rparr>)"
      using that t li'
      by (cases rule: begin_cases [OF b li])
        (auto simp: tracks_def linked_def lif_session_def lifecycle_inv_idle)
    with li' show ?thesis by (simp add: adapter_inv_def)
  qed
  let ?a = "(clear_call_flags a)\<lparr>ad_lifecycle := l, ad_owner := ua, ad_captured := c,
    ad_native_key := 0, ad_sip_registered := False, ad_seen_calls := []\<rparr>"
  let ?b = "?a\<lparr>ad_contexts := ad_contexts ?a @ [c], ad_registered := True\<rparr>"
  have started: "adapter_inv ?b \<and> adapter_active ?b" if cap: "captured c"
  proof -
    have beg: "lif_current l = c \<and> is_live l c"
      using b li
    proof (cases rule: begin_cases)
      case begun
      have g: "cap_fence_generation c = fen_generation (lif_fence l)"
        "cap_mailbox_session c = lif_session l" "cap_fence_generation c \<noteq> 0"
        using arg_cong [OF begun(8), of cap_fence_generation]
          arg_cong [OF begun(8), of cap_mailbox_session] cap
        by (simp_all add: lif_session_def captured_def)
      then show ?thesis using begun(3,6,7) by (simp add: is_live_def fence_admit_def)
    qed (use cap in simp_all)
    have "linked ?b"
      using begin_fresh_keys [OF b cap] beg
      by (simp add: linked_def clear_call_flags_def Let_def)
    then have "tracks ?b"
      using li' by (simp add: tracks_def calls_ok_def clear_call_flags_def lifecycle_inv_idle)
    with li' beg cap show ?thesis by (simp add: adapter_inv_def adapter_active_def)
  qed
  obtain l'' where r: "revoke_and_wait l = Some l''" "lif_session l'' = 0"
    "lifecycle_inv \<lparr>lw_state = l'', lw_inside = [], lw_waiting = False\<rparr>"
    "mailbox_inv (snd (lif_ingress l''))"
    using revoke_and_wait_idle [OF li'] by blast
  have failed: "adapter_inv (x\<lparr>ad_lifecycle := l'', ad_registered := False, ad_owner := 0,
      ad_captured := no_session\<rparr>)" if "calls_ok x" for x
    using r that by (simp add: adapter_inv_def tracks_def calls_ok_def)
  have ok: "calls_ok ?a" "calls_ok ?b" by (simp_all add: calls_ok_def clear_call_flags_def)
  let ?refused = "ad_registered a \<or> ua = 0 \<or> length (ad_contexts a) \<ge> max_contexts \<or> po \<noteq> 0"
  consider (refused) "?refused"
    | (uncaptured) "\<not> ?refused" "\<not> captured c"
    | (oom) "\<not> ?refused" "captured c" "\<not> allocated"
    | (error) "\<not> ?refused" "captured c" "allocated" "err \<noteq> 0"
    | (good) "\<not> ?refused" "captured c" "allocated" "err = 0" by blast
  then show thesis
  proof cases
    case refused
    then have "adapter_start self po a ua allocated err = Some (False, po, a)"
      by (auto simp: adapter_start_def)
    then show thesis by (rule that) (use assms in simp_all)
  next
    case uncaptured
    then have "adapter_start self po a ua allocated err =
        Some (False, release_owner self self, a\<lparr>ad_lifecycle := l\<rparr>)"
      using b by (simp add: adapter_start_def)
    then show thesis by (rule that) (use uncaptured not_begun in simp_all)
  next
    case oom
    then have "adapter_start self po a ua allocated err = Some (False, release_owner self self,
        ?a\<lparr>ad_lifecycle := l'', ad_registered := False, ad_owner := 0, ad_captured := no_session\<rparr>)"
      using b r(1) by (simp add: adapter_start_def Let_def)
    then show thesis by (rule that) (use failed [OF ok(1)] in simp_all)
  next
    case error
    then have "adapter_start self po a ua allocated err = Some (False, release_owner self self,
        ?b\<lparr>ad_lifecycle := l'', ad_registered := False, ad_owner := 0, ad_captured := no_session\<rparr>)"
      using b r(1) by (simp add: adapter_start_def Let_def)
    then show thesis by (rule that) (use failed [OF ok(2)] in simp_all)
  next
    case good
    then have "adapter_start self po a ua allocated err = Some (True, self, ?b)"
      using b by (simp add: adapter_start_def Let_def)
    then show thesis
      by (rule that) (use started good in \<open>simp_all add: clear_call_flags_def\<close>)
  qed
qed

text \<open>A start that fails leaves no live session behind.\<close>

lemma not_live_no_session: "lif_session l = 0 \<Longrightarrow> captured c \<Longrightarrow> \<not> is_live l c"
  by (simp add: is_live_def captured_def)

lemma start_failed_inactive:
  assumes "adapter_start self po a ua allocated err = Some (False, po', a')"
    and "\<not> adapter_active a"
  shows "\<not> adapter_active a'"
  using assms
  by (auto simp: adapter_start_def adapter_active_def Let_def split: if_splits option.splits)

section \<open>Runs of the event loop\<close>

datatype AdapterOp =
    AdapterStart u64 bool int
  | AdapterStop
  | AdapterCallback "u64 \<Rightarrow> bool" CapturedSession bevent_ev "SdkEvent option"

fun adapter_op ::
    "u64 \<Rightarrow> u64 \<times> BaresipSdkEventAdapter \<Rightarrow> AdapterOp \<Rightarrow> (u64 \<times> BaresipSdkEventAdapter) option" where
  "adapter_op self (po, a) (AdapterStart ua allocated err) =
     map_option snd (adapter_start self po a ua allocated err)"
| "adapter_op self (po, a) AdapterStop = adapter_stop self po a"
| "adapter_op self (po, a) (AdapterCallback ua_registered c type event_ptr) =
     Some (po, adapter_callback ua_registered a c type event_ptr)"

fun adapter_run ::
    "u64 \<Rightarrow> u64 \<times> BaresipSdkEventAdapter \<Rightarrow> AdapterOp list \<Rightarrow>
     (u64 \<times> BaresipSdkEventAdapter) option" where
  "adapter_run self st [] = Some st"
| "adapter_run self st (op # ops) =
     (case adapter_op self st op of None \<Rightarrow> None | Some st' \<Rightarrow> adapter_run self st' ops)"

lemma adapter_op_inv:
  assumes "adapter_inv a"
  obtains po' a' where "adapter_op self (po, a) op = Some (po', a')" "adapter_inv a'"
proof (cases op)
  case (AdapterStart ua allocated err)
  obtain ok po' a' where "adapter_start self po a ua allocated err = Some (ok, po', a')"
    "adapter_inv a'" using start_inv [OF assms] by blast
  with AdapterStart that show thesis by simp
next
  case AdapterStop
  with stop_inv [OF assms, of self po] that show thesis by auto
next
  case (AdapterCallback ua_registered c type event_ptr)
  with callback_inv [OF assms] that show thesis by simp
qed

lemma adapter_run_inv:
  assumes "adapter_inv a"
  shows "\<exists>po' a'. adapter_run self (po, a) ops = Some (po', a') \<and> adapter_inv a'"
  using assms
proof (induction ops arbitrary: po a)
  case Nil
  then show ?case by simp
next
  case (Cons op ops)
  obtain po' a' where "adapter_op self (po, a) op = Some (po', a')" "adapter_inv a'"
    using adapter_op_inv [OF Cons.prems] by blast
  with Cons.IH show ?case by simp
qed

lemma adapter_inv_empty: "adapter_inv empty_adapter"
  using lifecycle_inv_start
  by (simp add: adapter_inv_def tracks_def calls_ok_def empty_adapter_def empty_lifecycle_def
      lif_session_def empty_ingress_def)

text \<open>Failing closed forgets the call, so an adapter that tracks one after \<open>on_call_opened\<close>
  went all the way through.\<close>

lemma fail_closed_no_call [simp]: "ad_active_call (fail_closed a) = 0"
  by (simp add: fail_closed_def clear_call_flags_def)

lemma on_call_opened_tracks:
  assumes "ad_active_call (on_call_opened ua_registered a c type event) \<noteq> 0"
    and started: "lifecycle_call_started (ad_lifecycle a) c (ad_native_key a + 1)
      (if type = BEVENT_CALL_INCOMING then BaresipEventKind.CallIncoming
       else BaresipEventKind.CallOutgoing) = ((ok, token), l)"
  shows "native_register_ok_seen ua_registered a \<and> ua_registered (ad_owner a) \<and>
    sdk_call event \<notin> set (ad_seen_calls a) \<and> ok \<and>
    ad_active_call (on_call_opened ua_registered a c type event) = sdk_call event \<and>
    ad_active_token (on_call_opened ua_registered a c type event) = token"
  using assms(1) unfolding on_call_opened_def Let_def started prod.case
  by (simp split: if_splits)

lemma on_event_ignored:
  "\<not> same_epoch a c \<or> \<not> adapter_active a \<Longrightarrow> on_event ua_registered a c type event_ptr = a"
  unfolding on_event_def by (rule if_P)

lemma callback_ignored:
  assumes "\<not> adapter_active a \<or> \<not> same_epoch a c"
  shows "adapter_callback ua_registered a c type event_ptr = a"
proof -
  obtain lease l where h: "hold_native_callback (ad_lifecycle a) c = (lease, l)" by fastforce
  show ?thesis
  proof (cases lease)
    case False
    with h have "l = ad_lifecycle a"
      by (auto simp: hold_native_callback_def fence_defs Let_def split: if_splits)
    with False h show ?thesis by (simp add: adapter_callback_def)
  next
    case True
    with h have l: "l = (ad_lifecycle a)\<lparr>lif_fence := (lif_fence (ad_lifecycle a))\<lparr>fen_in_flight :=
        fen_in_flight (lif_fence (ad_lifecycle a)) + 1\<rparr>\<rparr>"
      by (auto simp: hold_native_callback_def fence_defs Let_def split: if_splits)
    then have "adapter_active (a\<lparr>ad_lifecycle := l\<rparr>) = adapter_active a"
      "same_epoch (a\<lparr>ad_lifecycle := l\<rparr>) c = same_epoch a c"
      by (simp_all add: same_epoch_def adapter_active_def is_live_def lif_session_def fence_admit_def)
    then have "on_event ua_registered (a\<lparr>ad_lifecycle := l\<rparr>) c type event_ptr = a\<lparr>ad_lifecycle := l\<rparr>"
      using assms by (intro on_event_ignored) auto
    with True h l show ?thesis by (simp add: adapter_callback_def fence_defs Let_def)
  qed
qed

section \<open>Where the registration flag comes from\<close>

text \<open>
  An event is heard when its callback belongs to the live session and its agent is the owner's. A
  registration is confirmed by a \<open>REGISTER_OK\<close> that is heard while the SDK says that the agent is
  registered; it is withdrawn by a failure, an unregistration, or a new attempt while no call is tracked.
\<close>

fun heard :: "BaresipSdkEventAdapter \<Rightarrow> AdapterOp \<Rightarrow> (bevent_ev \<times> (u64 \<Rightarrow> bool)) option" where
  "heard a (AdapterCallback ua_registered c type (Some event)) =
     (if adapter_active a \<and> same_epoch a c \<and> sdk_ua event = ad_owner a then Some (type, ua_registered) else None)"
| "heard a op = None"

definition confirms_registration :: "BaresipSdkEventAdapter \<Rightarrow> AdapterOp \<Rightarrow> bool" where
  "confirms_registration a op \<longleftrightarrow>
     (case heard a op of
        Some (type, ua_registered) \<Rightarrow> type = BEVENT_REGISTER_OK \<and> ua_registered (ad_owner a)
      | None \<Rightarrow> False)"

definition withdraws_registration :: "BaresipSdkEventAdapter \<Rightarrow> AdapterOp \<Rightarrow> bool" where
  "withdraws_registration a op \<longleftrightarrow>
     (case heard a op of
        Some (type, ua_registered) \<Rightarrow> type = BEVENT_REGISTER_FAIL \<or> type = BEVENT_UNREGISTERING \<or>
          type = BEVENT_REGISTERING \<and> ad_active_call a = 0
      | None \<Rightarrow> False)"

text \<open>Two states of one live session, that is, of one owner and one captured session.\<close>

definition same_session :: "BaresipSdkEventAdapter \<Rightarrow> BaresipSdkEventAdapter \<Rightarrow> bool" where
  "same_session a b \<longleftrightarrow> adapter_active a \<and> adapter_active b \<and>
     ad_captured a = ad_captured b \<and> ad_owner a = ad_owner b"

text \<open>The steps of \<open>on_event\<close> either fail closed or keep the session.\<close>

definition keeps_session :: "BaresipSdkEventAdapter \<Rightarrow> BaresipSdkEventAdapter \<Rightarrow> bool" where
  "keeps_session a b \<longleftrightarrow> ad_captured b = ad_captured a \<and> ad_owner b = ad_owner a \<and>
     ad_sip_registered b = ad_sip_registered a"

lemma fail_closed_unregistered [simp]: "\<not> ad_sip_registered (fail_closed a)"
  by (simp add: fail_closed_def)

lemma publish_registration_flag:
  assumes "ad_sip_registered (publish_registration a c kind flag)"
  shows "flag" "ad_captured (publish_registration a c kind flag) = ad_captured a"
    "ad_owner (publish_registration a c kind flag) = ad_owner a"
  using assms by (auto simp: publish_registration_def Let_def split: prod.splits if_splits)

lemma on_call_keeps:
  "ad_sip_registered (on_call_opened ua_registered a c type event) \<Longrightarrow>
     keeps_session a (on_call_opened ua_registered a c type event)"
  "ad_sip_registered (on_call_changed a c type event) \<Longrightarrow> keeps_session a (on_call_changed a c type event)"
  by (auto simp: keeps_session_def on_call_opened_def on_call_changed_def clear_call_flags_def Let_def
      split: prod.splits if_splits)

lemma on_event_registered:
  assumes "adapter_active a" "ad_sip_registered (on_event ua_registered a c type event_ptr)"
  shows "ad_captured (on_event ua_registered a c type event_ptr) = ad_captured a"
    "ad_owner (on_event ua_registered a c type event_ptr) = ad_owner a"
    "confirms_registration a (AdapterCallback ua_registered c type event_ptr) \<or>
     ad_sip_registered a \<and> \<not> withdraws_registration a (AdapterCallback ua_registered c type event_ptr)"
proof -
  let ?b = "on_event ua_registered a c type event_ptr" and ?op = "AdapterCallback ua_registered c type event_ptr"
  have "ad_captured ?b = ad_captured a \<and> ad_owner ?b = ad_owner a \<and>
    (confirms_registration a ?op \<or> ad_sip_registered a \<and> \<not> withdraws_registration a ?op)"
  proof (cases "same_epoch a c \<and> (\<exists>event. event_ptr = Some event \<and> sdk_ua event = ad_owner a)")
    case False
    then have "?b = a \<or> ?b = fail_closed a" by (auto simp: on_event_def split: option.split)
    moreover have "heard a ?op = None" using False by (cases event_ptr) auto
    ultimately show ?thesis using assms(2) by (auto simp: withdraws_registration_def)
  next
    case True
    then obtain event where e: "event_ptr = Some event" "sdk_ua event = ad_owner a" "same_epoch a c" by blast
    then have "heard a ?op = Some (type, ua_registered)" using assms(1) by simp
    then have conf: "confirms_registration a ?op = (type = BEVENT_REGISTER_OK \<and> ua_registered (ad_owner a))"
      and wd: "withdraws_registration a ?op = (type = BEVENT_REGISTER_FAIL \<or> type = BEVENT_UNREGISTERING \<or>
        type = BEVENT_REGISTERING \<and> ad_active_call a = 0)"
      by (simp_all add: confirms_registration_def withdraws_registration_def)
    show ?thesis
      unfolding conf wd using assms e publish_registration_flag [of a c] on_call_keeps(1) [of ua_registered a c type event]
        on_call_keeps(2) [of a c type event]
      by (cases type) (auto simp: on_event_def keeps_session_def split: if_splits)
  qed
  then show "ad_captured ?b = ad_captured a" "ad_owner ?b = ad_owner a"
    "confirms_registration a ?op \<or> ad_sip_registered a \<and> \<not> withdraws_registration a ?op" by blast+
qed

text \<open>The lease around the callback changes nothing that counts here.\<close>

lemma callback_registered:
  assumes "adapter_active (adapter_callback ua_registered a c type event_ptr)"
    "ad_sip_registered (adapter_callback ua_registered a c type event_ptr)"
  shows "same_session a (adapter_callback ua_registered a c type event_ptr) \<and>
    (confirms_registration a (AdapterCallback ua_registered c type event_ptr) \<or>
     ad_sip_registered a \<and> \<not> withdraws_registration a (AdapterCallback ua_registered c type event_ptr))"
proof (cases "adapter_active a \<and> same_epoch a c")
  case False
  then have "adapter_callback ua_registered a c type event_ptr = a" by (intro callback_ignored) blast
  moreover have "heard a (AdapterCallback ua_registered c type event_ptr) = None"
    using False by (cases event_ptr) auto
  ultimately show ?thesis using assms by (simp add: same_session_def withdraws_registration_def)
next
  case True
  obtain lease l where h: "hold_native_callback (ad_lifecycle a) c = (lease, l)" by fastforce
  have live: "fst (fence_admit (lif_fence (ad_lifecycle a)) (cap_fence_generation c))"
    "lif_session (ad_lifecycle a) = cap_mailbox_session c"
    using True by (auto simp: adapter_active_def is_live_def same_epoch_def)
  then have lease and l: "l = (ad_lifecycle a)\<lparr>lif_fence := (lif_fence (ad_lifecycle a))\<lparr>fen_in_flight :=
      fen_in_flight (lif_fence (ad_lifecycle a)) + 1\<rparr>\<rparr>"
    using h by (auto simp: hold_native_callback_def fence_defs Let_def split: if_splits)
  let ?b = "a\<lparr>ad_lifecycle := l\<rparr>" and ?op = "AdapterCallback ua_registered c type event_ptr"
  let ?e = "on_event ua_registered ?b c type event_ptr"
  have a': "adapter_callback ua_registered a c type event_ptr = ?e\<lparr>ad_lifecycle := (ad_lifecycle ?e)\<lparr>lif_fence :=
      fence_release (lif_fence (ad_lifecycle ?e))\<rparr>\<rparr>"
    using h \<open>lease\<close> by (simp add: adapter_callback_def Let_def)
  have "adapter_active ?b = adapter_active a"
    by (simp add: l adapter_active_def is_live_def lif_session_def fence_admit_def)
  then have b: "adapter_active ?b" using True by blast
  have "same_epoch ?b c = same_epoch a c" by (simp add: same_epoch_def)
  then have "heard ?b ?op = heard a ?op" using True b by (cases event_ptr) simp_all
  then have same: "confirms_registration ?b ?op = confirms_registration a ?op"
    "withdraws_registration ?b ?op = withdraws_registration a ?op"
    by (simp_all add: confirms_registration_def withdraws_registration_def split: option.split)
  have "ad_sip_registered ?e" using assms(2) a' by simp
  from on_event_registered [OF b this] show ?thesis
    using True assms(1) same unfolding a' by (simp add: same_session_def)
qed

text \<open>One operation: a session that is registered afterwards was confirmed by it, or was registered before
  and not withdrawn.\<close>

lemma adapter_op_registered:
  assumes "adapter_op self (po, a) op = Some (po', a')" "adapter_active a'" "ad_sip_registered a'"
  shows "same_session a a' \<and> (confirms_registration a op \<or> ad_sip_registered a \<and> \<not> withdraws_registration a op)"
proof (cases op)
  case (AdapterStart ua allocated err)
  then obtain ok where start: "adapter_start self po a ua allocated err = Some (ok, po', a')"
    using assms(1) by auto
  have "\<not> ok"
    using start assms(3) by (auto simp: adapter_start_def Let_def split: if_splits option.splits)
  with start have "adapter_start self po a ua allocated err = Some (False, po', a')" by simp
  then have "adapter_active a" using start_failed_inactive assms(2) by blast
  then have "ad_registered a" by (simp add: adapter_active_def)
  then have "a' = a" using start by (simp add: adapter_start_def)
  then show ?thesis using assms AdapterStart by (simp add: same_session_def withdraws_registration_def)
next
  case AdapterStop
  then show ?thesis using assms by (auto simp: adapter_stop_def split: option.splits)
next
  case (AdapterCallback ua_registered c type event_ptr)
  then have "a' = adapter_callback ua_registered a c type event_ptr" using assms(1) by simp
  with callback_registered [of ua_registered a c type event_ptr] assms(2,3) AdapterCallback show ?thesis by simp
qed

lemma adapter_run_append:
  "adapter_run self st (xs @ ys) = Option.bind (adapter_run self st xs) (\<lambda>st. adapter_run self st ys)"
  by (induction xs arbitrary: st) (auto split: option.split)

lemma same_session_trans: "same_session a b \<Longrightarrow> same_session b c \<Longrightarrow> same_session a c"
  by (simp add: same_session_def)

text \<open>The history of a registered session: the last confirmation, and nothing that withdrew it since.\<close>

lemma registration_history:
  assumes "adapter_run self st ops = Some (po1, a)" "adapter_active a" "ad_sip_registered a"
    and "\<not> ad_sip_registered (snd st)"
  shows "\<exists>pre ok post po0 a0. ops = pre @ ok # post \<and> adapter_run self st pre = Some (po0, a0) \<and>
    same_session a0 a \<and> confirms_registration a0 ok \<and>
    (\<forall>q op r. post = q @ op # r \<longrightarrow> (\<exists>po2 a2. adapter_run self st (pre @ ok # q) = Some (po2, a2) \<and>
       same_session a2 a \<and> \<not> withdraws_registration a2 op))"
  using assms(1-3)
proof (induction ops arbitrary: po1 a rule: rev_induct)
  case Nil
  then show ?case using assms(4) by auto
next
  case (snoc op ops)
  then obtain po0 a0 where before: "adapter_run self st ops = Some (po0, a0)"
    and op: "adapter_op self (po0, a0) op = Some (po1, a)"
    by (auto simp: adapter_run_append bind_eq_Some_conv split: option.splits)
  note s = adapter_op_registered [OF op snoc.prems(2,3)]
  show ?case
  proof (cases "confirms_registration a0 op")
    case True
    then show ?thesis using before s by (intro exI [of _ ops] exI [of _ op] exI [of _ "[]"]) auto
  next
    case False
    then have old: "ad_sip_registered a0" "\<not> withdraws_registration a0 op" "adapter_active a0"
      using s by (auto simp: same_session_def)
    from snoc.IH [OF before old(3,1)] obtain pre ok post po' a' where h: "ops = pre @ ok # post"
      "adapter_run self st pre = Some (po', a')" "same_session a' a0" "confirms_registration a' ok"
      and since: "\<And>q op r. post = q @ op # r \<Longrightarrow> \<exists>po2 a2. adapter_run self st (pre @ ok # q) = Some (po2, a2) \<and>
        same_session a2 a0 \<and> \<not> withdraws_registration a2 op"
      by blast
    have now: "\<exists>po2 a2. adapter_run self st (pre @ ok # q) = Some (po2, a2) \<and>
        same_session a2 a \<and> \<not> withdraws_registration a2 o'" if "post @ [op] = q @ o' # r" for q o' r
    proof (cases r rule: rev_cases)
      case Nil
      then have "q = post" "o' = op" using that by simp_all
      then show ?thesis using before h(1) old(2) s by auto
    next
      case (snoc r' x)
      then have "post = q @ o' # r'" using that by simp
      from since [OF this] s show ?thesis using same_session_trans by blast
    qed
    have "same_session a' a" using h(3) s same_session_trans by blast
    then show ?thesis using h now by (intro exI [of _ pre] exI [of _ ok] exI [of _ "post @ [op]"]) auto
  qed
qed

lemma call_enters:
  assumes "adapter_inv a" and "ad_active_call a = 0"
    and "a' = adapter_callback ua_registered a c type (Some event)" and "ad_active_call a' \<noteq> 0"
  shows "adapter_active a \<and> same_epoch a c \<and>
    type \<in> {BEVENT_CALL_INCOMING, BEVENT_CALL_OUTGOING} \<and> sdk_ua event = ad_owner a \<and>
    ad_sip_registered a \<and> ua_registered (ad_owner a) \<and>
    ad_active_call a' = sdk_call event \<and> sdk_call event \<notin> set (ad_seen_calls a) \<and>
    ad_active_token a' = ad_native_key a + 1"
proof -
  let ?l = "ad_lifecycle a"
  have act: "adapter_active a" "same_epoch a c"
    using callback_ignored assms(2-4) by metis+
  obtain lease l1 where h: "hold_native_callback ?l c = (lease, l1)" by fastforce
  define b where "b = a\<lparr>ad_lifecycle := l1\<rparr>"
  have lease: "lease"
    using h assms(2-4) by (cases lease) (auto simp: adapter_callback_def)
  with h have l1: "l1 = ?l\<lparr>lif_fence := (lif_fence ?l)\<lparr>fen_in_flight :=
      fen_in_flight (lif_fence ?l) + 1\<rparr>\<rparr>"
    by (auto simp: hold_native_callback_def fence_defs Let_def split: if_splits)
  have a': "ad_active_call a' = ad_active_call (on_event ua_registered b c type (Some event))"
    "ad_active_token a' = ad_active_token (on_event ua_registered b c type (Some event))"
    using assms(3) h lease by (simp_all add: adapter_callback_def b_def Let_def)
  have keep: "ad_active_call (publish_registration b c k f) = 0" for k f
    using assms(2)
    by (simp add: publish_registration_def fail_closed_def clear_call_flags_def b_def Let_def
        split: prod.splits)
  have changed: "ad_active_call (on_call_changed b c type event) = 0"
    using assms(2) by (auto simp: on_call_changed_def fail_closed_def clear_call_flags_def b_def
        Let_def split: prod.splits)
  have opened: "type \<in> {BEVENT_CALL_INCOMING, BEVENT_CALL_OUTGOING} \<and> sdk_ua event = ad_owner b \<and>
      on_event ua_registered b c type (Some event) = on_call_opened ua_registered b c type event"
    using a'(1) assms(2,4) keep changed
    by (cases type)
      (auto simp: on_event_def fail_closed_def clear_call_flags_def b_def split: if_splits)
  obtain ok token l where started: "lifecycle_call_started l1 c (ad_native_key a + 1)
      (if type = BEVENT_CALL_INCOMING then BaresipEventKind.CallIncoming
       else BaresipEventKind.CallOutgoing) = ((ok, token), l)" by (metis surj_pair)
  have res: "native_register_ok_seen ua_registered b" "ua_registered (ad_owner b)"
    "sdk_call event \<notin> set (ad_seen_calls b)" "ok"
    "ad_active_call (on_call_opened ua_registered b c type event) = sdk_call event"
    "ad_active_token (on_call_opened ua_registered b c type event) = token"
    using on_call_opened_tracks [of ua_registered b c type event ok token l] a'(1) assms(4) opened started
    by (simp_all add: b_def)
  have "lif_session ?l \<noteq> 0"
    using act(1) by (auto simp: adapter_active_def is_live_def captured_def)
  then have "ing_last_token (fst (lif_ingress ?l)) = ad_native_key a"
    using assms(1) by (simp add: adapter_inv_def tracks_def linked_def Let_def)
  moreover have "token = ing_last_token (fst (lif_ingress l1)) + 1"
    using lifecycle_call_started_ok [OF started [simplified res(4) eq_True]] by blast
  ultimately have "token = ad_native_key a + 1" using l1 by simp
  with res a' opened act show ?thesis
    by (simp add: native_register_ok_seen_def b_def)
qed

section \<open>Properties\<close>

text \<open>
  C9. The event-loop owner never deadlocks, and the adapter's book-keeping is the ingress's.
  After any sequence of starts, stops and SDK callbacks (with any context, event, agent, call and
  SDK answer) every operation has returned; while a session is live the native call key and the
  call token the adapter holds are exactly those of the ingress; a call is tracked exactly when a
  token is held; and the call pointers accepted in the session are distinct, nonnull and at most
  4096, so no pointer is taken for two calls.
\<close>

theorem adapter_tracks_ingress:
  "\<exists>po' a'. adapter_run self (po, empty_adapter) ops = Some (po', a') \<and>
     fen_in_flight (lif_fence (ad_lifecycle a')) = 0 \<and>
     (let ing = fst (lif_ingress (ad_lifecycle a')) in adapter_active a' \<longrightarrow>
        ing_session ing = adapter_session a' \<and>
        ing_last_native_key ing = ad_native_key a' \<and>
        ing_active_token ing = ad_active_token a') \<and>
     (ad_active_call a' = 0 \<longleftrightarrow> ad_active_token a' = 0) \<and>
     distinct (ad_seen_calls a') \<and> 0 \<notin> set (ad_seen_calls a') \<and>
     length (ad_seen_calls a') \<le> 4096"
proof -
  obtain po' a' where r: "adapter_run self (po, empty_adapter) ops = Some (po', a')" "adapter_inv a'"
    using adapter_run_inv [OF adapter_inv_empty] by blast
  then have t: "tracks a'" and f: "fen_in_flight (lif_fence (ad_lifecycle a')) = 0"
    by (auto simp: adapter_inv_def lifecycle_inv_idle)
  have "lif_session (ad_lifecycle a') \<noteq> 0 \<and> lif_session (ad_lifecycle a') = adapter_session a'"
    if "adapter_active a'"
    using that by (auto simp: adapter_active_def is_live_def captured_def adapter_session_def)
  with r(1) t f show ?thesis
    by (auto simp: tracks_def calls_ok_def linked_def max_seen_calls_def lif_session_def Let_def)
qed

definition sample_context :: CapturedSession where
  "sample_context =
     \<lparr>cap_fence_generation = 1, cap_mailbox_session = 1, cap_account_identity = 9\<rparr>"

definition sample_register :: "AdapterOp list" where
  "sample_register =
     [AdapterStart 9 True 0,
      AdapterCallback (\<lambda>ua. True) sample_context BEVENT_REGISTERING
        (Some \<lparr>sdk_ua = 9, sdk_call = 0\<rparr>),
      AdapterCallback (\<lambda>ua. True) sample_context BEVENT_REGISTER_OK
        (Some \<lparr>sdk_ua = 9, sdk_call = 0\<rparr>)]"

definition sample_adapter :: BaresipSdkEventAdapter where
  "sample_adapter = snd (the (adapter_run 1 (0, empty_adapter) sample_register))"

lemma sample_adapter_inv: "adapter_inv sample_adapter"
  using adapter_run_inv [OF adapter_inv_empty, of 1 0 sample_register]
  by (auto simp: sample_adapter_def)

theorem adapter_tracks_ingress_witness:
  "\<exists>po' a'. adapter_run 1 (0, empty_adapter) sample_register = Some (po', a') \<and>
     (ad_active_call a' = 0 \<longleftrightarrow> ad_active_token a' = 0)"
  using adapter_tracks_ingress [of 1 0 sample_register] by blast

text \<open>
  Callbacks of another epoch are inert. A callback whose captured session is not the
  adapter's current one, and any callback at all after the adapter failed closed or was stopped,
  leaves the whole state unchanged. Once \<open>fail_closed\<close> has run, only \<open>stop\<close> and a new \<open>start\<close>
  make the adapter active again.
\<close>

theorem stale_callbacks_are_inert:
  "(\<not> adapter_active a \<or> \<not> same_epoch a c \<longrightarrow>
      adapter_callback ua_registered a c type event_ptr = a) \<and>
   \<not> adapter_active (fail_closed a) \<and>
   (ad_registered a \<longrightarrow> adapter_start self po (fail_closed a) ua allocated err =
      Some (False, po, fail_closed a))"
  using callback_ignored [of a c]
  by (auto simp: adapter_active_def fail_closed_def adapter_start_def clear_call_flags_def)

theorem stale_callbacks_are_inert_witness:
  "adapter_callback (\<lambda>ua. True) empty_adapter sample_capture BEVENT_EXIT None = empty_adapter"
proof -
  have "\<not> adapter_active empty_adapter" by (simp add: adapter_active_def empty_adapter_def)
  then show ?thesis using stale_callbacks_are_inert [of empty_adapter sample_capture] by blast
qed

text \<open>
  C10. A call enters the pipeline only on proof. Take any run of the event loop that starts with a fresh
  adapter. A callback that then makes the adapter track a call was an incoming or outgoing call event of
  the live session and of the owner's own agent; in this very session, of the same owner and without an
  interruption, a \<open>REGISTER_OK\<close> of that agent was heard while the SDK said that it is registered, no
  failure, unregistration or new attempt has withdrawn it since, and the SDK still says that the agent is
  registered; the call pointer was not used before in the session, and the token minted is fresh.
\<close>

theorem calls_need_registration:
  assumes "adapter_run self (po, empty_adapter) ops = Some (po1, a)" and "ad_active_call a = 0"
    and "a' = adapter_callback ua_registered a c type (Some event)" and "ad_active_call a' \<noteq> 0"
  shows "adapter_active a \<and> same_epoch a c \<and>
    type \<in> {BEVENT_CALL_INCOMING, BEVENT_CALL_OUTGOING} \<and> sdk_ua event = ad_owner a \<and>
    ad_sip_registered a \<and> ua_registered (ad_owner a) \<and>
    (\<exists>pre ok post po0 a0. ops = pre @ ok # post \<and> adapter_run self (po, empty_adapter) pre = Some (po0, a0) \<and>
       same_session a0 a \<and> confirms_registration a0 ok \<and>
       (\<forall>q op r. post = q @ op # r \<longrightarrow>
          (\<exists>po2 a2. adapter_run self (po, empty_adapter) (pre @ ok # q) = Some (po2, a2) \<and>
             same_session a2 a \<and> \<not> withdraws_registration a2 op))) \<and>
    ad_active_call a' = sdk_call event \<and> sdk_call event \<notin> set (ad_seen_calls a) \<and>
    ad_active_token a' = ad_native_key a + 1"
proof -
  have "adapter_inv a" using adapter_run_inv [OF adapter_inv_empty, of self po ops] assms(1) by auto
  note enter = call_enters [OF this assms(2-4)]
  have "\<not> ad_sip_registered (snd (po, empty_adapter))" by (simp add: empty_adapter_def)
  from registration_history [OF assms(1) _ _ this] enter show ?thesis by blast
qed

theorem calls_need_registration_witness:
  "ad_active_token (adapter_callback (\<lambda>ua. True) sample_adapter sample_context
     BEVENT_CALL_INCOMING (Some \<lparr>sdk_ua = 9, sdk_call = 77\<rparr>)) = ad_native_key sample_adapter + 1 \<and>
   (\<exists>pre ok post po0 a0. sample_register = pre @ ok # post \<and>
      adapter_run 1 (0, empty_adapter) pre = Some (po0, a0) \<and> confirms_registration a0 ok)"
proof -
  let ?a' = "adapter_callback (\<lambda>ua. True) sample_adapter sample_context BEVENT_CALL_INCOMING
    (Some \<lparr>sdk_ua = 9, sdk_call = 77\<rparr>)"
  obtain po where run: "adapter_run 1 (0, empty_adapter) sample_register = Some (po, sample_adapter)"
    using adapter_run_inv [OF adapter_inv_empty, of 1 0 sample_register] by (auto simp: sample_adapter_def)
  have "ad_active_call sample_adapter = 0" and "ad_active_call ?a' \<noteq> 0" by code_simp+
  with calls_need_registration [OF run _ refl] show ?thesis by blast
qed

end
