(* ===== verification/Registration_Queue.thy ===== *)
theory Registration_Queue
  imports Axv_Prelude
begin

text \<open>
  The cross-thread control queue of SIP registration, \<open>baresip_registration_command_queue.h\<close>.
  Every public method holds the mutex throughout, so it is one function on the queue's members.
  A cancellation, an overflow and \<open>invalidate\<close> each bump the \<open>revision\<close>: a batch drained before
  is executable only while \<open>still_admitted\<close> finds the revision unchanged.
\<close>

section \<open>The queue\<close>

datatype RegistrationCommandKind = SubmitSelectedAccount | Cancel

record RegistrationCommand =
  cmd_kind :: RegistrationCommandKind
  cmd_generation :: u64
  cmd_timeout_ms :: u32

definition default_command :: RegistrationCommand where
  "default_command =
     \<lparr>cmd_kind = RegistrationCommandKind.Cancel, cmd_generation = 0, cmd_timeout_ms = 0\<rparr>"

definition queue_capacity :: nat where
  "queue_capacity = 16"

definition min_timeout_ms :: u32 where
  "min_timeout_ms = 1000"

definition max_timeout_ms :: u32 where
  "max_timeout_ms = 120000"

record RegistrationBatch =
  rb_commands :: "RegistrationCommand list"
  rb_size :: nat
  rb_generation :: u64
  rb_revision :: u64
  rb_overflow :: bool

definition default_registration_batch :: RegistrationBatch where
  "default_registration_batch = \<lparr>rb_commands = replicate queue_capacity default_command,
     rb_size = 0, rb_generation = 0, rb_revision = 0, rb_overflow = False\<rparr>"

record RegistrationCommandQueue =
  rq_entries :: "RegistrationCommand list"
  rq_size :: nat
  rq_generation :: u64
  rq_last_generation :: u64
  rq_revision :: u64
  rq_open :: bool
  rq_overflow :: bool

definition empty_registration_queue :: RegistrationCommandQueue where
  "empty_registration_queue = \<lparr>rq_entries = replicate queue_capacity default_command,
     rq_size = 0, rq_generation = 0, rq_last_generation = 0, rq_revision = 0,
     rq_open = False, rq_overflow = False\<rparr>"

definition begin_generation :: "RegistrationCommandQueue \<Rightarrow> u64 \<times> RegistrationCommandQueue" where
  "begin_generation q =
     (if rq_open q \<or> rq_size q \<noteq> 0 \<or> rq_overflow q \<or> rq_last_generation q = u64_max
      then (0, q)
      else let next = rq_last_generation q + 1
           in (next, q\<lparr>rq_last_generation := next, rq_generation := next, rq_open := True\<rparr>))"

definition queue_enqueue ::
    "RegistrationCommandQueue \<Rightarrow> RegistrationCommand \<Rightarrow> bool \<times> RegistrationCommandQueue" where
  "queue_enqueue q command =
     (if \<not> rq_open q \<or> cmd_generation command = 0 \<or> cmd_generation command \<noteq> rq_generation q \<or>
         rq_overflow q
      then (False, q)
      else if cmd_kind command = RegistrationCommandKind.Cancel
      then (True, q\<lparr>rq_entries := (rq_entries q)[0 := command], rq_size := 1, rq_open := False,
                    rq_revision := rq_revision q + 1\<rparr>)
      else if rq_size q = queue_capacity
      then (False, q\<lparr>rq_size := 0, rq_open := False, rq_overflow := True,
                     rq_revision := rq_revision q + 1\<rparr>)
      else (True, q\<lparr>rq_entries := (rq_entries q)[rq_size q := command],
                    rq_size := rq_size q + 1\<rparr>))"

definition queue_submit ::
    "RegistrationCommandQueue \<Rightarrow> u64 \<Rightarrow> u32 \<Rightarrow> bool \<times> RegistrationCommandQueue" where
  "queue_submit q generation timeout_ms =
     (if timeout_ms < min_timeout_ms \<or> timeout_ms > max_timeout_ms then (False, q)
      else queue_enqueue q \<lparr>cmd_kind = RegistrationCommandKind.SubmitSelectedAccount,
             cmd_generation = generation, cmd_timeout_ms = timeout_ms\<rparr>)"

definition queue_cancel ::
    "RegistrationCommandQueue \<Rightarrow> u64 \<Rightarrow> bool \<times> RegistrationCommandQueue" where
  "queue_cancel q generation =
     queue_enqueue q \<lparr>cmd_kind = RegistrationCommandKind.Cancel, cmd_generation = generation,
       cmd_timeout_ms = 0\<rparr>"

definition queue_drain ::
    "RegistrationCommandQueue \<Rightarrow> u64 \<Rightarrow> RegistrationBatch \<times> RegistrationCommandQueue" where
  "queue_drain q expected_generation =
     (if expected_generation = 0 \<or> rq_generation q \<noteq> expected_generation
      then (default_registration_batch, q)
      else if \<not> rq_open q \<and> rq_size q = 0 \<and> \<not> rq_overflow q
      then (default_registration_batch, q)
      else (\<lparr>rb_commands = (if rq_overflow q then replicate queue_capacity default_command
               else take (rq_size q) (rq_entries q) @
                    replicate (queue_capacity - rq_size q) default_command),
             rb_size = (if rq_overflow q then 0 else rq_size q),
             rb_generation = rq_generation q, rb_revision = rq_revision q,
             rb_overflow = rq_overflow q\<rparr>,
            q\<lparr>rq_size := 0, rq_overflow := False\<rparr>))"

definition still_admitted :: "RegistrationCommandQueue \<Rightarrow> RegistrationBatch \<Rightarrow> bool" where
  "still_admitted q batch \<longleftrightarrow>
     rb_generation batch \<noteq> 0 \<and> rb_generation batch = rq_generation q \<and>
     rb_revision batch = rq_revision q \<and> rq_open q \<and> \<not> rq_overflow q"

definition queue_invalidate :: "RegistrationCommandQueue \<Rightarrow> RegistrationCommandQueue" where
  "queue_invalidate q =
     q\<lparr>rq_open := False, rq_size := 0, rq_overflow := False, rq_revision := rq_revision q + 1\<rparr>"

lemmas registration_queue_defs [step_defs] =
  begin_generation_def queue_enqueue_def queue_submit_def queue_cancel_def queue_drain_def
  queue_invalidate_def

section \<open>Representation\<close>

definition queue_commands :: "RegistrationCommandQueue \<Rightarrow> RegistrationCommand list" where
  "queue_commands q = take (rq_size q) (rq_entries q)"

definition rbatch_list :: "RegistrationBatch \<Rightarrow> RegistrationCommand list" where
  "rbatch_list b = take (rb_size b) (rb_commands b)"

text \<open>
  While the queue is open it holds valid submissions of its generation; once closed, at most one
  cancellation; after an overflow nothing.
\<close>

definition valid_submit :: "u64 \<Rightarrow> RegistrationCommand \<Rightarrow> bool" where
  "valid_submit generation c \<longleftrightarrow>
     cmd_kind c = RegistrationCommandKind.SubmitSelectedAccount \<and>
     cmd_generation c = generation \<and>
     min_timeout_ms \<le> cmd_timeout_ms c \<and> cmd_timeout_ms c \<le> max_timeout_ms"

definition cancel_of :: "u64 \<Rightarrow> RegistrationCommand" where
  "cancel_of generation = \<lparr>cmd_kind = RegistrationCommandKind.Cancel,
     cmd_generation = generation, cmd_timeout_ms = 0\<rparr>"

definition queue_inv :: "RegistrationCommandQueue \<Rightarrow> bool" where
  "queue_inv q \<longleftrightarrow>
     length (rq_entries q) = queue_capacity \<and> rq_size q \<le> queue_capacity \<and>
     rq_generation q = rq_last_generation q \<and>
     (rq_open q \<longrightarrow> rq_generation q \<noteq> 0 \<and> \<not> rq_overflow q \<and>
        (\<forall>c \<in> set (queue_commands q). valid_submit (rq_generation q) c)) \<and>
     (\<not> rq_open q \<longrightarrow> queue_commands q = [] \<or> queue_commands q = [cancel_of (rq_generation q)]) \<and>
     (rq_overflow q \<longrightarrow> rq_size q = 0)"

lemma queue_inv_empty [simp]: "queue_inv empty_registration_queue"
  by (simp add: queue_inv_def empty_registration_queue_def queue_commands_def)

lemma begin_generation_inv: "queue_inv q \<Longrightarrow> queue_inv (snd (begin_generation q))"
  by (auto simp: queue_inv_def begin_generation_def queue_commands_def Let_def)

lemma take_update_snoc: "n < length xs \<Longrightarrow> take (Suc n) (xs[n := x]) = take n xs @ [x]"
  by (simp add: take_Suc_conv_app_nth)

lemma take_one_update: "xs \<noteq> [] \<Longrightarrow> take (Suc 0) (xs[0 := x]) = [x]"
  by (cases xs) auto

lemma cancel_inv: "queue_inv q \<Longrightarrow> queue_inv (snd (queue_cancel q g))"
  by (auto simp: queue_inv_def queue_cancel_def queue_enqueue_def queue_commands_def cancel_of_def
      queue_capacity_def take_one_update simp flip: length_greater_0_conv)

lemma submit_inv:
  assumes "queue_inv q" shows "queue_inv (snd (queue_submit q g t))"
proof -
  have "rq_size q \<noteq> queue_capacity \<Longrightarrow> rq_size q < length (rq_entries q)"
    using assms by (auto simp: queue_inv_def)
  with assms show ?thesis
    by (auto simp: queue_inv_def queue_submit_def queue_enqueue_def queue_commands_def
        valid_submit_def take_update_snoc)
qed

lemma drain_queue_inv: "queue_inv q \<Longrightarrow> queue_inv (snd (queue_drain q g))"
  by (auto simp: queue_inv_def queue_drain_def queue_commands_def)

lemma invalidate_queue_inv [simp]: "queue_inv q \<Longrightarrow> queue_inv (queue_invalidate q)"
  by (auto simp: queue_inv_def queue_invalidate_def queue_commands_def)

lemma drain_rbatch:
  assumes "queue_inv q" "g \<noteq> 0" "rq_generation q = g"
  shows "rbatch_list (fst (queue_drain q g)) = queue_commands q"
  using assms
  by (auto simp: queue_inv_def queue_drain_def queue_commands_def rbatch_list_def
      default_registration_batch_def)

section \<open>Runs\<close>

datatype QueueOp =
    OpBegin
  | OpSubmit u64 u32
  | OpCancel u64
  | OpDrain u64
  | OpInvalidate

fun queue_op :: "RegistrationCommandQueue \<Rightarrow> QueueOp \<Rightarrow> RegistrationCommandQueue" where
  "queue_op q OpBegin = snd (begin_generation q)"
| "queue_op q (OpSubmit g t) = snd (queue_submit q g t)"
| "queue_op q (OpCancel g) = snd (queue_cancel q g)"
| "queue_op q (OpDrain g) = snd (queue_drain q g)"
| "queue_op q OpInvalidate = queue_invalidate q"

definition queue_run :: "RegistrationCommandQueue \<Rightarrow> QueueOp list \<Rightarrow> RegistrationCommandQueue" where
  "queue_run q ops = foldl queue_op q ops"

lemma queue_op_inv: "queue_inv q \<Longrightarrow> queue_inv (queue_op q op)"
  by (cases op) (simp_all add: begin_generation_inv submit_inv cancel_inv drain_queue_inv)

lemma queue_run_inv: "queue_inv q \<Longrightarrow> queue_inv (queue_run q ops)"
  unfolding queue_run_def by (induction ops arbitrary: q) (simp_all add: queue_op_inv)

text \<open>The operations that withdraw what was drained before: those that bump the revision.\<close>

definition withdraws :: "RegistrationCommandQueue \<Rightarrow> QueueOp \<Rightarrow> bool" where
  "withdraws q op \<longleftrightarrow>
     (case op of
        OpCancel g \<Rightarrow> fst (queue_cancel q g)
      | OpSubmit g t \<Rightarrow> \<not> fst (queue_submit q g t) \<and> rq_overflow (snd (queue_submit q g t)) \<and>
          \<not> rq_overflow q
      | OpInvalidate \<Rightarrow> True
      | _ \<Rightarrow> False)"

fun withdrawals :: "RegistrationCommandQueue \<Rightarrow> QueueOp list \<Rightarrow> nat" where
  "withdrawals q [] = 0"
| "withdrawals q (op # ops) = (if withdraws q op then 1 else 0) + withdrawals (queue_op q op) ops"

lemma queue_op_revision:
  "rq_revision (queue_op q op) = rq_revision q + (if withdraws q op then 1 else 0)"
  by (cases op)
    (auto simp: withdraws_def registration_queue_defs Let_def)

lemma queue_run_revision:
  "rq_revision (queue_run q ops) = rq_revision q + of_nat (withdrawals q ops)"
proof (induction ops arbitrary: q)
  case Nil
  then show ?case by (simp add: queue_run_def)
next
  case (Cons op ops)
  then show ?case
    using queue_op_revision [of q op] by (simp add: queue_run_def)
qed

lemma withdrawals_le: "withdrawals q ops \<le> length ops"
proof (induction ops arbitrary: q)
  case Nil
  then show ?case by simp
next
  case (Cons op ops)
  from Cons.IH [of "queue_op q op"] show ?case by simp
qed

section \<open>Properties\<close>

text \<open>
  A drained submission dies with the first withdrawal. Take a batch drained from the queue
  and any sequence of fewer than 2 ^ 64 operations afterwards, of any thread, new generations
  included. If one of them withdraws (an accepted cancellation, an overflow, an invalidation),
  the batch is not admitted at the end; and a batch that is still admitted belongs to the
  generation the queue serves.
\<close>

theorem withdrawn_batch_never_admitted:
  assumes "queue_drain q g = (batch, q0)" and "length ops < 2 ^ 64"
    and "still_admitted (queue_run q0 ops) batch"
  shows "withdrawals q0 ops = 0 \<and> rb_generation batch = g \<and>
    rq_generation (queue_run q0 ops) = g \<and> g \<noteq> 0"
proof -
  have adm: "rb_generation batch \<noteq> 0" "rb_generation batch = rq_generation (queue_run q0 ops)"
    "rb_revision batch = rq_revision (queue_run q0 ops)"
    using assms(3) by (auto simp: still_admitted_def)
  then have d: "g \<noteq> 0" "rb_generation batch = g" "rb_revision batch = rq_revision q0"
    using assms(1)
    by (auto simp: queue_drain_def default_registration_batch_def split: if_splits)
  have "(of_nat (withdrawals q0 ops) :: u64) = 0"
    using adm(3) d(3) queue_run_revision [of q0 ops] by simp
  moreover have "withdrawals q0 ops < 2 ^ 64"
    using withdrawals_le [of q0 ops] assms(2) by simp
  ultimately have "withdrawals q0 ops = 0"
    by (auto simp: word_of_nat_eq_0_iff dest: dvd_imp_le)
  with adm d show ?thesis by simp
qed

definition sample_queue :: RegistrationCommandQueue where
  "sample_queue = queue_run empty_registration_queue [OpBegin, OpSubmit 1 5000]"

theorem withdrawn_batch_never_admitted_witness:
  "withdrawals (snd (queue_drain sample_queue 1)) [OpSubmit 1 2000, OpDrain 1] = 0"
proof -
  let ?r = "queue_drain sample_queue 1" and ?ops = "[OpSubmit 1 2000, OpDrain 1]"
  have a: "still_admitted (queue_run (snd ?r) ?ops) (fst ?r)" by code_simp
  have l: "length ?ops < 2 ^ 64" by simp
  from withdrawn_batch_never_admitted [OF prod.collapse [symmetric] l a]
  show ?thesis by blast
qed

text \<open>
  What the owner drains. In every state the queue can reach, a drain of the current
  generation returns either the submissions accepted since the last drain, each of that
  generation and with a timeout of 1 to 120 seconds; or one cancellation and nothing else, with
  the queue closed; or, after an overflow, no command at all and the overflow flag. A batch is
  never larger than the array it is copied to.
\<close>

theorem drain_contents:
  assumes "q = queue_run empty_registration_queue ops" and "g \<noteq> 0"
    and "queue_drain q g = (batch, q')" and "rb_generation batch = g"
  shows "length (rb_commands batch) = queue_capacity \<and> rb_size batch \<le> queue_capacity \<and>
    (if rb_overflow batch then rbatch_list batch = [] \<and> \<not> rq_open q'
     else rq_open q' \<and> (\<forall>c \<in> set (rbatch_list batch). valid_submit g c) \<or>
          \<not> rq_open q' \<and> rbatch_list batch = [cancel_of g])"
proof -
  have inv: "queue_inv q" using assms(1) queue_run_inv queue_inv_empty by blast
  have gq: "rq_generation q = g" and
    live: "rq_open q \<or> rq_size q \<noteq> 0 \<or> rq_overflow q"
    using assms(2-4)
    by (auto simp: queue_drain_def default_registration_batch_def split: if_splits)
  have lst: "rbatch_list batch = queue_commands q"
    using drain_rbatch [OF inv assms(2) gq] assms(3) by simp
  have fields: "rb_overflow batch = rq_overflow q" "rq_open q' = rq_open q"
    "length (rb_commands batch) = queue_capacity" "rb_size batch \<le> queue_capacity"
    using assms(2,3) gq live inv by (auto simp: queue_drain_def queue_inv_def)
  have "rq_size q \<noteq> 0 \<Longrightarrow> queue_commands q \<noteq> []"
    using inv by (auto simp: queue_inv_def queue_commands_def queue_capacity_def)
  with lst fields gq live inv show ?thesis
    by (auto simp: queue_inv_def queue_commands_def)
qed

theorem drain_contents_witness:
  "length (rb_commands (fst (queue_drain sample_queue 1))) = 16 \<and>
   rq_open (snd (queue_drain sample_queue 1))"
proof -
  have "rb_generation (fst (queue_drain sample_queue 1)) = 1" by code_simp
  moreover have "rq_open (snd (queue_drain sample_queue 1))" by code_simp
  ultimately show ?thesis
    using drain_contents [OF sample_queue_def, of 1 "fst (queue_drain sample_queue 1)"
        "snd (queue_drain sample_queue 1)"]
    by (simp add: queue_capacity_def)
qed

end
