(* ===== verification/Registration_Gateway.thy ===== *)
theory Registration_Gateway
  imports Sdk_Adapter Registration_Queue
begin

text \<open>
  Registration on the event-loop thread: the deadline (\<open>baresip_registration_watchdog.h\<close>), the
  gateway that calls \<open>ua_register\<close> (\<open>baresip_sdk_registration_gateway.h\<close>, with the thread guard
  of \<open>baresip_native_thread_guard.h\<close>) and the dispatcher that executes the commands of the queue
  (\<open>baresip_registration_command_dispatcher.h\<close>).

  What the SDK does during a call is an argument: its return values and the callbacks it runs
  synchronously. What other threads do to the command queue while the dispatcher runs is an
  argument too, a list of queue operations before each of its accesses.
\<close>

section \<open>The deadline\<close>

datatype RegistrationDeadlineVerdict =
    Unarmed | Pending | CallbackConfirmed | Expired | ClockRegressed | SessionRevoked
  | WrongEventLoopThread

record RegistrationDeadline =
  dl_armed :: bool
  dl_session :: u64
  dl_started_ms :: u64
  dl_max_wait_ms :: u64

definition deadline_clear :: RegistrationDeadline where
  "deadline_clear =
     \<lparr>dl_armed = False, dl_session = 0, dl_started_ms = 0, dl_max_wait_ms = 0\<rparr>"

definition deadline_arm ::
    "RegistrationDeadline \<Rightarrow> u64 \<Rightarrow> u64 \<Rightarrow> u64 \<Rightarrow> bool \<times> RegistrationDeadline" where
  "deadline_arm d session monotonic_ms max_wait_ms =
     (if session = 0 \<or> max_wait_ms = 0 \<or> dl_armed d then (False, d)
      else (True, \<lparr>dl_armed = True, dl_session = session, dl_started_ms = monotonic_ms,
                   dl_max_wait_ms = max_wait_ms\<rparr>))"

definition deadline_check ::
    "RegistrationDeadline \<Rightarrow> u64 \<Rightarrow> u64 \<Rightarrow> bool \<Rightarrow> RegistrationDeadlineVerdict" where
  "deadline_check d session monotonic_ms native_callback_confirmed =
     (if \<not> dl_armed d then RegistrationDeadlineVerdict.Unarmed
      else if session \<noteq> dl_session d \<or> session = 0
      then RegistrationDeadlineVerdict.SessionRevoked
      else if monotonic_ms < dl_started_ms d then RegistrationDeadlineVerdict.ClockRegressed
      else if monotonic_ms - dl_started_ms d \<ge> dl_max_wait_ms d
      then RegistrationDeadlineVerdict.Expired
      else if native_callback_confirmed then RegistrationDeadlineVerdict.CallbackConfirmed
      else RegistrationDeadlineVerdict.Pending)"

text \<open>Without wrap-around: the deadline expires exactly \<open>max_wait_ms\<close> after it was armed.\<close>

lemma deadline_check_expired:
  assumes "dl_armed d" "session = dl_session d" "session \<noteq> 0"
  shows "deadline_check d session now confirmed = RegistrationDeadlineVerdict.Expired \<longleftrightarrow>
    unat (dl_started_ms d) + unat (dl_max_wait_ms d) \<le> unat now"
proof (cases "now < dl_started_ms d")
  case True
  then have "unat now < unat (dl_started_ms d)" by (simp add: word_less_nat_alt)
  with True assms show ?thesis by (simp add: deadline_check_def)
next
  case False
  then have le: "dl_started_ms d \<le> now" by simp
  then have "unat (now - dl_started_ms d) = unat now - unat (dl_started_ms d)"
    by (simp add: unat_sub)
  moreover have "unat (dl_started_ms d) \<le> unat now" using le by (simp add: word_le_nat_alt)
  ultimately show ?thesis
    using False assms by (auto simp: deadline_check_def word_le_nat_alt)
qed

section \<open>The gateway\<close>

datatype NativeRegistrationSubmission =
    InvalidAccount | BridgeUnavailable | SubmissionRejected | Submitted | AlreadySubmitted
  | NativeSessionRevoked | WrongEventLoopThread

text \<open>
  The answers of the SDK to one gateway operation: whether the callback context could be
  allocated, the results of \<open>bevent_register\<close> and \<open>ua_register\<close>, the callbacks that
  \<open>ua_register\<close> and \<open>ua_unregister\<close> run before they return, and \<open>ua_isregistered\<close>.
\<close>

type_synonym sdk_callback = "(u64 \<Rightarrow> bool) \<times> CapturedSession \<times> bevent_ev \<times> SdkEvent option"

record SdkAnswers =
  sdk_allocated :: bool
  sdk_bevent_error :: int
  sdk_register_error :: int
  sdk_register_callbacks :: "sdk_callback list"
  sdk_unregister_callbacks :: "sdk_callback list"
  sdk_ua_registered :: "u64 \<Rightarrow> bool"

definition run_callbacks ::
    "BaresipSdkEventAdapter \<Rightarrow> sdk_callback list \<Rightarrow> BaresipSdkEventAdapter" where
  "run_callbacks a cbs = foldl (\<lambda>a (reg, c, type, ev). adapter_callback reg a c type ev) a cbs"

record BaresipSdkRegistrationGateway =
  gw_bridge :: BaresipSdkEventAdapter
  gw_process_owner :: u64
  gw_owner :: u64
  gw_deadline :: RegistrationDeadline

definition new_gateway :: "u64 \<Rightarrow> BaresipSdkEventAdapter \<Rightarrow> BaresipSdkRegistrationGateway" where
  "new_gateway process_owner bridge =
     \<lparr>gw_bridge = bridge, gw_process_owner = process_owner, gw_owner = 0,
      gw_deadline = deadline_clear\<rparr>"

text \<open>\<open>bridge_.stop()\<close>; \<open>self\<close> is the address of the adapter.\<close>

definition stop_bridge ::
    "u64 \<Rightarrow> BaresipSdkRegistrationGateway \<Rightarrow> BaresipSdkRegistrationGateway option" where
  "stop_bridge self gw =
     (case adapter_stop self (gw_process_owner gw) (gw_bridge gw) of
        None \<Rightarrow> None
      | Some (po, a) \<Rightarrow> Some (gw\<lparr>gw_process_owner := po, gw_bridge := a\<rparr>))"

definition gateway_submit ::
    "u64 \<Rightarrow> bool \<Rightarrow> SdkAnswers \<Rightarrow> BaresipSdkRegistrationGateway \<Rightarrow> u64 \<Rightarrow>
     (NativeRegistrationSubmission \<times> BaresipSdkRegistrationGateway) option" where
  "gateway_submit self is_owner sdk gw selected =
     (if \<not> is_owner then Some (NativeRegistrationSubmission.WrongEventLoopThread, gw)
      else if gw_owner gw \<noteq> 0
      then Some (if adapter_active (gw_bridge gw) then NativeRegistrationSubmission.AlreadySubmitted
                 else NativeRegistrationSubmission.NativeSessionRevoked, gw)
      else if selected = 0 then Some (NativeRegistrationSubmission.InvalidAccount, gw)
      else (case adapter_start self (gw_process_owner gw) (gw_bridge gw) selected
                   (sdk_allocated sdk) (sdk_bevent_error sdk) of
              None \<Rightarrow> None
            | Some (ok, po, a) \<Rightarrow>
                (let gw = gw\<lparr>gw_process_owner := po, gw_bridge := a\<rparr> in
                 if \<not> ok then Some (NativeRegistrationSubmission.BridgeUnavailable, gw)
                 else (let gw = gw\<lparr>gw_bridge :=
                             run_callbacks (gw_bridge gw) (sdk_register_callbacks sdk)\<rparr> in
                       if sdk_register_error sdk \<noteq> 0
                       then map_option (Pair NativeRegistrationSubmission.SubmissionRejected)
                              (stop_bridge self gw)
                       else if \<not> adapter_active (gw_bridge gw)
                       then map_option (Pair NativeRegistrationSubmission.NativeSessionRevoked)
                              (stop_bridge self gw)
                       else Some (NativeRegistrationSubmission.Submitted,
                              gw\<lparr>gw_owner := selected, gw_deadline := deadline_clear\<rparr>)))))"

definition gateway_submitted :: "bool \<Rightarrow> BaresipSdkRegistrationGateway \<Rightarrow> bool" where
  "gateway_submitted is_owner gw \<longleftrightarrow> is_owner \<and> gw_owner gw \<noteq> 0 \<and> adapter_active (gw_bridge gw)"

definition gateway_session :: "bool \<Rightarrow> BaresipSdkRegistrationGateway \<Rightarrow> u64" where
  "gateway_session is_owner gw =
     (if gateway_submitted is_owner gw then adapter_session (gw_bridge gw) else 0)"

definition arm_registration_deadline ::
    "bool \<Rightarrow> BaresipSdkRegistrationGateway \<Rightarrow> u64 \<Rightarrow> u64 \<Rightarrow> bool \<times> BaresipSdkRegistrationGateway"
  where
  "arm_registration_deadline is_owner gw now_ms max_wait_ms =
     (if is_owner \<and> gateway_submitted is_owner gw
      then (let (ok, d) = deadline_arm (gw_deadline gw) (gateway_session is_owner gw) now_ms
                            max_wait_ms
            in (ok, gw\<lparr>gw_deadline := d\<rparr>))
      else (False, gw))"

definition gateway_stop ::
    "u64 \<Rightarrow> bool \<Rightarrow> SdkAnswers \<Rightarrow> BaresipSdkRegistrationGateway \<Rightarrow>
     (bool \<times> BaresipSdkRegistrationGateway) option" where
  "gateway_stop self is_owner sdk gw =
     (if \<not> is_owner then Some (False, gw)
      else (let gw = gw\<lparr>gw_deadline := deadline_clear\<rparr>;
                gw = (if gw_owner gw \<noteq> 0
                      then (if adapter_active (gw_bridge gw)
                            then gw\<lparr>gw_bridge :=
                                   run_callbacks (gw_bridge gw) (sdk_unregister_callbacks sdk)\<rparr>
                            else gw)\<lparr>gw_owner := 0\<rparr>
                      else gw)
            in map_option (Pair True) (stop_bridge self gw)))"

definition poll_registration_deadline ::
    "u64 \<Rightarrow> bool \<Rightarrow> SdkAnswers \<Rightarrow> BaresipSdkRegistrationGateway \<Rightarrow> u64 \<Rightarrow>
     (RegistrationDeadlineVerdict \<times> BaresipSdkRegistrationGateway) option" where
  "poll_registration_deadline self is_owner sdk gw now_ms =
     (if \<not> is_owner then Some (RegistrationDeadlineVerdict.WrongEventLoopThread, gw)
      else (let decision = deadline_check (gw_deadline gw) (adapter_session (gw_bridge gw)) now_ms
                  (native_register_ok_seen (sdk_ua_registered sdk) (gw_bridge gw))
            in case decision of
                 RegistrationDeadlineVerdict.CallbackConfirmed \<Rightarrow>
                   Some (decision, gw\<lparr>gw_deadline := deadline_clear\<rparr>)
               | RegistrationDeadlineVerdict.Expired \<Rightarrow>
                   map_option (\<lambda>(_, gw). (decision, gw)) (gateway_stop self is_owner sdk gw)
               | RegistrationDeadlineVerdict.ClockRegressed \<Rightarrow>
                   map_option (\<lambda>(_, gw). (decision, gw)) (gateway_stop self is_owner sdk gw)
               | RegistrationDeadlineVerdict.SessionRevoked \<Rightarrow>
                   map_option (\<lambda>(_, gw). (decision, gw)) (gateway_stop self is_owner sdk gw)
               | _ \<Rightarrow> Some (decision, gw)))"

section \<open>What the gateway keeps\<close>

text \<open>Idle: no agent, no deadline, no live session.\<close>

definition gateway_idle :: "BaresipSdkRegistrationGateway \<Rightarrow> bool" where
  "gateway_idle gw \<longleftrightarrow>
     gw_owner gw = 0 \<and> \<not> dl_armed (gw_deadline gw) \<and> \<not> adapter_active (gw_bridge gw)"

definition gateway_inv :: "BaresipSdkRegistrationGateway \<Rightarrow> bool" where
  "gateway_inv gw \<longleftrightarrow> adapter_inv (gw_bridge gw) \<and>
     (gw_owner gw = 0 \<longrightarrow> \<not> dl_armed (gw_deadline gw) \<and> \<not> adapter_active (gw_bridge gw)) \<and>
     (dl_armed (gw_deadline gw) \<longrightarrow> dl_session (gw_deadline gw) \<noteq> 0 \<and> dl_max_wait_ms (gw_deadline gw) \<noteq> 0)"

lemma run_callbacks_inv: "adapter_inv a \<Longrightarrow> adapter_inv (run_callbacks a cbs)"
  unfolding run_callbacks_def
  by (induction cbs arbitrary: a) (auto simp: callback_inv)

lemma not_armed_clear [simp]: "\<not> dl_armed deadline_clear"
  by (simp add: deadline_clear_def)

lemma stop_bridge_inv:
  assumes "adapter_inv (gw_bridge gw)"
  obtains gw' where "stop_bridge self gw = Some gw'" "adapter_inv (gw_bridge gw')"
    "\<not> adapter_active (gw_bridge gw')" "gw_owner gw' = gw_owner gw" "gw_deadline gw' = gw_deadline gw"
proof -
  obtain po a where "adapter_stop self (gw_process_owner gw) (gw_bridge gw) = Some (po, a)"
    "adapter_inv a" "\<not> adapter_active a"
    using stop_inv [OF assms] by blast
  with that [of "gw\<lparr>gw_process_owner := po, gw_bridge := a\<rparr>"] show thesis
    by (simp add: stop_bridge_def)
qed

lemma gateway_stop_idle:
  assumes "gateway_inv gw"
  obtains gw' where "gateway_stop self True sdk gw = Some (True, gw')" "gateway_inv gw'"
    "gateway_idle gw'"
proof -
  let ?a = "if gw_owner gw \<noteq> 0 \<and> adapter_active (gw_bridge gw)
    then run_callbacks (gw_bridge gw) (sdk_unregister_callbacks sdk) else gw_bridge gw"
  let ?gw = "gw\<lparr>gw_deadline := deadline_clear, gw_bridge := ?a, gw_owner := 0\<rparr>"
  have "adapter_inv (gw_bridge ?gw)"
    using assms run_callbacks_inv by (simp add: gateway_inv_def)
  then obtain gw' where s: "stop_bridge self ?gw = Some gw'" "adapter_inv (gw_bridge gw')"
    "\<not> adapter_active (gw_bridge gw')" "gw_owner gw' = gw_owner ?gw"
    "gw_deadline gw' = gw_deadline ?gw"
    by (rule stop_bridge_inv)
  have same: "gw\<lparr>gw_deadline := d, gw_owner := 0\<rparr> = gw\<lparr>gw_deadline := d\<rparr>"
    if "gw_owner gw = 0" for d
    using that by (cases gw) simp
  have "gateway_stop self True sdk gw = map_option (Pair True) (stop_bridge self ?gw)"
    by (cases "gw_owner gw = 0"; cases "adapter_active (gw_bridge gw)")
      (simp_all add: gateway_stop_def same Let_def)
  with s that show thesis by (simp add: gateway_inv_def gateway_idle_def)
qed

lemma gateway_submit_inv:
  assumes "gateway_inv gw"
  obtains r gw' where "gateway_submit self True sdk gw selected = Some (r, gw')" "gateway_inv gw'"
    "r = NativeRegistrationSubmission.Submitted \<longrightarrow>
       gateway_submitted True gw' \<and> gw_owner gw = 0 \<and> \<not> dl_armed (gw_deadline gw')"
proof -
  have ai: "adapter_inv (gw_bridge gw)" using assms by (simp add: gateway_inv_def)
  show thesis
  proof (cases "gw_owner gw \<noteq> 0 \<or> selected = 0")
    case True
    then show thesis
      by (intro that [of "if gw_owner gw = 0 then NativeRegistrationSubmission.InvalidAccount
          else if adapter_active (gw_bridge gw) then NativeRegistrationSubmission.AlreadySubmitted
          else NativeRegistrationSubmission.NativeSessionRevoked" gw])
        (auto simp: gateway_submit_def assms split: if_splits)
  next
    case False
    then have idle: "\<not> dl_armed (gw_deadline gw)" "\<not> adapter_active (gw_bridge gw)"
      using assms by (auto simp: gateway_inv_def)
    obtain ok po a where st: "adapter_start self (gw_process_owner gw) (gw_bridge gw) selected
        (sdk_allocated sdk) (sdk_bevent_error sdk) = Some (ok, po, a)" "adapter_inv a"
      using start_inv [OF ai] by blast
    have notok: "\<not> adapter_active a" if "\<not> ok"
      using start_failed_inactive [OF st(1) [simplified that eq_False] idle(2)] .
    let ?gw = "gw\<lparr>gw_process_owner := po, gw_bridge := run_callbacks a (sdk_register_callbacks sdk)\<rparr>"
    have ri: "adapter_inv (gw_bridge ?gw)" using run_callbacks_inv [OF st(2)] by simp
    obtain gw' where s: "stop_bridge self ?gw = Some gw'" "adapter_inv (gw_bridge gw')"
      "\<not> adapter_active (gw_bridge gw')" "gw_owner gw' = 0" "gw_deadline gw' = gw_deadline gw"
      using stop_bridge_inv [OF ri, of self] False by auto
    have gi: "gateway_inv gw'" using s idle assms by (simp add: gateway_inv_def)
    consider "\<not> ok" | "ok" "sdk_register_error sdk \<noteq> 0"
      | "ok" "sdk_register_error sdk = 0" "\<not> adapter_active (gw_bridge ?gw)"
      | "ok" "sdk_register_error sdk = 0" "adapter_active (gw_bridge ?gw)" by blast
    then show thesis
    proof cases
      case 1
      with st False idle assms notok show thesis
        by (intro that [of NativeRegistrationSubmission.BridgeUnavailable
              "gw\<lparr>gw_process_owner := po, gw_bridge := a\<rparr>"])
          (auto simp: gateway_submit_def gateway_inv_def)
    next
      case 2
      with st False s gi show thesis
        by (intro that [of NativeRegistrationSubmission.SubmissionRejected gw'])
          (auto simp: gateway_submit_def Let_def)
    next
      case 3
      with st False s gi show thesis
        by (intro that [of NativeRegistrationSubmission.NativeSessionRevoked gw'])
          (auto simp: gateway_submit_def Let_def)
    next
      case 4
      with st False ri show thesis
        by (intro that [of NativeRegistrationSubmission.Submitted
              "?gw\<lparr>gw_owner := selected, gw_deadline := deadline_clear\<rparr>"])
          (auto simp: gateway_submit_def gateway_inv_def gateway_submitted_def Let_def)
    qed
  qed
qed

lemma arm_deadline_inv:
  assumes "gateway_inv gw" "arm_registration_deadline True gw now max_wait = (ok, gw')"
  shows "gateway_inv gw'" "gw_owner gw' = gw_owner gw" "gw_bridge gw' = gw_bridge gw"
    "ok \<Longrightarrow> dl_armed (gw_deadline gw') \<and> dl_session (gw_deadline gw') = gateway_session True gw \<and>
       dl_started_ms (gw_deadline gw') = now \<and> dl_max_wait_ms (gw_deadline gw') = max_wait"
  using assms
  by (auto simp: arm_registration_deadline_def deadline_arm_def gateway_inv_def
      gateway_submitted_def split: if_splits)

lemma poll_deadline_inv:
  assumes "gateway_inv gw"
  obtains v gw' where "poll_registration_deadline self True sdk gw now = Some (v, gw')"
    "gateway_inv gw'"
    "v = deadline_check (gw_deadline gw) (adapter_session (gw_bridge gw)) now
       (native_register_ok_seen (sdk_ua_registered sdk) (gw_bridge gw))"
    "if v \<in> {RegistrationDeadlineVerdict.Expired, RegistrationDeadlineVerdict.ClockRegressed,
         RegistrationDeadlineVerdict.SessionRevoked}
     then gateway_idle gw' else gw_bridge gw' = gw_bridge gw \<and> gw_owner gw' = gw_owner gw"
proof -
  let ?v = "deadline_check (gw_deadline gw) (adapter_session (gw_bridge gw)) now
       (native_register_ok_seen (sdk_ua_registered sdk) (gw_bridge gw))"
  obtain gws where s: "gateway_stop self True sdk gw = Some (True, gws)" "gateway_inv gws"
    "gateway_idle gws" by (rule gateway_stop_idle [OF assms])
  have c: "gateway_inv (gw\<lparr>gw_deadline := deadline_clear\<rparr>)"
    using assms by (auto simp: gateway_inv_def)
  show thesis
    by (cases ?v; rule that [of ?v "if ?v \<in> {RegistrationDeadlineVerdict.Expired,
          RegistrationDeadlineVerdict.ClockRegressed, RegistrationDeadlineVerdict.SessionRevoked}
        then gws else if ?v = RegistrationDeadlineVerdict.CallbackConfirmed
        then gw\<lparr>gw_deadline := deadline_clear\<rparr> else gw"])
      (simp_all add: poll_registration_deadline_def s c assms Let_def)
qed

section \<open>Properties\<close>

text \<open>
  The registration deadline. On the owner thread, polling an armed deadline for the live
  session returns exactly one of: expired, once \<open>max_wait\<close> milliseconds (computed without
  wrap-around) have passed since it was armed, even if the registrar answered in the meantime;
  clock regression, if the clock went back; confirmed, only if the SDK reports the agent
  registered and a \<open>REGISTER_OK\<close> callback was seen in the live session; pending otherwise. In the
  first two cases the gateway is idle afterwards: no agent, no deadline, no live session.
\<close>

theorem deadline_verdicts:
  assumes "gateway_inv gw" and "d = gw_deadline gw" and "dl_armed d"
    and "dl_session d = adapter_session (gw_bridge gw)"
    and "poll_registration_deadline self True sdk gw now = Some (v, gw')"
  shows "v = (if unat now < unat (dl_started_ms d) then RegistrationDeadlineVerdict.ClockRegressed
      else if unat (dl_started_ms d) + unat (dl_max_wait_ms d) \<le> unat now
      then RegistrationDeadlineVerdict.Expired
      else if ad_sip_registered (gw_bridge gw) \<and> ad_owner (gw_bridge gw) \<noteq> 0 \<and>
              sdk_ua_registered sdk (ad_owner (gw_bridge gw))
      then RegistrationDeadlineVerdict.CallbackConfirmed
      else RegistrationDeadlineVerdict.Pending) \<and>
    (v \<in> {RegistrationDeadlineVerdict.Expired, RegistrationDeadlineVerdict.ClockRegressed}
       \<longrightarrow> gateway_idle gw')"
proof -
  have s: "dl_session d \<noteq> 0" using assms(1-3) by (auto simp: gateway_inv_def)
  then have act: "adapter_active (gw_bridge gw)"
    using assms(4) by (auto simp: adapter_session_def split: if_splits)
  obtain v2 gw2 where p: "poll_registration_deadline self True sdk gw now = Some (v2, gw2)"
    "v2 = deadline_check d (dl_session d) now
       (native_register_ok_seen (sdk_ua_registered sdk) (gw_bridge gw))"
    "if v2 \<in> {RegistrationDeadlineVerdict.Expired, RegistrationDeadlineVerdict.ClockRegressed,
         RegistrationDeadlineVerdict.SessionRevoked}
     then gateway_idle gw2 else gw_bridge gw2 = gw_bridge gw \<and> gw_owner gw2 = gw_owner gw"
    using poll_deadline_inv [OF assms(1), of self sdk now] assms(2,4) by metis
  have vv: "v2 = v" "gw2 = gw'" using p(1) assms(5) by simp_all
  note ex = deadline_check_expired [OF assms(3) refl s]
  have v: "v = (if now < dl_started_ms d then RegistrationDeadlineVerdict.ClockRegressed
      else if deadline_check d (dl_session d) now True = RegistrationDeadlineVerdict.Expired
      then RegistrationDeadlineVerdict.Expired
      else if native_register_ok_seen (sdk_ua_registered sdk) (gw_bridge gw)
      then RegistrationDeadlineVerdict.CallbackConfirmed
      else RegistrationDeadlineVerdict.Pending)"
    using p(2) vv s assms(3) by (simp add: deadline_check_def)
  have ok: "native_register_ok_seen (sdk_ua_registered sdk) (gw_bridge gw) \<longleftrightarrow>
      ad_sip_registered (gw_bridge gw) \<and> ad_owner (gw_bridge gw) \<noteq> 0 \<and>
      sdk_ua_registered sdk (ad_owner (gw_bridge gw))"
    using act by (simp add: native_register_ok_seen_def)
  have "v \<in> {RegistrationDeadlineVerdict.Expired, RegistrationDeadlineVerdict.ClockRegressed}
       \<longrightarrow> gateway_idle gw'"
    using p(3) vv by auto
  with v show ?thesis
    by (simp only: ex ok word_less_nat_alt simp_thms)
qed

definition sample_answers :: SdkAnswers where
  "sample_answers = \<lparr>sdk_allocated = True, sdk_bevent_error = 0, sdk_register_error = 0,
     sdk_register_callbacks = [(\<lambda>ua. False, sample_context, BEVENT_REGISTERING,
       Some \<lparr>sdk_ua = 9, sdk_call = 0\<rparr>)],
     sdk_unregister_callbacks = [], sdk_ua_registered = (\<lambda>ua. False)\<rparr>"

definition sample_gateway :: BaresipSdkRegistrationGateway where
  "sample_gateway = snd (arm_registration_deadline True (snd (the (gateway_submit 1 True
     sample_answers (new_gateway 0 empty_adapter) 9))) 100 5000)"

lemma new_gateway_inv: "gateway_inv (new_gateway po empty_adapter)"
  using adapter_inv_empty
  by (simp add: gateway_inv_def new_gateway_def adapter_active_def empty_adapter_def)

lemma sample_gateway_inv: "gateway_inv sample_gateway"
proof -
  obtain r gw where g: "gateway_submit 1 True sample_answers (new_gateway 0 empty_adapter) 9 =
      Some (r, gw)" "gateway_inv gw"
    by (rule gateway_submit_inv [OF new_gateway_inv])
  then show ?thesis
    using arm_deadline_inv(1) [OF g(2) prod.collapse [symmetric]] by (simp add: sample_gateway_def)
qed

theorem deadline_verdicts_witness:
  "fst (the (poll_registration_deadline 1 True sample_answers sample_gateway 5100)) =
     RegistrationDeadlineVerdict.Expired"
proof -
  let ?p = "poll_registration_deadline 1 True sample_answers sample_gateway 5100"
  have p: "?p = Some (fst (the ?p), snd (the ?p))"
    using poll_deadline_inv [OF sample_gateway_inv, of 1 sample_answers 5100]
    by (metis option.sel prod.collapse)
  have d: "dl_armed (gw_deadline sample_gateway)" by code_simp
  have e: "dl_session (gw_deadline sample_gateway) = adapter_session (gw_bridge sample_gateway)"
    by code_simp
  have "dl_started_ms (gw_deadline sample_gateway) = 100" by code_simp
  moreover have "dl_max_wait_ms (gw_deadline sample_gateway) = 5000" by code_simp
  ultimately show ?thesis
    using deadline_verdicts [OF sample_gateway_inv refl d e p] by simp
qed

end
