(* ===== verification/Registration_Dispatcher.thy ===== *)
theory Registration_Dispatcher
  imports Registration_Gateway
begin

text \<open>
  The dispatcher of registration commands, \<open>baresip_registration_command_dispatcher.h\<close>: one
  \<open>tick\<close> of the event-loop thread. The queue is shared with the UI threads. \<open>ui n\<close> lists what
  they do to it before the dispatcher's \<open>n\<close>-th access within the tick (submissions and
  cancellations: the other operations belong to the owner).
\<close>

section \<open>One tick\<close>

datatype RegistrationDispatchKind =
    Idle | Submitted | Cancelled | DeadlineExpired | Confirmed | Failed | OverflowStopped
  | WrongOwnerThread | StaleGeneration | Pending | SupersededDuringDispatch

record RegistrationDispatchOutcome =
  out_kind :: RegistrationDispatchKind
  out_submission :: NativeRegistrationSubmission

text \<open>\<open>{kind, {}}\<close>: the enumeration is value-initialised to its first enumerator.\<close>

definition outcome :: "RegistrationDispatchKind \<Rightarrow> RegistrationDispatchOutcome" where
  "outcome kind =
     \<lparr>out_kind = kind, out_submission = NativeRegistrationSubmission.InvalidAccount\<rparr>"

definition default_outcome :: RegistrationDispatchOutcome where
  "default_outcome = \<lparr>out_kind = RegistrationDispatchKind.Idle,
     out_submission = NativeRegistrationSubmission.BridgeUnavailable\<rparr>"

type_synonym dispatcher_state = "RegistrationCommandQueue \<times> BaresipSdkRegistrationGateway"

text \<open>\<open>gateway_.stop(); queue_.invalidate(); return ...\<close>; \<open>ui\<close> acts between the two.\<close>

definition abort_dispatch ::
    "u64 \<Rightarrow> SdkAnswers \<Rightarrow> QueueOp list \<Rightarrow> RegistrationDispatchOutcome \<Rightarrow> dispatcher_state \<Rightarrow>
     (RegistrationDispatchOutcome \<times> dispatcher_state) option" where
  "abort_dispatch self sdk ui result = (\<lambda>(q, gw).
     case gateway_stop self True sdk gw of
       None \<Rightarrow> None
     | Some (_, gw') \<Rightarrow> Some (result, queue_invalidate (queue_run q ui), gw'))"

text \<open>
  The loop over the commands of the batch. \<open>Inl\<close> is an early return, \<open>Inr\<close> the result the loop
  leaves. One iteration makes four accesses to the queue: three checks and the invalidation.
\<close>

fun tick_commands ::
    "u64 \<Rightarrow> SdkAnswers \<Rightarrow> (nat \<Rightarrow> QueueOp list) \<Rightarrow> nat \<Rightarrow> u64 \<Rightarrow> u64 \<Rightarrow> u64 \<Rightarrow> RegistrationBatch \<Rightarrow>
     RegistrationCommand list \<Rightarrow> RegistrationDispatchOutcome \<Rightarrow> dispatcher_state \<Rightarrow>
     ((RegistrationDispatchOutcome \<times> dispatcher_state) +
      (RegistrationDispatchOutcome \<times> dispatcher_state)) option" where
  "tick_commands self sdk ui n generation monotonic_ms selected batch [] result st =
     Some (Inr (result, st))"
| "tick_commands self sdk ui n generation monotonic_ms selected batch (command # commands) result
     (q, gw) =
     (if cmd_generation command \<noteq> generation
      then map_option Inl (abort_dispatch self sdk (ui n)
             (outcome RegistrationDispatchKind.Failed) (q, gw))
      else if cmd_kind command = RegistrationCommandKind.Cancel
      then map_option Inl (abort_dispatch self sdk (ui n)
             (outcome RegistrationDispatchKind.Cancelled) (q, gw))
      else (let q = queue_run q (ui n) in
        if \<not> still_admitted q batch
        then map_option Inl (abort_dispatch self sdk (ui (n + 1))
               (outcome RegistrationDispatchKind.SupersededDuringDispatch) (q, gw))
        else (case gateway_submit self True sdk gw selected of
          None \<Rightarrow> None
        | Some (submitted, gw) \<Rightarrow>
            (let q = queue_run q (ui (n + 1)) in
             if \<not> still_admitted q batch
             then map_option Inl (abort_dispatch self sdk (ui (n + 2))
                    \<lparr>out_kind = RegistrationDispatchKind.SupersededDuringDispatch,
                     out_submission = submitted\<rparr> (q, gw))
             else (let (armed, gw) =
                     (if submitted \<noteq> NativeRegistrationSubmission.Submitted then (False, gw)
                      else arm_registration_deadline True gw monotonic_ms
                             (ucast (cmd_timeout_ms command)))
                   in if \<not> armed
                      then map_option Inl (abort_dispatch self sdk (ui (n + 2))
                             \<lparr>out_kind = RegistrationDispatchKind.Failed,
                              out_submission = submitted\<rparr> (q, gw))
                      else (let q = queue_run q (ui (n + 2)) in
                            if \<not> still_admitted q batch
                            then map_option Inl (abort_dispatch self sdk (ui (n + 3))
                                   \<lparr>out_kind = RegistrationDispatchKind.SupersededDuringDispatch,
                                    out_submission = submitted\<rparr> (q, gw))
                            else tick_commands self sdk ui (n + 4) generation monotonic_ms selected
                                   batch commands
                                   \<lparr>out_kind = RegistrationDispatchKind.Submitted,
                                    out_submission = submitted\<rparr> (q, gw)))))))"

definition tick_deadline ::
    "u64 \<Rightarrow> SdkAnswers \<Rightarrow> QueueOp list \<Rightarrow> u64 \<Rightarrow> RegistrationBatch \<Rightarrow> RegistrationDispatchOutcome \<Rightarrow>
     dispatcher_state \<Rightarrow> (RegistrationDispatchOutcome \<times> dispatcher_state) option" where
  "tick_deadline self sdk ui monotonic_ms batch result = (\<lambda>(q, gw).
     case poll_registration_deadline self True sdk gw monotonic_ms of
       None \<Rightarrow> None
     | Some (deadline, gw) \<Rightarrow>
         Some (if deadline \<in> {RegistrationDeadlineVerdict.Expired,
                    RegistrationDeadlineVerdict.ClockRegressed,
                    RegistrationDeadlineVerdict.SessionRevoked}
               then (outcome RegistrationDispatchKind.DeadlineExpired,
                     queue_invalidate (queue_run q ui), gw)
               else if deadline = RegistrationDeadlineVerdict.CallbackConfirmed
               then (outcome RegistrationDispatchKind.Confirmed, q, gw)
               else if deadline = RegistrationDeadlineVerdict.Pending
               then (if rb_size batch \<noteq> 0 then result
                     else outcome RegistrationDispatchKind.Pending, q, gw)
               else (result, q, gw)))"

definition dispatcher_tick ::
    "u64 \<Rightarrow> bool \<Rightarrow> SdkAnswers \<Rightarrow> (nat \<Rightarrow> QueueOp list) \<Rightarrow> dispatcher_state \<Rightarrow> u64 \<Rightarrow> u64 \<Rightarrow> u64 \<Rightarrow>
     (RegistrationDispatchOutcome \<times> dispatcher_state) option" where
  "dispatcher_tick self is_owner sdk ui st generation monotonic_ms selected =
     (if \<not> is_owner then Some (outcome RegistrationDispatchKind.WrongOwnerThread, st)
      else (let (batch, q) = queue_drain (fst st) generation; gw = snd st in
        if rb_generation batch \<noteq> generation \<or> generation = 0
        then Some (outcome RegistrationDispatchKind.StaleGeneration, (q, gw))
        else if rb_overflow batch
        then abort_dispatch self sdk (ui 0) (outcome RegistrationDispatchKind.OverflowStopped)
               (q, gw)
        else (case tick_commands self sdk ui 0 generation monotonic_ms selected batch
                     (take (rb_size batch) (rb_commands batch)) default_outcome (q, gw) of
                None \<Rightarrow> None
              | Some (Inl r) \<Rightarrow> Some r
              | Some (Inr (result, st')) \<Rightarrow>
                  tick_deadline self sdk (ui (4 * rb_size batch)) monotonic_ms batch result st')))"

section \<open>The tick fails closed\<close>

text \<open>The outcomes after which nothing of the registration is left.\<close>

definition closing_kind :: "RegistrationDispatchKind \<Rightarrow> bool" where
  "closing_kind k \<longleftrightarrow> k \<in> {RegistrationDispatchKind.Cancelled,
     RegistrationDispatchKind.DeadlineExpired, RegistrationDispatchKind.Failed,
     RegistrationDispatchKind.OverflowStopped, RegistrationDispatchKind.SupersededDuringDispatch}"

definition closed_state :: "dispatcher_state \<Rightarrow> bool" where
  "closed_state = (\<lambda>(q, gw). gateway_idle gw \<and> \<not> rq_open q \<and> rq_size q = 0 \<and> \<not> rq_overflow q)"

lemma invalidate_closed [simp]:
  "\<not> rq_open (queue_invalidate q)" "rq_size (queue_invalidate q) = 0"
  "\<not> rq_overflow (queue_invalidate q)"
  by (simp_all add: queue_invalidate_def)

lemma abort_closed:
  assumes "gateway_inv gw"
  obtains st' where "abort_dispatch self sdk ui result (q, gw) = Some (result, st')"
    "closed_state st'" "gateway_inv (snd st')"
proof -
  obtain gw' where "gateway_stop self True sdk gw = Some (True, gw')" "gateway_inv gw'"
    "gateway_idle gw'" by (rule gateway_stop_idle [OF assms])
  with that [of "(queue_invalidate (queue_run q ui), gw')"] show thesis
    by (simp add: abort_dispatch_def closed_state_def)
qed

text \<open>The loop's answer: an early return is a closing outcome in a closed state; otherwise every
  command was executed, and the last check found the batch admitted.\<close>

definition loop_answer ::
    "RegistrationBatch \<Rightarrow> RegistrationCommand list \<Rightarrow> RegistrationDispatchOutcome \<Rightarrow> dispatcher_state \<Rightarrow>
     ((RegistrationDispatchOutcome \<times> dispatcher_state) +
      (RegistrationDispatchOutcome \<times> dispatcher_state)) option \<Rightarrow> bool" where
  "loop_answer batch commands result st ans \<longleftrightarrow>
     (case ans of
        None \<Rightarrow> False
      | Some (Inl (out, st')) \<Rightarrow>
          closing_kind (out_kind out) \<and> closed_state st' \<and> gateway_inv (snd st')
      | Some (Inr (out, st')) \<Rightarrow>
          gateway_inv (snd st') \<and>
          (if commands = [] then out = result \<and> st' = st
           else out_kind out = RegistrationDispatchKind.Submitted \<and>
                out_submission out = NativeRegistrationSubmission.Submitted \<and>
                still_admitted (fst st') batch \<and> gateway_submitted True (snd st') \<and>
                dl_armed (gw_deadline (snd st'))))"

lemma loop_answer_nonempty:
  "commands \<noteq> [] \<Longrightarrow> commands' \<noteq> [] \<Longrightarrow>
     loop_answer batch commands result st ans = loop_answer batch commands' result' st' ans"
  by (simp add: loop_answer_def split: option.split sum.split)

lemma loop_abort:
  assumes "gateway_inv gw" "closing_kind (out_kind out)"
  shows "loop_answer batch commands result st
    (map_option Inl (abort_dispatch self sdk ui out (q, gw)))"
proof -
  obtain st' where "abort_dispatch self sdk ui out (q, gw) = Some (out, st')"
    "closed_state st'" "gateway_inv (snd st')" by (rule abort_closed [OF assms(1)])
  with assms(2) show ?thesis by (simp add: loop_answer_def)
qed

lemma tick_commands_answer:
  "gateway_inv (snd st) \<Longrightarrow> loop_answer batch commands result st
     (tick_commands self sdk ui n generation now selected batch commands result st)"
proof (induction commands arbitrary: n result st)
  case Nil
  then show ?case by (simp add: loop_answer_def)
next
  case (Cons command commands)
  obtain q gw where st: "st = (q, gw)" by fastforce
  let ?q1 = "queue_run q (ui n)"
  have gi: "gateway_inv gw" using Cons.prems st by simp
  obtain submitted gw1 where sub: "gateway_submit self True sdk gw selected = Some (submitted, gw1)"
    "gateway_inv gw1" "submitted = NativeRegistrationSubmission.Submitted \<longrightarrow>
       gateway_submitted True gw1 \<and> gw_owner gw = 0 \<and> \<not> dl_armed (gw_deadline gw1)"
    by (rule gateway_submit_inv [OF gi])
  let ?q2 = "queue_run ?q1 (ui (n + 1))" and ?q3 = "queue_run (queue_run ?q1 (ui (n + 1))) (ui (n + 2))"
  obtain armed gw2 where arm: "(if submitted \<noteq> NativeRegistrationSubmission.Submitted then (False, gw1)
      else arm_registration_deadline True gw1 now (ucast (cmd_timeout_ms command))) = (armed, gw2)"
    by (metis surj_pair)
  have g2: "gateway_inv gw2"
    using arm sub(2) arm_deadline_inv(1) by (auto split: if_splits)
  have live: "submitted = NativeRegistrationSubmission.Submitted" "gateway_submitted True gw2"
    "dl_armed (gw_deadline gw2)" if "armed"
  proof -
    show s: "submitted = NativeRegistrationSubmission.Submitted" using arm that by (auto split: if_splits)
    then have a: "arm_registration_deadline True gw1 now (ucast (cmd_timeout_ms command)) = (True, gw2)"
      using arm that by simp
    show "gateway_submitted True gw2" "dl_armed (gw_deadline gw2)"
      using arm_deadline_inv [OF sub(2) a] sub(3) s by (auto simp: gateway_submitted_def)
  qed
  let ?next = "tick_commands self sdk ui (n + 4) generation now selected batch commands
    \<lparr>out_kind = RegistrationDispatchKind.Submitted, out_submission = submitted\<rparr> (?q3, gw2)"
  have eq: "tick_commands self sdk ui n generation now selected batch (command # commands) result (q, gw) =
    (if cmd_generation command \<noteq> generation
     then map_option Inl (abort_dispatch self sdk (ui n) (outcome RegistrationDispatchKind.Failed) (q, gw))
     else if cmd_kind command = RegistrationCommandKind.Cancel
     then map_option Inl (abort_dispatch self sdk (ui n) (outcome RegistrationDispatchKind.Cancelled) (q, gw))
     else if \<not> still_admitted ?q1 batch
     then map_option Inl (abort_dispatch self sdk (ui (n + 1))
       (outcome RegistrationDispatchKind.SupersededDuringDispatch) (?q1, gw))
     else if \<not> still_admitted ?q2 batch
     then map_option Inl (abort_dispatch self sdk (ui (n + 2))
       \<lparr>out_kind = RegistrationDispatchKind.SupersededDuringDispatch, out_submission = submitted\<rparr> (?q2, gw1))
     else if \<not> armed
     then map_option Inl (abort_dispatch self sdk (ui (n + 2))
       \<lparr>out_kind = RegistrationDispatchKind.Failed, out_submission = submitted\<rparr> (?q2, gw2))
     else if \<not> still_admitted ?q3 batch
     then map_option Inl (abort_dispatch self sdk (ui (n + 3))
       \<lparr>out_kind = RegistrationDispatchKind.SupersededDuringDispatch, out_submission = submitted\<rparr> (?q3, gw2))
     else ?next)"
    by (simp add: sub(1) arm Let_def)
  have next_ok: "loop_answer batch (command # commands) result st ?next"
    if "armed" "still_admitted ?q3 batch"
  proof (cases "commands = []")
    case True
    then show ?thesis using live that g2 by (simp add: loop_answer_def)
  next
    case False
    have "loop_answer batch commands
        \<lparr>out_kind = RegistrationDispatchKind.Submitted, out_submission = submitted\<rparr> (?q3, gw2) ?next"
      by (rule Cons.IH) (use g2 in simp)
    with loop_answer_nonempty [OF False list.distinct(2)] show ?thesis by blast
  qed
  have k: "closing_kind RegistrationDispatchKind.Failed"
    "closing_kind RegistrationDispatchKind.Cancelled"
    "closing_kind RegistrationDispatchKind.SupersededDuringDispatch"
    by (simp_all add: closing_kind_def)
  show ?case
    unfolding st eq
    using next_ok st k gi sub(2) g2 by (simp add: loop_abort outcome_def)
qed

lemma tick_deadline_answer:
  assumes "gateway_inv gw"
  obtains out q' gw' where "tick_deadline self sdk ui now batch result (q, gw) = Some (out, q', gw')"
    "gateway_inv gw'"
    "closing_kind (out_kind out) \<longrightarrow> closed_state (q', gw') \<or> out = result \<and> q' = q"
    "out_kind out = RegistrationDispatchKind.Submitted \<longrightarrow> out = result \<and> q' = q \<and>
       (dl_armed (gw_deadline gw) \<longrightarrow> gw' = gw)"
    "out_kind out = RegistrationDispatchKind.Confirmed \<longrightarrow>
       out = result \<or> native_register_ok_seen (sdk_ua_registered sdk) (gw_bridge gw) \<and>
       gw_bridge gw' = gw_bridge gw"
proof -
  obtain v gw' where p: "poll_registration_deadline self True sdk gw now = Some (v, gw')"
    "gateway_inv gw'"
    "v = deadline_check (gw_deadline gw) (adapter_session (gw_bridge gw)) now
       (native_register_ok_seen (sdk_ua_registered sdk) (gw_bridge gw))"
    "if v \<in> {RegistrationDeadlineVerdict.Expired, RegistrationDeadlineVerdict.ClockRegressed,
         RegistrationDeadlineVerdict.SessionRevoked}
     then gateway_idle gw' else gw_bridge gw' = gw_bridge gw \<and> gw_owner gw' = gw_owner gw"
    by (rule poll_deadline_inv [OF assms])
  have same: "v \<noteq> RegistrationDeadlineVerdict.Expired \<Longrightarrow>
      v \<noteq> RegistrationDeadlineVerdict.ClockRegressed \<Longrightarrow>
      v \<noteq> RegistrationDeadlineVerdict.SessionRevoked \<Longrightarrow>
      v \<noteq> RegistrationDeadlineVerdict.CallbackConfirmed \<Longrightarrow> gw' = gw"
    using p(1) unfolding p(3)
    by (simp add: poll_registration_deadline_def Let_def
        split: RegistrationDeadlineVerdict.splits)
  have armed: "dl_armed (gw_deadline gw) \<Longrightarrow> v \<noteq> RegistrationDeadlineVerdict.Unarmed"
    and confirmed: "v = RegistrationDeadlineVerdict.CallbackConfirmed \<Longrightarrow>
      native_register_ok_seen (sdk_ua_registered sdk) (gw_bridge gw)"
    using p(3) by (auto simp: deadline_check_def split: if_splits)
  have "tick_deadline self sdk ui now batch result (q, gw) \<noteq> None"
    using p(1) by (simp add: tick_deadline_def)
  then obtain out q' gw2 where
    t: "tick_deadline self sdk ui now batch result (q, gw) = Some (out, q', gw2)"
    by (metis not_None_eq surj_pair)
  have gw2: "gw2 = gw'" using t p(1) by (auto simp: tick_deadline_def split: if_splits)
  show thesis
    by (rule that [OF t])
      (use t p(1,2,4) same armed confirmed gw2 in
        \<open>auto simp: tick_deadline_def outcome_def closing_kind_def closed_state_def split: if_splits\<close>)
qed

text \<open>The tick returns, in a state its outcome describes.\<close>

lemma tick_returns:
  assumes "gateway_inv (snd st)"
  shows "\<exists>out st'. dispatcher_tick self True sdk ui st generation now selected = Some (out, st') \<and>
    gateway_inv (snd st') \<and>
    (closing_kind (out_kind out) \<longrightarrow> closed_state st') \<and>
    (out_kind out = RegistrationDispatchKind.Submitted \<longrightarrow>
       gateway_submitted True (snd st') \<and> dl_armed (gw_deadline (snd st')) \<and>
       still_admitted (fst st') (fst (queue_drain (fst st) generation))) \<and>
    (out_kind out = RegistrationDispatchKind.Confirmed \<longrightarrow>
       native_register_ok_seen (sdk_ua_registered sdk) (gw_bridge (snd st')))"
proof -
  obtain batch q where d: "queue_drain (fst st) generation = (batch, q)" by fastforce
  let ?cmds = "take (rb_size batch) (rb_commands batch)" and ?gw = "snd st"
  consider (stale) "rb_generation batch \<noteq> generation \<or> generation = 0"
    | (overflow) "\<not> (rb_generation batch \<noteq> generation \<or> generation = 0)" "rb_overflow batch"
    | (go) "\<not> (rb_generation batch \<noteq> generation \<or> generation = 0)" "\<not> rb_overflow batch" by blast
  then show ?thesis
  proof cases
    case stale
    then have "dispatcher_tick self True sdk ui st generation now selected =
        Some (outcome RegistrationDispatchKind.StaleGeneration, (q, ?gw))"
      using d by (simp add: dispatcher_tick_def)
    with assms show ?thesis by (simp add: outcome_def closing_kind_def)
  next
    case overflow
    obtain st' where "abort_dispatch self sdk (ui 0) (outcome RegistrationDispatchKind.OverflowStopped)
        (q, ?gw) = Some (outcome RegistrationDispatchKind.OverflowStopped, st')" "closed_state st'"
      "gateway_inv (snd st')" by (rule abort_closed [OF assms])
    with overflow d show ?thesis by (simp add: dispatcher_tick_def outcome_def)
  next
    case go
    let ?loop = "tick_commands self sdk ui 0 generation now selected batch ?cmds default_outcome (q, ?gw)"
    have tick: "dispatcher_tick self True sdk ui st generation now selected =
        (case ?loop of None \<Rightarrow> None | Some (Inl r) \<Rightarrow> Some r | Some (Inr (result, st')) \<Rightarrow>
           tick_deadline self sdk (ui (4 * rb_size batch)) now batch result st')"
      using go d by (simp add: dispatcher_tick_def)
    have ans: "loop_answer batch ?cmds default_outcome (q, ?gw) ?loop"
      by (rule tick_commands_answer) (use assms in simp)
    show ?thesis
    proof (cases ?loop)
      case None
      with ans show ?thesis by (simp add: loop_answer_def)
    next
      case (Some r)
      show ?thesis
      proof (cases r)
        case (Inl early)
        with Some ans tick show ?thesis
          by (cases early) (auto simp: loop_answer_def closing_kind_def)
      next
        case (Inr cont)
        obtain result q1 gw1 where c: "cont = (result, (q1, gw1))" by (metis surj_pair)
        have g1: "gateway_inv gw1" and nonempty: "?cmds \<noteq> [] \<Longrightarrow>
            out_kind result = RegistrationDispatchKind.Submitted \<and> still_admitted q1 batch \<and>
            gateway_submitted True gw1 \<and> dl_armed (gw_deadline gw1)"
          and blank: "?cmds = [] \<Longrightarrow> result = default_outcome"
          using ans Some Inr c by (simp_all add: loop_answer_def)
        then have result: "\<not> closing_kind (out_kind result)"
          "out_kind result \<noteq> RegistrationDispatchKind.Confirmed"
          by (cases "?cmds = []"; auto simp: default_outcome_def closing_kind_def)+
        have sub: "out_kind result = RegistrationDispatchKind.Submitted \<Longrightarrow>
            still_admitted q1 batch \<and> gateway_submitted True gw1 \<and> dl_armed (gw_deadline gw1)"
          using nonempty blank by (cases "?cmds = []") (auto simp: default_outcome_def)
        obtain out q2 gw2 where t:
          "tick_deadline self sdk (ui (4 * rb_size batch)) now batch result (q1, gw1) =
             Some (out, q2, gw2)" "gateway_inv gw2"
          "closing_kind (out_kind out) \<longrightarrow> closed_state (q2, gw2) \<or> out = result \<and> q2 = q1"
          "out_kind out = RegistrationDispatchKind.Submitted \<longrightarrow> out = result \<and> q2 = q1 \<and>
             (dl_armed (gw_deadline gw1) \<longrightarrow> gw2 = gw1)"
          "out_kind out = RegistrationDispatchKind.Confirmed \<longrightarrow>
             out = result \<or> native_register_ok_seen (sdk_ua_registered sdk) (gw_bridge gw1) \<and>
             gw_bridge gw2 = gw_bridge gw1"
          by (rule tick_deadline_answer [OF g1])
        have "dispatcher_tick self True sdk ui st generation now selected = Some (out, q2, gw2)"
          using tick Some Inr c t(1) by simp
        with t result sub d show ?thesis by auto
      qed
    qed
  qed
qed

section \<open>Properties\<close>

text \<open>
  C18. A tick returns, and fails closed. Whatever the SDK answers and whatever other threads do
  to the queue meanwhile, a tick on the owner thread returns. If its outcome is a cancellation,
  an expiry, a failure, an overflow or a supersession, nothing is left: the gateway has no agent,
  no deadline and no live session, and the queue is closed and empty. If it is \<open>Submitted\<close>, the
  gateway's agent is live with an armed deadline and the batch executed was still admitted at
  the last look at the queue. If it is \<open>Confirmed\<close>, a \<open>REGISTER_OK\<close> was seen in the live session
  and the SDK reports the agent registered.
\<close>

theorem tick_fails_closed:
  assumes "gateway_inv (snd st)"
  shows "\<exists>out st'. dispatcher_tick self True sdk ui st generation now selected = Some (out, st') \<and>
    gateway_inv (snd st') \<and>
    (closing_kind (out_kind out) \<longrightarrow> closed_state st') \<and>
    (out_kind out = RegistrationDispatchKind.Submitted \<longrightarrow>
       gateway_submitted True (snd st') \<and> dl_armed (gw_deadline (snd st')) \<and>
       still_admitted (fst st') (fst (queue_drain (fst st) generation))) \<and>
    (out_kind out = RegistrationDispatchKind.Confirmed \<longrightarrow>
       native_register_ok_seen (sdk_ua_registered sdk) (gw_bridge (snd st')))"
  by (rule tick_returns [OF assms])

theorem tick_fails_closed_witness:
  "\<exists>out st'. dispatcher_tick 1 True sample_answers (\<lambda>n. if n = 1 then [OpCancel 1] else [])
       (sample_queue, new_gateway 0 empty_adapter) 1 100 9 = Some (out, st') \<and>
     out_kind out = RegistrationDispatchKind.SupersededDuringDispatch \<and> closed_state st'"
proof -
  let ?t = "dispatcher_tick 1 True sample_answers (\<lambda>n. if n = 1 then [OpCancel 1] else [])
       (sample_queue, new_gateway 0 empty_adapter) 1 100 9"
  have k: "map_option (\<lambda>r. out_kind (fst r)) ?t = Some RegistrationDispatchKind.SupersededDuringDispatch"
    by code_simp
  have g: "gateway_inv (snd (sample_queue, new_gateway 0 empty_adapter))"
    using new_gateway_inv by simp
  obtain out st' where t: "?t = Some (out, st')" "closing_kind (out_kind out) \<longrightarrow> closed_state st'"
    using tick_fails_closed [OF g, of 1 sample_answers "\<lambda>n. if n = 1 then [OpCancel 1] else []" 1 100 9]
    by blast
  with k show ?thesis by (auto simp: closing_kind_def)
qed

end
