(* ===== verification/Sip_Address.thy ===== *)
theory Sip_Address
  imports Sip_Runtime
begin

text \<open>
  Syntax checks on what the user types: \<open>sip_host.h\<close>, \<open>sip_address.cpp\<close>, \<open>sip_account.h\<close>,
  \<open>account_form_feedback.h\<close>, \<open>destination_feedback.h\<close>, \<open>sip_registration_policy.h\<close>,
  \<open>sip_security_policy.h\<close> and \<open>codec_policy.h\<close>.

  \<open>iswspace\<close>, \<open>iswcntrl\<close> and \<open>iswdigit\<close> depend on the C library beyond ASCII. They are the record
  \<open>wctype\<close>, an argument; \<open>ascii_ctype\<close> says that they classify the ASCII characters as the C
  standard demands, and \<open>c_locale\<close> is an instance.
\<close>

section \<open>Characters\<close>

record wctype =
  ct_space :: "wchar \<Rightarrow> bool"
  ct_cntrl :: "wchar \<Rightarrow> bool"
  ct_digit :: "wchar \<Rightarrow> bool"

definition ascii_digit :: "wchar \<Rightarrow> bool" where
  "ascii_digit c \<longleftrightarrow> wc CHR ''0'' \<le> c \<and> c \<le> wc CHR ''9''"

definition ascii_alnum :: "wchar \<Rightarrow> bool" where
  "ascii_alnum c \<longleftrightarrow> (wc CHR ''a'' \<le> c \<and> c \<le> wc CHR ''z'') \<or>
     (wc CHR ''A'' \<le> c \<and> c \<le> wc CHR ''Z'') \<or> ascii_digit c"

definition ascii_ctype :: "wctype \<Rightarrow> bool" where
  "ascii_ctype ct \<longleftrightarrow> (\<forall>c < 128.
     (ct_space ct c \<longleftrightarrow> 9 \<le> c \<and> c \<le> 13 \<or> c = 32) \<and>
     (ct_cntrl ct c \<longleftrightarrow> c < 32 \<or> c = 127) \<and>
     (ct_digit ct c \<longleftrightarrow> ascii_digit c))"

definition c_locale :: wctype where
  "c_locale = \<lparr>ct_space = (\<lambda>c. 9 \<le> c \<and> c \<le> 13 \<or> c = 32), ct_cntrl = (\<lambda>c. c < 32 \<or> c = 127),
     ct_digit = ascii_digit\<rparr>"

lemma ascii_c_locale [simp]: "ascii_ctype c_locale"
  by (simp add: ascii_ctype_def c_locale_def)

lemma ascii_digit_alnum: "ascii_digit c \<Longrightarrow> ascii_alnum c"
  by (simp add: ascii_alnum_def)

section \<open>Host names\<close>

text \<open>The loop of \<open>valid_sip_host\<close>: the length of the current label, and whether its last
  character is alphanumeric.\<close>

fun host_scan :: "nat \<Rightarrow> bool \<Rightarrow> wstr \<Rightarrow> bool" where
  "host_scan label last_alnum [] \<longleftrightarrow> label \<noteq> 0 \<and> last_alnum"
| "host_scan label last_alnum (c # cs) \<longleftrightarrow>
     (if c = wc CHR ''.''
      then (if label = 0 \<or> \<not> last_alnum then False else host_scan 0 False cs)
      else if \<not> ascii_alnum c \<and> (c \<noteq> wc CHR ''-'' \<or> label = 0) then False
      else if label + 1 > 63 then False
      else host_scan (label + 1) (ascii_alnum c) cs)"

definition valid_sip_host :: "wstr \<Rightarrow> bool" where
  "valid_sip_host host \<longleftrightarrow>
     (if host = [] \<or> length host > 253 then False else host_scan 0 False host)"

text \<open>The grammar it implements.\<close>

fun split_on :: "'a \<Rightarrow> 'a list \<Rightarrow> 'a list list" where
  "split_on x [] = [[]]"
| "split_on x (y # ys) =
     (if y = x then [] # split_on x ys
      else case split_on x ys of l # ls \<Rightarrow> (y # l) # ls | [] \<Rightarrow> [[y]])"

definition host_label :: "wstr \<Rightarrow> bool" where
  "host_label l \<longleftrightarrow> l \<noteq> [] \<and> length l \<le> 63 \<and>
     (\<forall>c \<in> set l. ascii_alnum c \<or> c = wc CHR ''-'') \<and> ascii_alnum (hd l) \<and> ascii_alnum (last l)"

definition dns_host :: "wstr \<Rightarrow> bool" where
  "dns_host h \<longleftrightarrow> length h \<le> 253 \<and> (\<forall>l \<in> set (split_on (wc CHR ''.'') h). host_label l)"

text \<open>A label that can still be continued.\<close>

definition open_label :: "wstr \<Rightarrow> bool" where
  "open_label p \<longleftrightarrow> length p \<le> 63 \<and> (\<forall>c \<in> set p. ascii_alnum c \<or> c = wc CHR ''-'') \<and>
     (p \<noteq> [] \<longrightarrow> ascii_alnum (hd p))"

lemma split_on_nonempty [simp]: "split_on x ys \<noteq> []"
  by (induction ys) (auto split: list.split)

lemma host_label_open: "host_label l \<longleftrightarrow> open_label l \<and> l \<noteq> [] \<and> ascii_alnum (last l)"
  by (auto simp: host_label_def open_label_def)

lemma open_label_snoc: "open_label (p @ [c]) \<longleftrightarrow>
    open_label p \<and> length p < 63 \<and> (ascii_alnum c \<or> c = wc CHR ''-'' \<and> p \<noteq> [])"
  by (cases p) (auto simp: open_label_def)

lemma host_label_prefix: "host_label (p @ l) \<Longrightarrow> open_label p"
  by (cases p) (auto simp: host_label_def open_label_def)

lemma host_scan_labels:
  assumes "open_label p"
  shows "host_scan (length p) (p \<noteq> [] \<and> ascii_alnum (last p)) h \<longleftrightarrow>
    host_label (p @ hd (split_on (wc CHR ''.'') h)) \<and>
    (\<forall>l \<in> set (tl (split_on (wc CHR ''.'') h)). host_label l)"
  using assms
proof (induction h arbitrary: p)
  case Nil
  then show ?case by (auto simp: host_label_open)
next
  case (Cons c h)
  obtain l ls where sp: "split_on (wc CHR ''.'') h = l # ls"
    using split_on_nonempty [of "wc CHR ''.''" h] by (cases "split_on (wc CHR ''.'') h") auto
  show ?case
  proof (cases "c = wc CHR ''.''")
    case True
    have "open_label []" by (simp add: open_label_def)
    from Cons.IH [OF this] True Cons.prems sp show ?thesis
      by (auto simp: host_label_open)
  next
    case False
    have s: "split_on (wc CHR ''.'') (c # h) = (c # l) # ls" using False sp by simp
    show ?thesis
    proof (cases "open_label (p @ [c])")
      case True
      from Cons.IH [OF True] True False sp s show ?thesis
        by (auto simp: open_label_snoc)
    next
      case no: False
      then have "\<not> host_label (p @ c # l)"
        using host_label_prefix [of "p @ [c]" l] by auto
      with no False Cons.prems s show ?thesis
        by (auto simp: open_label_snoc)
    qed
  qed
qed

lemma valid_sip_host_dns: "valid_sip_host h \<longleftrightarrow> dns_host h"
proof -
  have "open_label []" by (simp add: open_label_def)
  from host_scan_labels [OF this, of h]
  have "host_scan 0 False h \<longleftrightarrow> (\<forall>l \<in> set (split_on (wc CHR ''.'') h). host_label l)"
    using split_on_nonempty [of "wc CHR ''.''" h]
    by (cases "split_on (wc CHR ''.'') h") auto
  then show ?thesis
    by (auto simp: valid_sip_host_def dns_host_def host_label_def)
qed

lemma host_scan_chars:
  "host_scan n b h \<Longrightarrow> c \<in> set h \<Longrightarrow> ascii_alnum c \<or> c = wc CHR ''-'' \<or> c = wc CHR ''.''"
  by (induction n b h rule: host_scan.induct) (auto split: if_splits)

lemma valid_sip_host_chars:
  "valid_sip_host h \<Longrightarrow> c \<in> set h \<Longrightarrow> ascii_alnum c \<or> c = wc CHR ''-'' \<or> c = wc CHR ''.''"
  using host_scan_chars by (auto simp: valid_sip_host_def split: if_splits)

section \<open>Addresses\<close>

datatype AddressError =
  NoAddressError | Empty | Whitespace | InvalidScheme | InvalidUser | InvalidHost | InvalidPort

type_synonym AddressResult = "AddressError \<times> wstr"

text \<open>The value of a digit string, as the loops compute it.\<close>

definition digits_value :: "wstr \<Rightarrow> nat" where
  "digits_value s = foldl (\<lambda>n c. n * 10 + unat (c - wc CHR ''0'')) 0 s"

text \<open>The characters of \<open>L"<>\\\"?;"\<close>.\<close>

definition reserved_char :: "wchar \<Rightarrow> bool" where
  "reserved_char c \<longleftrightarrow> c \<in> set (W ''<>'') \<or> c = 92 \<or> c = 34 \<or> c = wc CHR ''?'' \<or> c = wc CHR '';''"

definition valid_port_text :: "wstr \<Rightarrow> bool" where
  "valid_port_text port \<longleftrightarrow> port \<noteq> [] \<and> length port \<le> 5 \<and> (\<forall>c \<in> set port. ascii_digit c) \<and>
     digits_value port \<noteq> 0 \<and> digits_value port \<le> 65535"

definition dial_char :: "wctype \<Rightarrow> wchar \<Rightarrow> bool" where
  "dial_char ct c \<longleftrightarrow> ct_digit ct c \<or> c = wc CHR ''+'' \<or> c = wc CHR ''*'' \<or> c = wc CHR ''#''"

text \<open>The part after the scheme; \<open>input\<close> is the whole text, \<open>has_scheme\<close> whether it has one.\<close>

definition validate_target :: "wctype \<Rightarrow> wstr \<Rightarrow> bool \<Rightarrow> wstr \<Rightarrow> AddressResult" where
  "validate_target ct input has_scheme value =
     (if value = [] then (AddressError.InvalidUser, [])
      else if \<exists>c \<in> set value. reserved_char c then (AddressError.InvalidUser, [])
      else (case find_idx (wc CHR ''@'') value of
          None \<Rightarrow>
            (if \<exists>c \<in> set value. \<not> dial_char ct c then (AddressError.InvalidUser, [])
             else (AddressError.NoAddressError, if has_scheme then input else value))
        | Some at \<Rightarrow>
            (if at = 0 \<or> at = length value - 1 \<or> wc CHR ''@'' \<in> set (drop (at + 1) value)
             then (AddressError.InvalidHost, [])
             else (let host = drop (at + 1) value in
               case find_idx (wc CHR '':'') host of
                 None \<Rightarrow>
                   (if \<not> valid_sip_host host then (AddressError.InvalidHost, [])
                    else (AddressError.NoAddressError,
                          if wc CHR '':'' \<in> set input then input else W ''sip:'' @ value))
               | Some port_colon \<Rightarrow>
                   (if \<not> valid_sip_host (take port_colon host) then (AddressError.InvalidHost, [])
                    else if \<not> valid_port_text (drop (port_colon + 1) host)
                    then (AddressError.InvalidPort, [])
                    else (AddressError.NoAddressError,
                          if wc CHR '':'' \<in> set input then input else W ''sip:'' @ value))))))"

definition validate_address :: "wctype \<Rightarrow> wstr \<Rightarrow> AddressResult" where
  "validate_address ct input =
     (if input = [] then (AddressError.Empty, [])
      else if \<exists>c \<in> set input. ct_space ct c \<or> ct_cntrl ct c then (AddressError.Whitespace, [])
      else (case find_idx (wc CHR '':'') input of
          None \<Rightarrow> validate_target ct input False input
        | Some colon \<Rightarrow>
            (if take colon input \<noteq> W ''sip'' \<and> take colon input \<noteq> W ''sips''
             then (AddressError.InvalidScheme, [])
             else validate_target ct input True (drop (colon + 1) input))))"

section \<open>What is accepted\<close>

text \<open>A host with an optional port, a target after the scheme, and a normalised address.\<close>

definition host_port :: "wstr \<Rightarrow> bool" where
  "host_port s \<longleftrightarrow> (\<exists>host port. valid_sip_host host \<and>
     (s = host \<or> s = host @ wc CHR '':'' # port \<and> valid_port_text port))"

definition target_ok :: "wctype \<Rightarrow> wstr \<Rightarrow> bool" where
  "target_ok ct s \<longleftrightarrow> s \<noteq> [] \<and> (\<forall>c \<in> set s. \<not> reserved_char c) \<and>
     ((\<forall>c \<in> set s. dial_char ct c) \<and> wc CHR ''@'' \<notin> set s \<or>
      (\<exists>user hp. s = user @ wc CHR ''@'' # hp \<and> user \<noteq> [] \<and> wc CHR ''@'' \<notin> set user \<and>
         wc CHR ''@'' \<notin> set hp \<and> host_port hp))"

definition address_shape :: "wctype \<Rightarrow> wstr \<Rightarrow> bool" where
  "address_shape ct s \<longleftrightarrow> (\<forall>c \<in> set s. \<not> ct_space ct c \<and> \<not> ct_cntrl ct c) \<and>
     (wc CHR '':'' \<notin> set s \<and> wc CHR ''@'' \<notin> set s \<and> target_ok ct s \<or>
      (\<exists>scheme t. s = scheme @ wc CHR '':'' # t \<and> (scheme = W ''sip'' \<or> scheme = W ''sips'') \<and>
         target_ok ct t))"

lemma find_idx_split:
  "find_idx x s = Some i \<longleftrightarrow> (\<exists>a b. s = a @ x # b \<and> x \<notin> set a \<and> length a = i)"
proof
  assume "find_idx x s = Some i"
  then have i: "i < length s" "s ! i = x" "x \<notin> set (take i s)" by (simp_all add: find_idx_Some)
  then have "s = take i s @ x # drop (Suc i) s" by (metis id_take_nth_drop)
  with i show "\<exists>a b. s = a @ x # b \<and> x \<notin> set a \<and> length a = i"
    by (metis length_take min.absorb4)
next
  assume "\<exists>a b. s = a @ x # b \<and> x \<notin> set a \<and> length a = i"
  then show "find_idx x s = Some i" by (auto simp: find_idx_append_first)
qed

lemma first_split_unique:
  "x \<notin> set a \<Longrightarrow> x \<notin> set a' \<Longrightarrow> a @ x # b = a' @ x # b' \<longleftrightarrow> a = a' \<and> b = b'"
proof (induction a arbitrary: a')
  case Nil
  then show ?case by (cases a') auto
next
  case (Cons y a)
  then show ?case by (cases a') auto
qed

lemma colon_not_host: "valid_sip_host h \<Longrightarrow> wc CHR '':'' \<notin> set h"
  using valid_sip_host_chars [of h "wc CHR '':''"]
  by (auto simp: ascii_alnum_def ascii_digit_def)

lemma colon_not_port: "valid_port_text p \<Longrightarrow> wc CHR '':'' \<notin> set p"
  by (auto simp: valid_port_text_def ascii_digit_def)

lemma host_port_None:
  assumes "find_idx (wc CHR '':'') s = None" shows "host_port s \<longleftrightarrow> valid_sip_host s"
  using assms colon_not_host by (auto simp: host_port_def)

lemma host_port_Some:
  assumes "find_idx (wc CHR '':'') s = Some i"
  shows "host_port s \<longleftrightarrow> valid_sip_host (take i s) \<and> valid_port_text (drop (Suc i) s)"
proof -
  obtain a b where s: "s = a @ wc CHR '':'' # b" "wc CHR '':'' \<notin> set a" "length a = i"
    using assms by (auto simp only: find_idx_split)
  then have ab: "take i s = a" "drop (Suc i) s = b" by auto
  show ?thesis
  proof
    assume "host_port s"
    then obtain host port where hp: "valid_sip_host host"
      "s = host \<or> s = host @ wc CHR '':'' # port \<and> valid_port_text port"
      by (auto simp: host_port_def)
    then have e: "s = host @ wc CHR '':'' # port" "valid_port_text port"
      using colon_not_host [OF hp(1)] s(1) by auto
    have "host = a \<and> port = b"
      using e(1) s(1) first_split_unique [OF colon_not_host [OF hp(1)] s(2)] by metis
    with hp(1) e(2) ab show "valid_sip_host (take i s) \<and> valid_port_text (drop (Suc i) s)" by simp
  next
    assume "valid_sip_host (take i s) \<and> valid_port_text (drop (Suc i) s)"
    then show "host_port s" using s ab unfolding host_port_def by metis
  qed
qed

text \<open>The value the check returns for an accepted target.\<close>

definition normal_target :: "wstr \<Rightarrow> bool \<Rightarrow> wstr \<Rightarrow> wstr" where
  "normal_target input has_scheme value =
     (if wc CHR ''@'' \<in> set value
      then (if wc CHR '':'' \<in> set input then input else W ''sip:'' @ value)
      else if has_scheme then input else value)"

lemma validate_target_iff:
  "validate_target ct input has_scheme value = (AddressError.NoAddressError, n) \<longleftrightarrow>
     target_ok ct value \<and> n = normal_target input has_scheme value"
proof (cases "find_idx (wc CHR ''@'') value")
  case None
  then have "wc CHR ''@'' \<notin> set value" by simp
  then show ?thesis
    unfolding validate_target_def None option.case
    by (auto simp: target_ok_def normal_target_def)
next
  case (Some at)
  then obtain a b where s: "value = a @ wc CHR ''@'' # b" "wc CHR ''@'' \<notin> set a" "length a = at"
    by (auto simp only: find_idx_split)
  have parts: "drop (at + 1) value = b" "at = 0 \<longleftrightarrow> a = []" "at = length value - 1 \<longleftrightarrow> b = []"
    "wc CHR ''@'' \<in> set value"
    using s by auto
  have unique: "(\<exists>user hp. value = user @ wc CHR ''@'' # hp \<and> user \<noteq> [] \<and> wc CHR ''@'' \<notin> set user \<and>
      wc CHR ''@'' \<notin> set hp \<and> host_port hp) \<longleftrightarrow> a \<noteq> [] \<and> wc CHR ''@'' \<notin> set b \<and> host_port b"
    using s(1,2) first_split_unique [OF _ s(2)] by metis
  have tk: "target_ok ct value \<longleftrightarrow> (\<forall>c \<in> set value. \<not> reserved_char c) \<and> a \<noteq> [] \<and>
      wc CHR ''@'' \<notin> set b \<and> host_port b"
    using unique parts(4) s(1) unfolding target_ok_def by blast
  have hp: "\<not> host_port []" by (auto simp: host_port_def valid_sip_host_def)
  show ?thesis
  proof (cases "find_idx (wc CHR '':'') b")
    case None
    show ?thesis
      unfolding validate_target_def Some option.case Let_def parts(1) None
      using parts(2-4) tk hp host_port_None [OF None] by (auto simp: normal_target_def)
  next
    case colon: (Some i)
    show ?thesis
      unfolding validate_target_def Some option.case Let_def parts(1) colon
      using parts(2-4) tk hp host_port_Some [OF colon] by (auto simp: normal_target_def)
  qed
qed

lemma no_at_scheme: "wc CHR ''@'' \<notin> set (W ''sip'')" "wc CHR '':'' \<notin> set (W ''sip'')"
    "wc CHR '':'' \<notin> set (W ''sips'')" "W ''sip:'' = W ''sip'' @ [wc CHR '':'']"
  by (simp_all add: W_def)

lemma validate_address_colon:
  assumes "scheme = W ''sip'' \<or> scheme = W ''sips''"
    and "\<forall>c \<in> set (scheme @ wc CHR '':'' # t). \<not> ct_space ct c \<and> \<not> ct_cntrl ct c"
  shows "validate_address ct (scheme @ wc CHR '':'' # t) =
    validate_target ct (scheme @ wc CHR '':'' # t) True t"
proof -
  let ?s = "scheme @ wc CHR '':'' # t"
  have "find_idx (wc CHR '':'') ?s = Some (length scheme)"
    using assms(1) no_at_scheme by (intro find_idx_append_first) auto
  moreover have "take (length scheme) ?s = scheme" "drop (length scheme + 1) ?s = t" by simp_all
  moreover have "\<not> (\<exists>c \<in> set ?s. ct_space ct c \<or> ct_cntrl ct c)" using assms(2) by blast
  moreover have "?s \<noteq> []" by simp
  ultimately show ?thesis
    using assms(1) unfolding validate_address_def by (simp only: option.case if_False simp_thms) auto
qed

lemma sip_prefix_clean:
  assumes "ascii_ctype ct" "c \<in> set (W ''sip:'')"
  shows "\<not> ct_space ct c \<and> \<not> ct_cntrl ct c"
  using assms by (auto simp: W_def ascii_ctype_def)

lemma validate_address_cases:
  assumes "validate_address ct s = (AddressError.NoAddressError, n)"
  obtains (bare) "\<forall>c \<in> set s. \<not> ct_space ct c \<and> \<not> ct_cntrl ct c" "wc CHR '':'' \<notin> set s"
      "target_ok ct s" "wc CHR ''@'' \<notin> set s" "n = s"
    | (plain) "\<forall>c \<in> set s. \<not> ct_space ct c \<and> \<not> ct_cntrl ct c" "wc CHR '':'' \<notin> set s"
      "target_ok ct s" "wc CHR ''@'' \<in> set s" "n = W ''sip:'' @ s"
    | (scheme) scheme t where "\<forall>c \<in> set s. \<not> ct_space ct c \<and> \<not> ct_cntrl ct c"
      "s = scheme @ wc CHR '':'' # t" "scheme = W ''sip'' \<or> scheme = W ''sips''"
      "target_ok ct t" "n = s"
proof -
  have clean: "\<forall>c \<in> set s. \<not> ct_space ct c \<and> \<not> ct_cntrl ct c"
    using assms by (auto simp: validate_address_def split: if_splits)
  show thesis
  proof (cases "find_idx (wc CHR '':'') s")
    case None
    then have no: "wc CHR '':'' \<notin> set s" by simp
    have "validate_target ct s False s = (AddressError.NoAddressError, n)"
      using assms unfolding validate_address_def None option.case by (auto split: if_splits)
    then have t: "target_ok ct s" "n = normal_target s False s"
      unfolding validate_target_iff by blast+
    show thesis
      by (cases "wc CHR ''@'' \<in> set s")
        (use t no clean bare plain in \<open>auto simp: normal_target_def\<close>)
  next
    case (Some i)
    then obtain a b where s: "s = a @ wc CHR '':'' # b" "length a = i"
      by (auto simp only: find_idx_split)
    have ab: "take i s = a" "drop (i + 1) s = b" using s by auto
    have a: "a = W ''sip'' \<or> a = W ''sips''"
      and t: "validate_target ct s True b = (AddressError.NoAddressError, n)"
      using assms unfolding validate_address_def Some option.case ab by (auto split: if_splits)
    from t have t: "target_ok ct b" "n = normal_target s True b"
      unfolding validate_target_iff by blast+
    have "n = s" using t(2) s(1) by (simp add: normal_target_def)
    with scheme clean s(1) a t(1) show thesis by blast
  qed
qed

lemma validate_address_shape:
  assumes "address_shape ct s"
  shows "validate_address ct s = (AddressError.NoAddressError, s)"
proof -
  have clean: "\<forall>c \<in> set s. \<not> ct_space ct c \<and> \<not> ct_cntrl ct c"
    using assms by (simp add: address_shape_def)
  consider (bare) "wc CHR '':'' \<notin> set s" "wc CHR ''@'' \<notin> set s" "target_ok ct s"
    | (scheme) scheme t where "s = scheme @ wc CHR '':'' # t"
      "scheme = W ''sip'' \<or> scheme = W ''sips''" "target_ok ct t"
    using assms by (auto simp: address_shape_def)
  then show ?thesis
  proof cases
    case bare
    have "s \<noteq> []" using bare(3) by (auto simp: target_ok_def)
    moreover have "find_idx (wc CHR '':'') s = None" using bare(1) by simp
    moreover have "\<not> (\<exists>c \<in> set s. ct_space ct c \<or> ct_cntrl ct c)" using clean by blast
    ultimately have "validate_address ct s = validate_target ct s False s"
      unfolding validate_address_def by (simp only: option.case if_False simp_thms)
    moreover have "validate_target ct s False s = (AddressError.NoAddressError, s)"
      unfolding validate_target_iff using bare by (simp add: normal_target_def)
    ultimately show ?thesis by simp
  next
    case scheme
    have "validate_target ct s True t = (AddressError.NoAddressError, s)"
      unfolding validate_target_iff using scheme by (auto simp: normal_target_def)
    then show ?thesis
      using validate_address_colon [OF scheme(2)] clean scheme(1) by simp
  qed
qed

lemma normalized_shape:
  assumes "ascii_ctype ct" "validate_address ct s = (AddressError.NoAddressError, n)"
  shows "address_shape ct n"
  using assms(2)
proof (cases rule: validate_address_cases)
  case bare
  then show ?thesis by (simp add: address_shape_def)
next
  case plain
  have "\<forall>c \<in> set n. \<not> ct_space ct c \<and> \<not> ct_cntrl ct c"
    using plain(1,5) sip_prefix_clean [OF assms(1)] by auto
  moreover have "n = W ''sip'' @ wc CHR '':'' # s" using plain(5) no_at_scheme(4) by simp
  ultimately show ?thesis using plain(3) unfolding address_shape_def by blast
next
  case (scheme scheme t)
  then show ?thesis unfolding address_shape_def by blast
qed

section \<open>Accounts\<close>

datatype AccountError =
  NoAccountError | MissingServer | InvalidServer | MissingUser | InvalidUser | InvalidPort

definition account_char :: "wchar \<Rightarrow> bool" where
  "account_char c \<longleftrightarrow> ascii_alnum c \<or> c = wc CHR ''_'' \<or> c = wc CHR ''.'' \<or> c = wc CHR ''-'' \<or>
     c = wc CHR ''+''"

definition validate_account :: "SipAccount \<Rightarrow> AccountError" where
  "validate_account a =
     (if acc_server a = [] then AccountError.MissingServer
      else if acc_username a = [] then AccountError.MissingUser
      else if acc_port a = 0 then AccountError.InvalidPort
      else if \<not> valid_sip_host (acc_server a) then AccountError.InvalidServer
      else if \<exists>c \<in> set (acc_username a). \<not> account_char c then AccountError.InvalidUser
      else AccountError.NoAccountError)"

datatype AccountFeedbackKind = Incomplete | Invalid | Valid

record AccountFormFeedback =
  aff_kind :: AccountFeedbackKind
  aff_error :: AccountError
  aff_port :: "16 word"
  aff_message :: wstr

text \<open>The loop over the port text: \<open>Inl\<close> the message of the early return, \<open>Inr\<close> the number.
  \<open>unsigned long\<close> cannot overflow: the loop stops above 65535.\<close>

fun parse_port :: "nat \<Rightarrow> wstr \<Rightarrow> wstr + nat" where
  "parse_port n [] = Inr n"
| "parse_port n (digit # ds) =
     (if \<not> ascii_digit digit then Inl (W ''Porta SIP invalida: use apenas numeros.'')
      else (let n' = n * 10 + unat (digit - wc CHR ''0'') in
            if n' > 65535 then Inl (W ''Porta SIP fora do intervalo 1 a 65535.'')
            else parse_port n' ds))"

definition feedback :: "AccountFeedbackKind \<Rightarrow> AccountError \<Rightarrow> 16 word \<Rightarrow> wstr \<Rightarrow> AccountFormFeedback"
  where "feedback k e p m = \<lparr>aff_kind = k, aff_error = e, aff_port = p, aff_message = m\<rparr>"

definition evaluate_account_form :: "wstr \<Rightarrow> wstr \<Rightarrow> wstr \<Rightarrow> AccountFormFeedback" where
  "evaluate_account_form server username port_text =
     (if server = []
      then feedback AccountFeedbackKind.Incomplete AccountError.MissingServer 0
             (W ''Informe o servidor SIP (validacao local, sem registro).'')
      else if username = []
      then feedback AccountFeedbackKind.Incomplete AccountError.MissingUser 0
             (W ''Informe o usuario SIP (validacao local, sem registro).'')
      else if port_text = []
      then feedback AccountFeedbackKind.Incomplete AccountError.InvalidPort 0
             (W ''Informe a porta SIP (1 a 65535).'')
      else (case parse_port 0 port_text of
          Inl message \<Rightarrow>
            feedback AccountFeedbackKind.Invalid AccountError.InvalidPort 0 message
        | Inr parsed_port \<Rightarrow>
            (if parsed_port = 0
             then feedback AccountFeedbackKind.Invalid AccountError.InvalidPort 0
                    (W ''Porta SIP invalida: use 1 a 65535.'')
             else if wc CHR ''/'' \<in> set server
             then feedback AccountFeedbackKind.Invalid AccountError.InvalidServer 0
                    (W ''Servidor SIP: informe somente o host DNS/IP, sem https://, http:// ou barras.'')
             else (let error = validate_account (default_account\<lparr>acc_server := server,
                         acc_username := username, acc_port := of_nat parsed_port\<rparr>)
                   in if error = AccountError.InvalidServer
                      then feedback AccountFeedbackKind.Invalid error 0
                             (W ''Servidor SIP invalido: use nome DNS ou IP, sem espacos.'')
                      else if error = AccountError.InvalidUser
                      then feedback AccountFeedbackKind.Invalid error 0
                             (W ''Usuario SIP invalido: use letras ASCII, numeros e _ . - +.'')
                      else if error \<noteq> AccountError.NoAccountError
                      then feedback AccountFeedbackKind.Invalid error 0
                             (W ''Conta SIP invalida; revise servidor, usuario e porta.'')
                      else feedback AccountFeedbackKind.Valid AccountError.NoAccountError
                             (of_nat parsed_port)
                             (W ''Dados validos localmente. Registro SIP nao realizado.'')))))"

lemma digits_value_snoc: "digits_value (s @ [c]) = digits_value s * 10 + unat (c - wc CHR ''0'')"
  by (simp add: digits_value_def)

lemma foldl_digits_mono:
  "n \<le> foldl (\<lambda>n c. n * 10 + unat (c - wc CHR ''0'')) n ds"
proof (induction ds arbitrary: n)
  case Nil
  then show ?case by simp
next
  case (Cons d ds)
  have "n \<le> n * 10 + unat (d - wc CHR ''0'')" by simp
  also have "\<dots> \<le> foldl (\<lambda>n c. n * 10 + unat (c - wc CHR ''0'')) (n * 10 + unat (d - wc CHR ''0'')) ds"
    by (rule Cons.IH)
  finally show ?case by simp
qed

lemma parse_port_Inr:
  assumes "n \<le> 65535"
  shows "parse_port n ds = Inr m \<longleftrightarrow> (\<forall>d \<in> set ds. ascii_digit d) \<and>
    m = foldl (\<lambda>n c. n * 10 + unat (c - wc CHR ''0'')) n ds \<and> m \<le> 65535"
  using assms
proof (induction ds arbitrary: n)
  case Nil
  then show ?case by auto
next
  case (Cons d ds)
  let ?n = "n * 10 + unat (d - wc CHR ''0'')"
  show ?case
  proof (cases "?n \<le> 65535")
    case True
    with Cons.IH [OF True] show ?thesis by (auto simp: Let_def)
  next
    case False
    then have "\<not> foldl (\<lambda>n c. n * 10 + unat (c - wc CHR ''0'')) ?n ds \<le> 65535"
      using foldl_digits_mono [of ?n ds] by linarith
    with False show ?thesis by (auto simp: Let_def)
  qed
qed

section \<open>Feedback and policies\<close>

datatype DestinationFeedbackKind = Empty | Invalid | Valid

record DestinationFeedback =
  dfb_kind :: DestinationFeedbackKind
  dfb_error :: AddressError
  dfb_message :: wstr

definition evaluate_destination :: "wctype \<Rightarrow> wstr \<Rightarrow> DestinationFeedback" where
  "evaluate_destination ct input =
     (let error = fst (validate_address ct input);
          invalid = (\<lambda>m. \<lparr>dfb_kind = DestinationFeedbackKind.Invalid, dfb_error = error,
                          dfb_message = W m\<rparr>)
      in case error of
           AddressError.NoAddressError \<Rightarrow>
             \<lparr>dfb_kind = DestinationFeedbackKind.Valid, dfb_error = AddressError.NoAddressError,
              dfb_message = (if wc CHR ''@'' \<notin> set input
                then W ''Ramal valido. Chamada depende de registro SIP real.''
                else W ''Endereco SIP valido. Chamada depende de registro SIP real.'')\<rparr>
         | AddressError.Empty \<Rightarrow>
             \<lparr>dfb_kind = DestinationFeedbackKind.Empty, dfb_error = error,
              dfb_message = W ''Digite um ramal ou endereco SIP.''\<rparr>
         | AddressError.Whitespace \<Rightarrow>
             invalid ''Remova espacos e caracteres de controle do destino.''
         | AddressError.InvalidScheme \<Rightarrow>
             invalid ''Use ramal ou URI sip:/sips: (nao HTTP/HTTPS).''
         | AddressError.InvalidHost \<Rightarrow> invalid ''Verifique o dominio e a posicao do @.''
         | AddressError.InvalidPort \<Rightarrow> invalid ''Porta SIP invalida (1 a 65535).''
         | AddressError.InvalidUser \<Rightarrow> invalid ''Ramal ou usuario SIP invalido.'')"

datatype RegistrationDecision =
  Allowed | InvalidAccount | EngineUnavailable | Busy | AlreadyRegistered

definition evaluate_registration :: "SipAccount \<Rightarrow> SipStatus \<Rightarrow> RegistrationDecision" where
  "evaluate_registration account state =
     (if validate_account account \<noteq> AccountError.NoAccountError
      then RegistrationDecision.InvalidAccount
      else if state = SipStatus.Unavailable then RegistrationDecision.EngineUnavailable
      else if state = SipStatus.Registering \<or> state = SipStatus.Calling \<or>
              state = SipStatus.Ringing \<or> state = SipStatus.InCall
      then RegistrationDecision.Busy
      else if state = SipStatus.Registered then RegistrationDecision.AlreadyRegistered
      else RegistrationDecision.Allowed)"

datatype SecurityLevel = Plaintext | SignalingTls

definition account_security_level :: "SipAccount \<Rightarrow> SecurityLevel" where
  "account_security_level account =
     (if acc_use_tls account then SecurityLevel.SignalingTls else SecurityLevel.Plaintext)"

definition is_media_encryption_confirmed :: "SipAccount \<Rightarrow> bool" where
  "is_media_encryption_confirmed account = False"

datatype Codec = Opus | G722 | PCMA | PCMU | G729

record CodecCapability =
  cap_codec :: Codec
  cap_name :: string
  cap_enabled_by_default :: bool
  cap_requires_external_validation :: bool

definition default_codec_capabilities :: "CodecCapability list" where
  "default_codec_capabilities =
     [\<lparr>cap_codec = Codec.Opus, cap_name = ''opus'', cap_enabled_by_default = True,
       cap_requires_external_validation = False\<rparr>,
      \<lparr>cap_codec = Codec.G722, cap_name = ''G722'', cap_enabled_by_default = True,
       cap_requires_external_validation = False\<rparr>,
      \<lparr>cap_codec = Codec.PCMA, cap_name = ''PCMA'', cap_enabled_by_default = True,
       cap_requires_external_validation = False\<rparr>,
      \<lparr>cap_codec = Codec.PCMU, cap_name = ''PCMU'', cap_enabled_by_default = True,
       cap_requires_external_validation = False\<rparr>,
      \<lparr>cap_codec = Codec.G729, cap_name = ''G729'', cap_enabled_by_default = False,
       cap_requires_external_validation = True\<rparr>]"

definition can_enable_codec :: "Codec \<Rightarrow> bool \<Rightarrow> bool" where
  "can_enable_codec codec external_support_validated =
     (case find (\<lambda>c. cap_codec c = codec) default_codec_capabilities of
        Some c \<Rightarrow> \<not> cap_requires_external_validation c \<or> external_support_validated
      | None \<Rightarrow> False)"

section \<open>Properties\<close>

text \<open>
  The one-pass host check is the DNS grammar: at most 253 characters, split at the dots into
  labels of 1 to 63 letters, digits and hyphens that neither begin nor end with a hyphen.
\<close>

theorem host_check_is_dns_grammar: "valid_sip_host h \<longleftrightarrow> dns_host h"
  by (rule valid_sip_host_dns)

text \<open>
  What \<open>validate_address\<close> accepts and returns. Its result is always in normal form: free
  of white space and control characters, and either a dial string or \<open>sip:\<close> or \<open>sips:\<close> followed
  by a dial string or by a user, one at sign, a valid host and an optional port from 1 to 65535.
  An address is accepted exactly if it is in normal form, or is a user and host without any colon
  that is in normal form with \<open>sip:\<close> in front; and normal forms are fixed points.
\<close>

theorem validate_address_normalizes:
  assumes "ascii_ctype ct"
  shows "(validate_address ct s = (AddressError.NoAddressError, n) \<longleftrightarrow>
      (if address_shape ct s then n = s
       else wc CHR '':'' \<notin> set s \<and> address_shape ct (W ''sip:'' @ s) \<and>
            wc CHR ''@'' \<in> set s \<and> n = W ''sip:'' @ s)) \<and>
    (validate_address ct s = (AddressError.NoAddressError, n) \<longrightarrow>
      address_shape ct n \<and> validate_address ct n = (AddressError.NoAddressError, n))"
proof -
  have fixed: "validate_address ct s = (AddressError.NoAddressError, s)" if "address_shape ct s"
    using validate_address_shape that .
  have prefixed: "validate_address ct s = (AddressError.NoAddressError, W ''sip:'' @ s)"
    if shape: "address_shape ct (W ''sip:'' @ s)" and colon: "wc CHR '':'' \<notin> set s"
      and at: "wc CHR ''@'' \<in> set s"
  proof -
    have e: "W ''sip:'' @ s = W ''sip'' @ wc CHR '':'' # s" using no_at_scheme(4) by simp
    obtain scheme t where t: "W ''sip:'' @ s = scheme @ wc CHR '':'' # t"
      "scheme = W ''sip'' \<or> scheme = W ''sips''" "target_ok ct t"
      using shape e unfolding address_shape_def by (metis in_set_conv_decomp)
    have "wc CHR '':'' \<notin> set scheme" using t(2) no_at_scheme by auto
    then have "t = s"
      using t(1) e first_split_unique [OF no_at_scheme(2)] by metis
    moreover have "\<not> (\<exists>c \<in> set s. ct_space ct c \<or> ct_cntrl ct c)"
      using shape by (auto simp: address_shape_def)
    moreover have "find_idx (wc CHR '':'') s = None" using colon by simp
    moreover have "s \<noteq> []" using at by auto
    ultimately have "validate_address ct s = validate_target ct s False s" "target_ok ct s"
      using t(3) unfolding validate_address_def by (simp_all only: option.case if_False simp_thms)
    then show ?thesis using colon at by (simp add: validate_target_iff normal_target_def)
  qed
  have other: "\<not> address_shape ct s \<Longrightarrow> wc CHR '':'' \<notin> set s \<and> wc CHR ''@'' \<in> set s \<and> n = W ''sip:'' @ s"
    if "validate_address ct s = (AddressError.NoAddressError, n)"
    using that
  proof (cases rule: validate_address_cases)
    case bare
    then show "\<not> address_shape ct s \<Longrightarrow> ?thesis" by (simp add: address_shape_def)
  next
    case plain
    then show ?thesis by simp
  next
    case (scheme scheme t)
    then have "address_shape ct s" unfolding address_shape_def by blast
    then show "\<not> address_shape ct s \<Longrightarrow> ?thesis" by blast
  qed
  have idem: "address_shape ct n \<and> validate_address ct n = (AddressError.NoAddressError, n)"
    if "validate_address ct s = (AddressError.NoAddressError, n)"
    using normalized_shape [OF assms that] validate_address_shape by blast
  show ?thesis
  proof (cases "address_shape ct s")
    case True
    with fixed idem show ?thesis by auto
  next
    case False
    have "validate_address ct s = (AddressError.NoAddressError, n) \<longleftrightarrow>
        wc CHR '':'' \<notin> set s \<and> address_shape ct (W ''sip:'' @ s) \<and>
        wc CHR ''@'' \<in> set s \<and> n = W ''sip:'' @ s"
      using prefixed other [OF _ False] idem by metis
    with False idem show ?thesis by simp
  qed
qed

theorem validate_address_normalizes_witness:
  "validate_address c_locale (W ''bob@example.org'') =
     (AddressError.NoAddressError, W ''sip:bob@example.org'') \<and>
   validate_address c_locale (W ''sip:bob@example.org'') =
     (AddressError.NoAddressError, W ''sip:bob@example.org'')"
proof -
  have v: "validate_address c_locale (W ''bob@example.org'') =
     (AddressError.NoAddressError, W ''sip:bob@example.org'')" by code_simp
  then have "validate_address c_locale (W ''sip:bob@example.org'') =
     (AddressError.NoAddressError, W ''sip:bob@example.org'')"
    using validate_address_normalizes [OF ascii_c_locale] by blast
  with v show ?thesis by blast
qed

text \<open>
  The account form accepts exactly the accounts the registrar policy accepts. The feedback
  is valid if and only if the port text is a nonempty digit string with a value of 1 to 65535
  and the account built from the fields passes \<open>validate_account\<close>; the port reported is then
  that value, without truncation.
\<close>

theorem account_form_exact:
  "(aff_kind (evaluate_account_form server username port_text) = AccountFeedbackKind.Valid \<longleftrightarrow>
      port_text \<noteq> [] \<and> (\<forall>c \<in> set port_text. ascii_digit c) \<and>
      1 \<le> digits_value port_text \<and> digits_value port_text \<le> 65535 \<and>
      validate_account (default_account\<lparr>acc_server := server, acc_username := username,
        acc_port := of_nat (digits_value port_text)\<rparr>) = AccountError.NoAccountError) \<and>
   (aff_kind (evaluate_account_form server username port_text) = AccountFeedbackKind.Valid \<longrightarrow>
      unat (aff_port (evaluate_account_form server username port_text)) = digits_value port_text)"
proof -
  have slash: "wc CHR ''/'' \<in> set server \<Longrightarrow> \<not> valid_sip_host server"
    using valid_sip_host_chars [of server "wc CHR ''/''"]
    by (auto simp: ascii_alnum_def ascii_digit_def)
  show ?thesis
  proof (cases "parse_port 0 port_text")
    case (Inl m)
    then have "\<not> ((\<forall>c \<in> set port_text. ascii_digit c) \<and> digits_value port_text \<le> 65535)"
      using parse_port_Inr [of 0 port_text "digits_value port_text"] by (auto simp: digits_value_def)
    with Inl show ?thesis by (auto simp: evaluate_account_form_def feedback_def)
  next
    case (Inr m)
    then have m: "(\<forall>c \<in> set port_text. ascii_digit c) \<and> m = digits_value port_text \<and> m \<le> 65535"
      using parse_port_Inr [of 0 port_text m] by (auto simp: digits_value_def)
    then have "unat (of_nat m :: 16 word) = m" by (simp add: unat_of_nat)
    with Inr m slash show ?thesis
      by (auto simp: evaluate_account_form_def feedback_def validate_account_def Let_def)
  qed
qed

theorem account_form_exact_witness:
  "unat (aff_port (evaluate_account_form (W ''pbx.example'') (W ''1001'') (W ''05060''))) = 5060"
proof -
  have "aff_kind (evaluate_account_form (W ''pbx.example'') (W ''1001'') (W ''05060'')) =
      AccountFeedbackKind.Valid"
    by (simp add: evaluate_account_form_def feedback_def validate_account_def default_account_def
        valid_sip_host_def ascii_alnum_def ascii_digit_def account_char_def W_def Let_def)
  with account_form_exact [of "W ''pbx.example''" "W ''1001''" "W ''05060''"]
  have "unat (aff_port (evaluate_account_form (W ''pbx.example'') (W ''1001'') (W ''05060''))) =
      digits_value (W ''05060'')" by blast
  moreover have "digits_value (W ''05060'') = 5060"
    by (simp add: digits_value_def W_def)
  ultimately show ?thesis by (simp only:)
qed

end
