(* ===== verification/Call_Authorization.thy ===== *)
theory Call_Authorization
  imports Sip_Address
begin

text \<open>
  Who may dial, answer and hang up: \<open>dial_authorization.h\<close>, \<open>call_command_authorization.h\<close>, and
  the worker-side state machine that executes the commands at most once,
  \<open>sip_command_executor.h\<close>. The native port is a parameter: the result of its call, \<open>None\<close> when
  it throws.
\<close>

section \<open>Dialling\<close>

datatype DialDenied =
    NotDenied | EmptyDestination | InvalidDestination | UnverifiedSession | EngineUnavailable
  | EngineNotRegistered

record DialAuthorization =
  dial_reason :: DialDenied
  dial_destination :: wstr

definition dial_allowed :: "DialAuthorization \<Rightarrow> bool" where
  "dial_allowed a \<longleftrightarrow> dial_reason a = DialDenied.NotDenied"

definition dial_denied :: "DialDenied \<Rightarrow> DialAuthorization" where
  [simp]: "dial_denied r = \<lparr>dial_reason = r, dial_destination = []\<rparr>"

definition authorize_dial ::
    "wctype \<Rightarrow> SipRuntimeObservation \<Rightarrow> u64 \<Rightarrow> EngineSelection \<Rightarrow> wstr \<Rightarrow> DialAuthorization" where
  "authorize_dial ct observed current_session selected typed_destination =
     (if typed_destination = [] then dial_denied DialDenied.EmptyDestination
      else (let address = validate_address ct typed_destination in
        if fst address \<noteq> AddressError.NoAddressError
        then dial_denied DialDenied.InvalidDestination
        else if \<not> may_use_call_control observed current_session CallAction.Dial
        then dial_denied DialDenied.UnverifiedSession
        else if sel_kind selected \<noteq> EngineKind.Baresip \<or> sel_engine selected = None
        then dial_denied DialDenied.EngineUnavailable
        else if sel_engine selected \<noteq> Some SipStatus.Registered
        then dial_denied DialDenied.EngineNotRegistered
        else \<lparr>dial_reason = DialDenied.NotDenied, dial_destination = snd address\<rparr>))"

text \<open>The texts hold Latin-1 letters: 250 and 225 are u and a acute, 227 is a tilde.\<close>

fun dial_denial_text :: "DialDenied \<Rightarrow> wstr" where
  "dial_denial_text DialDenied.NotDenied = []"
| "dial_denial_text DialDenied.EmptyDestination =
     W ''Informe um n'' @ [250] @ W ''mero ou SIP URI.''"
| "dial_denial_text DialDenied.InvalidDestination = W ''Destino SIP inv'' @ [225] @ W ''lido.''"
| "dial_denial_text DialDenied.UnverifiedSession =
     W ''AXV-SIP-003: registro SIP n'' @ [227] @ W ''o confirmado.''"
| "dial_denial_text DialDenied.EngineUnavailable =
     W ''AXV-SIP-001: motor SIP n'' @ [227] @ W ''o integrado.''"
| "dial_denial_text DialDenied.EngineNotRegistered =
     W ''AXV-SIP-003: motor n'' @ [227] @ W ''o registrado.''"

section \<open>Call commands\<close>

datatype CallCommandDenied =
    NotDenied | UnverifiedSession | EngineUnavailable | InvalidDestination | UnsupportedState
  | StaleCall | EngineStateMismatch

record CallCommandPermit =
  permit_reason :: CallCommandDenied
  permit_destination :: wstr

definition command_denied :: "CallCommandDenied \<Rightarrow> CallCommandPermit" where
  [simp]: "command_denied r = \<lparr>permit_reason = r, permit_destination = []\<rparr>"

definition authorize_call_command ::
    "wctype \<Rightarrow> SipRuntimeObservation \<Rightarrow> u64 \<Rightarrow> EngineSelection \<Rightarrow> CallAction \<Rightarrow> u64 \<Rightarrow> wstr \<Rightarrow>
     CallCommandPermit" where
  "authorize_call_command ct state active_session selected action expected_call_id destination =
     (if action = CallAction.Dial
      then (if expected_call_id \<noteq> 0 \<or> obs_call_id state \<noteq> 0
            then command_denied CallCommandDenied.StaleCall
            else (let dial = authorize_dial ct state active_session selected destination in
              if dial_allowed dial
              then \<lparr>permit_reason = CallCommandDenied.NotDenied,
                    permit_destination = dial_destination dial\<rparr>
              else if dial_reason dial = DialDenied.EmptyDestination \<or>
                      dial_reason dial = DialDenied.InvalidDestination
              then command_denied CallCommandDenied.InvalidDestination
              else if dial_reason dial = DialDenied.UnverifiedSession
              then command_denied CallCommandDenied.UnverifiedSession
              else if dial_reason dial = DialDenied.EngineUnavailable
              then command_denied CallCommandDenied.EngineUnavailable
              else command_denied CallCommandDenied.EngineStateMismatch))
      else if action \<noteq> CallAction.Answer \<and> action \<noteq> CallAction.Hangup
      then command_denied CallCommandDenied.UnsupportedState
      else if \<not> sip_proof_is_current state active_session
      then command_denied CallCommandDenied.UnverifiedSession
      else if sel_kind selected \<noteq> EngineKind.Baresip \<or> sel_engine selected = None
      then command_denied CallCommandDenied.EngineUnavailable
      else if \<not> may_use_call_control state active_session action
      then command_denied CallCommandDenied.UnsupportedState
      else if expected_call_id = 0 \<or> obs_call_id state = 0 \<or>
              obs_call_id state \<noteq> expected_call_id \<or> obs_last_call_id state \<noteq> expected_call_id
      then command_denied CallCommandDenied.StaleCall
      else if sel_engine selected \<noteq> Some (obs_sip state)
      then command_denied CallCommandDenied.EngineStateMismatch
      else command_denied CallCommandDenied.NotDenied)"

fun call_command_denial_text :: "CallCommandDenied \<Rightarrow> wstr" where
  "call_command_denial_text CallCommandDenied.NotDenied = []"
| "call_command_denial_text CallCommandDenied.UnverifiedSession =
     W ''AXV-SIP-003: sessao SIP nao confirmada.''"
| "call_command_denial_text CallCommandDenied.EngineUnavailable =
     W ''AXV-SIP-001: motor nativo indisponivel.''"
| "call_command_denial_text CallCommandDenied.InvalidDestination =
     W ''AXV-SIP-002: corrija o destino da chamada.''"
| "call_command_denial_text CallCommandDenied.UnsupportedState =
     W ''AXV-SIP-004: acao nao permitida no estado atual.''"
| "call_command_denial_text CallCommandDenied.StaleCall =
     W ''AXV-SIP-006: chamada encerrada ou identificador antigo.''"
| "call_command_denial_text CallCommandDenied.EngineStateMismatch =
     W ''AXV-SIP-007: estado do motor diverge da sessao.''"

definition permitted :: "CallCommandPermit \<Rightarrow> bool" where
  "permitted p \<longleftrightarrow> permit_reason p = CallCommandDenied.NotDenied"

text \<open>What a permit presupposes, whatever the action.\<close>

lemma permitted_facts:
  assumes "permitted (authorize_call_command ct state s selected action call_id dest)"
  shows "sip_proof_is_current state s" "can_apply_call_action (obs_sip state) action"
    "obs_call_id state = call_id" "sel_kind selected = EngineKind.Baresip"
    "sel_engine selected = Some (obs_sip state)"
    "action = CallAction.Dial \<longleftrightarrow> call_id = 0"
    "action \<noteq> CallAction.Dial \<Longrightarrow> obs_last_call_id state = call_id"
proof -
  have p: "sip_proof_is_current state s \<and> can_apply_call_action (obs_sip state) action \<and>
    obs_call_id state = call_id \<and> sel_kind selected = EngineKind.Baresip \<and>
    sel_engine selected = Some (obs_sip state) \<and> (action = CallAction.Dial \<longleftrightarrow> call_id = 0) \<and>
    (action \<noteq> CallAction.Dial \<longrightarrow> obs_last_call_id state = call_id)"
    using assms
    by (cases action)
      (auto simp: authorize_call_command_def authorize_dial_def permitted_def dial_allowed_def
        call_control_status Let_def split: if_splits)
  then show "sip_proof_is_current state s" "can_apply_call_action (obs_sip state) action"
    "obs_call_id state = call_id" "sel_kind selected = EngineKind.Baresip"
    "sel_engine selected = Some (obs_sip state)"
    "action = CallAction.Dial \<longleftrightarrow> call_id = 0"
    "action \<noteq> CallAction.Dial \<Longrightarrow> obs_last_call_id state = call_id" by blast+
qed

section \<open>The executor\<close>

record SipCommandRequest =
  req_session :: u64
  req_sequence :: u64
  req_action :: CallAction
  req_call_id :: u64
  req_destination :: wstr

datatype SipCommandDisposition =
    Idle | ProgressObserved | Submitted | InvalidRequest | StaleSession | DuplicateRequest
  | PendingTransition | DuplicateCallAction | Denied | NativeRejected | CommandTimedOut
  | ClockRollback | Fenced

record SipCommandResult =
  res_disposition :: SipCommandDisposition
  res_denial :: CallCommandDenied

definition disposed :: "SipCommandDisposition \<Rightarrow> SipCommandResult" where
  [simp]: "disposed d = \<lparr>res_disposition = d, res_denial = CallCommandDenied.NotDenied\<rparr>"

record SipCommandExecutor =
  exe_session :: u64
  exe_last_sequence :: u64
  exe_last_answer_id :: u64
  exe_last_hangup_id :: u64
  exe_last_dial_call :: u64
  exe_pending_call :: u64
  exe_pending_last_call :: u64
  exe_pending_started_ms :: u64
  exe_last_now_ms :: u64
  exe_pending_status :: SipStatus
  exe_pending :: bool
  exe_sent_dial :: bool
  exe_fenced :: bool

definition pending_timeout_ms :: u64 where
  "pending_timeout_ms = 10000"

definition begin_new_session :: "u64 \<Rightarrow> SipCommandExecutor" where
  "begin_new_session sid = \<lparr>exe_session = sid, exe_last_sequence = 0, exe_last_answer_id = 0,
     exe_last_hangup_id = 0, exe_last_dial_call = 0, exe_pending_call = 0,
     exe_pending_last_call = 0, exe_pending_started_ms = 0, exe_last_now_ms = 0,
     exe_pending_status = SipStatus.Unavailable, exe_pending = False, exe_sent_dial = False,
     exe_fenced = False\<rparr>"

definition new_executor :: SipCommandExecutor where
  "new_executor = begin_new_session 0"

text \<open>The observation is the one the pending command was sent in.\<close>

definition no_progress :: "SipCommandExecutor \<Rightarrow> SipRuntimeObservation \<Rightarrow> bool" where
  "no_progress x live \<longleftrightarrow> obs_sip live = exe_pending_status x \<and>
     obs_call_id live = exe_pending_call x \<and> obs_last_call_id live = exe_pending_last_call x"

definition watchdog ::
    "SipCommandExecutor \<Rightarrow> SipRuntimeObservation \<Rightarrow> u64 \<Rightarrow> u64 \<Rightarrow>
     SipCommandDisposition \<times> SipCommandExecutor" where
  "watchdog x live active_session now_ms =
     (if exe_fenced x then (SipCommandDisposition.Fenced, x)
      else if exe_session x = 0 \<or> \<not> exe_pending x then (SipCommandDisposition.Idle, x)
      else if now_ms = 0 \<or> \<not> sip_proof_is_current live active_session \<or>
              active_session \<noteq> exe_session x
      then (SipCommandDisposition.StaleSession, x\<lparr>exe_fenced := True\<rparr>)
      else if exe_last_now_ms x \<noteq> 0 \<and> now_ms < exe_last_now_ms x
      then (SipCommandDisposition.ClockRollback, x\<lparr>exe_fenced := True\<rparr>)
      else (let x = x\<lparr>exe_last_now_ms := now_ms\<rparr> in
        if \<not> no_progress x live
        then (SipCommandDisposition.ProgressObserved, x\<lparr>exe_pending := False\<rparr>)
        else if now_ms - exe_pending_started_ms x \<ge> pending_timeout_ms
        then (SipCommandDisposition.CommandTimedOut, x\<lparr>exe_fenced := True\<rparr>)
        else (SipCommandDisposition.PendingTransition, x)))"

text \<open>The call into the native port.\<close>

datatype NativeCall = Originate wstr | AnswerCall u64 | HangupCall u64

text \<open>Whether the same action was already sent for the call, or for the last call known.\<close>

definition duplicate_action ::
    "SipCommandExecutor \<Rightarrow> SipRuntimeObservation \<Rightarrow> SipCommandRequest \<Rightarrow> bool" where
  "duplicate_action x live r =
     (case req_action r of
        CallAction.Dial \<Rightarrow> exe_sent_dial x \<and> obs_last_call_id live \<le> exe_last_dial_call x
      | CallAction.Answer \<Rightarrow> req_call_id r \<le> exe_last_answer_id x
      | CallAction.Hangup \<Rightarrow> req_call_id r \<le> exe_last_hangup_id x)"

definition native_call :: "SipCommandRequest \<Rightarrow> CallCommandPermit \<Rightarrow> NativeCall" where
  "native_call r permission =
     (case req_action r of
        CallAction.Dial \<Rightarrow> Originate (permit_destination permission)
      | CallAction.Answer \<Rightarrow> AnswerCall (req_call_id r)
      | CallAction.Hangup \<Rightarrow> HangupCall (req_call_id r))"

text \<open>The bookkeeping after the port accepted.\<close>

definition record_submission ::
    "SipCommandExecutor \<Rightarrow> SipRuntimeObservation \<Rightarrow> SipCommandRequest \<Rightarrow> u64 \<Rightarrow> SipCommandExecutor"
  where
  "record_submission x live r now_ms =
     (case req_action r of
        CallAction.Dial \<Rightarrow> x\<lparr>exe_sent_dial := True, exe_last_dial_call := obs_last_call_id live\<rparr>
      | CallAction.Answer \<Rightarrow> x\<lparr>exe_last_answer_id := req_call_id r\<rparr>
      | CallAction.Hangup \<Rightarrow> x\<lparr>exe_last_hangup_id := req_call_id r\<rparr>)
     \<lparr>exe_pending := True, exe_pending_started_ms := now_ms, exe_pending_status := obs_sip live,
      exe_pending_call := obs_call_id live, exe_pending_last_call := obs_last_call_id live\<rparr>"

text \<open>
  From the permission on. \<open>native\<close> is the port: what it returns for a call, \<open>None\<close> if it
  throws. The result lists the calls made.
\<close>

definition execute_permitted ::
    "wctype \<Rightarrow> EngineSelection \<Rightarrow> (NativeCall \<Rightarrow> bool option) \<Rightarrow> SipCommandExecutor \<Rightarrow>
     SipCommandRequest \<Rightarrow> SipRuntimeObservation \<Rightarrow> u64 \<Rightarrow> u64 \<Rightarrow>
     SipCommandResult \<times> NativeCall list \<times> SipCommandExecutor" where
  "execute_permitted ct selected native x r live active_session now_ms =
     (let permission = authorize_call_command ct live active_session selected (req_action r)
            (req_call_id r) (req_destination r) in
      if \<not> permitted permission
      then (\<lparr>res_disposition = SipCommandDisposition.Denied,
             res_denial = permit_reason permission\<rparr>, [], x)
      else if duplicate_action x live r
      then (disposed SipCommandDisposition.DuplicateCallAction, [], x)
      else (let call = native_call r permission in
        if native call \<noteq> Some True
        then (disposed SipCommandDisposition.NativeRejected, [call], x\<lparr>exe_fenced := True\<rparr>)
        else (disposed SipCommandDisposition.Submitted, [call],
              record_submission x live r now_ms)))"

definition dispatch ::
    "wctype \<Rightarrow> EngineSelection \<Rightarrow> (NativeCall \<Rightarrow> bool option) \<Rightarrow> SipCommandExecutor \<Rightarrow>
     SipCommandRequest \<Rightarrow> SipRuntimeObservation \<Rightarrow> u64 \<Rightarrow> u64 \<Rightarrow>
     SipCommandResult \<times> NativeCall list \<times> SipCommandExecutor" where
  "dispatch ct selected native x r live active_session now_ms =
     (if req_session r = 0 \<or> req_sequence r = 0 \<or> now_ms = 0
      then (disposed SipCommandDisposition.InvalidRequest, [], x)
      else if req_session r < exe_session x
      then (disposed SipCommandDisposition.StaleSession, [], x)
      else if exe_session x \<noteq> 0 \<and> req_session r = exe_session x \<and> exe_fenced x
      then (disposed SipCommandDisposition.Fenced, [], x)
      else if req_session r \<noteq> active_session \<or> \<not> sip_proof_is_current live active_session
      then (disposed SipCommandDisposition.StaleSession, [],
            if req_session r = exe_session x then x\<lparr>exe_fenced := True\<rparr> else x)
      else (let x = (if req_session r > exe_session x then begin_new_session (req_session r)
                     else x) in
        if exe_last_now_ms x \<noteq> 0 \<and> now_ms < exe_last_now_ms x
        then (disposed SipCommandDisposition.ClockRollback, [], x\<lparr>exe_fenced := True\<rparr>)
        else (let x = x\<lparr>exe_last_now_ms := now_ms\<rparr> in
          if req_sequence r \<le> exe_last_sequence x
          then (disposed SipCommandDisposition.DuplicateRequest, [], x)
          else (let x = x\<lparr>exe_last_sequence := req_sequence r\<rparr> in
            if exe_pending x \<and> no_progress x live
            then (if now_ms - exe_pending_started_ms x \<ge> pending_timeout_ms
                  then (disposed SipCommandDisposition.CommandTimedOut, [],
                        x\<lparr>exe_fenced := True\<rparr>)
                  else (disposed SipCommandDisposition.PendingTransition, [], x))
            else execute_permitted ct selected native (x\<lparr>exe_pending := False\<rparr>) r live
                   active_session now_ms))))"

section \<open>Runs of the executor\<close>

datatype ExecutorStep =
    DispatchStep EngineSelection "NativeCall \<Rightarrow> bool option" SipCommandRequest
      SipRuntimeObservation u64 u64
  | WatchStep SipRuntimeObservation u64 u64

text \<open>One step: the native calls it makes, each with the session it is made for.\<close>

fun executor_step ::
    "wctype \<Rightarrow> SipCommandExecutor \<Rightarrow> ExecutorStep \<Rightarrow> (u64 \<times> NativeCall) list \<times> SipCommandExecutor"
  where
  "executor_step ct x (DispatchStep selected native r live active now) =
     (let (_, calls, x') = dispatch ct selected native x r live active now
      in (map (Pair (exe_session x')) calls, x'))"
| "executor_step ct x (WatchStep live active now) = ([], snd (watchdog x live active now))"

fun executor_run ::
    "wctype \<Rightarrow> SipCommandExecutor \<Rightarrow> ExecutorStep list \<Rightarrow> (u64 \<times> NativeCall) list \<times> SipCommandExecutor"
  where
  "executor_run ct x [] = ([], x)"
| "executor_run ct x (s # ss) =
     (let (calls, x') = executor_step ct x s; (more, x'') = executor_run ct x' ss
      in (calls @ more, x''))"

text \<open>A call on a token that can still be made: of a later session, or of the current one with a
  token beyond the last one sent.\<close>

fun still_open :: "SipCommandExecutor \<Rightarrow> u64 \<times> NativeCall \<Rightarrow> bool" where
  "still_open x (s, Originate d) \<longleftrightarrow> True"
| "still_open x (s, AnswerCall t) \<longleftrightarrow>
     exe_session x < s \<or> exe_session x = s \<and> \<not> exe_fenced x \<and> exe_last_answer_id x < t"
| "still_open x (s, HangupCall t) \<longleftrightarrow>
     exe_session x < s \<or> exe_session x = s \<and> \<not> exe_fenced x \<and> exe_last_hangup_id x < t"

fun token_call :: "u64 \<times> NativeCall \<Rightarrow> bool" where
  "token_call (s, Originate d) \<longleftrightarrow> False"
| "token_call _ \<longleftrightarrow> True"

text \<open>Openness only shrinks, and a call made closes itself.\<close>

definition later :: "SipCommandExecutor \<Rightarrow> SipCommandExecutor \<Rightarrow> bool" where
  "later x x' \<longleftrightarrow> (exe_session x < exe_session x' \<or> exe_session x = exe_session x' \<and>
     (exe_fenced x \<longrightarrow> exe_fenced x') \<and> exe_last_answer_id x \<le> exe_last_answer_id x' \<and>
     exe_last_hangup_id x \<le> exe_last_hangup_id x')"

lemma later_open: "later x x' \<Longrightarrow> still_open x' c \<Longrightarrow> still_open x c"
proof (cases c)
  case (Pair s n)
  then show "later x x' \<Longrightarrow> still_open x' c \<Longrightarrow> still_open x c"
    by (cases n) (auto simp: later_def)
qed

lemma later_refl [simp]: "later x x"
  by (simp add: later_def)

lemma watchdog_later: "later x (snd (watchdog x live active now))"
  by (simp add: watchdog_def later_def Let_def)

lemma execute_step:
  assumes "execute_permitted ct selected native x r live active now = (res, calls, x')"
    and "\<not> exe_fenced x"
  shows "later x x'" "exe_session x' = exe_session x"
    "calls = [] \<or> (\<exists>c. calls = [c] \<and> still_open x (exe_session x, c) \<and>
       (token_call (exe_session x, c) \<longrightarrow> \<not> still_open x' (exe_session x, c)))"
proof -
  have "later x x' \<and> exe_session x' = exe_session x \<and>
    (calls = [] \<or> (\<exists>c. calls = [c] \<and> still_open x (exe_session x, c) \<and>
       (token_call (exe_session x, c) \<longrightarrow> \<not> still_open x' (exe_session x, c))))"
    using assms
    by (cases "req_action r")
      (auto simp: execute_permitted_def later_def duplicate_action_def native_call_def
        record_submission_def Let_def split: if_splits)
  then show "later x x'" "exe_session x' = exe_session x"
    "calls = [] \<or> (\<exists>c. calls = [c] \<and> still_open x (exe_session x, c) \<and>
       (token_call (exe_session x, c) \<longrightarrow> \<not> still_open x' (exe_session x, c)))" by blast+
qed

lemma later_trans: "later x y \<Longrightarrow> later y z \<Longrightarrow> later x z"
  unfolding later_def by (elim disjE; force)

text \<open>The state in which a request that passes the gates is executed.\<close>

definition admitted_state ::
    "SipCommandExecutor \<Rightarrow> SipCommandRequest \<Rightarrow> u64 \<Rightarrow> SipCommandExecutor" where
  "admitted_state x r now =
     (if req_session r > exe_session x then begin_new_session (req_session r) else x)
     \<lparr>exe_last_now_ms := now, exe_last_sequence := req_sequence r, exe_pending := False\<rparr>"

lemma dispatch_cases:
  assumes "dispatch ct selected native x r live active now = (res, calls, x')"
  obtains (early) "calls = []" "res_disposition res \<noteq> SipCommandDisposition.NativeRejected"
      "later x x'"
    | (run) "execute_permitted ct selected native (admitted_state x r now) r live active now =
        (res, calls, x')" "req_session r = active" "sip_proof_is_current live active"
      "req_session r \<noteq> 0" "exe_session (admitted_state x r now) = req_session r"
      "\<not> exe_fenced (admitted_state x r now)" "\<not> (exe_session x = req_session r \<and> exe_fenced x)"
      "later x (admitted_state x r now)"
proof (cases "req_session r > exe_session x")
  case True
  let ?z = "admitted_state x r now"
  have z: "exe_session ?z = req_session r" "\<not> exe_fenced ?z" "later x ?z"
    using True by (simp_all add: admitted_state_def begin_new_session_def later_def)
  have "dispatch ct selected native x r live active now =
      (if req_session r = 0 \<or> req_sequence r = 0 \<or> now = 0
       then (disposed SipCommandDisposition.InvalidRequest, [], x)
       else if req_session r \<noteq> active \<or> \<not> sip_proof_is_current live active
       then (disposed SipCommandDisposition.StaleSession, [], x)
       else execute_permitted ct selected native ?z r live active now)"
  proof -
    have "\<not> req_session r < exe_session x" "req_session r \<noteq> exe_session x"
      using True by auto
    moreover have sel: "(if exe_session x < req_session r then begin_new_session (req_session r)
        else x) = begin_new_session (req_session r)" using True by simp
    ultimately show ?thesis
      unfolding dispatch_def admitted_state_def sel Let_def by (simp add: begin_new_session_def)
  qed
  moreover have "exe_session x \<noteq> req_session r" using True by auto
  ultimately show thesis using assms z early run by (auto split: if_splits)
next
  case False
  let ?z = "admitted_state x r now"
  let ?x1 = "x\<lparr>exe_last_now_ms := now\<rparr>"
  let ?x2 = "x\<lparr>exe_last_now_ms := now, exe_last_sequence := req_sequence r\<rparr>"
  have z: "exe_session ?z = exe_session x" "exe_fenced ?z = exe_fenced x" "later x ?z"
    "?z = ?x2\<lparr>exe_pending := False\<rparr>"
    using False by (simp_all add: admitted_state_def later_def)
  have keep: "later x ?x1" "later x ?x2" "later x (x\<lparr>exe_fenced := True\<rparr>)"
    "later x (?x2\<lparr>exe_fenced := True\<rparr>)"
    by (simp_all add: later_def)
  have np: "no_progress ?x2 live = no_progress x live" by (simp add: no_progress_def)
  have "dispatch ct selected native x r live active now =
      (if req_session r = 0 \<or> req_sequence r = 0 \<or> now = 0
       then (disposed SipCommandDisposition.InvalidRequest, [], x)
       else if req_session r < exe_session x then (disposed SipCommandDisposition.StaleSession, [], x)
       else if exe_fenced x then (disposed SipCommandDisposition.Fenced, [], x)
       else if req_session r \<noteq> active \<or> \<not> sip_proof_is_current live active
       then (disposed SipCommandDisposition.StaleSession, [], x\<lparr>exe_fenced := True\<rparr>)
       else if exe_last_now_ms x \<noteq> 0 \<and> now < exe_last_now_ms x
       then (disposed SipCommandDisposition.ClockRollback, [], x\<lparr>exe_fenced := True\<rparr>)
       else if req_sequence r \<le> exe_last_sequence x
       then (disposed SipCommandDisposition.DuplicateRequest, [], ?x1)
       else if exe_pending x \<and> no_progress x live \<and>
               now - exe_pending_started_ms x \<ge> pending_timeout_ms
       then (disposed SipCommandDisposition.CommandTimedOut, [], ?x2\<lparr>exe_fenced := True\<rparr>)
       else if exe_pending x \<and> no_progress x live
       then (disposed SipCommandDisposition.PendingTransition, [], ?x2)
       else execute_permitted ct selected native ?z r live active now)"
  proof (cases "req_session r < exe_session x")
    case True
    then show ?thesis unfolding dispatch_def by simp
  next
    case eq: False
    have e: "req_session r = exe_session x" using False eq by simp
    have sel: "(if exe_session x < exe_session x then begin_new_session (exe_session x) else x) = x"
      by simp
    have z4: "admitted_state x r now = ?x2\<lparr>exe_pending := False\<rparr>" by (rule z(4))
    show ?thesis
      unfolding dispatch_def e sel Let_def z4 by (simp add: np)
  qed
  moreover have "\<not> req_session r < exe_session x \<Longrightarrow> req_session r = exe_session x"
    using False by simp
  ultimately show thesis
    using assms z(1-3) keep early run by (auto split: if_splits)
qed

lemma dispatch_step:
  assumes "dispatch ct selected native x r live active now = (res, calls, x')"
  shows "later x x' \<and> (calls = [] \<or> (\<exists>c. calls = [c] \<and> still_open x (exe_session x', c) \<and>
       (token_call (exe_session x', c) \<longrightarrow> \<not> still_open x' (exe_session x', c))))"
  using assms
proof (cases rule: dispatch_cases)
  case early
  then show ?thesis by simp
next
  case run
  from execute_step [OF run(1,6)] later_trans [OF run(8)] later_open [OF run(8)] show ?thesis by metis
qed

lemma executor_step_open:
  assumes "executor_step ct x s = (calls, x')"
  shows "later x x'" "distinct (filter token_call calls)" "\<forall>c \<in> set calls. still_open x c"
    "\<forall>c \<in> set calls. token_call c \<longrightarrow> \<not> still_open x' c"
proof -
  have "later x x' \<and> distinct (filter token_call calls) \<and> (\<forall>c \<in> set calls. still_open x c) \<and>
    (\<forall>c \<in> set calls. token_call c \<longrightarrow> \<not> still_open x' c)"
  proof (cases s)
    case (DispatchStep selected native r live active now)
    obtain res cs y where d: "dispatch ct selected native x r live active now = (res, cs, y)"
      by (metis surj_pair)
    with assms DispatchStep have "calls = map (Pair (exe_session x')) cs" "x' = y" by auto
    with dispatch_step [OF d] show ?thesis by auto
  next
    case (WatchStep live active now)
    with assms watchdog_later show ?thesis by auto
  qed
  then show "later x x'" "distinct (filter token_call calls)" "\<forall>c \<in> set calls. still_open x c"
    "\<forall>c \<in> set calls. token_call c \<longrightarrow> \<not> still_open x' c" by blast+
qed

lemma executor_run_once:
  "executor_run ct x ss = (calls, x') \<Longrightarrow>
     distinct (filter token_call calls) \<and> (\<forall>c \<in> set calls. still_open x c)"
proof (induction ss arbitrary: x calls x')
  case Nil
  then show ?case by simp
next
  case (Cons s ss)
  obtain now y more z where step: "executor_step ct x s = (now, y)" "executor_run ct y ss = (more, z)"
    by (metis surj_pair)
  with Cons.prems have calls: "calls = now @ more" by simp
  note o = executor_step_open [OF step(1)]
  have ih: "distinct (filter token_call more)" "\<forall>c \<in> set more. still_open y c"
    using Cons.IH [OF step(2)] by blast+
  have "\<forall>c \<in> set more. still_open x c" using ih(2) later_open [OF o(1)] by blast
  moreover have "set (filter token_call now) \<inter> set (filter token_call more) = {}"
    using o(4) ih(2) by auto
  ultimately show ?case using calls o ih by auto
qed

section \<open>Properties\<close>

text \<open>
  C5. Commands on a call are executed at most once. Over any sequence of requests, live
  observations, clocks, watchdog polls and port behaviours (rejections and exceptions included),
  the native port is asked at most once to answer and at most once to hang up a given call token
  of a given session.
\<close>

theorem executor_at_most_once:
  "distinct (filter token_call (fst (executor_run ct new_executor steps)))"
  using executor_run_once [of ct new_executor steps] by (metis prod.collapse)

text \<open>
  C6. No native call without authority. If a dispatch reaches the port at all, then the request
  is of the session the engine serves and the observation proves, in a state that allows the
  action, for exactly the call the observation shows; the executor was not fenced for that
  session; a dial passes on the normalised destination. After a port failure the session is
  fenced, and any further request of it is answered \<open>Fenced\<close> without a native call.
\<close>

theorem dispatch_needs_authority:
  assumes "dispatch ct selected native x r live active now = (res, calls, x')"
  shows "(calls \<noteq> [] \<longrightarrow>
      req_session r = active \<and> sip_proof_is_current live active \<and>
      can_apply_call_action (obs_sip live) (req_action r) \<and> obs_call_id live = req_call_id r \<and>
      \<not> (exe_session x = req_session r \<and> exe_fenced x) \<and>
      (req_action r = CallAction.Dial \<longrightarrow> calls = [Originate (snd (validate_address ct (req_destination r)))])) \<and>
    (res_disposition res = SipCommandDisposition.NativeRejected \<longrightarrow>
      (\<forall>selected2 native2 r2 live2 now2. req_session r2 = req_session r \<longrightarrow> req_sequence r2 \<noteq> 0 \<longrightarrow>
        now2 \<noteq> 0 \<longrightarrow> dispatch ct selected2 native2 x' r2 live2 active now2 =
          (disposed SipCommandDisposition.Fenced, [], x')))"
proof -
  from assms show ?thesis
  proof (cases rule: dispatch_cases)
    case early
    then show ?thesis by simp
  next
    case run
    let ?p = "authorize_call_command ct live active selected (req_action r) (req_call_id r)
      (req_destination r)"
    have p: "calls \<noteq> [] \<Longrightarrow> permitted ?p \<and> calls = [native_call r ?p]"
      using run(1) by (auto simp: execute_permitted_def Let_def split: if_splits)
    have dial: "permitted ?p \<Longrightarrow> req_action r = CallAction.Dial \<Longrightarrow>
        permit_destination ?p = snd (validate_address ct (req_destination r))"
      by (auto simp: permitted_def authorize_call_command_def authorize_dial_def dial_allowed_def
          Let_def split: if_splits)
    have rej: "res_disposition res = SipCommandDisposition.NativeRejected \<Longrightarrow>
        exe_session x' = req_session r \<and> exe_fenced x'"
      using run(1,5) by (auto simp: execute_permitted_def Let_def split: if_splits)
    have fenced: "dispatch ct selected2 native2 x' r2 live2 active now2 =
          (disposed SipCommandDisposition.Fenced, [], x')"
      if "res_disposition res = SipCommandDisposition.NativeRejected" "req_session r2 = req_session r"
        "req_sequence r2 \<noteq> 0" "now2 \<noteq> 0" for selected2 native2 r2 live2 now2
      using rej [OF that(1)] that(2-4) run(4) by (simp add: dispatch_def)
    have "calls \<noteq> [] \<longrightarrow> can_apply_call_action (obs_sip live) (req_action r) \<and>
        obs_call_id live = req_call_id r \<and>
        (req_action r = CallAction.Dial \<longrightarrow>
           calls = [Originate (snd (validate_address ct (req_destination r)))])"
      using p dial permitted_facts(2,3) by (auto simp: native_call_def)
    with run(2,3,7) fenced show ?thesis by blast
  qed
qed

definition sample_live :: SipRuntimeObservation where
  "sample_live = \<lparr>obs_process = RuntimeProcess.Running, obs_sip = SipStatus.Ringing,
     obs_evidence = SipEvidence.VerifiedNativeApi, obs_session = 3, obs_call_id = 5,
     obs_last_call_id = 5\<rparr>"

definition sample_request :: SipCommandRequest where
  "sample_request = \<lparr>req_session = 3, req_sequence = 1, req_action = CallAction.Answer,
     req_call_id = 5, req_destination = []\<rparr>"

definition sample_selection :: EngineSelection where
  "sample_selection = \<lparr>sel_engine = Some SipStatus.Ringing, sel_kind = EngineKind.Baresip\<rparr>"

theorem dispatch_needs_authority_witness:
  "fst (snd (dispatch c_locale sample_selection (\<lambda>c. None) new_executor sample_request sample_live 3 9))
     = [AnswerCall 5] \<and>
   exe_fenced (snd (snd (dispatch c_locale sample_selection (\<lambda>c. None) new_executor sample_request
     sample_live 3 9))) \<and> sip_proof_is_current sample_live 3"
proof -
  let ?d = "dispatch c_locale sample_selection (\<lambda>c. None) new_executor sample_request sample_live 3 9"
  have c: "fst (snd ?d) = [AnswerCall 5]" and f: "exe_fenced (snd (snd ?d))" by code_simp+
  have "?d = (fst ?d, fst (snd ?d), snd (snd ?d))" by simp
  from dispatch_needs_authority [OF this] c f show ?thesis by simp
qed

end
