(* ===== verification/Cti_Events.thy ===== *)
theory Cti_Events
  imports Sip_Runtime
begin

text \<open>
  The public event feed of the local CTI service, \<open>local_cti_events.h\<close>: the de-identified phase
  of an observation, the bounded journal of phase changes with its sequence numbers and cursors,
  the cursor parser and the JSON texts.

  The locale \<open>event_log\<close> is the contract a client that polls with a cursor relies on: the log
  holds the most recent entries, numbered consecutively up to the latest number. The journal here
  and the request log of \<open>Cti_Requests\<close> are its two interpretations.
\<close>

section \<open>Logs polled with a cursor\<close>

locale event_log =
  fixes entries :: "'s \<Rightarrow> 'e list" and latest :: "'s \<Rightarrow> u64" and seq_of :: "'e \<Rightarrow> u64"
    and capacity :: nat and inv :: "'s \<Rightarrow> bool"
  assumes consecutive: "inv s \<Longrightarrow> map (unat \<circ> seq_of) (entries s) =
      [Suc (unat (latest s)) - length (entries s) ..< Suc (unat (latest s))]"
    and bounded: "inv s \<Longrightarrow> length (entries s) \<le> capacity \<and> length (entries s) \<le> unat (latest s)"
begin

text \<open>The number of the oldest entry kept, and the entries newer than a cursor.\<close>

lemma oldest:
  assumes "inv s" and "entries s \<noteq> []"
  shows "unat (seq_of (hd (entries s))) = Suc (unat (latest s)) - length (entries s)"
proof -
  have "unat (seq_of (hd (entries s))) = hd (map (unat \<circ> seq_of) (entries s))"
    using assms(2) by (simp add: hd_map)
  then show ?thesis
    using consecutive [OF assms(1)] assms(2) by (simp add: hd_upt del: upt_Suc)
qed

lemma oldest_positive: "inv s \<Longrightarrow> entries s \<noteq> [] \<Longrightarrow> 0 < seq_of (hd (entries s))"
  using oldest bounded [of s] by (auto simp: word_less_nat_alt)

lemma filter_upt_greater: "filter (\<lambda>i. c < i) [a..<b] = [max a (Suc c)..<b]"
  by (induction b) (auto simp: max_def)

lemma page:
  assumes "inv s"
  shows "map (unat \<circ> seq_of) (filter (\<lambda>e. cursor < seq_of e) (entries s)) =
    [max (Suc (unat (latest s)) - length (entries s)) (Suc (unat cursor)) ..< Suc (unat (latest s))]"
proof -
  have "map (unat \<circ> seq_of) (filter (\<lambda>e. cursor < seq_of e) (entries s)) =
      filter (\<lambda>i. unat cursor < i) (map (unat \<circ> seq_of) (entries s))"
    by (simp add: filter_map comp_def word_less_nat_alt)
  then show ?thesis using consecutive [OF assms] filter_upt_greater by metis
qed

text \<open>If the server reports no gap, nothing newer than the cursor is missing from the page.\<close>

lemma page_without_gap:
  assumes "inv s" and "entries s \<noteq> []"
    and "\<not> cursor < seq_of (hd (entries s)) - 1"
  shows "map (unat \<circ> seq_of) (filter (\<lambda>e. cursor < seq_of e) (entries s)) =
    [Suc (unat cursor) ..< Suc (unat (latest s))]"
proof -
  have "unat (seq_of (hd (entries s)) - 1) = unat (seq_of (hd (entries s))) - 1"
    using oldest_positive [OF assms(1,2)] by (metis unat_minus_one word_neq_0_conv)
  then have "Suc (unat (latest s)) - length (entries s) \<le> Suc (unat cursor)"
    using assms(3) oldest [OF assms(1,2)] by (simp add: word_less_nat_alt)
  then show ?thesis using page [OF assms(1)] by (simp add: max_def)
qed

lemma page_with_gap:
  assumes "inv s" and "entries s \<noteq> []" and "cursor < seq_of (hd (entries s)) - 1"
  shows "filter (\<lambda>e. cursor < seq_of e) (entries s) = entries s"
proof -
  have "cursor < seq_of e" if "e \<in> set (entries s)" for e
  proof -
    have "(unat \<circ> seq_of) e \<in> set (map (unat \<circ> seq_of) (entries s))" using that by simp
    then have "unat (seq_of (hd (entries s))) \<le> unat (seq_of e)"
      unfolding consecutive [OF assms(1)] oldest [OF assms(1,2)] by auto
    moreover have "unat cursor < unat (seq_of (hd (entries s))) - 1"
      using assms(3) oldest_positive [OF assms(1,2)]
      by (metis unat_minus_one word_less_nat_alt word_neq_0_conv)
    ultimately show ?thesis by (simp add: word_less_nat_alt)
  qed
  then show ?thesis by (simp add: filter_id_conv)
qed

end

text \<open>\<open>std::deque::push_back\<close> and, beyond the capacity, \<open>pop_front\<close>.\<close>

definition push_bounded :: "nat \<Rightarrow> 'a list \<Rightarrow> 'a \<Rightarrow> 'a list" where
  "push_bounded cap xs x = (if length (xs @ [x]) > cap then tl (xs @ [x]) else xs @ [x])"

text \<open>A log of at most \<open>cap\<close> entries numbered up to \<open>n\<close>, and appending entry \<open>n + 1\<close>.\<close>

definition log_ok :: "('e \<Rightarrow> u64) \<Rightarrow> nat \<Rightarrow> nat \<Rightarrow> 'e list \<Rightarrow> bool" where
  "log_ok f cap n es \<longleftrightarrow> map (unat \<circ> f) es = [Suc n - length es ..< Suc n] \<and>
     length es \<le> cap \<and> length es \<le> n"

lemma log_ok_Nil [simp]: "log_ok f cap n []"
  by (simp add: log_ok_def)

lemma push_bounded_nonempty [simp]: "0 < cap \<Longrightarrow> push_bounded cap es e \<noteq> []"
  by (cases es) (auto simp: push_bounded_def)

lemma log_ok_push:
  assumes "log_ok f cap n es" and "unat (f e) = Suc n" and "0 < cap"
  shows "log_ok f cap (Suc n) (push_bounded cap es e)"
proof -
  let ?es = "push_bounded cap es e"
  have ok: "map (unat \<circ> f) es = [Suc n - length es ..< Suc n]" "length es \<le> cap" "length es \<le> n"
    using assms(1) unfolding log_ok_def by blast+
  have all: "map (unat \<circ> f) (es @ [e]) = [Suc n - length es ..< Suc (Suc n)]"
    using ok assms(2) by simp
  show ?thesis
  proof (cases "length (es @ [e]) > cap")
    case True
    then have l: "length ?es = length es" and e: "?es = tl (es @ [e])"
      by (simp_all add: push_bounded_def)
    have "map (unat \<circ> f) ?es = tl [Suc n - length es ..< Suc (Suc n)]"
      unfolding e using all by (metis map_tl)
    also have "\<dots> = [Suc (Suc n - length es) ..< Suc (Suc n)]"
      by (simp add: upt_conv_Cons del: upt_Suc)
    finally show ?thesis
      using ok(2,3) l unfolding log_ok_def by (simp add: Suc_diff_le del: upt_Suc)
  next
    case False
    then have "?es = es @ [e]" by (simp add: push_bounded_def)
    then show ?thesis using all ok(3) False unfolding log_ok_def by (simp del: upt_Suc)
  qed
qed

section \<open>Phases\<close>

datatype CtiPhase =
  Offline | Unverified | Registering | Registered | Dialing | Ringing | InCall | Failed

fun cti_phase_name :: "CtiPhase \<Rightarrow> string" where
  "cti_phase_name CtiPhase.Offline = ''offline''"
| "cti_phase_name CtiPhase.Unverified = ''unverified''"
| "cti_phase_name CtiPhase.Registering = ''registering''"
| "cti_phase_name CtiPhase.Registered = ''registered''"
| "cti_phase_name CtiPhase.Dialing = ''dialing''"
| "cti_phase_name CtiPhase.Ringing = ''ringing''"
| "cti_phase_name CtiPhase.InCall = ''in_call''"
| "cti_phase_name CtiPhase.Failed = ''failed''"

definition cti_phase :: "SipRuntimeObservation \<Rightarrow> CtiPhase" where
  "cti_phase observed =
     (if obs_process observed = RuntimeProcess.Stopped \<or>
         obs_process observed = RuntimeProcess.Stopping
      then CtiPhase.Offline
      else if obs_process observed = RuntimeProcess.Failed then CtiPhase.Failed
      else if \<not> sip_proof_is_current observed (obs_session observed) then CtiPhase.Unverified
      else (case obs_sip observed of
          SipStatus.Registering \<Rightarrow> CtiPhase.Registering
        | SipStatus.Registered \<Rightarrow> CtiPhase.Registered
        | SipStatus.Calling \<Rightarrow> CtiPhase.Dialing
        | SipStatus.Ringing \<Rightarrow> CtiPhase.Ringing
        | SipStatus.InCall \<Rightarrow> CtiPhase.InCall
        | SipStatus.Failed \<Rightarrow> CtiPhase.Failed
        | SipStatus.Disconnected \<Rightarrow> CtiPhase.Offline
        | SipStatus.Unavailable \<Rightarrow> CtiPhase.Unverified))"

definition cti_registered :: "SipRuntimeObservation \<Rightarrow> bool" where
  "cti_registered observed \<longleftrightarrow>
     (if \<not> sip_proof_is_current observed (obs_session observed) then False
      else obs_sip observed = SipStatus.Registered \<or> obs_sip observed = SipStatus.Calling \<or>
           obs_sip observed = SipStatus.Ringing \<or> obs_sip observed = SipStatus.InCall)"

section \<open>The journal\<close>

record CtiPublicSnapshot =
  snap_phase :: CtiPhase
  snap_registered :: bool
  snap_active_call :: bool
  snap_sequence :: u64

record CtiPublicEvent =
  pev_sequence :: u64
  pev_phase :: CtiPhase

record CtiEventsPage =
  page_latest_sequence :: u64
  page_oldest_sequence :: u64
  page_gap :: bool
  page_events :: "CtiPublicEvent list"

record CtiEventJournal =
  jnl_initialized :: bool
  jnl_sequence :: u64
  jnl_last_session :: u64
  jnl_last_call_id :: u64
  jnl_current :: CtiPublicSnapshot
  jnl_events :: "CtiPublicEvent list"

definition default_snapshot :: CtiPublicSnapshot where
  "default_snapshot = \<lparr>snap_phase = CtiPhase.Offline, snap_registered = False,
     snap_active_call = False, snap_sequence = 0\<rparr>"

definition empty_journal :: CtiEventJournal where
  "empty_journal = \<lparr>jnl_initialized = False, jnl_sequence = 0, jnl_last_session = 0,
     jnl_last_call_id = 0, jnl_current = default_snapshot, jnl_events = []\<rparr>"

definition journal_capacity :: nat where
  "journal_capacity = 32"

definition cti_active :: "SipRuntimeObservation \<Rightarrow> bool" where
  "cti_active state \<longleftrightarrow> sip_proof_is_current state (obs_session state) \<and> obs_call_id state \<noteq> 0 \<and>
     (obs_sip state = SipStatus.Calling \<or> obs_sip state = SipStatus.Ringing \<or>
      obs_sip state = SipStatus.InCall)"

definition journal_observe :: "CtiEventJournal \<Rightarrow> SipRuntimeObservation \<Rightarrow> CtiEventJournal" where
  "journal_observe j state =
     (let phase = cti_phase state; registered = cti_registered state; active = cti_active state;
          current = jnl_current j;
          change = (\<not> jnl_initialized j \<or> phase \<noteq> snap_phase current \<or>
            registered \<noteq> snap_registered current \<or> active \<noteq> snap_active_call current \<or>
            obs_session state \<noteq> jnl_last_session j \<or> obs_call_id state \<noteq> jnl_last_call_id j)
      in if \<not> change then j
         else (let sequence = jnl_sequence j + 1 in
           \<lparr>jnl_initialized = True, jnl_sequence = sequence, jnl_last_session = obs_session state,
            jnl_last_call_id = obs_call_id state,
            jnl_current = \<lparr>snap_phase = phase, snap_registered = registered,
              snap_active_call = active, snap_sequence = sequence\<rparr>,
            jnl_events = push_bounded journal_capacity (jnl_events j)
              \<lparr>pev_sequence = sequence, pev_phase = phase\<rparr>\<rparr>))"

definition journal_snapshot :: "CtiEventJournal \<Rightarrow> CtiPublicSnapshot" where
  "journal_snapshot j = jnl_current j"

definition journal_after :: "CtiEventJournal \<Rightarrow> u64 \<Rightarrow> CtiEventsPage" where
  "journal_after j cursor =
     (let oldest = (if jnl_events j = [] then 0 else pev_sequence (hd (jnl_events j))) in
      \<lparr>page_latest_sequence = jnl_sequence j, page_oldest_sequence = oldest,
       page_gap = (oldest > 0 \<and> cursor < oldest - 1),
       page_events = filter (\<lambda>e. pev_sequence e > cursor) (jnl_events j)\<rparr>)"

section \<open>Cursors and JSON\<close>

text \<open>The loop of \<open>parse_cti_event_cursor\<close>, with the overflow test of the source.\<close>

fun cursor_digits :: "u64 \<Rightarrow> string \<Rightarrow> u64 option" where
  "cursor_digits value [] = Some value"
| "cursor_digits value (c # cs) =
     (if \<not> dec_digit c then None
      else (let d = of_nat (of_char c - 48) in
        if value > (u64_max - d) div 10 then None else cursor_digits (value * 10 + d) cs))"

definition parse_cti_event_cursor :: "string \<Rightarrow> u64 option" where
  "parse_cti_event_cursor text =
     (if text = [] \<or> length text > 20 then None else cursor_digits 0 text)"

definition to_string :: "u64 \<Rightarrow> string" where
  "to_string v = to_dec (unat v)"

definition json_bool :: "bool \<Rightarrow> string" where
  "json_bool b = (if b then ''true'' else ''false'')"

definition cti_snapshot_json :: "CtiPublicSnapshot \<Rightarrow> string" where
  "cti_snapshot_json state =
     ''{\"phase\":\"'' @ cti_phase_name (snap_phase state) @
     ''\",\"registered\":'' @ json_bool (snap_registered state) @
     '',\"active_call\":'' @ json_bool (snap_active_call state) @
     '',\"sequence\":'' @ to_string (snap_sequence state) @ ''}''"

text \<open>The loop over the events of a page: a comma before every entry but the first.\<close>

fun json_entries :: "('a \<Rightarrow> string) \<Rightarrow> 'a list \<Rightarrow> string" where
  "json_entries show [] = []"
| "json_entries show [x] = show x"
| "json_entries show (x # y # xs) = show x @ '','' @ json_entries show (y # xs)"

definition cti_event_json :: "CtiPublicEvent \<Rightarrow> string" where
  "cti_event_json e = ''{\"sequence\":'' @ to_string (pev_sequence e) @
     '',\"phase\":\"'' @ cti_phase_name (pev_phase e) @ ''\"}''"

definition cti_events_json :: "CtiEventsPage \<Rightarrow> string" where
  "cti_events_json page =
     ''{\"latest_sequence\":'' @ to_string (page_latest_sequence page) @
     '',\"oldest_sequence\":'' @ to_string (page_oldest_sequence page) @
     '',\"gap\":'' @ json_bool (page_gap page) @ '',\"events\":['' @
     json_entries cti_event_json (page_events page) @ '']}''"

section \<open>The journal is such a log\<close>

definition journal_inv :: "CtiEventJournal \<Rightarrow> bool" where
  "journal_inv j \<longleftrightarrow>
     log_ok pev_sequence journal_capacity (unat (jnl_sequence j)) (jnl_events j) \<and>
     (jnl_initialized j \<longrightarrow> jnl_events j \<noteq> [])"

interpretation journal: event_log jnl_events jnl_sequence pev_sequence journal_capacity journal_inv
  by unfold_locales (simp_all add: journal_inv_def log_ok_def del: upt_Suc)

lemma journal_inv_empty: "journal_inv empty_journal"
  by (simp add: journal_inv_def empty_journal_def)

lemma journal_observe_same_or_next:
  "journal_observe j x = j \<or>
   jnl_sequence (journal_observe j x) = jnl_sequence j + 1 \<and>
   jnl_events (journal_observe j x) = push_bounded journal_capacity (jnl_events j)
     \<lparr>pev_sequence = jnl_sequence j + 1, pev_phase = cti_phase x\<rparr>"
  by (simp add: journal_observe_def Let_def)

lemma journal_observe_inv:
  assumes "journal_inv j" and "jnl_sequence j \<noteq> u64_max"
  shows "journal_inv (journal_observe j x)"
  using journal_observe_same_or_next [of j x]
proof
  assume "journal_observe j x = j"
  then show ?thesis using assms(1) by simp
next
  assume "jnl_sequence (journal_observe j x) = jnl_sequence j + 1 \<and>
    jnl_events (journal_observe j x) = push_bounded journal_capacity (jnl_events j)
      \<lparr>pev_sequence = jnl_sequence j + 1, pev_phase = cti_phase x\<rparr>"
  then show ?thesis
    using assms by (auto simp: journal_inv_def unat_inc journal_capacity_def intro!: log_ok_push)
qed

text \<open>The snapshot describes the last observation.\<close>

lemma journal_observe_current:
  "jnl_initialized (journal_observe j x) \<and>
   snap_phase (jnl_current (journal_observe j x)) = cti_phase x \<and>
   snap_registered (jnl_current (journal_observe j x)) = cti_registered x \<and>
   snap_active_call (jnl_current (journal_observe j x)) = cti_active x"
  by (auto simp: journal_observe_def Let_def)

definition journal_run :: "SipRuntimeObservation list \<Rightarrow> CtiEventJournal" where
  "journal_run xs = foldl journal_observe empty_journal xs"

lemma journal_run_inv:
  "length xs < 2 ^ 64 \<Longrightarrow> journal_inv (journal_run xs) \<and> unat (jnl_sequence (journal_run xs)) \<le> length xs"
proof (induction xs rule: rev_induct)
  case Nil
  then show ?case using journal_inv_empty by (simp add: journal_run_def empty_journal_def)
next
  case (snoc x xs)
  let ?j = "journal_run xs"
  have IH: "journal_inv ?j" "unat (jnl_sequence ?j) \<le> length xs" using snoc by simp_all
  have room: "jnl_sequence ?j \<noteq> u64_max"
    using IH(2) snoc.prems unat_u64_max by auto
  have "journal_inv (journal_observe ?j x)" by (rule journal_observe_inv [OF IH(1) room])
  moreover have "unat (jnl_sequence (journal_observe ?j x)) \<le> Suc (length xs)"
    using journal_observe_same_or_next [of ?j x] IH(2) unat_inc [OF room] by auto
  ultimately show ?case by (simp add: journal_run_def)
qed

section \<open>The cursor parser\<close>

lemma cursor_room:
  assumes "d < 10"
  shows "(v :: u64) > (u64_max - of_nat d) div 10 \<longleftrightarrow> 2 ^ 64 \<le> unat v * 10 + d"
proof -
  have d: "unat (of_nat d :: u64) = d" using assms by (simp add: unat_of_nat)
  have "unat (u64_max - of_nat d) = 2 ^ 64 - 1 - d"
    using d assms by (subst unat_sub) (simp_all add: word_le_nat_alt unat_u64_max)
  then have "unat ((u64_max - of_nat d) div 10) = (2 ^ 64 - 1 - d) div 10"
    by (simp add: unat_div)
  then have "v > (u64_max - of_nat d) div 10 \<longleftrightarrow> (2 ^ 64 - 1 - d) div 10 < unat v"
    by (simp add: word_less_nat_alt)
  also have "\<dots> \<longleftrightarrow> 2 ^ 64 \<le> unat v * 10 + d"
    using assms by (simp add: div_less_iff_less_mult) linarith
  finally show ?thesis .
qed

lemma cursor_digits_iff:
  "cursor_digits v s = Some r \<longleftrightarrow>
     (\<forall>c \<in> set s. dec_digit c) \<and> foldl dec_step (unat v) s < 2 ^ 64 \<and>
     unat r = foldl dec_step (unat v) s"
proof (induction s arbitrary: v)
  case Nil
  have "unat v < 2 ^ 64" using unsigned_less [of v] by simp
  then show ?case by (auto simp: word_unat_eq_iff)
next
  case (Cons c s)
  show ?case
  proof (cases "dec_digit c")
    case True
    define d where "d = (of_char c :: nat) - 48"
    have d: "d < 10" "dec_step (unat v) c = unat v * 10 + d"
      using True by (auto simp: d_def dec_digit_def dec_step_def)
    have mono: "n \<le> foldl dec_step n cs" for n cs
    proof (induction cs arbitrary: n)
      case (Cons a cs)
      have "n \<le> dec_step n a" by (simp add: dec_step_def)
      then show ?case using Cons.IH [of "dec_step n a"] by simp
    qed simp
    show ?thesis
    proof (cases "2 ^ 64 \<le> unat v * 10 + d")
      case True
      then show ?thesis
        using cursor_room [OF d(1)] d(2) mono [of "unat v * 10 + d" s] \<open>dec_digit c\<close>
        by (auto simp: d_def [symmetric] Let_def)
    next
      case False
      then have "unat (v * 10 + of_nat d) = unat v * 10 + d"
        by (simp add: unat_word_ariths unat_of_nat)
      then show ?thesis
        using cursor_room [OF d(1)] False \<open>dec_digit c\<close> d(2) Cons.IH
        by (simp add: d_def [symmetric] Let_def)
    qed
  qed simp
qed

section \<open>Properties\<close>

text \<open>
  Polling with a cursor loses nothing silently. After any history of fewer than 2 ^ 64
  observations, the snapshot describes the last observation; the journal holds at most 32
  entries; a page reported without a gap carries exactly the sequence numbers after the cursor up to
  the latest one, each once and in order; and a page with a gap carries the whole journal.
\<close>

theorem journal_page_complete:
  assumes "length xs < 2 ^ 64" and "xs \<noteq> []" and "j = journal_run xs"
    and "page = journal_after j cursor"
  shows "snap_phase (journal_snapshot j) = cti_phase (last xs) \<and>
    snap_registered (journal_snapshot j) = cti_registered (last xs) \<and>
    snap_active_call (journal_snapshot j) = cti_active (last xs) \<and>
    length (jnl_events j) \<le> 32 \<and>
    (\<not> page_gap page \<longrightarrow> map (unat \<circ> pev_sequence) (page_events page) =
       [Suc (unat cursor) ..< Suc (unat (page_latest_sequence page))]) \<and>
    (page_gap page \<longrightarrow> page_events page = jnl_events j)"
proof -
  have inv: "journal_inv j" using journal_run_inv assms(1,3) by simp
  obtain ys y where ys: "xs = ys @ [y]" using assms(2) by (metis rev_exhaust)
  then have j: "j = journal_observe (journal_run ys) y"
    using assms(3) by (simp add: journal_run_def)
  have ne: "jnl_events j \<noteq> []"
    using inv journal_observe_current [of "journal_run ys" y] by (simp add: j journal_inv_def)
  show ?thesis
    using journal_observe_current [of "journal_run ys" y] journal.page_without_gap [OF inv ne]
      journal.page_with_gap [OF inv ne] journal.oldest_positive [OF inv ne] inv ne
    unfolding assms(4) journal_after_def journal_snapshot_def ys j
    by (simp add: Let_def journal_inv_def log_ok_def journal_capacity_def del: upt_Suc)
qed

definition sample_observation :: "SipStatus \<Rightarrow> SipRuntimeObservation" where
  "sample_observation s = observation RuntimeProcess.Running s SipEvidence.VerifiedNativeApi 7"

theorem journal_page_complete_witness:
  "page_gap (journal_after (journal_run [sample_observation SipStatus.Registering,
      sample_observation SipStatus.Registered]) 1) = False \<and>
   map (unat \<circ> pev_sequence) (page_events (journal_after (journal_run
      [sample_observation SipStatus.Registering, sample_observation SipStatus.Registered]) 1)) = [2]"
proof -
  let ?xs = "[sample_observation SipStatus.Registering, sample_observation SipStatus.Registered]"
  let ?page = "journal_after (journal_run ?xs) 1"
  have gap: "page_gap ?page = False" by code_simp
  have latest: "page_latest_sequence ?page = 2" by code_simp
  have "(2 :: nat) < 2 ^ 64" by simp
  then have "map (unat \<circ> pev_sequence) (page_events ?page) = [Suc (unat (1 :: u64)) ..< Suc (unat (2 :: u64))]"
    using journal_page_complete [of ?xs "journal_run ?xs" ?page 1] gap latest by (simp del: upt_Suc)
  with gap show ?thesis by (simp add: upt_rec)
qed

text \<open>
  The cursor parser reads exactly the 64-bit decimals: it accepts a text of 1 to 20 digits
  whose value is below 2 ^ 64 and nothing else, its result is that value without wrap-around, and
  it reads back every number the server prints.
\<close>

theorem cursor_round_trip:
  "(parse_cti_event_cursor s = Some v \<longleftrightarrow>
      s \<noteq> [] \<and> length s \<le> 20 \<and> list_all dec_digit s \<and> dec_value s < 2 ^ 64 \<and>
      unat v = dec_value s) \<and>
   parse_cti_event_cursor (to_string w) = Some w"
proof -
  have *: "parse_cti_event_cursor s = Some v \<longleftrightarrow>
      s \<noteq> [] \<and> length s \<le> 20 \<and> (\<forall>c \<in> set s. dec_digit c) \<and> dec_value s < 2 ^ 64 \<and>
      unat v = dec_value s" for s v
    using cursor_digits_iff [of 0 s v] by (auto simp: parse_cti_event_cursor_def dec_value_def)
  have w: "unat w < 2 ^ 64" using unsigned_less [of w] by simp
  then have "length (to_dec (unat w)) \<le> 20"
    by (intro length_to_dec) (simp_all add: order_less_trans)
  then have "parse_cti_event_cursor (to_string w) = Some w"
    unfolding * to_string_def using digits_to_dec w by auto
  with * show ?thesis by (simp add: list_all_iff)
qed

end
