(* ===== verification/Cti_Requests.thy ===== *)
theory Cti_Requests
  imports Cti_Events "HOL-Library.Sublist"
begin

text \<open>
  The one-slot request queue between the CTI service and the user interface,
  \<open>local_cti_requests.h\<close>: submission with and without an idempotency key, dispatch, completion,
  cancellation, the bounded history of results and the bounded log of transitions. Every method
  holds the queue's mutex, so each is one function on the state.
\<close>

section \<open>Data\<close>

datatype CtiRequestState = Queued | Dispatching | Submitted | Rejected | Cancelled

datatype CtiCancelOutcome = Cancelled | NotFound | TooLate

datatype CtiSubmitOutcome = Created | Replayed | KeyConflict | Busy | NotReady

record CtiSubmitResult =
  sub_outcome :: CtiSubmitOutcome
  sub_id :: u64
  sub_state :: CtiRequestState

fun cti_request_state_name :: "CtiRequestState \<Rightarrow> string" where
  "cti_request_state_name CtiRequestState.Queued = ''queued''"
| "cti_request_state_name CtiRequestState.Dispatching = ''dispatching''"
| "cti_request_state_name CtiRequestState.Submitted = ''submitted''"
| "cti_request_state_name CtiRequestState.Rejected = ''rejected''"
| "cti_request_state_name CtiRequestState.Cancelled = ''cancelled''"

record CtiPendingRequest =
  pnd_id :: u64
  pnd_destination :: wstr

record CtiRequestResult =
  rec_id :: u64
  rec_state :: CtiRequestState
  rec_idempotency_key :: string
  rec_idempotency_destination :: wstr

record CtiRequestTransition =
  tr_sequence :: u64
  tr_request_id :: u64
  tr_state :: CtiRequestState

record CtiRequestEventsPage =
  rpage_latest_sequence :: u64
  rpage_oldest_sequence :: u64
  rpage_gap :: bool
  rpage_events :: "CtiRequestTransition list"

record CtiRequestQueue =
  crq_next :: u64
  crq_pending :: "CtiPendingRequest option"
  crq_active :: "CtiPendingRequest option"
  crq_records :: "CtiRequestResult list"
  crq_events :: "CtiRequestTransition list"
  crq_event_sequence :: u64

definition empty_requests :: CtiRequestQueue where
  "empty_requests = \<lparr>crq_next = 1, crq_pending = None, crq_active = None, crq_records = [],
     crq_events = [], crq_event_sequence = 0\<rparr>"

definition requests_capacity :: nat where
  "requests_capacity = 32"

definition event_capacity :: nat where
  "event_capacity = 64"

definition request_event_json :: "CtiRequestTransition \<Rightarrow> string" where
  "request_event_json e = ''{\"sequence\":'' @ to_string (tr_sequence e) @
     '',\"request_id\":'' @ to_string (tr_request_id e) @
     '',\"status\":\"'' @ cti_request_state_name (tr_state e) @ ''\"}''"

definition cti_request_events_json :: "CtiRequestEventsPage \<Rightarrow> string" where
  "cti_request_events_json page =
     ''{\"latest_sequence\":'' @ to_string (rpage_latest_sequence page) @
     '',\"oldest_sequence\":'' @ to_string (rpage_oldest_sequence page) @
     '',\"gap\":'' @ json_bool (rpage_gap page) @ '',\"events\":['' @
     json_entries request_event_json (rpage_events page) @ '']}''"

text \<open>Only the number and the state of a record are printed.\<close>

definition cti_request_json :: "u64 \<Rightarrow> CtiRequestState \<Rightarrow> string" where
  "cti_request_json request_id state = ''{\"request_id\":'' @ to_string request_id @
     '',\"status\":\"'' @ cti_request_state_name state @ ''\"}''"

section \<open>Operations\<close>

text \<open>A loop that changes the first record with a property and stops.\<close>

fun update_first :: "('a \<Rightarrow> bool) \<Rightarrow> ('a \<Rightarrow> 'a) \<Rightarrow> 'a list \<Rightarrow> 'a list" where
  "update_first P f [] = []"
| "update_first P f (x # xs) = (if P x then f x # xs else x # update_first P f xs)"

definition append_event_locked :: "CtiRequestQueue \<Rightarrow> u64 \<Rightarrow> CtiRequestState \<Rightarrow> CtiRequestQueue" where
  "append_event_locked q i state =
     (if crq_event_sequence q = u64_max then q
      else q\<lparr>crq_event_sequence := crq_event_sequence q + 1,
             crq_events := push_bounded event_capacity (crq_events q)
               \<lparr>tr_sequence = crq_event_sequence q + 1, tr_request_id = i, tr_state = state\<rparr>\<rparr>)"

text \<open>The common part of both submissions: a new identifier, the pending request, its record and
  the first event.\<close>

definition enqueue_request ::
    "CtiRequestQueue \<Rightarrow> wstr \<Rightarrow> string \<Rightarrow> wstr \<Rightarrow> CtiRequestQueue" where
  "enqueue_request q destination key key_destination =
     append_event_locked
       (q\<lparr>crq_next := crq_next q + 1,
          crq_pending := Some \<lparr>pnd_id = crq_next q, pnd_destination = destination\<rparr>,
          crq_records := push_bounded requests_capacity (crq_records q)
            \<lparr>rec_id = crq_next q, rec_state = CtiRequestState.Queued, rec_idempotency_key = key,
             rec_idempotency_destination = key_destination\<rparr>\<rparr>)
       (crq_next q) CtiRequestState.Queued"

definition requests_submit :: "CtiRequestQueue \<Rightarrow> wstr \<Rightarrow> u64 option \<times> CtiRequestQueue" where
  "requests_submit q destination =
     (if destination = [] then (None, q)
      else if crq_pending q \<noteq> None \<or> crq_active q \<noteq> None \<or> crq_next q = 0 then (None, q)
      else (Some (crq_next q), enqueue_request q destination [] []))"

definition submit_idempotent ::
    "CtiRequestQueue \<Rightarrow> wstr \<Rightarrow> string \<Rightarrow> bool \<Rightarrow> CtiSubmitResult \<times> CtiRequestQueue" where
  "submit_idempotent q destination key ready =
     (let busy = \<lparr>sub_outcome = CtiSubmitOutcome.Busy, sub_id = 0,
                  sub_state = CtiRequestState.Queued\<rparr> in
      if destination = [] then (busy, q)
      else (case (if key = [] then None
                  else find (\<lambda>r. rec_idempotency_key r = key) (crq_records q)) of
          Some r \<Rightarrow>
            (\<lparr>sub_outcome = (if rec_idempotency_destination r \<noteq> destination
                then CtiSubmitOutcome.KeyConflict else CtiSubmitOutcome.Replayed),
              sub_id = rec_id r, sub_state = rec_state r\<rparr>, q)
        | None \<Rightarrow>
            (if \<not> ready then (busy\<lparr>sub_outcome := CtiSubmitOutcome.NotReady\<rparr>, q)
             else if crq_pending q \<noteq> None \<or> crq_active q \<noteq> None \<or> crq_next q = 0 then (busy, q)
             else (\<lparr>sub_outcome = CtiSubmitOutcome.Created, sub_id = crq_next q,
                    sub_state = CtiRequestState.Queued\<rparr>,
                   enqueue_request q destination key (if key = [] then [] else destination)))))"

definition set_state :: "CtiRequestState \<Rightarrow> CtiRequestResult \<Rightarrow> CtiRequestResult" where
  [simp]: "set_state s r = r\<lparr>rec_state := s\<rparr>"

definition reject_pending :: "CtiRequestQueue \<Rightarrow> bool \<times> CtiRequestQueue" where
  "reject_pending q =
     (case crq_pending q of
        None \<Rightarrow> (False, q)
      | Some p \<Rightarrow>
          (let q = q\<lparr>crq_pending := None\<rparr>;
               queued = (\<lambda>r. rec_id r = pnd_id p \<and> rec_state r = CtiRequestState.Queued) in
           case find queued (crq_records q) of
             None \<Rightarrow> (False, q)
           | Some r \<Rightarrow>
               (True, append_event_locked
                  (q\<lparr>crq_records := update_first queued (set_state CtiRequestState.Rejected)
                       (crq_records q)\<rparr>)
                  (pnd_id p) CtiRequestState.Rejected)))"

definition requests_take :: "CtiRequestQueue \<Rightarrow> CtiPendingRequest option \<times> CtiRequestQueue" where
  "requests_take q =
     (case crq_pending q of
        None \<Rightarrow> (None, q)
      | Some p \<Rightarrow>
          (if crq_active q \<noteq> None then (None, q)
           else (let q = q\<lparr>crq_active := Some p, crq_pending := None\<rparr>;
                     same = (\<lambda>r. rec_id r = pnd_id p) in
             case find same (crq_records q) of
               None \<Rightarrow> (Some p, q)
             | Some r \<Rightarrow>
                 (Some p, append_event_locked
                    (q\<lparr>crq_records := update_first same (set_state CtiRequestState.Dispatching)
                         (crq_records q)\<rparr>)
                    (pnd_id p) CtiRequestState.Dispatching))))"

definition requests_complete :: "CtiRequestQueue \<Rightarrow> u64 \<Rightarrow> bool \<Rightarrow> bool \<times> CtiRequestQueue" where
  "requests_complete q i submitted =
     (case crq_active q of
        None \<Rightarrow> (False, q)
      | Some a \<Rightarrow>
          (if pnd_id a \<noteq> i then (False, q)
           else (let q = q\<lparr>crq_active := None\<rparr>; same = (\<lambda>r. rec_id r = i);
                     state = (if submitted then CtiRequestState.Submitted
                              else CtiRequestState.Rejected) in
             case find same (crq_records q) of
               None \<Rightarrow> (False, q)
             | Some r \<Rightarrow>
                 (True, append_event_locked
                    (q\<lparr>crq_records := update_first same (set_state state) (crq_records q)\<rparr>)
                    i state))))"

definition requests_cancel :: "CtiRequestQueue \<Rightarrow> u64 \<Rightarrow> CtiCancelOutcome \<times> CtiRequestQueue" where
  "requests_cancel q i =
     (case find (\<lambda>r. rec_id r = i) (crq_records q) of
        None \<Rightarrow> (CtiCancelOutcome.NotFound, q)
      | Some r \<Rightarrow>
          (if (case crq_pending q of None \<Rightarrow> True | Some p \<Rightarrow> pnd_id p \<noteq> i) \<or>
              rec_state r \<noteq> CtiRequestState.Queued
           then (CtiCancelOutcome.TooLate, q)
           else (CtiCancelOutcome.Cancelled, append_event_locked
             (q\<lparr>crq_pending := None,
                crq_records := update_first (\<lambda>r. rec_id r = i)
                  (set_state CtiRequestState.Cancelled) (crq_records q)\<rparr>)
             i CtiRequestState.Cancelled)))"

definition requests_get :: "CtiRequestQueue \<Rightarrow> u64 \<Rightarrow> CtiRequestResult option" where
  "requests_get q i = find (\<lambda>r. rec_id r = i) (crq_records q)"

definition events_after :: "CtiRequestQueue \<Rightarrow> u64 \<Rightarrow> CtiRequestEventsPage" where
  "events_after q after =
     (let oldest = (if crq_events q = [] then 0 else tr_sequence (hd (crq_events q))) in
      \<lparr>rpage_latest_sequence = crq_event_sequence q, rpage_oldest_sequence = oldest,
       rpage_gap = (oldest > 0 \<and> after < oldest - 1),
       rpage_events = filter (\<lambda>e. tr_sequence e > after) (crq_events q)\<rparr>)"

definition events_after_for_request ::
    "CtiRequestQueue \<Rightarrow> u64 \<Rightarrow> u64 \<Rightarrow> CtiRequestEventsPage option" where
  "events_after_for_request q i after =
     (if \<not> (\<exists>r \<in> set (crq_records q). rec_id r = i) then None
      else (let oldest = (if crq_events q = [] then 0 else tr_sequence (hd (crq_events q))) in
        Some \<lparr>rpage_latest_sequence = crq_event_sequence q, rpage_oldest_sequence = oldest,
              rpage_gap = (oldest > 0 \<and> after < oldest - 1),
              rpage_events = filter (\<lambda>e. tr_sequence e > after \<and> tr_request_id e = i)
                (crq_events q)\<rparr>))"

definition requests_clear :: "CtiRequestQueue \<Rightarrow> CtiRequestQueue" where
  "requests_clear q = q\<lparr>crq_pending := None, crq_active := None, crq_records := [],
     crq_events := []\<rparr>"

section \<open>The invariant\<close>

text \<open>The life of a request: queued, then dispatching, with three ways to end.\<close>

definition lifecycle :: "(CtiRequestState \<times> CtiRequestState) set" where
  "lifecycle = {(CtiRequestState.Queued, CtiRequestState.Dispatching),
     (CtiRequestState.Queued, CtiRequestState.Rejected),
     (CtiRequestState.Queued, CtiRequestState.Cancelled),
     (CtiRequestState.Dispatching, CtiRequestState.Submitted),
     (CtiRequestState.Dispatching, CtiRequestState.Rejected)}"

definition request_over :: "CtiRequestResult \<Rightarrow> bool" where
  "request_over r \<longleftrightarrow> rec_state r \<noteq> CtiRequestState.Queued \<and> rec_state r \<noteq> CtiRequestState.Dispatching"

text \<open>Only the newest record can be open; it is the pending or the active request.\<close>

definition newest_open :: "CtiRequestResult list \<Rightarrow> u64 \<Rightarrow> CtiRequestState \<Rightarrow> bool" where
  "newest_open rs i s \<longleftrightarrow> rs \<noteq> [] \<and> rec_id (last rs) = i \<and> rec_state (last rs) = s \<and>
     (\<forall>r \<in> set (butlast rs). request_over r)"

definition open_ok :: "CtiRequestQueue \<Rightarrow> bool" where
  "open_ok q \<longleftrightarrow> (case crq_pending q of
       None \<Rightarrow> (case crq_active q of
           None \<Rightarrow> \<forall>r \<in> set (crq_records q). request_over r
         | Some a \<Rightarrow> newest_open (crq_records q) (pnd_id a) CtiRequestState.Dispatching)
     | Some p \<Rightarrow> crq_active q = None \<and>
         newest_open (crq_records q) (pnd_id p) CtiRequestState.Queued)"

definition ids_ok :: "CtiRequestQueue \<Rightarrow> bool" where
  "ids_ok q \<longleftrightarrow> sorted_wrt (<) (map rec_id (crq_records q)) \<and>
     (\<forall>r \<in> set (crq_records q). rec_id r \<noteq> 0 \<and> (crq_next q \<noteq> 0 \<longrightarrow> rec_id r < crq_next q)) \<and>
     length (crq_records q) \<le> requests_capacity"

definition keys_ok :: "CtiRequestQueue \<Rightarrow> bool" where
  "keys_ok q \<longleftrightarrow> distinct (filter (\<lambda>k. k \<noteq> []) (map rec_idempotency_key (crq_records q)))"

text \<open>The state the log shows for a request is that of its record.\<close>

definition event_state :: "u64 \<Rightarrow> CtiRequestTransition list \<Rightarrow> CtiRequestState option" where
  "event_state i es = (let own = filter (\<lambda>e. tr_request_id e = i) es in
     if own = [] then None else Some (tr_state (last own)))"

definition log_agrees :: "CtiRequestQueue \<Rightarrow> bool" where
  "log_agrees q \<longleftrightarrow> crq_event_sequence q = u64_max \<or>
     (\<forall>r \<in> set (crq_records q).
        event_state (rec_id r) (crq_events q) \<in> {None, Some (rec_state r)})"

definition log_numbered :: "CtiRequestQueue \<Rightarrow> bool" where
  "log_numbered q \<longleftrightarrow>
     log_ok tr_sequence event_capacity (unat (crq_event_sequence q)) (crq_events q)"

definition requests_inv :: "CtiRequestQueue \<Rightarrow> bool" where
  "requests_inv q \<longleftrightarrow> open_ok q \<and> ids_ok q \<and> keys_ok q \<and> log_agrees q \<and> log_numbered q"

interpretation request_log: event_log crq_events crq_event_sequence tr_sequence event_capacity log_numbered
  by unfold_locales (simp_all add: log_numbered_def log_ok_def del: upt_Suc)

lemma requests_inv_empty: "requests_inv empty_requests"
  by (simp add: requests_inv_def empty_requests_def open_ok_def ids_ok_def keys_ok_def
      log_agrees_def log_numbered_def event_state_def)

datatype RequestOp =
    Submit wstr
  | SubmitKey wstr string bool
  | RejectPending
  | Take
  | Complete u64 bool
  | Cancel u64
  | Clear

fun request_op :: "CtiRequestQueue \<Rightarrow> RequestOp \<Rightarrow> CtiRequestQueue" where
  "request_op q (Submit d) = snd (requests_submit q d)"
| "request_op q (SubmitKey d k ready) = snd (submit_idempotent q d k ready)"
| "request_op q RejectPending = snd (reject_pending q)"
| "request_op q Take = snd (requests_take q)"
| "request_op q (Complete i ok) = snd (requests_complete q i ok)"
| "request_op q (Cancel i) = snd (requests_cancel q i)"
| "request_op q Clear = requests_clear q"

subsection \<open>What an operation can do\<close>

lemma append_event_fields [simp]:
  "crq_next (append_event_locked q i s) = crq_next q"
  "crq_pending (append_event_locked q i s) = crq_pending q"
  "crq_active (append_event_locked q i s) = crq_active q"
  "crq_records (append_event_locked q i s) = crq_records q"
  by (simp_all add: append_event_locked_def)

lemma find_last: "\<forall>x \<in> set xs. \<not> P x \<Longrightarrow> P y \<Longrightarrow> find P (xs @ [y]) = Some y"
  by (induction xs) auto

lemma update_first_last: "\<forall>x \<in> set xs. \<not> P x \<Longrightarrow> P y \<Longrightarrow> update_first P f (xs @ [y]) = xs @ [f y]"
  by (induction xs) auto

lemma newest_open_split:
  assumes "newest_open rs i s" and "sorted_wrt (<) (map rec_id rs)"
  obtains xs r where "rs = xs @ [r]" "rec_id r = i" "rec_state r = s" "\<forall>x \<in> set xs. request_over x"
    "\<forall>x \<in> set xs. rec_id x \<noteq> i"
proof -
  let ?xs = "butlast rs" and ?r = "last rs"
  have rs: "rs = ?xs @ [?r]" using assms(1) by (simp add: newest_open_def)
  have "sorted_wrt (<) (map rec_id (?xs @ [?r]))" using assms(2) rs by metis
  then have "\<forall>x \<in> set ?xs. rec_id x < rec_id ?r" by (auto simp: sorted_wrt_append)
  then have "\<forall>x \<in> set ?xs. rec_id x \<noteq> rec_id ?r" by (metis less_irrefl)
  then show thesis using that [OF rs] assms(1) by (simp add: newest_open_def)
qed

definition change_newest ::
    "CtiRequestQueue \<Rightarrow> CtiRequestResult list \<Rightarrow> CtiRequestResult \<Rightarrow> CtiRequestState \<Rightarrow> CtiRequestQueue" where
  "change_newest q rs r s = append_event_locked
     (q\<lparr>crq_pending := None,
        crq_active := (if s = CtiRequestState.Dispatching then crq_pending q else None),
        crq_records := rs @ [r\<lparr>rec_state := s\<rparr>]\<rparr>) (rec_id r) s"

lemma pending_split:
  assumes "requests_inv q" and "crq_pending q = Some p"
  obtains rs r where "crq_records q = rs @ [r]" "rec_id r = pnd_id p"
    "rec_state r = CtiRequestState.Queued" "\<forall>x \<in> set rs. request_over x"
    "\<forall>x \<in> set rs. rec_id x \<noteq> pnd_id p" "crq_active q = None"
  using assms newest_open_split [of "crq_records q" "pnd_id p" CtiRequestState.Queued]
  by (auto simp: requests_inv_def open_ok_def ids_ok_def)

lemma active_split:
  assumes "requests_inv q" and "crq_active q = Some p"
  obtains rs r where "crq_records q = rs @ [r]" "rec_id r = pnd_id p"
    "rec_state r = CtiRequestState.Dispatching" "\<forall>x \<in> set rs. request_over x"
    "\<forall>x \<in> set rs. rec_id x \<noteq> pnd_id p" "crq_pending q = None"
  using assms newest_open_split [of "crq_records q" "pnd_id p" CtiRequestState.Dispatching]
  by (auto simp: requests_inv_def open_ok_def ids_ok_def split: option.splits)

lemma reject_pending_change:
  assumes "requests_inv q" and "crq_pending q = Some p"
  obtains rs r where "crq_records q = rs @ [r]" "rec_id r = pnd_id p"
    "rec_state r = CtiRequestState.Queued" "\<forall>x \<in> set rs. request_over x"
    "reject_pending q = (True, change_newest q rs r CtiRequestState.Rejected)"
proof -
  obtain rs r where r: "crq_records q = rs @ [r]" "rec_id r = pnd_id p"
    "rec_state r = CtiRequestState.Queued" "\<forall>x \<in> set rs. request_over x"
    "\<forall>x \<in> set rs. rec_id x \<noteq> pnd_id p" "crq_active q = None"
    by (rule pending_split [OF assms])
  have "reject_pending q = (True, change_newest q rs r CtiRequestState.Rejected)"
    using assms(2) r by (cases q) (simp add: reject_pending_def Let_def find_last update_first_last change_newest_def)
  with r that show thesis by blast
qed

lemma take_change:
  assumes "requests_inv q" and "crq_pending q = Some p"
  obtains rs r where "crq_records q = rs @ [r]" "rec_id r = pnd_id p"
    "rec_state r = CtiRequestState.Queued" "\<forall>x \<in> set rs. request_over x"
    "requests_take q = (Some p, change_newest q rs r CtiRequestState.Dispatching)"
proof -
  obtain rs r where r: "crq_records q = rs @ [r]" "rec_id r = pnd_id p"
    "rec_state r = CtiRequestState.Queued" "\<forall>x \<in> set rs. request_over x"
    "\<forall>x \<in> set rs. rec_id x \<noteq> pnd_id p" "crq_active q = None"
    by (rule pending_split [OF assms])
  have "requests_take q = (Some p, change_newest q rs r CtiRequestState.Dispatching)"
    using assms(2) r by (cases q) (simp add: requests_take_def Let_def find_last update_first_last change_newest_def)
  with r that show thesis by blast
qed

lemma complete_change:
  assumes "requests_inv q" and "crq_active q = Some p"
  obtains rs r where "crq_records q = rs @ [r]" "rec_id r = pnd_id p"
    "rec_state r = CtiRequestState.Dispatching" "\<forall>x \<in> set rs. request_over x"
    "requests_complete q (pnd_id p) ok = (True, change_newest q rs r
       (if ok then CtiRequestState.Submitted else CtiRequestState.Rejected))"
proof -
  obtain rs r where r: "crq_records q = rs @ [r]" "rec_id r = pnd_id p"
    "rec_state r = CtiRequestState.Dispatching" "\<forall>x \<in> set rs. request_over x"
    "\<forall>x \<in> set rs. rec_id x \<noteq> pnd_id p" "crq_pending q = None"
    by (rule active_split [OF assms])
  have "requests_complete q (pnd_id p) ok = (True, change_newest q rs r
       (if ok then CtiRequestState.Submitted else CtiRequestState.Rejected))"
    using assms(2) r by (cases q) (simp add: requests_complete_def Let_def find_last update_first_last change_newest_def)
  with r that show thesis by blast
qed

lemma cancel_change:
  assumes "requests_inv q"
  shows "snd (requests_cancel q i) = q \<or> (\<exists>p rs r. crq_pending q = Some p \<and> i = pnd_id p \<and>
    crq_records q = rs @ [r] \<and> rec_id r = i \<and> rec_state r = CtiRequestState.Queued \<and>
    (\<forall>x \<in> set rs. request_over x) \<and>
    requests_cancel q i = (CtiCancelOutcome.Cancelled, change_newest q rs r CtiRequestState.Cancelled))"
proof (cases "crq_pending q")
  case None
  then show ?thesis by (simp add: requests_cancel_def split: option.split)
next
  case (Some p)
  obtain rs r where r: "crq_records q = rs @ [r]" "rec_id r = pnd_id p"
    "rec_state r = CtiRequestState.Queued" "\<forall>x \<in> set rs. request_over x"
    "\<forall>x \<in> set rs. rec_id x \<noteq> pnd_id p" "crq_active q = None"
    by (rule pending_split [OF assms Some])
  show ?thesis
  proof (cases "i = pnd_id p")
    case True
    have "requests_cancel q i = (CtiCancelOutcome.Cancelled, change_newest q rs r CtiRequestState.Cancelled)"
      using True Some r by (cases q) (simp add: requests_cancel_def find_last update_first_last change_newest_def)
    then show ?thesis using Some True r by blast
  next
    case False
    then show ?thesis using Some by (simp add: requests_cancel_def split: option.split)
  qed
qed

lemma submit_change:
  "snd (requests_submit q d) = q \<or> crq_pending q = None \<and> crq_active q = None \<and> crq_next q \<noteq> 0 \<and>
     snd (requests_submit q d) = enqueue_request q d [] []"
  by (auto simp: requests_submit_def)

lemma submit_idempotent_change:
  "snd (submit_idempotent q d k ready) = q \<or>
     crq_pending q = None \<and> crq_active q = None \<and> crq_next q \<noteq> 0 \<and>
     (\<forall>r \<in> set (crq_records q). k \<noteq> [] \<longrightarrow> rec_idempotency_key r \<noteq> k) \<and>
     sub_outcome (fst (submit_idempotent q d k ready)) = CtiSubmitOutcome.Created \<and>
     sub_id (fst (submit_idempotent q d k ready)) = crq_next q \<and>
     snd (submit_idempotent q d k ready) = enqueue_request q d k (if k = [] then [] else d)"
  by (auto simp: submit_idempotent_def Let_def find_None_iff split: option.split)

text \<open>Every operation leaves the queue alone, opens a new request, moves the newest request one
  step along its life, or clears the queue.\<close>

lemma request_op_cases:
  assumes "requests_inv q"
  obtains (same) "request_op q op = q"
    | (new) d key kd where "crq_pending q = None" "crq_active q = None" "crq_next q \<noteq> 0"
      "\<forall>r \<in> set (crq_records q). key \<noteq> [] \<longrightarrow> rec_idempotency_key r \<noteq> key"
      "request_op q op = enqueue_request q d key kd"
    | (change) rs r s where "crq_records q = rs @ [r]" "(rec_state r, s) \<in> lifecycle"
      "\<forall>x \<in> set rs. request_over x" "s = CtiRequestState.Dispatching \<longrightarrow>
        (\<exists>p. crq_pending q = Some p \<and> pnd_id p = rec_id r)"
      "request_op q op = change_newest q rs r s"
    | (clear) "request_op q op = requests_clear q"
proof (cases op)
  case (Submit d)
  then show thesis using submit_change [of q d] new [of "[]" d "[]"] same by fastforce
next
  case (SubmitKey d k ready)
  then show thesis
    using submit_idempotent_change [of q d k ready] new [of k d "if k = [] then [] else d"] same
    by (metis request_op.simps(2))
next
  case RejectPending
  show thesis
  proof (cases "crq_pending q")
    case None
    then show thesis using same RejectPending by (simp add: reject_pending_def)
  next
    case (Some p)
    show thesis
      by (rule reject_pending_change [OF assms Some])
        (rule change, auto simp: RejectPending lifecycle_def)
  qed
next
  case Take
  show thesis
  proof (cases "crq_pending q")
    case None
    then show thesis using same Take by (simp add: requests_take_def)
  next
    case (Some p)
    show thesis
      by (rule take_change [OF assms Some]) (rule change, auto simp: Take Some lifecycle_def)
  qed
next
  case (Complete i ok)
  show thesis
  proof (cases "\<exists>p. crq_active q = Some p \<and> pnd_id p = i")
    case False
    then show thesis using same Complete by (auto simp: requests_complete_def split: option.split)
  next
    case True
    then obtain p where p: "crq_active q = Some p" "pnd_id p = i" by blast
    show thesis
      by (rule complete_change [OF assms p(1), of ok])
        (rule change, auto simp: Complete p(2) [symmetric] lifecycle_def)
  qed
next
  case (Cancel i)
  then show thesis
    using cancel_change [OF assms, of i] same change by (fastforce simp: lifecycle_def)
next
  case Clear
  then show thesis using clear by simp
qed

subsection \<open>Every operation keeps the invariant\<close>

lemma push_bounded_drop:
  assumes "0 < cap"
  obtains k where "push_bounded cap xs x = drop k xs @ [x]"
proof (cases "length (xs @ [x]) > cap")
  case True
  then have "push_bounded cap xs x = drop 1 xs @ [x]"
    using assms by (cases xs) (auto simp: push_bounded_def)
  then show thesis by (rule that)
next
  case False
  then have "push_bounded cap xs x = drop 0 xs @ [x]" by (simp add: push_bounded_def)
  then show thesis by (rule that)
qed

lemma length_push_bounded: "length xs \<le> cap \<Longrightarrow> length (push_bounded cap xs x) \<le> cap"
  by (auto simp: push_bounded_def)

lemma event_state_push:
  assumes "0 < cap"
  shows "event_state i (push_bounded cap es e) \<in>
    (if tr_request_id e = i then {Some (tr_state e)} else {None, event_state i es})"
proof -
  obtain k where k: "push_bounded cap es e = drop k es @ [e]"
    by (rule push_bounded_drop [OF assms])
  let ?own = "filter (\<lambda>e. tr_request_id e = i)"
  have "?own es = ?own (take k es) @ ?own (drop k es)" by (metis append_take_drop_id filter_append)
  then show ?thesis unfolding k event_state_def by (auto simp: Let_def)
qed

lemma append_event_numbered: "log_numbered q \<Longrightarrow> log_numbered (append_event_locked q i s)"
  by (auto simp: append_event_locked_def log_numbered_def unat_inc event_capacity_def intro!: log_ok_push)

lemma append_event_open [simp]:
  "open_ok (append_event_locked q i s) = open_ok q" "ids_ok (append_event_locked q i s) = ids_ok q"
  "keys_ok (append_event_locked q i s) = keys_ok q"
  by (simp_all add: open_ok_def ids_ok_def keys_ok_def cong: option.case_cong)

text \<open>The log after an operation that wrote the state \<open>s\<close> of request \<open>i\<close>: the other records
  have not changed.\<close>

lemma append_event_agrees:
  assumes "log_agrees q" and "crq_event_sequence q' = crq_event_sequence q"
    and "crq_events q' = crq_events q"
    and "\<forall>r \<in> set (crq_records q'). rec_id r = i \<and> rec_state r = s \<or>
      rec_id r \<noteq> i \<and> r \<in> set (crq_records q)"
  shows "log_agrees (append_event_locked q' i s)"
proof (cases "crq_event_sequence q = u64_max")
  case True
  then show ?thesis using assms(2) by (simp add: log_agrees_def append_event_locked_def)
next
  case False
  let ?es = "crq_events (append_event_locked q' i s)"
  have es: "?es = push_bounded event_capacity (crq_events q)
      \<lparr>tr_sequence = crq_event_sequence q + 1, tr_request_id = i, tr_state = s\<rparr>"
    using assms(2,3) False by (simp add: append_event_locked_def)
  have "event_state (rec_id r) ?es \<in> {None, Some (rec_state r)}" if "r \<in> set (crq_records q')" for r
    using assms(1,4) that False event_state_push [of event_capacity "rec_id r" "crq_events q"
        "\<lparr>tr_sequence = crq_event_sequence q + 1, tr_request_id = i, tr_state = s\<rparr>"]
    unfolding es by (auto simp: log_agrees_def event_capacity_def split: if_splits)
  then show ?thesis unfolding log_agrees_def by simp
qed

lemma request_enqueue_inv:
  assumes inv: "requests_inv q" and idle: "crq_pending q = None" "crq_active q = None"
    and room: "crq_next q \<noteq> 0"
    and fresh: "\<forall>r \<in> set (crq_records q). key \<noteq> [] \<longrightarrow> rec_idempotency_key r \<noteq> key"
  shows "requests_inv (enqueue_request q d key kd)"
proof -
  let ?r = "\<lparr>rec_id = crq_next q, rec_state = CtiRequestState.Queued, rec_idempotency_key = key,
    rec_idempotency_destination = kd\<rparr>"
  let ?q = "q\<lparr>crq_next := crq_next q + 1,
    crq_pending := Some \<lparr>pnd_id = crq_next q, pnd_destination = d\<rparr>,
    crq_records := push_bounded requests_capacity (crq_records q) ?r\<rparr>"
  have pos: "0 < requests_capacity" by (simp add: requests_capacity_def)
  obtain k where k: "push_bounded requests_capacity (crq_records q) ?r = drop k (crq_records q) @ [?r]"
    by (rule push_bounded_drop [OF pos])
  have sub: "set (drop k (crq_records q)) \<subseteq> set (crq_records q)" by (rule set_drop_subset)
  have ids: "sorted_wrt (<) (map rec_id (crq_records q))" "length (crq_records q) \<le> requests_capacity"
    "\<forall>r \<in> set (crq_records q). rec_id r \<noteq> 0 \<and> rec_id r < crq_next q"
    using inv room by (auto simp: requests_inv_def ids_ok_def)
  have "sorted_wrt (<) (map rec_id (drop k (crq_records q)))"
    using ids(1) by (metis drop_map sorted_wrt_drop)
  moreover have "crq_next q < crq_next q + 1" if "crq_next q + 1 \<noteq> 0"
    using that by (intro inc_gt) auto
  ultimately have "ids_ok ?q"
    using ids sub room length_push_bounded [OF ids(2), of ?r] k
    by (auto simp: ids_ok_def sorted_wrt_append dest: order_less_trans)
  moreover have "open_ok ?q"
    using inv idle sub k by (auto simp: requests_inv_def open_ok_def newest_open_def)
  moreover have "keys_ok ?q"
  proof -
    have "distinct (filter (\<lambda>k. k \<noteq> []) (map rec_idempotency_key (drop k (crq_records q))))"
      using inv append_take_drop_id [of k "crq_records q"]
      by (metis distinct_append filter_append keys_ok_def map_append requests_inv_def)
    then show ?thesis using fresh sub k by (auto simp: keys_ok_def)
  qed
  moreover have "log_agrees (append_event_locked ?q (crq_next q) CtiRequestState.Queued)"
  proof -
    have "\<forall>r \<in> set (drop k (crq_records q)). rec_id r \<noteq> crq_next q"
      using ids(3) sub by (metis less_irrefl subsetD)
    then show ?thesis
      using inv sub k by (intro append_event_agrees [of q]) (auto simp: requests_inv_def)
  qed
  moreover have "log_numbered (append_event_locked ?q (crq_next q) CtiRequestState.Queued)"
    using inv by (intro append_event_numbered) (simp add: requests_inv_def log_numbered_def)
  ultimately show ?thesis by (simp add: requests_inv_def enqueue_request_def)
qed

lemma change_newest_inv:
  assumes inv: "requests_inv q" and rs: "crq_records q = rs @ [r]"
    and step: "(rec_state r, s) \<in> lifecycle" and over: "\<forall>x \<in> set rs. request_over x"
    and disp: "s = CtiRequestState.Dispatching \<longrightarrow> (\<exists>p. crq_pending q = Some p \<and> pnd_id p = rec_id r)"
  shows "requests_inv (change_newest q rs r s)"
proof -
  let ?q = "q\<lparr>crq_pending := None,
    crq_active := (if s = CtiRequestState.Dispatching then crq_pending q else None),
    crq_records := rs @ [r\<lparr>rec_state := s\<rparr>]\<rparr>"
  have "sorted_wrt (<) (map rec_id (rs @ [r]))"
    using inv rs by (simp add: requests_inv_def ids_ok_def)
  then have other: "\<forall>x \<in> set rs. rec_id x \<noteq> rec_id r" by (auto simp: sorted_wrt_append)
  have s: "s \<noteq> CtiRequestState.Dispatching \<longrightarrow> request_over (r\<lparr>rec_state := s\<rparr>)"
    using step by (auto simp: lifecycle_def request_over_def)
  have "open_ok ?q"
    using disp over s by (auto simp: open_ok_def newest_open_def)
  moreover have "ids_ok ?q" "keys_ok ?q"
    using inv rs by (simp_all add: requests_inv_def ids_ok_def keys_ok_def)
  moreover have "log_agrees (append_event_locked ?q (rec_id r) s)"
    using inv rs other by (intro append_event_agrees [of q]) (auto simp: requests_inv_def)
  moreover have "log_numbered (append_event_locked ?q (rec_id r) s)"
    using inv by (intro append_event_numbered) (simp add: requests_inv_def log_numbered_def)
  ultimately show ?thesis by (simp add: requests_inv_def change_newest_def)
qed

lemma requests_clear_inv: "requests_inv q \<Longrightarrow> requests_inv (requests_clear q)"
  by (simp add: requests_inv_def requests_clear_def open_ok_def ids_ok_def keys_ok_def
      log_agrees_def log_numbered_def)

lemma request_op_inv:
  assumes "requests_inv q" shows "requests_inv (request_op q op)"
  using assms
proof (cases rule: request_op_cases [where op = op])
  case same
  with assms show ?thesis by simp
next
  case (new d key kd)
  with request_enqueue_inv [OF assms] show ?thesis by simp
next
  case (change rs r s)
  with change_newest_inv [OF assms] show ?thesis by simp
next
  case clear
  with requests_clear_inv [OF assms] show ?thesis by simp
qed

definition requests_run :: "RequestOp list \<Rightarrow> CtiRequestQueue" where
  "requests_run ops = foldl request_op empty_requests ops"

lemma requests_run_inv: "requests_inv (requests_run ops)"
  unfolding requests_run_def
  by (induction ops rule: rev_induct) (simp_all add: requests_inv_empty request_op_inv)

section \<open>Histories\<close>

text \<open>The requests an operation creates, and those it hands to the user interface, as pairs of
  identifier and destination.\<close>

fun op_created :: "CtiRequestQueue \<Rightarrow> RequestOp \<Rightarrow> (u64 \<times> wstr) list" where
  "op_created q (Submit d) = (case fst (requests_submit q d) of None \<Rightarrow> [] | Some i \<Rightarrow> [(i, d)])"
| "op_created q (SubmitKey d k ready) =
     (let r = fst (submit_idempotent q d k ready) in
      if sub_outcome r = CtiSubmitOutcome.Created then [(sub_id r, d)] else [])"
| "op_created q _ = []"

fun op_taken :: "CtiRequestQueue \<Rightarrow> RequestOp \<Rightarrow> (u64 \<times> wstr) list" where
  "op_taken q Take = (case fst (requests_take q) of
     None \<Rightarrow> [] | Some p \<Rightarrow> [(pnd_id p, pnd_destination p)])"
| "op_taken q _ = []"

definition trace_step ::
    "CtiRequestQueue \<times> (u64 \<times> wstr) list \<times> (u64 \<times> wstr) list \<Rightarrow> RequestOp \<Rightarrow>
     CtiRequestQueue \<times> (u64 \<times> wstr) list \<times> (u64 \<times> wstr) list" where
  "trace_step st op = (case st of (q, created, taken) \<Rightarrow>
     (request_op q op, created @ op_created q op, taken @ op_taken q op))"

definition requests_trace ::
    "RequestOp list \<Rightarrow> CtiRequestQueue \<times> (u64 \<times> wstr) list \<times> (u64 \<times> wstr) list" where
  "requests_trace ops = foldl trace_step (empty_requests, [], []) ops"

definition queue_trace_inv :: "CtiRequestQueue \<times> (u64 \<times> wstr) list \<times> (u64 \<times> wstr) list \<Rightarrow> bool" where
  "queue_trace_inv st \<longleftrightarrow> (case st of (q, created, taken) \<Rightarrow>
     requests_inv q \<and> sorted_wrt (<) (map fst created) \<and>
     (\<forall>x \<in> set created. fst x \<noteq> 0 \<and> (crq_next q \<noteq> 0 \<longrightarrow> fst x < crq_next q)) \<and>
     (case crq_pending q of
        None \<Rightarrow> subseq taken created
      | Some p \<Rightarrow> \<exists>before. created = before @ [(pnd_id p, pnd_destination p)] \<and>
          subseq taken before))"

lemma op_created_cases:
  "op_created q op = [] \<and> crq_next (request_op q op) = crq_next q \<and>
     (crq_pending (request_op q op) = crq_pending q \<or> crq_pending (request_op q op) = None) \<or>
   (\<exists>d. op_created q op = [(crq_next q, d)] \<and> op_taken q op = [] \<and> crq_next q \<noteq> 0 \<and>
     crq_pending q = None \<and> crq_next (request_op q op) = crq_next q + 1 \<and>
     crq_pending (request_op q op) = Some \<lparr>pnd_id = crq_next q, pnd_destination = d\<rparr>)"
proof (cases op)
  case (Submit d)
  then show ?thesis by (simp add: requests_submit_def enqueue_request_def)
next
  case (SubmitKey d k ready)
  then show ?thesis
    by (simp add: submit_idempotent_def enqueue_request_def Let_def split: option.split)
next
  case RejectPending
  then show ?thesis by (simp add: reject_pending_def Let_def split: option.split)
next
  case Take
  then show ?thesis by (simp add: requests_take_def Let_def split: option.split)
next
  case (Complete i ok)
  then show ?thesis by (simp add: requests_complete_def Let_def split: option.split)
next
  case (Cancel i)
  then show ?thesis by (simp add: requests_cancel_def Let_def split: option.split)
next
  case Clear
  then show ?thesis by (simp add: requests_clear_def)
qed

lemma op_taken_cases:
  assumes "requests_inv q"
  shows "op_taken q op = [] \<or> (\<exists>p. crq_pending q = Some p \<and>
    op_taken q op = [(pnd_id p, pnd_destination p)] \<and> op_created q op = [] \<and>
    crq_pending (request_op q op) = None)"
proof (cases op)
  case Take
  show ?thesis
  proof (cases "crq_pending q")
    case None
    then show ?thesis using Take by (simp add: requests_take_def)
  next
    case (Some p)
    show ?thesis
      by (rule take_change [OF assms Some]) (simp add: Take Some change_newest_def)
  qed
qed simp_all

lemma trace_step_inv:
  assumes "queue_trace_inv st" shows "queue_trace_inv (trace_step st op)"
proof -
  obtain q cr tk where st: "st = (q, cr, tk)" by (metis surj_pair)
  let ?q = "request_op q op"
  have inv: "requests_inv q" and sorted: "sorted_wrt (<) (map fst cr)"
    and bound: "\<forall>x \<in> set cr. fst x \<noteq> 0 \<and> (crq_next q \<noteq> 0 \<longrightarrow> fst x < crq_next q)"
    and pend: "case crq_pending q of None \<Rightarrow> subseq tk cr
      | Some p \<Rightarrow> \<exists>before. cr = before @ [(pnd_id p, pnd_destination p)] \<and> subseq tk before"
    using assms by (simp_all add: queue_trace_inv_def st)
  have all: "subseq tk cr"
    using pend by (cases "crq_pending q") (auto intro: list_emb_append2 subseq_order.trans)
  have inv': "requests_inv ?q" by (rule request_op_inv [OF inv])
  consider (create) d where "op_created q op = [(crq_next q, d)]" "op_taken q op = []"
      "crq_next q \<noteq> 0" "crq_next ?q = crq_next q + 1" "crq_pending q = None"
      "crq_pending ?q = Some \<lparr>pnd_id = crq_next q, pnd_destination = d\<rparr>"
    | (take) p where "op_created q op = []" "crq_next ?q = crq_next q" "crq_pending q = Some p"
      "op_taken q op = [(pnd_id p, pnd_destination p)]" "crq_pending ?q = None"
    | (quiet) "op_created q op = []" "op_taken q op = []" "crq_next ?q = crq_next q"
      "crq_pending ?q = crq_pending q \<or> crq_pending ?q = None"
    using op_created_cases [of q op] op_taken_cases [OF inv, of op] by fastforce
  then show ?thesis
  proof cases
    case create
    have "crq_next q < crq_next q + 1" if "crq_next q + 1 \<noteq> 0"
      using that by (intro inc_gt) auto
    then show ?thesis
      using inv' sorted bound all create
      by (auto simp: queue_trace_inv_def trace_step_def st sorted_wrt_append dest: order_less_trans)
  next
    case take
    then obtain before where "cr = before @ [(pnd_id p, pnd_destination p)]" "subseq tk before"
      using pend by auto
    then have "subseq (tk @ [(pnd_id p, pnd_destination p)]) cr"
      by (simp add: list_emb_append_mono)
    then show ?thesis
      using inv' sorted bound take by (simp add: queue_trace_inv_def trace_step_def st)
  next
    case quiet
    then show ?thesis
      using inv' sorted bound all pend by (auto simp: queue_trace_inv_def trace_step_def st)
  qed
qed

lemma requests_queue_trace_inv: "queue_trace_inv (requests_trace ops)"
  unfolding requests_trace_def
proof (induction ops rule: rev_induct)
  case Nil
  then show ?case using requests_inv_empty by (simp add: queue_trace_inv_def empty_requests_def)
next
  case (snoc op ops)
  then show ?case by (simp add: trace_step_inv)
qed

lemma subseq_distinct: "subseq xs ys \<Longrightarrow> distinct ys \<Longrightarrow> distinct xs"
  by (induction rule: list_emb.induct) (auto dest: list_emb_set)

lemma requests_trace_run: "fst (requests_trace ops) = requests_run ops"
  unfolding requests_trace_def requests_run_def
  by (induction ops rule: rev_induct) (auto simp: trace_step_def split: prod.splits)

section \<open>Idempotency keys\<close>

text \<open>A record never changes its key or destination, and its number is never given out again.\<close>

definition keeps_key :: "u64 \<Rightarrow> string \<Rightarrow> wstr \<Rightarrow> CtiRequestQueue \<Rightarrow> bool" where
  "keeps_key i k d q \<longleftrightarrow> requests_inv q \<and> (crq_next q \<noteq> 0 \<longrightarrow> i < crq_next q) \<and>
     (\<forall>r \<in> set (crq_records q). rec_id r = i \<longrightarrow>
        rec_idempotency_key r = k \<and> rec_idempotency_destination r = d)"

lemma keeps_key_op:
  assumes "keeps_key i k d q" shows "keeps_key i k d (request_op q op)"
proof -
  have inv: "requests_inv q" using assms by (simp add: keeps_key_def)
  have inv': "requests_inv (request_op q op)" by (rule request_op_inv [OF inv])
  from inv show ?thesis
  proof (cases rule: request_op_cases [where op = op])
    case same
    with assms show ?thesis by simp
  next
    case (new d' key kd)
    obtain n where n: "crq_records (request_op q op) = drop n (crq_records q) @
      [\<lparr>rec_id = crq_next q, rec_state = CtiRequestState.Queued, rec_idempotency_key = key,
        rec_idempotency_destination = kd\<rparr>]"
      using push_bounded_drop [of requests_capacity "crq_records q"] new(5)
      by (auto simp: enqueue_request_def requests_capacity_def)
    have less: "i < crq_next q" using assms new(3) by (simp add: keeps_key_def)
    moreover have "i < crq_next q + 1" if "crq_next q + 1 \<noteq> 0"
    proof -
      have "crq_next q < crq_next q + 1" using that by (intro inc_gt) auto
      with less show ?thesis by (rule order_less_trans)
    qed
    moreover have "crq_next (request_op q op) = crq_next q + 1"
      using new(5) by (simp add: enqueue_request_def)
    ultimately show ?thesis
      using assms inv' n by (auto simp: keeps_key_def dest: in_set_dropD)
  next
    case (change rs r s)
    then show ?thesis using assms inv' by (auto simp: keeps_key_def change_newest_def)
  next
    case clear
    then show ?thesis using assms inv' by (simp add: keeps_key_def requests_clear_def)
  qed
qed

lemma keeps_key_run: "keeps_key i k d q \<Longrightarrow> keeps_key i k d (foldl request_op q ops)"
  by (induction ops arbitrary: q) (simp_all add: keeps_key_op)

lemma find_key:
  assumes "distinct (filter (\<lambda>k. k \<noteq> []) (map rec_idempotency_key rs))" and "r \<in> set rs"
    and "rec_idempotency_key r = k" and "k \<noteq> []"
  shows "find (\<lambda>x. rec_idempotency_key x = k) rs = Some r"
  using assms
proof (induction rs)
  case Nil
  then show ?case by simp
next
  case (Cons x rs)
  show ?case
  proof (cases "rec_idempotency_key x = k")
    case True
    have "\<forall>y \<in> set rs. rec_idempotency_key y \<noteq> k"
      using Cons.prems(1,4) True by (auto simp: image_iff)
    then show ?thesis using True Cons.prems(2,3) by auto
  next
    case False
    then show ?thesis using Cons by (auto split: if_splits)
  qed
qed

lemma created_keeps_key:
  assumes "requests_inv q" and "submit_idempotent q d k ready = (res, q1)"
    and "sub_outcome res = CtiSubmitOutcome.Created" and "k \<noteq> []"
  shows "keeps_key (sub_id res) k d q1"
proof -
  have ne: "q1 \<noteq> q \<or> sub_outcome res \<noteq> CtiSubmitOutcome.Created"
  proof -
    have "crq_next q + 1 \<noteq> crq_next q" by simp
    then have "enqueue_request q d k (if k = [] then [] else d) \<noteq> q"
    proof -
      have "crq_next (enqueue_request q d k (if k = [] then [] else d)) = crq_next q + 1"
        by (simp add: enqueue_request_def)
      with \<open>crq_next q + 1 \<noteq> crq_next q\<close> show ?thesis by metis
    qed
    then show ?thesis
      using assms(2) by (auto simp: submit_idempotent_def Let_def split: option.splits if_splits)
  qed
  have e: "crq_next q \<noteq> 0" "sub_id res = crq_next q" "q1 = enqueue_request q d k d"
    "q1 = request_op q (SubmitKey d k ready)"
    using submit_idempotent_change [of q d k ready] ne assms(2-4) by auto
  have inv': "requests_inv q1"
    unfolding e(4) by (rule request_op_inv [OF assms(1)])
  obtain n where n: "crq_records q1 = drop n (crq_records q) @
      [\<lparr>rec_id = crq_next q, rec_state = CtiRequestState.Queued, rec_idempotency_key = k,
        rec_idempotency_destination = d\<rparr>]"
    using push_bounded_drop [of requests_capacity "crq_records q"] e(3)
    by (auto simp: enqueue_request_def requests_capacity_def)
  have "crq_next q1 = crq_next q + 1" using e(3) by (simp add: enqueue_request_def)
  moreover have "crq_next q < crq_next q + 1" if "crq_next q + 1 \<noteq> 0"
    using that by (intro inc_gt) auto
  moreover have "\<forall>r \<in> set (drop n (crq_records q)). rec_id r \<noteq> crq_next q"
    using assms(1) e(1) by (metis ids_ok_def in_set_dropD less_irrefl requests_inv_def)
  ultimately show ?thesis using inv' n e(2) by (auto simp: keeps_key_def)
qed

lemma open_at_most_one:
  assumes "requests_inv q"
  shows "length (filter (\<lambda>r. \<not> request_over r) (crq_records q)) \<le> 1"
proof -
  have *: "length (filter (\<lambda>r. \<not> request_over r) rs) \<le> 1" if "\<forall>r \<in> set (butlast rs). request_over r" for rs
    using that by (cases rs rule: rev_cases) (auto simp: filter_empty_conv)
  show ?thesis
    using assms by (intro *) (auto simp: requests_inv_def open_ok_def newest_open_def
        split: option.splits dest: in_set_butlastD)
qed

text \<open>With increasing identifiers, looking a record up by number finds the record with that number.\<close>

lemma find_by_id:
  assumes "sorted_wrt (<) (map rec_id rs)" and "r \<in> set rs"
  shows "find (\<lambda>x. rec_id x = rec_id r) rs = Some r"
  using assms
proof (induction rs)
  case (Cons x rs)
  then show ?case by (cases "r = x") (auto dest: less_imp_neq)
qed simp

lemma get_Some:
  assumes "requests_inv q"
  shows "requests_get q i = Some r \<longleftrightarrow> r \<in> set (crq_records q) \<and> rec_id r = i"
proof
  assume "requests_get q i = Some r"
  then show "r \<in> set (crq_records q) \<and> rec_id r = i"
    by (auto simp: requests_get_def find_Some_iff)
next
  assume "r \<in> set (crq_records q) \<and> rec_id r = i"
  then show "requests_get q i = Some r"
    using assms find_by_id by (auto simp: requests_get_def requests_inv_def ids_ok_def)
qed

lemma record_unique:
  "requests_inv q \<Longrightarrow> r \<in> set (crq_records q) \<Longrightarrow> r' \<in> set (crq_records q) \<Longrightarrow> rec_id r = rec_id r' \<Longrightarrow> r = r'"
  using get_Some by (metis option.inject)

lemma get_step:
  assumes "requests_inv q" and "requests_get q i = Some r" and "requests_get (request_op q op) i = Some r'"
  shows "r' = r \<or> (rec_state r, rec_state r') \<in> lifecycle \<and> r' = r\<lparr>rec_state := rec_state r'\<rparr>"
proof -
  have r: "r \<in> set (crq_records q)" "rec_id r = i" using assms(1,2) by (auto simp: get_Some)
  have r': "r' \<in> set (crq_records (request_op q op))" "rec_id r' = i"
    using assms(3) request_op_inv [OF assms(1)] by (auto simp: get_Some)
  from assms(1) show ?thesis
  proof (cases rule: request_op_cases [where op = op])
    case same
    then show ?thesis using assms(2,3) by simp
  next
    case (new d key kd)
    obtain n where "crq_records (request_op q op) = drop n (crq_records q) @
      [\<lparr>rec_id = crq_next q, rec_state = CtiRequestState.Queued, rec_idempotency_key = key,
        rec_idempotency_destination = kd\<rparr>]"
      using push_bounded_drop [of requests_capacity "crq_records q"] new(5)
      by (auto simp: enqueue_request_def requests_capacity_def)
    moreover have "i < crq_next q"
      using assms(1) r new(3) by (auto simp: requests_inv_def ids_ok_def)
    ultimately have "r' \<in> set (crq_records q)" using r' by (auto dest: in_set_dropD)
    then show ?thesis using record_unique [OF assms(1) r(1)] r(2) r'(2) by simp
  next
    case (change rs x s)
    then have recs: "crq_records (request_op q op) = rs @ [x\<lparr>rec_state := s\<rparr>]"
      by (simp add: change_newest_def)
    show ?thesis
    proof (cases "r' \<in> set rs")
      case True
      then show ?thesis using record_unique [OF assms(1) r(1), of r'] change(1) r(2) r'(2) by simp
    next
      case False
      then have "r' = x\<lparr>rec_state := s\<rparr>" using recs r'(1) by auto
      moreover from this have "r = x"
        using record_unique [OF assms(1) r(1), of x] change(1) r(2) r'(2) by simp
      ultimately show ?thesis using change(2) by simp
    qed
  next
    case clear
    then show ?thesis using r'(1) by (simp add: requests_clear_def)
  qed
qed

section \<open>Properties\<close>

text \<open>
  C21. Every request is dispatched at most once, in order, and as it was accepted. Over any
  sequence of submissions, retries, readiness losses, takes, completions, cancellations and server
  restarts, the identifiers of accepted requests are nonzero and strictly increasing, and the
  requests handed to the user interface are a subsequence of the accepted ones, destinations
  included.
\<close>

theorem requests_dispatched_at_most_once:
  "case requests_trace ops of (q, created, taken) \<Rightarrow>
     sorted_wrt (<) (map fst created) \<and> 0 \<notin> set (map fst created) \<and>
     subseq taken created \<and> distinct (map fst taken)"
proof -
  obtain q cr tk where tr: "requests_trace ops = (q, cr, tk)" by (metis surj_pair)
  have inv: "queue_trace_inv (q, cr, tk)" using requests_queue_trace_inv [of ops] tr by simp
  then have sub: "subseq tk cr"
    by (cases "crq_pending q") (auto simp: queue_trace_inv_def intro: list_emb_append2 subseq_order.trans)
  have "distinct (map fst cr)"
    using inv by (simp add: queue_trace_inv_def strict_sorted_iff)
  moreover have "subseq (map fst tk) (map fst cr)" using sub by (rule subseq_map)
  ultimately have d: "distinct (map fst tk)" by (blast intro: subseq_distinct)
  have "0 \<notin> set (map fst cr)" using inv by (auto simp: queue_trace_inv_def)
  then show ?thesis using inv sub d by (simp add: tr queue_trace_inv_def)
qed

text \<open>
  The life of a request. In every reachable state of the queue at most one request is open, at
  most 32 results are kept, and whatever operation comes next, a result that stays in the history
  keeps its key and either keeps its state or makes one of the five steps from queued over
  dispatching to submitted, rejected or cancelled. While the event counter lasts, the last event
  logged for a request shows the state its result shows.
\<close>

theorem request_lifecycle:
  assumes "q = requests_run ops"
  shows "length (filter (\<lambda>r. \<not> request_over r) (crq_records q)) \<le> 1 \<and>
    length (crq_records q) \<le> 32 \<and>
    (\<forall>op i r r'. requests_get q i = Some r \<longrightarrow> requests_get (request_op q op) i = Some r' \<longrightarrow>
       r' = r \<or> (rec_state r, rec_state r') \<in> lifecycle \<and> r' = r\<lparr>rec_state := rec_state r'\<rparr>) \<and>
    (crq_event_sequence q \<noteq> u64_max \<longrightarrow> (\<forall>r \<in> set (crq_records q).
       event_state (rec_id r) (crq_events q) \<in> {None, Some (rec_state r)}))"
proof -
  have inv: "requests_inv q" using requests_run_inv assms by simp
  have one: "length (filter (\<lambda>r. \<not> request_over r) (crq_records q)) \<le> 1"
    by (rule open_at_most_one [OF inv])
  show ?thesis
    using one inv get_step [OF inv] by (auto simp: requests_inv_def ids_ok_def requests_capacity_def log_agrees_def)
qed

theorem request_lifecycle_witness:
  "requests_get (requests_run [Submit (W ''1001'')]) 1 \<noteq> None \<and>
   length (filter (\<lambda>r. \<not> request_over r) (crq_records (requests_run [Submit (W ''1001'')]))) \<le> 1"
proof -
  have "requests_get (requests_run [Submit (W ''1001'')]) 1 \<noteq> None" by code_simp
  then show ?thesis using request_lifecycle [OF refl, of "[Submit (W ''1001'')]"] by simp
qed

text \<open>
  C22. Retries with an idempotency key never place a second call. Once a submission with a key was
  accepted, and as long as its result is in the history, any later submission with that key,
  after any operations in between and whatever the readiness, changes nothing and returns the original
  request: as a replay if the destination is the same, as a conflict otherwise.
\<close>

theorem idempotent_submission:
  assumes "q = requests_run ops" and "k \<noteq> []" and "d' \<noteq> []"
    and "submit_idempotent q d k ready = (res, q1)"
    and "sub_outcome res = CtiSubmitOutcome.Created"
    and "q2 = foldl request_op q1 ops2" and "requests_get q2 (sub_id res) \<noteq> None"
  shows "\<exists>s. submit_idempotent q2 d' k ready' =
    (\<lparr>sub_outcome = (if d' = d then CtiSubmitOutcome.Replayed else CtiSubmitOutcome.KeyConflict),
      sub_id = sub_id res, sub_state = s\<rparr>, q2)"
proof -
  have inv: "requests_inv q" using requests_run_inv assms(1) by simp
  have "keeps_key (sub_id res) k d q1"
    using created_keeps_key [OF inv assms(4,5,2)] .
  then have kk: "keeps_key (sub_id res) k d q2" using keeps_key_run assms(6) by blast
  obtain r where r: "r \<in> set (crq_records q2)" "rec_id r = sub_id res"
    using assms(7) by (auto simp: requests_get_def find_None_iff)
  have key: "rec_idempotency_key r = k" "rec_idempotency_destination r = d"
    using kk r by (auto simp: keeps_key_def)
  have "find (\<lambda>x. rec_idempotency_key x = k) (crq_records q2) = Some r"
    using kk r(1) key(1) assms(2) by (intro find_key) (auto simp: keeps_key_def requests_inv_def keys_ok_def)
  then show ?thesis
    using assms(2,3) key(2) r(2) by (simp add: submit_idempotent_def Let_def)
qed

definition sample_key :: string where
  "sample_key = ''retry-0123456789''"

theorem idempotent_submission_witness:
  "\<exists>s. submit_idempotent (foldl request_op (snd (submit_idempotent (requests_run [])
        (W ''1001'') sample_key True)) [Take, Complete 1 True]) (W ''1001'') sample_key False =
    (\<lparr>sub_outcome = CtiSubmitOutcome.Replayed, sub_id = 1, sub_state = s\<rparr>,
     foldl request_op (snd (submit_idempotent (requests_run [])
        (W ''1001'') sample_key True)) [Take, Complete 1 True])"
proof -
  let ?r = "submit_idempotent (requests_run []) (W ''1001'') sample_key True"
  let ?q2 = "foldl request_op (snd ?r) [Take, Complete 1 True]"
  have res: "sub_outcome (fst ?r) = CtiSubmitOutcome.Created" "sub_id (fst ?r) = 1" by code_simp+
  have get: "requests_get ?q2 1 \<noteq> None" by code_simp
  have ne: "sample_key \<noteq> []" "W ''1001'' \<noteq> []" by (simp_all add: sample_key_def W_def)
  show ?thesis
    using idempotent_submission [OF refl ne(1,2) prod.collapse [symmetric] res(1) refl,
        of "[Take, Complete 1 True]" False] res(2) get by simp
qed

text \<open>
  The \<open>gap\<close> flag says nothing about a \<open>clear\<close>: the transitions it drops keep their numbers, but a
  client whose cursor lies before them is told that there was no gap.
\<close>

lemma clear_hides_lost_transitions:
  assumes "crq_event_sequence q > n"
  shows "rpage_latest_sequence (events_after (requests_clear q) n) > n \<and>
    rpage_events (events_after (requests_clear q) n) = [] \<and>
    \<not> rpage_gap (events_after (requests_clear q) n)"
  using assms by (simp add: events_after_def requests_clear_def)

end
