(* ===== verification/Cti_Contract.thy ===== *)
theory Cti_Contract
  imports Sip_Address
begin

text \<open>
  The texts the local CTI service accepts, \<open>local_cti_contract.h\<close>: the JSON body of a call
  request, the \<open>axvoice:\<close> deep link of the browser, idempotency keys, API tokens and content types.
  The parsers are functions on the text that is left.
\<close>

section \<open>The JSON body\<close>

definition json_space :: "char \<Rightarrow> bool" where
  "json_space c \<longleftrightarrow> c = CHR '' '' \<or> c = CHR 0x09 \<or> c = CHR 0x0D \<or> c = CHR 0x0A"

definition json_skip :: "string \<Rightarrow> string" where
  "json_skip s = dropWhile json_space s"

definition json_consume :: "char \<Rightarrow> string \<Rightarrow> string option" where
  "json_consume c s = (case json_skip s of
     [] \<Rightarrow> None | x # xs \<Rightarrow> if x = c then Some xs else None)"

definition destination_key :: string where
  "destination_key = ''destination''"

definition cti_max_destination :: nat where
  "cti_max_destination = 128"

text \<open>The loop over the characters of the value, up to the closing quote.\<close>

fun scan_destination :: "wstr \<Rightarrow> string \<Rightarrow> (wstr \<times> string) option" where
  "scan_destination acc [] = Some (acc, [])"
| "scan_destination acc (c # cs) =
     (if c = CHR 0x22 then Some (acc, c # cs)
      else if (of_char c :: nat) \<le> 0x20 \<or> (of_char c :: nat) \<ge> 0x7f \<or> c = CHR 0x5C \<or>
              length acc \<ge> cti_max_destination
      then None
      else scan_destination (acc @ [of_char c]) cs)"

definition accept_destination :: "wctype \<Rightarrow> wstr \<Rightarrow> wstr option" where
  "accept_destination ct destination =
     (case validate_address ct destination of (error, normalized) \<Rightarrow>
        if error \<noteq> AddressError.NoAddressError \<or> length normalized > cti_max_destination then None
        else Some normalized)"

definition parse_cti_call_json :: "wctype \<Rightarrow> string \<Rightarrow> wstr option" where
  "parse_cti_call_json ct body =
     (if body = [] \<or> length body > 512 then None
      else Option.bind (json_consume CHR ''{'' body) (\<lambda>s.
        Option.bind (json_consume CHR 0x22 s) (\<lambda>s.
        if \<not> starts_with destination_key s then None
        else Option.bind (json_consume CHR 0x22 (drop (length destination_key) s)) (\<lambda>s.
        Option.bind (json_consume CHR '':'' s) (\<lambda>s.
        Option.bind (json_consume CHR 0x22 s) (\<lambda>s.
        Option.bind (scan_destination [] s) (\<lambda>(destination, s).
        Option.bind (json_consume CHR 0x22 s) (\<lambda>s.
        Option.bind (json_consume CHR ''}'' s) (\<lambda>s.
        if json_skip s \<noteq> [] then None else accept_destination ct destination)))))))))"

section \<open>The deep link\<close>

definition hex_digit :: "wchar \<Rightarrow> nat option" where
  "hex_digit c =
     (if wc CHR ''0'' \<le> c \<and> c \<le> wc CHR ''9'' then Some (unat (c - wc CHR ''0''))
      else if wc CHR ''a'' \<le> c \<and> c \<le> wc CHR ''f'' then Some (unat (c - wc CHR ''a'') + 10)
      else if wc CHR ''A'' \<le> c \<and> c \<le> wc CHR ''F'' then Some (unat (c - wc CHR ''A'') + 10)
      else None)"

definition uri_char_ok :: "wstr \<Rightarrow> wchar \<Rightarrow> bool" where
  "uri_char_ok acc c \<longleftrightarrow> \<not> (c < 0x21 \<or> c > 0x7e \<or> c = 92 \<or> length acc \<ge> cti_max_destination)"

text \<open>The loop with its index; a percent sign consumes two more characters.\<close>

fun decode_uri :: "wstr \<Rightarrow> wstr \<Rightarrow> wstr option" where
  "decode_uri acc [] = Some acc"
| "decode_uri acc (c # cs) =
     (if c = wc CHR ''%''
      then (case cs of
          h # l # rest \<Rightarrow>
            (case (hex_digit h, hex_digit l) of
               (Some hi, Some lo) \<Rightarrow>
                 (let ch = of_nat (16 * hi + lo) in
                  if uri_char_ok acc ch then decode_uri (acc @ [ch]) rest else None)
             | _ \<Rightarrow> None)
        | _ \<Rightarrow> None)
      else if c = wc CHR ''?'' \<or> c = wc CHR ''&'' \<or> c = wc CHR ''#'' \<or> c = 92 then None
      else if uri_char_ok acc c then decode_uri (acc @ [c]) cs else None)"

definition deep_link_prefix :: wstr where
  "deep_link_prefix = W ''axvoice://call?destination=''"

definition parse_axvoice_click_to_call_uri :: "wctype \<Rightarrow> wstr \<Rightarrow> wstr option" where
  "parse_axvoice_click_to_call_uri ct uri =
     (if length uri \<le> length deep_link_prefix \<or> length uri > 512 \<or>
         \<not> starts_with deep_link_prefix uri
      then None
      else Option.bind (decode_uri [] (drop (length deep_link_prefix) uri))
             (accept_destination ct))"

section \<open>Tokens and content types\<close>

definition token_char :: "char \<Rightarrow> bool" where
  "token_char c \<longleftrightarrow> (let n = (of_char c :: nat) in
     (65 \<le> n \<and> n \<le> 90) \<or> (97 \<le> n \<and> n \<le> 122) \<or> (48 \<le> n \<and> n \<le> 57) \<or>
     c = CHR ''-'' \<or> c = CHR ''_'')"

definition valid_cti_idempotency_key :: "string \<Rightarrow> bool" where
  "valid_cti_idempotency_key key \<longleftrightarrow>
     (if length key < 16 \<or> length key > 64 then False else \<forall>c \<in> set key. token_char c)"

definition valid_cti_api_token :: "string \<Rightarrow> bool" where
  "valid_cti_api_token token \<longleftrightarrow>
     (if length token < 32 \<or> length token > 128 then False else \<forall>c \<in> set token. token_char c)"

definition valid_cti_json_type :: "string \<Rightarrow> bool" where
  "valid_cti_json_type value \<longleftrightarrow>
     value = ''application/json'' \<or> value = ''application/json; charset=utf-8''"

section \<open>What the parsers accept\<close>

text \<open>A destination that is short and of printable ASCII characters without blanks.\<close>

definition plain_destination :: "wstr \<Rightarrow> bool" where
  "plain_destination s \<longleftrightarrow> length s \<le> 128 \<and> (\<forall>c \<in> set s. 0x21 \<le> c \<and> c \<le> 0x7e)"

lemma scan_destination_chars:
  "scan_destination acc s = Some (d, rest) \<Longrightarrow> \<forall>c \<in> set acc. 0x21 \<le> c \<and> c \<le> 0x7e \<Longrightarrow>
     \<forall>c \<in> set d. 0x21 \<le> c \<and> c \<le> 0x7e"
proof (induction acc s rule: scan_destination.induct)
  case (2 acc c cs)
  have "0x21 \<le> (of_char c :: wchar) \<and> (of_char c :: wchar) \<le> 0x7e"
    if "0x20 < (of_char c :: nat)" "(of_char c :: nat) < 0x7f"
    using that by (simp add: word_le_nat_alt)
  with 2 show ?case by (auto split: if_splits)
qed auto


lemma decode_uri_step:
  assumes "decode_uri acc (c # cs) = Some d"
  obtains ch rest where "uri_char_ok acc ch" "decode_uri (acc @ [ch]) rest = Some d"
    "length rest \<le> length cs"
proof (cases "c = wc CHR ''%''")
  case True
  then obtain h l rest where cs: "cs = h # l # rest"
    using assms by (cases cs; cases "tl cs") (auto split: list.splits)
  obtain hi lo where "hex_digit h = Some hi" "hex_digit l = Some lo"
    using assms True cs by (auto split: option.splits)
  then show thesis
    using assms True cs that [of "of_nat (16 * hi + lo)" rest] by (auto simp: Let_def split: if_splits)
next
  case False
  then show thesis using assms that [of c cs] by (auto split: if_splits)
qed

lemma decode_uri_chars:
  "decode_uri acc s = Some d \<Longrightarrow> \<forall>c \<in> set acc. 0x21 \<le> c \<and> c \<le> 0x7e \<Longrightarrow>
     \<forall>c \<in> set d. 0x21 \<le> c \<and> c \<le> 0x7e"
proof (induction s arbitrary: acc rule: length_induct)
  case (1 s)
  show ?case
  proof (cases s)
    case Nil
    then show ?thesis using "1.prems" by simp
  next
    case (Cons c cs)
    obtain ch rest where st: "uri_char_ok acc ch" "decode_uri (acc @ [ch]) rest = Some d"
      "length rest \<le> length cs"
      using decode_uri_step "1.prems"(1) Cons by metis
    have "\<forall>x \<in> set (acc @ [ch]). 0x21 \<le> x \<and> x \<le> 0x7e"
      using st(1) "1.prems"(2) by (simp add: uri_char_ok_def linorder_not_less)
    moreover have "length rest < length s" using st(3) Cons by simp
    ultimately show ?thesis using "1.IH" st(2) by blast
  qed
qed

text \<open>The texts a client sends for a destination.\<close>

definition call_body :: "wstr \<Rightarrow> string" where
  "call_body s = ''{\"destination\":\"'' @ map narrow s @ ''\"}''"

definition hex_char :: "nat \<Rightarrow> wchar" where
  "hex_char n = of_nat (if n < 10 then 48 + n else 87 + n)"

definition percent :: "wchar \<Rightarrow> wstr" where
  "percent c = [wc CHR ''%'', hex_char (unat c div 16), hex_char (unat c mod 16)]"

definition deep_link :: "wstr \<Rightarrow> wstr" where
  "deep_link s = deep_link_prefix @ concat (map percent s)"

lemma hex_digit_char: "n < 16 \<Longrightarrow> hex_digit (hex_char n) = Some n"
proof -
  assume "n < 16"
  then have "n \<in> set [0..<16]" by simp
  moreover have "\<forall>n \<in> set [0..<16]. hex_digit (hex_char n) = Some n" by code_simp
  ultimately show ?thesis by blast
qed

lemma scan_destination_narrow:
  assumes "\<forall>c \<in> set s. 0x21 \<le> c \<and> c \<le> 0x7e \<and> c \<noteq> 34 \<and> c \<noteq> 92" and "length acc + length s \<le> 128"
  shows "scan_destination acc (map narrow s @ CHR 0x22 # rest) = Some (acc @ s, CHR 0x22 # rest)"
  using assms
proof (induction s arbitrary: acc)
  case Nil
  then show ?case by simp
next
  case (Cons c s)
  have c: "0x21 \<le> c" "c \<le> 0x7e" "c \<noteq> 34" "c \<noteq> 92" using Cons.prems by simp_all
  have small: "c < 256" using c(2) by (simp add: word_le_nat_alt word_less_nat_alt)
  have code: "(of_char (narrow c) :: nat) = unat c" by (rule nat_of_char_narrow [OF small])
  have "narrow c \<noteq> CHR 0x22" "narrow c \<noteq> CHR 0x5C"
    using c(3,4) of_char_narrow [OF small] by auto
  moreover have "\<not> unat c \<le> 0x20" "\<not> 0x7f \<le> unat c"
    using c(1,2) by (simp_all add: word_le_nat_alt)
  ultimately show ?case
    using Cons.IH [of "acc @ [c]"] Cons.prems small code by (simp add: cti_max_destination_def)
qed

lemma decode_uri_percent:
  assumes "\<forall>c \<in> set s. 0x21 \<le> c \<and> c \<le> 0x7e \<and> c \<noteq> 92" and "length acc + length s \<le> 128"
  shows "decode_uri acc (concat (map percent s)) = Some (acc @ s)"
  using assms
proof (induction s arbitrary: acc)
  case Nil
  then show ?case by simp
next
  case (Cons c s)
  have c: "0x21 \<le> c" "c \<le> 0x7e" "c \<noteq> 92" using Cons.prems by simp_all
  have "unat c < 256" using c(2) by (simp add: word_le_nat_alt)
  then have "hex_digit (hex_char (unat c div 16)) = Some (unat c div 16)"
    "hex_digit (hex_char (unat c mod 16)) = Some (unat c mod 16)"
    by (simp_all add: hex_digit_char)
  moreover have "of_nat (16 * (unat c div 16) + unat c mod 16) = c" by simp
  moreover have "uri_char_ok acc c"
    using c Cons.prems by (simp add: uri_char_ok_def cti_max_destination_def linorder_not_less)
  ultimately have "decode_uri acc (percent c @ concat (map percent s)) =
      decode_uri (acc @ [c]) (concat (map percent s))"
    unfolding percent_def by (simp add: Let_def del: mult_div_mod_eq)
  then show ?case using Cons.IH [of "acc @ [c]"] Cons.prems by simp
qed

lemma validated_not_quoted:
  assumes "validate_address ct s = (AddressError.NoAddressError, n)"
  shows "34 \<notin> set s \<and> 92 \<notin> set s"
  using assms
proof (cases rule: validate_address_cases)
  case bare
  then show ?thesis by (auto simp: target_ok_def reserved_char_def)
next
  case plain
  then show ?thesis by (auto simp: target_ok_def reserved_char_def)
next
  case (scheme sch t)
  have "34 \<notin> set t" "92 \<notin> set t" using scheme(4) by (auto simp: target_ok_def reserved_char_def)
  moreover have "34 \<notin> set sch" "92 \<notin> set sch" using scheme(3) by (auto simp: W_def)
  ultimately show ?thesis using scheme(2) by auto
qed

lemma accept_destination_Some:
  "accept_destination ct d = Some n \<longleftrightarrow>
     validate_address ct d = (AddressError.NoAddressError, n) \<and> length n \<le> 128"
  by (auto simp: accept_destination_def cti_max_destination_def split: prod.splits)

section \<open>Properties\<close>

text \<open>
  What a client sends is what is dialled. A destination of printable ASCII characters that
  \<open>validate_address\<close> accepts, with a normal form of at most 128 characters, is parsed to that
  normal form both from the JSON body and from the percent-encoded deep link that carry it.
\<close>

theorem destination_round_trip:
  assumes "validate_address ct s = (AddressError.NoAddressError, n)" and "plain_destination s"
    and "length n \<le> 128"
  shows "parse_cti_call_json ct (call_body s) = Some n \<and>
    parse_axvoice_click_to_call_uri ct (deep_link s) = Some n"
proof
  have chars: "\<forall>c \<in> set s. 0x21 \<le> c \<and> c \<le> 0x7e \<and> c \<noteq> 34 \<and> c \<noteq> 92" and len: "length s \<le> 128"
    using assms(2) validated_not_quoted [OF assms(1)] by (auto simp: plain_destination_def)
  have ne: "s \<noteq> []" using assms(1) by (auto simp: validate_address_def)
  have accept: "accept_destination ct s = Some n"
    using assms(1,3) by (simp add: accept_destination_Some)
  have "scan_destination [] (map narrow s @ CHR 0x22 # ''}'') = Some (s, CHR 0x22 # ''}'')"
    using scan_destination_narrow [OF chars, of "[]" "''}''"] len by simp
  then show "parse_cti_call_json ct (call_body s) = Some n"
    using accept len unfolding parse_cti_call_json_def call_body_def
    by (simp add: json_consume_def json_skip_def json_space_def destination_key_def starts_with_def)
  have dec: "decode_uri [] (concat (map percent s)) = Some s"
    using decode_uri_percent [of s "[]"] chars len by simp
  have "length (concat (map percent s)) = 3 * length s" by (induction s) (simp_all add: percent_def)
  then show "parse_axvoice_click_to_call_uri ct (deep_link s) = Some n"
    using accept dec len ne
    by (simp add: parse_axvoice_click_to_call_uri_def deep_link_def deep_link_prefix_def)
qed

theorem destination_round_trip_witness:
  "parse_cti_call_json c_locale (call_body (W ''sip:1001@pbx'')) = Some (W ''sip:1001@pbx'') \<and>
   parse_axvoice_click_to_call_uri c_locale (deep_link (W ''sip:1001@pbx'')) = Some (W ''sip:1001@pbx'')"
proof (rule destination_round_trip)
  show "validate_address c_locale (W ''sip:1001@pbx'') = (AddressError.NoAddressError, W ''sip:1001@pbx'')"
    by code_simp
  show "plain_destination (W ''sip:1001@pbx'')" by code_simp
  show "length (W ''sip:1001@pbx'') \<le> 128" by simp
qed

text \<open>
  Nothing but a dialable address comes out of either parser: a result is at most 128
  printable ASCII characters without quotes or backslashes, in the normal form of
  \<open>validate_address\<close>, which keeps it as it is.
\<close>

theorem parsed_destination_sound:
  assumes "ascii_ctype ct"
    and "parse_cti_call_json ct body = Some n \<or> parse_axvoice_click_to_call_uri ct uri = Some n"
  shows "length n \<le> 128 \<and> address_shape ct n \<and> validate_address ct n = (AddressError.NoAddressError, n) \<and>
    (\<forall>c \<in> set n. 0x21 \<le> c \<and> c \<le> 0x7e \<and> c \<noteq> 34 \<and> c \<noteq> 92)"
proof -
  obtain d where d: "accept_destination ct d = Some n" "\<forall>c \<in> set d. 0x21 \<le> c \<and> c \<le> 0x7e"
  proof (cases "parse_cti_call_json ct body = Some n")
    case True
    then obtain d r s where "scan_destination [] s = Some (d, r)" "accept_destination ct d = Some n"
      unfolding parse_cti_call_json_def by (auto simp: bind_eq_Some_conv split: if_splits)
    with scan_destination_chars [of "[]" s d r] show thesis by (intro that) simp_all
  next
    case False
    then have "parse_axvoice_click_to_call_uri ct uri = Some n" using assms(2) by blast
    then obtain d r where "decode_uri [] r = Some d" "accept_destination ct d = Some n"
      unfolding parse_axvoice_click_to_call_uri_def
      by (auto simp del: decode_uri.simps simp: bind_eq_Some_conv split: if_splits)
    with decode_uri_chars [of "[]" r d] show thesis by (intro that) simp_all
  qed
  have v: "validate_address ct d = (AddressError.NoAddressError, n)" "length n \<le> 128"
    using d(1) by (simp_all add: accept_destination_Some)
  have shape: "address_shape ct n" by (rule normalized_shape [OF assms(1) v(1)])
  have fix_n: "validate_address ct n = (AddressError.NoAddressError, n)"
    by (rule validate_address_shape [OF shape])
  have "n = d \<or> n = W ''sip:'' @ d"
    using v(1) by (cases rule: validate_address_cases) simp_all
  moreover have "\<forall>c \<in> set (W ''sip:''). 0x21 \<le> c \<and> c \<le> 0x7e" by code_simp
  ultimately have "\<forall>c \<in> set n. 0x21 \<le> c \<and> c \<le> 0x7e" using d(2) by auto
  then show ?thesis using v(2) shape fix_n validated_not_quoted [OF fix_n] by auto
qed

theorem parsed_destination_sound_witness:
  "address_shape c_locale (W ''1001'')"
proof -
  have "parse_cti_call_json c_locale (call_body (W ''1001'')) = Some (W ''1001'')" by code_simp
  then show ?thesis
    using parsed_destination_sound [OF ascii_c_locale, of "call_body (W ''1001'')" "W ''1001''" "[]"]
    by blast
qed

text \<open>
  \<open>consume\<close> skips white space also in front of the quote that closes the key, so that the parser
  accepts two texts that are not the object the comment in the source describes: a key with blanks at its
  end, and a key with a raw line break, which JSON forbids inside a string.
\<close>

lemma padded_key_accepted:
  "parse_cti_call_json c_locale (''{'' @ [CHR 0x22] @ ''destination  '' @ [CHR 0x22] @ '':'' @
     [CHR 0x22] @ ''1001'' @ [CHR 0x22] @ ''}'') = Some (W ''1001'') \<and>
   parse_cti_call_json c_locale (''{'' @ [CHR 0x22] @ ''destination'' @ [CHR 0x0A] @ [CHR 0x22] @ '':'' @
     [CHR 0x22] @ ''1001'' @ [CHR 0x22] @ ''}'') = Some (W ''1001'')"
  by code_simp

end
