(* ===== verification/Cti_Server.thy ===== *)
theory Cti_Server
  imports Cti_Requests Cti_Contract
begin

text \<open>
  The local CTI service, \<open>local_cti_server_win32.h\<close> and \<open>.cpp\<close>, and its capabilities text,
  \<open>local_cti_capabilities.h\<close>: reading a request from a loopback connection, routing, header
  checks, bearer token, and the operations on the journal and the request queue.

  A connection is the list of the byte blocks the peer sends; \<open>recv\<close> returns at most the number of
  bytes asked for and nothing once the peer is silent. An answer is the status code, reason and
  body that \<open>reply\<close> sends, or none when the connection is dropped. \<open>tolower\<close> is that of the C
  locale, which the program never changes. Winsock set-up and thread creation are arguments that
  say whether they succeed.
\<close>

section \<open>Strings\<close>

text \<open>\<open>s.find(p)\<close> for a string.\<close>

fun find_sub :: "'a list \<Rightarrow> 'a list \<Rightarrow> nat option" where
  "find_sub p s = (if starts_with p s then Some 0
     else case s of [] \<Rightarrow> None | x # xs \<Rightarrow> map_option Suc (find_sub p xs))"

declare find_sub.simps [simp del]

definition crlf :: string where
  "crlf = [CHR 0x0D, CHR 0x0A]"

definition lower_char :: "char \<Rightarrow> char" where
  "lower_char c = (let n = (of_char c :: nat) in if 65 \<le> n \<and> n \<le> 90 then char_of (n + 32) else c)"

definition lower :: "string \<Rightarrow> string" where
  "lower value = map lower_char value"

definition blank :: "char \<Rightarrow> bool" where
  "blank c \<longleftrightarrow> c = CHR '' '' \<or> c = CHR 0x09"

definition trim :: "string \<Rightarrow> string" where
  "trim value = rev (dropWhile blank (rev (dropWhile blank value)))"

definition byte_at :: "string \<Rightarrow> nat \<Rightarrow> u32" where
  "byte_at s i = (if i < length s then of_char (s ! i) else 0)"

definition secure_equal :: "string \<Rightarrow> string \<Rightarrow> bool" where
  "secure_equal left right \<longleftrightarrow>
     foldl (\<lambda>diff i. or diff (xor (byte_at left i) (byte_at right i)))
       (of_nat (xor (length left) (length right)) :: u32)
       [0..<max (length left) (length right)] = 0"

section \<open>Answers\<close>

record HttpReply =
  rep_code :: nat
  rep_reason :: string
  rep_body :: string

text \<open>The text \<open>reply\<close> sends.\<close>

definition reply_text :: "HttpReply \<Rightarrow> string" where
  "reply_text r =
     ''HTTP/1.1 '' @ to_dec (rep_code r) @ '' '' @ rep_reason r @ crlf @
     ''Content-Type: application/json'' @ crlf @
     ''Cache-Control: no-store'' @ crlf @
     ''X-Content-Type-Options: nosniff'' @ crlf @
     ''Connection: close'' @ crlf @
     ''Content-Length: '' @ to_dec (length (rep_body r)) @ crlf @ crlf @ rep_body r"

definition reply :: "nat \<Rightarrow> string \<Rightarrow> string \<Rightarrow> HttpReply" where
  "reply code reason body = \<lparr>rep_code = code, rep_reason = reason, rep_body = body\<rparr>"

definition error_body :: "string \<Rightarrow> string" where
  "error_body e = ''{\"error\":\"'' @ e @ ''\"}''"

definition bad_request :: "string \<Rightarrow> HttpReply" where
  "bad_request e = reply 400 ''Bad Request'' (error_body e)"

definition reply_ok :: "string \<Rightarrow> HttpReply" where
  "reply_ok body = reply 200 ''OK'' body"

definition unknown_request :: HttpReply where
  "unknown_request = reply 404 ''Not Found'' (error_body ''unknown_request'')"

definition local_cti_capabilities_json :: string where
  "local_cti_capabilities_json =
     ''{\"api_version\":\"1\",\"transport\":\"http_loopback_ipv4\",\"requires_bearer_token\":true,'' @
     ''\"cors\":false,\"features\":{\"click_to_call\":true,\"request_tracking\":true,'' @
     ''\"request_events\":true,\"scoped_request_events\":true,\"cancel_queued_request\":true,'' @
     ''\"idempotency_key\":true,\"idempotency_key_destination_bound\":true,'' @
     ''\"readiness_loss_rejects_queued\":true,\"sip_request_correlation\":false,'' @
     ''\"call_completion_confirmation\":false,\"remote_webhooks\":false,'' @
     ''\"sip_call_control_api\":false},\"limits\":{\"inflight_requests\":1,\"request_history\":'' @
     to_dec requests_capacity @ '',\"request_event_history\":'' @ to_dec event_capacity @
     '',\"sip_event_history\":'' @ to_dec journal_capacity @
     '',\"idempotency_key_min_length\":16,\"idempotency_key_max_length\":64},'' @
     ''\"semantics\":{\"submitted\":\"engine_accepted_not_connected\",'' @
     ''\"request_ids\":\"ephemeral_process_local\",\"event_cursors\":\"ephemeral_process_local\"}}''"

section \<open>The server\<close>

record LocalCtiServer =
  srv_token :: string
  srv_listening :: bool
  srv_worker :: bool
  srv_stopping :: bool
  srv_running :: bool
  srv_ready :: bool
  srv_journal :: CtiEventJournal
  srv_requests :: CtiRequestQueue
  srv_notification_window :: u64
  srv_notification_message :: u32

definition new_server :: LocalCtiServer where
  "new_server = \<lparr>srv_token = [], srv_listening = False, srv_worker = False, srv_stopping = False,
     srv_running = False, srv_ready = False, srv_journal = empty_journal,
     srv_requests = empty_requests, srv_notification_window = 0, srv_notification_message = 0\<rparr>"

text \<open>\<open>listens\<close>: Winsock, the socket, \<open>bind\<close> and \<open>listen\<close> succeed; \<open>spawns\<close>: the worker thread
  can be created.\<close>

definition server_start ::
    "bool \<Rightarrow> bool \<Rightarrow> LocalCtiServer \<Rightarrow> string \<Rightarrow> bool \<times> LocalCtiServer" where
  "server_start listens spawns s token =
     (if srv_worker s \<or> \<not> valid_cti_api_token token then (False, s)
      else if \<not> listens then (False, s)
      else (let s = s\<lparr>srv_listening := True, srv_token := token, srv_stopping := False,
                      srv_ready := False, srv_running := True\<rparr> in
        if spawns then (True, s\<lparr>srv_worker := True\<rparr>)
        else (False, s\<lparr>srv_running := False, srv_listening := False, srv_token := []\<rparr>)))"

definition server_stop :: "LocalCtiServer \<Rightarrow> LocalCtiServer" where
  "server_stop s = s\<lparr>srv_notification_window := 0, srv_stopping := True, srv_ready := False,
     srv_worker := False, srv_listening := False, srv_requests := requests_clear (srv_requests s),
     srv_token := [], srv_running := False\<rparr>"

definition set_notification_target :: "LocalCtiServer \<Rightarrow> u64 \<Rightarrow> u32 \<Rightarrow> LocalCtiServer" where
  "set_notification_target s window message =
     s\<lparr>srv_notification_message := message, srv_notification_window := window\<rparr>"

definition set_ready :: "LocalCtiServer \<Rightarrow> bool \<Rightarrow> LocalCtiServer" where
  "set_ready s ready =
     (let s = s\<lparr>srv_ready := ready\<rparr> in
      if ready then s else s\<lparr>srv_requests := snd (reject_pending (srv_requests s))\<rparr>)"

definition server_observe :: "LocalCtiServer \<Rightarrow> SipRuntimeObservation \<Rightarrow> LocalCtiServer" where
  "server_observe s state = s\<lparr>srv_journal := journal_observe (srv_journal s) state\<rparr>"

definition server_complete :: "LocalCtiServer \<Rightarrow> u64 \<Rightarrow> bool \<Rightarrow> bool \<times> LocalCtiServer" where
  "server_complete s i submitted =
     (let (ok, q) = requests_complete (srv_requests s) i submitted
      in (ok, s\<lparr>srv_requests := q\<rparr>))"

text \<open>\<open>take\<close> reads the readiness flag before and after it takes the request; another thread may
  clear it in between, so the second value is an argument.\<close>

definition server_take ::
    "LocalCtiServer \<Rightarrow> bool \<Rightarrow> CtiPendingRequest option \<times> LocalCtiServer" where
  "server_take s ready_after =
     (if \<not> srv_ready s
      then (None, s\<lparr>srv_requests := snd (reject_pending (srv_requests s))\<rparr>)
      else (case requests_take (srv_requests s) of
          (None, q) \<Rightarrow> (None, s\<lparr>srv_requests := q\<rparr>)
        | (Some p, q) \<Rightarrow>
            (if \<not> ready_after
             then (None, s\<lparr>srv_requests := snd (requests_complete q (pnd_id p) False)\<rparr>)
             else (Some p, s\<lparr>srv_requests := q\<rparr>))))"

section \<open>Reading a request\<close>

definition recv :: "nat \<Rightarrow> string list \<Rightarrow> string \<times> string list" where
  "recv n blocks = (case blocks of
     [] \<Rightarrow> ([], [])
   | b # bs \<Rightarrow> (take n b, if length b \<le> n then bs else drop n b # bs))"

text \<open>The first loop of \<open>handle_client\<close>: \<open>None\<close> when the peer falls silent, otherwise the packet,
  the position of the empty line if it was found, and what can still be received.\<close>

function read_head :: "string \<Rightarrow> string list \<Rightarrow> (string \<times> nat option \<times> string list) option" where
  "read_head packet blocks =
     (if length packet \<le> 8192
      then (case recv 2048 blocks of (data, blocks) \<Rightarrow>
        if data = [] then None
        else (case find_sub (crlf @ crlf) (packet @ data) of
            Some d \<Rightarrow> Some (packet @ data, Some d, blocks)
          | None \<Rightarrow> read_head (packet @ data) blocks))
      else Some (packet, None, blocks))"
  by pat_completeness auto
termination
  by (relation "measure (\<lambda>(packet, blocks). 8193 - length packet)") (auto intro!: diff_less_mono2)

declare read_head.simps [simp del]

text \<open>The loop that completes the body.\<close>

function read_body :: "nat \<Rightarrow> string \<Rightarrow> string list \<Rightarrow> string option" where
  "read_body goal packet blocks =
     (if length packet < goal
      then (case recv (min (goal - length packet) 512) blocks of (data, blocks) \<Rightarrow>
        if data = [] then None else read_body goal (packet @ data) blocks)
      else Some packet)"
  by pat_completeness auto
termination
  by (relation "measure (\<lambda>(goal, packet, blocks). goal - length packet)")
    (auto intro!: diff_less_mono2)

declare read_body.simps [simp del]

section \<open>Routing\<close>

datatype CtiRoute =
    Status | Capabilities | Call | CurrentCall
  | Events u64 | RequestEvents u64 | ScopedEvents u64 u64
  | RequestResult string | CancelRequest string

definition http_suffix :: string where
  "http_suffix = '' HTTP/1.1''"

text \<open>The text between a prefix and \<open>" HTTP/1.1"\<close>, if the request line has both and more.\<close>

definition path_argument :: "string \<Rightarrow> string \<Rightarrow> string option" where
  "path_argument pre line =
     (if starts_with pre line \<and> length line > length pre + length http_suffix \<and>
         drop (length line - length http_suffix) line = http_suffix
      then Some (take (length line - length pre - length http_suffix) (drop (length pre) line))
      else None)"

definition scoped_query :: string where
  "scoped_query = ''/events?after=''"

text \<open>Polling the events of one request: \<open>None\<close> when the path is none of that form.\<close>

definition scoped_route :: "string \<Rightarrow> (HttpReply + CtiRoute) option" where
  "scoped_route line =
     (case path_argument ''GET /v1/requests/'' line of
        None \<Rightarrow> None
      | Some path \<Rightarrow> (case find_idx CHR ''/'' path of
          None \<Rightarrow> None
        | Some slash \<Rightarrow>
            (let tail = drop slash path in
             if tail = ''/events'' \<or> starts_with scoped_query tail
             then Some (case parse_cti_event_cursor (take slash path) of
                 None \<Rightarrow> Inl (bad_request ''invalid_request_id'')
               | Some i \<Rightarrow>
                   (if i = 0 then Inl (bad_request ''invalid_request_id'')
                    else if tail = ''/events'' then Inr (CtiRoute.ScopedEvents i 0)
                    else (case parse_cti_event_cursor (drop (length scoped_query) tail) of
                        None \<Rightarrow> Inl (bad_request ''invalid_cursor'')
                      | Some c \<Rightarrow> Inr (CtiRoute.ScopedEvents i c))))
             else None)))"

text \<open>Polling a feed: the bare path, or the path with a cursor.\<close>

definition feed_route :: "string \<Rightarrow> (u64 \<Rightarrow> CtiRoute) \<Rightarrow> string \<Rightarrow> (HttpReply + CtiRoute) option" where
  "feed_route path route line =
     (if line = ''GET '' @ path @ '' HTTP/1.1'' then Some (Inr (route 0))
      else (case path_argument (''GET '' @ path @ ''?after='') line of
          None \<Rightarrow> None
        | Some cursor \<Rightarrow> Some (case parse_cti_event_cursor cursor of
            None \<Rightarrow> Inl (bad_request ''invalid_cursor'')
          | Some c \<Rightarrow> Inr (route c))))"

definition fixed_route :: "string \<Rightarrow> CtiRoute option" where
  "fixed_route line =
     (if line = ''GET /v1/status HTTP/1.1'' then Some CtiRoute.Status
      else if line = ''GET /v1/capabilities HTTP/1.1'' then Some CtiRoute.Capabilities
      else if line = ''POST /v1/calls HTTP/1.1'' then Some CtiRoute.Call
      else if line = ''GET /v1/calls/current HTTP/1.1'' then Some CtiRoute.CurrentCall
      else None)"

definition route_of :: "string \<Rightarrow> HttpReply + CtiRoute" where
  "route_of line =
     (case scoped_route line of Some r \<Rightarrow> r
      | None \<Rightarrow> (case feed_route ''/v1/events'' CtiRoute.Events line of Some r \<Rightarrow> r
      | None \<Rightarrow> (case feed_route ''/v1/request-events'' CtiRoute.RequestEvents line of Some r \<Rightarrow> r
      | None \<Rightarrow> (case fixed_route line of Some r \<Rightarrow> Inr r
      | None \<Rightarrow> (case path_argument ''DELETE /v1/requests/'' line of
                   Some v \<Rightarrow> Inr (CtiRoute.CancelRequest v)
      | None \<Rightarrow> (case path_argument ''GET /v1/requests/'' line of
                   Some v \<Rightarrow> Inr (CtiRoute.RequestResult v)
      | None \<Rightarrow> Inl (reply 404 ''Not Found'' (error_body ''not_found''))))))))"

section \<open>Header fields\<close>

type_synonym http_fields = "string \<rightharpoonup> string"

text \<open>One header line.\<close>

definition parse_line :: "http_fields \<Rightarrow> string \<Rightarrow> HttpReply + http_fields" where
  "parse_line hdr line =
     (case find_idx CHR '':'' line of
        None \<Rightarrow> Inl (bad_request ''bad_request'')
      | Some colon \<Rightarrow>
          (if colon = 0 then Inl (bad_request ''bad_request'')
           else (let name = lower (take colon line); value = trim (drop (colon + 1) line) in
             if hdr name \<noteq> None then Inl (bad_request ''duplicate_header'')
             else Inr (hdr(name \<mapsto> value)))))"

function parse_fields :: "http_fields \<Rightarrow> string \<Rightarrow> HttpReply + http_fields" where
  "parse_fields hdr rest =
     (if rest = [] then Inr hdr
      else (case find_sub crlf rest of
          None \<Rightarrow> parse_line hdr rest
        | Some e \<Rightarrow> (case parse_line hdr (take e rest) of
            Inl r \<Rightarrow> Inl r
          | Inr hdr \<Rightarrow> parse_fields hdr (drop (e + 2) rest))))"
  by pat_completeness auto
termination
  by (relation "measure (\<lambda>(hdr, rest). length rest)") auto

declare parse_fields.simps [simp del]

text \<open>\<open>fields["name"]\<close>, which is empty for a missing field.\<close>

definition field :: "http_fields \<Rightarrow> string \<Rightarrow> string" where
  "field hdr name = (case hdr name of None \<Rightarrow> [] | Some v \<Rightarrow> v)"

definition forbidden :: "http_fields \<Rightarrow> bool" where
  "forbidden hdr \<longleftrightarrow> hdr ''origin'' \<noteq> None \<or> hdr ''referer'' \<noteq> None \<or>
     hdr ''transfer-encoding'' \<noteq> None \<or> field hdr ''host'' \<noteq> ''127.0.0.1:27652''"

definition authorized :: "string \<Rightarrow> http_fields \<Rightarrow> bool" where
  "authorized token hdr \<longleftrightarrow> (case hdr ''authorization'' of
     None \<Rightarrow> False
   | Some v \<Rightarrow> starts_with ''Bearer '' v \<and> secure_equal (drop 7 v) token)"

section \<open>Answering\<close>

text \<open>The routes without a body.\<close>

definition answer_query ::
    "LocalCtiServer \<Rightarrow> CtiRoute \<Rightarrow> HttpReply \<times> LocalCtiServer" where
  "answer_query s route =
     (case route of
        CtiRoute.Status \<Rightarrow> (reply_ok (''{\"ready\":'' @ json_bool (srv_ready s) @ ''}''), s)
      | CtiRoute.Capabilities \<Rightarrow> (reply_ok local_cti_capabilities_json, s)
      | CtiRoute.CurrentCall \<Rightarrow> (reply_ok (cti_snapshot_json (journal_snapshot (srv_journal s))), s)
      | CtiRoute.Events c \<Rightarrow> (reply_ok (cti_events_json (journal_after (srv_journal s) c)), s)
      | CtiRoute.RequestEvents c \<Rightarrow>
          (reply_ok (cti_request_events_json (events_after (srv_requests s) c)), s)
      | CtiRoute.ScopedEvents i c \<Rightarrow>
          (case events_after_for_request (srv_requests s) i c of
             None \<Rightarrow> (unknown_request, s)
           | Some page \<Rightarrow> (reply_ok (cti_request_events_json page), s))
      | CtiRoute.CancelRequest v \<Rightarrow>
          (case parse_cti_event_cursor v of
             None \<Rightarrow> (bad_request ''invalid_request_id'', s)
           | Some i \<Rightarrow>
               (if i = 0 then (bad_request ''invalid_request_id'', s)
                else (case requests_cancel (srv_requests s) i of (outcome, q) \<Rightarrow>
                  (case outcome of
                     CtiCancelOutcome.NotFound \<Rightarrow> unknown_request
                   | CtiCancelOutcome.TooLate \<Rightarrow>
                       reply 409 ''Conflict'' (error_body ''already_dispatching'')
                   | CtiCancelOutcome.Cancelled \<Rightarrow>
                       reply_ok (cti_request_json i CtiRequestState.Cancelled),
                   s\<lparr>srv_requests := q\<rparr>))))
      | CtiRoute.RequestResult v \<Rightarrow>
          (case parse_cti_event_cursor v of
             None \<Rightarrow> (bad_request ''invalid_request_id'', s)
           | Some i \<Rightarrow>
               (if i = 0 then (bad_request ''invalid_request_id'', s)
                else (case requests_get (srv_requests s) i of
                    None \<Rightarrow> (unknown_request, s)
                  | Some r \<Rightarrow> (reply_ok (cti_request_json (rec_id r) (rec_state r)), s))))
      | CtiRoute.Call \<Rightarrow> (unknown_request, s))"

text \<open>The length of the body, from the header.\<close>

definition content_length :: "http_fields \<Rightarrow> HttpReply + nat" where
  "content_length hdr =
     (case hdr ''content-length'' of
        None \<Rightarrow> Inl (reply 411 ''Length Required'' (error_body ''content_length''))
      | Some v \<Rightarrow>
          (if v = [] \<or> length v > 4
           then Inl (reply 411 ''Length Required'' (error_body ''content_length''))
           else if \<exists>c \<in> set v. \<not> dec_digit c then Inl (bad_request ''content_length'')
           else if dec_value v = 0 \<or> dec_value v > 512
           then Inl (reply 413 ''Content Too Large'' (error_body ''content_length''))
           else Inr (dec_value v)))"

text \<open>A request that was accepted for parsing: the idempotency key, the submission and its
  answer. The middle result says whether the window is notified.\<close>

definition submit_call ::
    "LocalCtiServer \<Rightarrow> http_fields \<Rightarrow> wstr \<Rightarrow> HttpReply \<times> bool \<times> LocalCtiServer" where
  "submit_call s hdr destination =
     (let sent = hdr ''idempotency-key''; key = field hdr ''idempotency-key'' in
      if sent \<noteq> None \<and> \<not> valid_cti_idempotency_key key
      then (bad_request ''invalid_idempotency_key'', False, s)
      else (case submit_idempotent (srv_requests s) destination key (srv_ready s) of (res, q) \<Rightarrow>
        (let s = s\<lparr>srv_requests := q\<rparr> in
         case sub_outcome res of
           CtiSubmitOutcome.NotReady \<Rightarrow>
             (reply 409 ''Conflict'' (error_body ''sip_not_ready''), False, s)
         | CtiSubmitOutcome.Busy \<Rightarrow>
             (reply 429 ''Too Many Requests'' (error_body ''busy''), False, s)
         | CtiSubmitOutcome.KeyConflict \<Rightarrow>
             (reply 409 ''Conflict'' (error_body ''idempotency_key_conflict''), False, s)
         | CtiSubmitOutcome.Replayed \<Rightarrow>
             (reply_ok (butlast (cti_request_json (sub_id res) (sub_state res)) @
                '',\"replayed\":true}''), False, s)
         | CtiSubmitOutcome.Created \<Rightarrow>
             (reply 202 ''Accepted'' (cti_request_json (sub_id res) CtiRequestState.Queued),
              srv_notification_window s \<noteq> 0 \<and> srv_notification_message s \<noteq> 0, s))))"

definition answer_call ::
    "wctype \<Rightarrow> LocalCtiServer \<Rightarrow> http_fields \<Rightarrow> string \<Rightarrow> nat \<Rightarrow> string list \<Rightarrow>
     HttpReply option \<times> bool \<times> LocalCtiServer" where
  "answer_call ct s hdr packet body_begin blocks =
     (if field hdr ''content-type'' \<noteq> ''application/json'' \<and>
         \<not> valid_cti_json_type (lower (field hdr ''content-type''))
      then (Some (reply 415 ''Unsupported Media Type'' (error_body ''content_type'')), False, s)
      else (case content_length hdr of
          Inl r \<Rightarrow> (Some r, False, s)
        | Inr n \<Rightarrow>
            (if length packet > body_begin + n
             then (Some (bad_request ''extra_bytes''), False, s)
             else (case read_body (body_begin + n) packet blocks of
                 None \<Rightarrow> (None, False, s)
               | Some packet \<Rightarrow>
                   (case parse_cti_call_json ct (take n (drop body_begin packet)) of
                      None \<Rightarrow> (Some (reply 422 ''Unprocessable Entity''
                                 (error_body ''invalid_destination'')), False, s)
                    | Some destination \<Rightarrow>
                        (case submit_call s hdr destination of (r, wake, s) \<Rightarrow>
                           (Some r, wake, s)))))))"

text \<open>\<open>handle_client\<close>: the answer, whether the window is notified, and the new state.\<close>

definition handle_client ::
    "wctype \<Rightarrow> LocalCtiServer \<Rightarrow> string list \<Rightarrow> HttpReply option \<times> bool \<times> LocalCtiServer" where
  "handle_client ct s blocks =
     (case read_head [] blocks of
        None \<Rightarrow> (None, False, s)
      | Some (packet, None, blocks) \<Rightarrow> (Some (bad_request ''bad_request''), False, s)
      | Some (packet, Some delimiter, blocks) \<Rightarrow>
          (if delimiter > 4096 then (Some (bad_request ''bad_request''), False, s)
           else (let header = take delimiter packet in
             case find_sub crlf header of
               None \<Rightarrow> (Some (bad_request ''bad_request''), False, s)
             | Some first_line \<Rightarrow>
                 (case route_of (take first_line header) of
                    Inl r \<Rightarrow> (Some r, False, s)
                  | Inr route \<Rightarrow>
                      (case parse_fields Map.empty (drop (first_line + 2) header) of
                         Inl r \<Rightarrow> (Some r, False, s)
                       | Inr hdr \<Rightarrow>
                           (if forbidden hdr
                            then (Some (reply 403 ''Forbidden'' (error_body ''forbidden'')), False, s)
                            else if \<not> authorized (srv_token s) hdr
                            then (Some (reply 401 ''Unauthorized'' (error_body ''unauthorized'')),
                                  False, s)
                            else if route = CtiRoute.Call
                            then answer_call ct s hdr packet (delimiter + 4) blocks
                            else if length packet \<noteq> delimiter + 4 \<or>
                                    hdr ''content-length'' \<noteq> None
                            then (Some (bad_request ''bad_request''), False, s)
                            else (case answer_query s route of (r, s) \<Rightarrow>
                              (Some r, False, s))))))))"

section \<open>Comparing tokens\<close>

lemma foldl_or_zero:
  "foldl (\<lambda>d i. or d (f i)) a xs = 0 \<longleftrightarrow> a = 0 \<and> (\<forall>i \<in> set xs. f i = 0)"
  for a :: u32
  by (induction xs arbitrary: a) (auto simp: or_eq_0_iff)

lemma xor_zero_word: "xor a b = 0 \<longleftrightarrow> a = b" for a b :: u32
  by (metis xor.assoc xor.left_neutral xor.right_neutral xor_self_eq)

lemma xor_zero_nat: "xor m n = 0 \<longleftrightarrow> m = n" for m n :: nat
  by (metis xor.assoc xor.left_neutral xor.right_neutral xor_self_eq)

lemma xor_less: "m < 2 ^ k \<Longrightarrow> n < 2 ^ k \<Longrightarrow> xor m n < 2 ^ k" for m n :: nat
  by (metis take_bit_nat_eq_self_iff take_bit_xor)

lemma of_char_u32_eq: "(of_char c :: u32) = of_char d \<longleftrightarrow> c = d"
proof -
  have "unat (of_char c :: u32) = of_char c" for c
  proof -
    have e: "(of_char c :: u32) = of_nat (of_char c)" by (rule of_nat_of_char [symmetric])
    have "(of_char c :: nat) < 2 ^ 32" by (rule order_less_trans [OF nat_of_char_less_256]) simp
    then show ?thesis unfolding e by (intro unat_of_nat_less) simp
  qed
  then show ?thesis by (metis of_char_eq_iff)
qed

text \<open>The comparison that does not stop early decides equality.\<close>

lemma secure_equal_iff:
  assumes "length l < 2 ^ 32" and "length r < 2 ^ 32"
  shows "secure_equal l r \<longleftrightarrow> l = r"
proof -
  have "(of_nat (xor (length l) (length r)) :: u32) = 0 \<longleftrightarrow> length l = length r"
  proof -
    have "unat (of_nat (xor (length l) (length r)) :: u32) = xor (length l) (length r)"
      using xor_less [OF assms] by (intro unat_of_nat_less) simp
    then show ?thesis using xor_zero_nat [of "length l" "length r"] by (metis unat_eq_zero)
  qed
  moreover have "(\<forall>i \<in> set [0..<length l]. xor (byte_at l i) (byte_at r i) = 0) \<longleftrightarrow> l = r"
    if "length l = length r"
    using that by (auto simp: xor_zero_word byte_at_def of_char_u32_eq intro: nth_equalityI)
  ultimately show ?thesis
    unfolding secure_equal_def foldl_or_zero by (auto simp: max_def)
qed

section \<open>Where the header ends\<close>

lemma find_sub_found:
  "find_sub p s = Some d \<Longrightarrow> d \<le> length s \<and> starts_with p (drop d s)"
proof (induction s arbitrary: d)
  case Nil
  then show ?case by (subst (asm) find_sub.simps) (auto split: if_splits)
next
  case (Cons x s)
  show ?case
  proof (cases "starts_with p (x # s)")
    case True
    then show ?thesis using Cons.prems by (subst (asm) find_sub.simps) auto
  next
    case False
    then obtain e where "find_sub p s = Some e" "d = Suc e"
      using Cons.prems by (subst (asm) find_sub.simps) auto
    then show ?thesis using Cons.IH by simp
  qed
qed

lemma find_sub_append:
  "find_sub p s = Some d \<Longrightarrow> find_sub p (s @ t) = Some d"
proof (induction s arbitrary: d)
  case Nil
  then have "p = []" "d = 0"
    by (auto simp: find_sub.simps [of p "[]"] starts_with_def split: if_splits)
  then show ?case by (simp add: find_sub.simps [of "[]"] starts_with_def)
next
  case (Cons x s)
  show ?case
  proof (cases "starts_with p (x # s)")
    case True
    then have "starts_with p ((x # s) @ t)" by (metis append_assoc starts_with_conv)
    then show ?thesis using True Cons.prems
      by (simp add: find_sub.simps [of p "x # s"] find_sub.simps [of p "x # s @ t"])
  next
    case False
    then obtain e where e: "find_sub p s = Some e" "d = Suc e"
      using Cons.prems by (auto simp: find_sub.simps [of p "x # s"])
    have "length p \<le> length (drop e s)"
      using find_sub_found [OF e(1)] by (metis le_add1 length_append starts_with_conv)
    then have len: "e + length p \<le> length s" using find_sub_found [OF e(1)] by auto
    have "\<not> starts_with p ((x # s) @ t)"
    proof
      assume "starts_with p ((x # s) @ t)"
      moreover have "length p \<le> length (x # s)" using len by simp
      ultimately have "starts_with p (x # s)" by (metis append.right_neutral diff_is_0_eq'
          starts_with_def take_append take_eq_Nil)
      with False show False ..
    qed
    then show ?thesis using Cons.IH [OF e(1)] e(2) by (simp add: find_sub.simps [of p "x # s @ t"])
  qed
qed

lemma recv_concat: "recv n blocks = (data, rest) \<Longrightarrow> concat blocks = data @ concat rest"
  by (cases blocks) (auto simp: recv_def split: if_splits)

lemma read_head_packet:
  "read_head packet blocks = Some (p, d, rest) \<Longrightarrow>
     packet @ concat blocks = p @ concat rest \<and>
     (\<forall>e. d = Some e \<longrightarrow> find_sub (crlf @ crlf) p = Some e)"
proof (induction packet blocks rule: read_head.induct)
  case (1 packet blocks)
  obtain data bs where r: "recv 2048 blocks = (data, bs)" by fastforce
  have cat: "concat blocks = data @ concat bs" by (rule recv_concat [OF r])
  show ?case
  proof (cases "length packet \<le> 8192 \<and> data \<noteq> [] \<and> find_sub (crlf @ crlf) (packet @ data) = None")
    case True
    then have "read_head (packet @ data) bs = Some (p, d, rest)"
      using "1.prems" r by (subst (asm) read_head.simps) simp
    then show ?thesis using "1.IH" r True cat by auto
  next
    case False
    then show ?thesis using "1.prems" r cat
      by (subst (asm) read_head.simps) (auto split: if_splits option.splits)
  qed
qed


text \<open>The header fields of the bytes a peer sends.\<close>

definition request_fields :: "string \<Rightarrow> http_fields option" where
  "request_fields bytes =
     (case find_sub (crlf @ crlf) bytes of
        None \<Rightarrow> None
      | Some d \<Rightarrow> (case find_sub crlf (take d bytes) of
          None \<Rightarrow> None
        | Some f \<Rightarrow> (case parse_fields Map.empty (drop (f + 2) (take d bytes)) of
            Inl r \<Rightarrow> None
          | Inr hdr \<Rightarrow> Some hdr)))"

lemma parse_line_length:
  assumes "parse_line hdr line = Inr h" and "\<forall>k v. hdr k = Some v \<longrightarrow> length v \<le> n" and "length line \<le> n"
  shows "\<forall>k v. h k = Some v \<longrightarrow> length v \<le> n"
proof -
  have "length (trim v) \<le> length v" for v
    unfolding trim_def by (metis length_dropWhile_le length_rev order_trans)
  then have "length (trim (drop k line)) \<le> n" for k
    using assms(3) by (metis diff_le_self length_drop order_trans)
  then show ?thesis
    using assms(1,2) by (auto simp: parse_line_def Let_def split: option.splits if_splits)
qed

lemma parse_fields_length:
  "parse_fields hdr rest = Inr h \<Longrightarrow> \<forall>k v. hdr k = Some v \<longrightarrow> length v \<le> n \<Longrightarrow> length rest \<le> n \<Longrightarrow>
     \<forall>k v. h k = Some v \<longrightarrow> length v \<le> n"
proof (induction hdr rest rule: parse_fields.induct)
  case (1 hdr rest)
  show ?case
  proof (cases "rest = []")
    case True
    then show ?thesis using "1.prems" by (simp add: parse_fields.simps)
  next
    case False
    show ?thesis
    proof (cases "find_sub crlf rest")
      case None
      then show ?thesis
        using False "1.prems" parse_line_length [of hdr rest h n] by (simp add: parse_fields.simps)
    next
      case (Some e)
      obtain h1 where h1: "parse_line hdr (take e rest) = Inr h1"
        "parse_fields h1 (drop (e + 2) rest) = Inr h"
        using False Some "1.prems"(1) by (auto simp: parse_fields.simps [of hdr rest] split: sum.splits)
      have "\<forall>k v. h1 k = Some v \<longrightarrow> length v \<le> n"
        using parse_line_length [OF h1(1) "1.prems"(2)] "1.prems"(3) by simp
      then show ?thesis using "1.IH" [OF False Some h1(1,2)] "1.prems"(3) by simp
    qed
  qed
qed

lemma authorized_token:
  assumes "authorized token hdr" and "length token < 2 ^ 32"
    and "\<forall>k v. hdr k = Some v \<longrightarrow> length v \<le> 4096"
  shows "hdr ''authorization'' = Some (''Bearer '' @ token)"
proof -
  obtain v where v: "hdr ''authorization'' = Some v" "starts_with ''Bearer '' v"
    "secure_equal (drop 7 v) token"
    using assms(1) by (auto simp: authorized_def split: option.splits)
  have "length (drop 7 v) < 2 ^ 32" using assms(3) v(1) by fastforce
  then have "drop 7 v = token" using secure_equal_iff assms(2) v(3) by blast
  moreover obtain t where "v = ''Bearer '' @ t" using v(2) by (auto simp: starts_with_conv)
  ultimately show ?thesis using v(1) by simp
qed

section \<open>The effect of a connection on the queue\<close>

lemma answer_query_effect:
  "answer_query s route = (r, s') \<Longrightarrow> s' = s \<or>
     (\<exists>i. s' = s\<lparr>srv_requests := request_op (srv_requests s) (Cancel i)\<rparr>)"
  by (auto simp: answer_query_def case_prod_beta split: CtiRoute.splits option.splits if_splits)

lemma submit_call_effect:
  "submit_call s hdr d = (r, wake, s') \<Longrightarrow>
     s' = s \<or> (\<exists>k. s' = s\<lparr>srv_requests := request_op (srv_requests s) (SubmitKey d k (srv_ready s))\<rparr>)"
  by (auto simp: submit_call_def Let_def case_prod_beta split: CtiSubmitOutcome.splits if_splits)

lemma answer_call_effect:
  "answer_call ct s hdr packet b blocks = (r, wake, s') \<Longrightarrow> s' = s \<or>
     (\<exists>body d k. parse_cti_call_json ct body = Some d \<and>
        s' = s\<lparr>srv_requests := request_op (srv_requests s) (SubmitKey d k (srv_ready s))\<rparr>)"
  using submit_call_effect
  by (fastforce simp: answer_call_def split: if_splits sum.splits option.splits prod.splits)

lemma bad_request_code: "400 \<le> rep_code (bad_request e)"
  by (simp add: bad_request_def reply_def)

lemma scoped_route_error: "scoped_route line = Some (Inl r) \<Longrightarrow> 400 \<le> rep_code r"
  by (auto simp: scoped_route_def Let_def bad_request_code split: option.splits if_splits)

lemma feed_route_error: "feed_route path f line = Some (Inl r) \<Longrightarrow> 400 \<le> rep_code r"
  by (auto simp: feed_route_def bad_request_code split: option.splits if_splits)

lemma route_error: "route_of line = Inl r \<Longrightarrow> 400 \<le> rep_code r"
  using scoped_route_error [of line r] feed_route_error [of _ _ line r]
  by (auto simp: route_of_def reply_def split: option.splits)

lemma parse_line_error: "parse_line hdr line = Inl r \<Longrightarrow> 400 \<le> rep_code r"
  by (auto simp: parse_line_def Let_def bad_request_code split: option.splits if_splits)

lemma parse_fields_error: "parse_fields hdr rest = Inl r \<Longrightarrow> 400 \<le> rep_code r"
proof (induction hdr rest rule: parse_fields.induct)
  case (1 hdr rest)
  show ?case
  proof (cases "find_sub crlf rest")
    case None
    then show ?thesis using "1.prems" parse_line_error
      by (auto simp: parse_fields.simps [of hdr rest] split: if_splits)
  next
    case (Some e)
    then show ?thesis using "1.prems" "1.IH" parse_line_error
      by (auto simp: parse_fields.simps [of hdr rest] split: if_splits sum.splits)
  qed
qed

text \<open>A connection that is not refused passed every check of the header.\<close>

lemma handle_client_cases:
  assumes "handle_client ct s blocks = (rep, wake, s')"
  obtains (refused) "s' = s" "\<not> wake" "\<And>r. rep = Some r \<Longrightarrow> 400 \<le> rep_code r"
    | (passed) hdr where "request_fields (concat blocks) = Some hdr" "\<not> forbidden hdr"
      "authorized (srv_token s) hdr" "\<forall>k v. hdr k = Some v \<longrightarrow> length v \<le> 4096"
      "s' = s \<or> (\<exists>i. s' = s\<lparr>srv_requests := request_op (srv_requests s) (Cancel i)\<rparr>) \<or>
        (\<exists>body d k. parse_cti_call_json ct body = Some d \<and>
          s' = s\<lparr>srv_requests := request_op (srv_requests s) (SubmitKey d k (srv_ready s))\<rparr>)"
proof -
  note codes = bad_request_code route_error parse_fields_error
  show thesis
  proof (cases "\<exists>packet d rest. read_head [] blocks = Some (packet, Some d, rest) \<and> d \<le> 4096")
    case False
    then show thesis
      using assms codes refused unfolding handle_client_def
      by (auto split: option.splits if_splits)
  next
    case True
    then obtain packet d rest where rd: "read_head [] blocks = Some (packet, Some d, rest)" "d \<le> 4096"
      by blast
    let ?h = "take d packet"
    have bytes: "concat blocks = packet @ concat rest" "find_sub (crlf @ crlf) packet = Some d"
      using read_head_packet [OF rd(1)] by simp_all
    then have found: "find_sub (crlf @ crlf) (concat blocks) = Some d"
      and head: "take d (concat blocks) = ?h"
      using find_sub_append find_sub_found [OF bytes(2)] by auto
    show thesis
    proof (cases "\<exists>f route hdr. find_sub crlf ?h = Some f \<and> route_of (take f ?h) = Inr route \<and>
        parse_fields Map.empty (drop (f + 2) ?h) = Inr hdr \<and> \<not> forbidden hdr \<and>
        authorized (srv_token s) hdr")
      case False
      then show thesis
        using assms refused rd codes unfolding handle_client_def
        by (auto simp: Let_def reply_def split: option.splits sum.splits if_splits)
    next
      case True
      then obtain f route hdr where f: "find_sub crlf ?h = Some f" "route_of (take f ?h) = Inr route"
        "parse_fields Map.empty (drop (f + 2) ?h) = Inr hdr" "\<not> forbidden hdr"
        "authorized (srv_token s) hdr" by blast
      have rf: "request_fields (concat blocks) = Some hdr"
        using found head f(1,3) by (simp add: request_fields_def)
      have len: "\<forall>k v. hdr k = Some v \<longrightarrow> length v \<le> 4096"
        using parse_fields_length [OF f(3), of 4096] rd(2) by simp
      have eq: "handle_client ct s blocks =
        (if route = CtiRoute.Call then answer_call ct s hdr packet (d + 4) rest
         else if length packet \<noteq> d + 4 \<or> hdr ''content-length'' \<noteq> None
         then (Some (bad_request ''bad_request''), False, s)
         else (Some (fst (answer_query s route)), False, snd (answer_query s route)))"
        using rd f unfolding handle_client_def by (simp add: Let_def case_prod_beta)
      show thesis
      proof (cases "route = CtiRoute.Call")
        case True
        then have "answer_call ct s hdr packet (d + 4) rest = (rep, wake, s')"
          using assms eq by simp
        from answer_call_effect [OF this] show thesis using passed [OF rf f(4,5) len] by blast
      next
        case False
        then have "s' = s \<or> s' = snd (answer_query s route)" using assms eq by (auto split: if_splits)
        then show thesis
          using passed [OF rf f(4,5) len] answer_query_effect [of s route "fst (answer_query s route)"]
          by (metis prod.collapse)
      qed
    qed
  qed
qed

section \<open>Runs of the server\<close>

datatype ServerOp =
    StartServer bool bool string
  | StopServer
  | Notify u64 u32
  | Ready bool
  | Observed SipRuntimeObservation
  | TakeRequest bool
  | CompleteRequest u64 bool
  | Client "string list"

text \<open>Connections are served by the worker thread only.\<close>

fun server_op :: "wctype \<Rightarrow> LocalCtiServer \<Rightarrow> ServerOp \<Rightarrow> LocalCtiServer" where
  "server_op ct s (StartServer listens spawns token) = snd (server_start listens spawns s token)"
| "server_op ct s StopServer = server_stop s"
| "server_op ct s (Notify window message) = set_notification_target s window message"
| "server_op ct s (Ready ready) = set_ready s ready"
| "server_op ct s (Observed state) = server_observe s state"
| "server_op ct s (TakeRequest ready_after) = snd (server_take s ready_after)"
| "server_op ct s (CompleteRequest i ok) = snd (server_complete s i ok)"
| "server_op ct s (Client blocks) =
     (if srv_worker s then snd (snd (handle_client ct s blocks)) else s)"

definition server_run :: "wctype \<Rightarrow> ServerOp list \<Rightarrow> LocalCtiServer" where
  "server_run ct ops = foldl (server_op ct) new_server ops"

text \<open>Whatever waits or is being dispatched is a dialable address.\<close>

definition dial_ok :: "wctype \<Rightarrow> CtiRequestQueue \<Rightarrow> bool" where
  "dial_ok ct q \<longleftrightarrow> (\<forall>p. crq_pending q = Some p \<or> crq_active q = Some p \<longrightarrow>
     length (pnd_destination p) \<le> 128 \<and> address_shape ct (pnd_destination p))"

definition server_inv :: "wctype \<Rightarrow> LocalCtiServer \<Rightarrow> bool" where
  "server_inv ct s \<longleftrightarrow> requests_inv (srv_requests s) \<and> dial_ok ct (srv_requests s) \<and>
     (srv_worker s \<longrightarrow> valid_cti_api_token (srv_token s))"

lemma dial_ok_op:
  assumes "dial_ok ct q" and "\<And>d. op \<noteq> Submit d"
    and "\<And>d k ready. op = SubmitKey d k ready \<Longrightarrow> length d \<le> 128 \<and> address_shape ct d"
  shows "dial_ok ct (request_op q op)"
proof (cases op)
  case (Submit d)
  with assms(2) show ?thesis by blast
next
  case (SubmitKey d k ready)
  show ?thesis
    using submit_idempotent_change [of q d k ready] assms(1,3) SubmitKey
    by (auto simp: dial_ok_def enqueue_request_def)
next
  case RejectPending
  then show ?thesis using assms(1)
    by (auto simp: dial_ok_def reject_pending_def Let_def split: option.splits)
next
  case Take
  then show ?thesis using assms(1)
    by (auto simp: dial_ok_def requests_take_def Let_def split: option.splits if_splits)
next
  case (Complete i ok)
  then show ?thesis using assms(1)
    by (auto simp: dial_ok_def requests_complete_def Let_def split: option.splits if_splits)
next
  case (Cancel i)
  then show ?thesis using assms(1)
    by (auto simp: dial_ok_def requests_cancel_def Let_def split: option.splits if_splits)
next
  case Clear
  then show ?thesis using assms(1) by (simp add: dial_ok_def requests_clear_def)
qed

lemma server_queue_op_inv:
  assumes "server_inv ct s" and "\<And>d. op \<noteq> Submit d"
    and "\<And>d k ready. op = SubmitKey d k ready \<Longrightarrow> length d \<le> 128 \<and> address_shape ct d"
  shows "requests_inv (request_op (srv_requests s) op) \<and> dial_ok ct (request_op (srv_requests s) op)"
  using assms request_op_inv dial_ok_op by (auto simp: server_inv_def)

lemma parsed_dialable:
  assumes "ascii_ctype ct" and "parse_cti_call_json ct body = Some d"
  shows "length d \<le> 128 \<and> address_shape ct d"
proof -
  obtain e where "accept_destination ct e = Some d"
    using assms(2) unfolding parse_cti_call_json_def by (auto simp: bind_eq_Some_conv split: if_splits)
  then show ?thesis using normalized_shape [OF assms(1)] by (auto simp: accept_destination_Some)
qed

lemma client_inv:
  assumes "ascii_ctype ct" and "server_inv ct s" and "handle_client ct s blocks = (rep, wake, s')"
  shows "server_inv ct s'"
  using assms(3)
proof (cases rule: handle_client_cases)
  case refused
  then show ?thesis using assms(2) by simp
next
  case (passed hdr)
  from passed(5) show ?thesis
  proof (elim disjE exE conjE)
    fix i assume "s' = s\<lparr>srv_requests := request_op (srv_requests s) (Cancel i)\<rparr>"
    then show ?thesis using server_queue_op_inv [OF assms(2), of "Cancel i"] assms(2) by (simp add: server_inv_def)
  next
    fix body d k
    assume "parse_cti_call_json ct body = Some d"
      and s': "s' = s\<lparr>srv_requests := request_op (srv_requests s) (SubmitKey d k (srv_ready s))\<rparr>"
    then have "length d \<le> 128 \<and> address_shape ct d" using parsed_dialable [OF assms(1)] by blast
    then show ?thesis
      using server_queue_op_inv [OF assms(2), of "SubmitKey d k (srv_ready s)"] assms(2) s'
      by (simp add: server_inv_def)
  qed (use assms(2) in simp)
qed

lemma take_inv:
  assumes "server_inv ct s" shows "server_inv ct (snd (server_take s ready_after))"
proof -
  let ?q = "srv_requests s"
  have rej: "requests_inv (snd (reject_pending ?q)) \<and> dial_ok ct (snd (reject_pending ?q))"
    using server_queue_op_inv [OF assms, of RejectPending] by simp
  have tk: "requests_inv (snd (requests_take ?q)) \<and> dial_ok ct (snd (requests_take ?q))"
    using server_queue_op_inv [OF assms, of Take] by simp
  have "requests_inv (snd (requests_complete (snd (requests_take ?q)) i False)) \<and>
      dial_ok ct (snd (requests_complete (snd (requests_take ?q)) i False))" for i
    using server_queue_op_inv [of ct "s\<lparr>srv_requests := snd (requests_take ?q)\<rparr>" "Complete i False"] tk assms
    by (simp add: server_inv_def)
  then show ?thesis using rej tk assms
    by (auto simp: server_take_def server_inv_def case_prod_beta split: option.splits)
qed

lemma server_op_inv:
  assumes "ascii_ctype ct" and "server_inv ct s" shows "server_inv ct (server_op ct s op)"
proof (cases op)
  case (StartServer listens spawns token)
  then show ?thesis using assms(2) by (simp add: server_start_def server_inv_def Let_def)
next
  case StopServer
  then show ?thesis
    using server_queue_op_inv [OF assms(2), of Clear] by (simp add: server_stop_def server_inv_def)
next
  case (Notify window message)
  then show ?thesis using assms(2) by (simp add: set_notification_target_def server_inv_def)
next
  case (Ready ready)
  then show ?thesis
    using server_queue_op_inv [OF assms(2), of RejectPending] assms(2)
    by (simp add: set_ready_def server_inv_def Let_def)
next
  case (Observed state)
  then show ?thesis using assms(2) by (simp add: server_observe_def server_inv_def)
next
  case (TakeRequest r)
  then show ?thesis using take_inv [OF assms(2)] by simp
next
  case (CompleteRequest i ok)
  then show ?thesis
    using server_queue_op_inv [OF assms(2), of "Complete i ok"] assms(2)
    by (simp add: server_complete_def server_inv_def case_prod_beta)
next
  case (Client blocks)
  then show ?thesis
    using client_inv [OF assms, of blocks "fst (handle_client ct s blocks)"] assms(2)
    by (metis prod.collapse server_op.simps(8))
qed

lemma server_run_inv: "ascii_ctype ct \<Longrightarrow> server_inv ct (server_run ct ops)"
  unfolding server_run_def
proof (induction ops rule: rev_induct)
  case Nil
  then show ?case using requests_inv_empty
    by (simp add: server_inv_def new_server_def dial_ok_def empty_requests_def)
next
  case (snoc op ops)
  then show ?case using server_op_inv by simp
qed

section \<open>Properties\<close>

text \<open>
  C19. No access without the token. If a connection changes the server's state, wakes the window, or
  is answered with anything but an error status, then the bytes received carry a header with
  exactly one authorization field, the bearer token of the server, the loopback host, and no
  origin, referer or transfer-encoding field; and nothing but the request queue has changed.
\<close>

theorem cti_access_needs_token:
  assumes "handle_client ct s blocks = (rep, wake, s')" and "length (srv_token s) \<le> 128"
    and "s' \<noteq> s \<or> wake \<or> (\<exists>r. rep = Some r \<and> rep_code r < 400)"
  shows "(\<exists>hdr. request_fields (concat blocks) = Some hdr \<and>
      hdr ''authorization'' = Some (''Bearer '' @ srv_token s) \<and>
      hdr ''host'' = Some ''127.0.0.1:27652'' \<and> hdr ''origin'' = None \<and> hdr ''referer'' = None \<and>
      hdr ''transfer-encoding'' = None) \<and>
    s' = s\<lparr>srv_requests := srv_requests s'\<rparr>"
  using assms(1)
proof (cases rule: handle_client_cases)
  case refused
  with assms(3) show ?thesis by (auto simp: linorder_not_le)
next
  case (passed hdr)
  have "hdr ''authorization'' = Some (''Bearer '' @ srv_token s)"
    using authorized_token [OF passed(3) _ passed(4)] assms(2) by simp
  moreover have "hdr ''host'' = Some ''127.0.0.1:27652''"
    using passed(2) by (auto simp: forbidden_def field_def split: option.splits)
  moreover have "s' = s\<lparr>srv_requests := srv_requests s'\<rparr>" using passed(5) by auto
  ultimately show ?thesis using passed(1,2) by (auto simp: forbidden_def)
qed

definition sample_token :: string where
  "sample_token = ''0123456789abcdef0123456789abcdef''"

definition sample_call :: "string list" where
  "sample_call = [''POST /v1/calls HTTP/1.1'' @ crlf @ ''Host: 127.0.0.1:27652'' @ crlf @
     ''Authorization: Bearer '' @ sample_token @ crlf @ ''Content-Type: application/json'' @ crlf @
     ''Content-Length: 22'' @ crlf @ crlf, ''{\"destination\":\"1001\"}'']"

definition sample_server :: "ServerOp list" where
  "sample_server = [StartServer True True sample_token, Ready True, Client sample_call]"


theorem cti_access_needs_token_witness:
  "rep_code (the (fst (handle_client c_locale (server_run c_locale [StartServer True True sample_token])
      [''GET /v1/status HTTP/1.1'' @ crlf @ ''Host: 127.0.0.1:27652'' @ crlf @
       ''Authorization: Bearer '' @ sample_token @ crlf @ crlf]))) = 200 \<and>
   (\<exists>hdr. hdr ''authorization'' = Some (''Bearer '' @ sample_token))"
proof -
  let ?s = "server_run c_locale [StartServer True True sample_token]"
  let ?b = "[''GET /v1/status HTTP/1.1'' @ crlf @ ''Host: 127.0.0.1:27652'' @ crlf @
    ''Authorization: Bearer '' @ sample_token @ crlf @ crlf]"
  let ?h = "handle_client c_locale ?s ?b"
  have token: "srv_token ?s = sample_token" by code_simp
  have len: "length (srv_token ?s) \<le> 128" unfolding token by (simp add: sample_token_def)
  have code: "map_option rep_code (fst ?h) = Some 200" by code_simp
  then obtain r where r: "fst ?h = Some r" "rep_code r = 200" by auto
  then have "fst ?h = Some r \<and> rep_code r < 400" by simp
  moreover have "?h = (fst ?h, fst (snd ?h), snd (snd ?h))" by simp
  ultimately have "\<exists>hdr. hdr ''authorization'' = Some (''Bearer '' @ srv_token ?s)"
    using cti_access_needs_token len by metis
  then show ?thesis using r token by simp
qed

text \<open>
  C20. What reaches the user interface for dialling. After any sequence of starts, stops, readiness
  changes, observations, takes, completions and client connections, a request is handed out only
  if the line was ready before and after it was taken, its destination is a normalised SIP address of
  at most 128 characters, and it is then the one request in dispatch. While the worker runs, the
  token is a valid API token.
\<close>

theorem dispatched_requests_dialable:
  assumes "ascii_ctype ct" and "s = server_run ct ops"
    and "server_take s ready_after = (Some p, s')"
  shows "srv_ready s \<and> ready_after \<and> length (pnd_destination p) \<le> 128 \<and>
    address_shape ct (pnd_destination p) \<and>
    crq_active (srv_requests s') = Some p \<and> crq_pending (srv_requests s') = None \<and>
    (srv_worker s \<longrightarrow> valid_cti_api_token (srv_token s))"
proof -
  have inv: "server_inv ct s" using server_run_inv [OF assms(1)] assms(2) by simp
  have ready: "srv_ready s" "ready_after" and tk: "requests_take (srv_requests s) = (Some p, srv_requests s')"
    using assms(3) by (auto simp: server_take_def split: if_splits option.splits prod.splits)
  have pend: "crq_pending (srv_requests s) = Some p"
    using tk by (auto simp: requests_take_def Let_def split: option.splits if_splits)
  have ri: "requests_inv (srv_requests s)" using inv by (simp add: server_inv_def)
  have "crq_active (srv_requests s') = Some p \<and> crq_pending (srv_requests s') = None"
    by (rule take_change [OF ri pend]) (use tk pend in \<open>simp add: change_newest_def\<close>)
  then show ?thesis using ready inv pend by (simp add: server_inv_def dial_ok_def)
qed


theorem dispatched_requests_dialable_witness:
  "fst (server_take (server_run c_locale sample_server) True) =
     Some \<lparr>pnd_id = 1, pnd_destination = W ''1001''\<rparr> \<and> address_shape c_locale (W ''1001'')"
proof -
  let ?s = "server_run c_locale sample_server" and ?p = "\<lparr>pnd_id = 1, pnd_destination = W ''1001''\<rparr>"
  have f: "fst (server_take ?s True) = Some ?p" by code_simp
  then have "server_take ?s True = (Some ?p, snd (server_take ?s True))" by (metis prod.collapse)
  from dispatched_requests_dialable [OF ascii_c_locale refl this] f show ?thesis by simp
qed

end
