(* ===== verification/Contact_Book.thy ===== *)
theory Contact_Book
  imports Sip_Address
begin

text \<open>
  The contact book: \<open>contact_book.h\<close>, \<open>contact_book.cpp\<close> and \<open>contact_favorites.cpp\<close>. Names are
  UTF-16 texts, checked code point by code point; destinations are the addresses the native
  engine can call. Allocation failures, which every method turns into \<open>Error\<close> before it changes
  anything, are not modelled.

  The locale \<open>favorite_store\<close> is what \<open>contact_favorites.cpp\<close> relies on; the book interprets it.
\<close>

section \<open>Data\<close>

record ContactDraft =
  dr_name :: wstr
  dr_destination :: wstr
  dr_favorite :: bool

record Contact =
  co_id :: u64
  co_name :: wstr
  co_destination :: wstr
  co_favorite :: bool

datatype ContactResult = Ok | Invalid | Duplicate | Full | NotFound | Error

record ContactBook =
  cb_items :: "Contact list"
  cb_next_id :: u64

definition empty_book :: ContactBook where
  "empty_book = \<lparr>cb_items = [], cb_next_id = 1\<rparr>"

definition book_capacity :: nat where
  "book_capacity = 500"

section \<open>Names\<close>

definition high_surrogate :: "wchar \<Rightarrow> bool" where
  "high_surrogate c \<longleftrightarrow> 0xd800 \<le> c \<and> c \<le> 0xdbff"

definition low_surrogate :: "wchar \<Rightarrow> bool" where
  "low_surrogate c \<longleftrightarrow> 0xdc00 \<le> c \<and> c \<le> 0xdfff"

definition join_surrogates :: "wchar \<Rightarrow> wchar \<Rightarrow> u32" where
  "join_surrogates high low = 0x10000 + push_bit 10 (ucast high - 0xd800) + ucast low - 0xdc00"

text \<open>The next code point and the rest, or nothing for an unpaired surrogate.\<close>

definition next_code_point :: "wchar \<Rightarrow> wstr \<Rightarrow> (u32 \<times> wstr) option" where
  "next_code_point c cs =
     (if high_surrogate c
      then (case cs of
          [] \<Rightarrow> None
        | low # rest \<Rightarrow> if low_surrogate low then Some (join_surrogates c low, rest) else None)
      else if low_surrogate c then None
      else Some (ucast c, cs))"

definition forbidden_code_point :: "u32 \<Rightarrow> bool" where
  "forbidden_code_point cp \<longleftrightarrow> cp < 0x20 \<or> (0x7f \<le> cp \<and> cp \<le> 0x9f) \<or> cp = 0x061c \<or>
     (0x200b \<le> cp \<and> cp \<le> 0x200f) \<or> (0x2028 \<le> cp \<and> cp \<le> 0x202e) \<or>
     (0x2060 \<le> cp \<and> cp \<le> 0x206f) \<or> cp = 0xfeff"

definition visible_code_point :: "u32 \<Rightarrow> bool" where
  "visible_code_point cp \<longleftrightarrow> cp \<noteq> 0x20 \<and> cp \<noteq> 0xa0 \<and> cp \<noteq> 0x1680 \<and>
     \<not> (0x2000 \<le> cp \<and> cp \<le> 0x200a) \<and> cp \<noteq> 0x202f \<and> cp \<noteq> 0x205f \<and> cp \<noteq> 0x3000"

definition code_units :: "u32 \<Rightarrow> nat" where
  "code_units cp = (if cp > 0xffff then 2 else 1)"

lemma next_code_point_shorter:
  "next_code_point c cs = Some (cp, rest) \<Longrightarrow> length rest \<le> length cs"
  by (auto simp: next_code_point_def split: if_splits list.splits)

text \<open>The loop of \<open>valid_name\<close>.\<close>

function name_scan :: "nat \<Rightarrow> bool \<Rightarrow> wstr \<Rightarrow> bool" where
  "name_scan units visible [] = visible"
| "name_scan units visible (c # cs) =
     (case next_code_point c cs of
        None \<Rightarrow> False
      | Some (cp, rest) \<Rightarrow>
          (if units + code_units cp > 64 \<or> forbidden_code_point cp then False
           else name_scan (units + code_units cp) (visible \<or> visible_code_point cp) rest))"
  by pat_completeness auto
termination
  by (relation "measure (\<lambda>(units, visible, s). length s)")
    (auto dest: next_code_point_shorter simp: le_imp_less_Suc)

definition valid_name :: "wstr \<Rightarrow> bool" where
  "valid_name name \<longleftrightarrow> name \<noteq> [] \<and> name_scan 0 False name"

section \<open>Drafts\<close>

text \<open>The user part the native engine can call.\<close>

definition call_user_char :: "wchar \<Rightarrow> bool" where
  "call_user_char c \<longleftrightarrow> ascii_alnum c \<or> c = wc CHR ''_'' \<or> c = wc CHR ''.'' \<or> c = wc CHR ''-'' \<or>
     c = wc CHR ''+'' \<or> c = wc CHR ''*'' \<or> c = wc CHR ''#''"

definition scheme_length :: "wstr \<Rightarrow> nat" where
  "scheme_length s = (if starts_with (W ''sips:'') s then 5
     else if starts_with (W ''sip:'') s then 4 else 0)"

definition valid_draft :: "wctype \<Rightarrow> ContactDraft \<Rightarrow> bool" where
  "valid_draft ct draft \<longleftrightarrow>
     (let destination = dr_destination draft in
      if \<not> valid_name (dr_name draft) \<or> destination = [] \<or> length destination > 128 then False
      else if \<exists>c \<in> set destination. c \<le> 32 \<or> c \<ge> 127 then False
      else if fst (validate_address ct destination) \<noteq> AddressError.NoAddressError then False
      else (case find_idx (wc CHR ''@'') destination of
          None \<Rightarrow> True
        | Some at \<Rightarrow> \<forall>c \<in> set (drop (scheme_length destination) (take at destination)).
            call_user_char c))"

definition valid_contact_draft :: "wctype \<Rightarrow> ContactDraft \<Rightarrow> bool" where
  "valid_contact_draft ct draft = valid_draft ct draft"

section \<open>Operations\<close>

definition book_find :: "ContactBook \<Rightarrow> u64 \<Rightarrow> Contact option" where
  "book_find book i = find (\<lambda>c. co_id c = i) (cb_items book)"

definition contact_of :: "u64 \<Rightarrow> ContactDraft \<Rightarrow> Contact" where
  "contact_of i draft = \<lparr>co_id = i, co_name = dr_name draft,
     co_destination = dr_destination draft, co_favorite = dr_favorite draft\<rparr>"

definition draft_of :: "Contact \<Rightarrow> ContactDraft" where
  "draft_of c = \<lparr>dr_name = co_name c, dr_destination = co_destination c, dr_favorite = co_favorite c\<rparr>"

definition book_add :: "wctype \<Rightarrow> ContactBook \<Rightarrow> ContactDraft \<Rightarrow> ContactResult \<times> ContactBook" where
  "book_add ct book draft =
     (if \<not> valid_draft ct draft then (ContactResult.Invalid, book)
      else if \<exists>c \<in> set (cb_items book). co_destination c = dr_destination draft
      then (ContactResult.Duplicate, book)
      else if length (cb_items book) \<ge> book_capacity then (ContactResult.Full, book)
      else if cb_next_id book = 0 then (ContactResult.Error, book)
      else (ContactResult.Ok,
            \<lparr>cb_items = cb_items book @ [contact_of (cb_next_id book) draft],
             cb_next_id = cb_next_id book + 1\<rparr>))"

text \<open>Changing the element an iterator found: the first one with the identifier.\<close>

fun change_contact :: "u64 \<Rightarrow> (Contact \<Rightarrow> Contact) \<Rightarrow> Contact list \<Rightarrow> Contact list" where
  "change_contact i f [] = []"
| "change_contact i f (c # cs) = (if co_id c = i then f c # cs else c # change_contact i f cs)"

fun erase_contact :: "u64 \<Rightarrow> Contact list \<Rightarrow> Contact list" where
  "erase_contact i [] = []"
| "erase_contact i (c # cs) = (if co_id c = i then cs else c # erase_contact i cs)"

definition book_update ::
    "wctype \<Rightarrow> ContactBook \<Rightarrow> u64 \<Rightarrow> ContactDraft \<Rightarrow> ContactResult \<times> ContactBook" where
  "book_update ct book i draft =
     (if book_find book i = None then (ContactResult.NotFound, book)
      else if \<not> valid_draft ct draft then (ContactResult.Invalid, book)
      else if \<exists>c \<in> set (cb_items book). co_id c \<noteq> i \<and> co_destination c = dr_destination draft
      then (ContactResult.Duplicate, book)
      else (ContactResult.Ok,
            book\<lparr>cb_items := change_contact i (\<lambda>c. contact_of (co_id c) draft) (cb_items book)\<rparr>))"

definition book_remove :: "ContactBook \<Rightarrow> u64 \<Rightarrow> ContactResult \<times> ContactBook" where
  "book_remove book i =
     (if book_find book i = None then (ContactResult.NotFound, book)
      else (ContactResult.Ok, book\<lparr>cb_items := erase_contact i (cb_items book)\<rparr>))"

definition set_favorite :: "ContactBook \<Rightarrow> u64 \<Rightarrow> bool \<Rightarrow> ContactResult \<times> ContactBook" where
  "set_favorite book i favorite =
     (if book_find book i = None then (ContactResult.NotFound, book)
      else (ContactResult.Ok,
            book\<lparr>cb_items := change_contact i (\<lambda>c. c\<lparr>co_favorite := favorite\<rparr>) (cb_items book)\<rparr>))"

definition book_swap :: "ContactBook \<Rightarrow> ContactBook \<Rightarrow> ContactBook \<times> ContactBook" where
  "book_swap book other =
     (book\<lparr>cb_items := cb_items other, cb_next_id := cb_next_id other\<rparr>,
      other\<lparr>cb_items := cb_items book, cb_next_id := cb_next_id book\<rparr>)"

text \<open>\<open>contact_favorites.cpp\<close>.\<close>

definition toggle_contact_favorite :: "ContactBook \<Rightarrow> u64 \<Rightarrow> ContactResult \<times> ContactBook" where
  "toggle_contact_favorite book i =
     (case book_find book i of
        None \<Rightarrow> (ContactResult.NotFound, book)
      | Some c \<Rightarrow> set_favorite book i (\<not> co_favorite c))"

definition favorite_contact_count :: "ContactBook \<Rightarrow> nat" where
  "favorite_contact_count book = foldl (\<lambda>n c. if co_favorite c then n + 1 else n) 0 (cb_items book)"

section \<open>Code points\<close>

lemma unat_ucast_u32 [simp]: "unat (ucast (c :: wchar) :: u32) = unat c"
  by (simp add: unsigned_ucast_eq take_bit_nat_eq_self_iff unsigned_less order_less_trans [OF unsigned_less])

lemma unat_push_bit_10: "unat (x :: u32) < 1024 \<Longrightarrow> unat (push_bit 10 x) = unat x * 1024"
  by (simp add: push_bit_eq_mult unat_word_ariths)

lemma surrogate_bounds:
  "high_surrogate h \<longleftrightarrow> 0xd800 \<le> unat h \<and> unat h \<le> 0xdbff"
  "low_surrogate l \<longleftrightarrow> 0xdc00 \<le> unat l \<and> unat l \<le> 0xdfff"
  by (simp_all add: high_surrogate_def low_surrogate_def word_le_nat_alt)

lemma unat_join_surrogates:
  assumes "high_surrogate h" and "low_surrogate l"
  shows "unat (join_surrogates h l) = 0x10000 + (unat h - 0xd800) * 1024 + (unat l - 0xdc00)"
proof -
  have b: "0xd800 \<le> unat h" "unat h \<le> 0xdbff" "0xdc00 \<le> unat l" "unat l \<le> 0xdfff"
    using assms by (simp_all add: surrogate_bounds)
  have hi: "unat (ucast h - 0xd800 :: u32) = unat h - 0xd800"
    using b by (subst unat_sub) (simp_all add: word_le_nat_alt)
  have p: "unat (push_bit 10 (ucast h - 0xd800 :: u32)) = (unat h - 0xd800) * 1024"
    using unat_push_bit_10 [of "ucast h - 0xd800"] b hi by simp
  have s: "unat (0x10000 + push_bit 10 (ucast h - 0xd800) + ucast l :: u32) =
      0x10000 + (unat h - 0xd800) * 1024 + unat l"
    using b p by (simp add: unat_word_ariths)
  show ?thesis unfolding join_surrogates_def
    using b s by (subst unat_sub) (simp_all add: word_le_nat_alt)
qed

text \<open>A code point of \<open>code_units cp\<close> units was read from as many units.\<close>

lemma next_code_point_units:
  assumes "next_code_point c cs = Some (cp, rest)"
  shows "Suc (length cs) = code_units cp + length rest"
proof (cases "high_surrogate c")
  case True
  then obtain low where l: "cs = low # rest" "low_surrogate low" "cp = join_surrogates c low"
    using assms by (auto simp: next_code_point_def split: list.splits if_splits)
  then have "cp > 0xffff"
    using unat_join_surrogates [OF True l(2)] by (simp add: word_less_nat_alt)
  then show ?thesis using l by (simp add: code_units_def)
next
  case False
  then have "cp = ucast c" "rest = cs"
    using assms by (auto simp: next_code_point_def split: if_splits)
  moreover have "unat c \<le> 0xffff" using unsigned_less [where w = c and ?'a = nat] by simp
  ultimately show ?thesis by (simp add: code_units_def word_less_nat_alt)
qed

lemma name_scan_length: "name_scan units visible s \<Longrightarrow> s \<noteq> [] \<Longrightarrow> units + length s \<le> 64"
proof (induction units visible s rule: name_scan.induct)
  case (2 units visible c cs)
  then obtain cp rest where n: "next_code_point c cs = Some (cp, rest)"
    and u: "\<not> (units + code_units cp > 64 \<or> forbidden_code_point cp)"
    and r: "name_scan (units + code_units cp) (visible \<or> visible_code_point cp) rest"
    by (auto split: option.splits if_splits)
  have "rest \<noteq> [] \<Longrightarrow> units + code_units cp + length rest \<le> 64"
    using 2(1) [OF n refl u r] by simp
  then show ?case using next_code_point_units [OF n] u by (cases "rest = []") auto
qed simp

lemma valid_draft_lengths:
  "valid_draft ct d \<Longrightarrow> length (dr_name d) \<le> 64 \<and> length (dr_destination d) \<le> 128"
  using name_scan_length [of 0 False "dr_name d"]
  by (auto simp: valid_draft_def valid_name_def Let_def split: if_splits)

section \<open>The favourites interface\<close>

locale favorite_store =
  fixes lookup :: "'b \<Rightarrow> u64 \<Rightarrow> Contact option"
    and set_flag :: "'b \<Rightarrow> u64 \<Rightarrow> bool \<Rightarrow> ContactResult \<times> 'b"
  assumes set_missing: "lookup b i = None \<Longrightarrow> set_flag b i f = (ContactResult.NotFound, b)"
    and set_present: "lookup b i = Some c \<Longrightarrow> fst (set_flag b i f) = ContactResult.Ok"
    and lookup_set: "lookup b i = Some c \<Longrightarrow>
      lookup (snd (set_flag b i f)) j = (if j = i then Some (c\<lparr>co_favorite := f\<rparr>) else lookup b j)"
begin

definition toggle :: "'b \<Rightarrow> u64 \<Rightarrow> ContactResult \<times> 'b" where
  "toggle b i = (case lookup b i of
     None \<Rightarrow> (ContactResult.NotFound, b)
   | Some c \<Rightarrow> set_flag b i (\<not> co_favorite c))"

lemma toggle_effect:
  "lookup (snd (toggle b i)) j =
     (if j = i then map_option (\<lambda>c. c\<lparr>co_favorite := \<not> co_favorite c\<rparr>) (lookup b i) else lookup b j)"
  by (auto simp: toggle_def lookup_set split: option.split)

lemma toggle_twice: "lookup (snd (toggle (snd (toggle b i)) i)) j = lookup b j"
proof (cases "lookup b i")
  case (Some c)
  then show ?thesis by (auto simp: toggle_effect)
qed (auto simp: toggle_effect)

lemma toggle_result: "fst (toggle b i) = (if lookup b i = None then ContactResult.NotFound else ContactResult.Ok)"
  by (auto simp: toggle_def set_present split: option.split)

end

lemma find_change_contact:
  "(\<And>c. co_id (f c) = co_id c) \<Longrightarrow> find (\<lambda>c. co_id c = j) (change_contact i f cs) =
     (if j = i then map_option f (find (\<lambda>c. co_id c = i) cs) else find (\<lambda>c. co_id c = j) cs)"
  by (induction cs) auto

interpretation book: favorite_store book_find set_favorite
proof
  show "book_find b i = None \<Longrightarrow> set_favorite b i f = (ContactResult.NotFound, b)" for b i f
    by (simp add: set_favorite_def)
  show "book_find b i = Some c \<Longrightarrow> fst (set_favorite b i f) = ContactResult.Ok" for b i c f
    by (simp add: set_favorite_def)
  show "book_find b i = Some c \<Longrightarrow> book_find (snd (set_favorite b i f)) j =
      (if j = i then Some (c\<lparr>co_favorite := f\<rparr>) else book_find b j)" for b i c f j
    by (simp add: set_favorite_def book_find_def find_change_contact)
qed

lemma toggle_is_book_toggle: "toggle_contact_favorite b i = book.toggle b i"
  by (simp add: toggle_contact_favorite_def book.toggle_def)

section \<open>The invariant\<close>

definition book_inv :: "wctype \<Rightarrow> ContactBook \<Rightarrow> bool" where
  "book_inv ct b \<longleftrightarrow> length (cb_items b) \<le> book_capacity \<and>
     distinct (map co_id (cb_items b)) \<and> distinct (map co_destination (cb_items b)) \<and>
     (\<forall>c \<in> set (cb_items b). co_id c \<noteq> 0 \<and> (cb_next_id b \<noteq> 0 \<longrightarrow> co_id c < cb_next_id b) \<and>
        valid_draft ct (draft_of c))"

lemma change_contact_map:
  "distinct (map co_id cs) \<Longrightarrow> change_contact i f cs = map (\<lambda>c. if co_id c = i then f c else c) cs"
proof (induction cs)
  case (Cons c cs)
  then show ?case by (auto simp: image_iff intro!: map_idI [symmetric])
qed simp

lemma erase_contact_filter:
  "distinct (map co_id cs) \<Longrightarrow> erase_contact i cs = filter (\<lambda>c. co_id c \<noteq> i) cs"
proof (induction cs)
  case (Cons c cs)
  then show ?case by (auto simp: image_iff intro!: filter_True [symmetric])
qed simp

lemma find_by_contact_id:
  "distinct (map co_id cs) \<Longrightarrow> c \<in> set cs \<Longrightarrow> find (\<lambda>x. co_id x = co_id c) cs = Some c"
  by (induction cs) auto

lemma book_find_Some:
  "book_inv ct b \<Longrightarrow> book_find b i = Some c \<longleftrightarrow> c \<in> set (cb_items b) \<and> co_id c = i"
  using find_by_contact_id by (fastforce simp: book_find_def book_inv_def find_Some_iff)

lemma book_find_None: "book_find b i = None \<longleftrightarrow> i \<notin> co_id ` set (cb_items b)"
  by (auto simp: book_find_def find_None_iff)

lemma draft_of_contact_of [simp]: "draft_of (contact_of i d) = d" "co_id (contact_of i d) = i"
    "co_destination (contact_of i d) = dr_destination d"
  by (simp_all add: draft_of_def contact_of_def)

lemma valid_draft_favorite [simp]: "valid_draft ct (draft_of (c\<lparr>co_favorite := f\<rparr>)) = valid_draft ct (draft_of c)"
  by (simp add: valid_draft_def draft_of_def)

lemma distinct_change:
  assumes "distinct (map g cs)" and "distinct (map co_id cs)"
    and "\<And>c. c \<in> set cs \<Longrightarrow> co_id c \<noteq> i \<Longrightarrow> g c \<noteq> v"
  shows "distinct (map (\<lambda>c. if co_id c = i then v else g c) cs)"
  using assms
proof (induction cs)
  case (Cons c cs)
  then have IH: "distinct (map (\<lambda>c. if co_id c = i then v else g c) cs)" by auto
  have "(if co_id c = i then v else g c) \<notin> (\<lambda>c. if co_id c = i then v else g c) ` set cs"
    using Cons.prems by (auto simp: image_iff)
  with IH show ?case by simp
qed simp

lemma book_inv_empty: "book_inv ct empty_book"
  by (simp add: book_inv_def empty_book_def)

lemma book_add_inv:
  assumes "book_inv ct b" shows "book_inv ct (snd (book_add ct b d))"
proof (cases "fst (book_add ct b d) = ContactResult.Ok")
  case True
  then have ok: "valid_draft ct d" "\<forall>c \<in> set (cb_items b). co_destination c \<noteq> dr_destination d"
    "length (cb_items b) < book_capacity" "cb_next_id b \<noteq> 0"
    and e: "snd (book_add ct b d) = \<lparr>cb_items = cb_items b @ [contact_of (cb_next_id b) d],
      cb_next_id = cb_next_id b + 1\<rparr>"
    by (auto simp: book_add_def split: if_splits)
  have old: "\<forall>c \<in> set (cb_items b). co_id c \<noteq> 0 \<and> co_id c < cb_next_id b \<and> valid_draft ct (draft_of c)"
    using assms ok(4) by (auto simp: book_inv_def)
  have less: "cb_next_id b < cb_next_id b + 1" if "cb_next_id b + 1 \<noteq> 0"
    using that by (intro inc_gt) auto
  have "cb_next_id b \<notin> co_id ` set (cb_items b)" using old by (metis imageE less_irrefl)
  moreover have "dr_destination d \<notin> co_destination ` set (cb_items b)" using ok(2) by force
  ultimately show ?thesis
    using assms ok old less order_less_trans unfolding e by (auto simp: book_inv_def)
next
  case False
  then have "snd (book_add ct b d) = b" by (auto simp: book_add_def split: if_splits)
  then show ?thesis using assms by simp
qed

lemma book_update_inv:
  assumes "book_inv ct b" shows "book_inv ct (snd (book_update ct b i d))"
proof (cases "fst (book_update ct b i d) = ContactResult.Ok")
  case True
  let ?f = "\<lambda>c. if co_id c = i then contact_of (co_id c) d else c"
  have dist: "distinct (map co_id (cb_items b))" "distinct (map co_destination (cb_items b))"
    using assms by (auto simp: book_inv_def)
  have ok: "valid_draft ct d" "\<forall>c \<in> set (cb_items b). co_id c \<noteq> i \<longrightarrow> co_destination c \<noteq> dr_destination d"
    and e: "snd (book_update ct b i d) = b\<lparr>cb_items := map ?f (cb_items b)\<rparr>"
    using True change_contact_map [OF dist(1)] by (auto simp: book_update_def split: if_splits)
  have "map co_destination (map ?f cs) =
      map (\<lambda>c. if co_id c = i then dr_destination d else co_destination c) cs" for cs
    by (induction cs) auto
  then have "distinct (map co_destination (map ?f (cb_items b)))"
    using distinct_change [OF dist(2,1), of i "dr_destination d"] ok(2) by metis
  moreover have "map co_id (map ?f cs) = map co_id cs" for cs by (induction cs) auto
  then have "distinct (map co_id (map ?f (cb_items b)))" using dist(1) by (simp only:)
  ultimately show ?thesis
    using assms ok(1) unfolding e by (auto simp: book_inv_def)
next
  case False
  then have "snd (book_update ct b i d) = b" by (auto simp: book_update_def split: if_splits)
  then show ?thesis using assms by simp
qed

lemma book_remove_inv:
  assumes "book_inv ct b" shows "book_inv ct (snd (book_remove b i))"
proof -
  have "distinct (map co_id (cb_items b))" using assms by (simp add: book_inv_def)
  note erase_contact_filter [OF this]
  then show ?thesis using assms
    by (auto simp: book_remove_def book_inv_def distinct_map_filter intro: order_trans [OF length_filter_le])
qed

lemma set_favorite_inv:
  assumes "book_inv ct b" shows "book_inv ct (snd (set_favorite b i f))"
proof -
  let ?g = "\<lambda>c. if co_id c = i then c\<lparr>co_favorite := f\<rparr> else c"
  have d: "distinct (map co_id (cb_items b))" using assms by (simp add: book_inv_def)
  have "map co_id (map ?g cs) = map co_id cs" "map co_destination (map ?g cs) = map co_destination cs" for cs
    by (induction cs) auto
  then have "distinct (map co_id (map ?g (cb_items b)))" "distinct (map co_destination (map ?g (cb_items b)))"
    using assms unfolding book_inv_def by metis+
  then show ?thesis
    using assms change_contact_map [OF d] by (auto simp: set_favorite_def book_inv_def)
qed

section \<open>The book as a map\<close>

datatype BookOp =
    Add ContactDraft
  | Update u64 ContactDraft
  | Remove u64
  | SetFavorite u64 bool
  | ToggleFavorite u64

fun book_op :: "wctype \<Rightarrow> ContactBook \<Rightarrow> BookOp \<Rightarrow> ContactResult \<times> ContactBook" where
  "book_op ct b (Add d) = book_add ct b d"
| "book_op ct b (Update i d) = book_update ct b i d"
| "book_op ct b (Remove i) = book_remove b i"
| "book_op ct b (SetFavorite i f) = set_favorite b i f"
| "book_op ct b (ToggleFavorite i) = toggle_contact_favorite b i"

definition book_run :: "wctype \<Rightarrow> BookOp list \<Rightarrow> ContactBook" where
  "book_run ct ops = foldl (\<lambda>b op. snd (book_op ct b op)) empty_book ops"

lemma book_op_inv: "book_inv ct b \<Longrightarrow> book_inv ct (snd (book_op ct b op))"
  by (cases op) (auto simp: book_add_inv book_update_inv book_remove_inv set_favorite_inv
      toggle_contact_favorite_def split: option.split)

lemma book_run_inv: "book_inv ct (book_run ct ops)"
  unfolding book_run_def
  by (induction ops rule: rev_induct) (simp_all add: book_inv_empty book_op_inv)

definition book_map :: "ContactBook \<Rightarrow> u64 \<rightharpoonup> ContactDraft" where
  "book_map b i = map_option draft_of (book_find b i)"

text \<open>What the operations do to the map, when they report success.\<close>

fun map_op :: "u64 \<Rightarrow> BookOp \<Rightarrow> (u64 \<rightharpoonup> ContactDraft) \<Rightarrow> u64 \<rightharpoonup> ContactDraft" where
  "map_op n (Add d) m = m(n \<mapsto> d)"
| "map_op n (Update i d) m = m(i \<mapsto> d)"
| "map_op n (Remove i) m = m(i := None)"
| "map_op n (SetFavorite i f) m = m(i := map_option (\<lambda>d. d\<lparr>dr_favorite := f\<rparr>) (m i))"
| "map_op n (ToggleFavorite i) m =
     m(i := map_option (\<lambda>d. d\<lparr>dr_favorite := \<not> dr_favorite d\<rparr>) (m i))"

lemma draft_of_favorite: "draft_of (c\<lparr>co_favorite := f\<rparr>) = (draft_of c)\<lparr>dr_favorite := f\<rparr>"
  by (simp add: draft_of_def)

lemma find_append_new:
  "find P (xs @ [x]) = (case find P xs of None \<Rightarrow> if P x then Some x else None | Some y \<Rightarrow> Some y)"
  by (induction xs) auto

lemma book_map_set_favorite:
  "book_find b i = Some c \<Longrightarrow> book_map (snd (set_favorite b i f)) =
     (book_map b)(i := map_option (\<lambda>d. d\<lparr>dr_favorite := f\<rparr>) (book_map b i))"
  by (rule ext) (simp add: book_map_def book.lookup_set draft_of_favorite)

lemma book_map_op:
  assumes "book_inv ct b" and "book_op ct b op = (ContactResult.Ok, b')"
  shows "book_map b' = map_op (cb_next_id b) op (book_map b)"
proof (cases op)
  case (Add d)
  then have e: "b' = \<lparr>cb_items = cb_items b @ [contact_of (cb_next_id b) d], cb_next_id = cb_next_id b + 1\<rparr>"
    "cb_next_id b \<noteq> 0"
    using assms(2) by (auto simp: book_add_def split: if_splits)
  have "book_find b (cb_next_id b) = None"
    using assms(1) e(2) by (auto simp: book_find_None book_inv_def)
  then show ?thesis
    unfolding Add map_op.simps
    by (intro ext) (simp add: e(1) book_map_def book_find_def find_append_new split: option.split)
next
  case (Update i d)
  then have e: "b' = b\<lparr>cb_items := change_contact i (\<lambda>c. contact_of (co_id c) d) (cb_items b)\<rparr>"
    "book_find b i \<noteq> None"
    using assms(2) by (auto simp: book_update_def split: if_splits)
  then show ?thesis
    unfolding Update map_op.simps
    by (intro ext) (auto simp: book_map_def book_find_def find_change_contact)
next
  case (Remove i)
  have d: "distinct (map co_id (cb_items b))" using assms(1) by (simp add: book_inv_def)
  have e: "b' = b\<lparr>cb_items := filter (\<lambda>c. co_id c \<noteq> i) (cb_items b)\<rparr>"
    using assms(2) Remove erase_contact_filter [OF d] by (auto simp: book_remove_def split: if_splits)
  have *: "find (\<lambda>c. co_id c = j) (filter (\<lambda>c. co_id c \<noteq> i) cs) =
      (if j = i then None else find (\<lambda>c. co_id c = j) cs)" for j and cs :: "Contact list"
    by (induction cs) auto
  have "book_find b' j = (if j = i then None else book_find b j)" for j
    unfolding e book_find_def using * by simp
  then show ?thesis unfolding Remove map_op.simps by (intro ext) (simp add: book_map_def)
next
  case (SetFavorite i f)
  then show ?thesis
    using assms(2) book_map_set_favorite by (auto simp: set_favorite_def split: if_splits)
next
  case (ToggleFavorite i)
  then obtain c where c: "book_find b i = Some c" "b' = snd (set_favorite b i (\<not> co_favorite c))"
    using assms(2) by (auto simp: toggle_contact_favorite_def split: option.splits)
  have "map_option (\<lambda>d. d\<lparr>dr_favorite := \<not> dr_favorite d\<rparr>) (book_map b i) =
      map_option (\<lambda>d. d\<lparr>dr_favorite := \<not> co_favorite c\<rparr>) (book_map b i)"
    using c(1) by (simp add: book_map_def draft_of_def)
  then show ?thesis unfolding ToggleFavorite map_op.simps c(2) book_map_set_favorite [OF c(1)] by simp
qed

lemma book_op_failed: "book_op ct b op = (r, b') \<Longrightarrow> r \<noteq> ContactResult.Ok \<Longrightarrow> b' = b"
  by (cases op) (auto simp: book_add_def book_update_def book_remove_def set_favorite_def
      toggle_contact_favorite_def split: if_splits option.splits)

section \<open>Properties\<close>

text \<open>
  C23. The book is a map from identifiers to valid contacts. In every state a book can reach it
  holds at most 500 contacts, identifiers and destinations are each unique, every contact has a
  valid name and a callable destination, and the next identifier was never used. An operation that reports
  \<open>Ok\<close> has exactly the effect of its map update, and one that reports anything else changes
  nothing.
\<close>

theorem contact_book_is_a_map:
  assumes "b = book_run ct ops" and "book_op ct b op = (r, b')"
  shows "length (cb_items b) \<le> 500 \<and> distinct (map co_id (cb_items b)) \<and>
    distinct (map co_destination (cb_items b)) \<and>
    (\<forall>i d. book_map b i = Some d \<longrightarrow> valid_contact_draft ct d \<and> i \<noteq> 0 \<and> i \<noteq> cb_next_id b) \<and>
    (if r = ContactResult.Ok then book_map b' = map_op (cb_next_id b) op (book_map b) else b' = b)"
proof -
  have inv: "book_inv ct b" using book_run_inv assms(1) by simp
  have "valid_contact_draft ct d \<and> i \<noteq> 0 \<and> i \<noteq> cb_next_id b" if some: "book_map b i = Some d" for i d
  proof -
    obtain c where "book_find b i = Some c" "d = draft_of c" using some by (auto simp: book_map_def)
    then have "c \<in> set (cb_items b)" "co_id c = i" "d = draft_of c"
      using book_find_Some [OF inv] by auto
    then show ?thesis using inv by (auto simp: book_inv_def valid_contact_draft_def)
  qed
  moreover have "if r = ContactResult.Ok then book_map b' = map_op (cb_next_id b) op (book_map b) else b' = b"
    using book_map_op [OF inv] book_op_failed [OF assms(2)] assms(2) by simp
  moreover have "length (cb_items b) \<le> 500" "distinct (map co_id (cb_items b))"
    "distinct (map co_destination (cb_items b))"
    using inv by (simp_all add: book_inv_def book_capacity_def)
  ultimately show ?thesis by blast
qed

definition sample_draft :: ContactDraft where
  "sample_draft = \<lparr>dr_name = W ''Ana'', dr_destination = W ''1001'', dr_favorite = False\<rparr>"

theorem contact_book_is_a_map_witness:
  "fst (book_op c_locale (book_run c_locale [Add sample_draft]) (ToggleFavorite 1)) = ContactResult.Ok \<and>
   book_map (snd (book_op c_locale (book_run c_locale [Add sample_draft]) (ToggleFavorite 1))) =
     map_op 2 (ToggleFavorite 1) (book_map (book_run c_locale [Add sample_draft]))"
proof -
  let ?b = "book_run c_locale [Add sample_draft]"
  have r: "fst (book_op c_locale ?b (ToggleFavorite 1)) = ContactResult.Ok" by code_simp
  moreover have "cb_next_id ?b = 2" by code_simp
  ultimately show ?thesis
    using contact_book_is_a_map [OF refl prod.collapse [symmetric], of c_locale "[Add sample_draft]" "ToggleFavorite 1"]
    by simp
qed

end
