(* ===== verification/Contact_Query.thy ===== *)
theory Contact_Query
  imports Contact_Book "HOL-Library.List_Lexorder" "HOL-Library.Product_Lexorder" "HOL-Library.Sublist"
begin

text \<open>
  Searching the contact book: \<open>contact_query.cpp\<close>. \<open>std::sort\<close> is an insertion sort by the
  comparator the code passes; the comparator is total on the contacts of a book, so that the
  sorted result does not depend on the algorithm.
\<close>

section \<open>Definitions\<close>

definition fold_char :: "wchar \<Rightarrow> wchar" where
  "fold_char c = (if (wc CHR ''A'' \<le> c \<and> c \<le> wc CHR ''Z'') \<or> (0xc0 \<le> c \<and> c \<le> 0xd6) \<or> (0xd8 \<le> c \<and> c \<le> 0xde)
     then c + 0x20 else c)"

text \<open>The inner loop of \<open>contains\<close>: the query at the start of a text.\<close>

fun match_here :: "wstr \<Rightarrow> wstr \<Rightarrow> bool" where
  "match_here s [] = True"
| "match_here [] (q # query) = False"
| "match_here (c # s) (q # query) = (fold_char c = fold_char q \<and> match_here s query)"

definition contains_text :: "wstr \<Rightarrow> wstr \<Rightarrow> bool" where
  "contains_text s query =
     (if length query > length s then False
      else list_ex (\<lambda>start. match_here (drop start s) query) [0..<Suc (length s - length query)])"

fun compare_text :: "wstr \<Rightarrow> wstr \<Rightarrow> int" where
  "compare_text (a # as) (b # bs) =
     (let left = fold_char a; right = fold_char b in
      if left < right then -1 else if left > right then 1 else compare_text as bs)"
| "compare_text [] (b # bs) = -1"
| "compare_text (a # as) [] = 1"
| "compare_text [] [] = 0"

definition contact_less :: "Contact \<Rightarrow> Contact \<Rightarrow> bool" where
  "contact_less a b =
     (if co_favorite a \<noteq> co_favorite b then co_favorite a
      else let name_order = compare_text (co_name a) (co_name b) in
      if name_order \<noteq> 0 then name_order < 0
      else let destination_order = compare_text (co_destination a) (co_destination b) in
      if destination_order \<noteq> 0 then destination_order < 0
      else co_id a < co_id b)"

fun insert_by :: "('a \<Rightarrow> 'a \<Rightarrow> bool) \<Rightarrow> 'a \<Rightarrow> 'a list \<Rightarrow> 'a list" where
  "insert_by lt x [] = [x]"
| "insert_by lt x (y # ys) = (if lt y x then y # insert_by lt x ys else x # y # ys)"

definition sort_by :: "('a \<Rightarrow> 'a \<Rightarrow> bool) \<Rightarrow> 'a list \<Rightarrow> 'a list" where
  "sort_by lt xs = foldr (insert_by lt) xs []"

definition contact_matches :: "wstr \<Rightarrow> bool \<Rightarrow> Contact \<Rightarrow> bool" where
  "contact_matches query favorites_only contact =
     (if favorites_only \<and> \<not> co_favorite contact then False
      else contains_text (co_name contact) query \<or> contains_text (co_destination contact) query)"

definition find_contacts :: "ContactBook \<Rightarrow> wstr \<Rightarrow> bool \<Rightarrow> u64 list" where
  "find_contacts book query favorites_only =
     (if length query > 128 then []
      else let contacts = cb_items book;
               matches = filter (\<lambda>i. contact_matches query favorites_only (contacts ! i)) [0..<length contacts]
           in map (\<lambda>i. co_id (contacts ! i)) (sort_by (\<lambda>l r. contact_less (contacts ! l) (contacts ! r)) matches))"

section \<open>Matching\<close>

lemma match_here_prefix: "match_here s query \<longleftrightarrow> prefix (map fold_char query) (map fold_char s)"
  by (induction s query rule: match_here.induct) auto

lemma contains_text_sublist:
  "contains_text s query \<longleftrightarrow> sublist (map fold_char query) (map fold_char s)"
proof
  assume "contains_text s query"
  then obtain start where "prefix (map fold_char query) (map fold_char (drop start s))"
    by (auto simp: contains_text_def match_here_prefix list_ex_iff simp del: upt_Suc split: if_splits)
  then show "sublist (map fold_char query) (map fold_char s)"
    by (metis append_take_drop_id drop_map prefix_def sublist_appendI)
next
  assume "sublist (map fold_char query) (map fold_char s)"
  then obtain u v where e: "map fold_char s = u @ map fold_char query @ v"
    by (auto simp: sublist_def)
  then have len: "length s = length u + length query + length v"
    by (metis (no_types) add.assoc length_append length_map)
  have "map fold_char (drop (length u) s) = map fold_char query @ v"
    using e by (simp add: drop_map [symmetric])
  then have "match_here (drop (length u) s) query" by (simp add: match_here_prefix)
  then show "contains_text s query"
    using len by (auto simp: contains_text_def list_ex_iff simp del: upt_Suc intro!: bexI [of _ "length u"])
qed

section \<open>Sorting\<close>

lemma map_insert_by:
  "map f (insert_by (\<lambda>l r. lt (f l) (f r)) x xs) = insert_by lt (f x) (map f xs)"
  by (induction xs) auto

lemma map_sort_by: "map f (sort_by (\<lambda>l r. lt (f l) (f r)) xs) = sort_by lt (map f xs)"
  unfolding sort_by_def by (induction xs) (simp_all add: map_insert_by)

lemma insert_by_key:
  fixes key :: "'a \<Rightarrow> 'k :: linorder"
  shows "insert_by (\<lambda>a b. key a < key b) = insort_key key"
proof (intro ext)
  show "insert_by (\<lambda>a b. key a < key b) x xs = insort_key key x xs" for x xs
    by (induction xs) (auto simp: not_less)
qed

lemma sort_by_key:
  fixes key :: "'a \<Rightarrow> 'k :: linorder"
  shows "sort_by (\<lambda>a b. key a < key b) xs = sort_key key xs"
  by (simp add: sort_by_def insert_by_key sort_key_def)

text \<open>The order of the comparator as a key.\<close>

definition contact_key :: "Contact \<Rightarrow> bool \<times> wstr \<times> wstr \<times> u64" where
  "contact_key c = (\<not> co_favorite c, map fold_char (co_name c), map fold_char (co_destination c), co_id c)"

lemma compare_text_order:
  "compare_text a b < 0 \<longleftrightarrow> map fold_char a < map fold_char b"
  "compare_text a b = 0 \<longleftrightarrow> map fold_char a = map fold_char b"
proof (induction a b rule: compare_text.induct)
  case (1 a as b bs)
  note IH = this
  case 1
  show ?case
    by (cases "fold_char a" "fold_char b" rule: linorder_cases) (auto simp: IH Let_def)
  case 2
  show ?case
    by (cases "fold_char a" "fold_char b" rule: linorder_cases) (auto simp: IH Let_def)
qed simp_all

lemma contact_less_key: "contact_less a b \<longleftrightarrow> contact_key a < contact_key b"
  by (auto simp: contact_less_def contact_key_def Let_def compare_text_order)

lemma find_contacts_sorted:
  "length query \<le> 128 \<Longrightarrow> find_contacts book query fav =
     map co_id (sort_key contact_key (filter (contact_matches query fav) (cb_items book)))"
proof -
  assume "length query \<le> 128"
  let ?cs = "cb_items book"
  let ?m = "filter (\<lambda>i. contact_matches query fav (?cs ! i)) [0..<length ?cs]"
  have "map ((!) ?cs) ?m = filter (contact_matches query fav) ?cs"
    by (simp add: filter_map [of _ "(!) ?cs", symmetric, unfolded comp_def] map_nth)
  then have "map ((!) ?cs) (sort_by (\<lambda>l r. contact_less (?cs ! l) (?cs ! r)) ?m) =
      sort_by contact_less (filter (contact_matches query fav) ?cs)"
    by (simp add: map_sort_by)
  also have "\<dots> = sort_key contact_key (filter (contact_matches query fav) ?cs)"
    unfolding sort_by_key [symmetric] contact_less_key ..
  finally have "map co_id (map ((!) ?cs) (sort_by (\<lambda>l r. contact_less (?cs ! l) (?cs ! r)) ?m)) =
      map co_id (sort_key contact_key (filter (contact_matches query fav) ?cs))" by simp
  then show ?thesis
    using \<open>length query \<le> 128\<close> by (simp add: find_contacts_def Let_def comp_def)
qed

text \<open>Queries beyond 128 characters match nothing in a valid book.\<close>

lemma long_query_matches_nothing:
  assumes "book_inv ct b" and "length query > 128" and "c \<in> set (cb_items b)"
  shows "\<not> contact_matches query fav c"
proof -
  have "valid_draft ct (draft_of c)" using assms(1,3) by (simp add: book_inv_def)
  then have "length (co_name c) \<le> 64" "length (co_destination c) \<le> 128"
    using valid_draft_lengths by (fastforce simp: draft_of_def)+
  then show ?thesis using assms(2) by (simp add: contact_matches_def contains_text_def)
qed

lemma find_contacts_reference:
  assumes "book_inv ct b"
  shows "find_contacts b query fav =
    map co_id (sort_key contact_key (filter (contact_matches query fav) (cb_items b)))"
proof (cases "length query \<le> 128")
  case False
  then have "filter (contact_matches query fav) (cb_items b) = []"
    using long_query_matches_nothing [OF assms] by (simp add: filter_empty_conv)
  then show ?thesis using False by (simp add: find_contacts_def)
qed (rule find_contacts_sorted)

section \<open>Properties\<close>

text \<open>
  Searching is exact. In every state of a book, \<open>find_contacts\<close> returns the identifiers of
  precisely those contacts whose name or destination contains the query up to letter case (and
  that are favourites, if only those are asked for), each once, favourites first, then by folded
  name, folded destination and identifier. The early exit for queries longer than 128 characters loses
  nothing.
\<close>

theorem find_contacts_exact:
  assumes "b = book_run ct ops" and "ids = find_contacts b query favorites_only"
  shows "set ids = {co_id c | c. c \<in> set (cb_items b) \<and> (favorites_only \<longrightarrow> co_favorite c) \<and>
      (sublist (map fold_char query) (map fold_char (co_name c)) \<or>
       sublist (map fold_char query) (map fold_char (co_destination c)))} \<and>
    distinct ids \<and> sorted (map (\<lambda>i. contact_key (the (book_find b i))) ids)"
proof -
  have inv: "book_inv ct b" using book_run_inv assms(1) by simp
  let ?s = "sort_key contact_key (filter (contact_matches query favorites_only) (cb_items b))"
  have ids: "ids = map co_id ?s" using find_contacts_reference [OF inv] assms(2) by simp
  have "book_find b (co_id c) = Some c" if "c \<in> set (cb_items b)" for c
    using that book_find_Some [OF inv] by simp
  then have "map (\<lambda>i. contact_key (the (book_find b i))) ids = map contact_key ?s"
    by (simp add: ids)
  then have "sorted (map (\<lambda>i. contact_key (the (book_find b i))) ids)" by simp
  moreover have "distinct ids"
    using inv by (simp add: ids distinct_map book_inv_def inj_on_def)
  moreover have "set ids = {co_id c | c. c \<in> set (cb_items b) \<and> (favorites_only \<longrightarrow> co_favorite c) \<and>
      (sublist (map fold_char query) (map fold_char (co_name c)) \<or>
       sublist (map fold_char query) (map fold_char (co_destination c)))}"
    by (auto simp: ids contact_matches_def contains_text_sublist)
  ultimately show ?thesis by blast
qed

theorem find_contacts_exact_witness:
  "find_contacts (book_run c_locale [Add sample_draft, ToggleFavorite 1]) (W ''aNA'') True = [1] \<and>
   distinct (find_contacts (book_run c_locale [Add sample_draft, ToggleFavorite 1]) (W ''aNA'') True)"
proof
  show "find_contacts (book_run c_locale [Add sample_draft, ToggleFavorite 1]) (W ''aNA'') True = [1]"
    by code_simp
qed (use find_contacts_exact [OF refl refl, of c_locale "[Add sample_draft, ToggleFavorite 1]"] in blast)

end
