(* ===== verification/Contact_Backup.thy ===== *)
theory Contact_Backup
  imports Contact_Book
begin

text \<open>
  The contact backup format: \<open>contact_backup.cpp\<close>. \<open>utf8\<close>, \<open>quoted\<close> and the \<open>Parser\<close> work on
  code points as 32-bit words with the bit operations of the source. The parser's position is the
  list of bytes that are left; a method that fails makes the whole parse fail, so that it returns
  \<open>None\<close>, except \<open>take\<close> and \<open>literal\<close>, which say whether they matched and keep the skipped spaces
  skipped. The recursions of the four loops of the parser end because each round takes a byte.
\<close>

unbundle bit_operations_syntax

section \<open>Encoding\<close>

definition to_byte :: "u32 \<Rightarrow> char" where
  "to_byte w = char_of (unat w)"

definition utf8 :: "u32 \<Rightarrow> string" where
  "utf8 cp =
     (if cp < 0x80 then [to_byte cp]
      else if cp < 0x800
      then [to_byte (0xc0 OR drop_bit 6 cp), to_byte (0x80 OR (cp AND 63))]
      else if cp < 0x10000
      then [to_byte (0xe0 OR drop_bit 12 cp), to_byte (0x80 OR (drop_bit 6 cp AND 63)),
            to_byte (0x80 OR (cp AND 63))]
      else [to_byte (0xf0 OR drop_bit 18 cp), to_byte (0x80 OR (drop_bit 12 cp AND 63)),
            to_byte (0x80 OR (drop_bit 6 cp AND 63)), to_byte (0x80 OR (cp AND 63))])"

text \<open>The unchecked pairing of \<open>quoted\<close>; the character after the last one of a string is zero.\<close>

definition paired :: "wchar \<Rightarrow> wstr \<Rightarrow> u32 \<times> wstr" where
  "paired c cs =
     (if high_surrogate c
      then (case cs of [] \<Rightarrow> (join_surrogates c 0, []) | low # rest \<Rightarrow> (join_surrogates c low, rest))
      else (ucast c, cs))"

lemma paired_shorter: "(cp, rest) = paired c cs \<Longrightarrow> length rest < Suc (length cs)"
  by (auto simp: paired_def split: list.splits if_splits)

function quoted_chars :: "wstr \<Rightarrow> string" where
  "quoted_chars [] = []"
| "quoted_chars (c # cs) =
     (let (cp, rest) = paired c cs in
      (if cp = 0x22 \<or> cp = 0x5c then [CHR 0x5C] else []) @ utf8 cp @ quoted_chars rest)"
  by pat_completeness auto
termination
  by (relation "measure length") (auto dest: paired_shorter)

definition quoted :: "wstr \<Rightarrow> string" where
  "quoted v = [CHR 0x22] @ quoted_chars v @ [CHR 0x22]"

definition contact_backup_limit :: nat where
  "contact_backup_limit = 512 * 1024"

definition contact_entry :: "Contact \<Rightarrow> string" where
  "contact_entry contact =
     ''{\"name\":'' @ quoted (co_name contact) @ '',\"destination\":'' @ quoted (co_destination contact) @
     (if co_favorite contact then '',\"favorite\":true}'' else '',\"favorite\":false}'')"

fun encode_entries :: "wctype \<Rightarrow> bool \<Rightarrow> string \<Rightarrow> Contact list \<Rightarrow> string option" where
  "encode_entries ct first out [] = Some out"
| "encode_entries ct first out (contact # contacts) =
     (if \<not> valid_contact_draft ct (draft_of contact) then None
      else let out' = out @ (if first then [] else '','') @ contact_entry contact in
      if length out' > contact_backup_limit then None
      else encode_entries ct False out' contacts)"

definition encode_contact_backup :: "wctype \<Rightarrow> ContactBook \<Rightarrow> string option" where
  "encode_contact_backup ct book =
     (if length (cb_items book) > book_capacity then None
      else case encode_entries ct True ''{\"version\":1,\"contacts\":['' (cb_items book) of
          None \<Rightarrow> None
        | Some out \<Rightarrow> if length (out @ '']}'') > contact_backup_limit then None else Some (out @ '']}''))"

section \<open>The parser\<close>

definition parser_space :: "char \<Rightarrow> bool" where
  "parser_space c \<longleftrightarrow> c = CHR '' '' \<or> c = CHR 0x0D \<or> c = CHR 0x0A \<or> c = CHR 0x09"

definition skip_space :: "string \<Rightarrow> string" where
  "skip_space s = dropWhile parser_space s"

definition take_char :: "char \<Rightarrow> string \<Rightarrow> bool \<times> string" where
  "take_char c s =
     (case skip_space s of
        [] \<Rightarrow> (False, [])
      | d # ds \<Rightarrow> if d \<noteq> c then (False, d # ds) else (True, ds))"

definition take_literal :: "string \<Rightarrow> string \<Rightarrow> bool \<times> string" where
  "take_literal l s =
     (let s' = skip_space s in
      if take (length l) s' \<noteq> l then (False, s') else (True, drop (length l) s'))"

definition hex_value :: "char \<Rightarrow> u32" where
  "hex_value ch =
     (let c = (of_char ch :: u32) in
      if of_char CHR ''0'' \<le> c \<and> c \<le> of_char CHR ''9'' then c - of_char CHR ''0''
      else if of_char CHR ''a'' \<le> c \<and> c \<le> of_char CHR ''f'' then c - of_char CHR ''a'' + 10
      else if of_char CHR ''A'' \<le> c \<and> c \<le> of_char CHR ''F'' then c - of_char CHR ''A'' + 10
      else 16)"

fun hex_loop :: "nat \<Rightarrow> u32 \<Rightarrow> string \<Rightarrow> (u32 \<times> string) option" where
  "hex_loop 0 cp s = Some (cp, s)"
| "hex_loop (Suc n) cp [] = None"
| "hex_loop (Suc n) cp (c # s) =
     (if hex_value c = 16 then None else hex_loop n (push_bit 4 cp OR hex_value c) s)"

definition hex :: "string \<Rightarrow> (u32 \<times> string) option" where
  "hex s = hex_loop 4 0 s"

fun continuation :: "nat \<Rightarrow> u32 \<Rightarrow> string \<Rightarrow> (u32 \<times> string) option" where
  "continuation 0 cp s = Some (cp, s)"
| "continuation (Suc n) cp [] = None"
| "continuation (Suc n) cp (c # s) =
     (if (of_char c :: u32) AND 0xc0 \<noteq> 0x80 then None
      else continuation n (push_bit 6 cp OR (of_char c AND 63)) s)"

definition code_point_from :: "nat \<Rightarrow> u32 \<Rightarrow> u32 \<Rightarrow> string \<Rightarrow> (u32 \<times> string) option" where
  "code_point_from count cp minimum s =
     (case continuation count cp s of
        None \<Rightarrow> None
      | Some (cp, s) \<Rightarrow>
          if cp \<ge> minimum \<and> cp \<le> 0x10ffff \<and> \<not> (0xd800 \<le> cp \<and> cp \<le> 0xdfff) then Some (cp, s) else None)"

definition codepoint :: "string \<Rightarrow> (u32 \<times> string) option" where
  "codepoint s =
     (case s of
        [] \<Rightarrow> None
      | c # s \<Rightarrow>
          let first = (of_char c :: u32) in
          if first < 0x80 then Some (first, s)
          else if 0xc2 \<le> first \<and> first \<le> 0xdf then code_point_from 1 (first AND 31) 0x80 s
          else if 0xe0 \<le> first \<and> first \<le> 0xef then code_point_from 2 (first AND 15) 0x800 s
          else if 0xf0 \<le> first \<and> first \<le> 0xf4 then code_point_from 3 (first AND 7) 0x10000 s
          else None)"

definition join_units :: "u32 \<Rightarrow> u32 \<Rightarrow> u32" where
  "join_units cp low = 0x10000 + push_bit 10 (cp - 0xd800) + low - 0xdc00"

definition escaped_unicode :: "string \<Rightarrow> (u32 \<times> string) option" where
  "escaped_unicode s =
     (case hex s of
        None \<Rightarrow> None
      | Some (cp, s) \<Rightarrow>
          if 0xd800 \<le> cp \<and> cp \<le> 0xdbff
          then (if take 2 s \<noteq> [CHR 0x5C, CHR ''u''] then None
                else case hex (drop 2 s) of
                    None \<Rightarrow> None
                  | Some (low, s) \<Rightarrow>
                      if low < 0xdc00 \<or> low > 0xdfff then None else Some (join_units cp low, s))
          else if 0xdc00 \<le> cp \<and> cp \<le> 0xdfff then None
          else Some (cp, s))"

definition escaped :: "string \<Rightarrow> (u32 \<times> string) option" where
  "escaped s =
     (case s of
        [] \<Rightarrow> None
      | escape # s \<Rightarrow>
          if escape = CHR 0x22 \<or> escape = CHR 0x5C \<or> escape = CHR ''/'' then Some (of_char escape, s)
          else if escape = CHR ''u'' then escaped_unicode s
          else None)"

text \<open>One round of the loop of \<open>string\<close> that is not at the closing quote.\<close>

definition string_char :: "char \<Rightarrow> string \<Rightarrow> (u32 \<times> string) option" where
  "string_char c s = (if c = CHR 0x5C then escaped s else codepoint (c # s))"

definition refused_cp :: "bool \<Rightarrow> u32 \<Rightarrow> bool" where
  "refused_cp ascii cp \<longleftrightarrow> cp < 0x20 \<or> (0x7f \<le> cp \<and> cp \<le> 0x9f) \<or> (ascii \<and> cp \<ge> 0x7f)"

definition split_units :: "u32 \<Rightarrow> wstr" where
  "split_units cp =
     (if cp > 0xffff
      then [ucast (0xd800 + drop_bit 10 (cp - 0x10000)), ucast (0xdc00 + ((cp - 0x10000) AND 1023))]
      else [ucast cp])"

text \<open>Everything that succeeds leaves no more bytes than it got.\<close>

lemma continuation_shorter: "continuation n cp s = Some (cp', r) \<Longrightarrow> length r \<le> length s"
  by (induction n cp s rule: continuation.induct) (auto split: if_splits)

lemma hex_loop_shorter: "hex_loop n cp s = Some (cp', r) \<Longrightarrow> length r \<le> length s"
  by (induction n cp s rule: hex_loop.induct) (auto split: if_splits)

lemma codepoint_shorter: "codepoint (c # s) = Some (cp, r) \<Longrightarrow> length r \<le> length s"
  by (auto simp: codepoint_def code_point_from_def Let_def dest: continuation_shorter
      split: if_splits option.splits)

lemma escaped_unicode_shorter: "escaped_unicode s = Some (cp, r) \<Longrightarrow> length r \<le> length s"
  by (auto simp: escaped_unicode_def hex_def dest!: hex_loop_shorter split: if_splits option.splits)

lemma string_char_shorter: "string_char c s = Some (cp, r) \<Longrightarrow> length r \<le> length s"
  by (auto simp: string_char_def escaped_def dest: codepoint_shorter escaped_unicode_shorter
      split: if_splits list.splits)

text \<open>The loop of \<open>string\<close>.\<close>

function string_loop ::
    "nat \<Rightarrow> bool \<Rightarrow> nat \<Rightarrow> wstr \<Rightarrow> string \<Rightarrow> (wstr \<times> string) option" where
  "string_loop limit ascii units out [] = None"
| "string_loop limit ascii units out (c # s) =
     (if c = CHR 0x22 then Some (out, s)
      else case string_char c s of
          None \<Rightarrow> None
        | Some (cp, rest) \<Rightarrow>
            if refused_cp ascii cp then None
            else if units + code_units cp > limit then None
            else string_loop limit ascii (units + code_units cp) (out @ split_units cp) rest)"
  by pat_completeness auto
termination
  by (relation "measure (\<lambda>(limit, ascii, units, out, s). length s)")
    (auto dest: string_char_shorter simp: le_imp_less_Suc)

definition read_string :: "wstr \<Rightarrow> nat \<Rightarrow> bool \<Rightarrow> string \<Rightarrow> (wstr \<times> string) option" where
  "read_string out limit ascii s =
     (case take_char (CHR 0x22) s of
        (False, s) \<Rightarrow> None
      | (True, s) \<Rightarrow> string_loop limit ascii 0 out s)"

definition field_bit :: "wstr \<Rightarrow> u32" where
  "field_bit key = (if key = W ''name'' then 1 else if key = W ''destination'' then 2
     else if key = W ''favorite'' then 4 else 0)"

text \<open>One field of a contact after its key.\<close>

definition field_value :: "u32 \<Rightarrow> ContactDraft \<Rightarrow> string \<Rightarrow> (ContactDraft \<times> string) option" where
  "field_value flag draft s =
     (if flag = 1
      then map_option (\<lambda>(v, s). (draft\<lparr>dr_name := v\<rparr>, s)) (read_string (dr_name draft) 64 False s)
      else if flag = 2
      then map_option (\<lambda>(v, s). (draft\<lparr>dr_destination := v\<rparr>, s)) (read_string (dr_destination draft) 128 True s)
      else case take_literal ''true'' s of
          (True, s) \<Rightarrow> Some (draft\<lparr>dr_favorite := True\<rparr>, s)
        | (False, s) \<Rightarrow> (case take_literal ''false'' s of
              (True, s) \<Rightarrow> Some (draft\<lparr>dr_favorite := False\<rparr>, s)
            | (False, s) \<Rightarrow> None))"

definition read_key :: "nat \<Rightarrow> string \<Rightarrow> (wstr \<times> string) option" where
  "read_key limit s =
     (case read_string [] limit True s of
        None \<Rightarrow> None
      | Some (key, s) \<Rightarrow> (case take_char (CHR '':'') s of (False, s) \<Rightarrow> None | (True, s) \<Rightarrow> Some (key, s)))"

definition read_field :: "u32 \<Rightarrow> ContactDraft \<Rightarrow> string \<Rightarrow> (u32 \<times> ContactDraft \<times> string) option" where
  "read_field seen draft s =
     (case read_key 11 s of
        None \<Rightarrow> None
      | Some (key, s) \<Rightarrow>
          if field_bit key = 0 \<or> seen AND field_bit key \<noteq> 0 then None
          else map_option (Pair (seen OR field_bit key)) (field_value (field_bit key) draft s))"

lemma skip_space_shorter: "length (skip_space s) \<le> length s"
  by (simp add: skip_space_def length_dropWhile_le)

lemma take_char_shorter:
  "take_char c s = (ok, r) \<Longrightarrow> length r \<le> length s" "take_char c s = (True, r) \<Longrightarrow> length r < length s"
  using skip_space_shorter [of s] by (cases "skip_space s"; auto simp: take_char_def split: if_splits)+

lemma take_literal_shorter: "take_literal l s = (ok, r) \<Longrightarrow> length r \<le> length s"
  using length_dropWhile_le [of parser_space s]
  by (auto simp: take_literal_def skip_space_def Let_def split: if_splits)

lemma string_loop_shorter: "string_loop limit ascii units out s = Some (v, r) \<Longrightarrow> length r \<le> length s"
proof (induction limit ascii units out s rule: string_loop.induct)
  case (2 limit ascii units out c s)
  then show ?case
    by (auto dest!: string_char_shorter split: if_splits option.splits) fastforce
qed simp

lemma read_string_shorter: "read_string out limit ascii s = Some (v, r) \<Longrightarrow> length r < length s"
  by (auto simp: read_string_def dest!: string_loop_shorter take_char_shorter(2)
      split: prod.splits bool.splits)

lemma field_value_shorter: "field_value flag draft s = Some (d, r) \<Longrightarrow> length r \<le> length s"
  by (auto simp: field_value_def dest!: read_string_shorter take_literal_shorter
      split: if_splits prod.splits bool.splits)

lemma read_key_shorter: "read_key limit s = Some (key, r) \<Longrightarrow> length r < length s"
  by (auto simp: read_key_def dest!: read_string_shorter take_char_shorter(1)
      split: option.splits prod.splits bool.splits)

lemma read_field_shorter: "read_field seen draft s = Some (seen', d, r) \<Longrightarrow> length r < length s"
  by (auto simp: read_field_def dest!: read_key_shorter field_value_shorter
      split: option.splits if_splits)

text \<open>The do-while loop of \<open>contact\<close>.\<close>

function contact_loop :: "u32 \<Rightarrow> ContactDraft \<Rightarrow> string \<Rightarrow> (u32 \<times> ContactDraft \<times> string) option" where
  "contact_loop seen draft s =
     (case read_field seen draft s of
        None \<Rightarrow> None
      | Some (seen', draft', s') \<Rightarrow>
          (case take_char (CHR '','') s' of
             (True, s'') \<Rightarrow> contact_loop seen' draft' s''
           | (False, s'') \<Rightarrow> Some (seen', draft', s'')))"
  by pat_completeness auto
termination
  by (relation "measure (\<lambda>(seen, draft, s). length s)")
    (auto dest!: read_field_shorter take_char_shorter(1) [OF sym])

declare contact_loop.simps [simp del]

definition empty_draft :: ContactDraft where
  "empty_draft = \<lparr>dr_name = [], dr_destination = [], dr_favorite = False\<rparr>"

definition read_contact :: "wctype \<Rightarrow> string \<Rightarrow> (ContactDraft \<times> string) option" where
  "read_contact ct s =
     (case take_char (CHR ''{'') s of
        (False, s) \<Rightarrow> None
      | (True, s) \<Rightarrow>
          (case contact_loop 0 empty_draft s of
             None \<Rightarrow> None
           | Some (seen, draft, s) \<Rightarrow>
               (case take_char (CHR ''}'') s of
                  (False, s) \<Rightarrow> None
                | (True, s) \<Rightarrow> if seen = 7 \<and> valid_contact_draft ct draft then Some (draft, s) else None)))"

lemma contact_loop_shorter:
  "contact_loop seen draft s = Some (seen', d, r) \<Longrightarrow> length r < length s"
proof (induction seen draft s rule: contact_loop.induct)
  case (1 seen draft s)
  from "1.prems" obtain seen1 d1 s1 ok s2 where f: "read_field seen draft s = Some (seen1, d1, s1)"
    and t: "take_char (CHR '','') s1 = (ok, s2)"
    and r: "if ok then contact_loop seen1 d1 s2 = Some (seen', d, r) else r = s2"
    by (subst (asm) contact_loop.simps) (auto split: option.splits prod.splits bool.splits)
  have "length s2 < length s" using read_field_shorter [OF f] take_char_shorter(1) [OF t] by simp
  moreover have "length r < length s2" if ok using "1.IH" [OF f refl refl, of ok s2] t r that by simp
  ultimately show ?case using r by (cases ok) auto
qed

lemma read_contact_shorter: "read_contact ct s = Some (d, r) \<Longrightarrow> length r < length s"
  by (auto simp: read_contact_def
      dest!: contact_loop_shorter take_char_shorter(2) split: option.splits prod.splits bool.splits if_splits)

text \<open>The do-while loop of \<open>contacts\<close>.\<close>

function contacts_loop :: "wctype \<Rightarrow> ContactDraft list \<Rightarrow> string \<Rightarrow> (ContactDraft list \<times> string) option" where
  "contacts_loop ct out s =
     (if length out = book_capacity then None
      else case read_contact ct s of
          None \<Rightarrow> None
        | Some (draft, s') \<Rightarrow>
            if \<exists>existing \<in> set out. dr_destination existing = dr_destination draft then None
            else (case take_char (CHR '','') s' of
                (True, s'') \<Rightarrow> contacts_loop ct (out @ [draft]) s''
              | (False, s'') \<Rightarrow> Some (out @ [draft], s'')))"
  by pat_completeness auto
termination
  by (relation "measure (\<lambda>(ct, out, s). length s)")
    (auto dest!: read_contact_shorter take_char_shorter(1) [OF sym])

declare contacts_loop.simps [simp del]

definition read_contacts :: "wctype \<Rightarrow> ContactDraft list \<Rightarrow> string \<Rightarrow> (ContactDraft list \<times> string) option" where
  "read_contacts ct out s =
     (case take_char (CHR ''['') s of
        (False, s) \<Rightarrow> None
      | (True, s) \<Rightarrow>
          (case take_char (CHR '']'') s of
             (True, s) \<Rightarrow> Some (out, s)
           | (False, s) \<Rightarrow>
               (case contacts_loop ct out s of
                  None \<Rightarrow> None
                | Some (out, s) \<Rightarrow>
                    (case take_char (CHR '']'') s of (False, s) \<Rightarrow> None | (True, s) \<Rightarrow> Some (out, s)))))"

definition root_bit :: "wstr \<Rightarrow> u32" where
  "root_bit key = (if key = W ''version'' then 1 else if key = W ''contacts'' then 2 else 0)"

definition root_value ::
    "wctype \<Rightarrow> u32 \<Rightarrow> ContactDraft list \<Rightarrow> string \<Rightarrow> (ContactDraft list \<times> string) option" where
  "root_value ct flag out s =
     (if flag = 1
      then (case take_literal ''1'' s of (False, s) \<Rightarrow> None | (True, s) \<Rightarrow> Some (out, s))
      else read_contacts ct out s)"

definition root_field ::
    "wctype \<Rightarrow> u32 \<Rightarrow> ContactDraft list \<Rightarrow> string \<Rightarrow> (u32 \<times> ContactDraft list \<times> string) option" where
  "root_field ct seen out s =
     (case read_key 8 s of
        None \<Rightarrow> None
      | Some (key, s) \<Rightarrow>
          if root_bit key = 0 \<or> seen AND root_bit key \<noteq> 0 then None
          else map_option (Pair (seen OR root_bit key)) (root_value ct (root_bit key) out s))"

lemma contacts_loop_shorter: "contacts_loop ct out s = Some (out', r) \<Longrightarrow> length r < length s"
proof (induction ct out s rule: contacts_loop.induct)
  case (1 ct out s)
  from "1.prems" obtain d s1 ok s2 where l: "length out \<noteq> book_capacity"
    and f: "read_contact ct s = Some (d, s1)"
    and n: "\<not> (\<exists>existing \<in> set out. dr_destination existing = dr_destination d)"
    and t: "take_char (CHR '','') s1 = (ok, s2)"
    and r: "if ok then contacts_loop ct (out @ [d]) s2 = Some (out', r) else r = s2"
    by (subst (asm) contacts_loop.simps) (auto split: option.splits prod.splits bool.splits if_splits)
  have "length s2 < length s" using read_contact_shorter [OF f] take_char_shorter(1) [OF t] by simp
  moreover have "length r < length s2" if ok using "1.IH" [OF l f refl n, of ok s2] t r that by simp
  ultimately show ?case using r by (cases ok) auto
qed

lemma root_field_shorter: "root_field ct seen out s = Some (seen', out', r) \<Longrightarrow> length r < length s"
  by (auto simp: root_field_def root_value_def read_contacts_def
      dest!: read_key_shorter take_literal_shorter contacts_loop_shorter take_char_shorter(1)
      split: option.splits prod.splits bool.splits if_splits)

text \<open>The do-while loop of \<open>parse\<close>.\<close>

function parse_loop ::
    "wctype \<Rightarrow> u32 \<Rightarrow> ContactDraft list \<Rightarrow> string \<Rightarrow> (u32 \<times> ContactDraft list \<times> string) option" where
  "parse_loop ct seen out s =
     (case root_field ct seen out s of
        None \<Rightarrow> None
      | Some (seen', out', s') \<Rightarrow>
          (case take_char (CHR '','') s' of
             (True, s'') \<Rightarrow> parse_loop ct seen' out' s''
           | (False, s'') \<Rightarrow> Some (seen', out', s'')))"
  by pat_completeness auto
termination
  by (relation "measure (\<lambda>(ct, seen, out, s). length s)")
    (auto dest!: root_field_shorter take_char_shorter(1) [OF sym])

declare parse_loop.simps [simp del]

definition parse_backup :: "wctype \<Rightarrow> string \<Rightarrow> ContactDraft list option" where
  "parse_backup ct s =
     (case take_char (CHR ''{'') s of
        (False, s) \<Rightarrow> None
      | (True, s) \<Rightarrow>
          (case parse_loop ct 0 [] s of
             None \<Rightarrow> None
           | Some (seen, out, s) \<Rightarrow>
               (case take_char (CHR ''}'') s of
                  (False, s) \<Rightarrow> None
                | (True, s) \<Rightarrow> if seen \<noteq> 3 then None else if skip_space s = [] then Some out else None)))"

definition decode_contact_backup :: "wctype \<Rightarrow> string \<Rightarrow> ContactDraft list option" where
  "decode_contact_backup ct bytes =
     (if length bytes > contact_backup_limit then None else parse_backup ct bytes)"

section \<open>UTF-8\<close>

lemma unat_u32_of_char [simp]: "unat (of_char c :: u32) = of_char c"
proof -
  have e: "(of_char c :: u32) = of_nat (of_char c)" by (rule of_nat_of_char [symmetric])
  have "(of_char c :: nat) < 2 ^ 32" by (rule order_less_trans [OF nat_of_char_less_256]) simp
  then show ?thesis unfolding e by (intro unat_of_nat_less) simp
qed

lemma of_char_to_byte: "(of_char (to_byte w) :: u32) = w AND 255"
proof (rule word_unat_eq_iff [THEN iffD2])
  have m: "(255 :: u32) = mask 8" by (simp add: mask_eq_exp_minus_1)
  show "unat (of_char (to_byte w) :: u32) = unat (w AND 255)"
    unfolding m by (simp add: to_byte_def take_bit_eq_mask [symmetric] take_bit_eq_mod unat_mod)
qed

text \<open>Lead and continuation bytes. \<open>x AND 63\<close> and the other payloads leave the marker bits alone.\<close>

lemma continuation_byte:
  "((0x80 OR (x AND 63)) AND 255) AND 0xc0 = (0x80 :: u32)"
  "((0x80 OR (x AND 63)) AND 255) AND 63 = (x AND 63 :: u32)"
  by (simp_all add: bit.conj_disj_distrib2 and.assoc)

lemma join_6: "push_bit 6 (drop_bit 6 x) OR (x AND 63) = (x :: u32)"
proof -
  have m: "(63 :: u32) = mask 6" by (simp add: mask_eq_exp_minus_1)
  show ?thesis unfolding m by (rule bit_word_eqI) (auto simp: bit_simps)
qed

lemma small_word_cases: "(\<forall>k \<in> set [0..<n]. P (of_nat k :: u32)) \<Longrightarrow> unat x < n \<Longrightarrow> P x"
  by (drule bspec [of _ _ "unat x"]) simp_all

lemma lead_byte:
  "unat x < 32 \<Longrightarrow> (0xc0 OR x) AND 255 = (0xc0 + x :: u32)" "unat x < 32 \<Longrightarrow> (0xc0 + x) AND 31 = (x :: u32)"
  "unat x < 16 \<Longrightarrow> (0xe0 OR x) AND 255 = (0xe0 + x :: u32)" "unat x < 16 \<Longrightarrow> (0xe0 + x) AND 15 = (x :: u32)"
  "unat x < 8 \<Longrightarrow> (0xf0 OR x) AND 255 = (0xf0 + x :: u32)" "unat x < 8 \<Longrightarrow> (0xf0 + x) AND 7 = (x :: u32)"
  by (erule small_word_cases [rotated], code_simp)+

lemma continuation_step:
  "continuation (Suc n) (drop_bit 6 x) (to_byte (0x80 OR (x AND 63)) # s) = continuation n x s"
  by (simp add: of_char_to_byte continuation_byte join_6)

lemma continuation_bytes:
  "continuation 1 (drop_bit 6 x) (to_byte (0x80 OR (x AND 63)) # s) = Some (x, s)"
  "continuation 2 (drop_bit 12 x)
     (to_byte (0x80 OR (drop_bit 6 x AND 63)) # to_byte (0x80 OR (x AND 63)) # s) = Some (x, s)"
  "continuation 3 (drop_bit 18 x) (to_byte (0x80 OR (drop_bit 12 x AND 63)) #
     to_byte (0x80 OR (drop_bit 6 x AND 63)) # to_byte (0x80 OR (x AND 63)) # s) = Some (x, s)"
proof -
  show 1: "continuation 1 (drop_bit 6 x) (to_byte (0x80 OR (x AND 63)) # s) = Some (x, s)" for x s
    using continuation_step [of 0 x s] by simp
  show 2: "continuation 2 (drop_bit 12 x)
     (to_byte (0x80 OR (drop_bit 6 x AND 63)) # to_byte (0x80 OR (x AND 63)) # s) = Some (x, s)" for x s
    using continuation_step [of 1 "drop_bit 6 x"] 1 [of x s] by (simp add: numeral_2_eq_2 del: continuation.simps)
  show "continuation 3 (drop_bit 18 x) (to_byte (0x80 OR (drop_bit 12 x AND 63)) #
     to_byte (0x80 OR (drop_bit 6 x AND 63)) # to_byte (0x80 OR (x AND 63)) # s) = Some (x, s)"
    using continuation_step [of 2 "drop_bit 12 x"] 2 [of x s] by (simp del: continuation.simps)
qed

lemma unat_drop_bit: "unat (drop_bit n (x :: u32)) = unat x div 2 ^ n"
  unfolding unat_drop_bit_eq by (rule drop_bit_eq_div)

lemma codepoint_utf8:
  assumes "cp \<le> 0x10ffff" and "\<not> (0xd800 \<le> cp \<and> cp \<le> 0xdfff)"
  shows "codepoint (utf8 cp @ rest) = Some (cp, rest)"
proof -
  consider "unat cp < 0x80" | "0x80 \<le> unat cp" "unat cp < 0x800" | "0x800 \<le> unat cp" "unat cp < 0x10000"
    | "0x10000 \<le> unat cp" "unat cp \<le> 0x10ffff"
    using assms(1) by (fastforce simp: word_le_nat_alt)
  then show ?thesis
  proof cases
    case 1
    then have "cp AND 255 = cp" by (rule small_word_cases [rotated]) code_simp
    then show ?thesis using 1 by (simp add: utf8_def codepoint_def of_char_to_byte word_less_nat_alt)
  next
    case 2
    have x: "unat (drop_bit 6 cp) < 32" "2 \<le> unat (drop_bit 6 cp)" using 2 by (simp_all add: unat_drop_bit)
    have "unat (0xc0 + drop_bit 6 cp) = 0xc0 + unat (drop_bit 6 cp)" using x by (simp add: unat_word_ariths)
    then show ?thesis using 2 x assms
      by (simp add: utf8_def codepoint_def code_point_from_def of_char_to_byte lead_byte
          continuation_byte join_6 word_less_nat_alt word_le_nat_alt)
  next
    case 3
    have x: "unat (drop_bit 12 cp) < 16" using 3 by (simp add: unat_drop_bit)
    have "unat (0xe0 + drop_bit 12 cp) = 0xe0 + unat (drop_bit 12 cp)" using x by (simp add: unat_word_ariths)
    then show ?thesis
      using 3 x assms
      by (simp add: utf8_def codepoint_def code_point_from_def of_char_to_byte lead_byte
          continuation_bytes word_less_nat_alt word_le_nat_alt)
  next
    case 4
    have x: "unat (drop_bit 18 cp) \<le> 4" using 4 by (simp add: unat_drop_bit)
    have "unat (0xf0 + drop_bit 18 cp) = 0xf0 + unat (drop_bit 18 cp)" using x by (simp add: unat_word_ariths)
    then show ?thesis
      using 4 x assms
      by (simp add: utf8_def codepoint_def code_point_from_def of_char_to_byte lead_byte
          continuation_bytes word_less_nat_alt word_le_nat_alt)
  qed
qed

section \<open>Strings\<close>

lemma unat_and_1023: "unat (x AND 1023 :: u32) = unat x mod 1024"
proof -
  have m: "(1023 :: u32) = mask 10" by (simp add: mask_eq_exp_minus_1)
  show ?thesis unfolding m by (simp add: take_bit_eq_mask [symmetric] take_bit_eq_mod unat_mod)
qed

lemma unat_ucast_small: "unat (x :: u32) < 65536 \<Longrightarrow> unat (ucast x :: wchar) = unat x"
  by (simp add: unsigned_ucast_eq take_bit_nat_eq_self)

lemma split_join_surrogates:
  assumes "high_surrogate h" and "low_surrogate l"
  shows "split_units (join_surrogates h l) = [h, l]"
proof -
  let ?cp = "join_surrogates h l"
  have b: "0xd800 \<le> unat h" "unat h \<le> 0xdbff" "0xdc00 \<le> unat l" "unat l \<le> 0xdfff"
    using assms by (simp_all add: surrogate_bounds)
  note j = unat_join_surrogates [OF assms]
  have d: "unat (?cp - 0x10000) = (unat h - 0xd800) * 1024 + (unat l - 0xdc00)"
    using j by (subst unat_sub) (simp_all add: word_le_nat_alt)
  have "unat (drop_bit 10 (?cp - 0x10000)) = unat h - 0xd800"
    unfolding unat_drop_bit d using b by simp
  then have high: "unat (0xd800 + drop_bit 10 (?cp - 0x10000)) = unat h"
    using b by (simp add: unat_word_ariths)
  have "unat ((?cp - 0x10000) AND 1023) = unat l - 0xdc00"
    unfolding unat_and_1023 d using b by (subst mod_mult_self3) simp
  then have low: "unat (0xdc00 + ((?cp - 0x10000) AND 1023)) = unat l"
    using b by (simp add: unat_word_ariths)
  have "ucast (0xd800 + drop_bit 10 (?cp - 0x10000)) = h" "ucast (0xdc00 + ((?cp - 0x10000) AND 1023)) = l"
    using high low b by (auto simp: unat_ucast_small intro!: word_unat_eq_iff [THEN iffD2])
  moreover have "?cp > 0xffff" using j by (simp add: word_less_nat_alt)
  ultimately show ?thesis by (simp add: split_units_def)
qed

lemma next_code_point_sound:
  assumes "next_code_point c cs = Some (cp, rest)"
  shows "c # cs = split_units cp @ rest" and "paired c cs = (cp, rest)"
    and "cp \<le> 0x10ffff" and "\<not> (0xd800 \<le> cp \<and> cp \<le> 0xdfff)"
proof -
  have "c # cs = split_units cp @ rest \<and> paired c cs = (cp, rest) \<and> cp \<le> 0x10ffff \<and>
      \<not> (0xd800 \<le> cp \<and> cp \<le> 0xdfff)"
  proof (cases "high_surrogate c")
    case True
    then obtain low where l: "cs = low # rest" "low_surrogate low" "cp = join_surrogates c low"
      using assms by (auto simp: next_code_point_def split: list.splits if_splits)
    have "unat c \<le> 0xdbff" "unat low \<le> 0xdfff" using True l(2) by (simp_all add: surrogate_bounds)
    then have "unat cp \<le> 0x10ffff" "unat cp \<ge> 0x10000"
      using unat_join_surrogates [OF True l(2)] l(3) by auto
    then show ?thesis
      using True l split_join_surrogates [OF True l(2)] by (simp add: paired_def word_le_nat_alt)
  next
    case False
    then have e: "cp = ucast c" "rest = cs" "\<not> low_surrogate c"
      using assms by (auto simp: next_code_point_def split: if_splits)
    moreover have "unat c \<le> 0xffff" using unsigned_less [where w = c and ?'a = nat] by simp
    moreover have "\<not> (0xd800 \<le> unat c \<and> unat c \<le> 0xdfff)"
      using False e(3) by (auto simp: surrogate_bounds)
    moreover have "ucast (ucast c :: u32) = c"
      by (rule word_unat_eq_iff [THEN iffD2]) (use unsigned_less [where w = c and ?'a = nat] in \<open>simp add: unat_ucast_small\<close>)
    ultimately show ?thesis
      using False by (simp add: paired_def split_units_def word_le_nat_alt word_less_nat_alt)
  qed
  then show "c # cs = split_units cp @ rest" "paired c cs = (cp, rest)"
    "cp \<le> 0x10ffff" "\<not> (0xd800 \<le> cp \<and> cp \<le> 0xdfff)" by auto
qed

lemma string_loop_char:
  assumes "cp \<le> 0x10ffff" "\<not> (0xd800 \<le> cp \<and> cp \<le> 0xdfff)" and "\<not> refused_cp ascii cp"
    and "units + code_units cp \<le> limit"
  shows "string_loop limit ascii units out
      ((if cp = 0x22 \<or> cp = 0x5c then [CHR 0x5C] else []) @ utf8 cp @ s) =
    string_loop limit ascii (units + code_units cp) (out @ split_units cp) s"
proof (cases "cp = 0x22 \<or> cp = 0x5c")
  case True
  moreover have "utf8 0x22 = [CHR 0x22]" "utf8 0x5c = [CHR 0x5C]" by code_simp+
  ultimately show ?thesis using assms(3,4) by (auto simp: string_char_def escaped_def)
next
  case False
  obtain b bs where b: "utf8 cp = b # bs" by (cases "utf8 cp") (auto simp: utf8_def split: if_splits)
  have c: "codepoint (b # bs @ s) = Some (cp, s)"
    using codepoint_utf8 [OF assms(1,2), of s] by (simp add: b)
  then have "b \<noteq> CHR 0x22" "b \<noteq> CHR 0x5C" using False by (auto simp: codepoint_def)
  then show ?thesis using False c assms(3,4) by (simp add: b string_char_def)
qed

text \<open>The texts \<open>string\<close> accepts back: paired surrogates and no refused code point.\<close>

function accepted_text :: "bool \<Rightarrow> wstr \<Rightarrow> bool" where
  "accepted_text ascii [] = True"
| "accepted_text ascii (c # cs) =
     (case next_code_point c cs of
        None \<Rightarrow> False
      | Some (cp, rest) \<Rightarrow> \<not> refused_cp ascii cp \<and> accepted_text ascii rest)"
  by pat_completeness auto
termination
  by (relation "measure (\<lambda>(ascii, s). length s)") (auto dest: next_code_point_shorter simp: le_imp_less_Suc)

lemma string_loop_quoted:
  "accepted_text ascii v \<Longrightarrow> units + length v \<le> limit \<Longrightarrow>
     string_loop limit ascii units out (quoted_chars v @ CHR 0x22 # s) = Some (out @ v, s)"
proof (induction ascii v arbitrary: units out rule: accepted_text.induct)
  case (2 ascii c cs)
  from "2.prems"(1) obtain cp rest where n: "next_code_point c cs = Some (cp, rest)"
    and r: "\<not> refused_cp ascii cp" and a: "accepted_text ascii rest"
    by (auto split: option.splits)
  note sound = next_code_point_sound [OF n]
  have u: "units + code_units cp + length rest \<le> limit"
    using next_code_point_units [OF n] "2.prems"(2) by simp
  have "string_loop limit ascii units out (quoted_chars (c # cs) @ CHR 0x22 # s) =
      string_loop limit ascii (units + code_units cp) (out @ split_units cp) (quoted_chars rest @ CHR 0x22 # s)"
    using string_loop_char [OF sound(3,4) r, of units limit out "quoted_chars rest @ CHR 0x22 # s"] u
    by (simp add: sound(2))
  also have "\<dots> = Some (out @ split_units cp @ rest, s)"
    using "2.IH" [OF n refl a u] by simp
  finally show ?case using sound(1) by simp
qed simp

lemma accepted_name: "name_scan units visible v \<Longrightarrow> accepted_text False v"
proof (induction units visible v rule: name_scan.induct)
  case (2 units visible c cs)
  then obtain cp rest where n: "next_code_point c cs = Some (cp, rest)"
    and u: "\<not> (units + code_units cp > 64 \<or> forbidden_code_point cp)"
    and r: "name_scan (units + code_units cp) (visible \<or> visible_code_point cp) rest"
    by (auto split: option.splits if_splits)
  then show ?case using "2.IH" [OF n refl u r]
    by (auto simp: refused_cp_def forbidden_code_point_def)
qed simp

lemma accepted_ascii: "\<forall>c \<in> set v. 32 < c \<and> c < 127 \<Longrightarrow> accepted_text True v"
proof (induction v)
  case (Cons c v)
  have "next_code_point c v = Some (ucast c, v)"
    using Cons.prems by (auto simp: next_code_point_def surrogate_bounds word_less_nat_alt)
  then show ?case using Cons by (simp add: refused_cp_def word_less_nat_alt word_le_nat_alt)
qed simp

lemma read_string_quoted:
  "accepted_text ascii v \<Longrightarrow> length v \<le> limit \<Longrightarrow> read_string out limit ascii (quoted v @ s) = Some (out @ v, s)"
  by (simp add: read_string_def quoted_def take_char_def skip_space_def parser_space_def string_loop_quoted)

section \<open>Documents\<close>

lemma take_char_hit: "\<not> parser_space c \<Longrightarrow> take_char c (c # s) = (True, s)"
  and take_char_miss: "\<not> parser_space d \<Longrightarrow> d \<noteq> c \<Longrightarrow> take_char c (d # s) = (False, d # s)"
  by (simp_all add: take_char_def skip_space_def)

lemma take_literal_hit: "l \<noteq> [] \<Longrightarrow> \<not> parser_space (hd l) \<Longrightarrow> take_literal l (l @ s) = (True, s)"
  by (cases l) (simp_all add: take_literal_def skip_space_def)

lemmas parser_steps = take_char_hit take_char_miss take_literal_hit parser_space_def

lemma read_key_quoted:
  "accepted_text True k \<Longrightarrow> length k \<le> limit \<Longrightarrow> read_key limit (quoted k @ CHR '':'' # s) = Some (k, s)"
  by (simp add: read_key_def read_string_quoted parser_steps)

lemma key_quotes:
  "quoted (W ''name'') = ''\"name\"''" "quoted (W ''destination'') = ''\"destination\"''"
  "quoted (W ''favorite'') = ''\"favorite\"''" "quoted (W ''version'') = ''\"version\"''"
  "quoted (W ''contacts'') = ''\"contacts\"''"
  by code_simp+

lemma accepted_keys:
  "accepted_text True (W ''name'')" "accepted_text True (W ''destination'')" "accepted_text True (W ''favorite'')"
  "accepted_text True (W ''version'')" "accepted_text True (W ''contacts'')"
  by code_simp+

lemma key_facts:
  "field_bit (W ''name'') = 1" "field_bit (W ''destination'') = 2" "field_bit (W ''favorite'') = 4"
  "root_bit (W ''version'') = 1" "root_bit (W ''contacts'') = 2"
  "length (W k) = length k"
  by (code_simp+) (simp add: W_def)

lemma valid_draft_texts:
  assumes "valid_draft ct d"
  shows "accepted_text False (dr_name d)" "accepted_text True (dr_destination d)"
    "length (dr_name d) \<le> 64" "length (dr_destination d) \<le> 128"
proof -
  have "name_scan 0 False (dr_name d)" "\<forall>c \<in> set (dr_destination d). 32 < c \<and> c < 127"
    using assms by (auto simp: valid_draft_def valid_name_def Let_def not_le split: if_splits)
  then show "accepted_text False (dr_name d)" "accepted_text True (dr_destination d)"
    by (simp_all add: accepted_name accepted_ascii)
qed (use valid_draft_lengths [OF assms] in simp_all)

lemma read_field_name:
  "accepted_text False v \<Longrightarrow> length v \<le> 64 \<Longrightarrow> dr_name d = [] \<Longrightarrow>
     read_field 0 d (quoted (W ''name'') @ CHR '':'' # quoted v @ s) = Some (1, d\<lparr>dr_name := v\<rparr>, s)"
  by (simp add: read_field_def read_key_quoted accepted_keys key_facts field_value_def read_string_quoted)

lemma read_field_destination:
  "accepted_text True v \<Longrightarrow> length v \<le> 128 \<Longrightarrow> dr_destination d = [] \<Longrightarrow>
     read_field 1 d (quoted (W ''destination'') @ CHR '':'' # quoted v @ s) = Some (3, d\<lparr>dr_destination := v\<rparr>, s)"
  by (simp add: read_field_def read_key_quoted accepted_keys key_facts field_value_def read_string_quoted)

definition bool_text :: "bool \<Rightarrow> string" where
  "bool_text f = (if f then ''true'' else ''false'')"

lemma read_field_favorite:
  "read_field 3 d (quoted (W ''favorite'') @ CHR '':'' # bool_text f @ s) = Some (7, d\<lparr>dr_favorite := f\<rparr>, s)"
proof -
  have "take_literal ''true'' (''false'' @ s) = (False, ''false'' @ s)"
    by (simp add: take_literal_def skip_space_def parser_space_def)
  then show ?thesis
    using take_literal_hit [of "''true''" s] take_literal_hit [of "''false''" s]
    by (auto simp: read_field_def read_key_quoted accepted_keys key_facts field_value_def bool_text_def
        parser_space_def)
qed

lemma read_contact_entry:
  assumes "valid_contact_draft ct (draft_of c)"
  shows "read_contact ct (contact_entry c @ s) = Some (draft_of c, s)"
proof -
  have v: "valid_draft ct (draft_of c)" using assms by (simp add: valid_contact_draft_def)
  note texts = valid_draft_texts [OF v, unfolded draft_of_def, simplified]
  have e: "contact_entry c @ s = CHR ''{'' # quoted (W ''name'') @ CHR '':'' # quoted (co_name c) @
      CHR '','' # quoted (W ''destination'') @ CHR '':'' # quoted (co_destination c) @
      CHR '','' # quoted (W ''favorite'') @ CHR '':'' # bool_text (co_favorite c) @ CHR ''}'' # s"
    by (simp add: contact_entry_def key_quotes bool_text_def)
  have last: "contact_loop 3 d (quoted (W ''favorite'') @ CHR '':'' # bool_text f @ CHR ''}'' # s) =
      Some (7, d\<lparr>dr_favorite := f\<rparr>, CHR ''}'' # s)" for d f
    by (subst contact_loop.simps) (simp add: read_field_favorite parser_steps)
  have "contact_loop 0 empty_draft (drop 1 (contact_entry c @ s)) =
      Some (7, draft_of c, CHR ''}'' # s)"
    unfolding e
    by (subst contact_loop.simps, simp add: read_field_name texts empty_draft_def parser_steps)
      (subst contact_loop.simps, simp add: read_field_destination texts last draft_of_def parser_steps)
  then show ?thesis using assms by (simp add: read_contact_def e parser_steps)
qed

text \<open>The contacts of a document.\<close>

fun entry_texts :: "bool \<Rightarrow> Contact list \<Rightarrow> string" where
  "entry_texts first [] = []"
| "entry_texts first (c # cs) = (if first then [] else '','') @ contact_entry c @ entry_texts False cs"

lemma contacts_loop_entries:
  assumes "\<forall>d \<in> set (c # cs). valid_contact_draft ct (draft_of d)"
    and "distinct (map dr_destination out @ map co_destination (c # cs))"
    and "length out + length (c # cs) \<le> book_capacity"
  shows "contacts_loop ct out (contact_entry c @ entry_texts False cs @ CHR '']'' # s) =
    Some (out @ map draft_of (c # cs), CHR '']'' # s)"
  using assms
proof (induction cs arbitrary: c out)
  case Nil
  then show ?case
    by (subst contacts_loop.simps)
      (auto simp: read_contact_entry draft_of_def image_iff parser_steps split: if_splits)
next
  case (Cons c' cs)
  have "contacts_loop ct (out @ [draft_of c]) (contact_entry c' @ entry_texts False cs @ CHR '']'' # s) =
      Some ((out @ [draft_of c]) @ map draft_of (c' # cs), CHR '']'' # s)"
    by (rule Cons.IH) (use Cons.prems in \<open>auto simp: draft_of_def\<close>)
  then show ?case
    using Cons.prems by (subst contacts_loop.simps)
      (auto simp: read_contact_entry draft_of_def image_iff parser_steps split: if_splits)
qed

lemma encode_entries_text:
  assumes "\<forall>c \<in> set cs. valid_contact_draft ct (draft_of c)"
    and "length (out @ entry_texts first cs) \<le> contact_backup_limit"
  shows "encode_entries ct first out cs = Some (out @ entry_texts first cs)"
  using assms
  by (induction cs arbitrary: first out) (auto simp: Let_def)

lemma length_quoted_chars: "length (quoted_chars v) \<le> 5 * length v"
proof (induction v rule: quoted_chars.induct)
  case (2 c cs)
  obtain cp rest where p: "paired c cs = (cp, rest)" by force
  have "length (utf8 cp) \<le> 4" by (simp add: utf8_def)
  moreover have "length (quoted_chars rest) \<le> 5 * length rest" using 2 p by simp
  moreover have "length rest \<le> length cs" using paired_shorter [OF p [symmetric]] by simp
  ultimately show ?case by (simp add: p)
qed simp

lemma length_contact_entry:
  assumes "valid_contact_draft ct (draft_of c)"
  shows "length (contact_entry c) \<le> 1005"
proof -
  have "length (co_name c) \<le> 64" "length (co_destination c) \<le> 128"
    using assms valid_draft_lengths by (fastforce simp: draft_of_def valid_contact_draft_def)+
  then have "length (quoted (co_name c)) \<le> 322" "length (quoted (co_destination c)) \<le> 642"
    using length_quoted_chars [of "co_name c"] length_quoted_chars [of "co_destination c"]
    by (simp_all add: quoted_def)
  then show ?thesis by (simp add: contact_entry_def)
qed

lemma length_entry_texts:
  "\<forall>c \<in> set cs. valid_contact_draft ct (draft_of c) \<Longrightarrow> length (entry_texts first cs) \<le> 1006 * length cs"
proof (induction cs arbitrary: first)
  case (Cons c cs)
  have "length (entry_texts False cs) \<le> 1006 * length cs" using Cons by simp
  moreover have "length (contact_entry c) \<le> 1005" using Cons.prems by (intro length_contact_entry [of ct]) simp
  ultimately show ?case by simp
qed simp

text \<open>A valid book always fits the format, and is read back.\<close>

lemma encode_book:
  assumes "book_inv ct b"
  shows "encode_contact_backup ct b =
    Some (''{\"version\":1,\"contacts\":['' @ entry_texts True (cb_items b) @ '']}'')"
proof -
  have v: "\<forall>c \<in> set (cb_items b). valid_contact_draft ct (draft_of c)" and n: "length (cb_items b) \<le> 500"
    using assms by (simp_all add: book_inv_def valid_contact_draft_def book_capacity_def)
  have "length (entry_texts True (cb_items b)) \<le> 503000"
    using length_entry_texts [OF v, of True] n by linarith
  then show ?thesis
    using n encode_entries_text [OF v, of "''{\"version\":1,\"contacts\":[''" True]
    by (simp add: encode_contact_backup_def book_capacity_def contact_backup_limit_def)
qed

lemma parse_entries:
  assumes "book_inv ct b"
  shows "parse_backup ct (''{\"version\":1,\"contacts\":['' @ entry_texts True (cb_items b) @ '']}'') =
    Some (map draft_of (cb_items b))"
proof -
  let ?cs = "cb_items b"
  have read: "read_contacts ct [] (CHR ''['' # entry_texts True ?cs @ CHR '']'' # s) = Some (map draft_of ?cs, s)" for s
  proof (cases ?cs)
    case Nil
    then show ?thesis by (simp add: read_contacts_def parser_steps)
  next
    case (Cons c cs)
    have l: "contacts_loop ct [] (contact_entry c @ entry_texts False cs @ CHR '']'' # s) =
        Some ([] @ map draft_of (c # cs), CHR '']'' # s)"
      by (rule contacts_loop_entries)
        (use assms Cons in \<open>auto simp: book_inv_def valid_contact_draft_def\<close>)
    obtain t where "contact_entry c = CHR ''{'' # t" by (simp add: contact_entry_def)
    then show ?thesis using l by (simp add: read_contacts_def Cons parser_steps)
  qed
  let ?rest = "quoted (W ''contacts'') @ CHR '':'' # CHR ''['' # entry_texts True ?cs @ '']}''"
  have e: "''{\"version\":1,\"contacts\":['' @ entry_texts True ?cs @ '']}'' =
      CHR ''{'' # quoted (W ''version'') @ CHR '':'' # ''1'' @ CHR '','' # ?rest"
    by (simp add: key_quotes)
  have 1: "root_field ct 0 [] (quoted (W ''version'') @ CHR '':'' # ''1'' @ s) = Some (1, [], s)" for s
    using take_literal_hit [of "''1''" s]
    by (simp add: root_field_def read_key_quoted accepted_keys key_facts root_value_def parser_space_def)
  have 2: "root_field ct 1 [] ?rest = Some (3, map draft_of ?cs, ''}'')"
    using read [of "''}''"]
    by (simp add: root_field_def read_key_quoted accepted_keys key_facts root_value_def)
  have "parse_loop ct 1 [] ?rest = Some (3, map draft_of ?cs, ''}'')"
    by (subst parse_loop.simps) (simp only: 2, simp add: parser_steps)
  then have "parse_loop ct 0 [] (quoted (W ''version'') @ CHR '':'' # ''1'' @ CHR '','' # ?rest) =
      Some (3, map draft_of ?cs, ''}'')"
    by (subst parse_loop.simps) (simp only: 1, simp add: parser_steps)
  then show ?thesis unfolding parse_backup_def e by (simp add: parser_steps skip_space_def)
qed

lemma contacts_loop_sound:
  "contacts_loop ct out s = Some (out', r) \<Longrightarrow> length out \<le> book_capacity \<Longrightarrow>
     distinct (map dr_destination out) \<Longrightarrow> \<forall>d \<in> set out. valid_contact_draft ct d \<Longrightarrow>
     length out' \<le> book_capacity \<and> distinct (map dr_destination out') \<and> (\<forall>d \<in> set out'. valid_contact_draft ct d)"
proof (induction ct out s rule: contacts_loop.induct)
  case (1 ct out s)
  from "1.prems"(1) obtain d s1 ok s2 where l: "length out \<noteq> book_capacity"
    and f: "read_contact ct s = Some (d, s1)"
    and n: "\<not> (\<exists>existing \<in> set out. dr_destination existing = dr_destination d)"
    and t: "take_char (CHR '','') s1 = (ok, s2)"
    and r: "if ok then contacts_loop ct (out @ [d]) s2 = Some (out', r) else out' = out @ [d]"
    by (subst (asm) contacts_loop.simps) (auto split: option.splits prod.splits bool.splits if_splits)
  have v: "valid_contact_draft ct d"
    using f by (auto simp: read_contact_def split: option.splits prod.splits bool.splits if_splits)
  have p: "length (out @ [d]) \<le> book_capacity" "distinct (map dr_destination (out @ [d]))"
    "\<forall>x \<in> set (out @ [d]). valid_contact_draft ct x"
    using "1.prems" l n v by auto
  show ?case
  proof (cases ok)
    case True
    then have r': "contacts_loop ct (out @ [d]) s2 = Some (out', r)" and t': "(True, s2) = take_char (CHR '','') s1"
      using r t by simp_all
    show ?thesis using "1.IH" [OF l f refl n t' refl r' p] .
  next
    case False
    then have "out' = out @ [d]" using r by simp
    then show ?thesis using p l by simp
  qed
qed

lemma read_contacts_sound:
  assumes "read_contacts ct [] s = Some (out, r)"
  shows "length out \<le> book_capacity \<and> distinct (map dr_destination out) \<and>
    (\<forall>d \<in> set out. valid_contact_draft ct d)"
proof -
  obtain s' r' where "out = [] \<or> contacts_loop ct [] s' = Some (out, r')"
    using assms by (auto simp: read_contacts_def split: option.splits prod.splits bool.splits)
  then show ?thesis using contacts_loop_sound [of ct "[]" s' out r'] by auto
qed

text \<open>The list of a parse is empty until the contacts field was read, which happens once.\<close>

definition parsed_ok :: "wctype \<Rightarrow> u32 \<Rightarrow> ContactDraft list \<Rightarrow> bool" where
  "parsed_ok ct seen out \<longleftrightarrow> (if seen AND 2 = 0 then out = []
     else length out \<le> book_capacity \<and> distinct (map dr_destination out) \<and>
       (\<forall>d \<in> set out. valid_contact_draft ct d))"

lemma root_field_ok:
  assumes "root_field ct seen out s = Some (seen', out', r)" and "parsed_ok ct seen out"
  shows "parsed_ok ct seen' out'"
proof -
  obtain key s1 where k: "root_bit key \<noteq> 0" "seen AND root_bit key = 0" "seen' = seen OR root_bit key"
    and v: "root_value ct (root_bit key) out s1 = Some (out', r)"
    using assms(1) by (auto simp: root_field_def split: option.splits if_splits)
  from k(1) consider "root_bit key = 1" | "root_bit key = 2" by (auto simp: root_bit_def split: if_splits)
  then show ?thesis
  proof cases
    case 1
    then have "out' = out" using v by (auto simp: root_value_def split: prod.splits bool.splits)
    moreover have "seen' AND 2 = seen AND 2" using k(3) 1 by (simp add: bit.conj_disj_distrib2)
    ultimately show ?thesis using assms(2) by (simp add: parsed_ok_def)
  next
    case 2
    then have "out = []" "seen' AND 2 \<noteq> 0"
      using k assms(2) by (simp_all add: parsed_ok_def bit.conj_disj_distrib2)
    moreover have "read_contacts ct out s1 = Some (out', r)" using v 2 by (simp add: root_value_def)
    ultimately show ?thesis using read_contacts_sound by (auto simp: parsed_ok_def)
  qed
qed

lemma parse_loop_ok:
  "parse_loop ct seen out s = Some (seen', out', r) \<Longrightarrow> parsed_ok ct seen out \<Longrightarrow> parsed_ok ct seen' out'"
proof (induction ct seen out s rule: parse_loop.induct)
  case (1 ct seen out s)
  from "1.prems"(1) obtain seen1 out1 s1 ok s2 where f: "root_field ct seen out s = Some (seen1, out1, s1)"
    and t: "take_char (CHR '','') s1 = (ok, s2)"
    and r: "if ok then parse_loop ct seen1 out1 s2 = Some (seen', out', r) else seen' = seen1 \<and> out' = out1"
    by (subst (asm) parse_loop.simps) (auto split: option.splits prod.splits bool.splits)
  note p = root_field_ok [OF f "1.prems"(2)]
  show ?case
  proof (cases ok)
    case True
    then have r': "parse_loop ct seen1 out1 s2 = Some (seen', out', r)" and t': "(True, s2) = take_char (CHR '','') s1"
      using r t by simp_all
    show ?thesis using "1.IH" [OF f refl refl t' refl r' p] .
  qed (use r p in simp)
qed

lemma decode_sound:
  assumes "decode_contact_backup ct bytes = Some drafts"
  shows "length bytes \<le> contact_backup_limit" "length drafts \<le> book_capacity"
    "distinct (map dr_destination drafts)" "\<forall>d \<in> set drafts. valid_contact_draft ct d"
proof -
  have l: "length bytes \<le> contact_backup_limit" and p: "parse_backup ct bytes = Some drafts"
    using assms by (simp_all add: decode_contact_backup_def split: if_splits)
  obtain s r where "parse_loop ct 0 [] s = Some (3, drafts, r)"
    using p by (auto simp: parse_backup_def split: option.splits prod.splits bool.splits if_splits)
  then have "parsed_ok ct 3 drafts" by (rule parse_loop_ok) (simp add: parsed_ok_def)
  then show "length bytes \<le> contact_backup_limit" "length drafts \<le> book_capacity"
    "distinct (map dr_destination drafts)" "\<forall>d \<in> set drafts. valid_contact_draft ct d"
    using l by (simp_all add: parsed_ok_def)
qed

lemma encode_limit:
  "encode_contact_backup ct b = Some bytes \<Longrightarrow> length bytes \<le> contact_backup_limit"
  by (auto simp: encode_contact_backup_def split: option.splits if_splits)

lemma decode_encoded:
  assumes "book_inv ct b" and "encode_contact_backup ct b = Some bytes"
  shows "decode_contact_backup ct bytes = Some (map draft_of (cb_items b))"
  using encode_limit [OF assms(2)] encode_book [OF assms(1)] parse_entries [OF assms(1)] assms(2)
  by (simp add: decode_contact_backup_def)

section \<open>Properties\<close>

text \<open>
  C24. The backup of a book can always be made and restores it. For every state of a book that
  operations can reach, with names of any Unicode characters the book admits, \<open>encode_contact_backup\<close>
  succeeds within its size limit, and \<open>decode_contact_backup\<close> reads exactly the contacts back: their
  names, destinations and favourite marks, in order.
\<close>

theorem backup_round_trip:
  assumes "b = book_run ct ops"
  shows "\<exists>bytes. encode_contact_backup ct b = Some bytes \<and> length bytes \<le> contact_backup_limit \<and>
    decode_contact_backup ct bytes = Some (map draft_of (cb_items b))"
proof -
  have inv: "book_inv ct b" using book_run_inv assms by simp
  then obtain bytes where "encode_contact_backup ct b = Some bytes" using encode_book by blast
  then show ?thesis using encode_limit decode_encoded [OF inv] by blast
qed

theorem backup_round_trip_witness:
  "\<exists>bytes. encode_contact_backup c_locale (book_run c_locale [Add sample_draft, ToggleFavorite 1]) = Some bytes \<and>
     length bytes \<le> contact_backup_limit \<and>
     decode_contact_backup c_locale bytes = Some [sample_draft\<lparr>dr_favorite := True\<rparr>]"
proof -
  have "map draft_of (cb_items (book_run c_locale [Add sample_draft, ToggleFavorite 1])) =
      [sample_draft\<lparr>dr_favorite := True\<rparr>]"
    by code_simp
  then show ?thesis using backup_round_trip [OF refl, of c_locale "[Add sample_draft, ToggleFavorite 1]"] by simp
qed

text \<open>
  C25. The decoder fails closed. For any bytes at all it returns, and what it returns is a list of at most
  500 contacts with valid names and callable destinations, no destination twice, from a document within
  the size limit: every one of them can be added to an empty book.
\<close>

theorem decoded_backup_sound:
  assumes "decode_contact_backup ct bytes = Some drafts"
  shows "length bytes \<le> 524288 \<and> length drafts \<le> 500 \<and> distinct (map dr_destination drafts) \<and>
    (\<forall>d \<in> set drafts. valid_contact_draft ct d)"
  using decode_sound [OF assms] by (simp add: contact_backup_limit_def book_capacity_def)

definition sample_backup :: string where
  "sample_backup = ''{ \"contacts\":[{\"favorite\":true,\"name\":\"A'' @ [CHR 0x5C] @
     ''u00e9\",\"destination\":\"1001\"}], \"version\":1}''"

theorem decoded_backup_sound_witness:
  "\<exists>drafts. decode_contact_backup c_locale sample_backup = Some drafts \<and> length drafts = 1 \<and>
     distinct (map dr_destination drafts)"
proof -
  have l: "\<not> contact_backup_limit < length sample_backup"
    by (simp add: sample_backup_def contact_backup_limit_def)
  have "decode_contact_backup c_locale sample_backup =
      Some [\<lparr>dr_name = [0x41, 0xe9], dr_destination = W ''1001'', dr_favorite = True\<rparr>]"
    unfolding decode_contact_backup_def if_not_P [OF l] by code_simp
  then show ?thesis using decoded_backup_sound by fastforce
qed

end
