(* ===== verification/Contact_Store.thy ===== *)
theory Contact_Store
  imports Contact_Backup
begin

text \<open>
  The contact file and the import: \<open>contact_store_win32.cpp\<close> and \<open>contact_import_win32.cpp\<close>.
  The file under the store's path is its contents, or nothing when it does not exist. What the
  Windows calls of one operation answer is the record \<open>FileCalls\<close>: every operation is defined
  for every answer. The lock file a save holds makes it one step with respect to other instances; anything
  else may still change the file between the operations.
\<close>

section \<open>Data\<close>

datatype ContactStoreResult = Ok | Conflict | Error

record ContactStore =
  st_path :: wstr
  st_baseline :: string
  st_loaded :: bool
  st_existed :: bool

datatype Directory = Missing | Unusable | NotOrdinary | Ordinary
datatype TempFile = Created | Exists | Failed

record FileCalls =
  fc_create_directory :: bool
  fc_directory :: Directory
  fc_lock :: bool
  fc_open :: bool
  fc_ordinary :: bool
  fc_read :: bool
  fc_temp :: "nat \<Rightarrow> TempFile"
  fc_write :: bool
  fc_move :: bool

definition new_store :: "wstr \<Rightarrow> wstr option \<Rightarrow> ContactStore" where
  "new_store path local_app_data =
     \<lparr>st_path = (if path = []
        then (case local_app_data of
            None \<Rightarrow> []
          | Some folder \<Rightarrow> folder @ [0x5C] @ W ''AXEVoiceNativeCandidate'' @ [0x5C] @ W ''contacts.json'')
        else path),
      st_baseline = [], st_loaded = False, st_existed = False\<rparr>"

section \<open>Reading and writing the file\<close>

text \<open>\<open>read_file\<close>: nothing when it fails, else the contents, which are missing with the file.\<close>

definition read_file :: "FileCalls \<Rightarrow> string option \<Rightarrow> string option option" where
  "read_file calls disk =
     (if \<not> fc_open calls then None
      else case disk of
          None \<Rightarrow> Some None
        | Some bytes \<Rightarrow>
            if \<not> fc_ordinary calls then None
            else if length bytes > contact_backup_limit then None
            else if bytes \<noteq> [] \<and> \<not> fc_read calls then None
            else Some (Some bytes))"

fun add_all :: "wctype \<Rightarrow> ContactBook \<Rightarrow> ContactDraft list \<Rightarrow> ContactBook option" where
  "add_all ct book [] = Some book"
| "add_all ct book (draft # drafts) =
     (case book_add ct book draft of
        (result, book') \<Rightarrow> if result \<noteq> ContactResult.Ok then None else add_all ct book' drafts)"

definition replacement_book :: "wctype \<Rightarrow> string option \<Rightarrow> ContactBook option" where
  "replacement_book ct contents =
     (case contents of
        None \<Rightarrow> Some empty_book
      | Some bytes \<Rightarrow>
          (case decode_contact_backup ct bytes of
             None \<Rightarrow> None
           | Some drafts \<Rightarrow> add_all ct empty_book drafts))"

definition store_load ::
    "wctype \<Rightarrow> FileCalls \<Rightarrow> string option \<Rightarrow> ContactStore \<Rightarrow> ContactBook \<Rightarrow>
     ContactStoreResult \<times> ContactStore \<times> ContactBook" where
  "store_load ct calls disk store book =
     (let store = store\<lparr>st_loaded := False\<rparr>; failed = (ContactStoreResult.Error, store, book) in
      if st_path store = [] then failed
      else if fc_directory calls = Directory.Unusable then failed
      else if fc_directory calls = Directory.NotOrdinary then failed
      else case read_file calls disk of
          None \<Rightarrow> failed
        | Some contents \<Rightarrow>
            (case replacement_book ct contents of
               None \<Rightarrow> failed
             | Some replacement \<Rightarrow>
                 (ContactStoreResult.Ok,
                  store\<lparr>st_baseline := (case contents of None \<Rightarrow> [] | Some bytes \<Rightarrow> bytes),
                        st_existed := contents \<noteq> None, st_loaded := True\<rparr>,
                  fst (book_swap book replacement))))"

text \<open>The loop that looks for a free temporary name.\<close>

fun create_temp :: "(nat \<Rightarrow> TempFile) \<Rightarrow> nat \<Rightarrow> nat \<Rightarrow> TempFile" where
  "create_temp calls attempt 0 = TempFile.Exists"
| "create_temp calls attempt (Suc n) =
     (case calls attempt of
        TempFile.Exists \<Rightarrow> create_temp calls (Suc attempt) n
      | TempFile.Created \<Rightarrow> TempFile.Created
      | TempFile.Failed \<Rightarrow> TempFile.Failed)"

definition store_save ::
    "wctype \<Rightarrow> FileCalls \<Rightarrow> string option \<Rightarrow> ContactStore \<Rightarrow> ContactBook \<Rightarrow>
     ContactStoreResult \<times> ContactStore \<times> string option" where
  "store_save ct calls disk store book =
     (let failed = (ContactStoreResult.Error, store, disk) in
      if \<not> st_loaded store then failed
      else case encode_contact_backup ct book of
          None \<Rightarrow> failed
        | Some bytes \<Rightarrow>
            if length bytes > contact_backup_limit then failed
            else if \<not> fc_create_directory calls then failed
            else if fc_directory calls \<noteq> Directory.Ordinary then failed
            else if \<not> fc_lock calls then failed
            else (case read_file calls disk of
                None \<Rightarrow> failed
              | Some current \<Rightarrow>
                  if (current \<noteq> None) \<noteq> st_existed store \<or>
                     (case current of None \<Rightarrow> [] | Some b \<Rightarrow> b) \<noteq> st_baseline store
                  then (ContactStoreResult.Conflict, store, disk)
                  else if create_temp (fc_temp calls) 0 128 \<noteq> TempFile.Created then failed
                  else if \<not> fc_write calls then failed
                  else if \<not> fc_move calls then failed
                  else (ContactStoreResult.Ok,
                        store\<lparr>st_baseline := bytes, st_existed := True\<rparr>, Some bytes)))"

section \<open>Importing\<close>

datatype ContactTransferStatus = Cancelled | Ok | Invalid | Conflict | Error

record ContactTransferResult =
  tr_status :: ContactTransferStatus
  tr_added :: nat
  tr_skipped :: nat

definition transfer :: "ContactTransferStatus \<Rightarrow> ContactTransferResult" where
  "transfer status = \<lparr>tr_status = status, tr_added = 0, tr_skipped = 0\<rparr>"

fun import_drafts ::
    "wctype \<Rightarrow> ContactBook \<Rightarrow> nat \<Rightarrow> nat \<Rightarrow> ContactDraft list \<Rightarrow>
     ContactTransferStatus + (ContactBook \<times> nat \<times> nat)" where
  "import_drafts ct candidate added skipped [] = Inr (candidate, added, skipped)"
| "import_drafts ct candidate added skipped (draft # drafts) =
     (case book_add ct candidate draft of
        (result, candidate') \<Rightarrow>
          if result = ContactResult.Ok then import_drafts ct candidate' (added + 1) skipped drafts
          else if result = ContactResult.Duplicate then import_drafts ct candidate' added (skipped + 1) drafts
          else Inl (if result = ContactResult.Error then ContactTransferStatus.Error
                    else ContactTransferStatus.Invalid))"

datatype Choice = Confirmed | Dismissed | Broken

text \<open>What the dialogs of an import answer: whether the owner window is alive at its three
  checks, the selection and its error, the bytes of the file when they could be read, the choice.\<close>

record ImportDialogs =
  im_alive_before :: bool
  im_alive_selected :: bool
  im_alive_confirmed :: bool
  im_selected :: bool
  im_dialog_error :: bool
  im_bytes :: "string option"
  im_choice :: Choice

definition import_contacts ::
    "wctype \<Rightarrow> ImportDialogs \<Rightarrow> FileCalls \<Rightarrow> string option \<Rightarrow> ContactBook \<Rightarrow> ContactBook \<Rightarrow> ContactStore \<Rightarrow>
     ContactTransferResult \<times> ContactBook \<times> ContactStore \<times> string option" where
  "import_contacts ct dialogs calls disk current output store =
     (let stop = (\<lambda>status. (transfer status, output, store, disk)) in
      if \<not> im_alive_before dialogs then stop ContactTransferStatus.Cancelled
      else if \<not> im_alive_selected dialogs then stop ContactTransferStatus.Cancelled
      else if \<not> im_selected dialogs
      then stop (if im_dialog_error dialogs then ContactTransferStatus.Error else ContactTransferStatus.Cancelled)
      else case im_bytes dialogs of
          None \<Rightarrow> stop ContactTransferStatus.Error
        | Some bytes \<Rightarrow>
            (case decode_contact_backup ct bytes of
               None \<Rightarrow> stop ContactTransferStatus.Invalid
             | Some drafts \<Rightarrow>
                 (case import_drafts ct current 0 0 drafts of
                    Inl status \<Rightarrow> stop status
                  | Inr (candidate, added, skipped) \<Rightarrow>
                      if \<not> im_alive_confirmed dialogs then stop ContactTransferStatus.Cancelled
                      else if im_choice dialogs \<noteq> Choice.Confirmed
                      then stop (if im_choice dialogs = Choice.Broken then ContactTransferStatus.Error
                                 else ContactTransferStatus.Cancelled)
                      else
                        let (saved, store', disk') =
                          (if added \<noteq> 0 then store_save ct calls disk store candidate
                           else (ContactStoreResult.Ok, store, disk))
                        in if saved \<noteq> ContactStoreResult.Ok
                           then (transfer (if saved = ContactStoreResult.Conflict then ContactTransferStatus.Conflict
                                           else ContactTransferStatus.Error), output, store', disk')
                           else (\<lparr>tr_status = ContactTransferStatus.Ok, tr_added = added, tr_skipped = skipped\<rparr>,
                                 fst (book_swap output candidate), store', disk'))))"

section \<open>Loading what the format accepts\<close>

lemma add_all_valid:
  assumes "book_inv ct b" and "\<forall>d \<in> set ds. valid_contact_draft ct d"
    and "distinct (map co_destination (cb_items b) @ map dr_destination ds)"
    and "length (cb_items b) + length ds \<le> book_capacity"
    and "cb_next_id b \<noteq> 0" "unat (cb_next_id b) + length ds < 2 ^ 64"
  shows "\<exists>b'. add_all ct b ds = Some b' \<and> map draft_of (cb_items b') = map draft_of (cb_items b) @ ds"
  using assms
proof (induction ds arbitrary: b)
  case (Cons d ds)
  let ?b = "\<lparr>cb_items = cb_items b @ [contact_of (cb_next_id b) d], cb_next_id = cb_next_id b + 1\<rparr>"
  have a: "book_add ct b d = (ContactResult.Ok, ?b)"
    using Cons.prems by (auto simp: book_add_def valid_contact_draft_def image_iff)
  have n: "unat (cb_next_id b + 1) = unat (cb_next_id b) + 1"
    using Cons.prems(6) by (simp add: unat_word_ariths)
  have "book_inv ct ?b" using book_add_inv [OF Cons.prems(1), of d] a by simp
  moreover have "cb_next_id ?b \<noteq> 0" using n by (metis ContactBook.select_convs(2) add_is_0 one_neq_zero unat_0)
  ultimately have "\<exists>b'. add_all ct ?b ds = Some b' \<and> map draft_of (cb_items b') = map draft_of (cb_items ?b) @ ds"
    using Cons.prems n by (intro Cons.IH) auto
  then show ?case using a by simp
qed simp

lemma add_all_decoded:
  assumes "decode_contact_backup ct bytes = Some ds"
  shows "\<exists>b. add_all ct empty_book ds = Some b \<and> map draft_of (cb_items b) = ds"
proof -
  have "length ds \<le> 500" using decode_sound(2) [OF assms] by (simp add: book_capacity_def)
  then have "\<exists>b. add_all ct empty_book ds = Some b \<and>
      map draft_of (cb_items b) = map draft_of (cb_items empty_book) @ ds"
    using decode_sound [OF assms]
    by (intro add_all_valid book_inv_empty) (auto simp: empty_book_def)
  then show ?thesis by (simp add: empty_book_def)
qed

text \<open>The calls an undisturbed load needs.\<close>

definition undisturbed :: "FileCalls \<Rightarrow> bool" where
  "undisturbed calls \<longleftrightarrow> fc_directory calls = Directory.Ordinary \<and> fc_open calls \<and> fc_ordinary calls \<and> fc_read calls"

lemma load_saved:
  assumes "book_inv ct b" and "encode_contact_backup ct b = Some bytes"
    and "undisturbed calls" and "st_path store \<noteq> []"
  shows "fst (store_load ct calls (Some bytes) store old) = ContactStoreResult.Ok \<and>
    map draft_of (cb_items (snd (snd (store_load ct calls (Some bytes) store old)))) = map draft_of (cb_items b)"
proof -
  have d: "decode_contact_backup ct bytes = Some (map draft_of (cb_items b))"
    using decode_encoded [OF assms(1,2)] .
  obtain b' where b': "add_all ct empty_book (map draft_of (cb_items b)) = Some b'"
    "map draft_of (cb_items b') = map draft_of (cb_items b)"
    using add_all_decoded [OF d] by blast
  have "read_file calls (Some bytes) = Some (Some bytes)"
    using assms(3) encode_limit [OF assms(2)] by (auto simp: read_file_def undisturbed_def)
  then show ?thesis
    using assms(3,4) d b' by (simp add: store_load_def Let_def undisturbed_def replacement_book_def book_swap_def)
qed

section \<open>Several instances on one file\<close>

text \<open>What a store believes the file holds.\<close>

definition store_view :: "ContactStore \<Rightarrow> string option" where
  "store_view store = (if st_existed store then Some (st_baseline store) else None)"

definition store_wf :: "ContactStore \<Rightarrow> bool" where
  "store_wf store \<longleftrightarrow> (\<not> st_existed store \<longrightarrow> st_baseline store = [])"

datatype StoreEvent =
    LoadBy nat FileCalls
  | SaveBy nat ContactBook FileCalls
  | Foreign "string option"

record StoreWorld =
  sw_disk :: "string option"
  sw_stores :: "nat \<Rightarrow> ContactStore"
  sw_books :: "nat \<Rightarrow> ContactBook"

fun store_step :: "wctype \<Rightarrow> StoreWorld \<Rightarrow> StoreEvent \<Rightarrow> StoreWorld" where
  "store_step ct w (LoadBy i calls) =
     (case store_load ct calls (sw_disk w) (sw_stores w i) (sw_books w i) of
        (r, store, book) \<Rightarrow> w\<lparr>sw_stores := (sw_stores w)(i := store), sw_books := (sw_books w)(i := book)\<rparr>)"
| "store_step ct w (SaveBy i book calls) =
     (case store_save ct calls (sw_disk w) (sw_stores w i) book of
        (r, store, disk) \<Rightarrow> w\<lparr>sw_disk := disk, sw_stores := (sw_stores w)(i := store)\<rparr>)"
| "store_step ct w (Foreign disk) = w\<lparr>sw_disk := disk\<rparr>"

definition start_world :: "wstr \<Rightarrow> string option \<Rightarrow> StoreWorld" where
  "start_world path disk =
     \<lparr>sw_disk = disk, sw_stores = (\<lambda>i. new_store path None), sw_books = (\<lambda>i. empty_book)\<rparr>"

definition store_run :: "wctype \<Rightarrow> wstr \<Rightarrow> string option \<Rightarrow> StoreEvent list \<Rightarrow> StoreWorld" where
  "store_run ct path disk es = foldl (store_step ct) (start_world path disk) es"

text \<open>What instance \<open>i\<close> last agreed on with the file: the contents it last loaded or wrote. A failed load
  leaves it without any.\<close>

definition agreed_step :: "wctype \<Rightarrow> nat \<Rightarrow> StoreWorld \<Rightarrow> StoreEvent \<Rightarrow> string option option \<Rightarrow> string option option" where
  "agreed_step ct i w e a =
     (case e of
        LoadBy j calls \<Rightarrow>
          (if j \<noteq> i then a
           else if fst (store_load ct calls (sw_disk w) (sw_stores w j) (sw_books w j)) = ContactStoreResult.Ok
           then Some (sw_disk w) else None)
      | SaveBy j book calls \<Rightarrow>
          (if j = i \<and> fst (store_save ct calls (sw_disk w) (sw_stores w j) book) = ContactStoreResult.Ok
           then Some (sw_disk (store_step ct w e)) else a)
      | Foreign disk \<Rightarrow> a)"

definition agreed_run :: "wctype \<Rightarrow> nat \<Rightarrow> wstr \<Rightarrow> string option \<Rightarrow> StoreEvent list \<Rightarrow> string option option" where
  "agreed_run ct i path disk es =
     snd (foldl (\<lambda>(w, a) e. (store_step ct w e, agreed_step ct i w e a)) (start_world path disk, None) es)"

lemma store_run_snoc: "store_run ct path disk (es @ [e]) = store_step ct (store_run ct path disk es) e"
  by (simp add: store_run_def)

lemma agreed_run_fst:
  "fst (foldl (\<lambda>(w, a) e. (store_step ct w e, agreed_step ct i w e a)) (w0, a0) es) =
    foldl (store_step ct) w0 es"
  by (induction es arbitrary: w0 a0) auto

lemma agreed_run_snoc:
  "agreed_run ct i path disk (es @ [e]) = agreed_step ct i (store_run ct path disk es) e (agreed_run ct i path disk es)"
  by (simp add: agreed_run_def store_run_def case_prod_beta agreed_run_fst)

lemma read_file_contents: "read_file calls disk = Some contents \<Longrightarrow> contents = disk"
  by (auto simp: read_file_def split: if_splits option.splits)

lemma store_load_cases:
  assumes "store_load ct calls disk store book = (r, store', book')" and "store_wf store"
  shows "r = ContactStoreResult.Ok \<and> st_loaded store' \<and> store_wf store' \<and> store_view store' = disk \<or>
    r = ContactStoreResult.Error \<and> \<not> st_loaded store' \<and> store_wf store' \<and> book' = book"
  using assms
  by (auto simp: store_load_def Let_def store_wf_def store_view_def dest!: read_file_contents
      split: if_splits option.splits)

lemma store_save_cases:
  assumes "store_save ct calls disk store book = (r, store', disk')" and "store_wf store"
  shows "r = ContactStoreResult.Ok \<and> st_loaded store \<and> st_loaded store' \<and> store_wf store' \<and> store_view store = disk \<and>
      store_view store' = disk' \<and> (\<exists>bytes. disk' = Some bytes \<and> encode_contact_backup ct book = Some bytes) \<or>
    r = ContactStoreResult.Conflict \<and> st_loaded store \<and> store' = store \<and> disk' = disk \<and> store_view store \<noteq> disk \<or>
    r = ContactStoreResult.Error \<and> store' = store \<and> disk' = disk"
  using assms
  by (auto simp: store_save_def Let_def store_wf_def store_view_def dest!: read_file_contents
      split: if_splits option.splits)

text \<open>A loaded store's baseline is the contents it last agreed on.\<close>

lemma store_view_agreed:
  "store_wf (sw_stores (store_run ct path disk es) i) \<and>
   agreed_run ct i path disk es =
     (if st_loaded (sw_stores (store_run ct path disk es) i)
      then Some (store_view (sw_stores (store_run ct path disk es) i)) else None)"
proof (induction es rule: rev_induct)
  case Nil
  then show ?case
    by (simp add: store_run_def agreed_run_def start_world_def new_store_def store_wf_def)
next
  case (snoc e es)
  let ?w = "store_run ct path disk es"
  have wf: "store_wf (sw_stores ?w i)" using snoc by simp
  show ?case
  proof (cases e)
    case (LoadBy j calls)
    obtain r store' book' where l: "store_load ct calls (sw_disk ?w) (sw_stores ?w j) (sw_books ?w j) = (r, store', book')"
      by (metis prod_cases3)
    show ?thesis
    proof (cases "j = i")
      case True
      then show ?thesis
        using store_load_cases [OF l] wf l
        by (auto simp: LoadBy store_run_snoc agreed_run_snoc agreed_step_def)
    qed (use snoc l in \<open>simp add: LoadBy store_run_snoc agreed_run_snoc agreed_step_def\<close>)
  next
    case (SaveBy j book calls)
    obtain r store' disk' where l: "store_save ct calls (sw_disk ?w) (sw_stores ?w j) book = (r, store', disk')"
      by (metis prod_cases3)
    show ?thesis
    proof (cases "j = i")
      case True
      then show ?thesis
        using store_save_cases [OF l] snoc wf l
        by (auto simp: SaveBy store_run_snoc agreed_run_snoc agreed_step_def)
    qed (use snoc l in \<open>simp add: SaveBy store_run_snoc agreed_run_snoc agreed_step_def\<close>)
  next
    case (Foreign d)
    then show ?thesis using snoc by (simp add: store_run_snoc agreed_run_snoc agreed_step_def)
  qed
qed

section \<open>The import adds or does nothing\<close>

lemma import_drafts_book:
  "import_drafts ct b added skipped ds = Inr (b', added', skipped') \<Longrightarrow> book_inv ct b \<Longrightarrow>
     book_inv ct b' \<and> (\<exists>new. cb_items b' = cb_items b @ new \<and> added' = added + length new) \<and>
     added' + skipped' = added + skipped + length ds \<and>
     co_destination ` set (cb_items b') = co_destination ` set (cb_items b) \<union> dr_destination ` set ds"
proof (induction ds arbitrary: b added skipped)
  case (Cons d ds)
  obtain r b1 where a: "book_add ct b d = (r, b1)" by force
  have inv1: "book_inv ct b1" using book_add_inv [OF Cons.prems(2), of d] a by simp
  consider "r = ContactResult.Ok" "import_drafts ct b1 (added + 1) skipped ds = Inr (b', added', skipped')"
    | "r = ContactResult.Duplicate" "import_drafts ct b1 added (skipped + 1) ds = Inr (b', added', skipped')"
    using Cons.prems(1) a by (auto split: if_splits)
  then show ?case
  proof cases
    case 1
    then have "cb_items b1 = cb_items b @ [contact_of (cb_next_id b) d]"
      using a by (auto simp: book_add_def split: if_splits)
    then show ?thesis using Cons.IH [OF 1(2) inv1] by auto
  next
    case 2
    then obtain c where "b1 = b" "c \<in> set (cb_items b)" "dr_destination d = co_destination c"
      using a by (auto simp: book_add_def split: if_splits)
    then have "b1 = b" "dr_destination d \<in> co_destination ` set (cb_items b)" by simp_all
    then show ?thesis using Cons.IH [OF 2(2) inv1] by auto
  qed
qed simp

section \<open>Properties\<close>

text \<open>
  C27. A save never overwrites what the instance has not seen. After any sequence of loads and
  saves of any number of instances on one file, in between which the file may be changed from
  outside, whatever the Windows calls answer: a save that reports \<open>Ok\<close> replaced exactly the contents
  its instance had last loaded or written, by the whole encoded book; \<open>Conflict\<close> is reported only
  when the file differs from them; and without \<open>Ok\<close> the file is unchanged.
\<close>

theorem saves_never_lose_updates:
  assumes "w = store_run ct path disk es"
    and "store_save ct calls (sw_disk w) (sw_stores w i) book = (r, store', disk')"
  shows "(r = ContactStoreResult.Ok \<longrightarrow> agreed_run ct i path disk es = Some (sw_disk w) \<and>
      disk' = encode_contact_backup ct book \<and> disk' \<noteq> None) \<and>
    (r = ContactStoreResult.Conflict \<longrightarrow> agreed_run ct i path disk es \<notin> {None, Some (sw_disk w)}) \<and>
    (r \<noteq> ContactStoreResult.Ok \<longrightarrow> disk' = sw_disk w)"
  using store_view_agreed [of ct path disk es i] store_save_cases [OF assms(2)] assms(1) by auto

definition quiet_calls :: FileCalls where
  "quiet_calls = \<lparr>fc_create_directory = True, fc_directory = Directory.Ordinary, fc_lock = True,
     fc_open = True, fc_ordinary = True, fc_read = True,
     fc_temp = (\<lambda>attempt. if attempt = 0 then TempFile.Exists else TempFile.Created),
     fc_write = True, fc_move = True\<rparr>"

text \<open>Two instances load, the first saves, the second must not.\<close>

theorem saves_never_lose_updates_witness:
  "let w = store_run c_locale (W ''c'') None
       [LoadBy 0 quiet_calls, LoadBy 1 quiet_calls, SaveBy 0 (book_run c_locale [Add sample_draft]) quiet_calls]
   in fst (store_save c_locale quiet_calls (sw_disk w) (sw_stores w 1) empty_book) = ContactStoreResult.Conflict \<and>
      snd (snd (store_save c_locale quiet_calls (sw_disk w) (sw_stores w 1) empty_book)) = sw_disk w \<and> sw_disk w \<noteq> None"
proof -
  let ?es = "[LoadBy 0 quiet_calls, LoadBy 1 quiet_calls, SaveBy 0 (book_run c_locale [Add sample_draft]) quiet_calls]"
  let ?w = "store_run c_locale (W ''c'') None ?es"
  obtain r store' disk' where s: "store_save c_locale quiet_calls (sw_disk ?w) (sw_stores ?w 1) empty_book = (r, store', disk')"
    by (metis prod_cases3)
  have inv: "book_inv c_locale (book_run c_locale [Add sample_draft])" by (rule book_run_inv)
  obtain bytes where e: "encode_contact_backup c_locale (book_run c_locale [Add sample_draft]) = Some bytes"
    using encode_book [OF inv] by blast
  have lim: "\<not> contact_backup_limit < length bytes" using encode_limit [OF e] by simp
  have temp: "create_temp (fc_temp quiet_calls) 0 128 = TempFile.Created"
    by (simp add: quiet_calls_def numeral_eq_Suc)
  have p: "W ''c'' \<noteq> []" by (simp add: W_def)
  have l: "store_load c_locale quiet_calls None (new_store (W ''c'') None) empty_book =
      (ContactStoreResult.Ok, (new_store (W ''c'') None)\<lparr>st_loaded := True\<rparr>, empty_book)"
    using p by (simp add: store_load_def read_file_def quiet_calls_def replacement_book_def new_store_def
        book_swap_def empty_book_def)
  have sv: "store_save c_locale quiet_calls None ((new_store (W ''c'') None)\<lparr>st_loaded := True\<rparr>)
      (book_run c_locale [Add sample_draft]) =
      (ContactStoreResult.Ok, (new_store (W ''c'') None)\<lparr>st_loaded := True, st_baseline := bytes, st_existed := True\<rparr>, Some bytes)"
    using e lim temp by (simp add: store_save_def read_file_def new_store_def quiet_calls_def)
  have w: "sw_disk ?w = Some bytes" "sw_stores ?w 1 = (new_store (W ''c'') None)\<lparr>st_loaded := True\<rparr>"
    using l sv by (simp_all add: store_run_def start_world_def)
  obtain bytes0 where e0: "encode_contact_backup c_locale empty_book = Some bytes0"
    using encode_book [OF book_inv_empty] by blast
  have "r = ContactStoreResult.Conflict"
    using s lim encode_limit [OF e0] unfolding w
    by (simp add: store_save_def e0 read_file_def new_store_def quiet_calls_def)
  then show ?thesis
    using saves_never_lose_updates [OF refl s] s w by (simp add: Let_def)
qed

text \<open>
  C28. A saved book is restored. When a save of a book that operations can reach reports \<open>Ok\<close>, any
  instance that later loads the untouched file, with Windows calls that succeed, gets a book with the same
  contacts in the same order.
\<close>

theorem saved_book_is_restored:
  assumes "b = book_run ct ops"
    and "store_save ct calls disk store b = (ContactStoreResult.Ok, store', disk')"
    and "undisturbed calls'" and "st_path other \<noteq> []"
    and "store_load ct calls' disk' other old = (r, other', restored)"
  shows "r = ContactStoreResult.Ok \<and> map draft_of (cb_items restored) = map draft_of (cb_items b)"
proof -
  have inv: "book_inv ct b" using book_run_inv assms(1) by simp
  obtain bytes where "encode_contact_backup ct b = Some bytes" "disk' = Some bytes"
    using assms(2) by (auto simp: store_save_def Let_def split: if_splits option.splits)
  then show ?thesis using load_saved [OF inv _ assms(3,4), of bytes old] assms(5) by simp
qed

theorem saved_book_is_restored_witness:
  "\<exists>store' disk' other' restored.
     store_save c_locale quiet_calls None ((new_store (W ''c'') None)\<lparr>st_loaded := True\<rparr>)
       (book_run c_locale [Add sample_draft]) = (ContactStoreResult.Ok, store', disk') \<and>
     store_load c_locale quiet_calls disk' (new_store (W ''c'') None) empty_book =
       (ContactStoreResult.Ok, other', restored) \<and>
     map draft_of (cb_items restored) = [sample_draft]"
proof -
  let ?b = "book_run c_locale [Add sample_draft]"
  obtain bytes where e: "encode_contact_backup c_locale ?b = Some bytes"
    using encode_book [OF book_run_inv] by blast
  have lim: "\<not> contact_backup_limit < length bytes" using encode_limit [OF e] by simp
  have temp: "create_temp (fc_temp quiet_calls) 0 128 = TempFile.Created"
    by (simp add: quiet_calls_def numeral_eq_Suc)
  obtain store' where s: "store_save c_locale quiet_calls None ((new_store (W ''c'') None)\<lparr>st_loaded := True\<rparr>) ?b =
      (ContactStoreResult.Ok, store', Some bytes)"
    using e lim temp by (simp add: store_save_def read_file_def new_store_def quiet_calls_def)
  obtain r other' restored where l: "store_load c_locale quiet_calls (Some bytes) (new_store (W ''c'') None) empty_book =
      (r, other', restored)"
    by (metis prod_cases3)
  have "undisturbed quiet_calls" "st_path (new_store (W ''c'') None) \<noteq> []"
    by (simp_all add: undisturbed_def quiet_calls_def new_store_def W_def)
  then have "r = ContactStoreResult.Ok \<and> map draft_of (cb_items restored) = map draft_of (cb_items ?b)"
    using saved_book_is_restored [OF refl s _ _ l] by simp
  moreover have "map draft_of (cb_items ?b) = [sample_draft]" by code_simp
  ultimately show ?thesis using s l by auto
qed

end
