(* ===== verification/Native_Account.thy ===== *)
theory Native_Account
  imports Sip_Address
begin

text \<open>
  What the native engine is given: audio routes (\<open>audio_devices.h\<close>,
  \<open>audio_selection_feedback.h\<close>, \<open>native_audio_routes.h\<close>), the account and its configuration file
  (\<open>native_account_config.h\<close>), call destinations (\<open>native_account_config.h\<close>,
  \<open>native_destination_result.h\<close>, \<open>native_destination_feedback.h\<close>) and transfer destinations
  (\<open>native_transfer.h\<close>).
\<close>

section \<open>Audio devices and routes\<close>

datatype AudioInventoryError =
  NoInventoryError | ComInitializationFailed | EnumeratorUnavailable | EndpointQueryFailed

record AudioEndpoint =
  ae_id :: wstr
  ae_name :: wstr
  ae_default_communications :: bool
  ae_default_multimedia :: bool

record AudioInventory =
  ai_input_count :: u32
  ai_output_count :: u32
  ai_has_default_input :: bool
  ai_has_default_output :: bool
  ai_input_devices :: "AudioEndpoint list"
  ai_output_devices :: "AudioEndpoint list"
  ai_error :: AudioInventoryError

text \<open>The index loops over the devices.\<close>

fun first_index :: "('a \<Rightarrow> bool) \<Rightarrow> 'a list \<Rightarrow> nat option" where
  "first_index P [] = None"
| "first_index P (x # xs) = (if P x then Some 0 else map_option Suc (first_index P xs))"

definition preferred_audio_endpoint_index :: "AudioEndpoint list \<Rightarrow> wstr \<Rightarrow> int" where
  "preferred_audio_endpoint_index devices previous_id =
     (if devices = [] then -1
      else case (if previous_id \<noteq> [] then first_index (\<lambda>d. ae_id d = previous_id) devices else None) of
          Some i \<Rightarrow> int i
        | None \<Rightarrow>
            (case first_index ae_default_communications devices of
               Some i \<Rightarrow> int i
             | None \<Rightarrow> 0))"

definition audio_inventory_summary :: "AudioInventory \<Rightarrow> wstr" where
  "audio_inventory_summary inventory =
     (if ai_error inventory \<noteq> AudioInventoryError.NoInventoryError
      then W ''Falha ao consultar dispositivos de '' @ [0xe1] @ W ''udio do Windows.''
      else if ai_input_count inventory = 0 \<and> ai_output_count inventory = 0
      then W ''Nenhum microfone ou sa'' @ [0xed] @ W ''da de '' @ [0xe1] @ W ''udio ativa detectada.''
      else [0xc1] @ W ''udio: '' @ W (to_dec (unat (ai_input_count inventory))) @ W '' entrada(s), '' @
        W (to_dec (unat (ai_output_count inventory))) @ W '' sa'' @ [0xed] @ W ''da(s). Padr'' @ [0xe3] @
        W ''o de comunica'' @ [0xe7, 0xe3] @ W ''o: '' @
        (if ai_has_default_input inventory then W ''microfone OK'' else W ''microfone ausente'') @ W ''; '' @
        (if ai_has_default_output inventory then W ''sa'' @ [0xed] @ W ''da OK''
         else W ''sa'' @ [0xed] @ W ''da ausente'') @
        W ''. Apenas invent'' @ [0xe1] @ W ''rio; '' @ [0xe1] @ W ''udio n'' @ [0xe3] @ W ''o testado.'')"

record AudioSelectionRefresh =
  as_index :: int
  as_selected_id :: wstr
  as_replaced :: bool

definition selection_available :: "AudioSelectionRefresh \<Rightarrow> bool" where
  "selection_available s \<longleftrightarrow> as_index s \<ge> 0"

definition refresh_audio_selection :: "AudioEndpoint list \<Rightarrow> wstr \<Rightarrow> AudioSelectionRefresh" where
  "refresh_audio_selection devices previous_id =
     (let index = preferred_audio_endpoint_index devices previous_id in
      if index < 0 then \<lparr>as_index = -1, as_selected_id = [], as_replaced = False\<rparr>
      else let selected = devices ! nat index in
        \<lparr>as_index = index, as_selected_id = ae_id selected,
         as_replaced = (previous_id \<noteq> [] \<and> ae_id selected \<noteq> previous_id)\<rparr>)"

definition audio_selection_feedback :: "AudioSelectionRefresh \<Rightarrow> AudioSelectionRefresh \<Rightarrow> string" where
  "audio_selection_feedback microphone speaker =
     (if \<not> selection_available microphone \<and> \<not> selection_available speaker
      then ''Sem microfone e saida ativos. Audio SIP indisponivel.''
      else if \<not> selection_available microphone
      then ''Microfone ausente. Verifique o headset. Sem audio SIP.''
      else if \<not> selection_available speaker
      then ''Saida de audio ausente. Verifique o headset. Sem audio SIP.''
      else if as_replaced microphone \<and> as_replaced speaker
      then ''Headset alterado: entrada e saida reassociadas. Sem audio SIP.''
      else if as_replaced microphone
      then ''Microfone desconectado: nova entrada selecionada. Sem audio SIP.''
      else if as_replaced speaker
      then ''Saida desconectada: nova saida selecionada. Sem audio SIP.''
      else ''Dispositivos selecionados localmente; sem conexao com Baresip.'')"

record NativeAudioRoute =
  ar_capture :: wstr
  ar_playback :: wstr

definition default_route :: NativeAudioRoute where
  "default_route = \<lparr>ar_capture = [], ar_playback = []\<rparr>"

datatype NativeAudioRouteStatus = Ready | InvalidSelection | InventoryFailed | MissingCapture | MissingPlayback

definition ascii_lower :: "wchar \<Rightarrow> wchar" where
  "ascii_lower c = (if wc CHR ''A'' \<le> c \<and> c \<le> wc CHR ''Z'' then c + (wc CHR ''a'' - wc CHR ''A'') else c)"

text \<open>The characters no device identifier may have.\<close>

definition bad_id_char :: "wchar \<Rightarrow> bool" where
  "bad_id_char c \<longleftrightarrow> c \<le> 32 \<or> c \<ge> 127 \<or> c = wc CHR '','' \<or> c = 34 \<or> c = wc CHR ''#'' \<or> c = wc CHR '';'' \<or>
     c = 92 \<or> c = 39"

definition valid_native_audio_id :: "wstr \<Rightarrow> bool" where
  "valid_native_audio_id i =
     (if length i > 127 then False
      else if map ascii_lower i = W ''default'' then False
      else \<not> (\<exists>c \<in> set i. bad_id_char c))"

definition valid_native_audio_route :: "NativeAudioRoute \<Rightarrow> bool" where
  "valid_native_audio_route route \<longleftrightarrow>
     valid_native_audio_id (ar_capture route) \<and> valid_native_audio_id (ar_playback route)"

definition fixed_native_audio_selection :: "AudioEndpoint list \<Rightarrow> wstr \<Rightarrow> AudioSelectionRefresh" where
  "fixed_native_audio_selection devices i =
     (case first_index (\<lambda>d. if i = [] then ae_default_communications d else ae_id d = i) devices of
        Some n \<Rightarrow> \<lparr>as_index = int n, as_selected_id = i, as_replaced = False\<rparr>
      | None \<Rightarrow> \<lparr>as_index = -1, as_selected_id = i, as_replaced = False\<rparr>)"

definition native_audio_combo_index :: "AudioEndpoint list \<Rightarrow> wstr \<Rightarrow> int" where
  "native_audio_combo_index devices i =
     (if i = [] then 0
      else case first_index (\<lambda>d. ae_id d = i) devices of Some n \<Rightarrow> int n + 1 | None \<Rightarrow> -1)"

definition native_audio_route_status :: "NativeAudioRoute \<Rightarrow> AudioInventory \<Rightarrow> NativeAudioRouteStatus" where
  "native_audio_route_status route inventory =
     (if \<not> valid_native_audio_route route then NativeAudioRouteStatus.InvalidSelection
      else if ai_error inventory \<noteq> AudioInventoryError.NoInventoryError then NativeAudioRouteStatus.InventoryFailed
      else if \<not> selection_available (fixed_native_audio_selection (ai_input_devices inventory) (ar_capture route))
      then NativeAudioRouteStatus.MissingCapture
      else if \<not> selection_available (fixed_native_audio_selection (ai_output_devices inventory) (ar_playback route))
      then NativeAudioRouteStatus.MissingPlayback
      else NativeAudioRouteStatus.Ready)"

fun native_audio_route_feedback :: "NativeAudioRouteStatus \<Rightarrow> string" where
  "native_audio_route_feedback NativeAudioRouteStatus.Ready =
     ''Rota de audio disponivel; audibilidade ainda exige teste com headset.''"
| "native_audio_route_feedback NativeAudioRouteStatus.InvalidSelection =
     ''Selecao de audio invalida. Pare o motor e selecione novamente.''"
| "native_audio_route_feedback NativeAudioRouteStatus.InventoryFailed =
     ''Falha ao consultar audio. Nenhuma chamada foi iniciada/atendida.''"
| "native_audio_route_feedback NativeAudioRouteStatus.MissingCapture =
     ''Microfone selecionado indisponivel. Reconecte ou pare o motor para trocar.''"
| "native_audio_route_feedback NativeAudioRouteStatus.MissingPlayback =
     ''Saida selecionada indisponivel. Reconecte ou pare o motor para trocar.''"

section \<open>The account configuration\<close>

record NativeAccountConfig =
  nac_valid :: bool
  nac_aor :: string
  nac_config :: string

definition no_config :: NativeAccountConfig where
  "no_config = \<lparr>nac_valid = False, nac_aor = [], nac_config = []\<rparr>"

definition native_ascii :: "wstr \<Rightarrow> string" where
  "native_ascii s = (if \<exists>c \<in> set s. c < 32 \<or> c > 126 then [] else map narrow s)"

definition native_user_char :: "char \<Rightarrow> bool" where
  "native_user_char c \<longleftrightarrow> ascii_alnum (of_char c) \<or> c \<in> {CHR ''_'', CHR ''.'', CHR ''-'', CHR ''+''}"

definition newline :: string where
  "newline = [CHR 0x0A]"

definition transport_name :: "SipAccount \<Rightarrow> string" where
  "transport_name a = (if acc_use_tls a then ''tls'' else ''udp'')"

definition native_aor :: "SipAccount \<Rightarrow> string" where
  "native_aor a = ''<sip:'' @ native_ascii (acc_username a) @ ''@'' @ native_ascii (acc_server a) @ '':'' @
     to_dec (unat (acc_port a)) @ '';transport='' @ transport_name a @
     ''>;regint=0;dtmfmode=info;audio_codecs='' @ native_audio_codec_list (acc_codec_mode a)"

definition native_config :: "SipAccount \<Rightarrow> string \<Rightarrow> NativeAudioRoute \<Rightarrow> string" where
  "native_config a trust audio =
     (let capture = (if ar_capture audio = [] then ''default'' else native_ascii (ar_capture audio));
          playback = (if ar_playback audio = [] then ''default'' else native_ascii (ar_playback audio))
      in ''poll_method select'' @ newline @ ''sip_transports '' @ transport_name a @ newline @
         ''sip_verify_server yes'' @ newline @ ''audio_player wasapi,'' @ playback @ newline @
         ''audio_source wasapi,'' @ capture @ newline @ ''audio_alert wasapi,default'' @ newline @
         ''call_max_calls 1'' @ newline @
         (if acc_server a = W ''127.0.0.1'' then ''net_interface 127.0.0.1'' @ newline else []) @
         (if acc_use_tls a then ''sip_cafile '' @ trust @ newline else []))"

definition native_account_config :: "SipAccount \<Rightarrow> wstr \<Rightarrow> NativeAudioRoute \<Rightarrow> NativeAccountConfig" where
  "native_account_config a ca audio =
     (if \<not> valid_native_audio_route audio \<or> \<not> valid_native_codec_mode (acc_codec_mode a) then no_config
      else if validate_account a \<noteq> AccountError.NoAccountError \<or> length (acc_server a) > 253 \<or>
              length (acc_username a) > 128 then no_config
      else let host = native_ascii (acc_server a); user = native_ascii (acc_username a); trust = native_ascii ca in
      if host = [] \<or> user = [] then no_config
      else if \<exists>c \<in> set user. \<not> native_user_char c then no_config
      else if acc_use_tls a \<and> (trust = [] \<or> length trust > 240 \<or> CHR 0x22 \<in> set trust \<or> hd trust = CHR ''#'')
      then no_config
      else \<lparr>nac_valid = True, nac_aor = native_aor a, nac_config = native_config a trust audio\<rparr>)"

section \<open>Call destinations\<close>

datatype NativeDestinationError =
  NoDestinationError | InvalidAddress | TransportMismatch | UnsupportedCharacters | TooLong | InvalidAccount

type_synonym NativeDestinationResult = "NativeDestinationError \<times> string"

text \<open>The conversion to \<open>bool\<close>.\<close>

definition destination_ok :: "NativeDestinationResult \<Rightarrow> bool" where
  "destination_ok r \<longleftrightarrow> fst r = NativeDestinationError.NoDestinationError \<and> snd r \<noteq> []"

fun native_destination_error_message :: "NativeDestinationError \<Rightarrow> string" where
  "native_destination_error_message NativeDestinationError.NoDestinationError = []"
| "native_destination_error_message NativeDestinationError.InvalidAddress =
     ''Destino recusado: revise o ramal, usuario, dominio e porta SIP.''"
| "native_destination_error_message NativeDestinationError.TransportMismatch =
     ''Destino recusado: SIP/SIPS deve combinar com o transporte da conta. Use um ramal sem esquema ou confira TLS.''"
| "native_destination_error_message NativeDestinationError.UnsupportedCharacters =
     ''Destino recusado: use caracteres ASCII suportados, sem escapes percentuais ou parametros extras.''"
| "native_destination_error_message NativeDestinationError.TooLong =
     ''Destino recusado: a URI final deve ter no maximo512 bytes, incluindo a rota da conta.''"
| "native_destination_error_message NativeDestinationError.InvalidAccount =
     ''Destino recusado: revise a conta configurada antes de discar um ramal.''"

definition native_call_char :: "char \<Rightarrow> bool" where
  "native_call_char c \<longleftrightarrow> native_user_char c \<or> c = CHR ''*'' \<or> c = CHR ''#''"

text \<open>The end of \<open>native_call_destination_result\<close>: the checks of the finished URI.\<close>

definition checked_uri :: "string \<Rightarrow> NativeDestinationResult" where
  "checked_uri uri =
     (if length uri > 512 then (NativeDestinationError.TooLong, [])
      else let start = (if starts_with ''sips:'' uri then 5 else 4) in
      case find_idx CHR ''@'' uri of
        None \<Rightarrow> (NativeDestinationError.InvalidAddress, [])
      | Some at \<Rightarrow>
          if at \<le> start then (NativeDestinationError.InvalidAddress, [])
          else if \<exists>c \<in> set (drop start (take at uri)). \<not> native_call_char c
          then (NativeDestinationError.UnsupportedCharacters, [])
          else (NativeDestinationError.NoDestinationError, uri))"

definition routed_uri :: "SipAccount \<Rightarrow> string \<Rightarrow> string" where
  "routed_uri a dial =
     (if acc_use_tls a then ''sips:'' else ''sip:'') @ dial @ ''@'' @ native_ascii (acc_server a) @ '':'' @
     to_dec (unat (acc_port a)) @ (if acc_use_tls a then '';transport=tls'' else '';transport=udp'')"

definition native_call_destination_result :: "wctype \<Rightarrow> wstr \<Rightarrow> SipAccount \<Rightarrow> NativeDestinationResult" where
  "native_call_destination_result ct typed a =
     (if length typed > 512 then (NativeDestinationError.TooLong, [])
      else case validate_address ct typed of (error, normalized) \<Rightarrow>
      if error \<noteq> AddressError.NoAddressError then (NativeDestinationError.InvalidAddress, [])
      else let uri = native_ascii normalized in
      if uri = [] then (NativeDestinationError.UnsupportedCharacters, [])
      else let secure = starts_with ''sips:'' uri; plain = starts_with ''sip:'' uri in
      if (secure \<and> \<not> acc_use_tls a) \<or> (plain \<and> acc_use_tls a) then (NativeDestinationError.TransportMismatch, [])
      else if CHR ''@'' \<notin> set uri
      then (if \<not> nac_valid (native_account_config a (if acc_use_tls a then W ''validated-ca'' else []) default_route)
            then (NativeDestinationError.InvalidAccount, [])
            else checked_uri (routed_uri a (if secure \<or> plain then drop (if secure then 5 else 4) uri else uri)))
      else checked_uri uri)"

definition native_call_destination :: "wctype \<Rightarrow> wstr \<Rightarrow> SipAccount \<Rightarrow> string" where
  "native_call_destination ct typed a = snd (native_call_destination_result ct typed a)"

record NativeDestinationFeedback =
  ndf_error :: NativeDestinationError
  ndf_session :: u64
  ndf_call :: u64

definition new_feedback :: NativeDestinationFeedback where
  "new_feedback = \<lparr>ndf_error = NativeDestinationError.NoDestinationError, ndf_session = 0, ndf_call = 0\<rparr>"

definition feedback_clear :: "NativeDestinationFeedback \<Rightarrow> NativeDestinationFeedback" where
  "feedback_clear f = f\<lparr>ndf_error := NativeDestinationError.NoDestinationError\<rparr>"

definition feedback_record ::
    "NativeDestinationFeedback \<Rightarrow> NativeDestinationError \<Rightarrow> SipRuntimeObservation \<Rightarrow> NativeDestinationFeedback" where
  "feedback_record f error view =
     f\<lparr>ndf_error := error, ndf_session := obs_session view, ndf_call := obs_call_id view\<rparr>"

definition feedback_synchronize ::
    "NativeDestinationFeedback \<Rightarrow> SipRuntimeObservation \<Rightarrow> NativeDestinationFeedback" where
  "feedback_synchronize f view =
     (if obs_session view \<noteq> ndf_session f \<or> obs_call_id view \<noteq> ndf_call f then feedback_clear f else f)"

definition feedback_command_accepted :: "NativeDestinationFeedback \<Rightarrow> NativeDestinationFeedback" where
  "feedback_command_accepted f = feedback_clear f"

section \<open>Transfer destinations\<close>

definition bad_uri_char :: "char \<Rightarrow> bool" where
  "bad_uri_char ch \<longleftrightarrow> (let c = (of_char ch :: wchar) in
     c \<le> 32 \<or> c \<ge> 127 \<or> ch = CHR ''%'' \<or> ch = CHR ''?'' \<or> c = 34 \<or> c = 92 \<or> ch = CHR ''<'' \<or> ch = CHR ''>'')"

text \<open>The part before the parameters, and the check of the parameters.\<close>

definition transfer_base :: "string \<Rightarrow> string" where
  "transfer_base uri = (case find_idx CHR '';'' uri of None \<Rightarrow> uri | Some split \<Rightarrow> take split uri)"

definition transfer_suffix_ok :: "bool \<Rightarrow> string \<Rightarrow> bool" where
  "transfer_suffix_ok secure uri =
     (case find_idx CHR '';'' uri of
        None \<Rightarrow> True
      | Some split \<Rightarrow>
          (let suffix = drop split uri in
           if suffix \<noteq> '';transport=tls'' \<and> suffix \<noteq> '';transport=udp'' then False
           else if secure \<and> suffix \<noteq> '';transport=tls'' then False
           else True))"

definition valid_native_transfer_uri :: "wctype \<Rightarrow> string \<Rightarrow> bool" where
  "valid_native_transfer_uri ct uri =
     (if uri = [] \<or> length uri > 512 then False
      else if \<exists>c \<in> set uri. bad_uri_char c then False
      else let secure = starts_with ''sips:'' uri in
      if \<not> secure \<and> \<not> starts_with ''sip:'' uri then False
      else if \<not> transfer_suffix_ok secure uri then False
      else let base = transfer_base uri; start = (if secure then 5 else 4) in
      case find_idx CHR ''@'' base of
        None \<Rightarrow> False
      | Some at \<Rightarrow>
          if at \<le> start then False
          else if \<exists>c \<in> set (drop start (take at base)). \<not> native_call_char c then False
          else validate_address ct (W base) = (AddressError.NoAddressError, W base))"

definition native_transfer_destination_result :: "wctype \<Rightarrow> wstr \<Rightarrow> SipAccount \<Rightarrow> NativeDestinationResult" where
  "native_transfer_destination_result ct typed account =
     (let result = native_call_destination_result ct typed account in
      if \<not> destination_ok result \<or> valid_native_transfer_uri ct (snd result) then result
      else (NativeDestinationError.InvalidAddress, []))"

definition native_transfer_destination :: "wctype \<Rightarrow> wstr \<Rightarrow> SipAccount \<Rightarrow> string" where
  "native_transfer_destination ct typed account = snd (native_transfer_destination_result ct typed account)"

section \<open>Characters of a URI\<close>

text \<open>Characters by their codes.\<close>

lemma char_code: "(of_char c :: wchar) = k \<longleftrightarrow> (of_char c :: nat) = unat k"
  by (simp add: word_unat_eq_iff)

lemma char_by_code: "c = d \<longleftrightarrow> (of_char c :: nat) = of_char d"
  by simp

lemma wide_member: "wc c \<in> set (W s) \<longleftrightarrow> c \<in> set s"
proof -
  have "inj wc" by (rule inj_on_inverseI [of _ narrow]) simp
  then show ?thesis by (simp only: W_def set_map inj_image_mem_iff)
qed

lemma native_user_code:
  "native_user_char c \<longleftrightarrow> (let n = (of_char c :: nat) in
     97 \<le> n \<and> n \<le> 122 \<or> 65 \<le> n \<and> n \<le> 90 \<or> 48 \<le> n \<and> n \<le> 57 \<or> n = 95 \<or> n = 46 \<or> n = 45 \<or> n = 43)"
  unfolding native_user_char_def ascii_alnum_def ascii_digit_def insert_iff empty_iff Let_def
  by (subst (1 2 3 4) char_by_code) (simp add: word_le_nat_alt del: of_char_eq_iff)

lemma native_call_code:
  "native_call_char c \<longleftrightarrow> native_user_char c \<or> (of_char c :: nat) = 42 \<or> (of_char c :: nat) = 35"
  unfolding native_call_char_def by (subst (1 2) char_by_code) (simp del: of_char_eq_iff)

text \<open>The characters of scheme, user, host and port.\<close>

definition plain_char :: "char \<Rightarrow> bool" where
  "plain_char c \<longleftrightarrow> native_call_char c \<or> c = CHR '':'' \<or> c = CHR ''@''"

lemma plain_char_code:
  "plain_char c \<longleftrightarrow> native_call_char c \<or> (of_char c :: nat) = 58 \<or> (of_char c :: nat) = 64"
  unfolding plain_char_def by (subst (1 2) char_by_code) (simp del: of_char_eq_iff)

lemma bad_uri_code:
  "bad_uri_char c \<longleftrightarrow> (let n = (of_char c :: nat) in
     n \<le> 32 \<or> n \<ge> 127 \<or> n = 37 \<or> n = 63 \<or> n = 34 \<or> n = 92 \<or> n = 60 \<or> n = 62)"
  unfolding bad_uri_char_def Let_def
  by (subst (1 2 3 4) char_by_code) (simp add: char_code word_le_nat_alt del: of_char_eq_iff)

lemma reserved_code:
  "reserved_char (of_char c) \<longleftrightarrow> (of_char c :: nat) \<in> {60, 62, 92, 34, 63, 59}"
  by (simp add: reserved_char_def W_def char_code)

lemma plain_char_facts:
  assumes "plain_char c"
  shows "\<not> bad_uri_char c" "c \<noteq> CHR '';''" "32 < (of_char c :: wchar)" "(of_char c :: wchar) < 127"
    "\<not> reserved_char (of_char c)"
proof -
  have n: "(of_char c :: nat) \<in> {97..122} \<union> {65..90} \<union> {48..58} \<union> {95, 46, 45, 43, 42, 35, 64}"
    using assms by (auto simp: plain_char_code native_call_code native_user_code Let_def)
  then have "(of_char c :: nat) \<noteq> of_char CHR '';''" by auto
  then show "c \<noteq> CHR '';''" by blast
  show "\<not> bad_uri_char c" "32 < (of_char c :: wchar)" "(of_char c :: wchar) < 127" "\<not> reserved_char (of_char c)"
    using n by (auto simp: bad_uri_code reserved_code Let_def word_less_nat_alt)
qed

lemma printable_ctype:
  assumes "ascii_ctype ct" and "32 < w" "w < 127"
  shows "\<not> ct_space ct w \<and> \<not> ct_cntrl ct w"
proof -
  have n: "32 < unat w" "unat w < 127" using assms(2,3) by (simp_all add: word_less_nat_alt)
  then have "w < 128" "w \<noteq> 32" "w \<noteq> 127" by (auto simp: word_less_nat_alt)
  then show ?thesis using assms(1) n by (auto simp: ascii_ctype_def word_less_nat_alt word_le_nat_alt)
qed

lemma plain_char_ctype:
  "ascii_ctype ct \<Longrightarrow> plain_char c \<Longrightarrow> \<not> ct_space ct (of_char c) \<and> \<not> ct_cntrl ct (of_char c)"
  using plain_char_facts [of c] by (intro printable_ctype) blast+

lemma host_port_wide:
  "host_port s \<Longrightarrow> c \<in> set s \<Longrightarrow>
     ascii_alnum c \<or> c = wc CHR ''-'' \<or> c = wc CHR ''.'' \<or> c = wc CHR '':''"
  unfolding host_port_def valid_port_text_def
  using valid_sip_host_chars ascii_digit_alnum by (metis Un_iff set_ConsD set_append)

lemma host_port_chars:
  assumes "host_port (W hp)" and "c \<in> set hp"
  shows "plain_char c \<and> c \<noteq> CHR ''@''"
proof -
  have "of_char c \<in> set (W hp)" using assms(2) by (simp add: W_def)
  note h = host_port_wide [OF assms(1) this]
  have n: "(of_char c :: nat) \<in> {97..122} \<union> {65..90} \<union> {48..58} \<union> {46, 45}"
    using h by (auto simp: ascii_alnum_def ascii_digit_def char_code word_le_nat_alt)
  then have "(of_char c :: nat) \<noteq> of_char CHR ''@''" by auto
  then have "c \<noteq> CHR ''@''" by blast
  moreover have "plain_char c"
    using n by (auto simp: plain_char_code native_call_code native_user_code Let_def)
  ultimately show ?thesis by simp
qed

section \<open>Transfers accept what calls accept\<close>

lemma valid_transfer_parts:
  assumes "ascii_ctype ct" and "scheme = ''sip'' \<or> scheme = ''sips''" and "user \<noteq> []"
    and user: "\<forall>c \<in> set user. native_call_char c" and hp: "host_port (W hp)"
    and suffix: "suffix = [] \<or> suffix = '';transport=tls'' \<or> suffix = '';transport=udp''"
    and tls: "scheme = ''sips'' \<Longrightarrow> suffix \<noteq> '';transport=udp''"
    and len: "length (scheme @ CHR '':'' # user @ CHR ''@'' # hp @ suffix) \<le> 512"
  shows "valid_native_transfer_uri ct (scheme @ CHR '':'' # user @ CHR ''@'' # hp @ suffix)"
proof -
  let ?base = "scheme @ CHR '':'' # user @ CHR ''@'' # hp"
  let ?uri = "?base @ suffix"
  have sch: "\<forall>c \<in> set scheme. plain_char c \<and> c \<noteq> CHR ''@''"
    using assms(2) by (auto simp: plain_char_code native_call_code native_user_code Let_def)
  have no_at: "CHR ''@'' \<notin> set user"
    using user by (auto simp: native_call_code native_user_code Let_def)
  have plain: "\<forall>c \<in> set ?base. plain_char c"
    using sch user host_port_chars [OF hp] by (auto simp: plain_char_def)
  have "\<forall>c \<in> set suffix. \<not> bad_uri_char c" using suffix by (auto simp: bad_uri_code Let_def)
  then have bad: "\<not> (\<exists>c \<in> set ?uri. bad_uri_char c)" using plain plain_char_facts by auto
  have semi: "CHR '';'' \<notin> set ?base" using plain plain_char_facts(2) by blast
  have split: "find_idx CHR '';'' ?uri = (if suffix = [] then None else Some (length ?base))"
  proof (cases "suffix = []")
    case False
    then obtain s where "suffix = CHR '';'' # s" using suffix by auto
    then show ?thesis using find_idx_append_first [OF semi, of s] by simp
  qed (use semi in simp)
  have at: "find_idx CHR ''@'' ?base = Some (length (scheme @ CHR '':'' # user))"
    using find_idx_append_first [of "CHR ''@''" "scheme @ CHR '':'' # user" hp] sch no_at by auto
  have secure: "starts_with ''sips:'' ?uri \<longleftrightarrow> scheme = ''sips''" "scheme = ''sip'' \<Longrightarrow> starts_with ''sip:'' ?uri"
    using assms(2) by (auto simp: starts_with_def)
  have start: "(if scheme = ''sips'' then 5 else 4) = length scheme + 1" using assms(2) by auto
  have "\<forall>c \<in> set (W (user @ CHR ''@'' # hp)). \<not> reserved_char c"
  proof
    fix c assume "c \<in> set (W (user @ CHR ''@'' # hp))"
    then obtain d where "d \<in> set (user @ CHR ''@'' # hp)" "c = of_char d" by (auto simp only: W_def wc_def set_map)
    then show "\<not> reserved_char c" using plain plain_char_facts(5) [of d] by auto
  qed
  moreover have "wc CHR ''@'' \<notin> set (W user)" unfolding wide_member by (rule no_at)
  moreover have "wc CHR ''@'' \<notin> set (W hp)" unfolding wide_member using host_port_chars [OF hp] by blast
  moreover have "W (user @ CHR ''@'' # hp) = W user @ wc CHR ''@'' # W hp" "W user \<noteq> []"
    using assms(3) by (simp_all add: W_def)
  ultimately have "target_ok ct (W (user @ CHR ''@'' # hp))"
    unfolding target_ok_def using hp by auto
  moreover have "W ?base = W scheme @ wc CHR '':'' # W (user @ CHR ''@'' # hp)" by (simp add: W_def)
  moreover have "\<forall>c \<in> set (W ?base). \<not> ct_space ct c \<and> \<not> ct_cntrl ct c"
  proof
    fix c assume "c \<in> set (W ?base)"
    then obtain d where "d \<in> set ?base" "c = of_char d" by (auto simp only: W_def wc_def set_map)
    then show "\<not> ct_space ct c \<and> \<not> ct_cntrl ct c" using plain plain_char_ctype [OF assms(1), of d] by blast
  qed
  ultimately have "address_shape ct (W ?base)"
    using assms(2) unfolding address_shape_def by metis
  then have valid: "validate_address ct (W ?base) = (AddressError.NoAddressError, W ?base)"
    by (rule validate_address_shape)
  have base: "transfer_base ?uri = ?base" unfolding transfer_base_def split by simp
  have parts: "\<not> length (scheme @ CHR '':'' # user) \<le> length scheme + 1"
    "drop (length scheme + 1) (take (length (scheme @ CHR '':'' # user)) ?base) = user"
    using assms(3) by simp_all
  have suf: "transfer_suffix_ok (scheme = ''sips'') ?uri"
    unfolding transfer_suffix_ok_def split using suffix tls by (auto simp: Let_def)
  have "\<not> (\<exists>c \<in> set user. \<not> native_call_char c)" "?uri \<noteq> []" "\<not> 512 < length ?uri"
    "\<not> (scheme \<noteq> ''sips'' \<and> \<not> starts_with ''sip:'' ?uri)"
    using user len secure(2) assms(2) by auto
  then have "valid_native_transfer_uri ct ?uri"
    unfolding valid_native_transfer_uri_def secure Let_def base start at option.case
    using bad suf parts valid by (simp only: simp_thms if_False if_True)
  then show ?thesis by simp
qed

lemma sip_schemes:
  "scheme = ''sip'' \<or> scheme = ''sips'' \<Longrightarrow> starts_with ''sips:'' (scheme @ CHR '':'' # s) \<longleftrightarrow> scheme = ''sips''"
  by (auto simp: starts_with_def)

lemma checked_uri_parts:
  assumes "scheme = ''sip'' \<or> scheme = ''sips''" and "CHR ''@'' \<notin> set user"
    and ok: "fst (checked_uri (scheme @ CHR '':'' # user @ CHR ''@'' # rest)) = NativeDestinationError.NoDestinationError"
  shows "user \<noteq> []" "\<forall>c \<in> set user. native_call_char c"
    "length (scheme @ CHR '':'' # user @ CHR ''@'' # rest) \<le> 512"
proof -
  let ?uri = "scheme @ CHR '':'' # user @ CHR ''@'' # rest"
  have "CHR ''@'' \<notin> set (scheme @ CHR '':'' # user)" using assms(1,2) by auto
  then have at: "find_idx CHR ''@'' ?uri = Some (length (scheme @ CHR '':'' # user))"
    using find_idx_append_first [of "CHR ''@''" "scheme @ CHR '':'' # user" rest] by simp
  have start: "(if scheme = ''sips'' then 5 else 4) = length scheme + 1" using assms(1) by auto
  have user: "drop (length scheme + 1) (take (length (scheme @ CHR '':'' # user)) ?uri) = user" by simp
  have l: "length ?uri \<le> 512" using ok by (auto simp: checked_uri_def split: if_splits)
  then have "\<not> length (scheme @ CHR '':'' # user) \<le> length scheme + 1 \<and>
      \<not> (\<exists>c \<in> set (drop (length scheme + 1) (take (length (scheme @ CHR '':'' # user)) ?uri)). \<not> native_call_char c)"
    using ok unfolding checked_uri_def at option.case Let_def sip_schemes [OF assms(1)] start
    by (auto split: if_splits)
  then show "user \<noteq> []" "\<forall>c \<in> set user. native_call_char c" unfolding user by auto
  show "length ?uri \<le> 512" by (rule l)
qed

lemma checked_uri_snd:
  "fst (checked_uri uri) = NativeDestinationError.NoDestinationError \<Longrightarrow> snd (checked_uri uri) = uri"
  by (cases "find_idx CHR ''@'' uri") (auto simp: checked_uri_def Let_def simp del: find_idx_None split: if_splits)

lemma native_ascii_wide: "native_ascii s \<noteq> [] \<Longrightarrow> W (native_ascii s) = s \<and> native_ascii s = map narrow s"
proof -
  assume "native_ascii s \<noteq> []"
  then have "\<forall>c \<in> set s. c \<le> 126" and e: "native_ascii s = map narrow s"
    by (auto simp: native_ascii_def split: if_splits)
  then have "\<forall>c \<in> set s. c < 256" by (auto simp: word_le_nat_alt word_less_nat_alt)
  then have "W (map narrow s) = s" by (simp add: W_def map_idI)
  then show ?thesis using e by simp
qed

lemma map_narrow_W: "map narrow (W s) = s"
  by (simp add: W_def comp_def)

lemma W_Cons: "W (c # s) = wc c # W s"
  by (simp add: W_def)

lemma port_text:
  fixes p :: "16 word"
  assumes "p \<noteq> 0"
  shows "valid_port_text (W (to_dec (unat p)))"
proof -
  have n: "unat p \<noteq> 0" "unat p \<le> 65535" using assms unsigned_less [where w = p and ?'a = nat] by (auto simp: unat_eq_zero)
  have step: "dec_digit c \<Longrightarrow> m * 10 + unat (of_char c - 48 :: wchar) = dec_step m c" for c m
    by (simp add: dec_step_def dec_digit_def unat_sub word_le_nat_alt)
  have fold: "\<forall>c \<in> set s. dec_digit c \<Longrightarrow>
      foldl (\<lambda>n c. n * 10 + unat (c - wc CHR ''0'')) m (W s) = foldl dec_step m s" for s m
    by (induction s arbitrary: m) (simp_all add: W_def step)
  have "digits_value (W (to_dec (unat p))) = dec_value (to_dec (unat p))"
    unfolding digits_value_def dec_value_def by (rule fold) (auto dest: digits_to_dec)
  moreover have "length (to_dec (unat p)) \<le> 5" by (rule length_to_dec) (use n in simp_all)
  moreover have "ascii_digit (of_char c)" if "dec_digit c" for c
    using that by (simp add: ascii_digit_def dec_digit_def word_le_nat_alt)
  ultimately show ?thesis
    using n digits_to_dec by (auto simp: valid_port_text_def W_def)
qed

text \<open>The URI of a valid account's own server.\<close>

lemma account_host_port:
  assumes "validate_account a = AccountError.NoAccountError" and "native_ascii (acc_server a) \<noteq> []"
  shows "host_port (W (native_ascii (acc_server a) @ CHR '':'' # to_dec (unat (acc_port a))))"
proof -
  have "valid_sip_host (acc_server a)" "acc_port a \<noteq> 0"
    using assms(1) by (auto simp: validate_account_def split: if_splits)
  then have "valid_sip_host (W (native_ascii (acc_server a)))" "valid_port_text (W (to_dec (unat (acc_port a))))"
    unfolding conjunct1 [OF native_ascii_wide [OF assms(2)]] by (simp_all add: port_text)
  then show ?thesis unfolding host_port_def W_append W_Cons by blast
qed

text \<open>What \<open>native_call_destination_result\<close> returns is a valid transfer URI.\<close>

lemma routed_call_valid:
  assumes "ascii_ctype ct" and "nac_valid (native_account_config a ca route)" and "CHR ''@'' \<notin> set dial"
    and ok: "fst (checked_uri (routed_uri a dial)) = NativeDestinationError.NoDestinationError"
  shows "valid_native_transfer_uri ct (routed_uri a dial)"
proof -
  let ?scheme = "if acc_use_tls a then ''sips'' else ''sip''"
  let ?hp = "native_ascii (acc_server a) @ CHR '':'' # to_dec (unat (acc_port a))"
  let ?suffix = "if acc_use_tls a then '';transport=tls'' else '';transport=udp''"
  have e: "routed_uri a dial = ?scheme @ CHR '':'' # dial @ CHR ''@'' # ?hp @ ?suffix"
    by (simp add: routed_uri_def)
  have "validate_account a = AccountError.NoAccountError" "native_ascii (acc_server a) \<noteq> []"
    using assms(2) by (auto simp: native_account_config_def no_config_def Let_def split: if_splits)
  then have hp: "host_port (W ?hp)" by (rule account_host_port)
  have scheme: "?scheme = ''sip'' \<or> ?scheme = ''sips''" by simp
  note parts = checked_uri_parts [OF scheme assms(3) ok [unfolded e]]
  show ?thesis unfolding e
    by (rule valid_transfer_parts [OF assms(1) scheme parts(1,2) hp _ _ parts(3)])
      (auto split: if_splits)
qed

lemma direct_call_valid:
  assumes "ascii_ctype ct" and "validate_address ct typed = (AddressError.NoAddressError, n)"
    and "native_ascii n \<noteq> []" and at: "CHR ''@'' \<in> set (native_ascii n)"
    and ok: "fst (checked_uri (native_ascii n)) = NativeDestinationError.NoDestinationError"
  shows "valid_native_transfer_uri ct (native_ascii n)"
proof -
  note wide = native_ascii_wide [OF assms(3)]
  have at_n: "wc CHR ''@'' \<in> set n" using at wide wide_member by metis
  have "address_shape ct n" using normalized_shape [OF assms(1,2)] .
  then obtain scheme t where n: "n = scheme @ wc CHR '':'' # t" "scheme = W ''sip'' \<or> scheme = W ''sips''" "target_ok ct t"
    using at_n unfolding address_shape_def by blast
  have "wc CHR ''@'' \<notin> set scheme" using n(2) no_at_scheme(1) by (auto simp: W_def)
  then have "wc CHR ''@'' \<in> set t" using at_n n(1) by auto
  then obtain user hp where t: "t = user @ wc CHR ''@'' # hp" "wc CHR ''@'' \<notin> set user" "host_port hp"
    using n(3) unfolding target_ok_def by blast
  define s where "s = map narrow scheme"
  define u where "u = map narrow user"
  define h where "h = map narrow hp"
  have uri: "native_ascii n = s @ CHR '':'' # u @ CHR ''@'' # h"
    using conjunct2 [OF wide] narrow_of_char [of "CHR '':''"] narrow_of_char [of "CHR ''@''"]
    unfolding n(1) t(1) s_def u_def h_def by simp
  have "W s @ wc CHR '':'' # W u @ wc CHR ''@'' # W h = n"
    using conjunct1 [OF wide, unfolded uri W_append W_Cons] .
  then have "W s @ wc CHR '':'' # W u @ wc CHR ''@'' # W h = scheme @ wc CHR '':'' # user @ wc CHR ''@'' # hp"
    unfolding n(1) t(1) .
  moreover have "length (W s) = length scheme" "length (W u) = length user" by (simp_all add: s_def u_def)
  ultimately have "W u = user" "W h = hp" by simp_all
  have s: "s = ''sip'' \<or> s = ''sips''"
    using n(2) by (auto simp: s_def map_narrow_W)
  have u: "CHR ''@'' \<notin> set u" using t(2) \<open>W u = user\<close> wide_member by metis
  have hp: "host_port (W h)" using t(3) \<open>W h = hp\<close> by simp
  note parts = checked_uri_parts [OF s u ok [unfolded uri]]
  show ?thesis
    using valid_transfer_parts [OF assms(1) s parts(1,2) hp, of "[]"] parts(3) unfolding uri by simp
qed

section \<open>The lines of the configuration\<close>

lemma split_on_line: "x \<notin> set l \<Longrightarrow> split_on x (l @ x # r) = l # split_on x r"
  by (induction l) auto

lemma native_ascii_member: "c \<in> set (native_ascii s) \<Longrightarrow> of_char c \<in> set s"
  using wide_member [of c "native_ascii s"] native_ascii_wide [of s] by fastforce

lemma native_ascii_printable: "c \<in> set (native_ascii s) \<Longrightarrow> 32 \<le> (of_char c :: nat) \<and> (of_char c :: nat) \<le> 126"
proof -
  assume c: "c \<in> set (native_ascii s)"
  then have "of_char c \<in> set s" by (rule native_ascii_member)
  moreover have "\<forall>w \<in> set s. \<not> (w < 32 \<or> w > 126)" using c by (auto simp: native_ascii_def split: if_splits)
  ultimately have "\<not> ((of_char c :: wchar) < 32 \<or> (of_char c :: wchar) > 126)" by blast
  then show ?thesis by (simp add: word_less_nat_alt not_less)
qed

lemma native_ascii_no_newline: "CHR 0x0A \<notin> set (native_ascii s)"
  using native_ascii_printable [of "CHR 0x0A" s] by auto

text \<open>The lines of \<open>native_config\<close>.\<close>

definition config_lines :: "SipAccount \<Rightarrow> string \<Rightarrow> NativeAudioRoute \<Rightarrow> string list" where
  "config_lines a trust audio =
     [''poll_method select'', ''sip_transports '' @ transport_name a, ''sip_verify_server yes'',
      ''audio_player wasapi,'' @ (if ar_playback audio = [] then ''default'' else native_ascii (ar_playback audio)),
      ''audio_source wasapi,'' @ (if ar_capture audio = [] then ''default'' else native_ascii (ar_capture audio)),
      ''audio_alert wasapi,default'', ''call_max_calls 1''] @
     (if acc_server a = W ''127.0.0.1'' then [''net_interface 127.0.0.1''] else []) @
     (if acc_use_tls a then [''sip_cafile '' @ trust] else [])"

lemma split_on_lines:
  "\<forall>l \<in> set ls. x \<notin> set l \<Longrightarrow> split_on x (concat (map (\<lambda>l. l @ [x]) ls)) = ls @ [[]]"
  by (induction ls) (simp_all add: split_on_line)

lemma native_config_lines:
  assumes "CHR 0x0A \<notin> set trust"
  shows "split_on CHR 0x0A (native_config a trust audio) = config_lines a trust audio @ [[]]"
proof -
  have "native_config a trust audio = concat (map (\<lambda>l. l @ newline) (config_lines a trust audio))"
    by (simp add: native_config_def config_lines_def Let_def)
  moreover have "\<forall>l \<in> set (config_lines a trust audio). CHR 0x0A \<notin> set l"
    using assms native_ascii_no_newline by (simp add: config_lines_def transport_name_def)
  ultimately show ?thesis using split_on_lines by (simp add: newline_def)
qed

lemma valid_id_char:
  assumes "valid_native_audio_id i" and "c \<in> set (native_ascii i)"
  shows "c \<notin> {CHR '','', CHR ''#'', CHR '';'', CHR '' '', CHR 0x22, CHR 0x5C}"
proof -
  have "of_char c \<in> set i" using assms(2) by (rule native_ascii_member)
  then have "\<not> bad_id_char (of_char c)" using assms(1) by (auto simp: valid_native_audio_id_def split: if_splits)
  then show ?thesis by (auto simp: bad_id_char_def)
qed

lemma config_uri_valid:
  assumes "ascii_ctype ct" and "nac_valid (native_account_config a ca audio)"
  shows "valid_native_transfer_uri ct (''sip:'' @ native_ascii (acc_username a) @ ''@'' @ native_ascii (acc_server a) @ '':'' @
     to_dec (unat (acc_port a)) @ '';transport='' @ transport_name a)"
proof -
  let ?user = "native_ascii (acc_username a)"
  let ?host = "native_ascii (acc_server a)"
  let ?hp = "?host @ CHR '':'' # to_dec (unat (acc_port a))"
  have facts: "validate_account a = AccountError.NoAccountError" "?host \<noteq> []" "?user \<noteq> []"
    "\<forall>c \<in> set ?user. native_user_char c" "length (acc_server a) \<le> 253" "length (acc_username a) \<le> 128"
    using assms(2) by (auto simp: native_account_config_def no_config_def Let_def split: if_splits)
  have "length ?user \<le> 128" "length ?host \<le> 253"
    using facts native_ascii_wide by (metis length_map)+
  moreover have "length (to_dec (unat (acc_port a))) \<le> 5"
    using unsigned_less [where w = "acc_port a" and ?'a = nat] by (intro length_to_dec) auto
  ultimately have "length (''sip'' @ CHR '':'' # ?user @ CHR ''@'' # ?hp @ '';transport='' @ transport_name a) \<le> 512"
    by (simp add: transport_name_def)
  moreover have "\<forall>c \<in> set ?user. native_call_char c" using facts(4) by (simp add: native_call_char_def)
  ultimately have "valid_native_transfer_uri ct
      (''sip'' @ CHR '':'' # ?user @ CHR ''@'' # ?hp @ '';transport='' @ transport_name a)"
    using account_host_port [OF facts(1,2)] facts(3)
    by (intro valid_transfer_parts [OF assms(1)]) (auto simp: transport_name_def)
  then show ?thesis by simp
qed

section \<open>Properties\<close>

text \<open>
  The transfer check refuses no call destination. For every typed text and account the
  destination of a transfer is the destination of a call, error included: whatever
  \<open>native_call_destination_result\<close> accepts, routed through the account or given in full, passes
  the stricter \<open>valid_native_transfer_uri\<close>.
\<close>

theorem transfer_destination_is_call_destination:
  assumes "ascii_ctype ct"
  shows "native_transfer_destination_result ct typed a = native_call_destination_result ct typed a"
proof -
  let ?r = "native_call_destination_result ct typed a"
  have "valid_native_transfer_uri ct (snd ?r)" if ok: "destination_ok ?r"
  proof -
    obtain n where v: "validate_address ct typed = (AddressError.NoAddressError, n)" and n: "native_ascii n \<noteq> []"
      using ok by (auto simp: destination_ok_def native_call_destination_result_def Let_def split: if_splits prod.splits)
    show ?thesis
    proof (cases "CHR ''@'' \<in> set (native_ascii n)")
      case True
      then have r: "?r = checked_uri (native_ascii n)"
        using ok v n by (auto simp: destination_ok_def native_call_destination_result_def Let_def split: if_splits)
      then have "fst (checked_uri (native_ascii n)) = NativeDestinationError.NoDestinationError"
        using ok by (simp add: destination_ok_def)
      then show ?thesis
        using direct_call_valid [OF assms v n True] checked_uri_snd r by simp
    next
      case False
      then obtain k where valid: "nac_valid (native_account_config a (if acc_use_tls a then W ''validated-ca'' else []) default_route)"
        and r: "?r = checked_uri (routed_uri a (drop k (native_ascii n)))"
        using ok v n unfolding destination_ok_def native_call_destination_result_def Let_def
        by (auto split: if_splits) (metis drop_0)+
      have "CHR ''@'' \<notin> set (drop k (native_ascii n))" using False by (meson in_set_dropD)
      moreover have "fst (checked_uri (routed_uri a (drop k (native_ascii n)))) = NativeDestinationError.NoDestinationError"
        using ok r by (simp add: destination_ok_def)
      ultimately show ?thesis
        using routed_call_valid [OF assms valid] checked_uri_snd r by simp
    qed
  qed
  then show ?thesis by (auto simp: native_transfer_destination_result_def Let_def)
qed

definition sample_account :: SipAccount where
  "sample_account = default_account\<lparr>acc_server := W ''pbx.example'', acc_username := W ''1000'', acc_port := 7\<rparr>"

theorem transfer_destination_is_call_destination_witness:
  "native_transfer_destination_result c_locale (W ''*72'') sample_account =
    (NativeDestinationError.NoDestinationError, ''sip:*72@pbx.example:7;transport=udp'')"
proof -
  have "native_call_destination_result c_locale (W ''*72'') sample_account =
    (NativeDestinationError.NoDestinationError, ''sip:*72@pbx.example:7;transport=udp'')"
    by code_simp
  then show ?thesis
    using transfer_destination_is_call_destination [OF ascii_c_locale, of "W ''*72''" sample_account] by simp
qed

text \<open>
  C26. No account, certificate path or device identifier injects settings into the engine. Whenever
  \<open>native_account_config\<close> is valid, the configuration file consists of exactly the intended lines,
  with verification of the server on, one transport and one call; the devices named in it are free of the
  separators of the format; with TLS a certificate file without quotes is named; and the address of record is
  a well-formed SIP URI in angle brackets followed by the fixed parameters.
\<close>

theorem account_config_not_injectable:
  assumes "ascii_ctype ct" and "c = native_account_config a ca audio" and "nac_valid c"
  shows "split_on CHR 0x0A (nac_config c) = config_lines a (native_ascii ca) audio @ [[]] \<and>
    (\<forall>ch \<in> set (native_ascii (ar_playback audio)) \<union> set (native_ascii (ar_capture audio)).
       ch \<notin> {CHR '','', CHR ''#'', CHR '';'', CHR '' '', CHR 0x22, CHR 0x5C}) \<and>
    (acc_use_tls a \<longrightarrow> native_ascii ca \<noteq> [] \<and> CHR 0x22 \<notin> set (native_ascii ca)) \<and>
    (\<exists>uri. valid_native_transfer_uri ct uri \<and>
       nac_aor c = ''<'' @ uri @ ''>;regint=0;dtmfmode=info;audio_codecs='' @ native_audio_codec_list (acc_codec_mode a))"
proof (intro conjI)
  have v: "c = \<lparr>nac_valid = True, nac_aor = native_aor a, nac_config = native_config a (native_ascii ca) audio\<rparr>"
    and route: "valid_native_audio_route audio"
    and tls: "acc_use_tls a \<longrightarrow> native_ascii ca \<noteq> [] \<and> CHR 0x22 \<notin> set (native_ascii ca)"
    using assms(2,3) by (auto simp: native_account_config_def no_config_def Let_def split: if_splits)
  show "split_on CHR 0x0A (nac_config c) = config_lines a (native_ascii ca) audio @ [[]]"
    using native_config_lines [OF native_ascii_no_newline] v by simp
  show "\<forall>ch \<in> set (native_ascii (ar_playback audio)) \<union> set (native_ascii (ar_capture audio)).
      ch \<notin> {CHR '','', CHR ''#'', CHR '';'', CHR '' '', CHR 0x22, CHR 0x5C}"
    using route valid_id_char unfolding valid_native_audio_route_def by blast
  show "acc_use_tls a \<longrightarrow> native_ascii ca \<noteq> [] \<and> CHR 0x22 \<notin> set (native_ascii ca)" by (rule tls)
  show "\<exists>uri. valid_native_transfer_uri ct uri \<and>
      nac_aor c = ''<'' @ uri @ ''>;regint=0;dtmfmode=info;audio_codecs='' @ native_audio_codec_list (acc_codec_mode a)"
    using config_uri_valid [OF assms(1) assms(3) [unfolded assms(2)]] v by (intro exI conjI) (assumption, simp add: native_aor_def)
qed

theorem account_config_not_injectable_witness:
  "let c = native_account_config sample_account [] default_route in
   nac_valid c \<and> split_on CHR 0x0A (nac_config c) = config_lines sample_account [] default_route @ [[]]"
proof -
  have "nac_valid (native_account_config sample_account [] default_route)" by code_simp
  then show ?thesis
    using account_config_not_injectable [OF ascii_c_locale refl, of sample_account "[]" default_route]
    by (simp add: Let_def native_ascii_def)
qed

end
