(* ===== verification/Native_Control.thy ===== *)
theory Native_Control
  imports Event_Projection Native_Account
begin

text \<open>
  What the native engine checks before it acts on a command: the media state of the call
  (\<open>native_call_media.h\<close>), keypad mode (\<open>native_dtmf.h\<close>), currency and admission of a command
  (\<open>native_session_control.h\<close>), the audio preflight (\<open>native_audio_command_guard.h\<close>), and the
  application service that passes the user's intent to the engine
  (\<open>voice_application_service.h\<close>). The service's port is a record of functions; what the service
  needs of it is the locale \<open>native_port\<close>.
\<close>

section \<open>Media state\<close>

datatype NativeTransferState = NoTransfer | Submitted | Failed

record NativeCallMediaState =
  med_session :: u64
  med_call_id :: u64
  med_available :: bool
  med_muted :: bool
  med_local_hold :: bool
  med_hold_request_error :: int
  med_transfer :: NativeTransferState

definition no_media :: NativeCallMediaState where
  "no_media = \<lparr>med_session = 0, med_call_id = 0, med_available = False, med_muted = False,
     med_local_hold = False, med_hold_request_error = 0,
     med_transfer = NativeTransferState.NoTransfer\<rparr>"

text \<open>The three references the source resets are a triple: hold error, mute error, audio error.\<close>

definition reset_native_call_feedback ::
    "NativeCallMediaState \<Rightarrow> NativeCallMediaState \<Rightarrow> int \<times> bool \<times> NativeAudioRouteStatus \<Rightarrow>
     int \<times> bool \<times> NativeAudioRouteStatus" where
  "reset_native_call_feedback previous current errors =
     (if med_session previous \<noteq> med_session current \<or> med_call_id previous \<noteq> med_call_id current
      then (0, False, NativeAudioRouteStatus.Ready) else errors)"

definition native_media_controls_current ::
    "NativeCallMediaState \<Rightarrow> SipRuntimeObservation \<Rightarrow> bool" where
  "native_media_controls_current media call \<longleftrightarrow>
     med_available media \<and> med_call_id media \<noteq> 0 \<and> med_call_id media = obs_call_id call \<and>
     obs_sip call = SipStatus.InCall \<and> sip_proof_is_current call (med_session media)"

section \<open>Keypad tones\<close>

definition valid_native_dtmf_key :: "wchar \<Rightarrow> bool" where
  "valid_native_dtmf_key key \<longleftrightarrow>
     (key \<ge> wc CHR ''0'' \<and> key \<le> wc CHR ''9'') \<or> key = wc CHR ''*'' \<or> key = wc CHR ''#''"

definition native_dtmf_controls_current ::
    "NativeCallMediaState \<Rightarrow> SipRuntimeObservation \<Rightarrow> bool" where
  "native_dtmf_controls_current media call \<longleftrightarrow>
     native_media_controls_current media call \<and> \<not> med_local_hold media \<and>
     med_transfer media = NativeTransferState.NoTransfer"

record NativeDtmfMode =
  dtm_session :: u64
  dtm_call :: u64

definition dtmf_reset :: NativeDtmfMode where
  "dtmf_reset = \<lparr>dtm_session = 0, dtm_call = 0\<rparr>"

definition dtmf_armed :: "NativeDtmfMode \<Rightarrow> bool" where
  "dtmf_armed m \<longleftrightarrow> dtm_session m \<noteq> 0 \<and> dtm_call m \<noteq> 0"

definition dtmf_active :: "NativeDtmfMode \<Rightarrow> NativeCallMediaState \<Rightarrow> SipRuntimeObservation \<Rightarrow> bool"
  where
  "dtmf_active m media call \<longleftrightarrow>
     dtmf_armed m \<and> dtm_session m = med_session media \<and> dtm_call m = med_call_id media \<and>
     native_dtmf_controls_current media call"

definition dtmf_synchronize ::
    "NativeDtmfMode \<Rightarrow> NativeCallMediaState \<Rightarrow> SipRuntimeObservation \<Rightarrow> NativeDtmfMode" where
  "dtmf_synchronize m media call = (if \<not> dtmf_active m media call then dtmf_reset else m)"

definition dtmf_toggle ::
    "NativeDtmfMode \<Rightarrow> NativeCallMediaState \<Rightarrow> SipRuntimeObservation \<Rightarrow> bool \<times> NativeDtmfMode" where
  "dtmf_toggle m media call =
     (if dtmf_active m media call then (True, dtmf_reset)
      else if \<not> native_dtmf_controls_current media call then (False, dtmf_reset)
      else (True, \<lparr>dtm_session = med_session media, dtm_call = med_call_id media\<rparr>))"

section \<open>Commands\<close>

datatype NativeCallAction =
  NoAction | Dial | Answer | Hangup | SetMute | SetHold | Transfer | Dtmf

record NativeCallCommand =
  cmd_action :: NativeCallAction
  cmd_session :: u64
  cmd_call_id :: u64
  cmd_destination :: string
  cmd_desired :: bool

definition no_command :: NativeCallCommand where
  "no_command = \<lparr>cmd_action = NativeCallAction.NoAction, cmd_session = 0, cmd_call_id = 0,
     cmd_destination = [], cmd_desired = False\<rparr>"

definition native_command_is_current :: "NativeCallCommand \<Rightarrow> SipRuntimeObservation \<Rightarrow> bool" where
  "native_command_is_current c s =
     (if \<not> sip_proof_is_current s (cmd_session c) \<or> cmd_call_id c \<noteq> obs_call_id s then False
      else (case cmd_action c of
          NativeCallAction.Dial \<Rightarrow> obs_sip s = SipStatus.Registered \<and> obs_call_id s = 0
        | NativeCallAction.Answer \<Rightarrow> obs_sip s = SipStatus.Ringing \<and> obs_call_id s \<noteq> 0
        | NativeCallAction.Dtmf \<Rightarrow> obs_sip s = SipStatus.InCall \<and> obs_call_id s \<noteq> 0 \<and>
            length (cmd_destination c) = 1 \<and> valid_native_dtmf_key (of_char (cmd_destination c ! 0))
        | NativeCallAction.Transfer \<Rightarrow> obs_sip s = SipStatus.InCall \<and> obs_call_id s \<noteq> 0
        | NativeCallAction.SetMute \<Rightarrow> obs_sip s = SipStatus.InCall \<and> obs_call_id s \<noteq> 0
        | NativeCallAction.SetHold \<Rightarrow> obs_sip s = SipStatus.InCall \<and> obs_call_id s \<noteq> 0
        | NativeCallAction.Hangup \<Rightarrow> obs_call_id s \<noteq> 0 \<and>
            (obs_sip s = SipStatus.Calling \<or> obs_sip s = SipStatus.Ringing \<or>
             obs_sip s = SipStatus.InCall)
        | NativeCallAction.NoAction \<Rightarrow> False))"

text \<open>\<open>NativeCallCommand{action, session, call, \{\}}\<close>.\<close>

definition displayed_command :: "NativeCallAction \<Rightarrow> u64 \<Rightarrow> u64 \<Rightarrow> NativeCallCommand" where
  "displayed_command action session call_id =
     \<lparr>cmd_action = action, cmd_session = session, cmd_call_id = call_id, cmd_destination = [],
      cmd_desired = False\<rparr>"

definition native_displayed_call_command_current ::
    "NativeCallAction \<Rightarrow> SipRuntimeObservation \<Rightarrow> SipRuntimeObservation \<Rightarrow> bool" where
  "native_displayed_call_command_current action displayed current =
     (if action \<noteq> NativeCallAction.Answer \<and> action \<noteq> NativeCallAction.Hangup then False
      else (let command = displayed_command action (obs_session displayed) (obs_call_id displayed)
            in native_command_is_current command displayed \<and>
               native_command_is_current command current))"

section \<open>Admission\<close>

record NativeCommandAdmission =
  adm_answer_session :: u64
  adm_answer_call :: u64
  adm_hangup_session :: u64
  adm_hangup_call :: u64
  adm_transfer_session :: u64
  adm_transfer_call :: u64

definition new_admission :: NativeCommandAdmission where
  "new_admission = \<lparr>adm_answer_session = 0, adm_answer_call = 0, adm_hangup_session = 0,
     adm_hangup_call = 0, adm_transfer_session = 0, adm_transfer_call = 0\<rparr>"

definition admit ::
    "NativeCommandAdmission \<Rightarrow> NativeCallCommand \<Rightarrow> SipRuntimeObservation \<Rightarrow>
     bool \<times> NativeCommandAdmission" where
  "admit m c s =
     (if \<not> native_command_is_current c s then (False, m)
      else if cmd_action c = NativeCallAction.Answer
      then (if adm_answer_session m = cmd_session c \<and> adm_answer_call m = cmd_call_id c
            then (False, m)
            else (True, m\<lparr>adm_answer_session := cmd_session c, adm_answer_call := cmd_call_id c\<rparr>))
      else if cmd_action c = NativeCallAction.Hangup
      then (if adm_hangup_session m = cmd_session c \<and> adm_hangup_call m = cmd_call_id c
            then (False, m)
            else (True, m\<lparr>adm_hangup_session := cmd_session c, adm_hangup_call := cmd_call_id c\<rparr>))
      else if cmd_action c = NativeCallAction.Transfer
      then (if adm_transfer_session m = cmd_session c \<and> adm_transfer_call m = cmd_call_id c
            then (False, m)
            else (True, m\<lparr>adm_transfer_session := cmd_session c,
                          adm_transfer_call := cmd_call_id c\<rparr>))
      else (True, m))"

section \<open>The audio preflight\<close>

definition native_command_needs_audio_preflight :: "NativeCallCommand \<Rightarrow> bool" where
  "native_command_needs_audio_preflight command \<longleftrightarrow>
     cmd_action command = NativeCallAction.Dial \<or> cmd_action command = NativeCallAction.Answer \<or>
     (cmd_action command = NativeCallAction.SetHold \<and> \<not> cmd_desired command)"

record NativeAudioCommandDecision =
  dec_allowed :: bool
  dec_audio :: NativeAudioRouteStatus

definition admit_native_audio_command ::
    "NativeCommandAdmission \<Rightarrow> NativeCallCommand \<Rightarrow> SipRuntimeObservation \<Rightarrow> NativeAudioRoute \<Rightarrow>
     AudioInventory \<Rightarrow> NativeAudioCommandDecision \<times> NativeCommandAdmission" where
  "admit_native_audio_command admission command state route inventory =
     (let audio = native_audio_route_status route inventory in
      if \<not> native_command_is_current command state
      then (\<lparr>dec_allowed = False, dec_audio = NativeAudioRouteStatus.Ready\<rparr>, admission)
      else if native_command_needs_audio_preflight command \<and> audio \<noteq> NativeAudioRouteStatus.Ready
      then (\<lparr>dec_allowed = False, dec_audio = audio\<rparr>, admission)
      else (let (allowed, admission) = admit admission command state
            in (\<lparr>dec_allowed = allowed, dec_audio = NativeAudioRouteStatus.Ready\<rparr>, admission)))"

section \<open>The application service\<close>

text \<open>
  The engine the service is instantiated with, as a record of its methods. Between two of them the
  engine's own thread may act; \<open>meanwhile\<close> is what it does then.
\<close>

record 'p NativePort =
  port_observation :: "'p \<Rightarrow> SipRuntimeObservation"
  port_start_call :: "'p \<Rightarrow> wstr \<Rightarrow> bool \<times> 'p"
  port_answer_call :: "'p \<Rightarrow> SipRuntimeObservation \<Rightarrow> bool \<times> 'p"
  port_hangup_call :: "'p \<Rightarrow> SipRuntimeObservation \<Rightarrow> bool \<times> 'p"

record VoiceApplicationSnapshot =
  vas_observation :: SipRuntimeObservation
  vas_signal :: EssentialConnectionSignal
  vas_actions :: EssentialCallActions

definition service_snapshot :: "'p NativePort \<Rightarrow> 'p \<Rightarrow> bool \<Rightarrow> VoiceApplicationSnapshot" where
  "service_snapshot port p dial_authorized =
     (let observed = port_observation port p in
      \<lparr>vas_observation = observed,
       vas_signal = essential_connection_signal observed (obs_session observed),
       vas_actions = essential_call_actions observed (obs_session observed) dial_authorized\<rparr>)"

definition service_dial ::
    "wctype \<Rightarrow> 'p NativePort \<Rightarrow> ('p \<Rightarrow> 'p) \<Rightarrow> 'p \<Rightarrow> SipRuntimeObservation \<Rightarrow> wstr \<Rightarrow> bool \<times> 'p" where
  "service_dial ct port meanwhile p displayed destination =
     (if dfb_kind (evaluate_destination ct destination) \<noteq> DestinationFeedbackKind.Valid
      then (False, p)
      else (let current = port_observation port p;
                requested = displayed_command NativeCallAction.Dial (obs_session displayed) 0
            in if \<not> native_command_is_current requested displayed \<or>
                  \<not> native_command_is_current requested current then (False, p)
               else port_start_call port (meanwhile p) destination))"

definition service_answer ::
    "'p NativePort \<Rightarrow> ('p \<Rightarrow> 'p) \<Rightarrow> 'p \<Rightarrow> SipRuntimeObservation \<Rightarrow> bool \<times> 'p" where
  "service_answer port meanwhile p displayed =
     (let current = port_observation port p in
      if \<not> native_displayed_call_command_current NativeCallAction.Answer displayed current
      then (False, p) else port_answer_call port (meanwhile p) displayed)"

definition service_hangup ::
    "'p NativePort \<Rightarrow> ('p \<Rightarrow> 'p) \<Rightarrow> 'p \<Rightarrow> SipRuntimeObservation \<Rightarrow> bool \<times> 'p" where
  "service_hangup port meanwhile p displayed =
     (let current = port_observation port p in
      if \<not> native_displayed_call_command_current NativeCallAction.Hangup displayed current
      then (False, p) else port_hangup_call port (meanwhile p) displayed)"

section \<open>Lemmas\<close>

lemma current_proof:
  "native_command_is_current c s \<Longrightarrow> sip_proof_is_current s (cmd_session c) \<and> cmd_call_id c = obs_call_id s"
  by (simp add: native_command_is_current_def split: if_splits)

lemma current_session: "native_command_is_current c s \<Longrightarrow> cmd_session c = obs_session s \<and> cmd_session c \<noteq> 0"
  using current_proof by (force simp: sip_proof_is_current_def)

lemma current_status:
  assumes "native_command_is_current c s"
  shows "cmd_action c \<noteq> NativeCallAction.NoAction"
    "cmd_action c = NativeCallAction.Dial \<Longrightarrow> obs_sip s = SipStatus.Registered \<and> obs_call_id s = 0"
    "cmd_action c \<noteq> NativeCallAction.Dial \<Longrightarrow> obs_call_id s \<noteq> 0"
    "cmd_action c = NativeCallAction.Answer \<Longrightarrow> obs_sip s = SipStatus.Ringing"
    "cmd_action c \<in> {NativeCallAction.SetMute, NativeCallAction.SetHold, NativeCallAction.Transfer,
       NativeCallAction.Dtmf} \<Longrightarrow> obs_sip s = SipStatus.InCall"
  using assms by (auto simp: native_command_is_current_def split: if_splits NativeCallAction.splits)

lemma admit_current: "admit m c s = (True, m') \<Longrightarrow> native_command_is_current c s"
  by (auto simp: admit_def split: if_splits)

lemma admit_refused: "admit m c s = (False, m') \<Longrightarrow> m' = m"
  by (auto simp: admit_def split: if_splits)

lemma displayed_call_current:
  "native_displayed_call_command_current action displayed current \<Longrightarrow>
     (action = NativeCallAction.Answer \<or> action = NativeCallAction.Hangup) \<and>
     native_command_is_current (displayed_command action (obs_session displayed) (obs_call_id displayed))
       displayed \<and>
     obs_session displayed = obs_session current \<and> obs_call_id displayed = obs_call_id current"
  using current_session current_proof
  by (force simp: native_displayed_call_command_current_def displayed_command_def Let_def split: if_splits)

section \<open>The contract of the port\<close>

text \<open>
  \<open>submitted\<close> is the command the engine holds for its own thread. An accepted call of the port
  leaves there the command for the session and call it was made for; a refused one leaves the
  slot as it was.
\<close>

locale native_port =
  fixes port :: "'p NativePort"
    and submitted :: "'p \<Rightarrow> NativeCallCommand"
  assumes start_call_accepted: "port_start_call port p w = (True, p') \<Longrightarrow>
        cmd_action (submitted p') = NativeCallAction.Dial \<and>
        cmd_session (submitted p') = obs_session (port_observation port p)"
    and answer_accepted: "port_answer_call port p d = (True, p') \<Longrightarrow>
        submitted p' = displayed_command NativeCallAction.Answer (obs_session d) (obs_call_id d)"
    and hangup_accepted: "port_hangup_call port p d = (True, p') \<Longrightarrow>
        submitted p' = displayed_command NativeCallAction.Hangup (obs_session d) (obs_call_id d)"
    and refused: "port_start_call port p w = (False, p') \<or> port_answer_call port p d = (False, p') \<or>
        port_hangup_call port p d = (False, p') \<Longrightarrow> submitted p' = submitted p"
begin

lemma answer_is_displayed:
  assumes "service_answer port meanwhile p displayed = (True, p')"
  shows "native_command_is_current (submitted p') displayed"
    "native_command_is_current (submitted p') (port_observation port p)"
proof -
  have c: "native_displayed_call_command_current NativeCallAction.Answer displayed (port_observation port p)"
    and a: "port_answer_call port (meanwhile p) displayed = (True, p')"
    using assms by (auto simp: service_answer_def Let_def split: if_splits)
  show "native_command_is_current (submitted p') displayed"
    "native_command_is_current (submitted p') (port_observation port p)"
    using c answer_accepted [OF a] by (simp_all add: native_displayed_call_command_current_def Let_def)
qed

lemma hangup_is_displayed:
  assumes "service_hangup port meanwhile p displayed = (True, p')"
  shows "native_command_is_current (submitted p') displayed"
    "native_command_is_current (submitted p') (port_observation port p)"
proof -
  have c: "native_displayed_call_command_current NativeCallAction.Hangup displayed (port_observation port p)"
    and a: "port_hangup_call port (meanwhile p) displayed = (True, p')"
    using assms by (auto simp: service_hangup_def Let_def split: if_splits)
  show "native_command_is_current (submitted p') displayed"
    "native_command_is_current (submitted p') (port_observation port p)"
    using c hangup_accepted [OF a] by (simp_all add: native_displayed_call_command_current_def Let_def)
qed

text \<open>What was accepted is the action that was clicked, on the call that was displayed.\<close>

lemma answer_submits:
  "service_answer port meanwhile p displayed = (True, p') \<Longrightarrow>
     submitted p' = displayed_command NativeCallAction.Answer (obs_session displayed) (obs_call_id displayed)"
  by (rule answer_accepted [of "meanwhile p"]) (auto simp: service_answer_def Let_def split: if_splits)

lemma hangup_submits:
  "service_hangup port meanwhile p displayed = (True, p') \<Longrightarrow>
     submitted p' = displayed_command NativeCallAction.Hangup (obs_session displayed) (obs_call_id displayed)"
  by (rule hangup_accepted [of "meanwhile p"]) (auto simp: service_hangup_def Let_def split: if_splits)

text \<open>A dial goes into the session the user saw, unless the engine's thread changed it meanwhile.\<close>

lemma dial_is_displayed:
  assumes "service_dial ct port meanwhile p displayed destination = (True, p')"
    and "obs_session (port_observation port (meanwhile p)) = obs_session (port_observation port p)"
  shows "cmd_action (submitted p') = NativeCallAction.Dial"
    "cmd_session (submitted p') = obs_session displayed"
    "sip_proof_is_current displayed (cmd_session (submitted p'))"
proof -
  let ?c = "displayed_command NativeCallAction.Dial (obs_session displayed) 0"
  have c: "native_command_is_current ?c displayed" "native_command_is_current ?c (port_observation port p)"
    and a: "port_start_call port (meanwhile p) destination = (True, p')"
    using assms(1) by (auto simp: service_dial_def Let_def split: if_splits)
  have "obs_session displayed = obs_session (port_observation port p)"
    using current_session [OF c(2)] by (simp add: displayed_command_def)
  with start_call_accepted [OF a] assms(2)
  show "cmd_action (submitted p') = NativeCallAction.Dial"
    "cmd_session (submitted p') = obs_session displayed" by simp_all
  with current_proof [OF c(1)] show "sip_proof_is_current displayed (cmd_session (submitted p'))"
    by (simp add: displayed_command_def)
qed

lemma service_refused:
  assumes "\<And>p. submitted (meanwhile p) = submitted p"
    and "service_answer port meanwhile p displayed = (False, p') \<or>
      service_hangup port meanwhile p displayed = (False, p') \<or>
      service_dial ct port meanwhile p displayed destination = (False, p')"
  shows "submitted p' = submitted p"
  using assms refused [of "meanwhile p" destination p' displayed]
  by (auto simp: service_answer_def service_hangup_def service_dial_def Let_def split: if_splits)

end

end
