(* ===== verification/Sdk_Call_Port.thy ===== *)
theory Sdk_Call_Port
  imports Registration_Gateway Native_Control
begin

text \<open>
  The port that turns an admitted command into SDK calls on the call the adapter tracks,
  \<open>baresip_sdk_call_port.h\<close>. It runs on the event-loop thread. A port is the session it captured
  when it was built; every operation returns its result, the SDK functions it called and the
  adapter. What the SDK answers during one operation, and the callbacks it runs before it
  returns, are the record \<open>CallAnswers\<close>.
\<close>

section \<open>The SDK during one operation\<close>

text \<open>
  \<open>ca_registered\<close> is \<open>ua_isregistered\<close> on entry, \<open>ca_registered_after\<close> after the SDK call;
  \<open>ca_audio\<close> and \<open>ca_account\<close> say that \<open>call_audio\<close> and \<open>call_account\<close> are not null,
  \<open>ca_dtmf_info\<close> that the account's mode is \<open>DTMFMODE_SIP_INFO\<close>.
\<close>

record CallAnswers =
  ca_registered :: "u64 \<Rightarrow> bool"
  ca_registered_after :: "u64 \<Rightarrow> bool"
  ca_result :: int
  ca_callbacks :: "sdk_callback list"
  ca_audio :: bool
  ca_muted :: bool
  ca_muted_after :: bool
  ca_onhold :: bool
  ca_account :: bool
  ca_dtmf_info :: bool

text \<open>The SDK functions called, with the call pointer they get.\<close>

datatype SdkRequest =
    UaConnect string
  | UaAnswer u64
  | UaHangup u64
  | AudioMute u64 bool
  | CallHold u64 bool
  | CallSendDigit u64 char
  | CallTransfer u64 string

definition einval :: int where "einval = 22"
definition ealready :: int where "ealready = 103"
definition enotsup :: int where "enotsup = 129"

section \<open>Ownership\<close>

definition owns_session :: "(u64 \<Rightarrow> bool) \<Rightarrow> u64 \<Rightarrow> BaresipSdkEventAdapter \<Rightarrow> bool" where
  "owns_session ua_registered captured_session a \<longleftrightarrow>
     captured_session \<noteq> 0 \<and> adapter_active a \<and>
     cap_mailbox_session (ad_captured a) = captured_session \<and> ad_owner a \<noteq> 0 \<and>
     native_register_ok_seen ua_registered a"

definition resolve :: "(u64 \<Rightarrow> bool) \<Rightarrow> u64 \<Rightarrow> BaresipSdkEventAdapter \<Rightarrow> u64 \<Rightarrow> u64" where
  "resolve ua_registered captured_session a token =
     (if \<not> owns_session ua_registered captured_session a \<or> token = 0 \<or>
         token \<noteq> ad_active_token a \<or> ad_active_call a = 0
      then 0 else ad_active_call a)"

section \<open>The operations\<close>

definition originate ::
    "wctype \<Rightarrow> CallAnswers \<Rightarrow> u64 \<Rightarrow> BaresipSdkEventAdapter \<Rightarrow> wstr \<Rightarrow>
     bool \<times> SdkRequest list \<times> BaresipSdkEventAdapter" where
  "originate ct w session a destination =
     (if \<not> owns_session (ca_registered w) session a \<or> ad_active_call a \<noteq> 0 \<or>
         length destination < 5 \<or> length destination > 512 then (False, [], a)
      else if \<not> starts_with (W ''sip:'') destination \<and> \<not> starts_with (W ''sips:'') destination
      then (False, [], a)
      else (let (error, normalized) = validate_address ct destination in
            if error \<noteq> AddressError.NoAddressError \<or> normalized \<noteq> destination then (False, [], a)
            else if \<exists>c \<in> set destination. c \<le> 32 \<or> c \<ge> 127 then (False, [], a)
            else (ca_result w = 0, [UaConnect (map narrow destination)],
                  run_callbacks a (ca_callbacks w))))"

definition port_answer ::
    "CallAnswers \<Rightarrow> u64 \<Rightarrow> BaresipSdkEventAdapter \<Rightarrow> u64 \<Rightarrow>
     bool \<times> SdkRequest list \<times> BaresipSdkEventAdapter" where
  "port_answer w session a token =
     (let owned = resolve (ca_registered w) session a token in
      if owned = 0 \<or> \<not> ad_active_incoming a \<or> ad_call_established a \<or> ad_answer_sent a \<or>
         ad_hangup_sent a then (False, [], a)
      else (ca_result w = 0, [UaAnswer owned],
            run_callbacks (a\<lparr>ad_answer_sent := True\<rparr>) (ca_callbacks w)))"

definition port_hangup ::
    "CallAnswers \<Rightarrow> u64 \<Rightarrow> BaresipSdkEventAdapter \<Rightarrow> u64 \<Rightarrow>
     bool \<times> SdkRequest list \<times> BaresipSdkEventAdapter" where
  "port_hangup w session a token =
     (let owned = resolve (ca_registered w) session a token in
      if owned = 0 \<or> ad_hangup_sent a then (False, [], a)
      else (True, [UaHangup owned],
            run_callbacks (a\<lparr>ad_hangup_sent := True\<rparr>) (ca_callbacks w)))"

text \<open>The call the media operations may touch: resolved, established, not being hung up.\<close>

definition media_call ::
    "CallAnswers \<Rightarrow> u64 \<Rightarrow> BaresipSdkEventAdapter \<Rightarrow> u64 \<Rightarrow> u64" where
  "media_call w session a token =
     (let owned = resolve (ca_registered w) session a token in
      if owned = 0 \<or> \<not> ad_call_established a \<or> ad_hangup_sent a then 0 else owned)"

definition port_media_state ::
    "CallAnswers \<Rightarrow> u64 \<Rightarrow> BaresipSdkEventAdapter \<Rightarrow> u64 \<Rightarrow> NativeCallMediaState" where
  "port_media_state w session a token =
     (if media_call w session a token = 0 \<or> \<not> ca_audio w then no_media
      else no_media\<lparr>med_session := session, med_call_id := token, med_available := True,
             med_muted := ca_muted w, med_local_hold := ca_onhold w,
             med_transfer := (if ad_transfer_attempted a
               then (if ad_transfer_failed a then NativeTransferState.Failed
                     else NativeTransferState.Submitted)
               else NativeTransferState.NoTransfer)\<rparr>)"

definition port_set_muted ::
    "CallAnswers \<Rightarrow> u64 \<Rightarrow> BaresipSdkEventAdapter \<Rightarrow> u64 \<Rightarrow> bool \<Rightarrow>
     bool \<times> SdkRequest list \<times> BaresipSdkEventAdapter" where
  "port_set_muted w session a token desired =
     (let owned = media_call w session a token in
      if owned = 0 \<or> \<not> ca_audio w then (False, [], a)
      else if ca_muted w \<noteq> desired
      then (ca_muted_after w = desired, [AudioMute owned desired],
            run_callbacks a (ca_callbacks w))
      else (True, [], a))"

definition port_set_held ::
    "CallAnswers \<Rightarrow> u64 \<Rightarrow> BaresipSdkEventAdapter \<Rightarrow> u64 \<Rightarrow> bool \<Rightarrow>
     int \<times> SdkRequest list \<times> BaresipSdkEventAdapter" where
  "port_set_held w session a token desired =
     (let owned = media_call w session a token in
      if owned = 0 then (einval, [], a)
      else if ca_onhold w = desired then (0, [], a)
      else (ca_result w, [CallHold owned desired], run_callbacks a (ca_callbacks w)))"

definition port_send_dtmf_info ::
    "CallAnswers \<Rightarrow> u64 \<Rightarrow> BaresipSdkEventAdapter \<Rightarrow> u64 \<Rightarrow> char \<Rightarrow>
     int \<times> SdkRequest list \<times> BaresipSdkEventAdapter" where
  "port_send_dtmf_info w session a token key =
     (if \<not> valid_native_dtmf_key (of_char key) then (einval, [], a)
      else (let owned = media_call w session a token in
            if owned = 0 \<or> ad_transfer_attempted a \<or> ca_onhold w then (einval, [], a)
            else if \<not> ca_account w \<or> \<not> ca_dtmf_info w then (enotsup, [], a)
            else (ca_result w, [CallSendDigit owned key], run_callbacks a (ca_callbacks w))))"

definition port_transfer ::
    "wctype \<Rightarrow> CallAnswers \<Rightarrow> u64 \<Rightarrow> BaresipSdkEventAdapter \<Rightarrow> u64 \<Rightarrow> string \<Rightarrow>
     int \<times> SdkRequest list \<times> BaresipSdkEventAdapter" where
  "port_transfer ct w session a token uri =
     (if \<not> valid_native_transfer_uri ct uri then (einval, [], a)
      else (let owned = media_call w session a token in
            if owned = 0 then (einval, [], a)
            else if ad_transfer_attempted a then (ealready, [], a)
            else (let a = a\<lparr>ad_transfer_attempted := True, ad_transfer_failed := False\<rparr>;
                      error = ca_result w;
                      a = run_callbacks a (ca_callbacks w);
                      a = (if owns_session (ca_registered_after w) session a \<and>
                              ad_active_token a = token
                           then a\<lparr>ad_transfer_failed := ad_transfer_failed a \<or> error \<noteq> 0\<rparr>
                           else a)
                  in (error, [CallTransfer owned uri], a))))"

section \<open>What the SDK can do to the adapter\<close>

text \<open>No operation of the ingress but the start of a session touches the session counter.\<close>

abbreviation generation_of :: "BaresipCallbackLifecycle \<Rightarrow> u64" where
  "generation_of l \<equiv> mb_generation (snd (lif_ingress l))"

declare revoke_generation [simp]

lemma enqueue_generation:
  "ingress_enqueue st k t = (ok, st') \<Longrightarrow> mb_generation (snd st') = mb_generation (snd st)"
  by (cases st) (auto simp: ingress_enqueue_def mailbox_enqueue_def ingress_revoke_def
      mailbox_invalidate_session_def Let_def split: prod.splits if_splits)

lemma admit_generation:
  "ingress_admit st s a = (ok, st') \<Longrightarrow> mb_generation (snd st') = mb_generation (snd st)"
  using ingress_admit_result by (metis revoke_generation)

lemma publish_generation [simp]:
  "generation_of (snd (lifecycle_registration l c k)) = generation_of l"
  "generation_of (snd (lifecycle_call_started l c key k)) = generation_of l"
  "generation_of (snd (lifecycle_call_changed l c key k)) = generation_of l"
  by (cases "lif_ingress l"; auto simp: lifecycle_registration_def lifecycle_call_started_def
      lifecycle_call_changed_def ingress_registration_def ingress_call_started_def
      ingress_call_changed_def Let_def
      dest!: enqueue_generation admit_generation split: prod.splits if_splits)+

text \<open>
  What the flags of the current call are worth after a step of the SDK: the session is the same
  or over; while it is the same, the keys only grow, and the call token is unchanged with its
  one-time flags kept, or cleared, or a new one.
\<close>

definition settles :: "BaresipSdkEventAdapter \<Rightarrow> BaresipSdkEventAdapter \<Rightarrow> bool" where
  "settles a a' \<longleftrightarrow>
     generation_of (ad_lifecycle a') = generation_of (ad_lifecycle a) \<and>
     (lif_session (ad_lifecycle a') \<noteq> 0 \<longrightarrow>
        lif_session (ad_lifecycle a') = lif_session (ad_lifecycle a) \<and>
        ad_native_key a \<le> ad_native_key a' \<and>
        (ad_active_token a' = 0 \<or> ad_native_key a < ad_active_token a' \<or>
         ad_active_token a' = ad_active_token a \<and>
           (ad_answer_sent a \<longrightarrow> ad_answer_sent a') \<and> (ad_hangup_sent a \<longrightarrow> ad_hangup_sent a') \<and>
           (ad_transfer_attempted a \<longrightarrow> ad_transfer_attempted a')))"

lemma settles_refl [simp]: "settles a a"
  by (simp add: settles_def)

lemma settles_trans:
  assumes "settles a b" "settles b c"
  shows "settles a c"
proof (cases "lif_session (ad_lifecycle c) = 0")
  case True
  with assms show ?thesis by (simp add: settles_def)
next
  case False
  with assms(2) have bc: "lif_session (ad_lifecycle b) \<noteq> 0" "ad_native_key b \<le> ad_native_key c"
    by (auto simp: settles_def)
  with assms(1) have ab: "ad_native_key a \<le> ad_native_key b" by (simp add: settles_def)
  then have "ad_native_key a \<le> ad_native_key c" "ad_native_key b < t \<Longrightarrow> ad_native_key a < t" for t
    using bc(2) by (auto intro: order_trans order_le_less_trans)
  with False bc assms show ?thesis by (auto simp: settles_def)
qed

lemma settles_over [simp]:
  "generation_of l = generation_of (ad_lifecycle a) \<Longrightarrow> lif_session l = 0 \<Longrightarrow> ad_lifecycle a' = l \<Longrightarrow> settles a a'"
  by (simp add: settles_def)

lemma reject_session [simp]:
  "lif_session (reject_current l) = 0" "generation_of (reject_current l) = generation_of l"
  by (simp_all add: lif_session_def reject_current_def revoke_session)

lemma settles_fail [simp]: "settles a (fail_closed a)"
  by (rule settles_over [OF _ _ fail_closed_lifecycle]) simp_all

lemma settles_fail_published [simp]:
  "generation_of l = generation_of (ad_lifecycle a) \<Longrightarrow> settles a (fail_closed (a\<lparr>ad_lifecycle := l\<rparr>))"
  by (rule settles_over [OF _ _ fail_closed_lifecycle]) simp_all

lemma settles_lifecycle:
  assumes "generation_of l = generation_of (ad_lifecycle a)"
    "lif_session l = lif_session (ad_lifecycle a) \<or> lif_session l = 0"
  shows "settles a (a\<lparr>ad_lifecycle := l\<rparr>)"
  using assms by (auto simp: settles_def)

lemma same_or_revoked_session:
  "same_or_revoked (lif_ingress l) (lif_ingress l') \<Longrightarrow> lif_session l' \<in> {0, lif_session l}"
  by (auto simp: same_or_revoked_def lif_session_def)

lemmas published_session = lifecycle_publish_same_or_revoked [THEN same_or_revoked_session]

lemma settles_registration: "settles a (publish_registration a c kind flag)"
proof -
  obtain ok l where l: "lifecycle_registration (ad_lifecycle a) c kind = (ok, l)" by fastforce
  then have "generation_of l = generation_of (ad_lifecycle a)" "lif_session l \<in> {0, lif_session (ad_lifecycle a)}"
    using publish_generation(1) [of "ad_lifecycle a" c kind] published_session(1) [of "ad_lifecycle a" c kind]
    by simp_all
  with l show ?thesis by (auto simp: publish_registration_def settles_def Let_def)
qed

lemma settles_call_opened:
  assumes "tracks a"
  shows "settles a (on_call_opened ua_registered a c type event)"
proof -
  define kind where "kind = (if type = BEVENT_CALL_INCOMING then BaresipEventKind.CallIncoming
    else BaresipEventKind.CallOutgoing)"
  obtain ok token l where
    l: "lifecycle_call_started (ad_lifecycle a) c (ad_native_key a + 1) kind = ((ok, token), l)"
    by (metis surj_pair)
  have g: "generation_of l = generation_of (ad_lifecycle a)" "lif_session l \<in> {0, lif_session (ad_lifecycle a)}"
    using publish_generation(2) [of "ad_lifecycle a" c "ad_native_key a + 1" kind]
      published_session(2) [of "ad_lifecycle a" c "ad_native_key a + 1" kind] l by simp_all
  have token: "token = ad_native_key a + 1" if "ok" "lif_session (ad_lifecycle a) \<noteq> 0"
    using lifecycle_call_started_ok [of "ad_lifecycle a" c "ad_native_key a + 1" kind token l] l that assms
    by (simp add: tracks_def linked_def Let_def)
  have grows: "k \<noteq> u64_max \<Longrightarrow> k \<le> k + 1" for k :: u64
    using inc_gt [of k] by (rule order_less_imp_le)
  show ?thesis
    using l g token
    by (auto simp: on_call_opened_def kind_def [symmetric] settles_def grows Let_def)
qed

lemma settles_call_changed: "settles a (on_call_changed a c type event)"
proof -
  define kind where "kind = (if type = BEVENT_CALL_ESTABLISHED then BaresipEventKind.CallEstablished
    else BaresipEventKind.CallClosed)"
  obtain ok l where
    l: "lifecycle_call_changed (ad_lifecycle a) c (ad_native_key a) kind = (ok, l)" by fastforce
  have "generation_of l = generation_of (ad_lifecycle a)" "lif_session l \<in> {0, lif_session (ad_lifecycle a)}"
    using publish_generation(3) [of "ad_lifecycle a" c "ad_native_key a" kind]
      published_session(3) [of "ad_lifecycle a" c "ad_native_key a" kind] l by simp_all
  with l show ?thesis
    by (auto simp: on_call_changed_def kind_def [symmetric] settles_def clear_call_flags_def Let_def)
qed

lemma settles_on_event:
  assumes "tracks a"
  shows "settles a (on_event ua_registered a c type event_ptr)"
proof -
  have "settles a (a\<lparr>ad_transfer_failed := True\<rparr>)" by (simp add: settles_def)
  then show ?thesis
    using settles_registration settles_call_opened [OF assms] settles_call_changed
    by (cases type) (simp_all add: on_event_def split: option.split)
qed

lemma settles_fence:
  "settles a (a\<lparr>ad_lifecycle := (ad_lifecycle a)\<lparr>lif_fence := f\<rparr>\<rparr>)"
  "settles b a \<Longrightarrow> settles b (a\<lparr>ad_lifecycle := (ad_lifecycle a)\<lparr>lif_fence := f\<rparr>\<rparr>)"
  by (simp_all add: settles_def lif_session_def)

lemma settles_callback:
  assumes "adapter_inv a"
  shows "settles a (adapter_callback ua_registered a c type event_ptr)"
proof -
  obtain lease l where h: "hold_native_callback (ad_lifecycle a) c = (lease, l)" by fastforce
  then have "l = (ad_lifecycle a)\<lparr>lif_fence := lif_fence l\<rparr>"
    by (auto simp: hold_native_callback_def Let_def split: if_splits prod.splits)
  then obtain f where l: "l = (ad_lifecycle a)\<lparr>lif_fence := f\<rparr>" ..
  have t: "tracks (a\<lparr>ad_lifecycle := l\<rparr>)"
    by (rule tracks_lifecycle) (use assms l in \<open>simp_all add: adapter_inv_def tracks_def\<close>)
  show ?thesis
    using h l settles_fence(1) [of a f] settles_trans [OF settles_fence(1) [of a f]
        settles_fence(2) [OF settles_on_event [OF t [unfolded l]]]]
    by (simp add: adapter_callback_def Let_def)
qed

lemma settles_callbacks:
  assumes "adapter_inv a"
  shows "settles a (run_callbacks a cbs)"
  using assms
proof (induction cbs arbitrary: a)
  case Nil
  then show ?case by (simp add: run_callbacks_def)
next
  case (Cons cb cbs)
  obtain reg c type ev where cb: "cb = (reg, c, type, ev)" by (cases cb)
  let ?b = "adapter_callback reg a c type ev"
  have "settles ?b (run_callbacks ?b cbs)" using Cons.IH callback_inv [OF Cons.prems] by simp
  with settles_trans [OF settles_callback [OF Cons.prems]] cb show ?case by (simp add: run_callbacks_def)
qed

section \<open>One-time requests\<close>

datatype OneShot = AnswerOnce | HangupOnce | TransferOnce

fun sent :: "OneShot \<Rightarrow> BaresipSdkEventAdapter \<Rightarrow> bool" where
  "sent AnswerOnce a = ad_answer_sent a"
| "sent HangupOnce a = ad_hangup_sent a"
| "sent TransferOnce a = ad_transfer_attempted a"

datatype PortCall =
    PortOriginate wstr
  | PortAnswer u64
  | PortHangup u64
  | PortSetMuted u64 bool
  | PortSetHeld u64 bool
  | PortSendDtmf u64 char
  | PortTransfer u64 string

fun port_call ::
    "wctype \<Rightarrow> CallAnswers \<Rightarrow> u64 \<Rightarrow> BaresipSdkEventAdapter \<Rightarrow> PortCall \<Rightarrow>
     SdkRequest list \<times> BaresipSdkEventAdapter" where
  "port_call ct w s a (PortOriginate d) = snd (originate ct w s a d)"
| "port_call ct w s a (PortAnswer t) = snd (port_answer w s a t)"
| "port_call ct w s a (PortHangup t) = snd (port_hangup w s a t)"
| "port_call ct w s a (PortSetMuted t d) = snd (port_set_muted w s a t d)"
| "port_call ct w s a (PortSetHeld t d) = snd (port_set_held w s a t d)"
| "port_call ct w s a (PortSendDtmf t k) = snd (port_send_dtmf_info w s a t k)"
| "port_call ct w s a (PortTransfer t u) = snd (port_transfer ct w s a t u)"

text \<open>The one-time requests among the SDK functions an operation called, with session and token.\<close>

fun one_shots :: "u64 \<Rightarrow> PortCall \<Rightarrow> SdkRequest list \<Rightarrow> (OneShot \<times> u64 \<times> u64) list" where
  "one_shots s (PortAnswer t) (UaAnswer p # rs) = [(AnswerOnce, s, t)]"
| "one_shots s (PortHangup t) (UaHangup p # rs) = [(HangupOnce, s, t)]"
| "one_shots s (PortTransfer t u) (CallTransfer p v # rs) = [(TransferOnce, s, t)]"
| "one_shots s c rs = []"

text \<open>The event loop: adapter operations, operations of ports of any session, drained events.\<close>

datatype LoopStep =
    LoopAdapter AdapterOp
  | LoopPort u64 PortCall CallAnswers
  | LoopDrain

definition adapter_drain :: "BaresipSdkEventAdapter \<Rightarrow> Batch \<times> BaresipSdkEventAdapter" where
  "adapter_drain a =
     (let (ing, mb) = lif_ingress (ad_lifecycle a); (batch, mb') = mailbox_drain mb
      in (batch, a\<lparr>ad_lifecycle := (ad_lifecycle a)\<lparr>lif_ingress := (ing, mb')\<rparr>\<rparr>))"

type_synonym loop_state = "u64 \<times> BaresipSdkEventAdapter \<times> (OneShot \<times> u64 \<times> u64) list"

fun loop_step :: "wctype \<Rightarrow> u64 \<Rightarrow> loop_state \<Rightarrow> LoopStep \<Rightarrow> loop_state option" where
  "loop_step ct self (po, a, log) (LoopAdapter op) =
     map_option (\<lambda>(po', a'). (po', a', log)) (adapter_op self (po, a) op)"
| "loop_step ct self (po, a, log) (LoopPort s c w) =
     (let (rs, a') = port_call ct w s a c in Some (po, a', log @ one_shots s c rs))"
| "loop_step ct self (po, a, log) LoopDrain = Some (po, snd (adapter_drain a), log)"

fun loop_run :: "wctype \<Rightarrow> u64 \<Rightarrow> loop_state \<Rightarrow> LoopStep list \<Rightarrow> loop_state option" where
  "loop_run ct self st [] = Some st"
| "loop_run ct self st (x # xs) =
     (case loop_step ct self st x of None \<Rightarrow> None | Some st' \<Rightarrow> loop_run ct self st' xs)"

text \<open>
  The log is free of duplicates because an entry of the running session is older than the current
  call, or is about it and its flag is set; and entries of other sessions are older than the
  session counter.
\<close>

definition issued_ok :: "BaresipSdkEventAdapter \<Rightarrow> (OneShot \<times> u64 \<times> u64) list \<Rightarrow> bool" where
  "issued_ok a log \<longleftrightarrow> distinct log \<and>
     lif_session (ad_lifecycle a) \<le> generation_of (ad_lifecycle a) \<and>
     (\<forall>(k, s, t) \<in> set log. s \<noteq> 0 \<and> t \<noteq> 0 \<and> s \<le> generation_of (ad_lifecycle a) \<and>
        (s = lif_session (ad_lifecycle a) \<longrightarrow>
           t \<le> ad_native_key a \<and> (t = ad_active_token a \<longrightarrow> sent k a)))"

lemma issued_settles:
  assumes "issued_ok a log" "settles a a'"
  shows "issued_ok a' log"
proof (cases "lif_session (ad_lifecycle a') = 0")
  case True
  with assms show ?thesis by (auto simp: issued_ok_def settles_def)
next
  case False
  then have s: "lif_session (ad_lifecycle a') = lif_session (ad_lifecycle a)"
    "generation_of (ad_lifecycle a') = generation_of (ad_lifecycle a)"
    "ad_native_key a \<le> ad_native_key a'"
    using assms(2) by (auto simp: settles_def)
  have "t \<le> ad_native_key a' \<and> (t = ad_active_token a' \<longrightarrow> sent k a')"
    if "(k, lif_session (ad_lifecycle a), t) \<in> set log" for k t
  proof -
    have t: "t \<noteq> 0" "t \<le> ad_native_key a" "t = ad_active_token a \<longrightarrow> sent k a"
      using assms(1) that by (auto simp: issued_ok_def)
    moreover have "sent k a'" if "t = ad_active_token a'"
      using assms(2) that t False by (cases k) (auto simp: settles_def)
    ultimately show ?thesis using s(3) by (auto intro: order_trans)
  qed
  with assms(1) s show ?thesis by (auto simp: issued_ok_def)
qed

text \<open>A new session has a number of its own; an ended one only leaves entries behind.\<close>

lemma issued_new_session:
  assumes "issued_ok a log" "generation_of (ad_lifecycle a) \<le> generation_of (ad_lifecycle a')"
    "lif_session (ad_lifecycle a') = 0 \<or>
     generation_of (ad_lifecycle a) < lif_session (ad_lifecycle a') \<and>
       lif_session (ad_lifecycle a') = generation_of (ad_lifecycle a')"
  shows "issued_ok a' log"
  using assms by (fastforce simp: issued_ok_def)

lemma begin_session_number:
  assumes "lifecycle_begin l account = Some (c, l')"
  shows "if captured c then generation_of l < generation_of l' \<and> lif_session l' = generation_of l'
    else generation_of l' = generation_of l \<and> (lif_session l' = lif_session l \<or> lif_session l' = 0)"
proof -
  have "generation_of l < generation_of l + 1" if "generation_of l \<noteq> u64_max"
    using inc_gt [OF that] .
  with assms show ?thesis
    by (cases "lif_ingress l")
      (auto simp: lifecycle_begin_def ingress_begin_session_def mailbox_begin_session_def lif_session_def
        Let_def captured_def no_session_def split: if_splits prod.splits option.splits)
qed

lemma revoke_and_wait_session:
  assumes "revoke_and_wait l = Some l'"
  shows "generation_of l' = generation_of l" "lif_session l' = 0"
  using assms
  by (auto simp: revoke_and_wait_def revoke_finish_def revoke_start_def lif_session_def revoke_session
      split: option.splits)

lemma issued_adapter_start:
  assumes "issued_ok a log" "adapter_start self po a ua allocated err = Some (ok, po', a')"
  shows "issued_ok a' log"
proof (cases "ad_registered a \<or> ua = 0 \<or> length (ad_contexts a) \<ge> max_contexts \<or> po \<noteq> 0")
  case True
  then have "adapter_start self po a ua allocated err = Some (False, po, a)"
    by (auto simp: adapter_start_def)
  with assms show ?thesis by simp
next
  case False
  obtain c l where b: "lifecycle_begin (ad_lifecycle a) ua = Some (c, l)" using begin_returns by fastforce
  note n = begin_session_number [OF b]
  show ?thesis
  proof (cases "captured c")
    case False
    with n have "settles a (a\<lparr>ad_lifecycle := l\<rparr>)" by (intro settles_lifecycle) simp_all
    moreover have "a' = a\<lparr>ad_lifecycle := l\<rparr>"
      using assms(2) b False \<open>\<not> (ad_registered a \<or> _)\<close> by (simp add: adapter_start_def)
    ultimately show ?thesis using issued_settles [OF assms(1)] by simp
  next
    case True
    have "ad_lifecycle a' = l \<or>
        generation_of (ad_lifecycle a') = generation_of l \<and> lif_session (ad_lifecycle a') = 0"
      using assms(2) b True False revoke_and_wait_session [of l]
      by (auto simp: adapter_start_def Let_def split: if_splits option.splits)
    with True n show ?thesis
      by (intro issued_new_session [OF assms(1)]) (auto intro: order_less_imp_le)
  qed
qed

lemma issued_adapter_op:
  assumes "adapter_inv a" "issued_ok a log" "adapter_op self (po, a) op = Some (po', a')"
  shows "issued_ok a' log"
proof (cases op)
  case (AdapterStart ua allocated err)
  with assms(3) obtain ok where "adapter_start self po a ua allocated err = Some (ok, po', a')" by auto
  with issued_adapter_start [OF assms(2)] show ?thesis by simp
next
  case AdapterStop
  with assms(3) obtain l where "revoke_and_wait (ad_lifecycle a) = Some l" "ad_lifecycle a' = l"
    by (auto simp: adapter_stop_def split: option.splits)
  with revoke_and_wait_session issued_new_session [OF assms(2), of a'] show ?thesis by simp
next
  case (AdapterCallback ua_registered c type event_ptr)
  with assms(3) settles_callback [OF assms(1)] issued_settles [OF assms(2)] show ?thesis by auto
qed

lemma drain_keeps:
  assumes "adapter_inv a"
  shows "adapter_inv (snd (adapter_drain a))" "settles a (snd (adapter_drain a))"
proof -
  obtain ing mb where li: "lif_ingress (ad_lifecycle a) = (ing, mb)" by fastforce
  obtain batch mb' where d: "mailbox_drain mb = (batch, mb')" by fastforce
  have mb': "mailbox_inv mb'" "mb_generation mb' = mb_generation mb"
    using assms d li drain_inv [of mb]
    by (auto simp: adapter_inv_def tracks_def mailbox_drain_def Let_def split: if_splits)
  let ?l = "(ad_lifecycle a)\<lparr>lif_ingress := (ing, mb')\<rparr>"
  have eq: "snd (adapter_drain a) = a\<lparr>ad_lifecycle := ?l\<rparr>" using li d by (simp add: adapter_drain_def)
  have "tracks (a\<lparr>ad_lifecycle := ?l\<rparr>)"
    by (rule tracks_lifecycle) (use assms li mb' in \<open>simp_all add: adapter_inv_def\<close>)
  then show "adapter_inv (snd (adapter_drain a))"
    using assms li mb' by (simp add: eq adapter_inv_def lifecycle_inv_idle lif_session_def)
  show "settles a (snd (adapter_drain a))"
    unfolding eq by (rule settles_lifecycle) (use li mb' in \<open>simp_all add: lif_session_def\<close>)
qed

text \<open>Flags and readback of a call change nothing the invariants speak of.\<close>

lemma adapter_inv_flags [simp]:
  "adapter_inv (a\<lparr>ad_answer_sent := f\<rparr>) = adapter_inv a"
  "adapter_inv (a\<lparr>ad_hangup_sent := f\<rparr>) = adapter_inv a"
  "adapter_inv (a\<lparr>ad_transfer_attempted := f\<rparr>) = adapter_inv a"
  "adapter_inv (a\<lparr>ad_transfer_failed := f\<rparr>) = adapter_inv a"
  by (simp_all add: adapter_inv_def tracks_def linked_def calls_ok_def)

lemma resolve_token:
  assumes "resolve reg s a t \<noteq> 0"
  shows "s \<noteq> 0" "t \<noteq> 0" "t = ad_active_token a" "s = lif_session (ad_lifecycle a)" "adapter_active a"
    "native_register_ok_seen reg a" "resolve reg s a t = ad_active_call a"
  using assms
  by (auto simp: resolve_def owns_session_def adapter_active_def is_live_def split: if_splits)

text \<open>Setting the flag of a request and logging it.\<close>

lemma issued_once:
  assumes "adapter_inv a" "issued_ok a log" "resolve reg s a t \<noteq> 0" "\<not> sent k a"
    and "sent k b" "\<And>j. sent j a \<Longrightarrow> sent j b" "ad_lifecycle b = ad_lifecycle a"
    "ad_native_key b = ad_native_key a" "ad_active_token b = ad_active_token a"
  shows "issued_ok b (log @ [(k, s, t)])"
proof -
  note r = resolve_token [OF assms(3)]
  have "linked a" using assms(1) r by (simp add: adapter_inv_def tracks_def)
  then have "t = ad_native_key a" using r by (simp add: linked_def Let_def)
  moreover have "(k, s, t) \<notin> set log" using assms(2,4) r by (auto simp: issued_ok_def)
  ultimately show ?thesis using assms(2,5-9) r by (auto simp: issued_ok_def)
qed

lemma callbacks_step:
  assumes "adapter_inv b" "issued_ok b log"
  shows "adapter_inv (run_callbacks b cbs)" "issued_ok (run_callbacks b cbs) log"
  using run_callbacks_inv [OF assms(1)] issued_settles [OF assms(2) settles_callbacks [OF assms(1)]] by auto

lemma media_call_resolved: "media_call w s a t \<noteq> 0 \<Longrightarrow> resolve (ca_registered w) s a t \<noteq> 0"
  by (simp add: media_call_def Let_def split: if_splits)

lemma answer_step:
  assumes "adapter_inv a" "issued_ok a log" "port_answer w s a t = (ok, rs, a')"
  shows "adapter_inv a' \<and> issued_ok a' (log @ one_shots s (PortAnswer t) rs)"
proof (cases "rs = []")
  case True
  with assms show ?thesis by (auto simp: port_answer_def Let_def split: if_splits)
next
  case False
  let ?b = "a\<lparr>ad_answer_sent := True\<rparr>"
  have r: "resolve (ca_registered w) s a t \<noteq> 0" "\<not> sent AnswerOnce a"
    "a' = run_callbacks ?b (ca_callbacks w)" "one_shots s (PortAnswer t) rs = [(AnswerOnce, s, t)]"
    using assms(3) False by (auto simp: port_answer_def Let_def split: if_splits)
  have sent: "sent j ?b" if "sent j a" for j using that by (cases j) auto
  have "issued_ok ?b (log @ [(AnswerOnce, s, t)])"
    by (rule issued_once [OF assms(1,2) r(1,2) _ sent]) auto
  with callbacks_step [of ?b] assms(1) r(3,4) show ?thesis by simp
qed

lemma hangup_step:
  assumes "adapter_inv a" "issued_ok a log" "port_hangup w s a t = (ok, rs, a')"
  shows "adapter_inv a' \<and> issued_ok a' (log @ one_shots s (PortHangup t) rs)"
proof (cases "rs = []")
  case True
  with assms show ?thesis by (auto simp: port_hangup_def Let_def split: if_splits)
next
  case False
  let ?b = "a\<lparr>ad_hangup_sent := True\<rparr>"
  have r: "resolve (ca_registered w) s a t \<noteq> 0" "\<not> sent HangupOnce a"
    "a' = run_callbacks ?b (ca_callbacks w)" "one_shots s (PortHangup t) rs = [(HangupOnce, s, t)]"
    using assms(3) False by (auto simp: port_hangup_def Let_def split: if_splits)
  have sent: "sent j ?b" if "sent j a" for j using that by (cases j) auto
  have "issued_ok ?b (log @ [(HangupOnce, s, t)])"
    by (rule issued_once [OF assms(1,2) r(1,2) _ sent]) auto
  with callbacks_step [of ?b] assms(1) r(3,4) show ?thesis by simp
qed

lemma transfer_step:
  assumes "adapter_inv a" "issued_ok a log" "port_transfer ct w s a t u = (err, rs, a')"
  shows "adapter_inv a' \<and> issued_ok a' (log @ one_shots s (PortTransfer t u) rs)"
proof (cases "rs = []")
  case True
  with assms show ?thesis by (auto simp: port_transfer_def Let_def split: if_splits)
next
  case False
  let ?b = "a\<lparr>ad_transfer_attempted := True, ad_transfer_failed := False\<rparr>"
  let ?c = "run_callbacks ?b (ca_callbacks w)"
  have r: "resolve (ca_registered w) s a t \<noteq> 0" "\<not> sent TransferOnce a"
    "a' = ?c \<or> (\<exists>f. a' = ?c\<lparr>ad_transfer_failed := f\<rparr>)"
    "one_shots s (PortTransfer t u) rs = [(TransferOnce, s, t)]"
    using assms(3) False media_call_resolved [of w s a t]
    by (auto simp: port_transfer_def Let_def split: if_splits)
  have sent: "sent j ?b" if "sent j a" for j using that by (cases j) auto
  have "issued_ok ?b (log @ [(TransferOnce, s, t)])"
    by (rule issued_once [OF assms(1,2) r(1,2) _ sent]) auto
  with callbacks_step [of ?b] assms(1)
  have c: "adapter_inv ?c" "issued_ok ?c (log @ [(TransferOnce, s, t)])" by simp_all
  have "settles ?c (?c\<lparr>ad_transfer_failed := f\<rparr>)" for f by (simp add: settles_def)
  with c issued_settles r(3,4) show ?thesis by auto
qed

text \<open>The other operations make no one-time request.\<close>

lemma other_step:
  assumes "adapter_inv a" "issued_ok a log" "a' = a \<or> a' = run_callbacks a cbs"
  shows "adapter_inv a' \<and> issued_ok a' (log @ [])"
  using assms callbacks_step [OF assms(1,2)] by auto

lemma port_call_step:
  assumes "adapter_inv a" "issued_ok a log" "port_call ct w s a c = (rs, a')"
  shows "adapter_inv a' \<and> issued_ok a' (log @ one_shots s c rs)"
proof (cases c)
  case (PortOriginate d)
  have "a' = a \<or> a' = run_callbacks a (ca_callbacks w)"
    using assms(3) PortOriginate by (auto simp: originate_def Let_def split: if_splits prod.splits)
  from other_step [OF assms(1,2) this] PortOriginate show ?thesis by simp
next
  case (PortAnswer t)
  with assms(3) answer_step [OF assms(1,2)] show ?thesis by (metis port_call.simps(2) prod.collapse)
next
  case (PortHangup t)
  with assms(3) hangup_step [OF assms(1,2)] show ?thesis by (metis port_call.simps(3) prod.collapse)
next
  case (PortSetMuted t d)
  have "a' = a \<or> a' = run_callbacks a (ca_callbacks w)"
    using assms(3) PortSetMuted by (auto simp: port_set_muted_def Let_def split: if_splits)
  from other_step [OF assms(1,2) this] PortSetMuted show ?thesis by simp
next
  case (PortSetHeld t d)
  have "a' = a \<or> a' = run_callbacks a (ca_callbacks w)"
    using assms(3) PortSetHeld by (auto simp: port_set_held_def Let_def split: if_splits)
  from other_step [OF assms(1,2) this] PortSetHeld show ?thesis by simp
next
  case (PortSendDtmf t k)
  have "a' = a \<or> a' = run_callbacks a (ca_callbacks w)"
    using assms(3) PortSendDtmf by (auto simp: port_send_dtmf_info_def Let_def split: if_splits)
  from other_step [OF assms(1,2) this] PortSendDtmf show ?thesis by simp
next
  case (PortTransfer t u)
  with assms(3) transfer_step [OF assms(1,2)] show ?thesis by (metis port_call.simps(7) prod.collapse)
qed

lemma port_call_inv:
  assumes "adapter_inv a" "port_call ct w s a c = (rs, a')"
  shows "adapter_inv a'"
  using assms
  by (cases c)
    (auto simp: originate_def port_answer_def port_hangup_def port_set_muted_def port_set_held_def
      port_send_dtmf_info_def port_transfer_def Let_def run_callbacks_inv
      split: if_splits prod.splits)

lemma loop_step_ok:
  assumes "adapter_inv a" "issued_ok a log"
  obtains po' a' log' where "loop_step ct self (po, a, log) x = Some (po', a', log')"
    "adapter_inv a'" "issued_ok a' log'"
proof (cases x)
  case (LoopAdapter op)
  obtain po' a' where op: "adapter_op self (po, a) op = Some (po', a')" "adapter_inv a'"
    using adapter_op_inv [OF assms(1)] by blast
  with LoopAdapter that issued_adapter_op [OF assms op(1)] show thesis by simp
next
  case (LoopPort s c w)
  obtain rs a' where "port_call ct w s a c = (rs, a')" by fastforce
  with LoopPort that port_call_step [OF assms this] show thesis by simp
next
  case LoopDrain
  with that drain_keeps [OF assms(1)] issued_settles [OF assms(2)] show thesis by simp
qed

lemma loop_run_ok:
  assumes "adapter_inv a" "issued_ok a log"
  shows "\<exists>po' a' log'. loop_run ct self (po, a, log) xs = Some (po', a', log') \<and>
    adapter_inv a' \<and> issued_ok a' log'"
  using assms
proof (induction xs arbitrary: po a log)
  case Nil
  then show ?case by simp
next
  case (Cons x xs)
  obtain po' a' log' where "loop_step ct self (po, a, log) x = Some (po', a', log')"
    "adapter_inv a'" "issued_ok a' log'" using loop_step_ok [OF Cons.prems] by blast
  with Cons.IH show ?case by simp
qed

lemma issued_ok_empty: "issued_ok empty_adapter []"
  by (simp add: issued_ok_def empty_adapter_def empty_lifecycle_def lif_session_def empty_ingress_def)

section \<open>What an SDK call rests on\<close>

lemma owned_session:
  "owns_session reg s a \<Longrightarrow> adapter_session a = s \<and> s \<noteq> 0 \<and> native_register_ok_seen reg a"
  by (simp add: owns_session_def adapter_session_def)

lemma resolved:
  "resolve reg s a t \<noteq> 0 \<Longrightarrow> resolve reg s a t = ad_active_call a \<and> t = ad_active_token a \<and>
     adapter_session a = s \<and> s \<noteq> 0 \<and> native_register_ok_seen reg a"
  using owned_session [of reg s a] by (auto simp: resolve_def split: if_splits)

lemma media_resolved:
  "media_call w s a t \<noteq> 0 \<Longrightarrow> media_call w s a t = ad_active_call a \<and> t = ad_active_token a \<and>
     ad_call_established a \<and> \<not> ad_hangup_sent a \<and>
     adapter_session a = s \<and> s \<noteq> 0 \<and> native_register_ok_seen (ca_registered w) a"
  using resolved [of "ca_registered w" s a t] by (simp add: media_call_def Let_def split: if_splits)

lemma wide_narrow: "(\<And>c. c \<in> set d \<Longrightarrow> c < 256) \<Longrightarrow> W (map narrow d) = d"
  by (induction d) (simp_all add: W_def wc_def)

definition sample_in_call :: BaresipSdkEventAdapter where
  "sample_in_call = adapter_callback (\<lambda>ua. True) sample_adapter sample_context BEVENT_CALL_INCOMING
     (Some \<lparr>sdk_ua = 9, sdk_call = 77\<rparr>)"

definition sample_call_answers :: CallAnswers where
  "sample_call_answers = \<lparr>ca_registered = \<lambda>ua. True, ca_registered_after = \<lambda>ua. True, ca_result = 0,
     ca_callbacks = [], ca_audio = True, ca_muted = False, ca_muted_after = True, ca_onhold = False,
     ca_account = True, ca_dtmf_info = True\<rparr>"

lemma port_request_sound:
  assumes "port_call ct w s a c = (rs, a')" "r \<in> set rs"
  shows "adapter_session a = s \<and> s \<noteq> 0 \<and> native_register_ok_seen (ca_registered w) a \<and>
    (case r of
       UaConnect uri \<Rightarrow> ad_active_call a = 0 \<and>
         (\<exists>d. c = PortOriginate d \<and> uri = map narrow d \<and> d = W uri \<and> length d \<le> 512 \<and>
            validate_address ct d = (AddressError.NoAddressError, d))
     | UaAnswer p \<Rightarrow> p = ad_active_call a \<and> c = PortAnswer (ad_active_token a) \<and> ad_active_incoming a \<and>
         \<not> ad_call_established a \<and> \<not> ad_answer_sent a \<and> \<not> ad_hangup_sent a
     | UaHangup p \<Rightarrow> p = ad_active_call a \<and> c = PortHangup (ad_active_token a) \<and> \<not> ad_hangup_sent a
     | AudioMute p d \<Rightarrow> p = ad_active_call a \<and> c = PortSetMuted (ad_active_token a) d \<and>
         ad_call_established a \<and> \<not> ad_hangup_sent a \<and> ca_muted w \<noteq> d
     | CallHold p d \<Rightarrow> p = ad_active_call a \<and> c = PortSetHeld (ad_active_token a) d \<and>
         ad_call_established a \<and> \<not> ad_hangup_sent a \<and> ca_onhold w \<noteq> d
     | CallSendDigit p k \<Rightarrow> p = ad_active_call a \<and> c = PortSendDtmf (ad_active_token a) k \<and>
         ad_call_established a \<and> \<not> ad_hangup_sent a \<and> \<not> ad_transfer_attempted a \<and> \<not> ca_onhold w
     | CallTransfer p u \<Rightarrow> p = ad_active_call a \<and> c = PortTransfer (ad_active_token a) u \<and>
         ad_call_established a \<and> \<not> ad_hangup_sent a \<and> \<not> ad_transfer_attempted a \<and>
         valid_native_transfer_uri ct u)"
proof (cases c)
  case (PortOriginate d)
  have "owns_session (ca_registered w) s a" "ad_active_call a = 0" "r = UaConnect (map narrow d)"
    "length d \<le> 512" "validate_address ct d = (AddressError.NoAddressError, d)"
    and small: "\<And>c. c \<in> set d \<Longrightarrow> c < 127"
    using assms PortOriginate
    by (auto simp: originate_def Let_def not_le split: if_splits prod.splits)
  moreover have "W (map narrow d) = d"
    by (rule wide_narrow) (use small in \<open>force intro: order_less_trans\<close>)
  ultimately show ?thesis using PortOriginate owned_session [of "ca_registered w" s a] by simp
next
  case (PortAnswer t)
  with assms resolved [of "ca_registered w" s a t] show ?thesis
    by (auto simp: port_answer_def Let_def split: if_splits)
next
  case (PortHangup t)
  with assms resolved [of "ca_registered w" s a t] show ?thesis
    by (auto simp: port_hangup_def Let_def split: if_splits)
next
  case (PortSetMuted t d)
  with assms media_resolved [of w s a t] show ?thesis
    by (auto simp: port_set_muted_def Let_def split: if_splits)
next
  case (PortSetHeld t d)
  with assms media_resolved [of w s a t] show ?thesis
    by (auto simp: port_set_held_def Let_def split: if_splits)
next
  case (PortSendDtmf t k)
  with assms media_resolved [of w s a t] show ?thesis
    by (auto simp: port_send_dtmf_info_def Let_def split: if_splits)
next
  case (PortTransfer t u)
  with assms media_resolved [of w s a t] show ?thesis
    by (auto simp: port_transfer_def Let_def split: if_splits)
qed

section \<open>Properties\<close>

text \<open>
  A call is answered, hung up and transferred at most once. In any run of the event loop
  (starts, stops and callbacks of the adapter, operations of ports built in any session and for any
  call token, with any answers of the SDK and any callbacks it runs before it returns, and drains
  of the mailbox) every operation returns, and the requests to answer, hang up and transfer that
  reached the SDK are distinct as triples of request, session and call token.
\<close>

theorem sdk_requests_once:
  "\<exists>po' a' log. loop_run ct self (po, empty_adapter, []) xs = Some (po', a', log) \<and> distinct log"
  using loop_run_ok [OF adapter_inv_empty issued_ok_empty] unfolding issued_ok_def by blast

text \<open>
  C16. An SDK function is only called on proof: the port belongs to the live session of the
  adapter, the SDK confirms the registration, and what it acts on is the call the adapter tracks
  under the token that was asked for; answering needs an unanswered incoming call that is not
  being hung up, and every media operation an established one.
\<close>

theorem sdk_call_needs_ownership:
  assumes "port_call ct w s a c = (rs, a')" "r \<in> set rs"
  shows "adapter_session a = s \<and> s \<noteq> 0 \<and> native_register_ok_seen (ca_registered w) a \<and>
    (case r of
       UaConnect uri \<Rightarrow> ad_active_call a = 0 \<and>
         (\<exists>d. c = PortOriginate d \<and> uri = map narrow d \<and> d = W uri \<and> length d \<le> 512 \<and>
            validate_address ct d = (AddressError.NoAddressError, d))
     | UaAnswer p \<Rightarrow> p = ad_active_call a \<and> c = PortAnswer (ad_active_token a) \<and> ad_active_incoming a \<and>
         \<not> ad_call_established a \<and> \<not> ad_answer_sent a \<and> \<not> ad_hangup_sent a
     | UaHangup p \<Rightarrow> p = ad_active_call a \<and> c = PortHangup (ad_active_token a) \<and> \<not> ad_hangup_sent a
     | AudioMute p d \<Rightarrow> p = ad_active_call a \<and> c = PortSetMuted (ad_active_token a) d \<and>
         ad_call_established a \<and> \<not> ad_hangup_sent a \<and> ca_muted w \<noteq> d
     | CallHold p d \<Rightarrow> p = ad_active_call a \<and> c = PortSetHeld (ad_active_token a) d \<and>
         ad_call_established a \<and> \<not> ad_hangup_sent a \<and> ca_onhold w \<noteq> d
     | CallSendDigit p k \<Rightarrow> p = ad_active_call a \<and> c = PortSendDtmf (ad_active_token a) k \<and>
         ad_call_established a \<and> \<not> ad_hangup_sent a \<and> \<not> ad_transfer_attempted a \<and> \<not> ca_onhold w
     | CallTransfer p u \<Rightarrow> p = ad_active_call a \<and> c = PortTransfer (ad_active_token a) u \<and>
         ad_call_established a \<and> \<not> ad_hangup_sent a \<and> \<not> ad_transfer_attempted a \<and>
         valid_native_transfer_uri ct u)"
  using port_request_sound [OF assms] .

theorem sdk_call_needs_ownership_witness:
  "adapter_session sample_in_call = 1 \<and> native_register_ok_seen (\<lambda>ua. True) sample_in_call"
proof -
  obtain rs a' where p: "port_call c_locale sample_call_answers 1 sample_in_call (PortAnswer 1) = (rs, a')"
    by fastforce
  have "fst (port_call c_locale sample_call_answers 1 sample_in_call (PortAnswer 1)) = [UaAnswer 77]"
    by code_simp
  with p have "UaAnswer 77 \<in> set rs" by simp
  from sdk_call_needs_ownership [OF p this] show ?thesis by (simp add: sample_call_answers_def)
qed

end
