(* ===== verification/Sip_Engine.thy ===== *)
theory Sip_Engine
  imports Sdk_Call_Port
begin

text \<open>
  The native engine, \<open>baresip_sip_engine.cpp\<close>, on its reactor thread,
  \<open>baresip_native_libre_reactor.cpp\<close>. The interface's thread configures, starts, stops and
  submits commands; the reactor's thread runs \<open>begin\<close>, then \<open>tick\<close> periodically and on wake, then
  \<open>end\<close>. One mutex guards what both use. What the SDK, libre and Windows answer is an argument of
  the operation, and so is what the interface's thread does between two critical sections of a
  tick. \<open>self\<close> is the address of the engine, \<open>ad\<close> that of its adapter; both classes keep a
  process-wide claim (0: free). A memory exhaustion inside a hook of the reactor is not modelled.
\<close>

section \<open>The reactor\<close>

datatype LibreReactorFault = NoFault | InitRejected | QueueRejected | HookFailed | MainLoopFailed

fun libre_reactor_fault_message :: "LibreReactorFault \<Rightarrow> string" where
  "libre_reactor_fault_message LibreReactorFault.InitRejected =
     ''Falha ao iniciar motor nativo; senha descartada. Inicializacao libre recusada.''"
| "libre_reactor_fault_message LibreReactorFault.QueueRejected =
     ''Falha ao iniciar motor nativo; senha descartada. Fila nativa indisponivel.''"
| "libre_reactor_fault_message LibreReactorFault.HookFailed =
     ''Falha em etapa do motor nativo; sessao encerrada e senha descartada. Pare o motor e registre novamente.''"
| "libre_reactor_fault_message LibreReactorFault.MainLoopFailed =
     ''Falha no ciclo do motor nativo; sessao encerrada e senha descartada. Pare o motor e registre novamente.''"
| "libre_reactor_fault_message LibreReactorFault.NoFault = []"

text \<open>\<open>rct_worker\<close>: the thread is joinable. \<open>rct_queue\<close>: the message queue is published.\<close>

record BaresipNativeLibreReactor =
  rct_running :: bool
  rct_generation :: u64
  rct_ticks :: u64
  rct_fault :: LibreReactorFault
  rct_queue :: bool
  rct_worker :: bool
  rct_ending :: bool

definition new_reactor :: BaresipNativeLibreReactor where
  "new_reactor = \<lparr>rct_running = False, rct_generation = 0, rct_ticks = 0,
     rct_fault = LibreReactorFault.NoFault, rct_queue = False, rct_worker = False,
     rct_ending = True\<rparr>"

text \<open>The parts of \<open>start\<close>, \<open>run\<close> and \<open>tick_on_owner\<close> that act on the reactor's own state.\<close>

definition reactor_starting :: "BaresipNativeLibreReactor \<Rightarrow> BaresipNativeLibreReactor" where
  "reactor_starting r = r\<lparr>rct_ending := False, rct_running := False, rct_ticks := 0,
     rct_fault := LibreReactorFault.NoFault\<rparr>"

definition publish_ready ::
    "BaresipNativeLibreReactor \<Rightarrow> bool \<Rightarrow> LibreReactorFault \<Rightarrow> BaresipNativeLibreReactor" where
  "publish_ready r running fault =
     r\<lparr>rct_running := running, rct_fault := fault,
       rct_generation := (if running \<and> rct_generation r \<noteq> u64_max then rct_generation r + 1
                          else rct_generation r)\<rparr>"

definition reactor_wake :: "BaresipNativeLibreReactor \<Rightarrow> int \<Rightarrow> bool" where
  "reactor_wake r push_result \<longleftrightarrow>
     \<not> (rct_ending r \<or> \<not> rct_queue r \<or> \<not> rct_running r) \<and> push_result = 0"

definition main_loop_ended ::
    "BaresipNativeLibreReactor \<Rightarrow> int \<Rightarrow> BaresipNativeLibreReactor" where
  "main_loop_ended r loop_error =
     (if loop_error \<noteq> 0 \<and> rct_fault r = LibreReactorFault.NoFault
      then r\<lparr>rct_fault := LibreReactorFault.MainLoopFailed\<rparr> else r)\<lparr>rct_ending := True\<rparr>"

definition worker_finished :: "BaresipNativeLibreReactor \<Rightarrow> BaresipNativeLibreReactor" where
  "worker_finished r = r\<lparr>rct_queue := False, rct_running := False\<rparr>"

section \<open>The engine's state\<close>

record BaresipSipEngine =
  eng_account :: SipAccount
  eng_policy_selected :: bool
  eng_tls_required :: bool
  eng_config :: NativeAccountConfig
  eng_audio_route :: NativeAudioRoute
  eng_audio_issue :: NativeAudioRouteStatus
  eng_password :: string
  eng_command :: NativeCallCommand
  eng_media :: NativeCallMediaState
  eng_last_hold_error :: int
  eng_mute_rejected :: bool
  eng_dtmf_rejected :: bool
  eng_admission :: NativeCommandAdmission
  eng_view :: SipRuntimeObservation
  eng_sdk_error :: int
  eng_sdk_stage :: string
  eng_feedback :: NativeDestinationFeedback
  eng_start_rejected :: bool
  eng_configure_rejected :: bool
  eng_registration_timed_out :: bool
  eng_configured :: bool
  eng_core :: bool
  eng_ua_initialized :: bool
  eng_claimed :: bool
  eng_failed :: bool
  eng_timeout_ms :: u32
  eng_deadline :: u64
  eng_owned :: u64
  eng_adapter :: BaresipSdkEventAdapter
  eng_projection :: SipEventProjection
  eng_reactor :: BaresipNativeLibreReactor
  eng_process_owner :: u64
  eng_adapter_owner :: u64

definition stopped_view :: SipRuntimeObservation where
  "stopped_view = observation RuntimeProcess.Stopped SipStatus.Disconnected SipEvidence.NoEvidence 0"

definition failed_view :: SipRuntimeObservation where
  "failed_view = observation RuntimeProcess.Failed SipStatus.Failed SipEvidence.NoEvidence 0"

definition new_engine :: BaresipSipEngine where
  "new_engine = \<lparr>eng_account = default_account, eng_policy_selected = False,
     eng_tls_required = False, eng_config = no_config, eng_audio_route = default_route,
     eng_audio_issue = NativeAudioRouteStatus.Ready, eng_password = [], eng_command = no_command,
     eng_media = no_media, eng_last_hold_error = 0, eng_mute_rejected = False,
     eng_dtmf_rejected = False, eng_admission = new_admission, eng_view = stopped_view,
     eng_sdk_error = 0, eng_sdk_stage = [], eng_feedback = new_feedback,
     eng_start_rejected = False, eng_configure_rejected = False,
     eng_registration_timed_out = False, eng_configured = False, eng_core = False,
     eng_ua_initialized = False, eng_claimed = False, eng_failed = False, eng_timeout_ms = 15000,
     eng_deadline = 0, eng_owned = 0, eng_adapter = empty_adapter,
     eng_projection = default_projection, eng_reactor = new_reactor, eng_process_owner = 0,
     eng_adapter_owner = 0\<rparr>"

text \<open>The SDK functions the engine calls, in order; \<open>CallRequest\<close> are those of the call port.\<close>

datatype SdkAction =
    ConfConfigureBuf string
  | BaresipInit
  | UaInit bool bool bool
  | ModAdd string
  | UaAlloc string
  | AccountSetAuthPass u64 string
  | AccountSetRegint u64 nat
  | UaUpdateAccount u64
  | UaRegister u64
  | EraseAccountPassword u64
  | UaStopAll
  | UaClose
  | ConfClose
  | BaresipClose
  | ModClose
  | CallRequest SdkRequest

type_synonym engine_result = "(SdkAction list \<times> BaresipSipEngine) option"

definition after_actions :: "SdkAction list \<Rightarrow> engine_result \<Rightarrow> engine_result" where
  "after_actions acts r = map_option (\<lambda>(more, e). (acts @ more, e)) r"

section \<open>Failing closed\<close>

text \<open>\<open>None\<close> would be a wait for callbacks that never return: lemma \<open>fail_returns\<close> excludes it.\<close>

definition engine_fail :: "u64 \<Rightarrow> BaresipSipEngine \<Rightarrow> engine_result" where
  "engine_fail ad e =
     (case adapter_stop ad (eng_adapter_owner e) (eng_adapter e) of
        None \<Rightarrow> None
      | Some (po, a) \<Rightarrow>
          Some (if eng_owned e \<noteq> 0 then [EraseAccountPassword (eng_owned e), UaStopAll] else [],
            e\<lparr>eng_password := [], eng_failed := True, eng_adapter_owner := po, eng_adapter := a,
              eng_owned := 0, eng_view := failed_view,
              eng_feedback := feedback_clear (eng_feedback e), eng_command := no_command,
              eng_media := no_media, eng_last_hold_error := 0, eng_mute_rejected := False,
              eng_dtmf_rejected := False, eng_audio_issue := NativeAudioRouteStatus.Ready\<rparr>))"

text \<open>\<open>checked\<close> with a nonzero error.\<close>

definition stage_failed ::
    "u64 \<Rightarrow> SdkAction list \<Rightarrow> int \<Rightarrow> string \<Rightarrow> BaresipSipEngine \<Rightarrow> engine_result" where
  "stage_failed ad acts error stage e =
     after_actions acts (engine_fail ad (e\<lparr>eng_sdk_error := error, eng_sdk_stage := stage\<rparr>))"

section \<open>Starting on the owner thread\<close>

record BeginAnswers =
  ba_conf :: int
  ba_init :: int
  ba_ua_init :: int
  ba_g711 :: int
  ba_wasapi :: int
  ba_ua_alloc :: int
  ba_ua :: u64
  ba_auth :: int
  ba_regint :: int
  ba_update :: int
  ba_allocated :: bool
  ba_bevent_error :: int
  ba_now_ms :: u64
  ba_register :: int
  ba_register_callbacks :: "sdk_callback list"

text \<open>From \<open>adapter.start\<close> on.\<close>

definition begin_registration ::
    "u64 \<Rightarrow> BeginAnswers \<Rightarrow> BaresipSipEngine \<Rightarrow> engine_result" where
  "begin_registration ad w e =
     (case adapter_start ad (eng_adapter_owner e) (eng_adapter e) (eng_owned e) (ba_allocated w)
             (ba_bevent_error w) of
        None \<Rightarrow> None
      | Some (ok, po, a) \<Rightarrow>
          (let e = e\<lparr>eng_adapter_owner := po, eng_adapter := a\<rparr> in
           if \<not> ok then engine_fail ad e
           else (let e = e\<lparr>eng_deadline := ba_now_ms w + ucast (eng_timeout_ms e),
                           eng_adapter := run_callbacks a (ba_register_callbacks w)\<rparr>;
                     acts = [UaRegister (eng_owned e)]
                 in if ba_register w \<noteq> 0
                    then stage_failed ad acts (ba_register w) ''ua_register'' e
                    else Some (acts, e))))"

text \<open>The account: from \<open>account_set_auth_pass\<close> on.\<close>

definition begin_account :: "u64 \<Rightarrow> BeginAnswers \<Rightarrow> BaresipSipEngine \<Rightarrow> engine_result" where
  "begin_account ad w e =
     (let ua = eng_owned e; a1 = [AccountSetAuthPass ua (eng_password e)];
          a2 = a1 @ [AccountSetRegint ua 600]; a3 = a2 @ [UaUpdateAccount ua];
          e = e\<lparr>eng_password := []\<rparr>
      in if ba_auth w \<noteq> 0 then stage_failed ad a1 (ba_auth w) ''auth'' e
         else if ba_regint w \<noteq> 0 then stage_failed ad a2 (ba_regint w) ''regint'' e
         else if ba_update w \<noteq> 0 then stage_failed ad a3 (ba_update w) ''ua_update'' e
         else after_actions a3 (begin_registration ad w e))"

definition engine_begin ::
    "u64 \<Rightarrow> u64 \<Rightarrow> BeginAnswers \<Rightarrow> BaresipSipEngine \<Rightarrow> engine_result" where
  "engine_begin self ad w e =
     (if eng_process_owner e \<noteq> 0 then engine_fail ad e
      else (let e = e\<lparr>eng_process_owner := self, eng_claimed := True\<rparr>;
                tls = acc_use_tls (eng_account e);
                a1 = [ConfConfigureBuf (nac_config (eng_config e))]; a2 = a1 @ [BaresipInit];
                a3 = a2 @ [UaInit (\<not> tls) False tls]; a4 = a3 @ [ModAdd ''g711''];
                a5 = a4 @ [ModAdd ''wasapi'']; a6 = a5 @ [UaAlloc (nac_aor (eng_config e))]
            in if ba_conf w \<noteq> 0 then stage_failed ad a1 (ba_conf w) ''config'' e
               else (let e = e\<lparr>eng_core := True\<rparr> in
               if ba_init w \<noteq> 0 then stage_failed ad a2 (ba_init w) ''baresip_init'' e
               else (let e = e\<lparr>eng_ua_initialized := True\<rparr> in
               if ba_ua_init w \<noteq> 0 then stage_failed ad a3 (ba_ua_init w) ''ua_init'' e
               else if ba_g711 w \<noteq> 0 then stage_failed ad a4 (ba_g711 w) ''g711'' e
               else if ba_wasapi w \<noteq> 0 then stage_failed ad a5 (ba_wasapi w) ''wasapi'' e
               else (let e = e\<lparr>eng_owned := ba_ua w\<rparr> in
               if ba_ua_alloc w \<noteq> 0 then stage_failed ad a6 (ba_ua_alloc w) ''ua_alloc'' e
               else after_actions a6 (begin_account ad w e))))))"

section \<open>Commands of the interface\<close>

text \<open>\<open>submit\<close>; the result of the wake-up is ignored. A null pointer is \<open>None\<close>.\<close>

definition submit_refused ::
    "BaresipSipEngine \<Rightarrow> NativeCallAction \<Rightarrow> string \<Rightarrow> NativeCallMediaState option \<Rightarrow>
     SipRuntimeObservation option \<Rightarrow> bool" where
  "submit_refused e a uri expected displayed \<longleftrightarrow>
     obs_process (eng_view e) \<noteq> RuntimeProcess.Running \<or>
     cmd_action (eng_command e) \<noteq> NativeCallAction.NoAction \<or>
     a = NativeCallAction.Dial \<and> obs_sip (eng_view e) \<noteq> SipStatus.Registered \<or>
     a = NativeCallAction.Answer \<and> obs_sip (eng_view e) \<noteq> SipStatus.Ringing \<or>
     a = NativeCallAction.Hangup \<and> obs_call_id (eng_view e) = 0 \<or>
     (a = NativeCallAction.SetMute \<or> a = NativeCallAction.SetHold \<or> a = NativeCallAction.Transfer) \<and>
       (case expected of None \<Rightarrow> True
        | Some m \<Rightarrow> \<not> native_media_controls_current m (eng_view e) \<or>
            \<not> native_media_controls_current (eng_media e) (eng_view e)) \<or>
     a = NativeCallAction.Dtmf \<and>
       (case expected of None \<Rightarrow> True
        | Some m \<Rightarrow> length uri \<noteq> 1 \<or> \<not> valid_native_dtmf_key (of_char (uri ! 0)) \<or>
            \<not> native_dtmf_controls_current m (eng_view e) \<or>
            \<not> native_dtmf_controls_current (eng_media e) (eng_view e)) \<or>
     a = NativeCallAction.Transfer \<and>
       med_transfer (eng_media e) \<noteq> NativeTransferState.NoTransfer \<or>
     (a = NativeCallAction.Answer \<or> a = NativeCallAction.Hangup) \<and>
       (case displayed of None \<Rightarrow> True
        | Some d \<Rightarrow> \<not> native_displayed_call_command_current a d (eng_view e))"

definition engine_submit ::
    "BaresipSipEngine \<Rightarrow> NativeCallAction \<Rightarrow> string \<Rightarrow> bool \<Rightarrow> NativeCallMediaState option \<Rightarrow>
     SipRuntimeObservation option \<Rightarrow> bool \<times> BaresipSipEngine" where
  "engine_submit e a uri desired expected displayed =
     (if submit_refused e a uri expected displayed then (False, e)
      else (True, e\<lparr>eng_feedback := feedback_command_accepted (eng_feedback e),
                    eng_command := \<lparr>cmd_action = a, cmd_session = obs_session (eng_view e),
                      cmd_call_id = obs_call_id (eng_view e), cmd_destination = uri,
                      cmd_desired = desired\<rparr>\<rparr>))"

definition engine_start_call ::
    "wctype \<Rightarrow> BaresipSipEngine \<Rightarrow> wstr \<Rightarrow> bool \<times> BaresipSipEngine" where
  "engine_start_call ct e s =
     (let result = native_call_destination_result ct s (eng_account e);
          e = e\<lparr>eng_feedback := feedback_record (eng_feedback e) (fst result) (eng_view e)\<rparr>
      in if \<not> destination_ok result then (False, e)
         else engine_submit e NativeCallAction.Dial (snd result) False None None)"

definition engine_transfer_call ::
    "wctype \<Rightarrow> BaresipSipEngine \<Rightarrow> wstr \<Rightarrow> NativeCallMediaState \<Rightarrow> bool \<times> BaresipSipEngine" where
  "engine_transfer_call ct e destination expected =
     (let result = native_transfer_destination_result ct destination (eng_account e);
          e = e\<lparr>eng_feedback := feedback_record (eng_feedback e) (fst result) (eng_view e)\<rparr>
      in if \<not> destination_ok result then (False, e)
         else engine_submit e NativeCallAction.Transfer (snd result) False (Some expected) None)"

definition engine_set_muted ::
    "BaresipSipEngine \<Rightarrow> bool \<Rightarrow> NativeCallMediaState \<Rightarrow> bool \<times> BaresipSipEngine" where
  "engine_set_muted e desired expected =
     engine_submit e NativeCallAction.SetMute [] desired (Some expected) None"

definition engine_set_held ::
    "BaresipSipEngine \<Rightarrow> bool \<Rightarrow> NativeCallMediaState \<Rightarrow> bool \<times> BaresipSipEngine" where
  "engine_set_held e desired expected =
     engine_submit e NativeCallAction.SetHold [] desired (Some expected) None"

definition engine_send_dtmf ::
    "BaresipSipEngine \<Rightarrow> wchar \<Rightarrow> NativeCallMediaState \<Rightarrow> bool \<times> BaresipSipEngine" where
  "engine_send_dtmf e key expected =
     (if \<not> valid_native_dtmf_key key then (False, e)
      else engine_submit e NativeCallAction.Dtmf [narrow key] False (Some expected) None)"

definition engine_answer_call ::
    "BaresipSipEngine \<Rightarrow> SipRuntimeObservation \<Rightarrow> bool \<times> BaresipSipEngine" where
  "engine_answer_call e displayed =
     engine_submit e NativeCallAction.Answer [] False None (Some displayed)"

definition engine_hangup_call ::
    "BaresipSipEngine \<Rightarrow> SipRuntimeObservation \<Rightarrow> bool \<times> BaresipSipEngine" where
  "engine_hangup_call e displayed =
     engine_submit e NativeCallAction.Hangup [] False None (Some displayed)"

text \<open>The first critical section of \<open>stop\<close>.\<close>

definition engine_stopping :: "BaresipSipEngine \<Rightarrow> BaresipSipEngine" where
  "engine_stopping e = e\<lparr>eng_view := observation RuntimeProcess.Stopping SipStatus.Disconnected
     SipEvidence.NoEvidence 0, eng_command := no_command\<rparr>"

datatype GuiOp =
    GuiStartCall wstr
  | GuiTransfer wstr NativeCallMediaState
  | GuiMute bool NativeCallMediaState
  | GuiHold bool NativeCallMediaState
  | GuiDtmf wchar NativeCallMediaState
  | GuiAnswer SipRuntimeObservation
  | GuiHangup SipRuntimeObservation
  | GuiStopping

fun gui_op :: "wctype \<Rightarrow> BaresipSipEngine \<Rightarrow> GuiOp \<Rightarrow> bool \<times> BaresipSipEngine" where
  "gui_op ct e (GuiStartCall s) = engine_start_call ct e s"
| "gui_op ct e (GuiTransfer s m) = engine_transfer_call ct e s m"
| "gui_op ct e (GuiMute d m) = engine_set_muted e d m"
| "gui_op ct e (GuiHold d m) = engine_set_held e d m"
| "gui_op ct e (GuiDtmf k m) = engine_send_dtmf e k m"
| "gui_op ct e (GuiAnswer d) = engine_answer_call e d"
| "gui_op ct e (GuiHangup d) = engine_hangup_call e d"
| "gui_op ct e GuiStopping = (True, engine_stopping e)"

definition gui_ops :: "wctype \<Rightarrow> GuiOp list \<Rightarrow> BaresipSipEngine \<Rightarrow> BaresipSipEngine" where
  "gui_ops ct ops e = foldl (\<lambda>e op. snd (gui_op ct e op)) e ops"

section \<open>The tick\<close>

text \<open>
  \<open>ta_gui n\<close>: what the interface's thread does before the tick's critical section \<open>n\<close>. The
  fields of type \<open>CallAnswers\<close> are for the media readback at the start, the command, the
  readback before a hold, and the readback at the end.
\<close>

record TickAnswers =
  ta_registered :: "u64 \<Rightarrow> bool"
  ta_now_ms :: u64
  ta_rearm_ms :: u64
  ta_inventory :: AudioInventory
  ta_first :: CallAnswers
  ta_call :: CallAnswers
  ta_before :: CallAnswers
  ta_last :: CallAnswers
  ta_gui :: "nat \<Rightarrow> GuiOp list"

definition empty_inventory :: AudioInventory where
  "empty_inventory = \<lparr>ai_input_count = 0, ai_output_count = 0, ai_has_default_input = False,
     ai_has_default_output = False, ai_input_devices = [], ai_output_devices = [],
     ai_error = AudioInventoryError.NoInventoryError\<rparr>"

text \<open>\<open>session\<close> is the session the port \<open>calls\<close> captured.\<close>

definition publish_media ::
    "wctype \<Rightarrow> GuiOp list \<Rightarrow> CallAnswers \<Rightarrow> u64 \<Rightarrow> SipRuntimeObservation \<Rightarrow> BaresipSipEngine \<Rightarrow>
     BaresipSipEngine" where
  "publish_media ct gui w session observed e =
     (let current = (if obs_sip observed = SipStatus.InCall
                     then port_media_state w session (eng_adapter e) (obs_call_id observed)
                     else no_media);
          e = gui_ops ct gui e;
          media = eng_media e;
          dtmf = (if med_session media \<noteq> med_session current \<or>
                     med_call_id media \<noteq> med_call_id current then False else eng_dtmf_rejected e);
          (hold, mute, audio) = reset_native_call_feedback media current
             (eng_last_hold_error e, eng_mute_rejected e, eng_audio_issue e)
      in e\<lparr>eng_feedback := feedback_synchronize (eng_feedback e) observed,
           eng_dtmf_rejected := dtmf, eng_last_hold_error := hold, eng_mute_rejected := mute,
           eng_audio_issue := audio, eng_media := current\<lparr>med_hold_request_error := hold\<rparr>\<rparr>)"

text \<open>The branch of the admitted command.\<close>

definition execute_command ::
    "wctype \<Rightarrow> u64 \<Rightarrow> TickAnswers \<Rightarrow> u64 \<Rightarrow> SipRuntimeObservation \<Rightarrow> NativeCallCommand \<Rightarrow>
     BaresipSipEngine \<Rightarrow> engine_result" where
  "execute_command ct ad t session observed pending e =
     (let a = eng_adapter e; w = ta_call t; token = obs_call_id observed;
          destination = cmd_destination pending; gui = gui_ops ct (ta_gui t 5)
      in if cmd_action pending = NativeCallAction.Dial \<and> obs_sip observed = SipStatus.Registered \<and>
            token = 0
         then (let acts = [CallRequest (UaConnect destination)];
                   e = e\<lparr>eng_adapter := run_callbacks a (ca_callbacks w)\<rparr>
               in if ca_result w \<noteq> 0 then after_actions acts (engine_fail ad e) else Some (acts, e))
         else if cmd_action pending = NativeCallAction.Answer \<and> obs_sip observed = SipStatus.Ringing
         then (let (ok, rs, a) = port_answer w session a token; acts = map CallRequest rs;
                   e = e\<lparr>eng_adapter := a\<rparr>
               in if \<not> ok then after_actions acts (engine_fail ad e) else Some (acts, e))
         else if cmd_action pending = NativeCallAction.Hangup \<and> token \<noteq> 0
         then (let (ok, rs, a) = port_hangup w session a token; acts = map CallRequest rs;
                   e = e\<lparr>eng_adapter := a\<rparr>
               in if \<not> ok then after_actions acts (engine_fail ad e) else Some (acts, e))
         else if cmd_action pending = NativeCallAction.Dtmf
         then (let (error, rs, a) = port_send_dtmf_info w session a token (destination ! 0)
               in Some (map CallRequest rs,
                    (gui (e\<lparr>eng_adapter := a\<rparr>))\<lparr>eng_dtmf_rejected := error \<noteq> 0\<rparr>))
         else if cmd_action pending = NativeCallAction.Transfer
         then (let (error, rs, a) = port_transfer ct w session a token destination
               in Some (map CallRequest rs, e\<lparr>eng_adapter := a\<rparr>))
         else if cmd_action pending = NativeCallAction.SetMute
         then (let (applied, rs, a) = port_set_muted w session a token (cmd_desired pending)
               in Some (map CallRequest rs,
                    (gui (e\<lparr>eng_adapter := a\<rparr>))\<lparr>eng_mute_rejected := \<not> applied\<rparr>))
         else if cmd_action pending = NativeCallAction.SetHold
         then (let readback = port_media_state (ta_before t) session a token
               in if med_available readback \<and> med_local_hold readback \<noteq> cmd_desired pending
                  then (let (error, rs, a) = port_set_held w session a token (cmd_desired pending)
                        in Some (map CallRequest rs,
                             (gui (e\<lparr>eng_adapter := a\<rparr>))\<lparr>eng_last_hold_error := error\<rparr>))
                  else Some ([], e))
         else Some ([], e))"

text \<open>From the second critical section on: the pending command is taken, admitted, executed.\<close>

definition tick_command ::
    "wctype \<Rightarrow> u64 \<Rightarrow> TickAnswers \<Rightarrow> u64 \<Rightarrow> SipRuntimeObservation \<Rightarrow> BaresipSipEngine \<Rightarrow>
     engine_result" where
  "tick_command ct ad t session observed e =
     (let e = publish_media ct (ta_gui t 1) (ta_first t) session observed e;
          e = gui_ops ct (ta_gui t 2) e;
          pending = eng_command e;
          e = e\<lparr>eng_view := observed, eng_command := no_command\<rparr>
      in if \<not> native_register_ok_seen (ta_registered t) (eng_adapter e) \<or>
            \<not> native_command_is_current pending observed then Some ([], e)
         else if cmd_action pending = NativeCallAction.Transfer \<and>
                 \<not> valid_native_transfer_uri ct (cmd_destination pending) then Some ([], e)
         else (let inventory = (if native_command_needs_audio_preflight pending
                                then ta_inventory t else empty_inventory);
                   (decision, admission) = admit_native_audio_command (eng_admission e) pending
                      observed (eng_audio_route e) inventory;
                   e = (gui_ops ct (ta_gui t 3) (e\<lparr>eng_admission := admission\<rparr>))
                         \<lparr>eng_audio_issue := dec_audio decision\<rparr>
               in if \<not> dec_allowed decision then Some ([], e)
                  else map_option (map_prod id (publish_media ct (ta_gui t 6) (ta_last t) session observed))
                         (execute_command ct ad t session observed pending e)))"

definition engine_tick ::
    "wctype \<Rightarrow> u64 \<Rightarrow> TickAnswers \<Rightarrow> BaresipSipEngine \<Rightarrow> engine_result" where
  "engine_tick ct ad t e =
     (if eng_failed e \<or> eng_owned e = 0 then Some ([], e)
      else (let (batch, a) = adapter_drain (eng_adapter e);
                confirmed = native_register_ok_seen (ta_registered t) a;
                (observed, projection) = project_native_sdk_batch (eng_projection e) batch confirmed;
                e = e\<lparr>eng_adapter := a, eng_projection := projection\<rparr>;
                timed_out = (\<not> confirmed \<and> ta_now_ms t \<ge> eng_deadline e \<and> adapter_active a \<and>
                             obs_sip observed \<noteq> SipStatus.Failed);
                e = (if timed_out then (gui_ops ct (ta_gui t 0) e)\<lparr>eng_registration_timed_out := True\<rparr>
                     else e)
            in if \<not> adapter_active a \<or> obs_evidence observed \<noteq> SipEvidence.VerifiedNativeApi \<or>
                  obs_sip observed = SipStatus.Failed \<or> timed_out
               then engine_fail ad e
               else (let e = e\<lparr>eng_deadline :=
                           (if confirmed then u64_max
                            else if eng_deadline e = u64_max
                            then ta_rearm_ms t + ucast (eng_timeout_ms e) else eng_deadline e)\<rparr>
                     in tick_command ct ad t (adapter_session a) observed e)))"

section \<open>Ending on the owner thread\<close>

definition engine_end :: "u64 \<Rightarrow> BaresipSipEngine \<Rightarrow> engine_result" where
  "engine_end ad e =
     (case adapter_stop ad (eng_adapter_owner e) (eng_adapter e) of
        None \<Rightarrow> None
      | Some (po, a) \<Rightarrow>
          (let acts = (if eng_owned e \<noteq> 0 then [EraseAccountPassword (eng_owned e)] else []) @
                 (if eng_ua_initialized e then [UaStopAll, UaClose] else []) @
                 (if eng_claimed e
                  then [ConfClose] @ (if eng_core e then [BaresipClose] else []) @ [ModClose] else []);
               faulted = (eng_failed e \<or> rct_fault (eng_reactor e) \<noteq> LibreReactorFault.NoFault);
               e = e\<lparr>eng_adapter_owner := po, eng_adapter := a, eng_ua_initialized := False,
                     eng_owned := 0, eng_password := []\<rparr>;
               e = (if eng_claimed e
                    then e\<lparr>eng_core := False, eng_process_owner := 0, eng_claimed := False\<rparr> else e)
           in Some (acts,
                e\<lparr>eng_view := (if faulted \<and> obs_process (eng_view e) \<noteq> RuntimeProcess.Stopping
                               then failed_view else stopped_view),
                  eng_feedback := feedback_clear (eng_feedback e), eng_command := no_command,
                  eng_media := no_media, eng_last_hold_error := 0, eng_mute_rejected := False,
                  eng_dtmf_rejected := False, eng_audio_issue := NativeAudioRouteStatus.Ready\<rparr>)))"

text \<open>The end of the reactor's thread once its main loop has returned.\<close>

definition worker_exit :: "u64 \<Rightarrow> int \<Rightarrow> BaresipSipEngine \<Rightarrow> engine_result" where
  "worker_exit ad loop_error e =
     map_option (map_prod id (\<lambda>e. e\<lparr>eng_reactor := worker_finished (eng_reactor e)\<rparr>))
       (engine_end ad (e\<lparr>eng_reactor := main_loop_ended (eng_reactor e) loop_error\<rparr>))"

text \<open>
  \<open>stop\<close> of the reactor: tell the loop to end and join the thread. A thread whose loop is running
  ends with \<open>loop_error\<close>; one that has already ended is only joined.
\<close>

definition reactor_stop :: "u64 \<Rightarrow> int \<Rightarrow> BaresipSipEngine \<Rightarrow> engine_result" where
  "reactor_stop ad loop_error e =
     (if \<not> rct_worker (eng_reactor e) then Some ([], e)
      else map_option (map_prod id (\<lambda>e. e\<lparr>eng_reactor := (eng_reactor e)
               \<lparr>rct_ending := True, rct_worker := False\<rparr>\<rparr>))
             (if rct_queue (eng_reactor e)
              then worker_exit ad loop_error
                     (e\<lparr>eng_reactor := (eng_reactor e)\<lparr>rct_ending := True\<rparr>\<rparr>)
              else Some ([], e)))"

text \<open>
  \<open>start\<close> of the reactor: the thread runs until it is ready, which is after \<open>begin\<close>. The result
  is \<open>status_.running\<close>.
\<close>

record StartAnswers =
  st_thread :: bool
  st_init_error :: int
  st_queue_error :: int
  st_queue :: bool
  st_begin :: BeginAnswers

definition worker_start ::
    "u64 \<Rightarrow> u64 \<Rightarrow> StartAnswers \<Rightarrow> BaresipSipEngine \<Rightarrow> engine_result" where
  "worker_start self ad w e =
     (let ready = (\<lambda>running fault e. e\<lparr>eng_reactor := publish_ready (eng_reactor e) running fault\<rparr>) in
      if st_init_error w \<noteq> 0 then Some ([], ready False LibreReactorFault.InitRejected e)
      else if st_queue_error w \<noteq> 0 \<or> \<not> st_queue w
      then Some ([], ready False LibreReactorFault.QueueRejected e)
      else map_option (map_prod id (\<lambda>e. ready True LibreReactorFault.NoFault
               (e\<lparr>eng_reactor := (eng_reactor e)\<lparr>rct_queue := True\<rparr>\<rparr>)))
             (engine_begin self ad (st_begin w) e))"

definition reactor_start ::
    "u64 \<Rightarrow> u64 \<Rightarrow> StartAnswers \<Rightarrow> BaresipSipEngine \<Rightarrow> (bool \<times> SdkAction list \<times> BaresipSipEngine) option"
  where
  "reactor_start self ad w e =
     (if rct_worker (eng_reactor e) then Some (False, [], e)
      else (let e = e\<lparr>eng_reactor := reactor_starting (eng_reactor e)\<rparr> in
            if \<not> st_thread w then Some (False, [], e)
            else map_option (\<lambda>(acts, e). (rct_running (eng_reactor e), acts, e))
                   (worker_start self ad w (e\<lparr>eng_reactor := (eng_reactor e)\<lparr>rct_worker := True\<rparr>\<rparr>))))"

text \<open>One round of the loop: the timer or a wake-up, while the loop is running.\<close>

definition reactor_tick ::
    "wctype \<Rightarrow> u64 \<Rightarrow> TickAnswers \<Rightarrow> BaresipSipEngine \<Rightarrow> engine_result" where
  "reactor_tick ct ad t e =
     (if \<not> rct_queue (eng_reactor e) \<or> rct_ending (eng_reactor e) then Some ([], e)
      else map_option (map_prod id (\<lambda>e. e\<lparr>eng_reactor := (eng_reactor e)
                 \<lparr>rct_ticks := rct_ticks (eng_reactor e) + 1\<rparr>\<rparr>))
             (engine_tick ct ad t e))"

section \<open>Configuration and registration\<close>

definition reject_configuration :: "BaresipSipEngine \<Rightarrow> BaresipSipEngine" where
  "reject_configuration e =
     e\<lparr>eng_password := [], eng_configured := False, eng_view := failed_view,
       eng_command := no_command, eng_media := no_media, eng_policy_selected := False,
       eng_tls_required := False, eng_audio_route := default_route,
       eng_feedback := feedback_clear (eng_feedback e), eng_sdk_error := 0, eng_sdk_stage := [],
       eng_start_rejected := False, eng_configure_rejected := True,
       eng_registration_timed_out := False\<rparr>"

definition engine_configure :: "BaresipSipEngine \<Rightarrow> bool \<times> BaresipSipEngine" where
  "engine_configure e =
     (False, if rct_running (eng_reactor e) then e else reject_configuration e)"

text \<open>\<open>allocated\<close>: no copy of the new settings threw. The \<open>catch\<close> undoes whatever was stored.\<close>

definition engine_configure_authenticated ::
    "BaresipSipEngine \<Rightarrow> SipAccount \<Rightarrow> wstr \<Rightarrow> string \<Rightarrow> u32 \<Rightarrow> NativeAudioRoute \<Rightarrow> bool \<Rightarrow>
     bool \<times> BaresipSipEngine" where
  "engine_configure_authenticated e a ca password timeout audio allocated =
     (if rct_running (eng_reactor e) then (False, e)
      else if \<not> allocated then (False, reject_configuration e)
      else (let cfg = native_account_config a ca audio in
            if \<not> nac_valid cfg \<or> password = [] \<or> length password > 1024 \<or>
               CHR 0x00 \<in> set password \<or> timeout < 100 \<or> timeout > 60000
            then (False, reject_configuration e)
            else (True,
              e\<lparr>eng_password := password, eng_account := a, eng_config := cfg,
                eng_audio_route := audio, eng_audio_issue := NativeAudioRouteStatus.Ready,
                eng_policy_selected := True, eng_tls_required := acc_use_tls a,
                eng_feedback := feedback_clear (eng_feedback e), eng_start_rejected := False,
                eng_configure_rejected := False, eng_sdk_error := 0, eng_sdk_stage := [],
                eng_registration_timed_out := False, eng_view := stopped_view,
                eng_configured := True, eng_timeout_ms := timeout\<rparr>)))"

definition engine_register_account ::
    "u64 \<Rightarrow> u64 \<Rightarrow> StartAnswers \<Rightarrow> BaresipSipEngine \<Rightarrow> (bool \<times> SdkAction list \<times> BaresipSipEngine) option"
  where
  "engine_register_account self ad w e =
     (if \<not> eng_configured e \<or> rct_running (eng_reactor e) then Some (False, [], e)
      else (let e = e\<lparr>eng_configured := False, eng_failed := False, eng_sdk_error := 0,
                      eng_sdk_stage := [], eng_registration_timed_out := False,
                      eng_feedback := feedback_clear (eng_feedback e), eng_start_rejected := False,
                      eng_configure_rejected := False,
                      eng_view := observation RuntimeProcess.Running SipStatus.Registering
                        SipEvidence.NoEvidence 0\<rparr>
            in case reactor_start self ad w e of
                 None \<Rightarrow> None
               | Some (True, acts, e) \<Rightarrow> Some (True, acts, e)
               | Some (False, acts, e) \<Rightarrow>
                   map_option (\<lambda>(more, e). (False, acts @ more,
                       e\<lparr>eng_password := [], eng_view := failed_view, eng_command := no_command,
                         eng_media := no_media, eng_start_rejected := True\<rparr>))
                     (reactor_stop ad 0 e)))"

text \<open>The rest of \<open>stop\<close>, after \<open>engine_stopping\<close>.\<close>

definition engine_stopped :: "u64 \<Rightarrow> int \<Rightarrow> BaresipSipEngine \<Rightarrow> engine_result" where
  "engine_stopped ad loop_error e =
     map_option (map_prod id (\<lambda>e. e\<lparr>eng_configured := False, eng_password := [],
         eng_view := stopped_view, eng_media := no_media, eng_last_hold_error := 0,
         eng_mute_rejected := False, eng_dtmf_rejected := False, eng_audio_route := default_route,
         eng_audio_issue := NativeAudioRouteStatus.Ready, eng_policy_selected := False,
         eng_tls_required := False, eng_feedback := feedback_clear (eng_feedback e),
         eng_start_rejected := False, eng_configure_rejected := False, eng_sdk_error := 0,
         eng_sdk_stage := [], eng_registration_timed_out := False\<rparr>))
       (reactor_stop ad loop_error e)"

section \<open>What the interface reads\<close>

definition engine_security_status :: "BaresipSipEngine \<Rightarrow> NativeSecurityStatus" where
  "engine_security_status e =
     native_security_status (eng_policy_selected e) (eng_tls_required e) (eng_view e)"

definition engine_status :: "BaresipSipEngine \<Rightarrow> SipStatus" where
  "engine_status e = obs_sip (eng_view e)"

text \<open>\<open>std::to_wstring\<close> of an \<open>int\<close>.\<close>

definition to_wstring :: "int \<Rightarrow> string" where
  "to_wstring n = (if n < 0 then ''-'' @ to_dec (nat (- n)) else to_dec (nat n))"

text \<open>The last \<open>switch\<close> of \<open>diagnostic\<close>.\<close>

definition status_diagnostic :: "SipStatus \<Rightarrow> string" where
  "status_diagnostic status =
     (case status of
        SipStatus.Registered \<Rightarrow>
          ''Registro SIP confirmado por callback nativo. Midia ainda nao homologada.''
      | SipStatus.Registering \<Rightarrow> ''Registro SIP em andamento; aguardando a central.''
      | SipStatus.Failed \<Rightarrow>
          ''Falha SIP/TLS/audio ou prazo expirado. Confira conta, CA e central; pare o motor antes de tentar novamente.''
      | _ \<Rightarrow> ''Motor nativo candidato; chamadas e headset dependem de homologacao.'')"

definition engine_diagnostic :: "BaresipSipEngine \<Rightarrow> string" where
  "engine_diagnostic e =
     (let fault = rct_fault (eng_reactor e); media = eng_media e;
          current = native_media_controls_current media (eng_view e) in
      if eng_sdk_error e \<noteq> 0
      then ''Falha SDK em '' @ eng_sdk_stage e @ '': '' @ to_wstring (eng_sdk_error e)
      else if eng_configure_rejected e
      then ''Nao foi possivel preparar a conta; senha descartada. Confira os recursos do computador e informe os dados novamente.''
      else if obs_process (eng_view e) = RuntimeProcess.Failed \<and> fault \<noteq> LibreReactorFault.NoFault
      then libre_reactor_fault_message fault
      else if eng_start_rejected e
      then ''Falha ao iniciar motor nativo; senha descartada. Confira os recursos do computador e tente registrar novamente.''
      else if eng_registration_timed_out e
      then ''Prazo do registro SIP esgotado: nenhuma confirmacao da central. Confira DNS, UDP/porta do servidor, firewall e respostas ao REGISTER.''
      else if ndf_error (eng_feedback e) \<noteq> NativeDestinationError.NoDestinationError
      then native_destination_error_message (ndf_error (eng_feedback e))
      else if eng_audio_issue e \<noteq> NativeAudioRouteStatus.Ready
      then native_audio_route_feedback (eng_audio_issue e)
      else if current \<and> med_transfer media = NativeTransferState.Failed
      then ''Pedido de transferencia falhou. Chamada preservada; continue ou encerre.''
      else if current \<and> med_transfer media = NativeTransferState.Submitted
      then ''Pedido de transferencia enviado ao SDK; confirmacao da central pendente.''
      else if eng_dtmf_rejected e
      then ''Ultimo pedido DTMF via INFO recusado pelo SDK; chamada preservada.''
      else if eng_last_hold_error e \<noteq> 0
      then ''Pedido de espera/retomada falhou no SDK. Estado local nao confirma a central; retome ou encerre.''
      else if eng_mute_rejected e then ''Nao foi possivel alterar o mudo do microfone nesta chamada.''
      else if current \<and> med_local_hold media
      then ''Espera local solicitada ao SDK; confirme o comportamento na central.''
      else if current \<and> med_muted media
      then ''Microfone em mudo no SDK; valide o silencio com o headset.''
      else status_diagnostic (engine_status e))"

end
