(* ===== verification/Engine_Safety.thy ===== *)
theory Engine_Safety
  imports Sip_Engine
begin

text \<open>
  Runs of the native engine and what holds in all of them: every operation returns, the engine's
  use of the call port is a run of the event loop of \<open>Sdk_Call_Port\<close>, the password is held only
  between configuration and start and by one SDK account at a time, a command is executed only
  while it is current, and the engine fails closed. The contract \<open>native_port\<close> of the application
  service is interpreted on the engine.
\<close>

section \<open>Runs of the engine\<close>

text \<open>
  Calls of the interface's thread, rounds of the loop, callbacks of the SDK between them, and the
  end of the main loop. More interleavings are allowed than the threads can produce.
\<close>

datatype EngineEvent =
    EngineConfigure
  | EngineConfigureAuthenticated SipAccount wstr string u32 NativeAudioRoute bool
  | EngineRegister StartAnswers
  | EngineGui GuiOp
  | EngineStopped int
  | EngineTick TickAnswers
  | EngineCallback sdk_callback
  | EngineLoopEnded int

fun engine_event ::
    "wctype \<Rightarrow> u64 \<Rightarrow> u64 \<Rightarrow> BaresipSipEngine \<Rightarrow> EngineEvent \<Rightarrow> engine_result" where
  "engine_event ct self ad e EngineConfigure = Some ([], snd (engine_configure e))"
| "engine_event ct self ad e (EngineConfigureAuthenticated a ca password timeout audio allocated) =
     Some ([], snd (engine_configure_authenticated e a ca password timeout audio allocated))"
| "engine_event ct self ad e (EngineRegister w) = map_option snd (engine_register_account self ad w e)"
| "engine_event ct self ad e (EngineGui op) = Some ([], snd (gui_op ct e op))"
| "engine_event ct self ad e (EngineStopped loop_error) = engine_stopped ad loop_error e"
| "engine_event ct self ad e (EngineTick t) = reactor_tick ct ad t e"
| "engine_event ct self ad e (EngineCallback cb) =
     Some ([], e\<lparr>eng_adapter := run_callbacks (eng_adapter e) [cb]\<rparr>)"
| "engine_event ct self ad e (EngineLoopEnded loop_error) =
     (if rct_queue (eng_reactor e) then worker_exit ad loop_error e else Some ([], e))"

fun engine_run ::
    "wctype \<Rightarrow> u64 \<Rightarrow> u64 \<Rightarrow> BaresipSipEngine \<Rightarrow> EngineEvent list \<Rightarrow> engine_result" where
  "engine_run ct self ad e [] = Some ([], e)"
| "engine_run ct self ad e (ev # evs) =
     (case engine_event ct self ad e ev of
        None \<Rightarrow> None
      | Some (acts, e') \<Rightarrow> after_actions acts (engine_run ct self ad e' evs))"

section \<open>What an operation leaves alone\<close>

definition same_core :: "BaresipSipEngine \<Rightarrow> BaresipSipEngine \<Rightarrow> bool" where
  "same_core e e' \<longleftrightarrow>
     eng_adapter e' = eng_adapter e \<and> eng_adapter_owner e' = eng_adapter_owner e \<and>
     eng_process_owner e' = eng_process_owner e \<and> eng_reactor e' = eng_reactor e \<and>
     eng_configured e' = eng_configured e \<and> eng_password e' = eng_password e \<and>
     eng_owned e' = eng_owned e \<and> eng_failed e' = eng_failed e \<and>
     eng_account e' = eng_account e \<and> eng_config e' = eng_config e \<and>
     eng_audio_route e' = eng_audio_route e \<and> eng_admission e' = eng_admission e \<and>
     eng_projection e' = eng_projection e \<and> eng_deadline e' = eng_deadline e"

lemma same_core_refl [simp]: "same_core e e"
  by (simp add: same_core_def)

lemma same_core_trans: "same_core e e' \<Longrightarrow> same_core e' e'' \<Longrightarrow> same_core e e''"
  by (simp add: same_core_def)

lemma submit_core: "same_core e (snd (engine_submit e a uri desired expected displayed))"
  by (simp add: engine_submit_def same_core_def)

lemma gui_op_core: "same_core e (snd (gui_op ct e op))"
proof -
  have feed: "same_core e (e\<lparr>eng_feedback := f\<rparr>)" for f by (simp add: same_core_def)
  show ?thesis
    using submit_core same_core_trans [OF feed submit_core] feed
    by (cases op) (simp_all add: engine_start_call_def engine_transfer_call_def engine_set_muted_def
        engine_set_held_def engine_send_dtmf_def engine_answer_call_def engine_hangup_call_def
        engine_stopping_def same_core_def Let_def)
qed

lemma gui_ops_core: "same_core e (gui_ops ct ops e)"
proof (induction ops arbitrary: e)
  case Nil
  then show ?case by (simp add: gui_ops_def)
next
  case (Cons op ops)
  have "gui_ops ct (op # ops) e = gui_ops ct ops (snd (gui_op ct e op))" by (simp add: gui_ops_def)
  with Cons.IH same_core_trans [OF gui_op_core] show ?case by metis
qed

lemma publish_media_core: "same_core e (publish_media ct gui w session observed e)"
  using gui_ops_core [of e ct gui]
  by (simp add: publish_media_def same_core_def Let_def split: prod.split)

lemma same_core_fields:
  assumes "same_core e e'"
  shows "eng_adapter e' = eng_adapter e" "eng_adapter_owner e' = eng_adapter_owner e"
    "eng_reactor e' = eng_reactor e" "eng_configured e' = eng_configured e"
    "eng_password e' = eng_password e" "eng_owned e' = eng_owned e" "eng_failed e' = eng_failed e"
    "eng_account e' = eng_account e" "eng_config e' = eng_config e"
    "eng_audio_route e' = eng_audio_route e" "eng_admission e' = eng_admission e"
    "eng_process_owner e' = eng_process_owner e" "eng_projection e' = eng_projection e"
    "eng_deadline e' = eng_deadline e"
  using assms by (simp_all add: same_core_def)

lemmas gui_ops_fields [simp] = same_core_fields [OF gui_ops_core]
lemmas publish_media_fields [simp] = same_core_fields [OF publish_media_core]

section \<open>The engine as a run of the event loop\<close>

text \<open>
  \<open>simulated e acts e'\<close>: what an operation did to the adapter is a run of the loop of
  \<open>Sdk_Call_Port\<close>, with the same one-time requests in the same order.
\<close>

fun one_shot_kind :: "SdkAction \<Rightarrow> OneShot list" where
  "one_shot_kind (CallRequest (UaAnswer p)) = [AnswerOnce]"
| "one_shot_kind (CallRequest (UaHangup p)) = [HangupOnce]"
| "one_shot_kind (CallRequest (CallTransfer p u)) = [TransferOnce]"
| "one_shot_kind act = []"

definition one_shot_kinds :: "SdkAction list \<Rightarrow> OneShot list" where
  "one_shot_kinds acts = concat (map one_shot_kind acts)"

lemma one_shot_kinds_simps [simp]:
  "one_shot_kinds [] = []" "one_shot_kinds (x # xs) = one_shot_kind x @ one_shot_kinds xs"
  "one_shot_kinds (xs @ ys) = one_shot_kinds xs @ one_shot_kinds ys"
  by (simp_all add: one_shot_kinds_def)

definition simulated ::
    "wctype \<Rightarrow> u64 \<Rightarrow> BaresipSipEngine \<Rightarrow> SdkAction list \<Rightarrow> BaresipSipEngine \<Rightarrow> bool" where
  "simulated ct ad e acts e' \<longleftrightarrow>
     (\<exists>xs log'. map fst log' = one_shot_kinds acts \<and>
        (\<forall>log. loop_run ct ad (eng_adapter_owner e, eng_adapter e, log) xs =
           Some (eng_adapter_owner e', eng_adapter e', log @ log')))"

lemma loop_run_append:
  "loop_run ct self st (xs @ ys) =
     (case loop_run ct self st xs of None \<Rightarrow> None | Some st' \<Rightarrow> loop_run ct self st' ys)"
  by (induction xs arbitrary: st) (simp_all split: option.split)

lemma simulatedI:
  assumes "map fst log' = one_shot_kinds acts"
    "\<And>log. loop_run ct ad (eng_adapter_owner e, eng_adapter e, log) xs =
       Some (eng_adapter_owner e', eng_adapter e', log @ log')"
  shows "simulated ct ad e acts e'"
  using assms unfolding simulated_def by blast

lemma simulated_trans:
  assumes "simulated ct ad e acts e'" "simulated ct ad e' acts' e''"
  shows "simulated ct ad e (acts @ acts') e''"
proof -
  obtain xs log1 where 1: "map fst log1 = one_shot_kinds acts"
    "\<And>log. loop_run ct ad (eng_adapter_owner e, eng_adapter e, log) xs =
       Some (eng_adapter_owner e', eng_adapter e', log @ log1)"
    using assms(1) by (auto simp: simulated_def)
  obtain ys log2 where 2: "map fst log2 = one_shot_kinds acts'"
    "\<And>log. loop_run ct ad (eng_adapter_owner e', eng_adapter e', log) ys =
       Some (eng_adapter_owner e'', eng_adapter e'', log @ log2)"
    using assms(2) by (auto simp: simulated_def)
  show ?thesis
    by (rule simulatedI [where xs = "xs @ ys" and log' = "log1 @ log2"])
      (use 1 2 in \<open>simp_all add: loop_run_append\<close>)
qed

lemma simulated_same:
  assumes "eng_adapter_owner e' = eng_adapter_owner e" "eng_adapter e' = eng_adapter e"
    "one_shot_kinds acts = []"
  shows "simulated ct ad e acts e'"
  by (rule simulatedI [where xs = "[]" and log' = "[]"]) (use assms in simp_all)

lemma simulated_adapter_op:
  assumes "adapter_op ad (eng_adapter_owner e, eng_adapter e) op =
      Some (eng_adapter_owner e', eng_adapter e')" "one_shot_kinds acts = []"
  shows "simulated ct ad e acts e'"
  by (rule simulatedI [where xs = "[LoopAdapter op]" and log' = "[]"]) (use assms in simp_all)

lemma callbacks_loop:
  "\<exists>xs. \<forall>log. loop_run ct ad (po, a, log) xs = Some (po, run_callbacks a cbs, log)"
proof (induction cbs arbitrary: a)
  case Nil
  have "loop_run ct ad (po, a, log) [] = Some (po, run_callbacks a [], log)" for log
    by (simp add: run_callbacks_def)
  then show ?case by blast
next
  case (Cons cb cbs)
  obtain reg c type ev where cb: "cb = (reg, c, type, ev)" by (cases cb)
  let ?b = "adapter_callback reg a c type ev"
  obtain xs where "\<And>log. loop_run ct ad (po, ?b, log) xs = Some (po, run_callbacks ?b cbs, log)"
    using Cons.IH by blast
  then have "loop_run ct ad (po, a, log) (LoopAdapter (AdapterCallback reg c type ev) # xs) =
      Some (po, run_callbacks a (cb # cbs), log)" for log
    using cb by (simp add: run_callbacks_def)
  then show ?case by blast
qed

lemma simulated_callbacks:
  assumes "eng_adapter_owner e' = eng_adapter_owner e"
    "eng_adapter e' = run_callbacks (eng_adapter e) cbs" "one_shot_kinds acts = []"
  shows "simulated ct ad e acts e'"
proof -
  obtain xs where "\<And>log. loop_run ct ad (eng_adapter_owner e, eng_adapter e, log) xs =
      Some (eng_adapter_owner e, run_callbacks (eng_adapter e) cbs, log)"
    using callbacks_loop by blast
  with assms show ?thesis by (intro simulatedI [where xs = xs and log' = "[]"]) simp_all
qed

lemma simulated_port_call:
  assumes "eng_adapter_owner e' = eng_adapter_owner e"
    "port_call ct w s (eng_adapter e) c = (rs, eng_adapter e')"
    "map fst (one_shots s c rs) = one_shot_kinds acts"
  shows "simulated ct ad e acts e'"
  by (rule simulatedI [where xs = "[LoopPort s c w]" and log' = "one_shots s c rs"])
    (use assms in simp_all)

section \<open>Secrets\<close>

text \<open>
  Reading the SDK calls in order: which account holds the password (0: none). \<open>None\<close>: a password
  was given while another account still held one, or the SDK was stopped or closed around it.
\<close>

fun secrets :: "u64 \<Rightarrow> SdkAction list \<Rightarrow> u64 option" where
  "secrets h [] = Some h"
| "secrets h (AccountSetAuthPass ua p # acts) = (if h \<noteq> 0 then None else secrets ua acts)"
| "secrets h (EraseAccountPassword ua # acts) = secrets (if ua = h then 0 else h) acts"
| "secrets h (UaStopAll # acts) = (if h \<noteq> 0 then None else secrets h acts)"
| "secrets h (UaClose # acts) = (if h \<noteq> 0 then None else secrets h acts)"
| "secrets h (ConfClose # acts) = (if h \<noteq> 0 then None else secrets h acts)"
| "secrets h (BaresipClose # acts) = (if h \<noteq> 0 then None else secrets h acts)"
| "secrets h (ModClose # acts) = (if h \<noteq> 0 then None else secrets h acts)"
| "secrets h (act # acts) = secrets h acts"

lemma secrets_append:
  "secrets h (xs @ ys) = (case secrets h xs of None \<Rightarrow> None | Some h' \<Rightarrow> secrets h' ys)"
  by (induction h xs rule: secrets.induct) simp_all

lemma secrets_requests [simp]: "secrets h (map CallRequest rs) = Some h"
  by (induction rs) simp_all

section \<open>The owner thread's operations\<close>

text \<open>What every operation of the owner thread keeps of the engine.\<close>

definition owner_step ::
    "wctype \<Rightarrow> u64 \<Rightarrow> BaresipSipEngine \<Rightarrow> SdkAction list \<Rightarrow> BaresipSipEngine \<Rightarrow> bool" where
  "owner_step ct ad e acts e' \<longleftrightarrow>
     adapter_inv (eng_adapter e') \<and> simulated ct ad e acts e' \<and>
     eng_configured e' = eng_configured e \<and> eng_reactor e' = eng_reactor e \<and>
     eng_account e' = eng_account e \<and> eng_config e' = eng_config e"

lemma owner_step_trans:
  assumes "owner_step ct ad e acts e'" "owner_step ct ad e' acts' e''"
  shows "owner_step ct ad e (acts @ acts') e''"
  using assms simulated_trans by (auto simp: owner_step_def)

text \<open>Steps that leave the adapter alone, and a failure after one.\<close>

lemma owner_step_same:
  assumes "adapter_inv (eng_adapter e)" "eng_adapter e' = eng_adapter e"
    "eng_adapter_owner e' = eng_adapter_owner e" "one_shot_kinds acts = []"
    "eng_configured e' = eng_configured e" "eng_reactor e' = eng_reactor e"
    "eng_account e' = eng_account e" "eng_config e' = eng_config e"
  shows "owner_step ct ad e acts e'"
  using assms simulated_same by (simp add: owner_step_def)

definition failed_closed :: "BaresipSipEngine \<Rightarrow> bool" where
  "failed_closed e \<longleftrightarrow>
     eng_failed e \<and> eng_owned e = 0 \<and> eng_password e = [] \<and> eng_view e = failed_view \<and>
     cmd_action (eng_command e) = NativeCallAction.NoAction \<and> \<not> med_available (eng_media e) \<and>
     \<not> adapter_active (eng_adapter e)"

lemma fail_returns:
  assumes "adapter_inv (eng_adapter e)"
  obtains e' where "engine_fail ad e = Some (if eng_owned e \<noteq> 0
      then [EraseAccountPassword (eng_owned e), UaStopAll] else [], e')"
    "failed_closed e'"
    "\<And>acts. one_shot_kinds acts = [] \<Longrightarrow> owner_step ct ad e acts e'"
proof -
  obtain po a where stop: "adapter_stop ad (eng_adapter_owner e) (eng_adapter e) = Some (po, a)"
    "adapter_inv a" "\<not> adapter_active a" using stop_inv [OF assms] by metis
  let ?e = "e\<lparr>eng_password := [], eng_failed := True, eng_adapter_owner := po, eng_adapter := a,
      eng_owned := 0, eng_view := failed_view,
      eng_feedback := feedback_clear (eng_feedback e), eng_command := no_command,
      eng_media := no_media, eng_last_hold_error := 0, eng_mute_rejected := False,
      eng_dtmf_rejected := False, eng_audio_issue := NativeAudioRouteStatus.Ready\<rparr>"
  have "owner_step ct ad e acts ?e" if "one_shot_kinds acts = []" for acts
    using simulated_adapter_op [of ad e AdapterStop ?e acts ct] stop that
    by (simp add: owner_step_def)
  moreover have "failed_closed ?e"
    using stop by (simp add: failed_closed_def no_command_def no_media_def)
  ultimately show thesis using that [of ?e] stop by (simp add: engine_fail_def)
qed

lemma failed_owned: "failed_closed e \<Longrightarrow> eng_owned e = 0 \<and> eng_password e = []"
  by (simp add: failed_closed_def)

text \<open>A stage that fails after the actions \<open>acts\<close>, with \<open>h\<close> the account that holds the password.\<close>

lemma stage_failed_returns:
  assumes "adapter_inv (eng_adapter e)" "one_shot_kinds acts = []"
    and "secrets h0 acts = Some h" "h = 0 \<or> h = eng_owned e"
  obtains acts' e' where "stage_failed ad acts error stage e = Some (acts @ acts', e')"
    "failed_closed e'" "owner_step ct ad e (acts @ acts') e'"
    "secrets h0 (acts @ acts') = Some 0" "set acts' \<subseteq> {EraseAccountPassword (eng_owned e), UaStopAll}"
proof -
  let ?e = "e\<lparr>eng_sdk_error := error, eng_sdk_stage := stage\<rparr>"
  let ?more = "if eng_owned e \<noteq> 0 then [EraseAccountPassword (eng_owned e), UaStopAll] else []"
  have inv: "adapter_inv (eng_adapter ?e)" using assms(1) by simp
  obtain e' where "engine_fail ad ?e = Some (if eng_owned ?e \<noteq> 0
      then [EraseAccountPassword (eng_owned ?e), UaStopAll] else [], e')"
    and f: "failed_closed e'" "\<And>acts. one_shot_kinds acts = [] \<Longrightarrow> owner_step ct ad ?e acts e'"
    by (rule fail_returns [OF inv, where ad = ad and ct = ct]) blast
  then have eq: "engine_fail ad ?e = Some (?more, e')" by simp
  have "owner_step ct ad e (acts @ ?more) e'"
    using owner_step_trans [OF owner_step_same [of e ?e acts] f(2) [of ?more]] assms(1,2) by simp
  moreover have "secrets h0 (acts @ ?more) = Some 0"
    using assms(3,4) by (auto simp: secrets_append)
  ultimately show thesis using that [of ?more e'] f(1) eq
    by (auto simp: stage_failed_def after_actions_def)
qed

text \<open>What starting may do: the calls it makes, and where the password is afterwards.\<close>

fun start_action :: "BaresipSipEngine \<Rightarrow> SdkAction \<Rightarrow> bool" where
  "start_action e (ConfConfigureBuf c) \<longleftrightarrow> c = nac_config (eng_config e)"
| "start_action e (UaAlloc aor) \<longleftrightarrow> aor = nac_aor (eng_config e)"
| "start_action e (AccountSetAuthPass ua p) \<longleftrightarrow> p = eng_password e"
| "start_action e (CallRequest r) \<longleftrightarrow> False"
| "start_action e act \<longleftrightarrow> True"

definition start_step ::
    "wctype \<Rightarrow> u64 \<Rightarrow> u64 \<Rightarrow> BaresipSipEngine \<Rightarrow> engine_result \<Rightarrow> bool" where
  "start_step ct ad h e r \<longleftrightarrow>
     (\<exists>acts e'. r = Some (acts, e') \<and> owner_step ct ad e acts e' \<and> eng_password e' = [] \<and>
        secrets h acts = Some (eng_owned e') \<and> list_all (start_action e) acts)"

lemma start_step_failed:
  assumes "adapter_inv (eng_adapter e)" "list_all (start_action e0) acts" "secrets h0 acts = Some h"
    "h = 0 \<or> h = eng_owned e" "owner_step ct ad e0 [] e"
  shows "start_step ct ad h0 e0 (stage_failed ad acts error stage e)"
proof -
  have "one_shot_kind act = []" if "start_action e0 act" for act
    using that by (cases act) auto
  then have none: "one_shot_kinds acts = []"
    using assms(2) by (induction acts) auto
  obtain acts' e' where f: "stage_failed ad acts error stage e = Some (acts @ acts', e')"
    "failed_closed e'" "owner_step ct ad e (acts @ acts') e'" "secrets h0 (acts @ acts') = Some 0"
    "set acts' \<subseteq> {EraseAccountPassword (eng_owned e), UaStopAll}"
    by (rule stage_failed_returns [OF assms(1) none assms(3,4)])
  have "list_all (start_action e0) acts'"
    using f(5) by (auto simp: list_all_iff)
  with f assms(2) owner_step_trans [OF assms(5) f(3)] failed_owned [OF f(2)] show ?thesis
    by (auto simp: start_step_def)
qed

lemma fail_as_stage: "engine_fail ad e = stage_failed ad [] (eng_sdk_error e) (eng_sdk_stage e) e"
  by (simp add: stage_failed_def after_actions_def case_prod_unfold option.map_ident)

text \<open>Actions before a step; \<open>h\<close> and \<open>h'\<close> are the holders of the password around them.\<close>

lemma start_step_after:
  assumes "start_step ct ad h' e r" "secrets h acts = Some h'" "list_all (start_action e0) acts"
    "owner_step ct ad e0 [] e" "eng_config e = eng_config e0"
    "eng_password e = eng_password e0 \<or> eng_password e = []"
    and "\<And>acts' e'. r = Some (acts', e') \<Longrightarrow> eng_password e \<noteq> eng_password e0 \<Longrightarrow>
      \<forall>ua p. AccountSetAuthPass ua p \<notin> set acts'"
  shows "start_step ct ad h e0 (after_actions acts r)"
proof -
  obtain acts' e' where r: "r = Some (acts', e')" "owner_step ct ad e acts' e'" "eng_password e' = []"
    "secrets h' acts' = Some (eng_owned e')" "list_all (start_action e) acts'"
    using assms(1) by (auto simp: start_step_def)
  have "one_shot_kind act = []" if "start_action e0 act" for act
    using that by (cases act) auto
  then have none: "one_shot_kinds acts = []" using assms(3) by (induction acts) auto
  have "adapter_inv (eng_adapter e)" using assms(4) by (simp add: owner_step_def)
  from owner_step_trans [OF owner_step_trans [OF assms(4) owner_step_same [OF this]] r(2), of acts] none
  have "owner_step ct ad e0 (acts @ acts') e'" by simp
  moreover have "start_action e0 act" if "act \<in> set acts'" for act
    using r(5) assms(5-7) r(1) that by (cases act) (fastforce simp: list_all_iff)+
  then have "list_all (start_action e0) (acts @ acts')" using assms(3) by (auto simp: list_all_iff)
  ultimately show ?thesis
    using r assms(2) by (simp add: start_step_def after_actions_def secrets_append)
qed

lemma begin_registration_step:
  assumes "adapter_inv (eng_adapter e)" "eng_password e = []"
  shows "start_step ct ad (eng_owned e) e (begin_registration ad w e)"
proof -
  obtain ok po a where st: "adapter_start ad (eng_adapter_owner e) (eng_adapter e) (eng_owned e)
      (ba_allocated w) (ba_bevent_error w) = Some (ok, po, a)" "adapter_inv a"
    using start_inv [OF assms(1)] by metis
  let ?e = "e\<lparr>eng_adapter_owner := po, eng_adapter := a\<rparr>"
  let ?e2 = "?e\<lparr>eng_deadline := ba_now_ms w + ucast (eng_timeout_ms e),
      eng_adapter := run_callbacks a (ba_register_callbacks w)\<rparr>"
  let ?acts = "[UaRegister (eng_owned e)]"
  have 1: "owner_step ct ad e [] ?e"
    using simulated_adapter_op [of ad e "AdapterStart (eng_owned e) (ba_allocated w) (ba_bevent_error w)" ?e] st
    by (simp add: owner_step_def)
  have "owner_step ct ad ?e acts ?e2" if "one_shot_kinds acts = []" for acts
    using simulated_callbacks [of ?e2 ?e "ba_register_callbacks w" acts] run_callbacks_inv [OF st(2)] that
    by (simp add: owner_step_def)
  from owner_step_trans [OF 1 this] have 2: "owner_step ct ad e [] ?e2" "owner_step ct ad e ?acts ?e2"
    by fastforce+
  have inv: "adapter_inv (eng_adapter ?e)" "adapter_inv (eng_adapter ?e2)"
    using st(2) run_callbacks_inv [OF st(2)] by simp_all
  show ?thesis
  proof (cases ok)
    case False
    have eq: "begin_registration ad w e = engine_fail ad ?e"
      using st(1) False by (simp add: begin_registration_def Let_def)
    show ?thesis
      unfolding eq fail_as_stage
      by (rule start_step_failed [OF inv(1), where h = "eng_owned e"]) (use 1 in simp_all)
  next
    case True
    show ?thesis
    proof (cases "ba_register w = 0")
      case True
      then have "begin_registration ad w e = Some (?acts, ?e2)"
        using st(1) \<open>ok\<close> by (simp add: begin_registration_def Let_def)
      with 2(2) assms(2) show ?thesis by (simp add: start_step_def)
    next
      case False
      then have eq: "begin_registration ad w e = stage_failed ad ?acts (ba_register w) ''ua_register'' ?e2"
        using st(1) \<open>ok\<close> by (simp add: begin_registration_def Let_def)
      show ?thesis
        unfolding eq
        by (rule start_step_failed [OF inv(2), where h = "eng_owned e"]) (use 2(1) in simp_all)
    qed
  qed
qed

lemma begin_registration_no_secret:
  assumes "adapter_inv (eng_adapter e)" "begin_registration ad w e = Some (acts, e')"
  shows "AccountSetAuthPass ua p \<notin> set acts"
  using assms(2)
  by (auto simp: begin_registration_def stage_failed_def engine_fail_def after_actions_def Let_def
      split: option.splits prod.splits if_splits)

lemma begin_account_step:
  assumes "adapter_inv (eng_adapter e)"
  shows "start_step ct ad 0 e (begin_account ad w e)"
proof -
  let ?e = "e\<lparr>eng_password := []\<rparr>"
  have inv: "adapter_inv (eng_adapter ?e)" using assms by simp
  have o: "owner_step ct ad e [] ?e" by (rule owner_step_same [OF assms]) simp_all
  note failed = start_step_failed [OF inv _ _ _ o, where h = "eng_owned e"]
  let ?a1 = "[AccountSetAuthPass (eng_owned e) (eng_password e)]"
  let ?a2 = "?a1 @ [AccountSetRegint (eng_owned e) 600]"
  let ?a3 = "?a2 @ [UaUpdateAccount (eng_owned e)]"
  have "start_step ct ad (eng_owned e) ?e (begin_registration ad w ?e)"
    using begin_registration_step [OF inv] by simp
  then have "start_step ct ad 0 e (after_actions ?a3 (begin_registration ad w ?e))"
    by (rule start_step_after [OF _ _ _ o])
      (use begin_registration_no_secret [OF inv] in \<open>auto\<close>)
  moreover have "start_step ct ad 0 e (stage_failed ad ?a1 (ba_auth w) ''auth'' ?e)"
    "start_step ct ad 0 e (stage_failed ad ?a2 (ba_regint w) ''regint'' ?e)"
    "start_step ct ad 0 e (stage_failed ad ?a3 (ba_update w) ''ua_update'' ?e)"
    by (rule failed; simp)+
  ultimately show ?thesis by (simp add: begin_account_def Let_def)
qed

lemma engine_begin_step:
  assumes "adapter_inv (eng_adapter e)" "eng_owned e = 0"
  shows "start_step ct ad 0 e (engine_begin self ad w e)"
proof (cases "eng_process_owner e = 0")
  case False
  have "owner_step ct ad e [] e" by (rule owner_step_same [OF assms(1)]) simp_all
  then have "start_step ct ad 0 e (stage_failed ad [] (eng_sdk_error e) (eng_sdk_stage e) e)"
    by (intro start_step_failed [OF assms(1), where h = 0]) simp_all
  then show ?thesis using False by (simp add: engine_begin_def fail_as_stage)
next
  case True
  let ?e0 = "e\<lparr>eng_process_owner := self, eng_claimed := True\<rparr>"
  let ?e1 = "?e0\<lparr>eng_core := True\<rparr>" let ?e2 = "?e1\<lparr>eng_ua_initialized := True\<rparr>"
  let ?e3 = "?e2\<lparr>eng_owned := ba_ua w\<rparr>"
  have o: "owner_step ct ad e [] ?e0" "owner_step ct ad e [] ?e1" "owner_step ct ad e [] ?e2"
    "owner_step ct ad e [] ?e3"
    by (rule owner_step_same [OF assms(1)]; simp)+
  have inv: "adapter_inv (eng_adapter ?e3)" using assms(1) by simp
  let ?a6 = "[ConfConfigureBuf (nac_config (eng_config e)), BaresipInit,
    UaInit (\<not> acc_use_tls (eng_account e)) False (acc_use_tls (eng_account e)), ModAdd ''g711'',
    ModAdd ''wasapi'', UaAlloc (nac_aor (eng_config e))]"
  note failed = start_step_failed [where h = 0 and ?h0.0 = 0]
  have "start_step ct ad 0 e (after_actions ?a6 (begin_account ad w ?e3))"
    by (rule start_step_after [OF begin_account_step [OF inv] _ _ o(4)]) simp_all
  moreover have "start_step ct ad 0 e (stage_failed ad acts error stage ?e0)"
    "start_step ct ad 0 e (stage_failed ad acts error stage ?e1)"
    "start_step ct ad 0 e (stage_failed ad acts error stage ?e2)"
    "start_step ct ad 0 e (stage_failed ad acts error stage ?e3)"
    if "list_all (start_action e) acts" "secrets 0 acts = Some 0" for acts error stage
    using that failed [OF _ that _ o(1)] failed [OF _ that _ o(2)] failed [OF _ that _ o(3)]
      failed [OF _ that _ o(4)] assms(1) by simp_all
  ultimately show ?thesis
    using True by (simp add: engine_begin_def Let_def)
qed

text \<open>A round of the loop: requests for the current call, and the erasing of a failure.\<close>

fun tick_action :: "SdkAction \<Rightarrow> bool" where
  "tick_action (CallRequest r) \<longleftrightarrow> True"
| "tick_action (EraseAccountPassword ua) \<longleftrightarrow> True"
| "tick_action UaStopAll \<longleftrightarrow> True"
| "tick_action act \<longleftrightarrow> False"

definition tick_step ::
    "wctype \<Rightarrow> u64 \<Rightarrow> BaresipSipEngine \<Rightarrow> engine_result \<Rightarrow> bool" where
  "tick_step ct ad e r \<longleftrightarrow>
     (\<exists>acts e'. r = Some (acts, e') \<and> owner_step ct ad e acts e' \<and>
        (eng_password e' = eng_password e \<or> eng_password e' = []) \<and>
        secrets (eng_owned e) acts = Some (eng_owned e') \<and> list_all tick_action acts)"

text \<open>Changes of the state that the owner thread's invariants do not speak of.\<close>

definition same_owner :: "BaresipSipEngine \<Rightarrow> BaresipSipEngine \<Rightarrow> bool" where
  "same_owner e e' \<longleftrightarrow>
     eng_adapter_owner e' = eng_adapter_owner e \<and> eng_reactor e' = eng_reactor e \<and>
     eng_configured e' = eng_configured e \<and> eng_password e' = eng_password e \<and>
     eng_owned e' = eng_owned e \<and> eng_account e' = eng_account e \<and> eng_config e' = eng_config e"

lemma tick_step_then:
  assumes "tick_step ct ad e r" "\<And>e'. same_owner e' (f e') \<and> eng_adapter (f e') = eng_adapter e'"
  shows "tick_step ct ad e (map_option (map_prod id f) r)"
proof -
  obtain acts e' where r: "r = Some (acts, e')" "owner_step ct ad e acts e'"
    "eng_password e' = eng_password e \<or> eng_password e' = []"
    "secrets (eng_owned e) acts = Some (eng_owned e')" "list_all tick_action acts"
    using assms(1) by (auto simp: tick_step_def)
  have "owner_step ct ad e acts (f e')"
    using r(2) assms(2) [of e'] by (auto simp: owner_step_def same_owner_def simulated_def)
  with r assms(2) [of e'] show ?thesis by (auto simp: tick_step_def same_owner_def)
qed

lemma tick_step_before:
  assumes "tick_step ct ad e1 r" "same_owner e e1" "owner_step ct ad e [] e1"
  shows "tick_step ct ad e r"
proof -
  obtain acts e' where r: "r = Some (acts, e')" "owner_step ct ad e1 acts e'"
    "eng_password e' = eng_password e1 \<or> eng_password e' = []"
    "secrets (eng_owned e1) acts = Some (eng_owned e')" "list_all tick_action acts"
    using assms(1) by (auto simp: tick_step_def)
  with owner_step_trans [OF assms(3) r(2)] assms(2) show ?thesis
    by (auto simp: tick_step_def same_owner_def)
qed

lemma tick_step_fail:
  assumes "adapter_inv (eng_adapter e1)" "same_owner e e1"
    "owner_step ct ad e (map CallRequest rs) e1"
  shows "tick_step ct ad e (after_actions (map CallRequest rs) (engine_fail ad e1))"
proof -
  let ?more = "if eng_owned e1 \<noteq> 0 then [EraseAccountPassword (eng_owned e1), UaStopAll] else []"
  obtain e' where f: "engine_fail ad e1 = Some (?more, e')" "failed_closed e'"
    "\<And>acts. one_shot_kinds acts = [] \<Longrightarrow> owner_step ct ad e1 acts e'"
    by (rule fail_returns [OF assms(1), where ad = ad and ct = ct]) blast
  have "owner_step ct ad e (map CallRequest rs @ ?more) e'"
    using owner_step_trans [OF assms(3) f(3)] by simp
  moreover have "eng_owned e1 = eng_owned e" using assms(2) by (simp add: same_owner_def)
  moreover have "list_all tick_action (map CallRequest rs)" by (simp add: list_all_iff)
  ultimately show ?thesis
    using f(1) failed_owned [OF f(2)] by (auto simp: tick_step_def after_actions_def secrets_append)
qed

text \<open>One call of the port, as a step of the owner thread.\<close>

lemma port_call_kinds:
  assumes "port_call ct w s a c = (rs, a')"
  shows "map fst (one_shots s c rs) = one_shot_kinds (map CallRequest rs)"
  using assms
  by (cases c)
    (auto simp: originate_def port_answer_def port_hangup_def port_set_muted_def port_set_held_def
      port_send_dtmf_info_def port_transfer_def Let_def split: if_splits prod.splits)

lemma owner_step_port:
  assumes "adapter_inv (eng_adapter e)" "port_call ct w s (eng_adapter e) c = (rs, a)"
  shows "owner_step ct ad e (map CallRequest rs) (e\<lparr>eng_adapter := a\<rparr>)" "adapter_inv a"
proof -
  show "adapter_inv a" using port_call_inv [OF assms] .
  with simulated_port_call [of "e\<lparr>eng_adapter := a\<rparr>" e ct w s c rs "map CallRequest rs" ad] assms
    port_call_kinds [OF assms(2)]
  show "owner_step ct ad e (map CallRequest rs) (e\<lparr>eng_adapter := a\<rparr>)" by (simp add: owner_step_def)
qed

lemma tick_step_port:
  assumes "adapter_inv (eng_adapter e)" "port_call ct w s (eng_adapter e) c = (rs, a)"
    and "\<And>e. same_owner e (f e) \<and> eng_adapter (f e) = eng_adapter e"
  shows "tick_step ct ad e (Some (map CallRequest rs, f (e\<lparr>eng_adapter := a\<rparr>)))"
proof -
  have "tick_step ct ad e (Some (map CallRequest rs, e\<lparr>eng_adapter := a\<rparr>))"
    using owner_step_port(1) [OF assms(1,2)] by (simp add: tick_step_def list_all_iff)
  from tick_step_then [OF this assms(3)] show ?thesis by simp
qed

lemma tick_step_port_result:
  assumes "adapter_inv (eng_adapter e)" "port_call ct w s (eng_adapter e) c = (rs, a)"
  shows "tick_step ct ad e (Some (map CallRequest rs, e\<lparr>eng_adapter := a\<rparr>))"
    "tick_step ct ad e (after_actions (map CallRequest rs) (engine_fail ad (e\<lparr>eng_adapter := a\<rparr>)))"
proof -
  show "tick_step ct ad e (after_actions (map CallRequest rs) (engine_fail ad (e\<lparr>eng_adapter := a\<rparr>)))"
    by (rule tick_step_fail) (use owner_step_port [OF assms] in \<open>simp_all add: same_owner_def\<close>)
  show "tick_step ct ad e (Some (map CallRequest rs, e\<lparr>eng_adapter := a\<rparr>))"
    using tick_step_port [OF assms, of id] by (simp add: same_owner_def)
qed

lemma tick_step_connect:
  assumes "adapter_inv (eng_adapter e)"
  shows "tick_step ct ad e
      (Some ([CallRequest (UaConnect uri)], e\<lparr>eng_adapter := run_callbacks (eng_adapter e) cbs\<rparr>))"
    "tick_step ct ad e (after_actions [CallRequest (UaConnect uri)]
      (engine_fail ad (e\<lparr>eng_adapter := run_callbacks (eng_adapter e) cbs\<rparr>)))"
proof -
  let ?e = "e\<lparr>eng_adapter := run_callbacks (eng_adapter e) cbs\<rparr>"
  have o: "owner_step ct ad e (map CallRequest [UaConnect uri]) ?e"
    using simulated_callbacks [of ?e e cbs "map CallRequest [UaConnect uri]"] run_callbacks_inv [OF assms]
    by (simp add: owner_step_def)
  then have "tick_step ct ad e (after_actions (map CallRequest [UaConnect uri]) (engine_fail ad ?e))"
    by (intro tick_step_fail) (simp_all add: same_owner_def owner_step_def)
  with o show "tick_step ct ad e (Some ([CallRequest (UaConnect uri)], ?e))"
    "tick_step ct ad e (after_actions [CallRequest (UaConnect uri)] (engine_fail ad ?e))"
    by (simp_all add: tick_step_def)
qed

lemma gui_ops_owner: "same_owner e (gui_ops ct ops e)"
  by (simp add: same_owner_def)

lemma tick_step_nothing: "adapter_inv (eng_adapter e) \<Longrightarrow> tick_step ct ad e (Some ([], e))"
  using owner_step_same [of e e "[]" ct ad] by (simp add: tick_step_def)

lemma execute_command_step:
  assumes "adapter_inv (eng_adapter e)"
  shows "tick_step ct ad e (execute_command ct ad t session observed pending e)"
proof -
  let ?p = "\<lambda>c. port_call ct (ta_call t) session (eng_adapter e) c"
  let ?token = "obs_call_id observed" and ?uri = "cmd_destination pending"
  note result = tick_step_port_result [OF assms, of ct "ta_call t" session]
  note plain = tick_step_port [OF assms, of ct "ta_call t" session]
  obtain ok1 rs1 a1 ok2 rs2 a2 where two:
    "port_answer (ta_call t) session (eng_adapter e) ?token = (ok1, rs1, a1)"
    "port_hangup (ta_call t) session (eng_adapter e) ?token = (ok2, rs2, a2)" by (metis surj_pair)
  obtain er3 rs3 a3 er4 rs4 a4 where strings:
    "port_send_dtmf_info (ta_call t) session (eng_adapter e) ?token (?uri ! 0) = (er3, rs3, a3)"
    "port_transfer ct (ta_call t) session (eng_adapter e) ?token ?uri = (er4, rs4, a4)" by (metis surj_pair)
  obtain ok5 rs5 a5 er6 rs6 a6 where flags:
    "port_set_muted (ta_call t) session (eng_adapter e) ?token (cmd_desired pending) = (ok5, rs5, a5)"
    "port_set_held (ta_call t) session (eng_adapter e) ?token (cmd_desired pending) = (er6, rs6, a6)"
    by (metis surj_pair)
  have calls: "?p (PortAnswer ?token) = (rs1, a1)" "?p (PortHangup ?token) = (rs2, a2)"
    "?p (PortSendDtmf ?token (?uri ! 0)) = (rs3, a3)" "?p (PortTransfer ?token ?uri) = (rs4, a4)"
    "?p (PortSetMuted ?token (cmd_desired pending)) = (rs5, a5)"
    "?p (PortSetHeld ?token (cmd_desired pending)) = (rs6, a6)"
    using two strings flags by simp_all
  show ?thesis
    using two strings flags result [OF calls(1), of ad] result [OF calls(2), of ad]
      result(1) [OF calls(4), of ad]
      plain [OF calls(3), of "\<lambda>e. (gui_ops ct (ta_gui t 5) e)\<lparr>eng_dtmf_rejected := er3 \<noteq> 0\<rparr>" ad]
      plain [OF calls(5), of "\<lambda>e. (gui_ops ct (ta_gui t 5) e)\<lparr>eng_mute_rejected := \<not> ok5\<rparr>" ad]
      plain [OF calls(6), of "\<lambda>e. (gui_ops ct (ta_gui t 5) e)\<lparr>eng_last_hold_error := er6\<rparr>" ad]
      tick_step_connect [OF assms, of ct ad ?uri "ca_callbacks (ta_call t)"]
      tick_step_nothing [OF assms]
    by (simp add: execute_command_def same_owner_def Let_def)
qed

lemma tick_step_same:
  assumes "adapter_inv (eng_adapter e)" "same_owner e e1" "eng_adapter e1 = eng_adapter e"
    "tick_step ct ad e1 r"
  shows "tick_step ct ad e r"
proof (rule tick_step_before [OF assms(4,2)])
  show "owner_step ct ad e [] e1"
    by (rule owner_step_same [OF assms(1,3)]) (use assms(2) in \<open>simp_all add: same_owner_def\<close>)
qed

lemma tick_step_if: "tick_step ct ad e r \<Longrightarrow> tick_step ct ad e r' \<Longrightarrow> tick_step ct ad e (if b then r else r')"
  by simp

lemma tick_command_step:
  assumes "adapter_inv (eng_adapter e)"
  shows "tick_step ct ad e (tick_command ct ad t session observed e)"
proof -
  define e1 where "e1 = gui_ops ct (ta_gui t 2) (publish_media ct (ta_gui t 1) (ta_first t) session observed e)"
  define e2 where "e2 = e1\<lparr>eng_view := observed, eng_command := no_command\<rparr>"
  define route where "route = admit_native_audio_command (eng_admission e2) (eng_command e1) observed
    (eng_audio_route e2) (if native_command_needs_audio_preflight (eng_command e1) then ta_inventory t
      else empty_inventory)"
  define e3 where "e3 = (gui_ops ct (ta_gui t 3) (e2\<lparr>eng_admission := snd route\<rparr>))
    \<lparr>eng_audio_issue := dec_audio (fst route)\<rparr>"
  have same: "same_owner e e2" "eng_adapter e2 = eng_adapter e" "same_owner e e3" "eng_adapter e3 = eng_adapter e"
    by (simp_all add: e3_def e2_def e1_def same_owner_def)
  have inv: "adapter_inv (eng_adapter e2)" "adapter_inv (eng_adapter e3)" using same assms by simp_all
  have idle: "tick_step ct ad e (Some ([], e2))" "tick_step ct ad e (Some ([], e3))"
    by (rule tick_step_same [OF assms same(1,2) tick_step_nothing [OF inv(1)]]
      tick_step_same [OF assms same(3,4) tick_step_nothing [OF inv(2)]])+
  have media: "same_owner e' (publish_media ct g w s obs e') \<and> eng_adapter (publish_media ct g w s obs e') = eng_adapter e'"
    for e' g w s obs by (simp add: same_owner_def)
  have executed: "tick_step ct ad e (map_option (map_prod id (publish_media ct (ta_gui t 6) (ta_last t) session observed))
      (execute_command ct ad t session observed (eng_command e1) e3))"
    by (rule tick_step_same [OF assms same(3,4) tick_step_then [OF execute_command_step [OF inv(2)] media]])
  show ?thesis
    unfolding tick_command_def Let_def e1_def [symmetric] e2_def [symmetric] route_def [symmetric]
      case_prod_unfold e3_def [symmetric]
    by (intro tick_step_if idle executed)
qed

lemma adapter_drain_simulated:
  assumes "adapter_drain (eng_adapter e) = (batch, a)" "eng_adapter e' = a"
    "eng_adapter_owner e' = eng_adapter_owner e"
  shows "simulated ct ad e [] e'"
  by (rule simulatedI [where xs = "[LoopDrain]" and log' = "[]"]) (use assms in simp_all)

lemma engine_tick_step:
  assumes "adapter_inv (eng_adapter e)"
  shows "tick_step ct ad e (engine_tick ct ad t e)"
proof -
  obtain batch a where d: "adapter_drain (eng_adapter e) = (batch, a)" by fastforce
  have a: "adapter_inv a" using drain_keeps(1) [OF assms] d by simp
  obtain observed projection where p: "project_native_sdk_batch (eng_projection e) batch
      (native_register_ok_seen (ta_registered t) a) = (observed, projection)" by fastforce
  define e1 where "e1 = e\<lparr>eng_adapter := a, eng_projection := projection\<rparr>"
  have drained: "tick_step ct ad e r" if "tick_step ct ad e2 r" "same_owner e e2" "eng_adapter e2 = a" for e2 r
  proof (rule tick_step_before [OF that(1,2)])
    show "owner_step ct ad e [] e2"
      using adapter_drain_simulated [OF d that(3), of ct ad] a that(2,3)
      by (simp add: owner_step_def same_owner_def)
  qed
  have fails: "tick_step ct ad e (engine_fail ad e2)" if "same_owner e e2" "eng_adapter e2 = a" for e2
  proof -
    have "tick_step ct ad e2 (after_actions (map CallRequest []) (engine_fail ad e2))"
      using owner_step_same [of e2 e2 "[]" ct ad] a that(2) by (intro tick_step_fail) (simp_all add: same_owner_def)
    from drained [OF this that] show ?thesis by (simp add: after_actions_def case_prod_unfold option.map_ident)
  qed
  have runs: "tick_step ct ad e (tick_command ct ad t s observed e2)" if "same_owner e e2" "eng_adapter e2 = a" for s e2
    using drained [OF tick_command_step that] a that(2) by simp
  have "same_owner e e1" "same_owner e (gui_ops ct ops e1\<lparr>eng_registration_timed_out := b\<rparr>)"
    "same_owner e (e1\<lparr>eng_deadline := n\<rparr>)" for ops n b
    by (simp_all add: e1_def same_owner_def)
  then show ?thesis
    using tick_step_nothing [OF assms] d p fails runs
    by (simp add: engine_tick_def e1_def [symmetric] Let_def) (simp add: e1_def)
qed

section \<open>The loop and its end\<close>

definition loop_inv :: "BaresipSipEngine \<Rightarrow> bool" where
  "loop_inv e \<longleftrightarrow>
     adapter_inv (eng_adapter e) \<and> rct_queue (eng_reactor e) = rct_running (eng_reactor e) \<and>
     (rct_running (eng_reactor e) \<longrightarrow> rct_worker (eng_reactor e)) \<and>
     (\<not> rct_running (eng_reactor e) \<longrightarrow> eng_owned e = 0)"

text \<open>The calls that carry no settings of the account.\<close>

fun plain_action :: "SdkAction \<Rightarrow> bool" where
  "plain_action (ConfConfigureBuf c) \<longleftrightarrow> False"
| "plain_action (UaAlloc aor) \<longleftrightarrow> False"
| "plain_action (AccountSetAuthPass ua p) \<longleftrightarrow> False"
| "plain_action act \<longleftrightarrow> True"

definition loop_event ::
    "wctype \<Rightarrow> u64 \<Rightarrow> BaresipSipEngine \<Rightarrow> engine_result \<Rightarrow> bool" where
  "loop_event ct ad e r \<longleftrightarrow>
     (\<exists>acts e'. r = Some (acts, e') \<and> loop_inv e' \<and> simulated ct ad e acts e' \<and>
        secrets (eng_owned e) acts = Some (eng_owned e') \<and> list_all plain_action acts \<and>
        eng_configured e' = eng_configured e \<and>
        (eng_password e' = eng_password e \<or> eng_password e' = []) \<and>
        eng_account e' = eng_account e \<and> eng_config e' = eng_config e)"

lemma loop_event_quiet:
  assumes "loop_inv e"
  shows "loop_event ct ad e (Some ([], e))"
  using assms simulated_same [of e e "[]" ct ad] by (simp add: loop_event_def)

lemma tick_plain: "tick_action act \<Longrightarrow> plain_action act"
  by (cases act) auto

lemma reactor_tick_event:
  assumes "loop_inv e"
  shows "loop_event ct ad e (reactor_tick ct ad t e)"
proof (cases "\<not> rct_queue (eng_reactor e) \<or> rct_ending (eng_reactor e)")
  case True
  then have "reactor_tick ct ad t e = Some ([], e)" by (simp add: reactor_tick_def)
  with loop_event_quiet [OF assms] show ?thesis by simp
next
  case False
  have "tick_step ct ad e (engine_tick ct ad t e)"
    using engine_tick_step assms by (simp add: loop_inv_def)
  then obtain acts e' where r: "engine_tick ct ad t e = Some (acts, e')" "owner_step ct ad e acts e'"
    "eng_password e' = eng_password e \<or> eng_password e' = []"
    "secrets (eng_owned e) acts = Some (eng_owned e')" "list_all tick_action acts"
    by (auto simp: tick_step_def)
  let ?e' = "e'\<lparr>eng_reactor := (eng_reactor e')\<lparr>rct_ticks := rct_ticks (eng_reactor e') + 1\<rparr>\<rparr>"
  have "reactor_tick ct ad t e = Some (acts, ?e')" using r(1) False by (simp add: reactor_tick_def)
  moreover have "loop_inv ?e'" using assms False r(2) by (simp add: loop_inv_def owner_step_def)
  moreover have "simulated ct ad e acts ?e'" using r(2) by (simp add: owner_step_def simulated_def)
  moreover have "list_all plain_action acts" using r(5) tick_plain by (simp add: list_all_iff)
  ultimately show ?thesis using r by (simp add: loop_event_def owner_step_def)
qed

lemma engine_end_step:
  assumes "adapter_inv (eng_adapter e)"
  obtains acts e' where "engine_end ad e = Some (acts, e')" "owner_step ct ad e acts e'"
    "eng_owned e' = 0" "eng_password e' = []" "secrets (eng_owned e) acts = Some 0"
    "list_all plain_action acts"
proof -
  obtain po a where stop: "adapter_stop ad (eng_adapter_owner e) (eng_adapter e) = Some (po, a)"
    "adapter_inv a" using stop_inv [OF assms] by metis
  define acts e' where "acts = fst (the (engine_end ad e))" and "e' = snd (the (engine_end ad e))"
  have fin: "engine_end ad e = Some (acts, e')"
    unfolding acts_def e'_def by (simp add: engine_end_def stop(1) Let_def)
  have e': "eng_owned e' = 0" "eng_password e' = []" "eng_adapter e' = a" "eng_adapter_owner e' = po"
    "eng_configured e' = eng_configured e" "eng_reactor e' = eng_reactor e"
    "eng_account e' = eng_account e" "eng_config e' = eng_config e"
    unfolding e'_def by (simp_all add: engine_end_def stop(1) Let_def)
  have acts: "one_shot_kinds acts = []" "secrets (eng_owned e) acts = Some 0" "list_all plain_action acts"
    unfolding acts_def by (simp_all add: engine_end_def stop(1) Let_def)
  have "owner_step ct ad e acts e'"
    using simulated_adapter_op [of ad e AdapterStop e' acts ct] stop e' acts(1)
    by (simp add: owner_step_def)
  with fin e' acts that show thesis by blast
qed

lemma worker_exit_event:
  assumes "loop_inv e" "rct_running (eng_reactor e)"
  shows "loop_event ct ad e (worker_exit ad loop_error e)"
proof -
  let ?e = "e\<lparr>eng_reactor := main_loop_ended (eng_reactor e) loop_error\<rparr>"
  have inv: "adapter_inv (eng_adapter ?e)" using assms(1) by (simp add: loop_inv_def)
  obtain acts e1 where fin: "engine_end ad ?e = Some (acts, e1)" "owner_step ct ad ?e acts e1"
    "eng_owned e1 = 0" "eng_password e1 = []" "secrets (eng_owned ?e) acts = Some 0"
    "list_all plain_action acts" by (rule engine_end_step [OF inv])
  let ?e' = "e1\<lparr>eng_reactor := worker_finished (eng_reactor e1)\<rparr>"
  have "worker_exit ad loop_error e = Some (acts, ?e')" using fin(1) by (simp add: worker_exit_def)
  moreover have "loop_inv ?e'" using fin by (simp add: loop_inv_def owner_step_def worker_finished_def)
  moreover have "simulated ct ad e acts ?e'" using fin(2) by (simp add: owner_step_def simulated_def)
  ultimately show ?thesis using fin by (simp add: loop_event_def owner_step_def)
qed

text \<open>A change of the reactor or of the interface's own fields around an event.\<close>

lemma loop_event_then:
  assumes "loop_event ct ad e r"
    and "\<And>e'. loop_inv e' \<Longrightarrow> loop_inv (f e') \<and>
      eng_adapter (f e') = eng_adapter e' \<and> eng_adapter_owner (f e') = eng_adapter_owner e' \<and>
      eng_owned (f e') = eng_owned e' \<and> eng_configured (f e') = eng_configured e' \<and>
      (eng_password (f e') = eng_password e' \<or> eng_password (f e') = []) \<and>
      eng_account (f e') = eng_account e' \<and> eng_config (f e') = eng_config e'"
  shows "loop_event ct ad e (map_option (map_prod id f) r)"
proof -
  obtain acts e' where r: "r = Some (acts, e')" "loop_inv e'" "simulated ct ad e acts e'"
    "secrets (eng_owned e) acts = Some (eng_owned e')" "list_all plain_action acts"
    "eng_configured e' = eng_configured e" "eng_password e' = eng_password e \<or> eng_password e' = []"
    "eng_account e' = eng_account e" "eng_config e' = eng_config e"
    using assms(1) unfolding loop_event_def by blast
  note f = assms(2) [OF r(2)]
  have "simulated ct ad e acts (f e')" using f r(3) by (simp add: simulated_def)
  moreover have "eng_password (f e') = eng_password e \<or> eng_password (f e') = []" using f r(7) by auto
  ultimately show ?thesis using f r by (simp add: loop_event_def)
qed

lemma loop_event_reactor: "loop_event ct ad (e\<lparr>eng_reactor := r\<rparr>) res \<Longrightarrow> loop_event ct ad e res"
  by (simp add: loop_event_def simulated_def)

lemma reactor_stop_event:
  assumes "loop_inv e"
  shows "loop_event ct ad e (reactor_stop ad loop_error e)"
proof (cases "rct_worker (eng_reactor e)")
  case False
  with loop_event_quiet [OF assms] show ?thesis by (simp add: reactor_stop_def)
next
  case True
  let ?join = "\<lambda>e. e\<lparr>eng_reactor := (eng_reactor e)\<lparr>rct_ending := True, rct_worker := False\<rparr>\<rparr>"
  show ?thesis
  proof (cases "rct_running (eng_reactor e)")
    case False
    then have "reactor_stop ad loop_error e = Some ([], ?join e)"
      using True assms by (simp add: reactor_stop_def loop_inv_def)
    moreover have "loop_inv (?join e)" using assms False by (simp add: loop_inv_def)
    ultimately show ?thesis using simulated_same [of "?join e" e "[]" ct ad] by (simp add: loop_event_def)
  next
    case running: True
    let ?e = "e\<lparr>eng_reactor := (eng_reactor e)\<lparr>rct_ending := True\<rparr>\<rparr>"
    have "loop_inv ?e" "rct_running (eng_reactor ?e)" using assms running by (simp_all add: loop_inv_def)
    then obtain acts e' where r: "worker_exit ad loop_error ?e = Some (acts, e')"
      and l: "loop_event ct ad ?e (Some (acts, e'))"
      using worker_exit_event [of ?e ct ad loop_error] by (auto simp: loop_event_def)
    have "\<not> rct_running (eng_reactor e')"
      using r by (auto simp: worker_exit_def worker_finished_def)
    then have "loop_event ct ad ?e (Some (acts, ?join e'))"
      using l by (simp add: loop_event_def loop_inv_def simulated_def)
    moreover have "reactor_stop ad loop_error e = Some (acts, ?join e')"
      using True running assms r by (simp add: reactor_stop_def loop_inv_def)
    ultimately show ?thesis using loop_event_reactor by metis
  qed
qed

section \<open>Starting\<close>

lemma reactor_start_refused:
  assumes "loop_inv e" "\<not> rct_running (eng_reactor e)" "eng_reactor e' = r" "eng_adapter e' = eng_adapter e"
    "eng_adapter_owner e' = eng_adapter_owner e" "eng_owned e' = eng_owned e"
    "rct_queue r = rct_queue (eng_reactor e)" "\<not> rct_running r"
  shows "loop_inv e' \<and> simulated ct ad e [] e' \<and> eng_owned e' = 0"
  using assms simulated_same [of e' e "[]" ct ad] by (simp add: loop_inv_def)

lemma publish_ready_fields [simp]:
  "rct_queue (publish_ready r running fault) = rct_queue r"
  "rct_worker (publish_ready r running fault) = rct_worker r"
  "rct_running (publish_ready r running fault) = running"
  by (simp_all add: publish_ready_def)

lemma worker_start_step:
  assumes "loop_inv e" "\<not> rct_running (eng_reactor e)" "rct_worker (eng_reactor e)"
  obtains acts e' where "worker_start self ad w e = Some (acts, e')"
    "loop_inv e'" "simulated ct ad e acts e'" "secrets 0 acts = Some (eng_owned e')"
    "list_all (start_action e) acts" "eng_configured e' = eng_configured e"
    "eng_password e' = eng_password e \<or> eng_password e' = []"
    "rct_running (eng_reactor e') \<longrightarrow> eng_password e' = []"
    "\<not> rct_running (eng_reactor e') \<longrightarrow> acts = []"
    "eng_account e' = eng_account e" "eng_config e' = eng_config e"
proof -
  note result = that
  let ?not = "\<lambda>fault. e\<lparr>eng_reactor := publish_ready (eng_reactor e) False fault\<rparr>"
  have idle: "eng_owned e = 0" "adapter_inv (eng_adapter e)" using assms(1,2) by (simp_all add: loop_inv_def)
  have refused: thesis if "worker_start self ad w e = Some ([], ?not fault)" for fault
  proof -
    have "loop_inv (?not fault) \<and> simulated ct ad e [] (?not fault) \<and> eng_owned (?not fault) = 0"
      by (rule reactor_start_refused [OF assms(1,2) refl]) simp_all
    with that show thesis
      by (intro result [of "[]" "?not fault"]) simp_all
  qed
  show thesis
  proof (cases "st_init_error w \<noteq> 0 \<or> st_queue_error w \<noteq> 0 \<or> \<not> st_queue w")
    case True
    then have "worker_start self ad w e = Some ([], ?not LibreReactorFault.InitRejected) \<or>
        worker_start self ad w e = Some ([], ?not LibreReactorFault.QueueRejected)"
      by (simp add: worker_start_def Let_def)
    then show thesis by (elim disjE) (rule refused; assumption)+
  next
    case False
    have "start_step ct ad 0 e (engine_begin self ad (st_begin w) e)"
      by (rule engine_begin_step [OF idle(2,1)])
    then obtain acts e1 where b: "engine_begin self ad (st_begin w) e = Some (acts, e1)"
      "owner_step ct ad e acts e1" "eng_password e1 = []" "secrets 0 acts = Some (eng_owned e1)"
      "list_all (start_action e) acts" by (auto simp: start_step_def)
    let ?e' = "e1\<lparr>eng_reactor := publish_ready ((eng_reactor e1)\<lparr>rct_queue := True\<rparr>) True
        LibreReactorFault.NoFault\<rparr>"
    have "worker_start self ad w e = Some (acts, ?e')" using False b(1) by (simp add: worker_start_def Let_def)
    moreover have "loop_inv ?e'" "simulated ct ad e acts ?e'"
      using b(2) assms(3) by (simp_all add: loop_inv_def owner_step_def simulated_def)
    ultimately show thesis
      using b by (intro result [of acts ?e']) (simp_all add: owner_step_def)
  qed
qed

text \<open>
  The engine between two events: while the loop runs nothing is configured and no password is
  held; while it does not, no agent is owned; and a password is held exactly when the engine is
  configured, with the settings it belongs to.
\<close>

definition armed :: "BaresipSipEngine \<Rightarrow> bool" where
  "armed e \<longleftrightarrow> length (eng_password e) \<le> 1024 \<and> CHR 0x00 \<notin> set (eng_password e) \<and>
     nac_valid (eng_config e) \<and>
     (\<exists>ca audio. eng_config e = native_account_config (eng_account e) ca audio)"

definition engine_inv :: "BaresipSipEngine \<Rightarrow> bool" where
  "engine_inv e \<longleftrightarrow> loop_inv e \<and>
     (rct_running (eng_reactor e) \<longrightarrow> \<not> eng_configured e) \<and>
     (eng_configured e \<longleftrightarrow> eng_password e \<noteq> []) \<and> (eng_configured e \<longrightarrow> armed e)"

text \<open>What an event may tell the SDK of the settings.\<close>

fun settings_action :: "BaresipSipEngine \<Rightarrow> SdkAction \<Rightarrow> bool" where
  "settings_action e (ConfConfigureBuf c) \<longleftrightarrow> eng_configured e \<and> c = nac_config (eng_config e)"
| "settings_action e (UaAlloc aor) \<longleftrightarrow> eng_configured e \<and> aor = nac_aor (eng_config e)"
| "settings_action e (AccountSetAuthPass ua p) \<longleftrightarrow> eng_configured e \<and> p = eng_password e"
| "settings_action e act \<longleftrightarrow> True"

lemma plain_settings: "plain_action act \<Longrightarrow> settings_action e act"
  by (cases act) auto

text \<open>\<open>register_account\<close>, from the settings of a configured engine.\<close>

definition registering :: "BaresipSipEngine \<Rightarrow> BaresipSipEngine" where
  "registering e = e\<lparr>eng_configured := False, eng_failed := False, eng_sdk_error := 0,
     eng_sdk_stage := [], eng_registration_timed_out := False,
     eng_feedback := feedback_clear (eng_feedback e), eng_start_rejected := False,
     eng_configure_rejected := False,
     eng_view := observation RuntimeProcess.Running SipStatus.Registering SipEvidence.NoEvidence 0\<rparr>"

lemma registering_fields [simp]:
  "eng_configured (registering e) = False" "eng_password (registering e) = eng_password e"
  "eng_config (registering e) = eng_config e" "eng_adapter (registering e) = eng_adapter e"
  "eng_adapter_owner (registering e) = eng_adapter_owner e" "eng_owned (registering e) = eng_owned e"
  "eng_reactor (registering e) = eng_reactor e"
  by (simp_all add: registering_def)

text \<open>The conclusion about one event that starts the engine.\<close>

definition register_result ::
    "wctype \<Rightarrow> u64 \<Rightarrow> BaresipSipEngine \<Rightarrow> (bool \<times> SdkAction list \<times> BaresipSipEngine) option \<Rightarrow> bool" where
  "register_result ct ad e r \<longleftrightarrow>
     (\<exists>ok acts e'. r = Some (ok, acts, e') \<and> engine_inv e' \<and> simulated ct ad e acts e' \<and>
        secrets (eng_owned e) acts = Some (eng_owned e') \<and> list_all (settings_action e) acts \<and>
        (eng_password e' = [] \<or> eng_password e' = eng_password e))"

lemma register_rejected:
  assumes "eng_configured e" "\<not> rct_running (eng_reactor e)" "eng_owned e = 0"
    and start: "reactor_start self ad w (registering e) = Some (False, [], e1)" "loop_inv e1"
      "simulated ct ad (registering e) [] e1" "eng_owned e1 = 0" "\<not> eng_configured e1"
  shows "register_result ct ad e (engine_register_account self ad w e)"
proof -
  obtain acts e2 where s: "reactor_stop ad 0 e1 = Some (acts, e2)" "loop_inv e2"
    "simulated ct ad e1 acts e2" "secrets (eng_owned e1) acts = Some (eng_owned e2)"
    "list_all plain_action acts" "eng_configured e2 = eng_configured e1"
    using reactor_stop_event [OF start(2), of ct ad 0] by (auto simp: loop_event_def)
  let ?e' = "e2\<lparr>eng_password := [], eng_view := failed_view, eng_command := no_command,
    eng_media := no_media, eng_start_rejected := True\<rparr>"
  have "engine_register_account self ad w e = Some (False, acts, ?e')"
    using start(1) s(1) assms(1,2) by (simp add: engine_register_account_def registering_def)
  moreover have "engine_inv ?e'" using s(2,6) start(5) by (simp add: engine_inv_def loop_inv_def)
  moreover have "simulated ct ad e acts ?e'"
    using simulated_trans [OF start(3) s(3)] by (simp add: simulated_def)
  moreover have "list_all (settings_action e) acts" using s(5) plain_settings by (simp add: list_all_iff)
  ultimately show ?thesis using s(4) start(4) assms(3) by (auto simp: register_result_def)
qed

lemma register_thread:
  assumes "engine_inv e" "eng_configured e" "\<not> rct_running (eng_reactor e)"
    and "\<not> rct_worker (eng_reactor e)" "st_thread w"
  shows "register_result ct ad e (engine_register_account self ad w e)"
proof -
  let ?started = "(registering e)\<lparr>eng_reactor := (reactor_starting (eng_reactor e))\<lparr>rct_worker := True\<rparr>\<rparr>"
  have e: "eng_owned e = 0" "loop_inv e" using assms(1,3) by (simp_all add: engine_inv_def loop_inv_def)
  have l: "loop_inv ?started" "\<not> rct_running (eng_reactor ?started)" "rct_worker (eng_reactor ?started)"
    using e assms(3) by (simp_all add: reactor_starting_def loop_inv_def)
  obtain acts e1 where w: "worker_start self ad w ?started = Some (acts, e1)"
    "loop_inv e1" "simulated ct ad ?started acts e1" "secrets 0 acts = Some (eng_owned e1)"
    "list_all (start_action ?started) acts" "eng_configured e1 = eng_configured ?started"
    "rct_running (eng_reactor e1) \<longrightarrow> eng_password e1 = []"
    "\<not> rct_running (eng_reactor e1) \<longrightarrow> acts = []"
    by (rule worker_start_step [OF l, of self ad w ct]) blast
  have r: "reactor_start self ad w (registering e) = Some (rct_running (eng_reactor e1), acts, e1)"
    using assms(4,5) w(1) by (simp add: reactor_start_def Let_def)
  have sim: "simulated ct ad (registering e) acts e1" using w(3) by (simp add: simulated_def)
  have off: "\<not> eng_configured e1" using w(6) by simp
  show ?thesis
  proof (cases "rct_running (eng_reactor e1)")
    case False
    with w(2,4,8) sim r off register_rejected [OF assms(2,3) e(1), of self ad w e1 ct] show ?thesis by simp
  next
    case True
    have "settings_action e act" if "start_action ?started act" for act
      using that assms(2) by (cases act) auto
    then have "list_all (settings_action e) acts" using w(5) by (simp add: list_all_iff)
    moreover have "engine_register_account self ad w e = Some (True, acts, e1)"
      using r True assms(2,3) by (simp add: engine_register_account_def registering_def)
    moreover have "simulated ct ad e acts e1" using sim by (simp add: simulated_def)
    ultimately show ?thesis
      using w(2,4,7) off True e(1) by (auto simp: register_result_def engine_inv_def)
  qed
qed

lemma register_step:
  assumes "engine_inv e"
  shows "register_result ct ad e (engine_register_account self ad w e)"
proof (cases "\<not> eng_configured e \<or> rct_running (eng_reactor e)")
  case True
  then have "engine_register_account self ad w e = Some (False, [], e)"
    by (simp add: engine_register_account_def)
  then show ?thesis using simulated_same [of e e "[]" ct ad] assms by (auto simp: register_result_def)
next
  case False
  then have e: "eng_configured e" "\<not> rct_running (eng_reactor e)" "eng_owned e = 0" "loop_inv (registering e)"
    using assms by (simp_all add: engine_inv_def loop_inv_def)
  let ?starting = "(registering e)\<lparr>eng_reactor := reactor_starting (eng_reactor e)\<rparr>"
  have starting: "loop_inv ?starting" "simulated ct ad (registering e) [] ?starting" "eng_owned ?starting = 0"
    using reactor_start_refused [OF e(4) _ refl, of ?starting ct ad] e by (simp_all add: reactor_starting_def)
  have same: "simulated ct ad (registering e) [] (registering e)" by (rule simulated_same) simp_all
  note rejected = register_rejected [OF e(1-3), of self ad w _ ct]
  consider (joinable) "rct_worker (eng_reactor e)" | (no_thread) "\<not> rct_worker (eng_reactor e)" "\<not> st_thread w"
    | (thread) "\<not> rct_worker (eng_reactor e)" "st_thread w" by blast
  then show ?thesis
  proof cases
    case joinable
    then have "reactor_start self ad w (registering e) = Some (False, [], registering e)"
      by (simp add: reactor_start_def)
    from rejected [OF this e(4) same] e(3) show ?thesis by simp
  next
    case no_thread
    then have "reactor_start self ad w (registering e) = Some (False, [], ?starting)"
      by (simp add: reactor_start_def Let_def)
    from rejected [OF this starting] show ?thesis by simp
  next
    case thread
    with register_thread [OF assms e(1,2)] show ?thesis by simp
  qed
qed

section \<open>Events and runs\<close>

text \<open>The password a call of the interface brings.\<close>

fun given_password :: "EngineEvent \<Rightarrow> string set" where
  "given_password (EngineConfigureAuthenticated a ca password timeout audio allocated) = {password}"
| "given_password ev = {}"

definition event_step ::
    "wctype \<Rightarrow> u64 \<Rightarrow> BaresipSipEngine \<Rightarrow> string set \<Rightarrow> engine_result \<Rightarrow> bool" where
  "event_step ct ad e given r \<longleftrightarrow>
     (\<exists>acts e'. r = Some (acts, e') \<and> engine_inv e' \<and> simulated ct ad e acts e' \<and>
        secrets (eng_owned e) acts = Some (eng_owned e') \<and> list_all (settings_action e) acts \<and>
        (eng_password e' = [] \<or> eng_password e' = eng_password e \<or> eng_password e' \<in> given))"

lemma event_step_quiet:
  assumes "engine_inv e'" "eng_adapter_owner e' = eng_adapter_owner e" "eng_adapter e' = eng_adapter e"
    "eng_owned e' = eng_owned e"
    "eng_password e' = [] \<or> eng_password e' = eng_password e \<or> eng_password e' \<in> given"
  shows "event_step ct ad e given (Some ([], e'))"
  using assms simulated_same [of e' e "[]" ct ad] by (simp add: event_step_def)

text \<open>An event of the loop, in an engine without settings or one that forgets them.\<close>

lemma event_step_loop:
  assumes "engine_inv e" "loop_event ct ad e r" "\<not> eng_configured e"
  shows "event_step ct ad e given r"
proof -
  obtain acts e' where r: "r = Some (acts, e')" "loop_inv e'" "simulated ct ad e acts e'"
    "secrets (eng_owned e) acts = Some (eng_owned e')" "list_all plain_action acts"
    "eng_configured e' = eng_configured e" "eng_password e' = eng_password e \<or> eng_password e' = []"
    using assms(2) unfolding loop_event_def by blast
  have "engine_inv e'" using r assms(1,3) by (auto simp: engine_inv_def)
  with r plain_settings show ?thesis by (auto simp: event_step_def list_all_iff)
qed

lemma event_step_forget:
  assumes "loop_event ct ad e r"
    and "\<And>e'. eng_configured (f e') = False \<and> eng_password (f e') = [] \<and> eng_adapter (f e') = eng_adapter e' \<and>
      eng_adapter_owner (f e') = eng_adapter_owner e' \<and> eng_owned (f e') = eng_owned e' \<and>
      eng_reactor (f e') = eng_reactor e'"
  shows "event_step ct ad e given (map_option (map_prod id f) r)"
proof -
  obtain acts e' where r: "r = Some (acts, e')" "loop_inv e'" "simulated ct ad e acts e'"
    "secrets (eng_owned e) acts = Some (eng_owned e')" "list_all plain_action acts"
    using assms(1) unfolding loop_event_def by blast
  have "engine_inv (f e')" "simulated ct ad e acts (f e')"
    using r(2,3) assms(2) [of e'] by (simp_all add: engine_inv_def loop_inv_def simulated_def)
  with r plain_settings assms(2) [of e'] show ?thesis by (auto simp: event_step_def list_all_iff)
qed

lemma same_core_inv:
  assumes "engine_inv e" "same_core e e'"
  shows "engine_inv e'"
  using assms(1) by (auto simp: engine_inv_def loop_inv_def armed_def same_core_fields [OF assms(2)])

lemma reject_inv:
  assumes "engine_inv e" "\<not> rct_running (eng_reactor e)"
  shows "engine_inv (reject_configuration e)"
  using assms by (simp add: reject_configuration_def engine_inv_def loop_inv_def)

lemma configure_authenticated_inv:
  assumes "engine_inv e"
  shows "event_step ct ad e {password}
    (Some ([], snd (engine_configure_authenticated e a ca password timeout audio allocated)))"
proof (cases "rct_running (eng_reactor e)")
  case True
  then have "engine_configure_authenticated e a ca password timeout audio allocated = (False, e)"
    by (simp add: engine_configure_authenticated_def)
  with event_step_quiet [OF assms refl refl refl] show ?thesis by simp
next
  case False
  let ?cfg = "native_account_config a ca audio"
  let ?bad = "\<not> allocated \<or> \<not> nac_valid ?cfg \<or> password = [] \<or> length password > 1024 \<or>
    CHR 0x00 \<in> set password \<or> timeout < 100 \<or> timeout > 60000"
  show ?thesis
  proof (cases ?bad)
    case True
    then have "engine_configure_authenticated e a ca password timeout audio allocated =
        (False, reject_configuration e)"
      using False by (auto simp: engine_configure_authenticated_def Let_def)
    moreover have "event_step ct ad e {password} (Some ([], reject_configuration e))"
      by (rule event_step_quiet [OF reject_inv [OF assms False]]) (simp_all add: reject_configuration_def)
    ultimately show ?thesis by simp
  next
    case good: False
    let ?e' = "snd (engine_configure_authenticated e a ca password timeout audio allocated)"
    have "eng_password ?e' = password" "eng_account ?e' = a" "eng_config ?e' = ?cfg" "eng_configured ?e'"
      "eng_adapter ?e' = eng_adapter e" "eng_adapter_owner ?e' = eng_adapter_owner e"
      "eng_owned ?e' = eng_owned e" "eng_reactor ?e' = eng_reactor e"
      using good False by (simp_all add: engine_configure_authenticated_def Let_def)
    moreover from this have "engine_inv ?e'"
      using assms good False by (auto simp: engine_inv_def loop_inv_def armed_def)
    ultimately show ?thesis by (intro event_step_quiet) simp_all
  qed
qed

lemma engine_event_step:
  assumes "engine_inv e"
  shows "event_step ct ad e (given_password ev) (engine_event ct self ad e ev)"
proof (cases ev)
  case EngineConfigure
  have "engine_inv (snd (engine_configure e))"
    using assms reject_inv by (simp add: engine_configure_def)
  with EngineConfigure show ?thesis
    by (simp, intro event_step_quiet) (simp_all add: engine_configure_def reject_configuration_def)
next
  case (EngineConfigureAuthenticated a ca password timeout audio allocated)
  with configure_authenticated_inv [OF assms] show ?thesis by simp
next
  case (EngineRegister w)
  with register_step [OF assms, of ct ad self w] show ?thesis
    by (auto simp: event_step_def register_result_def)
next
  case (EngineGui op)
  have "same_core e (snd (gui_op ct e op))" by (rule gui_op_core)
  with EngineGui same_core_inv [OF assms this] show ?thesis
    by (simp, intro event_step_quiet) (simp_all add: same_core_fields)
next
  case (EngineStopped loop_error)
  have "loop_event ct ad e (reactor_stop ad loop_error e)"
    using reactor_stop_event assms by (simp add: engine_inv_def)
  then have "event_step ct ad e {} (engine_stopped ad loop_error e)"
    unfolding engine_stopped_def by (rule event_step_forget) simp
  with EngineStopped show ?thesis by simp
next
  case (EngineTick t)
  have l: "loop_inv e" using assms by (simp add: engine_inv_def)
  show ?thesis
  proof (cases "eng_configured e")
    case True
    then have "reactor_tick ct ad t e = Some ([], e)"
      using assms by (simp add: reactor_tick_def engine_inv_def loop_inv_def)
    with EngineTick event_step_quiet [OF assms refl refl refl] show ?thesis by simp
  next
    case False
    with EngineTick event_step_loop [OF assms reactor_tick_event [OF l]] show ?thesis by simp
  qed
next
  case (EngineCallback cb)
  let ?e' = "e\<lparr>eng_adapter := run_callbacks (eng_adapter e) [cb]\<rparr>"
  have "engine_inv ?e'"
    using assms run_callbacks_inv by (auto simp: engine_inv_def loop_inv_def armed_def)
  with EngineCallback simulated_callbacks [of ?e' e "[cb]" "[]" ct ad] show ?thesis
    by (simp add: event_step_def)
next
  case (EngineLoopEnded loop_error)
  have l: "loop_inv e" using assms by (simp add: engine_inv_def)
  show ?thesis
  proof (cases "rct_running (eng_reactor e)")
    case True
    have "\<not> eng_configured e" using assms True by (simp add: engine_inv_def)
    from event_step_loop [OF assms worker_exit_event [OF l True] this] EngineLoopEnded True l
    show ?thesis by (simp add: loop_inv_def)
  next
    case False
    with EngineLoopEnded l event_step_quiet [OF assms refl refl refl] show ?thesis
      by (simp add: loop_inv_def)
  qed
qed

text \<open>What a run may tell the SDK, with \<open>given\<close> the passwords the interface brought.\<close>

fun run_action :: "string set \<Rightarrow> SdkAction \<Rightarrow> bool" where
  "run_action given (AccountSetAuthPass ua p) \<longleftrightarrow>
     p \<in> given \<and> p \<noteq> [] \<and> length p \<le> 1024 \<and> CHR 0x00 \<notin> set p"
| "run_action given (ConfConfigureBuf c) \<longleftrightarrow>
     (\<exists>a ca audio. nac_valid (native_account_config a ca audio) \<and>
        c = nac_config (native_account_config a ca audio))"
| "run_action given (UaAlloc aor) \<longleftrightarrow>
     (\<exists>a ca audio. nac_valid (native_account_config a ca audio) \<and>
        aor = nac_aor (native_account_config a ca audio))"
| "run_action given act \<longleftrightarrow> True"

lemma settings_run:
  assumes "settings_action e act" "engine_inv e" "eng_password e = [] \<or> eng_password e \<in> given"
  shows "run_action given act"
  using assms by (cases act) (fastforce simp: engine_inv_def armed_def)+

lemma run_action_mono: "run_action A act \<Longrightarrow> A \<subseteq> B \<Longrightarrow> run_action B act"
  by (cases act) auto

lemma engine_run_step:
  assumes "engine_inv e" "eng_password e = [] \<or> eng_password e \<in> given"
  shows "\<exists>acts e'. engine_run ct self ad e evs = Some (acts, e') \<and> engine_inv e' \<and>
    simulated ct ad e acts e' \<and> secrets (eng_owned e) acts = Some (eng_owned e') \<and>
    list_all (run_action (given \<union> \<Union> (given_password ` set evs))) acts"
  using assms
proof (induction evs arbitrary: e given)
  case Nil
  then show ?case using simulated_same [of e e "[]" ct ad] by simp
next
  case (Cons ev evs)
  obtain acts1 e1 where 1: "engine_event ct self ad e ev = Some (acts1, e1)" "engine_inv e1"
    "simulated ct ad e acts1 e1" "secrets (eng_owned e) acts1 = Some (eng_owned e1)"
    "list_all (settings_action e) acts1"
    "eng_password e1 = [] \<or> eng_password e1 = eng_password e \<or> eng_password e1 \<in> given_password ev"
    using engine_event_step [OF Cons.prems(1), of ct ad ev self] by (auto simp: event_step_def)
  let ?given = "given \<union> given_password ev"
  have "eng_password e1 = [] \<or> eng_password e1 \<in> ?given" using 1(6) Cons.prems(2) by auto
  from Cons.IH [OF 1(2) this] obtain acts2 e2 where
    2: "engine_run ct self ad e1 evs = Some (acts2, e2)" "engine_inv e2"
    "simulated ct ad e1 acts2 e2" "secrets (eng_owned e1) acts2 = Some (eng_owned e2)"
    "list_all (run_action (?given \<union> \<Union> (given_password ` set evs))) acts2" by blast
  have "run_action (given \<union> \<Union> (given_password ` set (ev # evs))) act" if "act \<in> set acts1 \<union> set acts2" for act
  proof (cases "act \<in> set acts1")
    case True
    then have "run_action given act"
      using 1(5) settings_run [OF _ Cons.prems] by (simp add: list_all_iff)
    then show ?thesis by (rule run_action_mono) simp
  next
    case False
    with that 2(5) have "run_action (?given \<union> \<Union> (given_password ` set evs)) act" by (simp add: list_all_iff)
    then show ?thesis by (rule run_action_mono) auto
  qed
  then have "list_all (run_action (given \<union> \<Union> (given_password ` set (ev # evs)))) (acts1 @ acts2)"
    by (simp add: list_all_iff del: UN_simps)
  with 1 2 simulated_trans [OF 1(3) 2(3)] show ?case
    by (simp add: after_actions_def secrets_append)
qed

lemma engine_inv_new: "engine_inv new_engine"
  using adapter_inv_empty
  by (simp add: engine_inv_def loop_inv_def new_engine_def new_reactor_def)

lemma engine_run_new:
  obtains acts e where "engine_run ct self ad new_engine evs = Some (acts, e)" "engine_inv e"
    "simulated ct ad new_engine acts e" "secrets 0 acts = Some (eng_owned e)"
    "list_all (run_action (\<Union> (given_password ` set evs))) acts"
  using engine_run_step [OF engine_inv_new, where given = "{}" and ct = ct and self = self and ad = ad and evs = evs]
  by (auto simp: new_engine_def)

section \<open>The requests of a tick\<close>

text \<open>The operation of the port a command stands for; \<open>None\<close> for a dial.\<close>

definition command_call :: "NativeCallCommand \<Rightarrow> u64 \<Rightarrow> PortCall option" where
  "command_call c token =
     (case cmd_action c of
        NativeCallAction.Answer \<Rightarrow> Some (PortAnswer token)
      | NativeCallAction.Hangup \<Rightarrow> Some (PortHangup token)
      | NativeCallAction.Dtmf \<Rightarrow> Some (PortSendDtmf token (cmd_destination c ! 0))
      | NativeCallAction.Transfer \<Rightarrow> Some (PortTransfer token (cmd_destination c))
      | NativeCallAction.SetMute \<Rightarrow> Some (PortSetMuted token (cmd_desired c))
      | NativeCallAction.SetHold \<Rightarrow> Some (PortSetHeld token (cmd_desired c))
      | _ \<Rightarrow> None)"

lemma fail_no_request: "engine_fail ad e = Some (acts, e') \<Longrightarrow> CallRequest r \<notin> set acts"
  by (auto simp: engine_fail_def split: option.splits if_splits)

lemma execute_requests:
  assumes "execute_command ct ad t session observed pending e = Some (acts, e')"
    "CallRequest r \<in> set acts"
  shows "(cmd_action pending = NativeCallAction.Dial \<and> r = UaConnect (cmd_destination pending)) \<or>
    (\<exists>c rs a'. command_call pending (obs_call_id observed) = Some c \<and>
       port_call ct (ta_call t) session (eng_adapter e) c = (rs, a') \<and> r \<in> set rs)"
  using assms fail_no_request
  by (cases "cmd_action pending")
    (fastforce simp: execute_command_def command_call_def after_actions_def Let_def
      split: if_splits prod.splits)+

section \<open>The engine behind the application service\<close>

definition engine_port :: "wctype \<Rightarrow> BaresipSipEngine NativePort" where
  "engine_port ct = \<lparr>port_observation = eng_view, port_start_call = engine_start_call ct,
     port_answer_call = engine_answer_call, port_hangup_call = engine_hangup_call\<rparr>"

lemma submit_accepted:
  assumes "engine_submit e a uri desired expected displayed = (True, e')"
  shows "cmd_action (eng_command e') = a" "cmd_session (eng_command e') = obs_session (eng_view e)"
    "cmd_call_id (eng_command e') = obs_call_id (eng_view e)"
    "cmd_destination (eng_command e') = uri" "cmd_desired (eng_command e') = desired"
    "\<not> submit_refused e a uri expected displayed"
  using assms by (auto simp: engine_submit_def split: if_splits)

lemma submit_displayed:
  assumes "engine_submit e a [] False None (Some d) = (True, e')"
    "a = NativeCallAction.Answer \<or> a = NativeCallAction.Hangup"
  shows "eng_command e' = displayed_command a (obs_session d) (obs_call_id d)"
proof -
  have "native_displayed_call_command_current a d (eng_view e)"
    using submit_accepted(6) [OF assms(1)] assms(2) by (auto simp: submit_refused_def)
  from displayed_call_current [OF this] submit_accepted [OF assms(1)] show ?thesis
    by (simp add: displayed_command_def)
qed

lemma submit_declined: "engine_submit e a uri desired expected displayed = (False, e') \<Longrightarrow> e' = e"
  by (auto simp: engine_submit_def split: if_splits)

interpretation engine: native_port "engine_port ct" eng_command for ct
proof unfold_locales
  fix p p' w d
  show "cmd_action (eng_command p') = NativeCallAction.Dial \<and>
      cmd_session (eng_command p') = obs_session (port_observation (engine_port ct) p)"
    if "port_start_call (engine_port ct) p w = (True, p')"
    using that submit_accepted(1,2)
    by (fastforce simp: engine_port_def engine_start_call_def Let_def split: if_splits)
  show "eng_command p' = displayed_command NativeCallAction.Answer (obs_session d) (obs_call_id d)"
    if "port_answer_call (engine_port ct) p d = (True, p')"
    using that submit_displayed by (simp add: engine_port_def engine_answer_call_def)
  show "eng_command p' = displayed_command NativeCallAction.Hangup (obs_session d) (obs_call_id d)"
    if "port_hangup_call (engine_port ct) p d = (True, p')"
    using that submit_displayed by (simp add: engine_port_def engine_hangup_call_def)
  show "eng_command p' = eng_command p"
    if "port_start_call (engine_port ct) p w = (False, p') \<or>
      port_answer_call (engine_port ct) p d = (False, p') \<or>
      port_hangup_call (engine_port ct) p d = (False, p')"
    using that submit_declined
    by (fastforce simp: engine_port_def engine_start_call_def engine_answer_call_def
        engine_hangup_call_def Let_def split: if_splits)
qed

text \<open>A request of a tick comes from its command branch, in an engine that is live.\<close>

lemma admitted_route:
  assumes "admit_native_audio_command m c s route inventory = (d, m')" "dec_allowed d"
  shows "native_command_needs_audio_preflight c \<longrightarrow>
    native_audio_route_status route inventory = NativeAudioRouteStatus.Ready"
  using assms by (auto simp: admit_native_audio_command_def Let_def split: if_splits)

lemma tick_command_requests:
  assumes "tick_command ct ad t session observed e = Some (acts, e')" "CallRequest r \<in> set acts"
  defines "pending \<equiv> eng_command (gui_ops ct (ta_gui t 2)
      (publish_media ct (ta_gui t 1) (ta_first t) session observed e))"
  shows "native_register_ok_seen (ta_registered t) (eng_adapter e) \<and>
    native_command_is_current pending observed \<and>
    (native_command_needs_audio_preflight pending \<longrightarrow>
       native_audio_route_status (eng_audio_route e) (ta_inventory t) = NativeAudioRouteStatus.Ready) \<and>
    ((cmd_action pending = NativeCallAction.Dial \<and> r = UaConnect (cmd_destination pending)) \<or>
     (\<exists>c rs a'. command_call pending (obs_call_id observed) = Some c \<and>
        port_call ct (ta_call t) session (eng_adapter e) c = (rs, a') \<and> r \<in> set rs))"
proof -
  define e1 where "e1 = gui_ops ct (ta_gui t 2)
    (publish_media ct (ta_gui t 1) (ta_first t) session observed e)"
  define e2 where "e2 = e1\<lparr>eng_view := observed, eng_command := no_command\<rparr>"
  obtain d m where dm: "admit_native_audio_command (eng_admission e2) pending observed (eng_audio_route e2)
      (if native_command_needs_audio_preflight pending then ta_inventory t else empty_inventory) = (d, m)"
    by fastforce
  define e3 where "e3 = (gui_ops ct (ta_gui t 3) (e2\<lparr>eng_admission := m\<rparr>))\<lparr>eng_audio_issue := dec_audio d\<rparr>"
  have same: "eng_adapter e2 = eng_adapter e" "eng_adapter e3 = eng_adapter e" "eng_audio_route e2 = eng_audio_route e"
    by (simp_all add: e3_def e2_def e1_def)
  have p: "pending = eng_command e1" by (simp add: pending_def e1_def)
  have eq: "tick_command ct ad t session observed e =
      (if \<not> native_register_ok_seen (ta_registered t) (eng_adapter e2) \<or>
          \<not> native_command_is_current pending observed then Some ([], e2)
       else if cmd_action pending = NativeCallAction.Transfer \<and>
          \<not> valid_native_transfer_uri ct (cmd_destination pending) then Some ([], e2)
       else if \<not> dec_allowed d then Some ([], e3)
       else map_option (map_prod id (publish_media ct (ta_gui t 6) (ta_last t) session observed))
         (execute_command ct ad t session observed pending e3))"
    using dm unfolding p tick_command_def Let_def e1_def [symmetric] e2_def [symmetric] by (simp add: e3_def)
  have "acts \<noteq> []" using assms(2) by auto
  with assms(1) obtain e4 where x: "native_register_ok_seen (ta_registered t) (eng_adapter e)"
    "native_command_is_current pending observed" "dec_allowed d"
    "execute_command ct ad t session observed pending e3 = Some (acts, e4)"
    unfolding eq by (auto simp: same split: if_splits)
  with execute_requests [OF x(4) assms(2)] admitted_route [OF dm x(3)] same show ?thesis
    by (auto split: if_splits)
qed

lemma engine_tick_requests:
  assumes "engine_tick ct ad t e = Some (acts, e')" "CallRequest r \<in> set acts"
    and d: "adapter_drain (eng_adapter e) = (batch, a)"
      "project_native_sdk_batch (eng_projection e) batch (native_register_ok_seen (ta_registered t) a) =
         (observed, projection)"
  obtains e1 where "\<not> eng_failed e" "eng_owned e \<noteq> 0" "adapter_active a"
    "same_owner e e1" "eng_adapter e1 = a" "eng_audio_route e1 = eng_audio_route e"
    "eng_command e1 = eng_command e"
    "tick_command ct ad t (adapter_session a) observed e1 = Some (acts, e')"
proof -
  have live: "\<not> eng_failed e" "eng_owned e \<noteq> 0"
    using assms(1,2) by (auto simp: engine_tick_def)
  define timed_out where "timed_out \<longleftrightarrow> \<not> native_register_ok_seen (ta_registered t) a \<and>
    ta_now_ms t \<ge> eng_deadline e \<and> adapter_active a \<and> obs_sip observed \<noteq> SipStatus.Failed"
  define closing where "closing \<longleftrightarrow> \<not> adapter_active a \<or>
    obs_evidence observed \<noteq> SipEvidence.VerifiedNativeApi \<or> obs_sip observed = SipStatus.Failed \<or> timed_out"
  define deadline where "deadline = (if native_register_ok_seen (ta_registered t) a then u64_max
    else if eng_deadline e = u64_max then ta_rearm_ms t + ucast (eng_timeout_ms e) else eng_deadline e)"
  let ?e1 = "e\<lparr>eng_adapter := a, eng_projection := projection, eng_deadline := deadline\<rparr>"
  have "\<not> closing"
  proof
    assume closing
    then have "engine_tick ct ad t e = engine_fail ad (if timed_out then (gui_ops ct (ta_gui t 0)
        (e\<lparr>eng_adapter := a, eng_projection := projection\<rparr>))\<lparr>eng_registration_timed_out := True\<rparr>
        else e\<lparr>eng_adapter := a, eng_projection := projection\<rparr>)"
      using live d by (simp add: engine_tick_def timed_out_def closing_def Let_def)
    with assms(1,2) fail_no_request show False by metis
  qed
  then have "engine_tick ct ad t e = tick_command ct ad t (adapter_session a) observed ?e1"
    using live d by (auto simp: engine_tick_def timed_out_def closing_def deadline_def Let_def)
  with assms(1) live \<open>\<not> closing\<close> that [of ?e1] show thesis
    by (simp add: closing_def same_owner_def)
qed

lemma request_of_command:
  assumes "(cmd_action pending = NativeCallAction.Dial \<and> r = UaConnect (cmd_destination pending)) \<or>
    (\<exists>c rs a'. command_call pending token = Some c \<and>
       port_call ct w session a c = (rs, a') \<and> r \<in> set rs)"
    "cmd_call_id pending = token"
  shows "case r of
       UaConnect uri \<Rightarrow> cmd_action pending = NativeCallAction.Dial \<and> uri = cmd_destination pending
     | _ \<Rightarrow> cmd_call_id pending = ad_active_token a \<and>
         (\<exists>c. command_call pending (ad_active_token a) = Some c \<and>
            r \<in> set (fst (port_call ct w session a c)))"
  using assms(1)
proof (elim disjE exE conjE)
  assume "cmd_action pending = NativeCallAction.Dial" "r = UaConnect (cmd_destination pending)"
  then show ?thesis by simp
next
  fix c rs a'
  assume c: "command_call pending token = Some c" "port_call ct w session a c = (rs, a')" "r \<in> set rs"
  have "\<exists>u. r = UaConnect u \<Longrightarrow> \<exists>d. c = PortOriginate d" "\<nexists>u. r = UaConnect u \<Longrightarrow> token = ad_active_token a"
    using port_request_sound [OF c(2,3)] c(1)
    by (auto simp: command_call_def split: SdkRequest.splits NativeCallAction.splits)
  with c assms(2) show ?thesis
    by (cases r) (auto simp: command_call_def split: NativeCallAction.splits)
qed

text \<open>Past the deadline without a confirmation, whatever was drained, a tick fails closed.\<close>

lemma expired_tick_fails:
  assumes "adapter_inv (eng_adapter e)" "\<not> eng_failed e" "eng_owned e \<noteq> 0"
    "adapter_drain (eng_adapter e) = (batch, a)" "\<not> native_register_ok_seen (ta_registered t) a"
    "eng_deadline e \<le> ta_now_ms t"
  obtains e' where "engine_tick ct ad t e = Some ([EraseAccountPassword (eng_owned e), UaStopAll], e')"
    "failed_closed e'"
proof -
  obtain observed projection where p: "project_native_sdk_batch (eng_projection e) batch
      (native_register_ok_seen (ta_registered t) a) = (observed, projection)" by fastforce
  let ?e = "e\<lparr>eng_adapter := a, eng_projection := projection\<rparr>"
  let ?late = "(gui_ops ct (ta_gui t 0) ?e)\<lparr>eng_registration_timed_out := True\<rparr>"
  have inv: "adapter_inv (eng_adapter ?e)" "adapter_inv (eng_adapter ?late)"
    using drain_keeps(1) [OF assms(1)] assms(4) by simp_all
  have "engine_tick ct ad t e = engine_fail ad ?e \<or> engine_tick ct ad t e = engine_fail ad ?late"
    using assms(2-6) p by (auto simp: engine_tick_def Let_def)
  then show thesis
  proof
    assume "engine_tick ct ad t e = engine_fail ad ?e"
    then show thesis
      by (rule_tac fail_returns [OF inv(1), of ad ct]) (use that assms(3) in auto)
  next
    assume "engine_tick ct ad t e = engine_fail ad ?late"
    then show thesis
      by (rule_tac fail_returns [OF inv(2), of ad ct]) (use that assms(3) in auto)
  qed
qed

section \<open>A sample engine\<close>

definition sample_begin :: BeginAnswers where
  "sample_begin = \<lparr>ba_conf = 0, ba_init = 0, ba_ua_init = 0, ba_g711 = 0, ba_wasapi = 0,
     ba_ua_alloc = 0, ba_ua = 9, ba_auth = 0, ba_regint = 0, ba_update = 0, ba_allocated = True,
     ba_bevent_error = 0, ba_now_ms = 100, ba_register = 0, ba_register_callbacks = []\<rparr>"

definition sample_start :: StartAnswers where
  "sample_start = \<lparr>st_thread = True, st_init_error = 0, st_queue_error = 0, st_queue = True,
     st_begin = sample_begin\<rparr>"

definition sample_tick :: "u64 \<Rightarrow> bool \<Rightarrow> TickAnswers" where
  "sample_tick now registered = \<lparr>ta_registered = \<lambda>ua. registered, ta_now_ms = now,
     ta_rearm_ms = now, ta_inventory = empty_inventory, ta_first = sample_call_answers,
     ta_call = sample_call_answers, ta_before = sample_call_answers, ta_last = sample_call_answers,
     ta_gui = \<lambda>n. []\<rparr>"

definition sample_events :: "EngineEvent list" where
  "sample_events =
     [EngineConfigureAuthenticated sample_account [] ''secret'' 500 default_route True,
      EngineRegister sample_start]"

text \<open>An engine whose user hung up an incoming call.\<close>

definition sample_engine :: BaresipSipEngine where
  "sample_engine = new_engine\<lparr>eng_owned := 9, eng_adapter := sample_in_call,
     eng_command := displayed_command NativeCallAction.Hangup 1 1\<rparr>"

definition ringing :: SipRuntimeObservation where
  "ringing = (observation RuntimeProcess.Running SipStatus.Ringing SipEvidence.VerifiedNativeApi 1)
     \<lparr>obs_call_id := 1, obs_last_call_id := 1\<rparr>"

section \<open>Properties\<close>

text \<open>
  C14. The engine's threads never deadlock. Whatever the interface calls, whatever the SDK answers
  and whatever callbacks it runs, every operation of the engine returns, and between two events no
  callback is inside the fence: the waits in \<open>fail\<close> and \<open>end\<close> always end.
\<close>

theorem engine_always_returns:
  "\<exists>acts e. engine_run ct self ad new_engine evs = Some (acts, e) \<and>
     fen_in_flight (lif_fence (ad_lifecycle (eng_adapter e))) = 0"
proof -
  obtain acts e where "engine_run ct self ad new_engine evs = Some (acts, e)" "engine_inv e"
    by (rule engine_run_new)
  then show ?thesis by (auto simp: engine_inv_def loop_inv_def adapter_inv_def lifecycle_inv_idle)
qed

text \<open>
  C11. The engine uses the SDK's calls as the event loop of the call port does: every run of the
  engine is, on its adapter, a run of \<open>loop_run\<close> from the empty adapter, with the same requests to
  answer, hang up and transfer in the same order. So those requests are distinct as triples of
  request, session and call: a call is answered, hung up and transferred at most once.
\<close>

theorem engine_refines_event_loop:
  "\<exists>acts e xs log. engine_run ct self ad new_engine evs = Some (acts, e) \<and>
     loop_run ct ad (0, empty_adapter, []) xs = Some (eng_adapter_owner e, eng_adapter e, log) \<and>
     map fst log = one_shot_kinds acts \<and> distinct log"
proof -
  obtain acts e where r: "engine_run ct self ad new_engine evs = Some (acts, e)"
    "simulated ct ad new_engine acts e" by (rule engine_run_new)
  from r(2) obtain xs log where log: "map fst log = one_shot_kinds acts"
    "\<forall>l. loop_run ct ad (eng_adapter_owner new_engine, eng_adapter new_engine, l) xs =
       Some (eng_adapter_owner e, eng_adapter e, l @ log)"
    unfolding simulated_def by blast
  have l: "loop_run ct ad (0, empty_adapter, []) xs = Some (eng_adapter_owner e, eng_adapter e, log)"
    using log(2) [rule_format, of "[]"] by (simp add: new_engine_def)
  moreover have "distinct log"
    using loop_run_ok [OF adapter_inv_empty issued_ok_empty, of ct ad 0 xs] l
    by (auto simp: issued_ok_def)
  ultimately show ?thesis using r(1) log(1) by blast
qed

text \<open>
  C13. The password leaves the engine only into the SDK account of the session it was given for, and
  is erased there before the SDK is stopped or closed. In every run: the SDK calls, read in order,
  never stop or close the SDK and never pass a password on while an account holds one, and
  afterwards only the agent the engine still owns can hold one; what is passed on as a password was
  given by the interface and is not empty, at most 1024 bytes and free of NUL; the configuration
  text and the address of record are those of a valid account configuration; and while the reactor
  runs the engine itself holds no password.
\<close>

theorem password_stays_contained:
  "\<exists>acts e. engine_run ct self ad new_engine evs = Some (acts, e) \<and>
     secrets 0 acts = Some (eng_owned e) \<and>
     list_all (run_action (\<Union> (given_password ` set evs))) acts \<and>
     (rct_running (eng_reactor e) \<longrightarrow> eng_password e = []) \<and>
     (\<not> rct_running (eng_reactor e) \<longrightarrow> eng_owned e = 0)"
proof -
  obtain acts e where "engine_run ct self ad new_engine evs = Some (acts, e)" "engine_inv e"
    "secrets 0 acts = Some (eng_owned e)" "list_all (run_action (\<Union> (given_password ` set evs))) acts"
    by (rule engine_run_new)
  then show ?thesis by (auto simp: engine_inv_def loop_inv_def)
qed

theorem password_stays_contained_witness:
  "\<exists>acts e. engine_run c_locale 5 1 new_engine sample_events = Some (acts, e) \<and>
     rct_running (eng_reactor e) \<and> eng_password e = [] \<and> eng_owned e = 9 \<and>
     AccountSetAuthPass 9 ''secret'' \<in> set acts"
proof -
  obtain acts e where r: "engine_run c_locale 5 1 new_engine sample_events = Some (acts, e)"
    "rct_running (eng_reactor e) \<longrightarrow> eng_password e = []"
    using password_stays_contained [of c_locale 5 1 sample_events] by blast
  let ?auth = "\<lambda>act. case act of AccountSetAuthPass ua p \<Rightarrow> True | _ \<Rightarrow> False"
  have "map_option (\<lambda>(acts, e). (rct_running (eng_reactor e), eng_owned e, filter ?auth acts))
      (engine_run c_locale 5 1 new_engine sample_events) =
    Some (True, 9, [AccountSetAuthPass 9 ''secret''])" by code_simp
  with r have "rct_running (eng_reactor e)" "eng_owned e = 9"
    "filter ?auth acts = [AccountSetAuthPass 9 ''secret'']" by simp_all
  moreover from this(3) have "AccountSetAuthPass 9 ''secret'' \<in> set (filter ?auth acts)" by simp
  then have "AccountSetAuthPass 9 ''secret'' \<in> set acts" unfolding set_filter by blast
  ultimately show ?thesis using r by blast
qed

text \<open>
  C17. A click acts on the call the user saw. When the application service reports that answering
  or hanging up was accepted by the engine, the command the engine holds is to answer or to hang up,
  as was clicked, and is current for the observation the user was shown and for the engine's own at that
  moment: it names that session and that call, and a call in a state in which the action makes sense.
\<close>

theorem click_acts_on_displayed_call:
  assumes "service_answer (engine_port ct) meanwhile e displayed = (True, e') \<or>
    service_hangup (engine_port ct) meanwhile e displayed = (True, e')"
  shows "native_command_is_current (eng_command e') displayed \<and>
    native_command_is_current (eng_command e') (eng_view e) \<and>
    cmd_session (eng_command e') = obs_session displayed \<and>
    cmd_call_id (eng_command e') = obs_call_id displayed \<and>
    (service_answer (engine_port ct) meanwhile e displayed = (True, e') \<longrightarrow>
       cmd_action (eng_command e') = NativeCallAction.Answer) \<and>
    (service_hangup (engine_port ct) meanwhile e displayed = (True, e') \<longrightarrow>
       cmd_action (eng_command e') = NativeCallAction.Hangup)"
proof -
  have "native_command_is_current (eng_command e') displayed"
    "native_command_is_current (eng_command e') (port_observation (engine_port ct) e)"
    using assms engine.answer_is_displayed engine.hangup_is_displayed by blast+
  then show ?thesis
    using current_session current_proof engine.answer_submits [of ct meanwhile e displayed e']
      engine.hangup_submits [of ct meanwhile e displayed e']
    by (simp add: engine_port_def displayed_command_def)
qed

theorem click_acts_on_displayed_call_witness:
  "native_command_is_current (displayed_command NativeCallAction.Answer 1 1) ringing \<and>
   cmd_action (eng_command (snd (service_answer (engine_port c_locale) id (new_engine\<lparr>eng_view := ringing\<rparr>) ringing))) =
     NativeCallAction.Answer"
proof -
  let ?e = "new_engine\<lparr>eng_view := ringing\<rparr>"
  have s: "service_answer (engine_port c_locale) id ?e ringing =
      (True, snd (service_answer (engine_port c_locale) id ?e ringing))"
    by (rule prod_eqI) (code_simp, simp)
  have c: "native_command_is_current (displayed_command NativeCallAction.Answer 1 1) ringing" by code_simp
  from click_acts_on_displayed_call [OF disjI1 [OF s]] s c show ?thesis by blast
qed

text \<open>
  C12. A tick executes a command only while it is current. If a tick makes a call request to the SDK,
  then the engine is live and its registration confirmed by the SDK; the command it executes is
  current for what the drained events show (session, call and status); for a dial, an answer or a
  resume the selected audio devices were just found; the request is the one the command stands
  for, on the call the adapter tracks under the command's call token; and when the interface does
  nothing meanwhile the command is the one that was submitted.
\<close>

theorem tick_executes_current_command:
  assumes "engine_tick ct ad t e = Some (acts, e')" "CallRequest r \<in> set acts"
    and "adapter_drain (eng_adapter e) = (batch, a)"
    and "project_native_sdk_batch (eng_projection e) batch
      (native_register_ok_seen (ta_registered t) a) = (observed, projection)"
  shows "\<exists>pending. native_command_is_current pending observed \<and>
    native_register_ok_seen (ta_registered t) a \<and> eng_owned e \<noteq> 0 \<and> \<not> eng_failed e \<and>
    (native_command_needs_audio_preflight pending \<longrightarrow>
       native_audio_route_status (eng_audio_route e) (ta_inventory t) = NativeAudioRouteStatus.Ready) \<and>
    (case r of
       UaConnect uri \<Rightarrow> cmd_action pending = NativeCallAction.Dial \<and> uri = cmd_destination pending
     | _ \<Rightarrow> cmd_call_id pending = ad_active_token a \<and>
         (\<exists>c. command_call pending (ad_active_token a) = Some c \<and>
            r \<in> set (fst (port_call ct (ta_call t) (adapter_session a) a c)))) \<and>
    (ta_gui t 1 = [] \<and> ta_gui t 2 = [] \<longrightarrow> pending = eng_command e)"
proof -
  obtain e1 where e1: "\<not> eng_failed e" "eng_owned e \<noteq> 0" "eng_adapter e1 = a"
    "eng_audio_route e1 = eng_audio_route e" "eng_command e1 = eng_command e"
    "tick_command ct ad t (adapter_session a) observed e1 = Some (acts, e')"
    by (rule engine_tick_requests [OF assms]) blast
  define pending where "pending = eng_command (gui_ops ct (ta_gui t 2)
    (publish_media ct (ta_gui t 1) (ta_first t) (adapter_session a) observed e1))"
  note r = tick_command_requests [OF e1(6) assms(2), folded pending_def, unfolded e1(3,4)]
  have "pending = eng_command e" if "ta_gui t 1 = []" "ta_gui t 2 = []"
    using that e1(5) by (simp add: pending_def publish_media_def gui_ops_def Let_def split: prod.split)
  moreover have "case r of
       UaConnect uri \<Rightarrow> cmd_action pending = NativeCallAction.Dial \<and> uri = cmd_destination pending
     | _ \<Rightarrow> cmd_call_id pending = ad_active_token a \<and>
         (\<exists>c. command_call pending (ad_active_token a) = Some c \<and>
            r \<in> set (fst (port_call ct (ta_call t) (adapter_session a) a c)))"
    using r current_proof [of pending observed] request_of_command by blast
  ultimately show ?thesis using r e1(1,2) by blast
qed

theorem tick_executes_current_command_witness:
  "\<exists>pending. native_command_is_current pending ringing \<and> pending = eng_command sample_engine"
proof -
  let ?t = "sample_tick 300 True"
  obtain acts e' where r: "engine_tick c_locale 1 ?t sample_engine = Some (acts, e')"
    "acts = [CallRequest (UaHangup 77)]"
  proof -
    have "map_option fst (engine_tick c_locale 1 ?t sample_engine) = Some [CallRequest (UaHangup 77)]"
      by code_simp
    then show thesis using that by auto
  qed
  obtain batch a where d: "adapter_drain (eng_adapter sample_engine) = (batch, a)" by fastforce
  obtain observed projection where p: "project_native_sdk_batch (eng_projection sample_engine) batch
      (native_register_ok_seen (ta_registered ?t) a) = (observed, projection)" by fastforce
  have "fst (project_native_sdk_batch (eng_projection sample_engine)
      (fst (adapter_drain (eng_adapter sample_engine)))
      (native_register_ok_seen (ta_registered ?t) (snd (adapter_drain (eng_adapter sample_engine))))) = ringing"
    by code_simp
  then have "observed = ringing" by (simp add: d p)
  with tick_executes_current_command [OF r(1) _ d p, of "UaHangup 77"] r(2) show ?thesis
    by (auto simp: sample_tick_def)
qed

text \<open>
  C15. A registration that is not confirmed in time ends the session. In any engine a run can reach
  that owns an agent and has not failed, the first tick at or after the deadline at which the SDK
  does not confirm the registration erases the agent's password, stops the agents and fails closed,
  whatever events were drained; from then on ticks do nothing until the interface acts.
\<close>

theorem unconfirmed_registration_expires:
  assumes "engine_run ct self ad new_engine evs = Some (acts, e)" "eng_owned e \<noteq> 0" "\<not> eng_failed e"
    and "\<not> native_register_ok_seen (ta_registered t) (snd (adapter_drain (eng_adapter e)))"
    and "eng_deadline e \<le> ta_now_ms t"
  shows "\<exists>e'. engine_tick ct ad t e = Some ([EraseAccountPassword (eng_owned e), UaStopAll], e') \<and>
    failed_closed e' \<and> (\<forall>t'. engine_tick ct ad t' e' = Some ([], e'))"
proof -
  obtain acts' e1 where "engine_run ct self ad new_engine evs = Some (acts', e1)" "engine_inv e1"
    by (rule engine_run_new)
  with assms(1) have inv: "adapter_inv (eng_adapter e)" by (auto simp: engine_inv_def loop_inv_def)
  obtain batch a where d: "adapter_drain (eng_adapter e) = (batch, a)" by fastforce
  obtain e' where "engine_tick ct ad t e = Some ([EraseAccountPassword (eng_owned e), UaStopAll], e')"
    "failed_closed e'"
    by (rule expired_tick_fails [OF inv assms(3,2) d, of t ct ad]) (use assms(4,5) d in auto)
  moreover from this(2) have "engine_tick ct ad t' e' = Some ([], e')" for t'
    by (simp add: engine_tick_def failed_closed_def)
  ultimately show ?thesis by blast
qed

theorem unconfirmed_registration_expires_witness:
  "\<exists>e e'. engine_tick c_locale 1 (sample_tick 600 False) e = Some ([EraseAccountPassword 9, UaStopAll], e') \<and>
     eng_owned e = 9"
proof -
  let ?r = "engine_run c_locale 5 1 new_engine sample_events"
  have facts: "map_option (\<lambda>(acts, e). (eng_owned e, eng_failed e, eng_deadline e)) ?r = Some (9, False, 600)"
    by code_simp
  then obtain acts e where r: "?r = Some (acts, e)" "eng_owned e = 9" "\<not> eng_failed e" "eng_deadline e = 600"
    by auto
  have "\<not> native_register_ok_seen (ta_registered (sample_tick 600 False)) a" for a
    by (simp add: native_register_ok_seen_def sample_tick_def)
  with unconfirmed_registration_expires [OF r(1) _ r(3), of "sample_tick 600 False"] r(2,4)
  show ?thesis by (auto simp: sample_tick_def)
qed

end
