(* ===== verification/Native_Ingress.thy ===== *)
theory Native_Ingress
  imports Event_Mailbox "HOL-Library.Sublist"
begin

text \<open>
  The pre-admission ingress of native signals, \<open>baresip_native_ingress.h\<close>: opaque account and call
  identities are checked against the bound account and the call in progress, every violation
  revokes the session and all evidence already queued. The state is the pair of the ingress's
  members and the mailbox it holds a reference to; one mutex makes every method one function.
\<close>

section \<open>The ingress\<close>

text \<open>\<open>OtherSignal\<close>: a value of the enumeration's underlying type that is no enumerator.\<close>

datatype NativeSignal =
    Registering | RegisterOk | RegisterFail | Unregistering
  | CallIncoming | CallOutgoing | CallEstablished | CallClosed
  | TransportLost | Unrelated | OtherSignal

record NativeCallback =
  ncb_signal :: NativeSignal
  ncb_session :: u64
  ncb_account :: u64
  ncb_call :: u64

datatype NativeIngressResult = Queued | Ignored | Rejected | Revoked

datatype NativeIngressFault =
    NoIngressFault | SessionMismatch | AccountMismatch | CallMismatch
  | Malformed | Unrecognized | QueueRejected

record BaresipNativeIngress =
  nig_session :: u64
  nig_account :: u64
  nig_call :: u64
  nig_call_token :: u64
  nig_last_call_token :: u64
  nig_fault :: NativeIngressFault

definition empty_native_ingress :: BaresipNativeIngress where
  "empty_native_ingress = \<lparr>nig_session = 0, nig_account = 0, nig_call = 0, nig_call_token = 0,
     nig_last_call_token = 0, nig_fault = NativeIngressFault.NoIngressFault\<rparr>"

type_synonym native_ingress_state = "BaresipNativeIngress \<times> BaresipEventMailbox"

definition native_revoke :: "NativeIngressFault \<Rightarrow> native_ingress_state \<Rightarrow>
    NativeIngressResult \<times> native_ingress_state" where
  "native_revoke why = (\<lambda>(g, mb).
     (NativeIngressResult.Revoked,
      (\<lparr>nig_session = 0, nig_account = 0, nig_call = 0, nig_call_token = 0, nig_last_call_token = 0,
        nig_fault = why\<rparr>, mailbox_invalidate_session mb)))"

definition bind_validated_account :: "native_ingress_state \<Rightarrow> u64 \<Rightarrow> u64 \<times> native_ingress_state" where
  "bind_validated_account = (\<lambda>(g, mb) account.
     if account = 0 \<or> nig_session g \<noteq> 0 \<or> nig_fault g \<noteq> NativeIngressFault.NoIngressFault
     then (0, (g, mb))
     else (let (next, mb) = mailbox_begin_session mb
           in if next = 0 then (0, (g\<lparr>nig_fault := NativeIngressFault.QueueRejected\<rparr>, mb))
              else (next, (g\<lparr>nig_account := account, nig_session := next, nig_call := 0,
                     nig_call_token := 0, nig_last_call_token := 0\<rparr>, mb))))"

text \<open>The \<open>switch\<close> on the signal: the event, and whether it belongs to, starts or closes a call.\<close>

fun native_signal_event :: "NativeSignal \<Rightarrow> BaresipEventKind" where
  "native_signal_event NativeSignal.RegisterOk = BaresipEventKind.RegisterOk"
| "native_signal_event NativeSignal.RegisterFail = BaresipEventKind.RegisterFail"
| "native_signal_event NativeSignal.Unregistering = BaresipEventKind.Unregistering"
| "native_signal_event NativeSignal.CallIncoming = BaresipEventKind.CallIncoming"
| "native_signal_event NativeSignal.CallOutgoing = BaresipEventKind.CallOutgoing"
| "native_signal_event NativeSignal.CallEstablished = BaresipEventKind.CallEstablished"
| "native_signal_event NativeSignal.CallClosed = BaresipEventKind.CallClosed"
| "native_signal_event NativeSignal.TransportLost = BaresipEventKind.TransportLost"
| "native_signal_event _ = BaresipEventKind.Registering"

definition starts_call :: "NativeSignal \<Rightarrow> bool" where
  "starts_call s \<longleftrightarrow> s = NativeSignal.CallIncoming \<or> s = NativeSignal.CallOutgoing"

definition call_signal :: "NativeSignal \<Rightarrow> bool" where
  "call_signal s \<longleftrightarrow> starts_call s \<or> s = NativeSignal.CallEstablished \<or> s = NativeSignal.CallClosed"

definition native_accept ::
    "native_ingress_state \<Rightarrow> NativeCallback \<Rightarrow> NativeIngressResult \<times> native_ingress_state" where
  "native_accept = (\<lambda>(g, mb) cb.
     if nig_session g = 0 \<or> nig_fault g \<noteq> NativeIngressFault.NoIngressFault
     then (NativeIngressResult.Rejected, (g, mb))
     else if ncb_session cb \<noteq> nig_session g
     then native_revoke NativeIngressFault.SessionMismatch (g, mb)
     else if ncb_account cb = 0 \<or> ncb_account cb \<noteq> nig_account g
     then native_revoke NativeIngressFault.AccountMismatch (g, mb)
     else if ncb_signal cb = NativeSignal.Unrelated
     then (if ncb_call cb = 0 then (NativeIngressResult.Ignored, (g, mb))
           else native_revoke NativeIngressFault.Malformed (g, mb))
     else if ncb_signal cb = NativeSignal.OtherSignal
     then native_revoke NativeIngressFault.Unrecognized (g, mb)
     else if \<not> call_signal (ncb_signal cb) \<and> ncb_call cb \<noteq> 0
     then native_revoke NativeIngressFault.Malformed (g, mb)
     else if call_signal (ncb_signal cb) \<and> ncb_call cb = 0
     then native_revoke NativeIngressFault.CallMismatch (g, mb)
     else (let opens = (starts_call (ncb_signal cb) \<and> nig_call g = 0) in
       if call_signal (ncb_signal cb) \<and> \<not> opens \<and> (nig_call g = 0 \<or> ncb_call cb \<noteq> nig_call g)
       then native_revoke NativeIngressFault.CallMismatch (g, mb)
       else if call_signal (ncb_signal cb) \<and> opens \<and> nig_last_call_token g = u64_max
       then native_revoke NativeIngressFault.CallMismatch (g, mb)
       else (let event_call_token = (if call_signal (ncb_signal cb)
                   then if opens then nig_last_call_token g + 1 else nig_call_token g else 0);
                 (ok, mb) = mailbox_enqueue mb
                   (native_event (native_signal_event (ncb_signal cb)) (nig_session g) event_call_token)
             in if \<not> ok then native_revoke NativeIngressFault.QueueRejected (g, mb)
                else (let g = (if opens
                               then g\<lparr>nig_call := ncb_call cb, nig_call_token := event_call_token,
                                      nig_last_call_token := event_call_token\<rparr> else g)
                      in (NativeIngressResult.Queued,
                          (if ncb_signal cb = NativeSignal.CallClosed \<or>
                              ncb_signal cb = NativeSignal.TransportLost
                           then g\<lparr>nig_call := 0, nig_call_token := 0\<rparr> else g, mb))))))"

definition reset_after_teardown :: "native_ingress_state \<Rightarrow> native_ingress_state" where
  "reset_after_teardown = (\<lambda>(g, mb). (empty_native_ingress, mailbox_invalidate_session mb))"

section \<open>Runs\<close>

text \<open>What the adapter, its teardown and the consumer of the queue do, in any order.\<close>

datatype NativeIngressOp =
    BindAccount u64
  | AcceptCallback NativeCallback
  | ResetAfterTeardown
  | DrainQueue

fun native_op :: "native_ingress_state \<Rightarrow> NativeIngressOp \<Rightarrow> native_ingress_state" where
  "native_op st (BindAccount account) = snd (bind_validated_account st account)"
| "native_op st (AcceptCallback cb) = snd (native_accept st cb)"
| "native_op st ResetAfterTeardown = reset_after_teardown st"
| "native_op (g, mb) DrainQueue = (g, snd (mailbox_drain mb))"

text \<open>The log of a session: the callbacks queued since the account was bound, each with the event
  it left at the end of the queue. A revocation and a reset withdraw it.\<close>

fun native_log ::
    "native_ingress_state \<Rightarrow> (NativeCallback \<times> BaresipNativeEvent) list \<Rightarrow> NativeIngressOp \<Rightarrow>
     (NativeCallback \<times> BaresipNativeEvent) list" where
  "native_log st log (AcceptCallback cb) =
     (case native_accept st cb of
        (NativeIngressResult.Queued, (g, mb)) \<Rightarrow> log @ [(cb, last (mailbox_events mb))]
      | (NativeIngressResult.Revoked, _) \<Rightarrow> []
      | _ \<Rightarrow> log)"
| "native_log st log DrainQueue = log"
| "native_log st log (BindAccount account) =
     (if fst (bind_validated_account st account) \<noteq> 0 then [] else log)"
| "native_log st log ResetAfterTeardown = []"

fun native_run ::
    "native_ingress_state \<times> (NativeCallback \<times> BaresipNativeEvent) list \<Rightarrow> NativeIngressOp list \<Rightarrow>
     native_ingress_state \<times> (NativeCallback \<times> BaresipNativeEvent) list" where
  "native_run (st, log) [] = (st, log)"
| "native_run (st, log) (op # ops) = native_run (native_op st op, native_log st log op) ops"

text \<open>One call token names one native call, and every logged event came from the bound account.\<close>

definition native_log_ok :: "BaresipNativeIngress \<Rightarrow> (NativeCallback \<times> BaresipNativeEvent) list \<Rightarrow> bool" where
  "native_log_ok g log \<longleftrightarrow>
     (\<forall>(cb, e) \<in> set log. ncb_session cb = nig_session g \<and> ncb_account cb = nig_account g \<and>
        ev_session e = nig_session g \<and> ev_kind e = native_signal_event (ncb_signal cb) \<and>
        (ev_call_id e \<noteq> 0 \<longleftrightarrow> call_signal (ncb_signal cb)) \<and> ev_call_id e \<le> nig_last_call_token g \<and>
        (nig_call g \<noteq> 0 \<and> ev_call_id e = nig_call_token g \<longrightarrow> ncb_call cb = nig_call g)) \<and>
     (\<forall>(cb, e) \<in> set log. \<forall>(cb', e') \<in> set log.
        ev_call_id e = ev_call_id e' \<and> ev_call_id e \<noteq> 0 \<longrightarrow> ncb_call cb = ncb_call cb')"

definition native_inv ::
    "native_ingress_state \<Rightarrow> (NativeCallback \<times> BaresipNativeEvent) list \<Rightarrow> bool" where
  "native_inv = (\<lambda>(g, mb) log. mailbox_inv mb \<and> mb_session mb = nig_session g \<and>
     (if nig_session g = 0 then log = [] \<and> mailbox_events mb = []
      else nig_fault g = NativeIngressFault.NoIngressFault \<and> nig_account g \<noteq> 0 \<and> \<not> mb_overflow mb \<and>
        suffix (mailbox_events mb) (map snd log) \<and> native_log_ok g log \<and>
        (nig_call g \<noteq> 0 \<longrightarrow> nig_call_token g \<noteq> 0 \<and> nig_call_token g = nig_last_call_token g)))"

lemma native_revoke_inv:
  assumes "mailbox_inv mb"
  shows "native_inv (snd (native_revoke why (g, mb))) []" "fst (native_revoke why (g, mb)) = NativeIngressResult.Revoked"
  using invalidate_inv [OF assms] mailbox.events_invalidate [OF assms] mailbox.live_invalidate [of mb]
  by (simp_all add: native_revoke_def native_inv_def)

text \<open>Queueing an event that continues the log.\<close>

lemma native_queue_inv:
  assumes "native_inv (g, mb) log" "mailbox_enqueue mb e = (True, mb')" "native_log_ok g' (log @ [(cb, e)])"
    "nig_session g' = nig_session g" "nig_account g' = nig_account g" "nig_fault g' = nig_fault g"
    "nig_session g \<noteq> 0"
    "nig_call g' \<noteq> 0 \<longrightarrow> nig_call_token g' \<noteq> 0 \<and> nig_call_token g' = nig_last_call_token g'"
  shows "native_inv (g', mb') (log @ [(cb, last (mailbox_events mb'))])"
proof -
  have inv: "mailbox_inv mb" using assms(1) by (simp add: native_inv_def)
  have ev: "mailbox_events mb' = mailbox_events mb @ [e]"
    using enqueue_events [OF inv, of e] assms(2) by simp
  moreover have "mailbox_inv mb'" using enqueue_inv [OF inv, of e] assms(2) by simp
  moreover have "mb_session mb' = mb_session mb" "mb_overflow mb' = mb_overflow mb"
    using assms(2) by (auto simp: mailbox_enqueue_def split: if_splits)
  ultimately show ?thesis using assms by (auto simp: native_inv_def suffix_def)
qed

lemma native_log_ok_snoc:
  assumes "native_log_ok g log" "ncb_session cb = nig_session g" "ncb_account cb = nig_account g"
    "e = native_event (native_signal_event (ncb_signal cb)) (nig_session g) token"
    "token \<noteq> 0 \<longleftrightarrow> call_signal (ncb_signal cb)" "token \<le> nig_last_call_token g"
    "\<forall>(cb', e') \<in> set log. ev_call_id e' = token \<and> token \<noteq> 0 \<longrightarrow> ncb_call cb' = ncb_call cb"
    "nig_call g \<noteq> 0 \<and> token = nig_call_token g \<longrightarrow> ncb_call cb = nig_call g"
  shows "native_log_ok g (log @ [(cb, e)])"
  using assms by (fastforce simp: native_log_ok_def native_event_def)

text \<open>A larger last token, and another call with a token above all logged ones, keep the log sound.\<close>

lemma native_log_ok_opened:
  assumes "native_log_ok g log" "nig_last_call_token g < token"
  shows "native_log_ok (g\<lparr>nig_call := c, nig_call_token := token, nig_last_call_token := token\<rparr>) log"
proof -
  have "ev_call_id e < token" if "(cb, e) \<in> set log" for cb e
    using assms that by (auto simp: native_log_ok_def intro: order.strict_trans1)
  then show ?thesis using assms(1) by (auto simp: native_log_ok_def order_less_imp_le)
qed

lemma native_log_ok_closed: "native_log_ok g log \<Longrightarrow> native_log_ok (g\<lparr>nig_call := 0, nig_call_token := 0\<rparr>) log"
  by (auto simp: native_log_ok_def)

lemma native_accept_cases:
  obtains (same) r where "native_accept (g, mb) cb = (r, (g, mb))"
      "r = NativeIngressResult.Rejected \<or> r = NativeIngressResult.Ignored"
  | (revoked) why mb' where "native_accept (g, mb) cb = native_revoke why (g, mb')"
      "mailbox_inv mb \<longrightarrow> mailbox_inv mb'"
  | (queued) opens token mb' where
      "nig_session g \<noteq> 0" "nig_fault g = NativeIngressFault.NoIngressFault"
      "ncb_session cb = nig_session g" "ncb_account cb = nig_account g"
      "opens \<longleftrightarrow> starts_call (ncb_signal cb) \<and> nig_call g = 0"
      "call_signal (ncb_signal cb) \<longrightarrow> ncb_call cb \<noteq> 0"
      "call_signal (ncb_signal cb) \<longrightarrow> opens \<or> nig_call g \<noteq> 0 \<and> ncb_call cb = nig_call g"
      "opens \<longrightarrow> nig_last_call_token g \<noteq> u64_max"
      "token = (if call_signal (ncb_signal cb)
         then if opens then nig_last_call_token g + 1 else nig_call_token g else 0)"
      "mailbox_enqueue mb (native_event (native_signal_event (ncb_signal cb)) (nig_session g) token) = (True, mb')"
      "native_accept (g, mb) cb = (NativeIngressResult.Queued,
         (let g = (if opens then g\<lparr>nig_call := ncb_call cb, nig_call_token := token,
                       nig_last_call_token := token\<rparr> else g)
          in if ncb_signal cb = NativeSignal.CallClosed \<or> ncb_signal cb = NativeSignal.TransportLost
             then g\<lparr>nig_call := 0, nig_call_token := 0\<rparr> else g, mb'))"
proof -
  let ?opens = "starts_call (ncb_signal cb) \<and> nig_call g = 0"
  let ?token = "if call_signal (ncb_signal cb)
      then if ?opens then nig_last_call_token g + 1 else nig_call_token g else 0"
  let ?e = "native_event (native_signal_event (ncb_signal cb)) (nig_session g) ?token"
  obtain ok mb' where enq: "mailbox_enqueue mb ?e = (ok, mb')" by fastforce
  have sc: "starts_call (ncb_signal cb) \<Longrightarrow> call_signal (ncb_signal cb)" by (simp add: call_signal_def)
  consider (a) "nig_session g = 0 \<or> nig_fault g \<noteq> NativeIngressFault.NoIngressFault"
    | (b) "nig_session g \<noteq> 0" "nig_fault g = NativeIngressFault.NoIngressFault"
        "ncb_session cb = nig_session g" "ncb_account cb \<noteq> 0" "ncb_account cb = nig_account g"
        "ncb_signal cb = NativeSignal.Unrelated" "ncb_call cb = 0"
    | (c) "nig_session g \<noteq> 0" "nig_fault g = NativeIngressFault.NoIngressFault"
        "ncb_session cb \<noteq> nig_session g \<or> ncb_account cb = 0 \<or> ncb_account cb \<noteq> nig_account g \<or>
         ncb_signal cb = NativeSignal.Unrelated \<and> ncb_call cb \<noteq> 0 \<or> ncb_signal cb = NativeSignal.OtherSignal \<or>
         \<not> call_signal (ncb_signal cb) \<and> ncb_call cb \<noteq> 0 \<or> call_signal (ncb_signal cb) \<and> ncb_call cb = 0 \<or>
         call_signal (ncb_signal cb) \<and> \<not> ?opens \<and> (nig_call g = 0 \<or> ncb_call cb \<noteq> nig_call g) \<or>
         call_signal (ncb_signal cb) \<and> ?opens \<and> nig_last_call_token g = u64_max"
        "\<not> (ncb_signal cb = NativeSignal.Unrelated \<and> ncb_call cb = 0 \<and>
            ncb_session cb = nig_session g \<and> ncb_account cb \<noteq> 0 \<and> ncb_account cb = nig_account g)"
    | (d) "nig_session g \<noteq> 0" "nig_fault g = NativeIngressFault.NoIngressFault"
        "ncb_session cb = nig_session g" "ncb_account cb \<noteq> 0" "ncb_account cb = nig_account g"
        "ncb_signal cb \<noteq> NativeSignal.Unrelated" "ncb_signal cb \<noteq> NativeSignal.OtherSignal"
        "call_signal (ncb_signal cb) \<or> ncb_call cb = 0" "call_signal (ncb_signal cb) \<longrightarrow> ncb_call cb \<noteq> 0"
        "call_signal (ncb_signal cb) \<longrightarrow> ?opens \<or> nig_call g \<noteq> 0 \<and> ncb_call cb = nig_call g"
        "call_signal (ncb_signal cb) \<and> ?opens \<longrightarrow> nig_last_call_token g \<noteq> u64_max"
    by blast
  then show thesis
  proof cases
    case a
    then show thesis by (intro same) (auto simp: native_accept_def)
  next
    case b
    then show thesis by (intro same) (auto simp: native_accept_def)
  next
    case c
    have some: "\<exists>why. native_revoke x (g, mb) = native_revoke why (g, mb)" for x by blast
    have "\<exists>why. native_accept (g, mb) cb = native_revoke why (g, mb)"
      using c unfolding native_accept_def by (auto simp: Let_def some)
    then show thesis using revoked by blast
  next
    case d
    have eq: "native_accept (g, mb) cb = (if \<not> ok then native_revoke NativeIngressFault.QueueRejected (g, mb')
        else (NativeIngressResult.Queued,
         (let g = (if ?opens then g\<lparr>nig_call := ncb_call cb, nig_call_token := ?token,
                       nig_last_call_token := ?token\<rparr> else g)
          in if ncb_signal cb = NativeSignal.CallClosed \<or> ncb_signal cb = NativeSignal.TransportLost
             then g\<lparr>nig_call := 0, nig_call_token := 0\<rparr> else g, mb')))"
    proof (cases "call_signal (ncb_signal cb)")
      case True
      then show ?thesis
        using d(1-9) enq d(10) [rule_format, OF True] d(11) sc unfolding native_accept_def
        by (cases "starts_call (ncb_signal cb)"; cases "nig_call g = 0"; cases ok) (simp_all add: Let_def)
    next
      case False
      then have "\<not> starts_call (ncb_signal cb)" using sc by blast
      then show ?thesis
        using False d(1-9) enq unfolding native_accept_def by (cases ok) (simp_all add: Let_def)
    qed
    show thesis
    proof (cases ok)
      case True
      show thesis
        by (rule queued [OF d(1,2,3,5) refl d(9,10) _ refl])
          (use True d(11) sc enq eq in simp_all)
    next
      case False
      have "mailbox_inv mb \<longrightarrow> mailbox_inv mb'" using enqueue_inv [of mb ?e] enq by simp
      then show thesis using revoked eq False by simp
    qed
  qed
qed


lemma native_accept_inv:
  assumes inv: "native_inv (g, mb) log"
  shows "native_inv (snd (native_accept (g, mb) cb)) (native_log (g, mb) log (AcceptCallback cb))"
proof -
  have mi: "mailbox_inv mb" using inv by (simp add: native_inv_def)
  show ?thesis
  proof (cases rule: native_accept_cases [where g = g and mb = mb and cb = cb])
    case (same r)
    then show ?thesis using inv by auto
  next
    case (revoked why mb')
    then have "mailbox_inv mb'" using mi by simp
    note r = native_revoke_inv [OF this, of why g]
    obtain st where "native_revoke why (g, mb') = (NativeIngressResult.Revoked, st)"
      using r(2) by (metis prod.collapse)
    then show ?thesis using r(1) revoked by simp
  next
    case (queued opens token mb')
    let ?e = "native_event (native_signal_event (ncb_signal cb)) (nig_session g) token"
    let ?g1 = "if opens then g\<lparr>nig_call := ncb_call cb, nig_call_token := token, nig_last_call_token := token\<rparr> else g"
    let ?closes = "ncb_signal cb = NativeSignal.CallClosed \<or> ncb_signal cb = NativeSignal.TransportLost"
    let ?g2 = "if ?closes then ?g1\<lparr>nig_call := 0, nig_call_token := 0\<rparr> else ?g1"
    have log: "native_log_ok g log" and tok: "nig_call g \<noteq> 0 \<longrightarrow> nig_call_token g \<noteq> 0 \<and> nig_call_token g = nig_last_call_token g"
      using inv queued(1) by (auto simp: native_inv_def)
    have opencall: "opens \<Longrightarrow> call_signal (ncb_signal cb)" using queued(5) by (simp add: call_signal_def)
    have fresh: "opens \<Longrightarrow> token = nig_last_call_token g + 1 \<and> nig_last_call_token g < token \<and> token \<noteq> 0"
      using queued(8,9) opencall inc_gt [of "nig_last_call_token g"] inc_nonzero [of "nig_last_call_token g"] by simp
    have log1: "native_log_ok ?g1 (log @ [(cb, ?e)])"
    proof (cases opens)
      case True
      have above: "ev_call_id e < token" if "(c, e) \<in> set log" for c e
        using log that fresh [OF True] by (auto simp: native_log_ok_def intro: order.strict_trans1)
      have "nig_last_call_token g < token" using fresh [OF True] by blast
      then have "native_log_ok ?g1 log" using native_log_ok_opened [OF log] True by auto
      then show ?thesis
        by (rule native_log_ok_snoc) (use True queued(3,4) fresh [OF True] opencall [OF True] above in \<open>auto dest!: above\<close>)
    next
      case False
      then have t: "token = (if call_signal (ncb_signal cb) then nig_call_token g else 0)"
        and c: "call_signal (ncb_signal cb) \<longrightarrow> nig_call g \<noteq> 0 \<and> ncb_call cb = nig_call g"
        using queued(7,9) by auto
      have known: "\<forall>(cb', e') \<in> set log. ev_call_id e' = token \<and> token \<noteq> 0 \<longrightarrow> ncb_call cb' = ncb_call cb"
        using log t c by (auto simp: native_log_ok_def)
      have "native_log_ok g (log @ [(cb, ?e)])"
        by (rule native_log_ok_snoc [OF log queued(3,4) refl _ _ known]) (use t c tok in auto)
      then show ?thesis using False by simp
    qed
    then have log2: "native_log_ok ?g2 (log @ [(cb, ?e)])"
    proof (cases ?closes)
      case True
      show ?thesis using native_log_ok_closed [OF log1] by (simp only: True if_True)
    next
      case False
      show ?thesis using log1 by (simp only: False if_False)
    qed
    have acc: "native_accept (g, mb) cb = (NativeIngressResult.Queued, (?g2, mb'))"
      using queued(11) by (simp add: Let_def)
    have keep: "nig_session ?g2 = nig_session g" "nig_account ?g2 = nig_account g" "nig_fault ?g2 = nig_fault g"
      by simp_all
    have calls: "nig_call ?g2 \<noteq> 0 \<longrightarrow> nig_call_token ?g2 \<noteq> 0 \<and> nig_call_token ?g2 = nig_last_call_token ?g2"
      using tok fresh by (cases opens) auto
    have "native_inv (?g2, mb') (log @ [(cb, last (mailbox_events mb'))])"
      by (rule native_queue_inv [OF inv queued(10) log2 keep queued(1) calls])
    then show ?thesis using acc by simp
  qed
qed

lemma native_bind_inv:
  assumes inv: "native_inv (g, mb) log"
  shows "native_inv (snd (bind_validated_account (g, mb) account))
    (native_log (g, mb) log (BindAccount account))"
proof -
  have mi: "mailbox_inv mb" using inv by (simp add: native_inv_def)
  obtain s mb' where b: "mailbox_begin_session mb = (s, mb')" by fastforce
  have m: "mailbox_inv mb'" "mb_session mb' = s" "mailbox_events mb' = []"
    using mailbox.inv_begin [OF mi] mailbox.live_begin [OF mi] mailbox.events_begin [OF mi] b by simp_all
  have o: "\<not> mb_overflow mb'" if "s \<noteq> 0"
    using b that by (auto simp: mailbox_begin_session_def Let_def split: if_splits)
  have empty: "native_log_ok h []" for h by (simp add: native_log_ok_def)
  show ?thesis
  proof (cases "account = 0 \<or> nig_session g \<noteq> 0 \<or> nig_fault g \<noteq> NativeIngressFault.NoIngressFault")
    case True
    then show ?thesis using inv by (auto simp: bind_validated_account_def)
  next
    case False
    then show ?thesis using inv m o b empty by (auto simp: bind_validated_account_def native_inv_def Let_def)
  qed
qed

lemma native_op_inv:
  assumes inv: "native_inv st log"
  shows "native_inv (native_op st op) (native_log st log op)"
proof -
  obtain g mb where st: "st = (g, mb)" by fastforce
  have mi: "mailbox_inv mb" using inv st by (simp add: native_inv_def)
  show ?thesis
  proof (cases op)
    case (BindAccount account)
    then show ?thesis using native_bind_inv [of g mb log account] inv st by simp
  next
    case (AcceptCallback cb)
    then show ?thesis using native_accept_inv [of g mb log cb] inv st by simp
  next
    case ResetAfterTeardown
    then show ?thesis
      using st invalidate_inv [OF mi] mailbox.events_invalidate [OF mi] mailbox.live_invalidate [of mb]
      by (simp add: reset_after_teardown_def native_inv_def empty_native_ingress_def)
  next
    case DrainQueue
    have "mb_overflow (snd (mailbox_drain mb)) = mb_overflow mb"
      "mb_session (snd (mailbox_drain mb)) = mb_session mb" "mailbox_events (snd (mailbox_drain mb)) = []"
      by (simp_all add: mailbox_drain_def mailbox_events_def Let_def)
    then show ?thesis using DrainQueue st inv drain_inv [OF mi] by (auto simp: native_inv_def)
  qed
qed

lemma native_run_inv: "native_inv st log \<Longrightarrow> native_run (st, log) ops = (st', log') \<Longrightarrow> native_inv st' log'"
  by (induction "(st, log)" ops arbitrary: st log rule: native_run.induct) (auto dest: native_op_inv)

section \<open>Properties\<close>

text \<open>
  C30. Native callbacks cannot be confused. After any sequence of bindings, callbacks, resets and drains:
  while a session is bound, every callback queued in it carried that session and the bound account,
  two call events carry the same token only if they came from the same native call, and what
  is still in the queue is the latest part of those events; while no session is bound nothing of an
  earlier one is left in the queue. After a violation every callback and binding is refused until the
  teardown.
\<close>

theorem native_callbacks_not_confused:
  assumes "native_run ((empty_native_ingress, empty_mailbox), []) ops = ((g, mb), log)"
  shows "(\<forall>(cb, e) \<in> set log. ncb_session cb = nig_session g \<and> ncb_account cb = nig_account g \<and>
       ev_session e = nig_session g \<and> ev_kind e = native_signal_event (ncb_signal cb) \<and>
       (ev_call_id e \<noteq> 0 \<longleftrightarrow> call_signal (ncb_signal cb))) \<and>
    (\<forall>(cb, e) \<in> set log. \<forall>(cb', e') \<in> set log.
       ev_call_id e = ev_call_id e' \<and> ev_call_id e \<noteq> 0 \<longrightarrow> ncb_call cb = ncb_call cb') \<and>
    suffix (mailbox_events mb) (map snd log) \<and>
    (nig_fault g \<noteq> NativeIngressFault.NoIngressFault \<longrightarrow> log = [] \<and> mailbox_events mb = [] \<and>
       native_accept (g, mb) cb = (NativeIngressResult.Rejected, (g, mb)) \<and>
       bind_validated_account (g, mb) account = (0, (g, mb)))"
proof -
  have "native_inv (empty_native_ingress, empty_mailbox) []"
    using mailbox_inv_empty
    by (simp add: native_inv_def empty_native_ingress_def)
      (simp add: empty_mailbox_def mailbox_events_def)
  then have inv: "native_inv (g, mb) log" by (rule native_run_inv [OF _ assms])
  have fault: "log = [] \<and> mailbox_events mb = [] \<and>
       native_accept (g, mb) cb = (NativeIngressResult.Rejected, (g, mb)) \<and>
       bind_validated_account (g, mb) account = (0, (g, mb))"
    if "nig_fault g \<noteq> NativeIngressFault.NoIngressFault"
    using inv that by (auto simp: native_inv_def native_accept_def bind_validated_account_def split: if_splits)
  show ?thesis
  proof (cases "nig_session g = 0")
    case True
    then show ?thesis using inv fault by (simp add: native_inv_def)
  next
    case False
    then have "native_log_ok g log" "suffix (mailbox_events mb) (map snd log)" using inv by (simp_all add: native_inv_def)
    then show ?thesis using fault unfolding native_log_ok_def by blast
  qed
qed

definition native_sample :: "NativeIngressOp list" where
  "native_sample =
     [BindAccount 5,
      AcceptCallback \<lparr>ncb_signal = NativeSignal.RegisterOk, ncb_session = 1, ncb_account = 5, ncb_call = 0\<rparr>,
      AcceptCallback \<lparr>ncb_signal = NativeSignal.CallIncoming, ncb_session = 1, ncb_account = 5, ncb_call = 77\<rparr>,
      AcceptCallback \<lparr>ncb_signal = NativeSignal.CallClosed, ncb_session = 1, ncb_account = 5, ncb_call = 78\<rparr>]"

theorem native_callbacks_not_confused_witness:
  "\<exists>g mb. native_run ((empty_native_ingress, empty_mailbox), []) native_sample = ((g, mb), []) \<and>
     nig_fault g = NativeIngressFault.CallMismatch \<and> mailbox_events mb = []"
proof -
  let ?r = "native_run ((empty_native_ingress, empty_mailbox), []) native_sample"
  obtain g mb log where r: "?r = ((g, mb), log)" by (metis surj_pair)
  have "nig_fault (fst (fst ?r)) = NativeIngressFault.CallMismatch" by code_simp
  then have f: "nig_fault g = NativeIngressFault.CallMismatch" using r by simp
  then show ?thesis using native_callbacks_not_confused [OF r, of undefined 0] r by simp
qed

end
