(* ===== verification/Registration_Host.thy ===== *)
theory Registration_Host
  imports Registration_Dispatcher Sip_Engine
begin

text \<open>
  The two hosts of the registration dispatcher: \<open>baresip_native_registration_host.h\<close>, which runs it on
  the thread of the libre reactor, and \<open>baresip_registration_lab_worker.h\<close>, its stand-in for the laboratory.
  Clients submit and cancel from their own threads; start, tick, stop run the hooks of the owner
  thread. \<open>stop\<close> has two steps, so that anything may happen between its revocation and the join,
  and a client's access to the queue is a step of its own: whatever a client had checked before may
  be outdated by then. Memory exhaustion inside \<open>on_start\<close> is not modelled.
\<close>

section \<open>The native host\<close>

text \<open>\<open>own_self\<close>: the address of the adapter, whose mailbox and lifecycle are inside the gateway's bridge.\<close>

record OwnerState =
  own_self :: u64
  own_gateway :: BaresipSdkRegistrationGateway
  own_generation :: u64

record BaresipNativeRegistrationHost =
  hst_queue :: RegistrationCommandQueue
  hst_reactor :: BaresipNativeLibreReactor
  hst_command_generation :: u64
  hst_ticks :: u64
  hst_last_dispatch :: RegistrationDispatchKind
  hst_owner :: "OwnerState option"
  hst_process_owner :: u64
  hst_active_generation :: u64
  hst_accepting :: bool

definition new_host :: BaresipNativeRegistrationHost where
  "new_host = \<lparr>hst_queue = empty_registration_queue, hst_reactor = new_reactor, hst_command_generation = 0,
     hst_ticks = 0, hst_last_dispatch = RegistrationDispatchKind.Idle, hst_owner = None,
     hst_process_owner = 0, hst_active_generation = 0, hst_accepting = False\<rparr>"

text \<open>The hooks of the reactor. \<open>on_start\<close> and \<open>on_tick\<close> answer whether they returned; they throw otherwise.\<close>

definition host_on_start ::
    "u64 \<Rightarrow> BaresipNativeRegistrationHost \<Rightarrow> bool \<times> BaresipNativeRegistrationHost" where
  "host_on_start self h =
     (let (id, q) = begin_generation (hst_queue h) in
      if id = 0 then (False, h\<lparr>hst_queue := q, hst_owner := None\<rparr>)
      else (True, h\<lparr>hst_queue := q,
              hst_owner := Some \<lparr>own_self = self,
                own_gateway = new_gateway (hst_process_owner h) empty_adapter, own_generation = id\<rparr>,
              hst_ticks := 0, hst_last_dispatch := RegistrationDispatchKind.Idle,
              hst_command_generation := id, hst_active_generation := id, hst_accepting := True\<rparr>))"

definition reported_kind :: "RegistrationDispatchKind \<Rightarrow> bool" where
  "reported_kind k \<longleftrightarrow> k \<noteq> RegistrationDispatchKind.Idle \<and> k \<noteq> RegistrationDispatchKind.Pending \<and>
     k \<noteq> RegistrationDispatchKind.StaleGeneration"

text \<open>\<open>answers\<close>: the clock's time and the resolver's agent; \<open>None\<close> if one of the two throws.\<close>

definition host_on_tick ::
    "SdkAnswers \<Rightarrow> (nat \<Rightarrow> QueueOp list) \<Rightarrow> (u64 \<times> u64) option \<Rightarrow> BaresipNativeRegistrationHost \<Rightarrow>
     (bool \<times> BaresipNativeRegistrationHost) option" where
  "host_on_tick sdk ui answers h =
     (case (hst_owner h, answers) of
        (Some own, Some (now_ms, selected)) \<Rightarrow>
          map_option (\<lambda>(result, q, gw).
              (True, h\<lparr>hst_queue := q, hst_owner := Some (own\<lparr>own_gateway := gw\<rparr>),
                 hst_ticks := hst_ticks h + 1,
                 hst_last_dispatch := (if reported_kind (out_kind result) then out_kind result
                                       else hst_last_dispatch h)\<rparr>))
            (dispatcher_tick (own_self own) True sdk ui (hst_queue h, own_gateway own)
               (own_generation own) now_ms selected)
      | _ \<Rightarrow> Some (False, h))"

definition host_on_stop ::
    "SdkAnswers \<Rightarrow> BaresipNativeRegistrationHost \<Rightarrow> BaresipNativeRegistrationHost option" where
  "host_on_stop sdk h =
     (let h = h\<lparr>hst_accepting := False, hst_queue := queue_invalidate (hst_queue h)\<rparr> in
      case hst_owner h of
        None \<Rightarrow> Some (h\<lparr>hst_active_generation := 0\<rparr>)
      | Some own \<Rightarrow>
          map_option (\<lambda>(_, gw). h\<lparr>hst_owner := None, hst_process_owner := gw_process_owner gw,
                                 hst_active_generation := 0\<rparr>)
            (gateway_stop (own_self own) True sdk (own_gateway own)))"

text \<open>The reactor's thread around the hooks: its end, its start up to readiness, one round.\<close>

definition host_worker_exit ::
    "SdkAnswers \<Rightarrow> int \<Rightarrow> BaresipNativeRegistrationHost \<Rightarrow> BaresipNativeRegistrationHost option" where
  "host_worker_exit sdk loop_error h =
     map_option (\<lambda>h. h\<lparr>hst_reactor := worker_finished (hst_reactor h)\<rparr>)
       (host_on_stop sdk (h\<lparr>hst_reactor := main_loop_ended (hst_reactor h) loop_error\<rparr>))"

record HostStartAnswers =
  hsa_thread :: bool
  hsa_init_error :: int
  hsa_queue_error :: int
  hsa_queue :: bool

definition host_worker_start ::
    "u64 \<Rightarrow> HostStartAnswers \<Rightarrow> SdkAnswers \<Rightarrow> BaresipNativeRegistrationHost \<Rightarrow>
     BaresipNativeRegistrationHost option" where
  "host_worker_start self w sdk h =
     (let ready = (\<lambda>running fault h. h\<lparr>hst_reactor := publish_ready (hst_reactor h) running fault\<rparr>) in
      if hsa_init_error w \<noteq> 0 then Some (ready False LibreReactorFault.InitRejected h)
      else if hsa_queue_error w \<noteq> 0 \<or> \<not> hsa_queue w
      then Some (ready False LibreReactorFault.QueueRejected h)
      else (let (began, h) = host_on_start self h in
            if \<not> began then host_worker_exit sdk 0 (ready False LibreReactorFault.HookFailed h)
            else Some (ready True LibreReactorFault.NoFault
                   (h\<lparr>hst_reactor := (hst_reactor h)\<lparr>rct_queue := True\<rparr>\<rparr>))))"

definition host_reactor_tick ::
    "SdkAnswers \<Rightarrow> (nat \<Rightarrow> QueueOp list) \<Rightarrow> (u64 \<times> u64) option \<Rightarrow> BaresipNativeRegistrationHost \<Rightarrow>
     BaresipNativeRegistrationHost option" where
  "host_reactor_tick sdk ui answers h =
     (if \<not> rct_queue (hst_reactor h) \<or> rct_ending (hst_reactor h) then Some h
      else map_option (\<lambda>(returned, h).
             if returned then h\<lparr>hst_reactor := (hst_reactor h)\<lparr>rct_ticks := rct_ticks (hst_reactor h) + 1\<rparr>\<rparr>
             else h\<lparr>hst_reactor := (hst_reactor h)
                 \<lparr>rct_fault := (if rct_fault (hst_reactor h) = LibreReactorFault.NoFault
                               then LibreReactorFault.HookFailed else rct_fault (hst_reactor h)),
                  rct_ending := True\<rparr>\<rparr>)
           (host_on_tick sdk ui answers h))"

text \<open>A callback of the SDK, dispatched by the main loop between two ticks.\<close>

definition host_callback :: "sdk_callback \<Rightarrow> BaresipNativeRegistrationHost \<Rightarrow> BaresipNativeRegistrationHost"
  where
  "host_callback cb h =
     (case hst_owner h of
        None \<Rightarrow> h
      | Some own \<Rightarrow> h\<lparr>hst_owner := Some (own\<lparr>own_gateway := (own_gateway own)
            \<lparr>gw_bridge := run_callbacks (gw_bridge (own_gateway own)) [cb]\<rparr>\<rparr>)\<rparr>)"

text \<open>\<open>stop\<close>: the revocation and the join. The thread ends its loop with \<open>loop_error\<close> if it has not yet.\<close>

definition host_stop_begin :: "BaresipNativeRegistrationHost \<Rightarrow> BaresipNativeRegistrationHost" where
  "host_stop_begin h = h\<lparr>hst_accepting := False, hst_queue := queue_invalidate (hst_queue h),
     hst_reactor := (if rct_worker (hst_reactor h) then (hst_reactor h)\<lparr>rct_ending := True\<rparr>
                     else hst_reactor h)\<rparr>"

definition host_reactor_join ::
    "SdkAnswers \<Rightarrow> int \<Rightarrow> BaresipNativeRegistrationHost \<Rightarrow> BaresipNativeRegistrationHost option" where
  "host_reactor_join sdk loop_error h =
     (if \<not> rct_worker (hst_reactor h) then Some h
      else map_option (\<lambda>h. h\<lparr>hst_reactor := (hst_reactor h)\<lparr>rct_ending := True, rct_worker := False\<rparr>\<rparr>)
             (if rct_queue (hst_reactor h)
              then host_worker_exit sdk loop_error (h\<lparr>hst_reactor := (hst_reactor h)\<lparr>rct_ending := True\<rparr>\<rparr>)
              else Some h))"

definition host_stop_join ::
    "SdkAnswers \<Rightarrow> int \<Rightarrow> BaresipNativeRegistrationHost \<Rightarrow> BaresipNativeRegistrationHost option" where
  "host_stop_join sdk loop_error h =
     map_option (\<lambda>h. h\<lparr>hst_active_generation := 0\<rparr>) (host_reactor_join sdk loop_error h)"

text \<open>\<open>start\<close>. A thread that cannot be created throws; the flag then says that \<open>start\<close> did not return.\<close>

definition host_start ::
    "u64 \<Rightarrow> HostStartAnswers \<Rightarrow> SdkAnswers \<Rightarrow> BaresipNativeRegistrationHost \<Rightarrow>
     (bool option \<times> BaresipNativeRegistrationHost) option" where
  "host_start self w sdk h =
     (if rct_running (hst_reactor h) then Some (Some False, h)
      else (let h = h\<lparr>hst_accepting := False\<rparr> in
        if rct_worker (hst_reactor h)
        then map_option (Pair (Some False)) (host_reactor_join sdk 0 h)
        else (let h = h\<lparr>hst_reactor := reactor_starting (hst_reactor h)\<rparr> in
          if \<not> hsa_thread w then Some (None, h)
          else (case host_worker_start self w sdk (h\<lparr>hst_reactor := (hst_reactor h)\<lparr>rct_worker := True\<rparr>\<rparr>) of
                  None \<Rightarrow> None
                | Some h \<Rightarrow>
                    (if rct_running (hst_reactor h) then Some (Some (hst_accepting h), h)
                     else map_option (Pair (Some False)) (host_reactor_join sdk 0 h))))))"

text \<open>The clients' operations, undisturbed. \<open>push\<close>: the result of \<open>mqueue_push\<close>.\<close>

definition host_submit_for_generation ::
    "int \<Rightarrow> BaresipNativeRegistrationHost \<Rightarrow> u64 \<Rightarrow> u32 \<Rightarrow> bool \<times> BaresipNativeRegistrationHost" where
  "host_submit_for_generation push h generation timeout_ms =
     (if \<not> hst_accepting h \<or> generation = 0 \<or> generation \<noteq> hst_active_generation h then (False, h)
      else (let (ok, q) = queue_submit (hst_queue h) generation timeout_ms in
        if \<not> ok then (False, h\<lparr>hst_queue := q\<rparr>)
        else if reactor_wake (hst_reactor h) push then (True, h\<lparr>hst_queue := q\<rparr>)
        else (False, h\<lparr>hst_queue := snd (queue_cancel q generation)\<rparr>)))"

definition host_submit ::
    "int \<Rightarrow> BaresipNativeRegistrationHost \<Rightarrow> u32 \<Rightarrow> bool \<times> BaresipNativeRegistrationHost" where
  "host_submit push h timeout_ms =
     host_submit_for_generation push h (hst_active_generation h) timeout_ms"

definition host_cancel :: "BaresipNativeRegistrationHost \<Rightarrow> bool \<times> BaresipNativeRegistrationHost" where
  "host_cancel h =
     (let id = hst_active_generation h in
      if \<not> hst_accepting h \<or> id = 0 then (False, h)
      else (let (ok, q) = queue_cancel (hst_queue h) id in (ok, h\<lparr>hst_queue := q\<rparr>)))"

section \<open>The laboratory worker\<close>

record BaresipRegistrationLabWorker =
  lab_queue :: RegistrationCommandQueue
  lab_stopping :: bool
  lab_generation :: u64
  lab_ticks :: u64
  lab_last_event :: RegistrationDispatchKind
  lab_running :: bool
  lab_thread :: bool
  lab_gateway :: "BaresipSdkRegistrationGateway option"
  lab_process_owner :: u64

definition new_lab :: BaresipRegistrationLabWorker where
  "new_lab = \<lparr>lab_queue = empty_registration_queue, lab_stopping = True, lab_generation = 0, lab_ticks = 0,
     lab_last_event = RegistrationDispatchKind.Idle, lab_running = False, lab_thread = False,
     lab_gateway = None, lab_process_owner = 0\<rparr>"

text \<open>The end of \<open>run\<close>, after the loop.\<close>

definition lab_exit ::
    "u64 \<Rightarrow> SdkAnswers \<Rightarrow> BaresipRegistrationLabWorker \<Rightarrow> BaresipRegistrationLabWorker option" where
  "lab_exit self sdk l =
     (case lab_gateway l of
        None \<Rightarrow> Some l
      | Some gw \<Rightarrow>
          map_option (\<lambda>(_, gw). l\<lparr>lab_gateway := None, lab_process_owner := gw_process_owner gw,
                                 lab_queue := queue_invalidate (lab_queue l), lab_running := False\<rparr>)
            (gateway_stop self True sdk gw))"

text \<open>\<open>start\<close> with the beginning of \<open>run\<close>, up to readiness; a worker without a generation leaves at once.\<close>

definition lab_start ::
    "u64 \<Rightarrow> SdkAnswers \<Rightarrow> BaresipRegistrationLabWorker \<Rightarrow> (bool \<times> BaresipRegistrationLabWorker) option" where
  "lab_start self sdk l =
     (if lab_thread l then Some (False, l)
      else (let (id, q) = begin_generation (lab_queue l);
                l = l\<lparr>lab_stopping := False, lab_thread := True, lab_queue := q, lab_generation := id,
                      lab_ticks := 0, lab_last_event := RegistrationDispatchKind.Idle,
                      lab_running := (id \<noteq> 0),
                      lab_gateway := Some (new_gateway (lab_process_owner l) empty_adapter)\<rparr>
            in if id = 0 then map_option (Pair False) (lab_exit self sdk l) else Some (True, l)))"

text \<open>One round of the loop: the pump runs callbacks of the simulated SDK, then the dispatcher ticks. \<open>late\<close>:
  the worker is told to stop during the pump.\<close>

definition lab_round ::
    "u64 \<Rightarrow> sdk_callback list \<Rightarrow> bool \<Rightarrow> SdkAnswers \<Rightarrow> (nat \<Rightarrow> QueueOp list) \<Rightarrow> u64 \<Rightarrow> u64 \<Rightarrow>
     BaresipRegistrationLabWorker \<Rightarrow> BaresipRegistrationLabWorker option" where
  "lab_round self pumped late sdk ui now_ms selected l =
     (case lab_gateway l of
        None \<Rightarrow> Some l
      | Some gw \<Rightarrow>
          if lab_stopping l then Some l
          else (let gw = gw\<lparr>gw_bridge := run_callbacks (gw_bridge gw) pumped\<rparr> in
            if late then Some (l\<lparr>lab_gateway := Some gw\<rparr>)
            else map_option (\<lambda>(result, q, gw).
                l\<lparr>lab_queue := q, lab_gateway := Some gw, lab_ticks := lab_ticks l + 1,
                  lab_last_event := (if reported_kind (out_kind result) then out_kind result
                                     else lab_last_event l)\<rparr>)
              (dispatcher_tick self True sdk ui (lab_queue l, gw) (lab_generation l) now_ms selected)))"

definition lab_live_generation :: "BaresipRegistrationLabWorker \<Rightarrow> u64" where
  "lab_live_generation l = (if lab_running l then lab_generation l else 0)"

definition lab_submit ::
    "BaresipRegistrationLabWorker \<Rightarrow> u32 \<Rightarrow> bool \<times> BaresipRegistrationLabWorker" where
  "lab_submit l timeout_ms =
     (if lab_stopping l \<or> lab_live_generation l = 0 then (False, l)
      else (let (ok, q) = queue_submit (lab_queue l) (lab_live_generation l) timeout_ms
            in (ok, l\<lparr>lab_queue := q\<rparr>)))"

definition lab_cancel :: "BaresipRegistrationLabWorker \<Rightarrow> bool \<times> BaresipRegistrationLabWorker" where
  "lab_cancel l =
     (if lab_stopping l \<or> lab_live_generation l = 0 then (False, l)
      else (let (ok, q) = queue_cancel (lab_queue l) (lab_live_generation l)
            in (ok, l\<lparr>lab_queue := q\<rparr>)))"

definition lab_stop ::
    "u64 \<Rightarrow> SdkAnswers \<Rightarrow> BaresipRegistrationLabWorker \<Rightarrow> BaresipRegistrationLabWorker option" where
  "lab_stop self sdk l =
     (if \<not> lab_thread l then Some l
      else (let q = (if lab_live_generation l \<noteq> 0
                     then snd (queue_cancel (lab_queue l) (lab_live_generation l)) else lab_queue l)
            in map_option (\<lambda>l. l\<lparr>lab_thread := False\<rparr>)
                 (lab_exit self sdk (l\<lparr>lab_stopping := True, lab_queue := q\<rparr>))))"

section \<open>What a tick does to the queue\<close>

text \<open>Nothing but a sequence of the queue's own operations, without beginning a generation.\<close>

definition no_begin :: "QueueOp list \<Rightarrow> bool" where
  "no_begin ops \<longleftrightarrow> OpBegin \<notin> set ops"

definition queue_evolves :: "RegistrationCommandQueue \<Rightarrow> RegistrationCommandQueue \<Rightarrow> bool" where
  "queue_evolves q q' \<longleftrightarrow> (\<exists>ops. no_begin ops \<and> q' = queue_run q ops)"

lemma queue_evolves_refl [simp]: "queue_evolves q q"
  unfolding queue_evolves_def by (rule exI [of _ "[]"]) (simp add: no_begin_def queue_run_def)

lemma queue_evolves_trans: "queue_evolves q q' \<Longrightarrow> queue_evolves q' q'' \<Longrightarrow> queue_evolves q q''"
proof -
  assume "queue_evolves q q'" "queue_evolves q' q''"
  then obtain ops ops' where "no_begin ops" "q' = queue_run q ops" "no_begin ops'" "q'' = queue_run q' ops'"
    unfolding queue_evolves_def by blast
  then show ?thesis
    unfolding queue_evolves_def by (intro exI [of _ "ops @ ops'"]) (simp add: no_begin_def queue_run_def)
qed

lemma queue_evolves_run: "no_begin ops \<Longrightarrow> queue_evolves q (queue_run q ops)"
  unfolding queue_evolves_def by blast

lemma queue_evolves_op: "op \<noteq> OpBegin \<Longrightarrow> queue_evolves q (queue_op q op)"
  unfolding queue_evolves_def by (rule exI [of _ "[op]"]) (simp add: no_begin_def queue_run_def)

lemmas queue_evolves_ops =
  queue_evolves_op [of "OpSubmit g t", simplified] queue_evolves_op [of "OpCancel g", simplified]
  queue_evolves_op [of "OpDrain g", simplified] queue_evolves_op [of OpInvalidate, simplified] for g t

lemma queue_op_generation:
  "op \<noteq> OpBegin \<Longrightarrow> rq_generation (queue_op q op) = rq_generation q"
  "op \<noteq> OpBegin \<Longrightarrow> rq_open (queue_op q op) \<Longrightarrow> rq_open q"
  by (cases op; auto simp: registration_queue_defs Let_def split: if_splits)+

lemma queue_run_generation:
  "no_begin ops \<Longrightarrow> rq_generation (queue_run q ops) = rq_generation q \<and>
     (rq_open (queue_run q ops) \<longrightarrow> rq_open q)"
proof (induction ops arbitrary: q)
  case Nil
  then show ?case by (simp add: queue_run_def)
next
  case (Cons op ops)
  then have "op \<noteq> OpBegin" "no_begin ops" by (auto simp: no_begin_def)
  with Cons.IH [of "queue_op q op"] queue_op_generation [of op q] show ?case
    by (auto simp: queue_run_def)
qed

lemma queue_evolves_keeps:
  assumes "queue_evolves q q'"
  shows "rq_generation q' = rq_generation q" "rq_open q' \<Longrightarrow> rq_open q" "queue_inv q \<Longrightarrow> queue_inv q'"
  using assms queue_run_generation queue_run_inv unfolding queue_evolves_def by auto

lemma abort_evolves:
  "no_begin ui \<Longrightarrow> abort_dispatch self sdk ui result st = Some (out, st') \<Longrightarrow> queue_evolves (fst st) (fst st')"
  by (cases st)
    (auto simp: abort_dispatch_def split: option.splits
      intro: queue_evolves_trans [OF queue_evolves_run queue_evolves_ops(4)])


definition commands_evolve ::
    "RegistrationCommandQueue \<Rightarrow> ((RegistrationDispatchOutcome \<times> dispatcher_state) +
      (RegistrationDispatchOutcome \<times> dispatcher_state)) option \<Rightarrow> bool" where
  "commands_evolve q ans \<longleftrightarrow>
     (case ans of None \<Rightarrow> True | Some (Inl (_, q', _)) \<Rightarrow> queue_evolves q q'
      | Some (Inr (_, q', _)) \<Rightarrow> queue_evolves q q')"

lemma commands_evolve_abort:
  "no_begin ui \<Longrightarrow> queue_evolves q0 q \<Longrightarrow>
     commands_evolve q0 (map_option Inl (abort_dispatch self sdk ui result (q, gw)))"
  using abort_evolves [of ui self sdk result "(q, gw)"] queue_evolves_trans
  by (auto simp: commands_evolve_def split: option.splits)

lemma tick_commands_evolves:
  "(\<And>n. no_begin (ui n)) \<Longrightarrow> queue_evolves q0 (fst st) \<Longrightarrow>
     commands_evolve q0 (tick_commands self sdk ui n generation now selected batch commands result st)"
proof (induction commands arbitrary: n result st)
  case Nil
  then show ?case by (cases st) (simp add: commands_evolve_def)
next
  case (Cons command commands)
  obtain q gw where st: "st = (q, gw)" by fastforce
  have e0: "queue_evolves q0 q" using Cons.prems(2) st by simp
  then have e1: "queue_evolves q0 (queue_run q (ui n))"
    by (rule queue_evolves_trans [OF _ queue_evolves_run [OF Cons.prems(1)]])
  then have e2: "queue_evolves q0 (queue_run (queue_run q (ui n)) (ui (n + 1)))"
    by (rule queue_evolves_trans [OF _ queue_evolves_run [OF Cons.prems(1)]])
  then have e3: "queue_evolves q0 (queue_run (queue_run (queue_run q (ui n)) (ui (n + 1))) (ui (n + 2)))"
    by (rule queue_evolves_trans [OF _ queue_evolves_run [OF Cons.prems(1)]])
  note ab = commands_evolve_abort [OF Cons.prems(1)]
  note nx = Cons.IH [OF Cons.prems(1)]
  have none: "commands_evolve q0 None" by (simp add: commands_evolve_def)
  show ?case
    unfolding st tick_commands.simps Let_def
    using ab [OF e0] ab [OF e1] ab [OF e2] ab [OF e3] nx e3 none
    by (auto split: option.split prod.split)
qed

lemma tick_evolves:
  assumes "\<And>n. no_begin (ui n)"
    "dispatcher_tick self True sdk ui st generation now selected = Some (out, st')"
  shows "queue_evolves (fst st) (fst st')"
proof -
  obtain batch q where d: "queue_drain (fst st) generation = (batch, q)" by fastforce
  have eq: "queue_evolves (fst st) q" using queue_evolves_ops(3) [of "fst st" generation] d by simp
  show ?thesis
  proof (cases "rb_generation batch \<noteq> generation \<or> generation = 0")
    case True
    then show ?thesis using assms(2) d eq by (auto simp: dispatcher_tick_def)
  next
    case go: False
    show ?thesis
    proof (cases "rb_overflow batch")
      case True
      then have "abort_dispatch self sdk (ui 0) (outcome RegistrationDispatchKind.OverflowStopped) (q, snd st) =
          Some (out, st')"
        using assms(2) d go by (simp add: dispatcher_tick_def)
      from abort_evolves [OF assms(1) this] show ?thesis using queue_evolves_trans [OF eq] by simp
    next
      case False
      let ?loop = "tick_commands self sdk ui 0 generation now selected batch
        (take (rb_size batch) (rb_commands batch)) default_outcome (q, snd st)"
      have ce: "commands_evolve (fst st) ?loop"
        by (rule tick_commands_evolves [OF assms(1)]) (use eq in simp)
      have t: "(case ?loop of None \<Rightarrow> None | Some (Inl r) \<Rightarrow> Some r
          | Some (Inr (result, st')) \<Rightarrow>
              tick_deadline self sdk (ui (4 * rb_size batch)) now batch result st') = Some (out, st')"
        using assms(2) d go False by (simp add: dispatcher_tick_def)
      show ?thesis
      proof (cases ?loop)
        case None
        then show ?thesis using t by simp
      next
        case (Some r)
        show ?thesis
        proof (cases r)
          case (Inl early)
          then show ?thesis using t Some ce by (cases early) (auto simp: commands_evolve_def)
        next
          case (Inr cont)
          obtain result q1 gw1 where c: "cont = (result, q1, gw1)" by (metis surj_pair)
          have e1: "queue_evolves (fst st) q1" using ce Some Inr c by (simp add: commands_evolve_def)
          have td: "tick_deadline self sdk (ui (4 * rb_size batch)) now batch result (q1, gw1) = Some (out, st')"
            using t Some Inr c by simp
          have "fst st' = q1 \<or> fst st' = queue_invalidate (queue_run q1 (ui (4 * rb_size batch)))"
            using td by (auto simp: tick_deadline_def split: option.splits if_splits)
          then show ?thesis
            using e1 queue_evolves_trans [OF e1 queue_evolves_trans
                [OF queue_evolves_run [OF assms(1)] queue_evolves_ops(4)]] by auto
        qed
      qed
    qed
  qed
qed

lemma gateway_callbacks_inv:
  assumes "gateway_inv gw"
  shows "gateway_inv (gw\<lparr>gw_bridge := run_callbacks (gw_bridge gw) cbs\<rparr>)"
proof (cases "adapter_active (gw_bridge gw)")
  case True
  then have "gw_owner gw \<noteq> 0" using assms by (auto simp: gateway_inv_def)
  then show ?thesis using assms run_callbacks_inv [of "gw_bridge gw" cbs] by (simp add: gateway_inv_def)
next
  case False
  have "run_callbacks (gw_bridge gw) cbs = gw_bridge gw"
    unfolding run_callbacks_def using callback_ignored False by (induction cbs) auto
  then show ?thesis using assms by simp
qed

lemma dispatcher_tick_kept:
  assumes "gateway_inv gw" "queue_inv q" "\<And>n. no_begin (ui n)"
  obtains out q' gw' where "dispatcher_tick self True sdk ui (q, gw) generation now selected = Some (out, q', gw')"
    "gateway_inv gw'" "queue_inv q'" "rq_generation q' = rq_generation q" "rq_open q' \<Longrightarrow> rq_open q"
    "closing_kind (out_kind out) \<Longrightarrow> closed_state (q', gw')"
proof -
  obtain out st' where t: "dispatcher_tick self True sdk ui (q, gw) generation now selected = Some (out, st')"
    "gateway_inv (snd st')" "closing_kind (out_kind out) \<longrightarrow> closed_state st'"
    using tick_returns [of "(q, gw)" self sdk ui generation now selected] assms(1) by auto
  have "queue_evolves (fst (q, gw)) (fst st')" by (rule tick_evolves [OF assms(3) t(1)])
  then show thesis using that [of out "fst st'" "snd st'"] t queue_evolves_keeps [of q "fst st'"] assms(2) by simp
qed


section \<open>The invariant of the host\<close>

text \<open>Without an owner nothing is accepted and no generation is active; with one, its thread is there and the
  queue is the owner's.\<close>

definition queue_shut :: "RegistrationCommandQueue \<Rightarrow> bool" where
  "queue_shut q \<longleftrightarrow> \<not> rq_open q \<and> rq_size q = 0 \<and> \<not> rq_overflow q"

definition host_inv :: "BaresipNativeRegistrationHost \<Rightarrow> bool" where
  "host_inv h \<longleftrightarrow> queue_inv (hst_queue h) \<and> rct_queue (hst_reactor h) = (hst_owner h \<noteq> None) \<and>
     rct_running (hst_reactor h) = rct_queue (hst_reactor h) \<and>
     (case hst_owner h of
        None \<Rightarrow> queue_shut (hst_queue h) \<and> \<not> hst_accepting h \<and> hst_active_generation h = 0
      | Some own \<Rightarrow> gateway_inv (own_gateway own) \<and> own_generation own \<noteq> 0 \<and> rct_worker (hst_reactor h) \<and>
          own_generation own = rq_generation (hst_queue h) \<and>
          hst_active_generation h = own_generation own)"

lemma queue_shut_invalidate [simp]: "queue_shut (queue_invalidate q)"
  by (simp add: queue_shut_def)

lemma queue_shut_refuses:
  assumes "queue_shut q"
  shows "queue_submit q g t = (False, q)" "queue_cancel q g = (False, q)"
  using assms by (simp_all add: queue_shut_def queue_submit_def queue_cancel_def queue_enqueue_def)

lemma queue_shut_evolves:
  assumes "queue_shut q" "no_begin ops"
  shows "queue_shut (queue_run q ops)"
  using assms
proof (induction ops arbitrary: q)
  case Nil
  then show ?case by (simp add: queue_run_def)
next
  case (Cons op ops)
  have "op \<noteq> OpBegin" "no_begin ops" using Cons.prems(2) by (auto simp: no_begin_def)
  moreover have "queue_shut (queue_op q op)"
    using Cons.prems(1) calculation(1) queue_shut_refuses [OF Cons.prems(1)]
    by (cases op) (auto simp: queue_shut_def queue_drain_def)
  ultimately show ?case using Cons.IH [of "queue_op q op"] by (simp add: queue_run_def)
qed

lemma begin_generation_live:
  assumes "begin_generation q = (g, q')" "g \<noteq> 0"
  shows "rq_generation q' = g" "rq_open q'"
  using assms by (auto simp: begin_generation_def Let_def split: if_splits)

lemma begin_generation_failed:
  assumes "begin_generation q = (0, q')" "queue_shut q" "queue_inv q"
  shows "q' = q"
  using assms inc_nonzero [of "rq_last_generation q"]
  by (auto simp: begin_generation_def queue_shut_def Let_def split: if_splits)

lemma new_host_inv: "host_inv new_host"
  by (simp add: host_inv_def new_host_def new_reactor_def queue_shut_def)
    (simp add: empty_registration_queue_def)

text \<open>Stopping drops the owner, whose gateway has become idle.\<close>

lemma host_on_stop_inv:
  assumes "queue_inv (hst_queue h)" "\<And>own. hst_owner h = Some own \<Longrightarrow> gateway_inv (own_gateway own)"
  obtains h' where "host_on_stop sdk h = Some h'" "hst_owner h' = None" "queue_inv (hst_queue h')"
    "queue_shut (hst_queue h')" "\<not> hst_accepting h'" "hst_active_generation h' = 0"
    "hst_reactor h' = hst_reactor h"
proof (cases "hst_owner h")
  case None
  then show thesis using assms(1)
    by (intro that [of "h\<lparr>hst_accepting := False, hst_queue := queue_invalidate (hst_queue h),
         hst_active_generation := 0\<rparr>"]) (simp_all add: host_on_stop_def)
next
  case (Some own)
  obtain gw where "gateway_stop (own_self own) True sdk (own_gateway own) = Some (True, gw)"
    by (rule gateway_stop_idle [OF assms(2) [OF Some]])
  then show thesis using assms(1) Some
    by (intro that [of "h\<lparr>hst_accepting := False, hst_queue := queue_invalidate (hst_queue h),
         hst_owner := None, hst_process_owner := gw_process_owner gw, hst_active_generation := 0\<rparr>"])
      (simp_all add: host_on_stop_def)
qed

lemma host_worker_exit_inv:
  assumes "queue_inv (hst_queue h)" "\<And>own. hst_owner h = Some own \<Longrightarrow> gateway_inv (own_gateway own)"
  obtains h' where "host_worker_exit sdk err h = Some h'" "host_inv h'" "hst_owner h' = None"
    "rct_worker (hst_reactor h') = rct_worker (hst_reactor h)"
proof -
  let ?h = "h\<lparr>hst_reactor := main_loop_ended (hst_reactor h) err\<rparr>"
  obtain h' where h': "host_on_stop sdk ?h = Some h'" "hst_owner h' = None" "queue_inv (hst_queue h')"
    "queue_shut (hst_queue h')" "\<not> hst_accepting h'" "hst_active_generation h' = 0"
    "hst_reactor h' = hst_reactor ?h"
    by (rule host_on_stop_inv [of ?h]) (use assms in simp_all)
  show thesis
    by (rule that [of "h'\<lparr>hst_reactor := worker_finished (hst_reactor h')\<rparr>"])
      (use h' in \<open>simp_all add: host_worker_exit_def host_inv_def worker_finished_def main_loop_ended_def\<close>)
qed

lemma host_reactor_join_inv:
  assumes "host_inv h"
  obtains h' where "host_reactor_join sdk err h = Some h'" "host_inv h'" "hst_owner h' = None"
    "\<not> rct_worker (hst_reactor h')"
proof (cases "rct_worker (hst_reactor h)")
  case False
  then have "hst_owner h = None" using assms by (cases "hst_owner h") (simp_all add: host_inv_def)
  then show thesis using that [of h] assms False by (simp add: host_reactor_join_def)
next
  case True
  show thesis
  proof (cases "rct_queue (hst_reactor h)")
    case q: True
    let ?h = "h\<lparr>hst_reactor := (hst_reactor h)\<lparr>rct_ending := True\<rparr>\<rparr>"
    obtain h' where h': "host_worker_exit sdk err ?h = Some h'" "host_inv h'" "hst_owner h' = None"
      by (rule host_worker_exit_inv [of ?h sdk err]) (use assms in \<open>simp_all add: host_inv_def\<close>)
    show thesis
      by (rule that [of "h'\<lparr>hst_reactor := (hst_reactor h')\<lparr>rct_ending := True, rct_worker := False\<rparr>\<rparr>"])
        (use h' True q in \<open>simp_all add: host_reactor_join_def host_inv_def\<close>)
  next
    case False
    then have "hst_owner h = None" using assms by (simp add: host_inv_def)
    then show thesis
      by (intro that [of "h\<lparr>hst_reactor := (hst_reactor h)\<lparr>rct_ending := True, rct_worker := False\<rparr>\<rparr>"])
        (use True False assms in \<open>simp_all add: host_reactor_join_def host_inv_def\<close>)
  qed
qed


lemma host_start_inv:
  assumes "host_inv h"
  obtains r h' where "host_start self w sdk h = Some (r, h')" "host_inv h'"
    "r = Some True \<Longrightarrow> hst_owner h' \<noteq> None \<and> hst_accepting h'"
proof -
  show thesis
  proof (cases "rct_running (hst_reactor h)")
    case True
    then show thesis using that [of "Some False" h] assms by (simp add: host_start_def)
  next
    case False
    then have idle: "\<not> rct_queue (hst_reactor h)" "hst_owner h = None" "queue_inv (hst_queue h)"
      "queue_shut (hst_queue h)" "hst_active_generation h = 0"
      using assms by (auto simp: host_inv_def)
    let ?h0 = "h\<lparr>hst_accepting := False\<rparr>"
    have h0: "host_inv ?h0" using assms idle by (simp add: host_inv_def)
    show thesis
    proof (cases "rct_worker (hst_reactor h)")
      case True
      obtain h' where "host_reactor_join sdk 0 ?h0 = Some h'" "host_inv h'"
        by (rule host_reactor_join_inv [OF h0])
      then show thesis using that [of "Some False" h'] True False by (simp add: host_start_def)
    next
      case fresh: False
      let ?h1 = "?h0\<lparr>hst_reactor := (reactor_starting (hst_reactor h))\<lparr>rct_worker := True\<rparr>\<rparr>"
      have h1: "host_inv (?h0\<lparr>hst_reactor := reactor_starting (hst_reactor h)\<rparr>)"
        using h0 idle by (simp add: host_inv_def reactor_starting_def)
      have eq: "host_start self w sdk h =
          (if \<not> hsa_thread w then Some (None, ?h0\<lparr>hst_reactor := reactor_starting (hst_reactor h)\<rparr>)
           else (case host_worker_start self w sdk ?h1 of None \<Rightarrow> None
             | Some h \<Rightarrow> (if rct_running (hst_reactor h) then Some (Some (hst_accepting h), h)
                 else map_option (Pair (Some False)) (host_reactor_join sdk 0 h))))"
        using False fresh by (simp add: host_start_def)
      obtain h2 where ws: "host_worker_start self w sdk ?h1 = Some h2" "host_inv h2"
      proof -
        obtain g q where b: "begin_generation (hst_queue h) = (g, q)" by fastforce
        have qi: "queue_inv q" using begin_generation_inv [OF idle(3)] b by simp
        show thesis
        proof (cases "hsa_init_error w \<noteq> 0 \<or> hsa_queue_error w \<noteq> 0 \<or> \<not> hsa_queue w")
          case True
          show thesis
            by (cases "hsa_init_error w \<noteq> 0"; rule that [OF _ _])
              (use True idle in \<open>auto simp: host_worker_start_def host_inv_def publish_ready_def reactor_starting_def\<close>)
        next
          case ok: False
          show thesis
          proof (cases "g = 0")
            case True
            let ?h2 = "?h1\<lparr>hst_queue := q, hst_owner := None,
              hst_reactor := publish_ready (hst_reactor ?h1) False LibreReactorFault.HookFailed\<rparr>"
            obtain h' where "host_worker_exit sdk 0 ?h2 = Some h'" "host_inv h'"
              by (rule host_worker_exit_inv [of ?h2 sdk 0]) (use qi in simp_all)
            moreover have "host_worker_start self w sdk ?h1 = host_worker_exit sdk 0 ?h2"
              using ok True b by (simp add: host_worker_start_def host_on_start_def)
            ultimately show thesis using that by metis
          next
            case live: False
            have gi: "gateway_inv (new_gateway (hst_process_owner h) empty_adapter)" by (rule new_gateway_inv)
            show thesis
              by (rule that [of "?h1\<lparr>hst_queue := q,
                  hst_owner := Some \<lparr>own_self = self,
                    own_gateway = new_gateway (hst_process_owner h) empty_adapter, own_generation = g\<rparr>,
                  hst_ticks := 0, hst_last_dispatch := RegistrationDispatchKind.Idle,
                  hst_command_generation := g, hst_active_generation := g, hst_accepting := True,
                  hst_reactor := publish_ready ((hst_reactor ?h1)\<lparr>rct_queue := True\<rparr>) True
                    LibreReactorFault.NoFault\<rparr>"])
                (use ok live b qi gi begin_generation_live [OF b live] in
                  \<open>simp_all add: host_worker_start_def host_on_start_def host_inv_def publish_ready_def\<close>)
          qed
        qed
      qed
      show thesis
      proof (cases "hsa_thread w")
        case no: False
        show thesis by (rule that [of None, OF _ h1]) (use eq no in auto)
      next
        case thr: True
        show thesis
        proof (cases "rct_running (hst_reactor h2)")
          case True
          then have "hst_owner h2 \<noteq> None" using ws(2) unfolding host_inv_def by blast
          then show thesis using that [of "Some (hst_accepting h2)" h2] eq thr ws True by simp
        next
          case dead: False
          obtain h' where "host_reactor_join sdk 0 h2 = Some h'" "host_inv h'"
            by (rule host_reactor_join_inv [OF ws(2)])
          then show thesis using that [of "Some False" h'] eq thr ws dead by simp
        qed
      qed
    qed
  qed
qed

section \<open>Runs of the host\<close>

text \<open>\<open>ClientAccess\<close>: one access of a client thread to the queue, after checks that may be outdated.\<close>

datatype HostStep =
    HostStarts u64 HostStartAnswers SdkAnswers
  | HostTicks SdkAnswers "nat \<Rightarrow> QueueOp list" "(u64 \<times> u64) option"
  | HostCallback sdk_callback
  | HostLoopEnds SdkAnswers int
  | HostStopBegins
  | HostJoins SdkAnswers int
  | ClientAccess QueueOp

text \<open>What clients and \<open>stop\<close> do to the queue: everything but beginning a generation and draining.\<close>

definition client_op :: "QueueOp \<Rightarrow> bool" where
  "client_op op \<longleftrightarrow> (case op of OpSubmit g t \<Rightarrow> True | OpCancel g \<Rightarrow> True | OpInvalidate \<Rightarrow> True | _ \<Rightarrow> False)"

fun host_step_ok :: "HostStep \<Rightarrow> bool" where
  "host_step_ok (HostTicks sdk ui answers) \<longleftrightarrow> (\<forall>n. \<forall>op \<in> set (ui n). client_op op)"
| "host_step_ok (ClientAccess op) \<longleftrightarrow> client_op op"
| "host_step_ok _ \<longleftrightarrow> True"

fun host_step :: "BaresipNativeRegistrationHost \<Rightarrow> HostStep \<Rightarrow> BaresipNativeRegistrationHost option" where
  "host_step h (HostStarts self w sdk) = map_option snd (host_start self w sdk h)"
| "host_step h (HostTicks sdk ui answers) = host_reactor_tick sdk ui answers h"
| "host_step h (HostCallback cb) = Some (host_callback cb h)"
| "host_step h (HostLoopEnds sdk err) =
     (if rct_queue (hst_reactor h) then host_worker_exit sdk err h else Some h)"
| "host_step h HostStopBegins = Some (host_stop_begin h)"
| "host_step h (HostJoins sdk err) = host_stop_join sdk err h"
| "host_step h (ClientAccess op) = Some (h\<lparr>hst_queue := queue_op (hst_queue h) op\<rparr>)"

fun host_run :: "BaresipNativeRegistrationHost \<Rightarrow> HostStep list \<Rightarrow> BaresipNativeRegistrationHost option" where
  "host_run h [] = Some h"
| "host_run h (s # ss) = Option.bind (host_step h s) (\<lambda>h. host_run h ss)"

lemma client_no_begin: "\<forall>op \<in> set ops. client_op op \<Longrightarrow> no_begin ops"
  by (auto simp: no_begin_def client_op_def)

lemma host_tick_inv:
  assumes "host_inv h" "\<And>n. no_begin (ui n)"
  obtains h' where "host_reactor_tick sdk ui answers h = Some h'" "host_inv h'"
proof (cases "\<not> rct_queue (hst_reactor h) \<or> rct_ending (hst_reactor h)")
  case True
  then show thesis using that [of h] assms(1) by (simp add: host_reactor_tick_def)
next
  case False
  then obtain own where own: "hst_owner h = Some own" using assms(1) by (auto simp: host_inv_def)
  have inv: "gateway_inv (own_gateway own)" "queue_inv (hst_queue h)"
    using assms(1) own by (simp_all add: host_inv_def)
  show thesis
  proof (cases answers)
    case None
    let ?r = "(hst_reactor h)\<lparr>rct_fault := (if rct_fault (hst_reactor h) = LibreReactorFault.NoFault
        then LibreReactorFault.HookFailed else rct_fault (hst_reactor h)), rct_ending := True\<rparr>"
    have "host_reactor_tick sdk ui answers h = Some (h\<lparr>hst_reactor := ?r\<rparr>)"
      using False None own by (simp add: host_reactor_tick_def host_on_tick_def)
    moreover have "host_inv (h\<lparr>hst_reactor := ?r\<rparr>)"
      using assms(1) own by (auto simp: host_inv_def)
    ultimately show thesis by (rule that)
  next
    case (Some a)
    obtain now selected where a: "a = (now, selected)" by fastforce
    obtain out q gw where t: "dispatcher_tick (own_self own) True sdk ui (hst_queue h, own_gateway own)
        (own_generation own) now selected = Some (out, q, gw)" "gateway_inv gw" "queue_inv q"
      "rq_generation q = rq_generation (hst_queue h)"
      by (rule dispatcher_tick_kept [OF inv assms(2)])
    let ?h = "h\<lparr>hst_queue := q, hst_owner := Some (own\<lparr>own_gateway := gw\<rparr>), hst_ticks := hst_ticks h + 1,
      hst_last_dispatch := (if reported_kind (out_kind out) then out_kind out else hst_last_dispatch h),
      hst_reactor := (hst_reactor h)\<lparr>rct_ticks := rct_ticks (hst_reactor h) + 1\<rparr>\<rparr>"
    have "host_reactor_tick sdk ui answers h = Some ?h"
      using False t(1) own Some a by (simp add: host_reactor_tick_def host_on_tick_def)
    moreover have "host_inv ?h"
      using t(2-4) assms(1) own by (auto simp: host_inv_def)
    ultimately show thesis by (rule that)
  qed
qed

lemma host_step_inv:
  assumes "host_inv h" "host_step_ok s"
  obtains h' where "host_step h s = Some h'" "host_inv h'"
proof (cases s)
  case (HostStarts self w sdk)
  obtain r h' where "host_start self w sdk h = Some (r, h')" "host_inv h'"
    by (rule host_start_inv [OF assms(1)])
  then show thesis using that HostStarts by simp
next
  case (HostTicks sdk ui answers)
  have "no_begin (ui n)" for n using assms(2) HostTicks by (intro client_no_begin) simp
  then show thesis using host_tick_inv [OF assms(1)] that HostTicks by (metis host_step.simps(2))
next
  case (HostCallback cb)
  have "host_inv (host_callback cb h)"
    using assms(1) gateway_callbacks_inv
    by (auto simp: host_callback_def host_inv_def split: option.split)
  then show thesis using that HostCallback by simp
next
  case (HostLoopEnds sdk err)
  show thesis
  proof (cases "rct_queue (hst_reactor h)")
    case True
    obtain h' where "host_worker_exit sdk err h = Some h'" "host_inv h'"
      by (rule host_worker_exit_inv [of h sdk err]) (use assms(1) in \<open>simp_all add: host_inv_def\<close>)
    then show thesis using that HostLoopEnds True by simp
  next
    case False
    then show thesis using that HostLoopEnds assms(1) by simp
  qed
next
  case HostStopBegins
  have "host_inv (host_stop_begin h)"
    using assms(1) by (auto simp: host_stop_begin_def host_inv_def split: option.split)
      (simp add: queue_invalidate_def)
  then show thesis using that HostStopBegins by simp
next
  case (HostJoins sdk err)
  obtain h' where "host_reactor_join sdk err h = Some h'" "host_inv h'" "hst_owner h' = None"
    by (rule host_reactor_join_inv [OF assms(1)])
  then show thesis using that HostJoins by (simp add: host_stop_join_def host_inv_def)
next
  case (ClientAccess op)
  have op: "op \<noteq> OpBegin" "no_begin [op]" using assms(2) ClientAccess by (auto simp: client_op_def no_begin_def)
  have "queue_shut (hst_queue h) \<Longrightarrow> queue_shut (queue_op (hst_queue h) op)"
    using queue_shut_evolves [OF _ op(2)] by (simp add: queue_run_def)
  then have "host_inv (h\<lparr>hst_queue := queue_op (hst_queue h) op\<rparr>)"
    using assms(1) queue_op_inv [of "hst_queue h" op] queue_op_generation(1) [OF op(1), of "hst_queue h"]
    by (auto simp: host_inv_def split: option.splits)
  then show thesis using that ClientAccess by simp
qed

lemma host_run_inv:
  "host_inv h \<Longrightarrow> \<forall>s \<in> set ss. host_step_ok s \<Longrightarrow> \<exists>h'. host_run h ss = Some h' \<and> host_inv h'"
proof (induction ss arbitrary: h)
  case Nil
  then show ?case by simp
next
  case (Cons s ss)
  obtain h' where "host_step h s = Some h'" "host_inv h'"
    using host_step_inv [OF Cons.prems(1), of s] Cons.prems(2) by auto
  then show ?case using Cons.IH [of h'] Cons.prems(2) by simp
qed


text \<open>A submission that is reported as refused leaves nothing behind that could be executed: what was not
  queued is not there, and a queued one whose wake-up failed has been replaced by a cancellation.\<close>

lemma host_submit_outcome:
  assumes "host_inv h" "host_submit push h timeout_ms = (r, h')"
  shows "if r then queue_commands (hst_queue h') = queue_commands (hst_queue h) @
            [\<lparr>cmd_kind = RegistrationCommandKind.SubmitSelectedAccount,
              cmd_generation = hst_active_generation h, cmd_timeout_ms = timeout_ms\<rparr>] \<and>
          hst_accepting h \<and> rct_running (hst_reactor h)
    else hst_queue h' = hst_queue h \<or> queue_commands (hst_queue h') = [] \<or>
      queue_commands (hst_queue h') = [cancel_of (hst_active_generation h)] \<and> \<not> rq_open (hst_queue h')"
proof -
  have qi: "queue_inv (hst_queue h)" using assms(1) by (simp add: host_inv_def)
  obtain ok q where sub: "queue_submit (hst_queue h) (hst_active_generation h) timeout_ms = (ok, q)" by fastforce
  have room: "rq_size (hst_queue h) \<noteq> queue_capacity \<Longrightarrow> rq_size (hst_queue h) < length (rq_entries (hst_queue h))"
    using qi by (auto simp: queue_inv_def)
  have added: "queue_commands q = queue_commands (hst_queue h) @
      [\<lparr>cmd_kind = RegistrationCommandKind.SubmitSelectedAccount, cmd_generation = hst_active_generation h,
        cmd_timeout_ms = timeout_ms\<rparr>]" "rq_open q" "rq_generation q = hst_active_generation h"
      "hst_active_generation h \<noteq> 0" "\<not> rq_overflow q" if ok
    using sub that room
    by (auto simp: queue_submit_def queue_enqueue_def queue_commands_def take_update_snoc split: if_splits)
  have refused: "q = hst_queue h \<or> queue_commands q = []" if "\<not> ok"
    using sub that by (auto simp: queue_submit_def queue_enqueue_def queue_commands_def split: if_splits)
  have "queue_inv q" using submit_inv [OF qi] sub by (metis snd_conv)
  then have "rq_entries q \<noteq> []" by (auto simp: queue_inv_def queue_capacity_def)
  then have cancelled: "queue_commands (snd (queue_cancel q (hst_active_generation h))) =
      [cancel_of (hst_active_generation h)] \<and> \<not> rq_open (snd (queue_cancel q (hst_active_generation h)))" if ok
    using added that by (simp add: queue_cancel_def queue_enqueue_def queue_commands_def cancel_of_def take_one_update)
  show ?thesis
    using assms(2) sub added refused cancelled
    by (auto simp: host_submit_def host_submit_for_generation_def reactor_wake_def split: if_splits)
qed

section \<open>The laboratory worker keeps the same discipline\<close>

definition lab_inv :: "BaresipRegistrationLabWorker \<Rightarrow> bool" where
  "lab_inv l \<longleftrightarrow> queue_inv (lab_queue l) \<and>
     (case lab_gateway l of
        None \<Rightarrow> queue_shut (lab_queue l) \<and> \<not> lab_running l
      | Some gw \<Rightarrow> gateway_inv gw \<and> lab_thread l \<and> lab_running l \<and> lab_generation l \<noteq> 0 \<and>
          rq_generation (lab_queue l) = lab_generation l)"

lemma new_lab_inv: "lab_inv new_lab"
  by (simp add: lab_inv_def new_lab_def queue_shut_def) (simp add: empty_registration_queue_def)

lemma lab_exit_inv:
  assumes "queue_inv (lab_queue l)" "lab_gateway l = Some gw" "gateway_inv gw"
  obtains l' where "lab_exit self sdk l = Some l'" "lab_inv l'" "lab_gateway l' = None"
    "lab_thread l' = lab_thread l"
proof -
  obtain gw' where "gateway_stop self True sdk gw = Some (True, gw')" by (rule gateway_stop_idle [OF assms(3)])
  then show thesis using that assms by (simp add: lab_exit_def lab_inv_def)
qed

lemma lab_start_inv:
  assumes "lab_inv l" "\<not> lab_thread l"
  obtains r l' where "lab_start self sdk l = Some (r, l')" "lab_inv l'" "r = lab_running l'"
proof -
  obtain g q where b: "begin_generation (lab_queue l) = (g, q)" by fastforce
  have idle: "lab_gateway l = None" "queue_inv (lab_queue l)"
    using assms by (auto simp: lab_inv_def split: option.splits)
  have qi: "queue_inv q" using begin_generation_inv [OF idle(2)] b by simp
  let ?gw = "new_gateway (lab_process_owner l) empty_adapter"
  let ?l = "l\<lparr>lab_stopping := False, lab_thread := True, lab_queue := q, lab_generation := g, lab_ticks := 0,
    lab_last_event := RegistrationDispatchKind.Idle, lab_running := (g \<noteq> 0), lab_gateway := Some ?gw\<rparr>"
  have gi: "gateway_inv ?gw" by (rule new_gateway_inv)
  show thesis
  proof (cases "g = 0")
    case True
    obtain l' where l': "lab_exit self sdk ?l = Some l'" "lab_inv l'" "lab_gateway l' = None"
      by (rule lab_exit_inv [of ?l ?gw self sdk]) (use qi gi in simp_all)
    then have "\<not> lab_running l'" by (simp add: lab_inv_def)
    then show thesis using that [of False l'] l' True b assms(2) by (simp add: lab_start_def)
  next
    case False
    show thesis
      by (rule that [of True ?l]) (use False b assms(2) qi gi begin_generation_live [OF b False] in
        \<open>simp_all add: lab_start_def lab_inv_def\<close>)
  qed
qed

lemma lab_round_inv:
  assumes "lab_inv l" "\<And>n. no_begin (ui n)"
  obtains l' where "lab_round self pumped late sdk ui now selected l = Some l'" "lab_inv l'"
proof (cases "lab_gateway l")
  case None
  then show thesis using that [of l] assms(1) by (simp add: lab_round_def)
next
  case (Some gw)
  let ?gw = "gw\<lparr>gw_bridge := run_callbacks (gw_bridge gw) pumped\<rparr>"
  have inv: "gateway_inv ?gw" "queue_inv (lab_queue l)"
    using assms(1) Some gateway_callbacks_inv [of gw pumped] by (simp_all add: lab_inv_def)
  obtain out q gw' where t: "dispatcher_tick self True sdk ui (lab_queue l, ?gw) (lab_generation l) now selected =
      Some (out, q, gw')" "gateway_inv gw'" "queue_inv q" "rq_generation q = rq_generation (lab_queue l)"
    by (rule dispatcher_tick_kept [OF inv assms(2)])
  consider "lab_stopping l" | "\<not> lab_stopping l" "late" | "\<not> lab_stopping l" "\<not> late" by blast
  then show thesis
  proof cases
    case 1
    then show thesis using that [of l] assms(1) Some by (simp add: lab_round_def)
  next
    case 2
    then show thesis using that [of "l\<lparr>lab_gateway := Some ?gw\<rparr>"] assms(1) Some inv(1)
      by (simp add: lab_round_def lab_inv_def)
  next
    case 3
    let ?l = "l\<lparr>lab_queue := q, lab_gateway := Some gw', lab_ticks := lab_ticks l + 1,
      lab_last_event := (if reported_kind (out_kind out) then out_kind out else lab_last_event l)\<rparr>"
    have "lab_inv ?l" using t(2-4) assms(1) Some by (simp add: lab_inv_def)
    then show thesis using that [of ?l] 3 t(1) Some by (simp add: lab_round_def)
  qed
qed

lemma lab_stop_inv:
  assumes "lab_inv l"
  obtains l' where "lab_stop self sdk l = Some l'" "lab_inv l'" "lab_gateway l' = None" "\<not> lab_thread l'"
proof (cases "lab_gateway l")
  case None
  then have "\<not> lab_running l" using assms by (simp add: lab_inv_def)
  then show thesis
    using that [of l] that [of "l\<lparr>lab_stopping := True, lab_thread := False\<rparr>"] None assms
    by (cases "lab_thread l") (simp_all add: lab_stop_def lab_exit_def lab_inv_def lab_live_generation_def)
next
  case (Some gw)
  let ?q = "if lab_live_generation l \<noteq> 0 then snd (queue_cancel (lab_queue l) (lab_live_generation l))
    else lab_queue l"
  have inv: "gateway_inv gw" "lab_thread l" "queue_inv (lab_queue l)" using assms Some by (simp_all add: lab_inv_def)
  obtain l' where l': "lab_exit self sdk (l\<lparr>lab_stopping := True, lab_queue := ?q\<rparr>) = Some l'" "lab_inv l'"
    "lab_gateway l' = None"
    by (rule lab_exit_inv [of "l\<lparr>lab_stopping := True, lab_queue := ?q\<rparr>" gw self sdk])
      (use inv Some cancel_inv [OF inv(3)] in simp_all)
  then show thesis using that [of "l'\<lparr>lab_thread := False\<rparr>"] inv(2) by (simp add: lab_stop_def lab_inv_def)
qed

section \<open>Properties\<close>

text \<open>
  C29. The registration host leaves nothing behind. In every interleaving of starts, ticks, SDK callbacks, main
  loop ends, stops and client accesses to the queue, whatever the SDK, libre, the clock and the
  resolver answer or throw, every operation returns. While there is no owner state, submissions and
  cancellations of any generation, however old the checks behind them, are refused by the queue and
  no generation is active; while there is one, its thread exists and every command in the queue is
  a valid submission or a cancellation of its own generation. Stopping always ends with the thread
  joined, no owner and an idle gateway: no agent, no deadline, no live session.
\<close>

theorem host_leaves_nothing_behind:
  assumes "\<forall>s \<in> set ss. host_step_ok s"
  shows "\<exists>h. host_run new_host ss = Some h \<and>
    (hst_owner h = None \<longrightarrow> \<not> hst_accepting h \<and> hst_active_generation h = 0 \<and>
       \<not> rct_running (hst_reactor h) \<and>
       (\<forall>g t. queue_submit (hst_queue h) g t = (False, hst_queue h)) \<and>
       (\<forall>g. queue_cancel (hst_queue h) g = (False, hst_queue h))) \<and>
    (\<forall>own. hst_owner h = Some own \<longrightarrow> rct_worker (hst_reactor h) \<and>
       hst_active_generation h = own_generation own \<and>
       (\<forall>c \<in> set (queue_commands (hst_queue h)).
          valid_submit (own_generation own) c \<or> c = cancel_of (own_generation own)) \<and>
       (\<exists>gw. gateway_stop (own_self own) True sdk (own_gateway own) = Some (True, gw) \<and> gateway_idle gw)) \<and>
    (\<exists>h'. host_stop_join sdk err (host_stop_begin h) = Some h' \<and> hst_owner h' = None \<and>
       \<not> rct_worker (hst_reactor h') \<and> \<not> rct_running (hst_reactor h'))"
proof -
  obtain h where h: "host_run new_host ss = Some h" "host_inv h"
    using host_run_inv [OF new_host_inv assms] by blast
  have none: "\<not> hst_accepting h \<and> hst_active_generation h = 0 \<and> \<not> rct_running (hst_reactor h) \<and>
      queue_shut (hst_queue h)" if "hst_owner h = None"
    using h(2) that by (simp add: host_inv_def)
  have own: "rct_worker (hst_reactor h) \<and> hst_active_generation h = own_generation own \<and>
       (\<forall>c \<in> set (queue_commands (hst_queue h)).
          valid_submit (own_generation own) c \<or> c = cancel_of (own_generation own)) \<and>
       (\<exists>gw. gateway_stop (own_self own) True sdk (own_gateway own) = Some (True, gw) \<and> gateway_idle gw)"
    if o: "hst_owner h = Some own" for own
  proof -
    have i: "gateway_inv (own_gateway own)" "rct_worker (hst_reactor h)" "queue_inv (hst_queue h)"
      "own_generation own = rq_generation (hst_queue h)" "hst_active_generation h = own_generation own"
      using h(2) o by (simp_all add: host_inv_def)
    have "\<forall>c \<in> set (queue_commands (hst_queue h)).
        valid_submit (own_generation own) c \<or> c = cancel_of (own_generation own)"
      using i(3) unfolding i(4) by (cases "rq_open (hst_queue h)") (auto simp: queue_inv_def)
    then show ?thesis using i gateway_stop_idle [OF i(1)] by metis
  qed
  have "host_inv (host_stop_begin h)"
    by (rule host_step_inv [OF h(2), of HostStopBegins]) simp_all
  then obtain h' where "host_reactor_join sdk err (host_stop_begin h) = Some h'" "host_inv h'" "hst_owner h' = None"
    "\<not> rct_worker (hst_reactor h')" by (rule host_reactor_join_inv)
  then have stop: "\<exists>h'. host_stop_join sdk err (host_stop_begin h) = Some h' \<and> hst_owner h' = None \<and>
       \<not> rct_worker (hst_reactor h') \<and> \<not> rct_running (hst_reactor h')"
    by (simp add: host_stop_join_def host_inv_def)
  have refuses: "(\<forall>g t. queue_submit (hst_queue h) g t = (False, hst_queue h)) \<and>
      (\<forall>g. queue_cancel (hst_queue h) g = (False, hst_queue h))" if "hst_owner h = None"
    using none [OF that] queue_shut_refuses by blast
  show ?thesis
    by (rule exI [of _ h], intro conjI impI allI h(1) stop) (use none own refuses in blast)+
qed

definition host_sample_steps :: "HostStep list" where
  "host_sample_steps =
     [HostStarts 1 \<lparr>hsa_thread = True, hsa_init_error = 0, hsa_queue_error = 0, hsa_queue = True\<rparr> sample_answers,
      ClientAccess (OpSubmit 1 5000),
      HostTicks sample_answers (\<lambda>n. []) (Some (100, 9)),
      HostStopBegins,
      ClientAccess (OpSubmit 1 5000)]"

theorem host_leaves_nothing_behind_witness:
  "\<exists>h h'. host_run new_host host_sample_steps = Some h \<and>
     hst_last_dispatch h = RegistrationDispatchKind.Submitted \<and> hst_owner h \<noteq> None \<and>
     host_stop_join sample_answers 0 (host_stop_begin h) = Some h' \<and> hst_owner h' = None"
proof -
  have k: "map_option (\<lambda>h. (hst_last_dispatch h, hst_owner h \<noteq> None)) (host_run new_host host_sample_steps) =
      Some (RegistrationDispatchKind.Submitted, True)" by code_simp
  have "\<forall>s \<in> set host_sample_steps. host_step_ok s"
    by (simp add: host_sample_steps_def client_op_def)
  from host_leaves_nothing_behind [OF this, of sample_answers 0] k show ?thesis by auto
qed

end
