(* ===== verification/Recent_Destinations.thy ===== *)
theory Recent_Destinations
  imports Sip_Runtime Sip_Address
begin

text \<open>
  The dial pad and the list of recently dialled destinations: \<open>dialpad_model.h\<close>,
  \<open>recent_destinations.h\<close> and \<open>recent_destination_ui.h\<close>. The list is an array of ten entries used by
  the GUI thread only; it is modelled as the array it is, moves and erasures included, and shown to be
  a most-recently-used list without duplicates.
\<close>

section \<open>Entries\<close>

record RecentDestination =
  rd_token :: u64
  rd_destination :: wstr

definition blank_entry :: RecentDestination where
  "blank_entry = \<lparr>rd_token = 0, rd_destination = []\<rparr>"

definition recent_capacity :: nat where
  "recent_capacity = 10"

record RecentDestinations =
  rec_entries :: "RecentDestination list"
  rec_size :: nat
  rec_session :: u64
  rec_next_token :: u64

definition no_recents :: RecentDestinations where
  "no_recents = \<lparr>rec_entries = replicate recent_capacity blank_entry, rec_size = 0, rec_session = 0,
     rec_next_token = 1\<rparr>"

definition valid_context :: "SipRuntimeObservation \<Rightarrow> bool" where
  "valid_context observed \<longleftrightarrow>
     obs_process observed = RuntimeProcess.Running \<and> obs_evidence observed = SipEvidence.VerifiedNativeApi \<and>
     obs_session observed \<noteq> 0 \<and>
     (obs_sip observed = SipStatus.Registered \<or> obs_sip observed = SipStatus.Calling \<or>
      obs_sip observed = SipStatus.Ringing \<or> obs_sip observed = SipStatus.InCall)"

text \<open>\<open>erase\<close> overwrites the characters, then empties the entry.\<close>

definition recent_clear :: "RecentDestinations \<Rightarrow> RecentDestinations" where
  "recent_clear r = r\<lparr>rec_entries := map (\<lambda>e. blank_entry) (rec_entries r), rec_size := 0, rec_session := 0\<rparr>"

definition recent_synchronize :: "RecentDestinations \<Rightarrow> SipRuntimeObservation \<Rightarrow> RecentDestinations" where
  "recent_synchronize r observed =
     (if \<not> valid_context observed then recent_clear r
      else if rec_session r \<noteq> obs_session observed
      then (recent_clear r)\<lparr>rec_session := obs_session observed\<rparr>
      else r)"

section \<open>Remembering\<close>

text \<open>The user part of the typed text, and the characters the native engine dials.\<close>

definition recent_user :: "wstr \<Rightarrow> wstr" where
  "recent_user destination =
     (let user = (if starts_with (W ''sips:'') destination then drop 5 destination
                  else if starts_with (W ''sip:'') destination then drop 4 destination
                  else destination)
      in case find_idx (wc CHR ''@'') user of Some at \<Rightarrow> take at user | None \<Rightarrow> user)"

definition recent_user_char :: "wchar \<Rightarrow> bool" where
  "recent_user_char c \<longleftrightarrow>
     (wc CHR ''a'' \<le> c \<and> c \<le> wc CHR ''z'') \<or> (wc CHR ''A'' \<le> c \<and> c \<le> wc CHR ''Z'') \<or>
     (wc CHR ''0'' \<le> c \<and> c \<le> wc CHR ''9'') \<or> c = wc CHR ''_'' \<or> c = wc CHR ''.'' \<or> c = wc CHR ''-'' \<or>
     c = wc CHR ''+'' \<or> c = wc CHR ''*'' \<or> c = wc CHR ''#''"

definition recent_dialable :: "wctype \<Rightarrow> wstr \<Rightarrow> bool" where
  "recent_dialable ct destination \<longleftrightarrow>
     \<not> (\<exists>c \<in> set destination. c \<le> 32 \<or> c \<ge> 127) \<and>
     fst (validate_address ct destination) = AddressError.NoAddressError \<and>
     \<not> (\<exists>c \<in> set (recent_user destination). \<not> recent_user_char c)"

text \<open>The search loop: the first used entry with this destination, or the size.\<close>

fun recent_position :: "wstr \<Rightarrow> RecentDestination list \<Rightarrow> nat \<Rightarrow> nat" where
  "recent_position destination entries 0 = 0"
| "recent_position destination [] (Suc n) = 0"
| "recent_position destination (e # entries) (Suc n) =
     (if rd_destination e = destination then 0 else Suc (recent_position destination entries n))"

text \<open>The shifting loop, from \<open>position\<close> down to one.\<close>

fun shift_right :: "RecentDestination list \<Rightarrow> nat \<Rightarrow> RecentDestination list" where
  "shift_right entries 0 = entries"
| "shift_right entries (Suc i) = shift_right (entries[Suc i := entries ! i]) i"

text \<open>\<open>memory\<close>: whether the copies could be allocated; all of them precede the changes.\<close>

definition recent_remember ::
    "wctype \<Rightarrow> bool \<Rightarrow> RecentDestinations \<Rightarrow> SipRuntimeObservation \<Rightarrow> wstr \<Rightarrow> bool \<Rightarrow>
     bool \<times> RecentDestinations" where
  "recent_remember ct memory r observed destination accepted =
     (let r = recent_synchronize r observed
      in if \<not> accepted \<or> \<not> valid_context observed \<or> obs_sip observed \<noteq> SipStatus.Registered \<or>
            obs_call_id observed \<noteq> 0 \<or> destination = [] \<or> length destination > 128 \<or>
            rec_next_token r = u64_max then (False, r)
         else if \<not> recent_dialable ct destination \<or> \<not> memory then (False, r)
         else (let entry = \<lparr>rd_token = rec_next_token r, rd_destination = destination\<rparr>;
                   position = recent_position destination (rec_entries r) (rec_size r);
                   (size', position) =
                     (if position = rec_size r
                      then (let size' = (if rec_size r < recent_capacity then rec_size r + 1 else rec_size r)
                            in (size', size' - 1))
                      else (rec_size r, position));
                   entries = (rec_entries r)[position := blank_entry];
                   entries = (shift_right entries position)[0 := entry]
               in (True, r\<lparr>rec_entries := entries, rec_size := size', rec_next_token := rec_next_token r + 1\<rparr>)))"

definition recent_at :: "RecentDestinations \<Rightarrow> nat \<Rightarrow> RecentDestination option" where
  "recent_at r index = (if index < rec_size r then Some (rec_entries r ! index) else None)"

definition recent_find ::
    "RecentDestinations \<Rightarrow> u64 \<Rightarrow> SipRuntimeObservation \<Rightarrow> RecentDestination option" where
  "recent_find r token observed =
     (if token = 0 \<or> \<not> valid_context observed \<or> obs_session observed \<noteq> rec_session r then None
      else find (\<lambda>e. rd_token e = token) (take (rec_size r) (rec_entries r)))"

text \<open>\<open>field\<close>: whether there is a field; \<open>written\<close>: whether \<open>SetWindowTextW\<close> succeeds; \<open>memory\<close>: whether the copy
  could be allocated. The second result is the text asked to be set.\<close>

definition fill_recent_destination ::
    "bool \<Rightarrow> bool \<Rightarrow> bool \<Rightarrow> RecentDestinations \<Rightarrow> u64 \<Rightarrow> SipRuntimeObservation \<Rightarrow>
     bool \<times> wstr option \<times> RecentDestinations" where
  "fill_recent_destination field memory written r token observed =
     (let r = recent_synchronize r observed
      in case recent_find r token observed of
           None \<Rightarrow> (False, None, r)
         | Some entry \<Rightarrow>
             (if \<not> field \<or> \<not> memory then (False, None, r)
              else (written, Some (rd_destination entry), r)))"

section \<open>The dial pad\<close>

definition dialpad_keys :: "wchar list" where
  "dialpad_keys = W ''123456789*0#''"

definition dial_append :: "wstr \<Rightarrow> wchar \<Rightarrow> nat \<Rightarrow> bool \<times> wstr" where
  "dial_append destination key limit =
     (if key \<notin> set dialpad_keys \<or> length destination \<ge> limit then (False, destination)
      else (True, destination @ [key]))"

definition dial_backspace :: "wstr \<Rightarrow> wstr" where
  "dial_backspace destination = butlast destination"

record DialEditPlan =
  dp_accepted :: bool
  dp_start :: nat
  dp_end :: nat
  dp_replacement :: wstr

definition plan_dial_edit :: "wstr \<Rightarrow> nat \<Rightarrow> nat \<Rightarrow> wchar \<Rightarrow> nat \<Rightarrow> DialEditPlan" where
  "plan_dial_edit value selection_start selection_end action limit =
     (let bounded_start = min selection_start (length value); bounded_end = min selection_end (length value);
          start = min bounded_start bounded_end; last = max bounded_start bounded_end
      in if action = 0 then \<lparr>dp_accepted = True, dp_start = 0, dp_end = length value, dp_replacement = []\<rparr>
         else if action = 8
         then (let start = (if start = last \<and> start > 0 then start - 1 else start)
               in \<lparr>dp_accepted = (start \<noteq> last), dp_start = start, dp_end = last, dp_replacement = []\<rparr>)
         else if action \<notin> set dialpad_keys \<or> length value - (last - start) \<ge> limit
         then \<lparr>dp_accepted = False, dp_start = start, dp_end = last, dp_replacement = []\<rparr>
         else \<lparr>dp_accepted = True, dp_start = start, dp_end = last, dp_replacement = [action]\<rparr>)"

section \<open>The list as a reader sees it\<close>

text \<open>Session, used entries from the latest on, next token.\<close>

type_synonym recent_view = "u64 \<times> RecentDestination list \<times> u64"

definition view_of :: "RecentDestinations \<Rightarrow> recent_view" where
  "view_of r = (rec_session r, take (rec_size r) (rec_entries r), rec_next_token r)"

definition view_synchronize :: "SipRuntimeObservation \<Rightarrow> recent_view \<Rightarrow> recent_view" where
  "view_synchronize observed v = (case v of (session, es, nxt) \<Rightarrow>
     if \<not> valid_context observed then (0, [], nxt)
     else if session = obs_session observed then (session, es, nxt) else (obs_session observed, [], nxt))"

text \<open>A most-recently-used list of at most ten: the new entry first, an older one for the same
  destination gone.\<close>

definition most_recent :: "RecentDestination \<Rightarrow> RecentDestination list \<Rightarrow> RecentDestination list" where
  "most_recent e es = take recent_capacity (e # filter (\<lambda>x. rd_destination x \<noteq> rd_destination e) es)"

definition may_remember :: "wctype \<Rightarrow> SipRuntimeObservation \<Rightarrow> wstr \<Rightarrow> bool \<Rightarrow> bool" where
  "may_remember ct observed destination accepted \<longleftrightarrow> accepted \<and> valid_context observed \<and>
     obs_sip observed = SipStatus.Registered \<and> obs_call_id observed = 0 \<and> destination \<noteq> [] \<and>
     length destination \<le> 128 \<and> recent_dialable ct destination"

definition view_remember ::
    "wctype \<Rightarrow> bool \<Rightarrow> SipRuntimeObservation \<Rightarrow> wstr \<Rightarrow> bool \<Rightarrow> recent_view \<Rightarrow> recent_view" where
  "view_remember ct memory observed destination accepted v =
     (case view_synchronize observed v of (session, es, nxt) \<Rightarrow>
        if may_remember ct observed destination accepted \<and> memory \<and> nxt \<noteq> u64_max
        then (session, most_recent \<lparr>rd_token = nxt, rd_destination = destination\<rparr> es, nxt + 1)
        else (session, es, nxt))"

definition recents_ok :: "RecentDestinations \<Rightarrow> bool" where
  "recents_ok r \<longleftrightarrow> length (rec_entries r) = recent_capacity \<and> rec_size r \<le> recent_capacity \<and>
     drop (rec_size r) (rec_entries r) = replicate (recent_capacity - rec_size r) blank_entry \<and>
     distinct (map rd_destination (take (rec_size r) (rec_entries r))) \<and>
     sorted_wrt (\<lambda>a b. rd_token b < rd_token a) (take (rec_size r) (rec_entries r)) \<and>
     (\<forall>e \<in> set (take (rec_size r) (rec_entries r)). rd_token e \<noteq> 0 \<and> rd_token e < rec_next_token r) \<and>
     rec_next_token r \<noteq> 0"

lemma recent_position_le: "recent_position d es n \<le> n"
  by (induction d es n rule: recent_position.induct) auto

lemma recent_position_found:
  "recent_position d es n < n \<Longrightarrow> n \<le> length es \<Longrightarrow>
     rd_destination (es ! recent_position d es n) = d"
  by (induction d es n rule: recent_position.induct) (auto split: if_splits)

lemma recent_position_absent:
  "recent_position d es n = n \<Longrightarrow> n \<le> length es \<Longrightarrow> \<forall>e \<in> set (take n es). rd_destination e \<noteq> d"
  by (induction d es n rule: recent_position.induct) (auto split: if_splits)

lemma shift_right_take:
  "i < length es \<Longrightarrow> shift_right es i = take 1 es @ take i es @ drop (Suc i) es"
proof (induction i arbitrary: es)
  case 0
  then show ?case by (cases es) auto
next
  case (Suc i)
  let ?es = "es[Suc i := es ! i]"
  have "take 1 ?es = take 1 es" "take i ?es = take i es" by simp_all
  moreover have "drop (Suc i) ?es = es ! i # drop (Suc (Suc i)) es"
    using Suc.prems by (simp add: drop_update_swap Cons_nth_drop_Suc [symmetric])
  ultimately show ?case
    using Suc by (simp add: take_Suc_conv_app_nth)
qed

lemma moved_to_front:
  "p < length es \<Longrightarrow> (shift_right (es[p := b]) p)[0 := e] = e # take p es @ drop (Suc p) es"
proof -
  assume p: "p < length es"
  then obtain x where "take 1 (es[p := b]) = [x]" by (cases "es[p := b]") auto
  then have "shift_right (es[p := b]) p = x # take p es @ drop (Suc p) es"
    using shift_right_take [of p "es[p := b]"] p by simp
  then show ?thesis by simp
qed

lemma filter_distinct_index:
  assumes "distinct (map f xs)" "p < length xs"
  shows "filter (\<lambda>x. f x \<noteq> f (xs ! p)) xs = take p xs @ drop (Suc p) xs"
proof -
  have xs: "xs = take p xs @ xs ! p # drop (Suc p) xs" by (rule id_take_nth_drop [OF assms(2)])
  have "f (xs ! p) \<notin> f ` set (take p xs) \<union> f ` set (drop (Suc p) xs)"
    using assms(1) by (subst (asm) xs) auto
  then have "filter (\<lambda>x. f x \<noteq> f (xs ! p)) (take p xs) = take p xs"
    "filter (\<lambda>x. f x \<noteq> f (xs ! p)) (drop (Suc p) xs) = drop (Suc p) xs"
    by (auto simp: filter_id_conv image_iff)
  then show ?thesis by (subst xs, subst filter_append, simp)
qed

lemma recent_clear_ok:
  "recents_ok r \<Longrightarrow> recents_ok (recent_clear r)" "view_of (recent_clear r) = (0, [], rec_next_token r)"
  by (simp_all add: recents_ok_def recent_clear_def view_of_def map_replicate_const)

lemma recent_synchronize_ok:
  assumes "recents_ok r"
  shows "recents_ok (recent_synchronize r observed)"
    "view_of (recent_synchronize r observed) = view_synchronize observed (view_of r)"
  using assms recent_clear_ok [of r]
  by (auto simp: recent_synchronize_def view_synchronize_def view_of_def recents_ok_def)

text \<open>Storing a new entry, in the list and in the array.\<close>

definition remember_at :: "RecentDestination \<Rightarrow> RecentDestinations \<Rightarrow> nat \<Rightarrow> nat \<Rightarrow> RecentDestinations" where
  "remember_at e r position size' =
     r\<lparr>rec_entries := (shift_right ((rec_entries r)[position := blank_entry]) position)[0 := e],
       rec_size := size', rec_next_token := rec_next_token r + 1\<rparr>"

lemma most_recent_ok:
  assumes "recents_ok r" "rec_next_token r \<noteq> u64_max" "rd_token e = rec_next_token r"
    "take n entries = most_recent e (take (rec_size r) (rec_entries r))" "n \<le> recent_capacity"
    "length entries = recent_capacity" "drop n entries = replicate (recent_capacity - n) blank_entry"
  shows "recents_ok (r\<lparr>rec_entries := entries, rec_size := n, rec_next_token := rec_next_token r + 1\<rparr>)"
proof -
  let ?old = "take (rec_size r) (rec_entries r)"
  let ?kept = "filter (\<lambda>x. rd_destination x \<noteq> rd_destination e) ?old"
  have old: "distinct (map rd_destination ?old)" "sorted_wrt (\<lambda>a b. rd_token b < rd_token a) ?old"
    "\<forall>x \<in> set ?old. rd_token x \<noteq> 0 \<and> rd_token x < rec_next_token r" "rec_next_token r \<noteq> 0"
    using assms(1) by (simp_all add: recents_ok_def)
  have "distinct (map rd_destination (e # ?kept))"
    using old(1) by (auto simp: distinct_map_filter)
  moreover have "sorted_wrt (\<lambda>a b. rd_token b < rd_token a) (e # ?kept)"
    using old(2,3) assms(3) sorted_wrt_filter by auto
  moreover have "\<forall>x \<in> set (e # ?kept). rd_token x \<noteq> 0 \<and> rd_token x < rec_next_token r + 1"
    using old(3,4) assms(2,3) inc_gt [of "rec_next_token r"] by (auto intro: order.strict_trans)
  ultimately have "distinct (map rd_destination (take n entries))"
    "sorted_wrt (\<lambda>a b. rd_token b < rd_token a) (take n entries)"
    "\<forall>x \<in> set (take n entries). rd_token x \<noteq> 0 \<and> rd_token x < rec_next_token r + 1"
    unfolding assms(4) most_recent_def
    by (metis distinct_take take_map, metis sorted_wrt_take, metis in_set_takeD)
  then show ?thesis
    using assms(2,5-7) by (simp add: recents_ok_def inc_nonzero)
qed

lemma remember_found:
  assumes "recents_ok r" "p = recent_position (rd_destination e) (rec_entries r) (rec_size r)" "p < rec_size r"
    "rec_next_token r \<noteq> u64_max" "rd_token e = rec_next_token r"
  shows "recents_ok (remember_at e r p (rec_size r)) \<and>
    take (rec_size r) (rec_entries (remember_at e r p (rec_size r))) = most_recent e (take (rec_size r) (rec_entries r))"
proof -
  let ?E = "rec_entries r" and ?n = "rec_size r"
  have len: "length ?E = recent_capacity" "?n \<le> recent_capacity" using assms(1) by (simp_all add: recents_ok_def)
  have d: "rd_destination (take ?n ?E ! p) = rd_destination e"
    using recent_position_found [of "rd_destination e" ?E ?n] assms(2,3) len by simp
  have "filter (\<lambda>x. rd_destination x \<noteq> rd_destination (take ?n ?E ! p)) (take ?n ?E) =
      take p (take ?n ?E) @ drop (Suc p) (take ?n ?E)"
    using assms(1,3) len by (intro filter_distinct_index) (simp_all add: recents_ok_def)
  then have f: "filter (\<lambda>x. rd_destination x \<noteq> rd_destination e) (take ?n ?E) =
      take p ?E @ drop (Suc p) (take ?n ?E)"
    using assms(3) unfolding d by (simp add: min_absorb1)
  have E': "rec_entries (remember_at e r p ?n) = e # take p ?E @ drop (Suc p) ?E"
    using assms(3) len by (simp add: remember_at_def moved_to_front)
  have t: "take ?n (e # take p ?E @ drop (Suc p) ?E) = e # take p ?E @ drop (Suc p) (take ?n ?E)"
    using assms(3) len by (cases ?n) (simp_all add: drop_take)
  moreover have "length (e # take p ?E @ drop (Suc p) (take ?n ?E)) \<le> recent_capacity"
    using assms(3) len by simp
  ultimately have m: "take ?n (e # take p ?E @ drop (Suc p) ?E) = most_recent e (take ?n ?E)"
    unfolding most_recent_def f by simp
  have "drop ?n (e # take p ?E @ drop (Suc p) ?E) = drop ?n ?E"
    using assms(3) len by (cases ?n) (simp_all add: min_absorb2)
  then have "recents_ok (remember_at e r p ?n)"
    unfolding remember_at_def using assms(1,3-5) len m E'
    by (intro most_recent_ok) (simp_all add: recents_ok_def remember_at_def)
  then show ?thesis using m E' by simp
qed

lemma remember_new:
  assumes "recents_ok r" "recent_position (rd_destination e) (rec_entries r) (rec_size r) = rec_size r"
    "rec_next_token r \<noteq> u64_max" "rd_token e = rec_next_token r"
    "size' = (if rec_size r < recent_capacity then rec_size r + 1 else rec_size r)"
  shows "recents_ok (remember_at e r (size' - 1) size') \<and>
    take size' (rec_entries (remember_at e r (size' - 1) size')) = most_recent e (take (rec_size r) (rec_entries r))"
proof -
  let ?E = "rec_entries r" and ?n = "rec_size r" and ?p = "size' - 1"
  have len: "length ?E = recent_capacity" "?n \<le> recent_capacity" "recent_capacity = 10"
    using assms(1) by (simp_all add: recents_ok_def recent_capacity_def)
  have f: "filter (\<lambda>x. rd_destination x \<noteq> rd_destination e) (take ?n ?E) = take ?n ?E"
    using recent_position_absent [OF assms(2)] len by (simp add: filter_id_conv)
  have p: "?p < recent_capacity" "size' = Suc ?p" "size' \<le> recent_capacity"
    using assms(5) len by (auto split: if_splits)
  have E': "rec_entries (remember_at e r ?p size') = e # take ?p ?E @ drop size' ?E"
    using p len by (simp add: remember_at_def moved_to_front)
  have "take size' (e # take ?p ?E @ drop size' ?E) = e # take ?p ?E"
    using p len by (metis append_Cons append_eq_conv_conj length_Cons length_take less_imp_le_nat min.absorb2)
  also have "\<dots> = most_recent e (take ?n ?E)"
  proof (cases "?n < recent_capacity")
    case True
    then have "?p = ?n" using assms(5) by simp
    then show ?thesis using True len by (simp add: most_recent_def f)
  next
    case False
    then have n: "?n = recent_capacity" and "recent_capacity = Suc ?p" using assms(5) len by simp_all
    moreover have "take ?n ?E = ?E" using n len(1) by simp
    ultimately show ?thesis unfolding most_recent_def f by (metis take_Suc_Cons)
  qed
  finally have m: "take size' (e # take ?p ?E @ drop size' ?E) = most_recent e (take ?n ?E)" .
  have "drop ?n ?E = replicate (recent_capacity - ?n) blank_entry" using assms(1) by (simp add: recents_ok_def)
  then have "drop size' ?E = replicate (recent_capacity - size') blank_entry"
    using assms(5) len drop_drop [of 1 ?n ?E] by (auto split: if_splits simp: recents_ok_def)
  moreover have "drop size' (e # take ?p ?E @ drop size' ?E) = drop size' ?E"
    using p len by (metis append_Cons append_eq_conv_conj length_Cons length_take less_imp_le_nat min.absorb2)
  ultimately have "recents_ok (remember_at e r ?p size')"
    unfolding remember_at_def using assms(1,3,4) len m E' p
    by (intro most_recent_ok) (simp_all add: recents_ok_def remember_at_def)
  then show ?thesis using m E' by simp
qed

lemma recent_remember_cases:
  assumes "recents_ok r"
  obtains (kept) "recent_remember ct memory r observed destination accepted = (False, recent_synchronize r observed)"
      "\<not> (may_remember ct observed destination accepted \<and> memory \<and> rec_next_token r \<noteq> u64_max)"
  | (stored) r' where "recent_remember ct memory r observed destination accepted = (True, r')" "recents_ok r'"
      "may_remember ct observed destination accepted \<and> memory \<and> rec_next_token r \<noteq> u64_max"
      "view_of r' = (rec_session (recent_synchronize r observed),
         most_recent \<lparr>rd_token = rec_next_token r, rd_destination = destination\<rparr>
           (take (rec_size (recent_synchronize r observed)) (rec_entries (recent_synchronize r observed))),
         rec_next_token r + 1)"
proof (cases "may_remember ct observed destination accepted \<and> memory \<and> rec_next_token r \<noteq> u64_max")
  case False
  have "rec_next_token (recent_synchronize r observed) = rec_next_token r"
    by (simp add: recent_synchronize_def recent_clear_def)
  then show ?thesis using False by (intro kept) (auto simp: recent_remember_def may_remember_def Let_def)
next
  case True
  let ?r = "recent_synchronize r observed" and ?e = "\<lparr>rd_token = rec_next_token r, rd_destination = destination\<rparr>"
  have ok: "recents_ok ?r" by (rule recent_synchronize_ok(1) [OF assms])
  have nt: "rec_next_token ?r = rec_next_token r" by (simp add: recent_synchronize_def recent_clear_def)
  let ?p = "recent_position destination (rec_entries ?r) (rec_size ?r)"
  let ?s = "if rec_size ?r < recent_capacity then rec_size ?r + 1 else rec_size ?r"
  have res: "recent_remember ct memory r observed destination accepted =
      (True, if ?p = rec_size ?r then remember_at ?e ?r (?s - 1) ?s else remember_at ?e ?r ?p (rec_size ?r))"
    using True nt by (auto simp: recent_remember_def may_remember_def Let_def remember_at_def not_less)
  have view: "view_of (remember_at ?e ?r p n) = (rec_session ?r, take n (rec_entries (remember_at ?e ?r p n)), rec_next_token r + 1)"
    for p n by (simp add: view_of_def remember_at_def nt)
  show ?thesis
  proof (cases "?p = rec_size ?r")
    case new: True
    have p: "recent_position (rd_destination ?e) (rec_entries ?r) (rec_size ?r) = rec_size ?r" using new by simp
    have "recents_ok (remember_at ?e ?r (?s - 1) ?s) \<and>
        take ?s (rec_entries (remember_at ?e ?r (?s - 1) ?s)) = most_recent ?e (take (rec_size ?r) (rec_entries ?r))"
      by (rule remember_new [OF ok p]) (use True nt in simp_all)
    then show ?thesis using stored [of "remember_at ?e ?r (?s - 1) ?s"] res new True view by simp
  next
    case old: False
    then have p: "?p < rec_size ?r" using recent_position_le [of destination "rec_entries ?r" "rec_size ?r"] by simp
    have "recents_ok (remember_at ?e ?r ?p (rec_size ?r)) \<and>
        take (rec_size ?r) (rec_entries (remember_at ?e ?r ?p (rec_size ?r))) =
          most_recent ?e (take (rec_size ?r) (rec_entries ?r))"
      by (rule remember_found [OF ok _ p]) (use True nt in simp_all)
    then show ?thesis using stored [of "remember_at ?e ?r ?p (rec_size ?r)"] res old True view by simp
  qed
qed

section \<open>Runs\<close>

datatype RecentOp =
    Synchronize SipRuntimeObservation
  | Remember bool SipRuntimeObservation wstr bool
  | ClearRecents

fun recent_op :: "wctype \<Rightarrow> RecentDestinations \<Rightarrow> RecentOp \<Rightarrow> RecentDestinations" where
  "recent_op ct r (Synchronize observed) = recent_synchronize r observed"
| "recent_op ct r (Remember memory observed destination accepted) =
     snd (recent_remember ct memory r observed destination accepted)"
| "recent_op ct r ClearRecents = recent_clear r"

fun view_op :: "wctype \<Rightarrow> recent_view \<Rightarrow> RecentOp \<Rightarrow> recent_view" where
  "view_op ct v (Synchronize observed) = view_synchronize observed v"
| "view_op ct v (Remember memory observed destination accepted) =
     view_remember ct memory observed destination accepted v"
| "view_op ct v ClearRecents = (0, [], snd (snd v))"

lemma recent_op_refines:
  assumes "recents_ok r"
  shows "recents_ok (recent_op ct r e) \<and> view_of (recent_op ct r e) = view_op ct (view_of r) e"
proof (cases e)
  case (Synchronize observed)
  then show ?thesis using recent_synchronize_ok [OF assms] by simp
next
  case (Remember memory observed destination accepted)
  have v: "view_of (recent_synchronize r observed) = view_synchronize observed (view_of r)"
    and ok: "recents_ok (recent_synchronize r observed)"
    using recent_synchronize_ok [OF assms] by simp_all
  have nt: "rec_next_token (recent_synchronize r observed) = rec_next_token r"
    by (simp add: recent_synchronize_def recent_clear_def)
  show ?thesis
    using assms
  proof (cases rule: recent_remember_cases [of r ct memory observed destination accepted])
    case kept
    obtain session es nxt where w: "view_synchronize observed (view_of r) = (session, es, nxt)"
      by (cases "view_synchronize observed (view_of r)")
    then have "nxt = rec_next_token r" using v nt by (simp add: view_of_def)
    then have "view_remember ct memory observed destination accepted (view_of r) = (session, es, nxt)"
      using kept(2) w by (auto simp: view_remember_def)
    then show ?thesis using Remember ok v w kept(1) by simp
  next
    case (stored r')
    then show ?thesis using Remember v [symmetric] nt by (simp add: view_remember_def view_of_def)
  qed
next
  case ClearRecents
  then show ?thesis using recent_clear_ok(1) [OF assms] recent_clear_ok(2) [of r] by (simp add: view_of_def)
qed

lemma no_recents_ok: "recents_ok no_recents"
  by (simp add: recents_ok_def no_recents_def)

lemma recent_run_ok:
  "recents_ok (foldl (recent_op ct) no_recents ops) \<and>
     view_of (foldl (recent_op ct) no_recents ops) = foldl (view_op ct) (0, [], 1) ops"
proof (induction ops rule: rev_induct)
  case Nil
  show ?case using no_recents_ok by (simp add: view_of_def no_recents_def)
next
  case (snoc e ops)
  then show ?case using recent_op_refines by simp
qed

text \<open>The state as the interface uses it: only dialable destinations are remembered, and the field gets only what
  the list shows for the session that is on.\<close>

lemma view_run_dialable:
  "\<forall>e \<in> set (fst (snd (foldl (view_op ct) (0, [], 1) ops))).
     recent_dialable ct (rd_destination e) \<and> rd_destination e \<noteq> [] \<and> length (rd_destination e) \<le> 128"
proof (induction ops rule: rev_induct)
  case Nil
  show ?case by simp
next
  case (snoc op ops)
  obtain session es nxt where v: "foldl (view_op ct) (0, [], 1) ops = (session, es, nxt)"
    by (cases "foldl (view_op ct) (0, [], 1) ops")
  let ?fit = "\<lambda>e. recent_dialable ct (rd_destination e) \<and> rd_destination e \<noteq> [] \<and> length (rd_destination e) \<le> 128"
  have es: "\<forall>e \<in> set es. ?fit e" using snoc v by simp
  have syn: "\<forall>e \<in> set (fst (snd (view_synchronize observed (session, es, nxt)))). ?fit e" for observed
    using es by (simp add: view_synchronize_def)
  show ?case
  proof (cases op)
    case (Synchronize observed)
    then show ?thesis using v syn by simp
  next
    case (Remember memory observed destination accepted)
    obtain session' es' nxt' where w: "view_synchronize observed (session, es, nxt) = (session', es', nxt')"
      by (cases "view_synchronize observed (session, es, nxt)")
    have es': "\<forall>e \<in> set es'. ?fit e" using syn [of observed] w by simp
    have sub: "x = e \<or> x \<in> set es'" if "x \<in> set (most_recent e es')" for e x
      using that unfolding most_recent_def by (auto dest: in_set_takeD)
    have "?fit x" if "x \<in> set (fst (snd (view_op ct (session, es, nxt) op)))" for x
    proof (cases "may_remember ct observed destination accepted \<and> memory \<and> nxt' \<noteq> u64_max")
      case True
      then have "?fit \<lparr>rd_token = nxt', rd_destination = destination\<rparr>" by (simp add: may_remember_def)
      moreover have "x = \<lparr>rd_token = nxt', rd_destination = destination\<rparr> \<or> x \<in> set es'"
        using that True Remember w by (intro sub) (simp add: view_remember_def)
      ultimately show ?thesis using es' by blast
    next
      case False
      then show ?thesis using that Remember w es' by (simp add: view_remember_def split: if_splits)
    qed
    then show ?thesis using v by simp
  next
    case ClearRecents
    then show ?thesis using v by simp
  qed
qed

lemma recent_find_shown:
  assumes "recent_find r token observed = Some e"
  shows "valid_context observed" "rec_session r = obs_session observed"
    "e \<in> set (take (rec_size r) (rec_entries r))" "rd_token e = token" "token \<noteq> 0"
  using assms by (auto simp: recent_find_def find_Some_iff set_conv_nth split: if_splits)

text \<open>The dial pad edit: what the button does to the text of the field.\<close>

definition apply_edit :: "wstr \<Rightarrow> DialEditPlan \<Rightarrow> wstr" where
  "apply_edit value p = take (dp_start p) value @ dp_replacement p @ drop (dp_end p) value"

text \<open>The plan in terms of the ordered, bounded selection.\<close>

lemma plan_dial_edit_selection:
  obtains x y where "x \<le> y" "y \<le> length v" "plan_dial_edit v s e a limit =
    (if a = 0 then \<lparr>dp_accepted = True, dp_start = 0, dp_end = length v, dp_replacement = []\<rparr>
     else if a = 8
     then \<lparr>dp_accepted = ((if x = y \<and> x > 0 then x - 1 else x) \<noteq> y), dp_start = (if x = y \<and> x > 0 then x - 1 else x),
            dp_end = y, dp_replacement = []\<rparr>
     else if a \<notin> set dialpad_keys \<or> length v - (y - x) \<ge> limit
     then \<lparr>dp_accepted = False, dp_start = x, dp_end = y, dp_replacement = []\<rparr>
     else \<lparr>dp_accepted = True, dp_start = x, dp_end = y, dp_replacement = [a]\<rparr>)"
proof -
  let ?x = "min (min s (length v)) (min e (length v))" and ?y = "max (min s (length v)) (min e (length v))"
  have "?x \<le> ?y" "?y \<le> length v" by simp_all
  then show thesis using that [of ?x ?y] unfolding plan_dial_edit_def Let_def by metis
qed

lemma plan_dial_edit_range:
  "dp_start (plan_dial_edit v s e a limit) \<le> dp_end (plan_dial_edit v s e a limit) \<and>
   dp_end (plan_dial_edit v s e a limit) \<le> length v"
  by (rule plan_dial_edit_selection [of v s e a limit]) simp

lemma apply_edit_length:
  "dp_start p \<le> dp_end p \<Longrightarrow> dp_end p \<le> length v \<Longrightarrow>
     length (apply_edit v p) = length v - (dp_end p - dp_start p) + length (dp_replacement p)"
  by (simp add: apply_edit_def)

lemma plan_dial_edit_replacement:
  "dp_replacement (plan_dial_edit v s e a limit) = [] \<or>
   dp_replacement (plan_dial_edit v s e a limit) = [a] \<and> a \<in> set dialpad_keys \<and>
     length v - (dp_end (plan_dial_edit v s e a limit) - dp_start (plan_dial_edit v s e a limit)) < limit"
  by (rule plan_dial_edit_selection [of v s e a limit]) (simp add: not_le)

lemma plan_dial_edit_length:
  "length (apply_edit v (plan_dial_edit v s e a limit)) \<le> max limit (length v)"
  "dp_replacement (plan_dial_edit v s e a limit) \<noteq> [] \<Longrightarrow>
     length (apply_edit v (plan_dial_edit v s e a limit)) \<le> limit"
  using plan_dial_edit_replacement [of v s e a limit] plan_dial_edit_range [of v s e a limit]
  by (auto simp: apply_edit_length)

lemma plan_dial_edit_append:
  "plan_dial_edit v (length v) (length v) key limit = \<lparr>dp_accepted = fst (dial_append v key limit),
     dp_start = length v, dp_end = length v, dp_replacement = (if fst (dial_append v key limit) then [key] else [])\<rparr>"
  if "key \<noteq> 0" "key \<noteq> 8"
  using that by (auto simp: plan_dial_edit_def dial_append_def Let_def)

section \<open>Properties\<close>

text \<open>C40. The array of recent destinations, with its shifts, erasures and reused slots, behaves after any sequence of
  observations, accepted dials and clears exactly like a most-recently-used list of at most ten entries
  without duplicates that is emptied when the proven session ends or changes: the used part of the array is
  that list, the slots beyond it are erased, tokens are never zero and never used twice, and whatever a menu
  choice puts into the dial field is a destination of that list which the native engine can dial.\<close>

theorem recents_are_mru:
  assumes "r = foldl (recent_op ct) no_recents ops"
  shows "view_of r = foldl (view_op ct) (0, [], 1) ops \<and>
    rec_size r \<le> recent_capacity \<and>
    drop (rec_size r) (rec_entries r) = replicate (recent_capacity - rec_size r) blank_entry \<and>
    distinct (map rd_destination (take (rec_size r) (rec_entries r))) \<and>
    sorted_wrt (\<lambda>a b. rd_token b < rd_token a) (take (rec_size r) (rec_entries r)) \<and>
    (fill_recent_destination field memory written r token observed = (shown, Some text, r') \<longrightarrow>
       valid_context observed \<and> rec_session r = obs_session observed \<and> recent_dialable ct text \<and>
       text \<noteq> [] \<and> length text \<le> 128 \<and>
       \<lparr>rd_token = token, rd_destination = text\<rparr> \<in> set (take (rec_size r) (rec_entries r)))"
proof -
  have run: "recents_ok r" "view_of r = foldl (view_op ct) (0, [], 1) ops"
    unfolding assms using recent_run_ok [of ct ops] by auto
  have fit: "recent_dialable ct (rd_destination e) \<and> rd_destination e \<noteq> [] \<and> length (rd_destination e) \<le> 128"
    if "e \<in> set (take (rec_size r) (rec_entries r))" for e
    using view_run_dialable [of ct ops] run(2) [symmetric] that by (simp add: view_of_def)
  have filled: "valid_context observed \<and> rec_session r = obs_session observed \<and> recent_dialable ct text \<and>
       text \<noteq> [] \<and> length text \<le> 128 \<and>
       \<lparr>rd_token = token, rd_destination = text\<rparr> \<in> set (take (rec_size r) (rec_entries r))"
    if fill: "fill_recent_destination field memory written r token observed = (shown, Some text, r')"
  proof -
    let ?s = "recent_synchronize r observed"
    obtain e where e: "recent_find ?s token observed = Some e" "rd_destination e = text"
      using fill by (auto simp: fill_recent_destination_def Let_def split: option.splits if_splits)
    note found = recent_find_shown [OF e(1)]
    have "rec_size ?s = 0 \<or> ?s = r"
      by (simp add: recent_synchronize_def recent_clear_def)
    then have "?s = r" using found(3) by auto
    then show ?thesis using found e(2) fit [of e] by (cases e) simp
  qed
  show ?thesis using run filled by (simp add: recents_ok_def)
qed

definition recents_observation :: SipRuntimeObservation where
  "recents_observation = default_observation\<lparr>obs_process := RuntimeProcess.Running,
     obs_evidence := SipEvidence.VerifiedNativeApi, obs_session := 7, obs_sip := SipStatus.Registered\<rparr>"

definition recents_run :: "RecentOp list" where
  "recents_run = [Remember True recents_observation (W ''100'') True, Remember True recents_observation (W ''200'') True,
     Remember True recents_observation (W ''100'') True]"

lemma recents_run_view:
  "foldl (view_op c_locale) (0, [], 1) recents_run =
     (7, [\<lparr>rd_token = 3, rd_destination = W ''100''\<rparr>, \<lparr>rd_token = 2, rd_destination = W ''200''\<rparr>], 4)"
  by code_simp

theorem recents_are_mru_witness:
  "view_of (foldl (recent_op c_locale) no_recents recents_run) =
     (7, [\<lparr>rd_token = 3, rd_destination = W ''100''\<rparr>, \<lparr>rd_token = 2, rd_destination = W ''200''\<rparr>], 4)"
  unfolding recents_are_mru [OF refl, THEN conjunct1] by (rule recents_run_view)

end
