(* ===== verification/Audio_Inventory.thy ===== *)
theory Audio_Inventory
  imports Native_Account
begin

text \<open>
  Keeping the list of audio devices current: \<open>audio_inventory_async.h\<close> and \<open>.cpp\<close> (the query
  that runs on a detached thread), \<open>audio_inventory_retry.h\<close> (pacing after a thread could not be
  created), \<open>audio_device_change_signal.h\<close> (the flag a Core Audio callback raises),
  \<open>audio_device_change_policy.h\<close> (when the panel asks again), \<open>audio_routing_preview.h\<close>,
  \<open>audio_panel_selection.h\<close>, \<open>audio_output_preview.h\<close> and the endpoint choice of
  \<open>microphone_test.h\<close>. One mutex guards the shared state of the query, so every method and the
  completion of a probe are one step each; \<open>inventory_run\<close> gives their interleavings.
\<close>

section \<open>The asynchronous query\<close>

text \<open>\<open>State\<close>: the status the snapshot copies, and the result.\<close>

record AudioInventoryAsync =
  ia_generation :: u64
  ia_busy :: bool
  ia_pending :: bool
  ia_ready :: bool
  ia_closed :: bool
  ia_launch_failed :: bool
  ia_result :: AudioInventory

definition default_inventory :: AudioInventory where
  "default_inventory = \<lparr>ai_input_count = 0, ai_output_count = 0, ai_has_default_input = False,
     ai_has_default_output = False, ai_input_devices = [], ai_output_devices = [],
     ai_error = AudioInventoryError.NoInventoryError\<rparr>"

definition new_inventory_async :: AudioInventoryAsync where
  "new_inventory_async = \<lparr>ia_generation = 0, ia_busy = False, ia_pending = False,
     ia_ready = False, ia_closed = False, ia_launch_failed = False,
     ia_result = default_inventory\<rparr>"

definition async_invalidate :: "AudioInventoryAsync \<Rightarrow> bool \<times> AudioInventoryAsync" where
  "async_invalidate s =
     (let s = s\<lparr>ia_pending := False, ia_ready := False, ia_result := default_inventory\<rparr>
      in if ia_generation s = u64_max then (False, s\<lparr>ia_closed := True\<rparr>)
         else (True, s\<lparr>ia_generation := ia_generation s + 1\<rparr>))"

definition async_request :: "AudioInventoryAsync \<Rightarrow> bool \<times> AudioInventoryAsync" where
  "async_request s =
     (if ia_closed s then (False, s)
      else case async_invalidate s of
          (False, s) \<Rightarrow> (False, s)
        | (True, s) \<Rightarrow> (True, s\<lparr>ia_pending := True\<rparr>))"

text \<open>\<open>launched\<close>: whether the constructor of the thread succeeded. The thread captures the
  generation; it is the second component when one was started.\<close>

definition async_start_pending ::
    "bool \<Rightarrow> AudioInventoryAsync \<Rightarrow> bool \<times> u64 option \<times> AudioInventoryAsync" where
  "async_start_pending launched s =
     (if ia_closed s \<or> ia_busy s \<or> \<not> ia_pending s then (False, None, s)
      else if \<not> launched then (False, None, s\<lparr>ia_launch_failed := True\<rparr>)
      else (True, Some (ia_generation s),
            s\<lparr>ia_busy := True, ia_pending := False, ia_launch_failed := False\<rparr>))"

text \<open>The end of the thread that captured \<open>generation\<close>; \<open>None\<close>: the probe threw.\<close>

definition probe_result :: "AudioInventory option \<Rightarrow> AudioInventory" where
  "probe_result probed =
     (case probed of Some i \<Rightarrow> i
      | None \<Rightarrow> default_inventory\<lparr>ai_error := AudioInventoryError.EndpointQueryFailed\<rparr>)"

definition async_complete ::
    "u64 \<Rightarrow> AudioInventory option \<Rightarrow> AudioInventoryAsync \<Rightarrow> AudioInventoryAsync" where
  "async_complete generation probed s =
     (let s = s\<lparr>ia_busy := False\<rparr>
      in if \<not> ia_closed s \<and> ia_generation s = generation
         then s\<lparr>ia_result := probe_result probed, ia_ready := True\<rparr> else s)"

definition async_take :: "AudioInventoryAsync \<Rightarrow> AudioInventory option \<times> AudioInventoryAsync" where
  "async_take s =
     (if ia_closed s \<or> \<not> ia_ready s then (None, s)
      else (Some (ia_result s), s\<lparr>ia_ready := False\<rparr>))"

definition async_cancel :: "AudioInventoryAsync \<Rightarrow> AudioInventoryAsync" where
  "async_cancel s = (if \<not> ia_closed s then snd (async_invalidate s) else s)"

definition async_close :: "AudioInventoryAsync \<Rightarrow> AudioInventoryAsync" where
  "async_close s = (async_cancel s)\<lparr>ia_closed := True\<rparr>"

lemmas async_defs [step_defs] =
  async_invalidate_def async_request_def async_start_pending_def async_complete_def
  async_take_def async_cancel_def async_close_def

section \<open>Its interleavings\<close>

text \<open>What happens, in order; \<open>Completed\<close> is the end of the probe that captured the generation,
  with what it stored in the shared state if it was still wanted.\<close>

datatype InventoryEvent =
    Requested bool
  | Started u64
  | StartRefused
  | Completed u64 "AudioInventory option"
  | Taken AudioInventory
  | NothingTaken
  | Cancelled
  | Closed

text \<open>The state and the generations the threads still running have captured.\<close>

type_synonym inventory_world = "AudioInventoryAsync \<times> u64 list"

inductive inventory_step :: "inventory_world \<Rightarrow> InventoryEvent \<Rightarrow> inventory_world \<Rightarrow> bool" where
  requested: "async_request s = (ok, s') \<Longrightarrow> inventory_step (s, ts) (Requested ok) (s', ts)"
| started: "async_start_pending launched s = (ok, Some g, s') \<Longrightarrow>
    inventory_step (s, ts) (Started g) (s', g # ts)"
| start_refused: "async_start_pending launched s = (ok, None, s') \<Longrightarrow>
    inventory_step (s, ts) StartRefused (s', ts)"
| completed: "g \<in> set ts \<Longrightarrow>
    inventory_step (s, ts) (Completed g probed) (async_complete g probed s, remove1 g ts)"
| taken: "async_take s = (Some i, s') \<Longrightarrow> inventory_step (s, ts) (Taken i) (s', ts)"
| nothing_taken: "async_take s = (None, s') \<Longrightarrow> inventory_step (s, ts) NothingTaken (s', ts)"
| cancelled: "inventory_step (s, ts) Cancelled (async_cancel s, ts)"
| closed: "inventory_step (s, ts) Closed (async_close s, ts)"

inductive_cases inventory_stepE: "inventory_step w e w'"

text \<open>The events so far, the latest first.\<close>

inductive inventory_run :: "InventoryEvent list \<Rightarrow> inventory_world \<Rightarrow> bool" where
  new: "inventory_run [] (new_inventory_async, [])"
| step: "inventory_run es w \<Longrightarrow> inventory_step w e w' \<Longrightarrow> inventory_run (e # es) w'"

text \<open>Events that leave the state of the query alone.\<close>

definition quiet :: "InventoryEvent list \<Rightarrow> bool" where
  "quiet es \<longleftrightarrow> set es \<subseteq> {StartRefused, NothingTaken}"

definition completion :: "InventoryEvent \<Rightarrow> bool" where
  "completion e \<longleftrightarrow> (\<exists>g probed. e = Completed g probed)"

text \<open>The history of a pending request, of a probe that runs for it and of a result that waits:
  a request is followed by the ends of older probes only, a probe and its result by nothing.\<close>

definition asked :: "InventoryEvent list \<Rightarrow> bool" where
  "asked es \<longleftrightarrow> (\<exists>waiting earlier. es = waiting @ Requested True # earlier \<and>
     quiet (filter (\<lambda>e. \<not> completion e) waiting))"

definition probing :: "u64 \<Rightarrow> InventoryEvent list \<Rightarrow> bool" where
  "probing g es \<longleftrightarrow> (\<exists>between earlier. es = between @ Started g # earlier \<and> quiet between \<and> asked earlier)"

definition answered :: "AudioInventory \<Rightarrow> InventoryEvent list \<Rightarrow> bool" where
  "answered i es \<longleftrightarrow> (\<exists>later g probed earlier. es = later @ Completed g probed # earlier \<and> quiet later \<and>
     probing g earlier \<and> i = probe_result probed)"

lemma quiet_Cons [simp]: "quiet (e # es) \<longleftrightarrow> (e = StartRefused \<or> e = NothingTaken) \<and> quiet es"
  by (auto simp: quiet_def)

lemma quiet_Nil [simp]: "quiet []"
  by (simp add: quiet_def)

lemma asked_request [simp]: "asked (Requested True # es)"
  unfolding asked_def by (rule exI [of _ "[]"]) simp

lemma asked_wait: "asked es \<Longrightarrow> quiet [e] \<or> completion e \<Longrightarrow> asked (e # es)"
  unfolding asked_def by (metis append_Cons filter.simps(2) quiet_Cons quiet_Nil)

lemma probing_started: "asked es \<Longrightarrow> probing g (Started g # es)"
  unfolding probing_def by (metis append_Nil quiet_Nil)

lemma probing_wait: "probing g es \<Longrightarrow> quiet [e] \<Longrightarrow> probing g (e # es)"
  unfolding probing_def by (metis append_Cons quiet_Cons)

lemma answered_completed: "probing g es \<Longrightarrow> answered (probe_result p) (Completed g p # es)"
  unfolding answered_def by (metis append_Nil quiet_Nil)

lemma answered_wait: "answered i es \<Longrightarrow> quiet [e] \<Longrightarrow> answered i (e # es)"
  unfolding answered_def by (metis append_Cons quiet_Cons)

lemmas waiting_intros = asked_wait probing_wait answered_wait

definition inventory_inv :: "InventoryEvent list \<Rightarrow> inventory_world \<Rightarrow> bool" where
  "inventory_inv es w \<longleftrightarrow> (case w of (s, ts) \<Rightarrow>
     (if ia_busy s then \<exists>g. ts = [g] else ts = []) \<and>
     (\<forall>g \<in> set ts. g \<le> ia_generation s \<and> (ia_pending s \<longrightarrow> g \<noteq> ia_generation s)) \<and>
     (ia_ready s \<longrightarrow> \<not> ia_busy s \<and> \<not> ia_pending s) \<and>
     (\<not> ia_closed s \<longrightarrow> (ia_pending s \<longrightarrow> asked es) \<and>
        (ia_generation s \<in> set ts \<longrightarrow> probing (ia_generation s) es) \<and>
        (ia_ready s \<longrightarrow> answered (ia_result s) es)))"

lemma older_generation:
  "g \<le> n \<Longrightarrow> n \<noteq> u64_max \<Longrightarrow> g \<le> n + 1 \<and> g \<noteq> n + 1" for g n :: u64
  by (meson le_inc less_le)

lemma inventory_inv_iff [simp]:
  "inventory_inv es (s, ts) \<longleftrightarrow>
     (if ia_busy s then \<exists>g. ts = [g] else ts = []) \<and>
     (\<forall>g \<in> set ts. g \<le> ia_generation s \<and> (ia_pending s \<longrightarrow> g \<noteq> ia_generation s)) \<and>
     (ia_ready s \<longrightarrow> \<not> ia_busy s \<and> \<not> ia_pending s) \<and>
     (\<not> ia_closed s \<longrightarrow> (ia_pending s \<longrightarrow> asked es) \<and>
        (ia_generation s \<in> set ts \<longrightarrow> probing (ia_generation s) es) \<and>
        (ia_ready s \<longrightarrow> answered (ia_result s) es))"
  by (simp add: inventory_inv_def)

lemma async_invalidate_inv:
  assumes "inventory_inv es (s, ts)" "async_invalidate s = (ok, s')"
  shows "inventory_inv es' (s', ts)" "ok \<Longrightarrow> inventory_inv (Requested True # es) (s'\<lparr>ia_pending := True\<rparr>, ts)"
    "\<not> ok \<Longrightarrow> ia_closed s'"
proof -
  have old: "\<forall>g \<in> set ts. g \<le> ia_generation s" using assms(1) by simp
  have "\<forall>g \<in> set ts. g \<le> ia_generation s + 1 \<and> g \<noteq> ia_generation s + 1" if "ia_generation s \<noteq> u64_max"
    using older_generation [OF _ that] old by blast
  then show "inventory_inv es' (s', ts)" "ok \<Longrightarrow> inventory_inv (Requested True # es) (s'\<lparr>ia_pending := True\<rparr>, ts)"
    "\<not> ok \<Longrightarrow> ia_closed s'"
    using assms old by (auto simp: async_invalidate_def Let_def split: if_splits)
qed

lemma inventory_step_inv:
  assumes "inventory_step w e w'" "inventory_inv es w" shows "inventory_inv (e # es) w'"
  using assms
proof cases
  case (requested s ok s' ts)
  show ?thesis
  proof (cases "ia_closed s")
    case True
    then show ?thesis using requested assms(2) by (auto simp: async_request_def)
  next
    case False
    then obtain s1 where i: "async_invalidate s = (ok, s1)"
      and s': "s' = (if ok then s1\<lparr>ia_pending := True\<rparr> else s1)"
      using requested(4) by (auto simp: async_request_def split: prod.splits bool.splits)
    have inv: "inventory_inv es (s, ts)" using assms(2) requested by simp
    show ?thesis
      unfolding requested(1-3) s' using async_invalidate_inv [OF inv i] by (cases ok) simp_all
  qed
next
  case (started launched s ok g s' ts)
  then have f: "\<not> ia_closed s" "\<not> ia_busy s" "ia_pending s" "g = ia_generation s"
      "s' = s\<lparr>ia_busy := True, ia_pending := False, ia_launch_failed := False\<rparr>"
    by (simp_all add: async_start_pending_def split: if_splits)
  have "inventory_inv es (s, ts)" using assms(2) started by simp
  then show ?thesis unfolding started(1-3) f(4,5) using f(1-3) probing_started by simp
next
  case (start_refused launched s ok s' ts)
  have inv: "inventory_inv es (s, ts)" using assms(2) start_refused by simp
  have "s' = s \<or> s' = s\<lparr>ia_launch_failed := True\<rparr>"
    using start_refused(4) by (simp add: async_start_pending_def split: if_splits)
  then show ?thesis unfolding start_refused(1-3) using inv waiting_intros by (elim disjE) simp_all
next
  case (completed g ts s probed)
  have inv: "inventory_inv es (s, ts)" using assms(2) completed by simp
  then have ts: "ts = [g]" "ia_busy s" using completed(4) by (auto split: if_splits)
  show ?thesis
    unfolding completed(1-3) ts async_complete_def Let_def
    using inv waiting_intros answered_completed by (auto simp: ts completion_def)
next
  case (taken s i s' ts)
  have inv: "inventory_inv es (s, ts)" using assms(2) taken by simp
  have s': "s' = s\<lparr>ia_ready := False\<rparr>" "ia_ready s"
    using taken(4) by (simp_all add: async_take_def split: if_splits)
  then show ?thesis unfolding taken(1-3) s'(1) using inv by simp
next
  case (nothing_taken s s' ts)
  have inv: "inventory_inv es (s, ts)" using assms(2) nothing_taken by simp
  have "s' = s" using nothing_taken(4) by (simp add: async_take_def split: if_splits)
  then show ?thesis unfolding nothing_taken(1-3) using inv waiting_intros by simp
next
  case (cancelled s ts)
  have inv: "inventory_inv es (s, ts)" using assms(2) cancelled by simp
  obtain ok s1 where i: "async_invalidate s = (ok, s1)" by fastforce
  show ?thesis
    unfolding cancelled async_cancel_def
    using async_invalidate_inv(1) [OF inv i, where es' = "Cancelled # es"] inv i
    by (cases "ia_closed s") (auto split: if_splits)
next
  case (closed s ts)
  have inv: "inventory_inv es (s, ts)" using assms(2) closed by simp
  obtain ok s1 where i: "async_invalidate s = (ok, s1)" by fastforce
  show ?thesis
    unfolding closed async_close_def async_cancel_def
    using async_invalidate_inv(1) [OF inv i, where es' = "Closed # es"] inv i by (cases "ia_closed s") (auto split: if_splits)
qed

lemma inventory_run_inv: "inventory_run es w \<Longrightarrow> inventory_inv es w"
proof (induction rule: inventory_run.induct)
  case new
  show ?case by (simp add: new_inventory_async_def)
next
  case (step es w e w')
  then show ?case using inventory_step_inv by blast
qed

text \<open>Asking is answered: whatever probe still runs, once it has ended the pending query can be
  started, and what its probe brings can be taken.\<close>

definition sit_out :: "u64 list \<Rightarrow> AudioInventory option \<Rightarrow> AudioInventoryAsync \<Rightarrow> AudioInventoryAsync" where
  "sit_out ts stale s = foldr (\<lambda>g. async_complete g stale) ts s"

lemma request_is_served:
  assumes "inventory_run es (s, ts)" "async_request s = (True, s1)"
    "async_start_pending True (sit_out ts stale s1) = (ok, started, s2)"
  shows "ok \<and> started = Some (ia_generation s1) \<and>
    fst (async_take (async_complete (ia_generation s1) probed s2)) = Some (probe_result probed)"
proof -
  have inv: "inventory_inv es (s, ts)" by (rule inventory_run_inv [OF assms(1)])
  obtain s0 where s0: "\<not> ia_closed s" "async_invalidate s = (True, s0)" "s1 = s0\<lparr>ia_pending := True\<rparr>"
    using assms(2) by (auto simp: async_request_def split: if_splits prod.splits bool.splits)
  have "inventory_inv (Requested True # es) (s1, ts)" using async_invalidate_inv(2) [OF inv s0(2)] s0(3) by simp
  moreover have "\<not> ia_closed s1" "ia_pending s1"
    using s0 by (auto simp: async_invalidate_def Let_def split: if_splits)
  ultimately have "sit_out ts stale s1 = s1\<lparr>ia_busy := False\<rparr>"
    by (cases "ia_busy s1") (auto simp: sit_out_def async_complete_def Let_def)
  then show ?thesis
    using assms(3) \<open>\<not> ia_closed s1\<close> \<open>ia_pending s1\<close>
    by (auto simp: async_start_pending_def async_complete_def async_take_def Let_def)
qed

section \<open>Retrying and the change flag\<close>

definition saturating_deadline :: "u64 \<Rightarrow> u64 \<Rightarrow> u64" where
  "saturating_deadline now delay = (if now > u64_max - delay then u64_max else now + delay)"

text \<open>\<open>AudioInventoryRetry\<close>: its one member, the deadline.\<close>

definition retry_ready :: "u64 \<Rightarrow> u64 \<Rightarrow> bool" where
  "retry_ready deadline_ms now_ms \<longleftrightarrow> now_ms \<ge> deadline_ms"

definition retry_failed :: "u64 \<Rightarrow> u64 \<Rightarrow> u64" where
  "retry_failed deadline_ms now_ms =
     (let deadline = saturating_deadline now_ms 1000
      in if deadline > deadline_ms then deadline else deadline_ms)"

definition retry_reset :: "u64 \<Rightarrow> u64" where
  "retry_reset deadline_ms = 0"

text \<open>\<open>AudioDeviceChangeSignal\<close>: one atomic variable.\<close>

datatype ChangeSignal = Clean | Dirty | SignalClosed

definition signal_notify :: "ChangeSignal \<Rightarrow> ChangeSignal" where
  "signal_notify s = (if s = Clean then Dirty else s)"

definition signal_take :: "ChangeSignal \<Rightarrow> bool \<times> ChangeSignal" where
  "signal_take s = (if s = Dirty then (True, Clean) else (False, s))"

definition signal_close :: "ChangeSignal \<Rightarrow> ChangeSignal" where
  "signal_close s = SignalClosed"

lemmas signal_defs = signal_notify_def signal_take_def signal_close_def

lemma closing_is_final:
  "signal_notify SignalClosed = SignalClosed" "signal_take SignalClosed = (False, SignalClosed)"
  "signal_close SignalClosed = SignalClosed"
  by (simp_all add: signal_defs)

lemma notification_taken_once:
  "s \<noteq> SignalClosed \<Longrightarrow> signal_take (signal_notify s) = (True, Clean)" "signal_take Clean = (False, Clean)"
  by (cases s; simp add: signal_defs)+

section \<open>When the panel asks again\<close>

definition is_audio_device_change :: "u64 \<Rightarrow> bool" where
  "is_audio_device_change kind \<longleftrightarrow> kind = 0x8000 \<or> kind = 0x8004 \<or> kind = 0x0007 \<or> kind = 0x0018"

record AudioDeviceChangePolicy =
  cp_active :: bool
  cp_dirty :: bool
  cp_last_ms :: u64
  cp_dirty_ms :: u64
  cp_periodic_ms :: u64

definition new_change_policy :: AudioDeviceChangePolicy where
  "new_change_policy = \<lparr>cp_active = False, cp_dirty = False, cp_last_ms = 0, cp_dirty_ms = 0,
     cp_periodic_ms = 0\<rparr>"

definition policy_enter :: "AudioDeviceChangePolicy \<Rightarrow> u64 \<Rightarrow> AudioDeviceChangePolicy" where
  "policy_enter p now_ms = p\<lparr>cp_active := True, cp_dirty := False, cp_last_ms := now_ms,
     cp_periodic_ms := saturating_deadline now_ms 5000\<rparr>"

definition policy_leave :: "AudioDeviceChangePolicy \<Rightarrow> AudioDeviceChangePolicy" where
  "policy_leave p = p\<lparr>cp_active := False, cp_dirty := False\<rparr>"

definition policy_observe :: "AudioDeviceChangePolicy \<Rightarrow> u64 \<Rightarrow> AudioDeviceChangePolicy" where
  "policy_observe p now_ms = (if now_ms > cp_last_ms p then p\<lparr>cp_last_ms := now_ms\<rparr> else p)"

definition policy_changed :: "AudioDeviceChangePolicy \<Rightarrow> u64 \<Rightarrow> AudioDeviceChangePolicy" where
  "policy_changed p now_ms =
     (if \<not> cp_active p then p
      else (let p = policy_observe (p\<lparr>cp_dirty := True\<rparr>) now_ms
            in p\<lparr>cp_dirty_ms := saturating_deadline (cp_last_ms p) 250\<rparr>))"

definition policy_should_refresh :: "AudioDeviceChangePolicy \<Rightarrow> u64 \<Rightarrow> bool \<Rightarrow> bool" where
  "policy_should_refresh p now_ms dropdown_open \<longleftrightarrow>
     cp_active p \<and> \<not> dropdown_open \<and>
     (cp_dirty p \<and> now_ms \<ge> cp_dirty_ms p \<or> now_ms \<ge> cp_periodic_ms p)"

definition policy_completed :: "AudioDeviceChangePolicy \<Rightarrow> u64 \<Rightarrow> AudioDeviceChangePolicy" where
  "policy_completed p now_ms =
     (if \<not> cp_active p then p
      else (let p = policy_observe p now_ms
            in p\<lparr>cp_periodic_ms := saturating_deadline (cp_last_ms p) 5000\<rparr>))"

definition policy_refreshed :: "AudioDeviceChangePolicy \<Rightarrow> u64 \<Rightarrow> AudioDeviceChangePolicy" where
  "policy_refreshed p now_ms =
     (if \<not> cp_active p then p
      else (let p = policy_observe (p\<lparr>cp_dirty := False\<rparr>) now_ms
            in p\<lparr>cp_periodic_ms := saturating_deadline (cp_last_ms p) 5000\<rparr>))"

definition audio_device_refresh_due ::
    "AudioDeviceChangePolicy \<Rightarrow> u64 \<Rightarrow> bool \<Rightarrow> AudioInventoryAsync \<Rightarrow> bool" where
  "audio_device_refresh_due p now_ms dropdown_open inventory \<longleftrightarrow>
     \<not> ia_closed inventory \<and> \<not> ia_busy inventory \<and> \<not> ia_pending inventory \<and> \<not> ia_ready inventory \<and>
     policy_should_refresh p now_ms dropdown_open"

lemmas policy_ops [step_defs] =
  policy_enter_def policy_leave_def policy_observe_def policy_changed_def policy_completed_def
  policy_refreshed_def

datatype PolicyOp = Enter u64 | Leave | Changed u64 | CompletedAt u64 | Refreshed u64

fun policy_op :: "AudioDeviceChangePolicy \<Rightarrow> PolicyOp \<Rightarrow> AudioDeviceChangePolicy" where
  "policy_op p (Enter t) = policy_enter p t"
| "policy_op p Leave = policy_leave p"
| "policy_op p (Changed t) = policy_changed p t"
| "policy_op p (CompletedAt t) = policy_completed p t"
| "policy_op p (Refreshed t) = policy_refreshed p t"

definition policy_run :: "PolicyOp list \<Rightarrow> AudioDeviceChangePolicy" where
  "policy_run ops = foldl policy_op new_change_policy ops"

lemma unat_u64_bound: "unat t \<le> 2 ^ 64 - 1" for t :: u64
proof -
  have "unat t < 2 ^ LENGTH(64)" by (rule unsigned_less)
  then show ?thesis by simp
qed

lemma unat_saturating:
  "unat (saturating_deadline now delay) = min (2 ^ 64 - 1) (unat now + unat delay)"
proof -
  have d: "unat (u64_max - delay) = 2 ^ 64 - 1 - unat delay"
    using unat_sub [of delay u64_max] by (simp add: unat_u64_max)
  show ?thesis
  proof (cases "now > u64_max - delay")
    case True
    then have "2 ^ 64 - 1 - unat delay < unat now" using d by (simp add: word_less_nat_alt)
    then show ?thesis using True by (simp add: saturating_deadline_def unat_u64_max)
  next
    case False
    then have "unat now + unat delay \<le> 2 ^ 64 - 1"
      using d unat_u64_bound [of delay] by (simp add: not_less word_le_nat_alt)
    then show ?thesis using False
      by (simp add: saturating_deadline_def unat_word_ariths(1))
  qed
qed

lemma saturating_mono: "t \<le> u \<Longrightarrow> saturating_deadline t d \<le> saturating_deadline u d"
  by (simp add: word_le_nat_alt unat_saturating)

lemma saturating_ge: "t \<le> saturating_deadline t d"
  using unat_u64_bound [of t] by (simp add: word_le_nat_alt unat_saturating)

definition policy_inv :: "AudioDeviceChangePolicy \<Rightarrow> bool" where
  "policy_inv p \<longleftrightarrow> cp_active p \<longrightarrow>
     cp_periodic_ms p \<le> saturating_deadline (cp_last_ms p) 5000 \<and>
     (cp_dirty p \<longrightarrow> cp_dirty_ms p \<le> saturating_deadline (cp_last_ms p) 250)"

lemma last_observed: "cp_last_ms (policy_observe p t) = max (cp_last_ms p) t"
  by (auto simp: policy_observe_def max_def)

lemma observe_fields [simp]:
  "cp_active (policy_observe p t) = cp_active p" "cp_dirty (policy_observe p t) = cp_dirty p"
  "cp_dirty_ms (policy_observe p t) = cp_dirty_ms p"
  "cp_periodic_ms (policy_observe p t) = cp_periodic_ms p"
  by (simp_all add: policy_observe_def)

text \<open>What an operation between opening and leaving the panel changes.\<close>

lemma policy_op_fields:
  assumes "cp_active p"
  shows "cp_active (policy_op p (Changed t)) \<and> cp_dirty (policy_op p (Changed t)) \<and>
      cp_last_ms (policy_op p (Changed t)) = max (cp_last_ms p) t \<and>
      cp_dirty_ms (policy_op p (Changed t)) = saturating_deadline (max (cp_last_ms p) t) 250 \<and>
      cp_periodic_ms (policy_op p (Changed t)) = cp_periodic_ms p"
    and "cp_active (policy_op p (CompletedAt t)) \<and> cp_dirty (policy_op p (CompletedAt t)) = cp_dirty p \<and>
      cp_last_ms (policy_op p (CompletedAt t)) = max (cp_last_ms p) t \<and>
      cp_dirty_ms (policy_op p (CompletedAt t)) = cp_dirty_ms p \<and>
      cp_periodic_ms (policy_op p (CompletedAt t)) = saturating_deadline (max (cp_last_ms p) t) 5000"
    and "cp_active (policy_op p (Refreshed t)) \<and> \<not> cp_dirty (policy_op p (Refreshed t)) \<and>
      cp_last_ms (policy_op p (Refreshed t)) = max (cp_last_ms p) t \<and>
      cp_periodic_ms (policy_op p (Refreshed t)) = saturating_deadline (max (cp_last_ms p) t) 5000"
  using assms
  by (simp_all add: policy_changed_def policy_completed_def policy_refreshed_def Let_def last_observed)

lemma policy_op_inv: "policy_inv p \<Longrightarrow> policy_inv (policy_op p e)"
  using saturating_mono [of "cp_last_ms p" _ 5000] saturating_mono [of "cp_last_ms p" _ 250]
  by (cases e) (auto simp: policy_inv_def policy_ops Let_def intro: order_trans)

lemma policy_run_inv: "policy_inv (policy_run ops)"
proof (induction ops rule: rev_induct)
  case Nil
  show ?case by (simp add: policy_run_def policy_inv_def new_change_policy_def)
next
  case (snoc e ops)
  then show ?case by (simp add: policy_run_def policy_op_inv)
qed

section \<open>Choosing devices\<close>

definition no_selection :: AudioSelectionRefresh where
  "no_selection = \<lparr>as_index = -1, as_selected_id = [], as_replaced = False\<rparr>"

definition refresh_ringtone_selection :: "AudioEndpoint list \<Rightarrow> wstr \<Rightarrow> AudioSelectionRefresh" where
  "refresh_ringtone_selection outputs previous_id =
     (if outputs = [] then no_selection
      else let index = (case (if previous_id \<noteq> [] then first_index (\<lambda>d. ae_id d = previous_id) outputs
                              else None) of
                  Some i \<Rightarrow> int i
                | None \<Rightarrow> (case first_index ae_default_multimedia outputs of
                      Some i \<Rightarrow> int i
                    | None \<Rightarrow> preferred_audio_endpoint_index outputs []))
           in if index < 0 then no_selection
              else let chosen = outputs ! nat index in
                \<lparr>as_index = index, as_selected_id = ae_id chosen,
                 as_replaced = (previous_id \<noteq> [] \<and> previous_id \<noteq> ae_id chosen)\<rparr>)"

record AudioRoutingPreview =
  rp_microphone :: AudioSelectionRefresh
  rp_call_output :: AudioSelectionRefresh
  rp_ringtone_output :: AudioSelectionRefresh

definition ready_to_preview :: "AudioRoutingPreview \<Rightarrow> bool" where
  "ready_to_preview p \<longleftrightarrow> selection_available (rp_microphone p) \<and>
     selection_available (rp_call_output p) \<and> selection_available (rp_ringtone_output p)"

definition separate_outputs :: "AudioRoutingPreview \<Rightarrow> bool" where
  "separate_outputs p \<longleftrightarrow> selection_available (rp_call_output p) \<and>
     selection_available (rp_ringtone_output p) \<and>
     as_selected_id (rp_call_output p) \<noteq> as_selected_id (rp_ringtone_output p)"

definition preview_audio_routing ::
    "AudioEndpoint list \<Rightarrow> AudioEndpoint list \<Rightarrow> wstr \<Rightarrow> wstr \<Rightarrow> wstr \<Rightarrow> AudioRoutingPreview" where
  "preview_audio_routing inputs outputs microphone call_output ringtone_output =
     \<lparr>rp_microphone = refresh_audio_selection inputs microphone,
      rp_call_output = refresh_audio_selection outputs call_output,
      rp_ringtone_output = refresh_ringtone_selection outputs ringtone_output\<rparr>"

definition audio_routing_preview_feedback :: "AudioRoutingPreview \<Rightarrow> string" where
  "audio_routing_preview_feedback p =
     (if \<not> selection_available (rp_microphone p)
      then ''Microfone indisponivel; preferencias locais. Sem audio SIP.''
      else if \<not> selection_available (rp_call_output p)
      then ''Saida da conversa indisponivel; sem audio SIP.''
      else if \<not> selection_available (rp_ringtone_output p)
      then ''Saida do toque indisponivel; sem audio SIP.''
      else if separate_outputs p
      then ''Toque e conversa em saidas diferentes; somente pre-visualizacao, sem audio SIP.''
      else ''Toque e conversa na mesma saida; somente pre-visualizacao, sem audio SIP.'')"

record AudioPanelSelection =
  ps_input_id :: wstr
  ps_output_id :: wstr
  ps_ringtone_id :: wstr

definition reconcile_audio_panel ::
    "AudioPanelSelection \<Rightarrow> AudioInventory \<Rightarrow> bool \<Rightarrow> AudioPanelSelection" where
  "reconcile_audio_panel previous inventory native_routes =
     (if ai_error inventory \<noteq> AudioInventoryError.NoInventoryError \<or> native_routes then previous
      else \<lparr>ps_input_id = as_selected_id (refresh_audio_selection (ai_input_devices inventory) (ps_input_id previous)),
            ps_output_id = as_selected_id (refresh_audio_selection (ai_output_devices inventory) (ps_output_id previous)),
            ps_ringtone_id = as_selected_id (refresh_ringtone_selection (ai_output_devices inventory) (ps_ringtone_id previous))\<rparr>)"

datatype AudioOutputPreviewRole = Conversation | Ringtone

definition audio_output_preview_endpoint ::
    "AudioEndpoint list \<Rightarrow> wstr \<Rightarrow> bool \<Rightarrow> AudioOutputPreviewRole \<Rightarrow> wstr option" where
  "audio_output_preview_endpoint outputs selected_id follow_windows_default role =
     (if follow_windows_default \<and> selected_id = []
      then map_option ae_id (find (\<lambda>e. ae_id e \<noteq> [] \<and>
             (if role = Conversation then ae_default_communications e else ae_default_multimedia e)) outputs)
      else if selected_id = [] then None
      else map_option ae_id (find (\<lambda>e. ae_id e = selected_id) outputs))"

definition microphone_test_endpoint :: "AudioEndpoint list \<Rightarrow> wstr \<Rightarrow> bool \<Rightarrow> wstr option" where
  "microphone_test_endpoint inputs selected_id follow_windows_default =
     (if selected_id = [] \<and> follow_windows_default
      then map_option ae_id (find (\<lambda>d. ae_default_communications d \<and> ae_id d \<noteq> []) inputs)
      else if selected_id = [] then None
      else map_option ae_id (find (\<lambda>d. ae_id d \<noteq> [] \<and> ae_id d = selected_id) inputs))"

lemma first_index_Some: "first_index P xs = Some i \<Longrightarrow> i < length xs \<and> P (xs ! i)"
  by (induction xs arbitrary: i) (auto split: if_splits)

lemma preferred_index_range:
  "outputs \<noteq> [] \<Longrightarrow> 0 \<le> preferred_audio_endpoint_index outputs i \<and>
     nat (preferred_audio_endpoint_index outputs i) < length outputs"
  by (auto simp: preferred_audio_endpoint_index_def dest: first_index_Some split: option.splits)

lemma preferred_index_keeps:
  assumes "i \<noteq> []" "d \<in> set devices" "ae_id d = i"
  shows "ae_id (devices ! nat (preferred_audio_endpoint_index devices i)) = i"
proof -
  have "first_index (\<lambda>d. ae_id d = i) devices \<noteq> None"
    using assms(2,3) by (induction devices) auto
  then obtain n where "first_index (\<lambda>d. ae_id d = i) devices = Some n" by blast
  with first_index_Some [OF this] assms show ?thesis
    by (auto simp: preferred_audio_endpoint_index_def)
qed

text \<open>A test tone or a microphone test never goes to a device the user did not mean: the endpoint is
  in the inventory and is the chosen one, or, when the Windows default is followed, a default.\<close>

lemma test_endpoint_sound:
  "audio_output_preview_endpoint outputs i follow role = Some e \<Longrightarrow>
     \<exists>d \<in> set outputs. ae_id d = e \<and> e \<noteq> [] \<and> (i \<noteq> [] \<longrightarrow> e = i) \<and>
       (i = [] \<longrightarrow> follow \<and> (if role = Conversation then ae_default_communications d else ae_default_multimedia d))"
  "microphone_test_endpoint inputs i follow = Some e \<Longrightarrow>
     \<exists>d \<in> set inputs. ae_id d = e \<and> e \<noteq> [] \<and> (i \<noteq> [] \<longrightarrow> e = i) \<and>
       (i = [] \<longrightarrow> follow \<and> ae_default_communications d)"
  by (auto simp: audio_output_preview_endpoint_def microphone_test_endpoint_def find_Some_iff
      split: if_splits)

section \<open>Properties\<close>

text \<open>
  C31. The device list shown is fresh. Whatever the interleaving of requests, cancellations, thread
  starts and probe ends, an inventory that is taken was brought by a probe that was started after the
  last request for it; between that request and the taking nobody requested, cancelled or closed, no
  other probe was started, and only older probes ended while the request waited. It is taken once,
  and at most one probe runs at a time.
\<close>

theorem taken_inventory_is_fresh:
  assumes "inventory_run (Taken i # es) w"
  shows "\<exists>later g probed between waiting earlier.
      es = later @ Completed g probed # between @ Started g # waiting @ Requested True # earlier \<and>
      i = probe_result probed \<and> set later \<union> set between \<subseteq> {StartRefused, NothingTaken} \<and>
      set (filter (\<lambda>e. \<not> completion e) waiting) \<subseteq> {StartRefused, NothingTaken} \<and> length (snd w) \<le> 1"
proof -
  obtain w0 where run: "inventory_run es w0" "inventory_step w0 (Taken i) w"
    using assms by (cases rule: inventory_run.cases) auto
  obtain s ts s' where w0: "w0 = (s, ts)" "w = (s', ts)" and take: "async_take s = (Some i, s')"
    using run(2) by (auto elim: inventory_stepE)
  have "answered i es" "length ts \<le> 1"
    using inventory_run_inv [OF run(1)] take w0 by (auto simp: async_take_def split: if_splits)
  then show ?thesis
    unfolding answered_def probing_def asked_def quiet_def w0 by fastforce
qed

definition sample_inventory :: AudioInventory where
  "sample_inventory = default_inventory\<lparr>ai_input_count := 1\<rparr>"

theorem taken_inventory_is_fresh_witness:
  "\<exists>later g probed between. Completed 1 (Some sample_inventory) # [Started 1, Requested True] =
     later @ Completed g probed # between \<and> probe_result probed = sample_inventory"
proof -
  let ?s1 = "new_inventory_async\<lparr>ia_generation := 1, ia_pending := True\<rparr>"
  let ?s2 = "new_inventory_async\<lparr>ia_generation := 1, ia_busy := True\<rparr>"
  let ?s3 = "new_inventory_async\<lparr>ia_generation := 1, ia_result := sample_inventory, ia_ready := True\<rparr>"
  have a: "inventory_step (new_inventory_async, []) (Requested True) (?s1, [])"
    by (rule inventory_step.requested) (simp add: async_defs new_inventory_async_def)
  have b: "inventory_step (?s1, []) (Started 1) (?s2, [1])"
    by (rule inventory_step.started [of True _ True]) (simp add: async_defs new_inventory_async_def)
  have "async_complete 1 (Some sample_inventory) ?s2 = ?s3"
    by (simp add: async_defs new_inventory_async_def probe_result_def)
  then have c: "inventory_step (?s2, [1]) (Completed 1 (Some sample_inventory)) (?s3, [])"
    using inventory_step.completed [of 1 "[1]" ?s2 "Some sample_inventory"] by simp
  have d: "inventory_step (?s3, []) (Taken sample_inventory) (?s3\<lparr>ia_ready := False\<rparr>, [])"
    by (rule inventory_step.taken) (simp add: async_defs new_inventory_async_def)
  note run = inventory_run.step [OF inventory_run.step [OF inventory_run.step
    [OF inventory_run.step [OF inventory_run.new a] b] c] d]
  from taken_inventory_is_fresh [OF run] show ?thesis by metis
qed

text \<open>
  A clock that jumps back never hurries the panel. In every state the change policy reaches while
  the panel is open, a refresh is due by itself at most five seconds after the latest time seen and
  within 250 ms of it after a device change; a change, a completion or a refresh keeps the latest
  time and moves a deadline that stands only forward, and all of this without wrapping at 2^64.
\<close>

theorem refresh_deadlines_bounded:
  "let p = policy_run ops in cp_active p \<longrightarrow>
     unat (cp_periodic_ms p) \<le> min (2 ^ 64 - 1) (unat (cp_last_ms p) + 5000) \<and>
     (cp_dirty p \<longrightarrow> unat (cp_dirty_ms p) \<le> min (2 ^ 64 - 1) (unat (cp_last_ms p) + 250)) \<and>
     (\<forall>e t p'. e \<in> {Changed t, CompletedAt t, Refreshed t} \<and> p' = policy_op p e \<longrightarrow>
        cp_active p' \<and> cp_last_ms p' = max (cp_last_ms p) t \<and> cp_periodic_ms p \<le> cp_periodic_ms p' \<and>
        (cp_dirty p \<and> cp_dirty p' \<longrightarrow> cp_dirty_ms p \<le> cp_dirty_ms p') \<and>
        (cp_dirty p' \<longleftrightarrow> e = Changed t \<or> cp_dirty p \<and> e = CompletedAt t))"
proof -
  define p where "p = policy_run ops"
  have inv: "policy_inv p" unfolding p_def by (rule policy_run_inv)
  have mono: "saturating_deadline (cp_last_ms p) d \<le> saturating_deadline (max (cp_last_ms p) t) d" for t d
    by (rule saturating_mono) simp
  have ops: "cp_active p' \<and> cp_last_ms p' = max (cp_last_ms p) t \<and> cp_periodic_ms p \<le> cp_periodic_ms p' \<and>
        (cp_dirty p \<and> cp_dirty p' \<longrightarrow> cp_dirty_ms p \<le> cp_dirty_ms p') \<and>
        (cp_dirty p' \<longleftrightarrow> e = Changed t \<or> cp_dirty p \<and> e = CompletedAt t)"
    if "cp_active p" "e \<in> {Changed t, CompletedAt t, Refreshed t}" "p' = policy_op p e" for e t p'
  proof -
    have old: "cp_periodic_ms p \<le> saturating_deadline (max (cp_last_ms p) t) 5000"
      "cp_dirty p \<Longrightarrow> cp_dirty_ms p \<le> saturating_deadline (max (cp_last_ms p) t) 250"
      using inv that(1) mono [of 5000 t] mono [of 250 t] by (auto simp: policy_inv_def)
    show ?thesis
      using that(2,3) old policy_op_fields [OF that(1), of t] by (elim insertE emptyE) simp_all
  qed
  have "cp_active p \<Longrightarrow> unat (cp_periodic_ms p) \<le> min (2 ^ 64 - 1) (unat (cp_last_ms p) + 5000) \<and>
     (cp_dirty p \<longrightarrow> unat (cp_dirty_ms p) \<le> min (2 ^ 64 - 1) (unat (cp_last_ms p) + 250))"
    using inv by (simp add: policy_inv_def word_le_nat_alt unat_saturating)
  then show ?thesis unfolding Let_def p_def [symmetric] using ops by blast
qed

theorem refresh_deadlines_bounded_witness:
  "cp_active (policy_run [Enter 10, Changed 5]) \<and>
     unat (cp_periodic_ms (policy_run [Enter 10, Changed 5])) \<le> 5010"
proof -
  have a: "cp_active (policy_run [Enter 10, Changed 5])" "cp_last_ms (policy_run [Enter 10, Changed 5]) = 10"
    by (simp_all add: policy_run_def new_change_policy_def policy_ops)
  then show ?thesis using refresh_deadlines_bounded [of "[Enter 10, Changed 5]"] by (simp add: Let_def)
qed

end
