(* ===== verification/Incoming_Ringtone.thy ===== *)
theory Incoming_Ringtone
  imports Audio_Inventory
begin

text \<open>
  The incoming-call ringtone: \<open>incoming_ringtone_policy.h\<close> (which call may ring, and the silencing of
  one call), \<open>incoming_ringtone_player.h\<close> and \<open>.cpp\<close> (a worker thread that renders the current
  request again and again), and the GUI code of \<open>main.cpp\<close> that feeds the policy's answer to the
  player on every timer tick. One mutex guards the player; its worker gives it up while it waits on
  the condition variable and while it renders. \<open>worker_step\<close> is the worker's next critical section,
  \<open>ring_run\<close> the interleavings of the GUI thread with it. A wait is a step that is enabled when its
  predicate holds; the wait of the gap may also end by time, so it is always enabled.
\<close>

section \<open>Requests and the policy\<close>

datatype TonePreviewState =
  Idle | Playing | Played | MissingDevice | UnsupportedFormat | Failed | Cancelled

record IncomingRingtoneRequest =
  rr_session :: u64
  rr_call_id :: u64
  rr_endpoint :: wstr

definition no_ring :: IncomingRingtoneRequest where
  "no_ring = \<lparr>rr_session = 0, rr_call_id = 0, rr_endpoint = []\<rparr>"

definition ring_active :: "IncomingRingtoneRequest \<Rightarrow> bool" where
  "ring_active r \<longleftrightarrow> rr_session r \<noteq> 0 \<and> rr_call_id r \<noteq> 0"

definition valid_ringtone_endpoint :: "wstr \<Rightarrow> bool" where
  "valid_ringtone_endpoint i \<longleftrightarrow> length i \<le> 4096 \<and> 0 \<notin> set i"

definition verified_incoming_call :: "SipRuntimeObservation \<Rightarrow> bool" where
  "verified_incoming_call call \<longleftrightarrow>
     obs_call_id call \<noteq> 0 \<and> obs_sip call = SipStatus.Ringing \<and> sip_proof_is_current call (obs_session call)"

record IncomingRingtonePolicy =
  rpol_silenced_session :: u64
  rpol_silenced_call :: u64

definition new_ring_policy :: IncomingRingtonePolicy where
  "new_ring_policy = \<lparr>rpol_silenced_session = 0, rpol_silenced_call = 0\<rparr>"

definition ring_request ::
    "IncomingRingtonePolicy \<Rightarrow> SipRuntimeObservation \<Rightarrow> wstr \<Rightarrow> bool \<Rightarrow> bool \<Rightarrow> IncomingRingtoneRequest" where
  "ring_request policy call i preview_playing sound_muted =
     (if sound_muted \<or> preview_playing \<or> \<not> verified_incoming_call call \<or> \<not> valid_ringtone_endpoint i \<or>
         obs_session call = rpol_silenced_session policy \<and> obs_call_id call = rpol_silenced_call policy
      then no_ring
      else \<lparr>rr_session = obs_session call, rr_call_id = obs_call_id call, rr_endpoint = i\<rparr>)"

definition ring_silence :: "IncomingRingtonePolicy \<Rightarrow> SipRuntimeObservation \<Rightarrow> IncomingRingtonePolicy" where
  "ring_silence policy call =
     (if verified_incoming_call call
      then policy\<lparr>rpol_silenced_session := obs_session call, rpol_silenced_call := obs_call_id call\<rparr>
      else policy)"

definition fixed_native_ringtone_selection :: "AudioEndpoint list \<Rightarrow> wstr \<Rightarrow> AudioSelectionRefresh" where
  "fixed_native_ringtone_selection outputs i =
     (case first_index (\<lambda>d. if i = [] then ae_default_multimedia d else ae_id d = i) outputs of
        Some n \<Rightarrow> \<lparr>as_index = int n, as_selected_id = i, as_replaced = False\<rparr>
      | None \<Rightarrow> \<lparr>as_index = -1, as_selected_id = i, as_replaced = False\<rparr>)"

section \<open>The player\<close>

record IncomingRingtonePlayer =
  rg_request :: IncomingRingtoneRequest
  rg_result :: TonePreviewState
  rg_generation :: u64
  rg_closed :: bool
  rg_rendering :: bool
  rg_cancel :: bool
  rg_joinable :: bool

definition new_ring_player :: IncomingRingtonePlayer where
  "new_ring_player = \<lparr>rg_request = no_ring, rg_result = TonePreviewState.Idle, rg_generation = 0,
     rg_closed = False, rg_rendering = False, rg_cancel = True, rg_joinable = False\<rparr>"

definition ring_invalid :: "IncomingRingtoneRequest \<Rightarrow> bool" where
  "ring_invalid input \<longleftrightarrow> (rr_session input \<noteq> 0) \<noteq> (rr_call_id input \<noteq> 0) \<or>
     \<not> valid_ringtone_endpoint (rr_endpoint input)"

definition ring_next :: "IncomingRingtoneRequest \<Rightarrow> IncomingRingtoneRequest" where
  "ring_next input = (if ring_invalid input \<or> \<not> ring_active input then no_ring else input)"

text \<open>\<open>created\<close>: whether a thread can be created. The results are the return value and whether the
  worker thread was started now.\<close>

definition ring_synchronize ::
    "bool \<Rightarrow> IncomingRingtonePlayer \<Rightarrow> IncomingRingtoneRequest \<Rightarrow>
     bool \<times> bool \<times> IncomingRingtonePlayer" where
  "ring_synchronize created p input =
     (let invalid = ring_invalid input; nxt = ring_next input
      in if rg_closed p then (False, False, p)
         else if rg_request p = nxt then (\<not> invalid, False, p)
         else (let p = p\<lparr>rg_cancel := True\<rparr>
               in if rg_generation p = u64_max
                  then (False, False,
                        p\<lparr>rg_closed := True, rg_request := no_ring, rg_result := TonePreviewState.Failed\<rparr>)
                  else (let p = p\<lparr>rg_generation := rg_generation p + 1, rg_request := nxt,
                              rg_result := (if ring_active nxt then TonePreviewState.Playing
                                            else TonePreviewState.Idle)\<rparr>
                        in if ring_active nxt \<and> \<not> rg_joinable p
                           then (if created then (\<not> invalid, True, p\<lparr>rg_joinable := True\<rparr>)
                                 else (False, False,
                                       p\<lparr>rg_request := no_ring, rg_result := TonePreviewState.Failed\<rparr>))
                           else (\<not> invalid, False, p))))"

definition ring_stop :: "IncomingRingtonePlayer \<Rightarrow> IncomingRingtonePlayer" where
  "ring_stop p = snd (snd (ring_synchronize True p no_ring))"

text \<open>\<open>shutdown\<close> on another thread than the worker: the critical section, then the join.\<close>

definition ring_closing :: "IncomingRingtonePlayer \<Rightarrow> IncomingRingtonePlayer" where
  "ring_closing p = p\<lparr>rg_closed := True, rg_cancel := True, rg_request := no_ring,
     rg_result := TonePreviewState.Idle\<rparr>"

definition ring_busy :: "IncomingRingtonePlayer \<Rightarrow> bool" where
  "ring_busy p \<longleftrightarrow> ring_active (rg_request p) \<or> rg_rendering p"

section \<open>The worker\<close>

text \<open>Where the worker thread is: not started, at the wait for a request, inside \<open>render_\<close> with the
  generation and request it captured, in the gap after it, returned.\<close>

datatype RingWorker =
    NoWorker
  | AtWait
  | InRender u64 IncomingRingtoneRequest
  | InGap u64
  | Returned

text \<open>The next critical section of the worker; \<open>None\<close>: it waits, or there is no thread. \<open>copied\<close>:
  whether the request could be copied; \<open>rendered\<close>: what \<open>render_\<close> returned, \<open>None\<close> if it threw.\<close>

definition worker_step ::
    "bool \<Rightarrow> TonePreviewState option \<Rightarrow> IncomingRingtonePlayer \<times> RingWorker \<Rightarrow>
     (IncomingRingtonePlayer \<times> RingWorker) option" where
  "worker_step copied rendered pw =
     (case pw of (p, w) \<Rightarrow>
       (case w of
          NoWorker \<Rightarrow> None
        | Returned \<Rightarrow> None
        | AtWait \<Rightarrow>
            (if rg_closed p then Some (p, Returned)
             else if \<not> ring_active (rg_request p) then None
             else if \<not> copied
             then Some (p\<lparr>rg_result := TonePreviewState.Failed\<rparr>, InGap (rg_generation p))
             else Some (p\<lparr>rg_cancel := False, rg_rendering := True\<rparr>,
                        InRender (rg_generation p) (rg_request p)))
        | InRender g q \<Rightarrow>
            (let result = (case rendered of Some r \<Rightarrow> r | None \<Rightarrow> TonePreviewState.Failed);
                 p = p\<lparr>rg_rendering := False\<rparr>
             in Some (if g = rg_generation p \<and> \<not> rg_closed p then p\<lparr>rg_result := result\<rparr> else p, InGap g))
        | InGap g \<Rightarrow> Some (p, if rg_closed p then Returned else AtWait)))"

section \<open>Interleavings with the GUI thread\<close>

datatype RingEvent =
    Tick SipRuntimeObservation wstr bool bool
  | Acknowledge SipRuntimeObservation
  | StopRing
  | Shutdown
  | Joined
  | Worker

type_synonym ring_world = "IncomingRingtonePolicy \<times> IncomingRingtonePlayer \<times> RingWorker"

definition worker_after :: "bool \<Rightarrow> RingWorker \<Rightarrow> RingWorker" where
  "worker_after started w = (if started then AtWait else w)"

inductive ring_step :: "ring_world \<Rightarrow> RingEvent \<Rightarrow> ring_world \<Rightarrow> bool" where
  tick: "ring_synchronize created p (ring_request pol obs i preview muted) = (ok, started, p') \<Longrightarrow>
    ring_step (pol, p, w) (Tick obs i preview muted) (pol, p', worker_after started w)"
| acknowledge: "ring_step (pol, p, w) (Acknowledge obs) (ring_silence pol obs, ring_stop p, w)"
| stop_ring: "ring_step (pol, p, w) StopRing (pol, ring_stop p, w)"
| shutdown: "ring_step (pol, p, w) Shutdown (pol, ring_closing p, w)"
| joined: "rg_closed p \<Longrightarrow> rg_joinable p \<Longrightarrow> w = Returned \<Longrightarrow>
    ring_step (pol, p, w) Joined (pol, p\<lparr>rg_joinable := False\<rparr>, NoWorker)"
| worker: "worker_step copied rendered (p, w) = Some (p', w') \<Longrightarrow>
    ring_step (pol, p, w) Worker (pol, p', w')"

inductive_cases ring_stepE: "ring_step s e s'"

inductive ring_run :: "RingEvent list \<Rightarrow> ring_world \<Rightarrow> bool" where
  new: "ring_run [] (new_ring_policy, new_ring_player, NoWorker)"
| step: "ring_run es s \<Longrightarrow> ring_step s e s' \<Longrightarrow> ring_run (e # es) s'"

lemmas ring_defs [step_defs] =
  ring_synchronize_def ring_stop_def ring_closing_def worker_step_def worker_after_def

fun in_render :: "RingWorker \<Rightarrow> bool" where
  "in_render (InRender g q) = True"
| "in_render _ = False"

text \<open>A render that is not the current one has been told to stop.\<close>

fun render_ok :: "IncomingRingtonePlayer \<Rightarrow> RingWorker \<Rightarrow> bool" where
  "render_ok p (InRender g q) \<longleftrightarrow> g \<le> rg_generation p \<and> ring_active q \<and>
     (g \<noteq> rg_generation p \<longrightarrow> rg_cancel p) \<and>
     (g = rg_generation p \<and> \<not> rg_closed p \<longrightarrow> \<not> rg_cancel p \<and> rg_request p = q)"
| "render_ok p _ \<longleftrightarrow> True"

definition ring_inv :: "IncomingRingtonePlayer \<Rightarrow> RingWorker \<Rightarrow> bool" where
  "ring_inv p w \<longleftrightarrow>
     (rg_joinable p \<longleftrightarrow> w \<noteq> NoWorker) \<and> (w = Returned \<longrightarrow> rg_closed p) \<and>
     (rg_rendering p \<longleftrightarrow> in_render w) \<and>
     (rg_closed p \<longrightarrow> rg_request p = no_ring \<and> rg_cancel p) \<and>
     (rg_request p = no_ring \<or> ring_active (rg_request p) \<and> rg_joinable p \<and>
        valid_ringtone_endpoint (rr_endpoint (rg_request p))) \<and>
     render_ok p w"

lemma no_ring_inactive [simp]: "\<not> ring_active no_ring" "rr_session no_ring = 0" "rr_call_id no_ring = 0"
  "rr_endpoint no_ring = []"
  by (simp_all add: no_ring_def ring_active_def)

lemma valid_empty [simp]: "valid_ringtone_endpoint []"
  by (simp add: valid_ringtone_endpoint_def)

lemma ring_next_ok:
  "ring_active (ring_next input) \<Longrightarrow> valid_ringtone_endpoint (rr_endpoint (ring_next input))"
  "\<not> ring_active (ring_next input) \<Longrightarrow> ring_next input = no_ring"
  by (auto simp: ring_next_def ring_invalid_def split: if_splits)

text \<open>The four ways \<open>synchronize\<close> ends: nothing to do, the generations are used up, no thread, done.\<close>

lemma synchronize_cases:
  assumes "ring_synchronize created p input = (ok, started, p')"
  obtains
    (same) "p' = p" "\<not> started" "rg_closed p \<or> rg_request p = ring_next input"
  | (exhausted) "\<not> rg_closed p" "\<not> started"
      "p' = p\<lparr>rg_cancel := True, rg_closed := True, rg_request := no_ring, rg_result := TonePreviewState.Failed\<rparr>"
  | (no_thread) "\<not> rg_closed p" "\<not> started" "\<not> rg_joinable p" "rg_generation p \<noteq> u64_max"
      "p' = p\<lparr>rg_cancel := True, rg_generation := rg_generation p + 1, rg_request := no_ring,
         rg_result := TonePreviewState.Failed\<rparr>"
  | (applied) r where "\<not> rg_closed p" "rg_generation p \<noteq> u64_max"
      "started \<longleftrightarrow> ring_active (ring_next input) \<and> \<not> rg_joinable p"
      "p' = p\<lparr>rg_cancel := True, rg_generation := rg_generation p + 1, rg_request := ring_next input,
         rg_result := r, rg_joinable := rg_joinable p \<or> started\<rparr>"
proof (cases "rg_closed p \<or> rg_request p = ring_next input")
  case True
  then show ?thesis using assms by (intro same) (auto simp: ring_synchronize_def Let_def split: if_splits)
next
  case False
  show ?thesis
  proof (cases "rg_generation p = u64_max")
    case True
    then show ?thesis using assms False by (intro exhausted) (auto simp: ring_synchronize_def Let_def split: if_splits)
  next
    case gen: False
    show ?thesis
    proof (cases "ring_active (ring_next input) \<and> \<not> rg_joinable p \<and> \<not> created")
      case True
      then show ?thesis using assms False gen
        by (intro no_thread) (auto simp: ring_synchronize_def Let_def split: if_splits)
    next
      case created: False
      then show ?thesis using assms False gen
        by (intro applied [of "if ring_active (ring_next input) then TonePreviewState.Playing
            else TonePreviewState.Idle"]) (auto simp: ring_synchronize_def Let_def split: if_splits)
    qed
  qed
qed

lemma ring_synchronize_inv:
  assumes inv: "ring_inv p w" and "ring_synchronize created p input = (ok, started, p')"
  shows "ring_inv p' (worker_after started w)"
  using assms(2)
proof (cases rule: synchronize_cases)
  case same
  then show ?thesis using inv by (simp add: worker_after_def)
next
  case exhausted
  then show ?thesis using inv by (cases w) (simp_all add: worker_after_def ring_inv_def)
next
  case no_thread
  then show ?thesis using inv by (cases w) (simp_all add: worker_after_def ring_inv_def)
next
  case (applied r)
  have old: "g \<le> rg_generation p + 1 \<and> g \<noteq> rg_generation p + 1" if "w = InRender g q" for g q
    using older_generation [OF _ applied(2)] inv that by (simp add: ring_inv_def)
  show ?thesis
  proof (cases started)
    case True
    then have "w = NoWorker" using applied(3) inv by (simp add: ring_inv_def)
    then show ?thesis
      using inv True applied ring_next_ok(1) [of input] by (simp add: worker_after_def ring_inv_def)
  next
    case False
    then have "rg_joinable p \<or> ring_next input = no_ring" using applied(3) ring_next_ok(2) by auto
    then show ?thesis
      using inv False applied ring_next_ok [of input] old
      by (cases w) (auto simp: worker_after_def ring_inv_def)
  qed
qed

lemma ring_stop_result:
  obtains ok where "ring_synchronize True p no_ring = (ok, False, ring_stop p)"
proof -
  obtain ok started p' where s: "ring_synchronize True p no_ring = (ok, started, p')" by (metis surj_pair)
  then have "\<not> started" by (cases rule: synchronize_cases) (auto simp: ring_next_def)
  with s show thesis using that by (simp add: ring_stop_def)
qed

lemma ring_stop_inv: "ring_inv p w \<Longrightarrow> ring_inv (ring_stop p) w"
  using ring_stop_result [of p] ring_synchronize_inv [of p w True no_ring _ False "ring_stop p"]
  by (metis worker_after_def)

lemma ring_closing_inv: "ring_inv p w \<Longrightarrow> ring_inv (ring_closing p) w"
  by (cases w) (simp_all add: ring_inv_def ring_closing_def)

lemma worker_step_simps [simp]:
  "worker_step c r (p, NoWorker) = None" "worker_step c r (p, Returned) = None"
  "worker_step c r (p, AtWait) = (if rg_closed p then Some (p, Returned)
     else if \<not> ring_active (rg_request p) then None
     else if \<not> c then Some (p\<lparr>rg_result := TonePreviewState.Failed\<rparr>, InGap (rg_generation p))
     else Some (p\<lparr>rg_cancel := False, rg_rendering := True\<rparr>, InRender (rg_generation p) (rg_request p)))"
  "worker_step c r (p, InRender g q) = Some
     (if g = rg_generation p \<and> \<not> rg_closed p
      then p\<lparr>rg_rendering := False, rg_result := (case r of Some x \<Rightarrow> x | None \<Rightarrow> TonePreviewState.Failed)\<rparr>
      else p\<lparr>rg_rendering := False\<rparr>, InGap g)"
  "worker_step c r (p, InGap g) = Some (p, if rg_closed p then Returned else AtWait)"
  by (simp_all add: worker_step_def Let_def)

lemma worker_step_inv:
  assumes "ring_inv p w" "worker_step copied rendered (p, w) = Some (p', w')"
  shows "ring_inv p' w'"
proof (cases w)
  case AtWait
  then show ?thesis using assms by (auto simp: ring_inv_def split: if_splits)
next
  case (InRender g q)
  then have "w' = InGap g" "\<exists>x. p' = p\<lparr>rg_rendering := False, rg_result := x\<rparr> \<or> p' = p\<lparr>rg_rendering := False\<rparr>"
    using assms(2) by (auto split: if_splits)
  then show ?thesis using assms(1) InRender by (elim exE disjE) (auto simp: ring_inv_def)
next
  case (InGap g)
  then have "p' = p" "w' = (if rg_closed p then Returned else AtWait)" using assms(2) by auto
  then show ?thesis using assms(1) InGap by (auto simp: ring_inv_def)
qed (use assms in simp_all)

lemma ring_step_inv:
  assumes "ring_step (pol, p, w) e (pol', p', w')" "ring_inv p w" shows "ring_inv p' w'"
  using assms(1)
proof cases
  case tick
  then show ?thesis using ring_synchronize_inv [OF assms(2)] by simp
next
  case joined
  then show ?thesis using assms(2) by (simp add: ring_inv_def)
next
  case worker
  then show ?thesis using worker_step_inv [OF assms(2)] by simp
qed (use assms(2) in \<open>simp_all add: ring_stop_inv ring_closing_inv\<close>)

lemma ring_run_inv: "ring_run es (pol, p, w) \<Longrightarrow> ring_inv p w"
proof (induction es "(pol, p, w)" arbitrary: pol p w rule: ring_run.induct)
  case new
  show ?case by (simp add: ring_inv_def new_ring_player_def)
next
  case (step es s e)
  obtain pol0 p0 w0 where s: "s = (pol0, p0, w0)" by (cases s)
  show ?case by (rule ring_step_inv [OF step(3) [unfolded s] step(2) [OF s]])
qed

text \<open>The event of the GUI thread that counts is the last one.\<close>

fun from_gui :: "RingEvent \<Rightarrow> bool" where
  "from_gui Joined = False"
| "from_gui Worker = False"
| "from_gui _ = True"

definition asked_for :: "RingEvent list \<Rightarrow> IncomingRingtonePolicy \<Rightarrow> IncomingRingtoneRequest \<Rightarrow> bool" where
  "asked_for es pol q \<longleftrightarrow> (\<exists>obs i preview muted. find from_gui es = Some (Tick obs i preview muted) \<and>
     q = ring_request pol obs i preview muted)"

lemma ring_request_next [simp]: "ring_next (ring_request pol obs i preview muted) = ring_request pol obs i preview muted"
  by (auto simp: ring_next_def ring_request_def ring_invalid_def ring_active_def verified_incoming_call_def
      sip_proof_is_current_def no_ring_def)

lemma synchronized_request:
  assumes "ring_synchronize created p input = (ok, started, p')"
  shows "rg_request p' = no_ring \<or> rg_request p' = ring_next input \<or> rg_closed p"
  using assms by (cases rule: synchronize_cases) auto

lemma stopped_request: "ring_inv p w \<Longrightarrow> rg_request (ring_stop p) = no_ring"
  using synchronized_request ring_stop_result [of p] ring_stop_inv [of p w]
  by (metis ring_inv_def ring_next_def no_ring_inactive(1) synchronize_cases)

lemma asked_worker: "\<not> from_gui e \<Longrightarrow> asked_for (e # es) pol q = asked_for es pol q"
  by (simp add: asked_for_def)

lemma ring_run_asked:
  assumes "ring_run es (pol, p, w)" "ring_active (rg_request p)"
  shows "asked_for es pol (rg_request p)"
  using assms
proof (induction es "(pol, p, w)" arbitrary: pol p w rule: ring_run.induct)
  case new
  then show ?case by (simp add: new_ring_player_def)
next
  case (step es s e)
  obtain pol0 p0 w0 where s: "s = (pol0, p0, w0)" by (cases s)
  have inv: "ring_inv p0 w0" using ring_run_inv step(1) s by blast
  show ?case
    using step(3) [unfolded s]
  proof cases
    case (tick created obs i preview muted ok started)
    then have "rg_request p = no_ring \<or> rg_request p = ring_request pol0 obs i preview muted"
      using synchronized_request [OF tick(4)] inv synchronize_cases [OF tick(4)]
      by (metis ring_inv_def ring_request_next)
    then show ?thesis using step(4) tick(1,2) by (auto simp: asked_for_def)
  next
    case (acknowledge obs)
    then show ?thesis using step(4) stopped_request [OF inv] by simp
  next
    case stop_ring
    then show ?thesis using step(4) stopped_request [OF inv] by simp
  next
    case shutdown
    then show ?thesis using step(4) by (simp add: ring_closing_def)
  next
    case joined
    then show ?thesis using step(2) [OF s] step(4) by (simp add: asked_worker)
  next
    case (worker copied rendered)
    then have "rg_request p = rg_request p0" by (cases w0) (auto split: if_splits)
    then show ?thesis using step(2) [OF s] step(4) worker(1,2) by (simp add: asked_worker)
  qed
qed

section \<open>The worker left to itself\<close>

text \<open>The worker's critical sections one after the other, with the answers it gets; it stays where
  it waits.\<close>

fun worker_run ::
    "(bool \<times> TonePreviewState option) list \<Rightarrow> IncomingRingtonePlayer \<times> RingWorker \<Rightarrow>
     IncomingRingtonePlayer \<times> RingWorker" where
  "worker_run [] pw = pw"
| "worker_run ((copied, rendered) # answers) pw =
     (case worker_step copied rendered pw of None \<Rightarrow> pw | Some pw' \<Rightarrow> worker_run answers pw')"

lemma closed_worker_step:
  "rg_closed p \<Longrightarrow> worker_step c r (p, w) = Some (p', w') \<Longrightarrow> rg_closed p' \<and>
     (w' = Returned \<or> (\<exists>g q. w = InRender g q \<and> w' = InGap g))"
  by (cases w) auto

text \<open>A request that stands is rendered after at most three critical sections, counting the return of
  a render that was under way.\<close>

lemma worker_reaches_render:
  assumes "ring_inv p w" "rg_request p = q" "ring_active q"
  shows "\<exists>n \<le> 3. \<exists>p'. worker_run (map (Pair True) (take n [r1, r2, r3])) (p, w) =
    (p', InRender (rg_generation p) q) \<and> \<not> rg_cancel p' \<and> rg_request p' = q"
proof -
  have open_p: "\<not> rg_closed p" "w \<noteq> NoWorker" "w \<noteq> Returned"
    using assms by (auto simp: ring_inv_def)
  show ?thesis
  proof (cases w)
    case AtWait
    then show ?thesis using assms open_p by (intro exI [of _ 1]) simp
  next
    case (InGap g)
    then show ?thesis using assms open_p by (intro exI [of _ 2]) (simp add: numeral_2_eq_2)
  next
    case (InRender g q')
    show ?thesis
    proof (cases "g = rg_generation p")
      case True
      then show ?thesis using assms open_p InRender by (intro exI [of _ 0]) (simp add: ring_inv_def)
    next
      case False
      then show ?thesis
        using assms open_p InRender by (intro exI [of _ 3]) (simp add: numeral_3_eq_3)
    qed
  qed (use open_p in simp_all)
qed

section \<open>Properties\<close>

text \<open>
  C32. Only a ringing call rings. In every interleaving, while the renderer runs and has not been told
  to stop, the last thing the interface asked for was a tick with the sound on and no preview
  playing, at which the native engine showed a verified incoming call that has not been silenced,
  and what is rendered is this call on the device chosen then.
\<close>

theorem only_ringing_call_rings:
  assumes "ring_run es (pol, p, InRender g q)" "\<not> rg_cancel p"
  shows "\<exists>obs i. find from_gui es = Some (Tick obs i False False) \<and> verified_incoming_call obs \<and>
    q = \<lparr>rr_session = obs_session obs, rr_call_id = obs_call_id obs, rr_endpoint = i\<rparr> \<and>
    valid_ringtone_endpoint i \<and> ring_silence pol obs \<noteq> pol"
proof -
  have "ring_inv p (InRender g q)" by (rule ring_run_inv [OF assms(1)])
  then have q: "rg_request p = q" "ring_active q" using assms(2) by (auto simp: ring_inv_def)
  obtain obs i preview muted where f: "find from_gui es = Some (Tick obs i preview muted)"
    and r: "q = ring_request pol obs i preview muted"
    using ring_run_asked [OF assms(1)] q by (auto simp: asked_for_def)
  then show ?thesis
    using q(2) by (cases pol) (auto simp: ring_request_def ring_silence_def split: if_splits)
qed

definition sample_ringing :: SipRuntimeObservation where
  "sample_ringing = \<lparr>obs_process = RuntimeProcess.Running, obs_sip = SipStatus.Ringing,
     obs_evidence = SipEvidence.VerifiedNativeApi, obs_session = 1, obs_call_id = 7, obs_last_call_id = 7\<rparr>"

definition sample_ring :: IncomingRingtoneRequest where
  "sample_ring = \<lparr>rr_session = 1, rr_call_id = 7, rr_endpoint = []\<rparr>"

definition sample_ringing_player :: IncomingRingtonePlayer where
  "sample_ringing_player = \<lparr>rg_request = sample_ring, rg_result = TonePreviewState.Playing,
     rg_generation = 1, rg_closed = False, rg_rendering = False, rg_cancel = True, rg_joinable = True\<rparr>"

lemma sample_ring_tick:
  "ring_run [Tick sample_ringing [] False False] (new_ring_policy, sample_ringing_player, AtWait)"
proof -
  have "ring_synchronize True new_ring_player (ring_request new_ring_policy sample_ringing [] False False) =
      (True, True, sample_ringing_player)"
    by code_simp
  from ring_step.tick [OF this, of NoWorker] show ?thesis
    using ring_run.step [OF ring_run.new] by (simp add: worker_after_def)
qed

theorem only_ringing_call_rings_witness:
  "\<exists>p. ring_run [Worker, Tick sample_ringing [] False False] (new_ring_policy, p, InRender 1 sample_ring) \<and>
     \<not> rg_cancel p \<and> (\<exists>obs i. find from_gui [Worker, Tick sample_ringing [] False False] = Some (Tick obs i False False) \<and>
       sample_ring = \<lparr>rr_session = obs_session obs, rr_call_id = obs_call_id obs, rr_endpoint = i\<rparr>)"
proof -
  let ?p = "sample_ringing_player\<lparr>rg_cancel := False, rg_rendering := True\<rparr>"
  have "worker_step True None (sample_ringing_player, AtWait) = Some (?p, InRender 1 sample_ring)"
    by (simp add: sample_ringing_player_def sample_ring_def ring_active_def)
  from ring_run.step [OF sample_ring_tick ring_step.worker [OF this]]
  have run: "ring_run [Worker, Tick sample_ringing [] False False] (new_ring_policy, ?p, InRender 1 sample_ring)" .
  have "\<not> rg_cancel ?p" by simp
  from only_ringing_call_rings [OF run this] run this show ?thesis by blast
qed

text \<open>
  C33. A call that should ring does ring. After any run on an open player, a tick whose request is to
  ring leaves the request standing unless no thread could be created or the generations are used up,
  and then the worker renders exactly this request, not told to stop, after at most three critical
  sections, whatever an older render returns.
\<close>

theorem wanted_ring_is_rendered:
  assumes "ring_run es (pol, p, w)" "\<not> rg_closed p" "rg_generation p \<noteq> u64_max"
    and "ring_active (ring_request pol obs i preview muted)"
    and "ring_synchronize True p (ring_request pol obs i preview muted) = (ok, started, p')"
  shows "ok \<and> (\<exists>n \<le> 3. \<exists>p2. worker_run (map (Pair True) (take n [r1, r2, r3])) (p', worker_after started w) =
    (p2, InRender (rg_generation p') (ring_request pol obs i preview muted)) \<and> \<not> rg_cancel p2)"
proof -
  let ?q = "ring_request pol obs i preview muted"
  have inv: "ring_inv p' (worker_after started w)"
    by (rule ring_synchronize_inv [OF ring_run_inv [OF assms(1)] assms(5)])
  have "\<not> ring_invalid ?q" using assms(4) by (metis no_ring_inactive(1) ring_next_def ring_request_next)
  then have ok: "ok" "rg_request p' = ?q"
    using assms(2-5) by (auto simp: ring_synchronize_def Let_def split: if_splits)
  then show ?thesis using worker_reaches_render [OF inv ok(2) assms(4)] by blast
qed

theorem wanted_ring_is_rendered_witness:
  "\<exists>n \<le> 3. \<exists>p2. worker_run (map (Pair True) (take n [None, None, None])) (sample_ringing_player, AtWait) =
     (p2, InRender 1 sample_ring) \<and> \<not> rg_cancel p2"
proof -
  have a: "ring_run [] (new_ring_policy, new_ring_player, NoWorker)" by (rule ring_run.new)
  have b: "\<not> rg_closed new_ring_player" "rg_generation new_ring_player \<noteq> u64_max"
    by (simp_all add: new_ring_player_def)
  have r: "ring_request new_ring_policy sample_ringing [] False False = sample_ring" by code_simp
  have c: "ring_active (ring_request new_ring_policy sample_ringing [] False False)"
    by (simp add: r ring_active_def sample_ring_def)
  have d: "ring_synchronize True new_ring_player (ring_request new_ring_policy sample_ringing [] False False) =
      (True, True, sample_ringing_player)"
    by code_simp
  have g: "rg_generation sample_ringing_player = 1" by (simp add: sample_ringing_player_def)
  show ?thesis
    using wanted_ring_is_rendered [OF a b c d, of None None None] by (simp only: r g worker_after_def if_True)
qed

text \<open>
  C34. Shutting the ringtone down returns. Once the player is closed, by \<open>shutdown\<close> or because its
  generations are used up, the worker has been told to stop and is through after at most two more
  critical sections, whatever the renderer returns: it has then returned, so the join is enabled, or
  there never was a thread to join. Nothing asked for after that starts it again.
\<close>

theorem ring_shutdown_returns:
  assumes "ring_run es (pol, p, w)" "rg_closed p" "length answers = 2"
  shows "rg_cancel p \<and> (\<exists>p' w'. worker_run answers (p, w) = (p', w') \<and> w' \<in> {Returned, NoWorker} \<and>
    (w' = Returned \<longleftrightarrow> rg_joinable p) \<and> \<not> ring_busy p' \<and>
    (\<forall>created q. ring_synchronize created p' q = (False, False, p')))"
proof -
  have inv: "ring_inv p w" by (rule ring_run_inv [OF assms(1)])
  obtain c1 r1 c2 r2 where ans: "answers = [(c1, r1), (c2, r2)]"
    using assms(3) by (auto simp: numeral_2_eq_2 length_Suc_conv)
  have "\<exists>p' w'. worker_run answers (p, w) = (p', w') \<and> rg_closed p' \<and> rg_request p' = no_ring \<and>
      \<not> rg_rendering p' \<and> w' \<in> {Returned, NoWorker} \<and> (w' = Returned \<longleftrightarrow> rg_joinable p)"
    using inv assms(2) unfolding ans by (cases w) (auto simp: ring_inv_def)
  moreover have "rg_cancel p" using inv assms(2) by (simp add: ring_inv_def)
  ultimately show ?thesis by (auto simp: ring_busy_def ring_synchronize_def Let_def)
qed

theorem ring_shutdown_returns_witness:
  "\<exists>p' w'. worker_run [(True, None), (True, None)] (ring_closing sample_ringing_player, AtWait) = (p', w') \<and>
     w' \<in> {Returned, NoWorker}"
proof -
  have run: "ring_run [Shutdown, Tick sample_ringing [] False False]
      (new_ring_policy, ring_closing sample_ringing_player, AtWait)"
    by (rule ring_run.step [OF sample_ring_tick ring_step.shutdown])
  have "rg_closed (ring_closing sample_ringing_player)" by (simp add: ring_closing_def)
  moreover have "length [(True, None :: TonePreviewState option), (True, None)] = 2" by simp
  ultimately show ?thesis using ring_shutdown_returns [OF run] by blast
qed

end
