(* ===== verification/Tone_Preview.thy ===== *)
theory Tone_Preview
  imports Incoming_Ringtone
begin

text \<open>
  The local preview tone: \<open>audio_test_tone.h\<close> (where a packet of samples is written and which frame each
  sample belongs to) and \<open>audio_test_tone_win32.cpp\<close> (the bounded rendering loop, the MCI ringtone and the
  preview player). The device, its buffer and the cancellation flag answer through arguments. The
  waveform itself is floating-point arithmetic and is not modelled: a write records the offset, the
  frame and the distance to the last frame its sample is computed from. The loop is followed for every
  frequency the callers use, whole numbers of hertz.
\<close>

section \<open>Formats\<close>

type_synonym u16 = "16 word"

datatype ToneSampleType = Float32 | Pcm16 | Pcm32

record ToneFormat =
  tf_sample_rate :: u32
  tf_channels :: u16
  tf_type :: ToneSampleType

definition tone_sample_bytes :: "ToneSampleType \<Rightarrow> u64" where
  "tone_sample_bytes type = (if type = ToneSampleType.Pcm16 then 2 else 4)"

definition tone_format_valid :: "ToneFormat \<Rightarrow> bool" where
  "tone_format_valid format \<longleftrightarrow> tf_sample_rate format \<ge> 8000 \<and> tf_sample_rate format \<le> 192000 \<and>
     tf_channels format > 0 \<and> tf_channels format \<le> 8"

definition tone_total_frames :: "ToneFormat \<Rightarrow> u32" where
  "tone_total_frames format = (if tone_format_valid format then tf_sample_rate format div 4 else 0)"

section \<open>One packet\<close>

text \<open>A \<open>memcpy\<close> of one sample: offset in the packet, frame of the tone, frames that remain after it.\<close>

record SampleWrite =
  sw_offset :: u64
  sw_index :: u32
  sw_remaining :: u32

definition tone_stride :: "ToneFormat \<Rightarrow> u64" where
  "tone_stride format = tone_sample_bytes (tf_type format) * ucast (tf_channels format)"

definition frame_writes :: "ToneFormat \<Rightarrow> u32 \<Rightarrow> nat \<Rightarrow> SampleWrite list" where
  "frame_writes format first_frame frame =
     map (\<lambda>ch. \<lparr>sw_offset = of_nat frame * tone_stride format + of_nat ch * tone_sample_bytes (tf_type format),
                 sw_index = first_frame + of_nat frame,
                 sw_remaining = tone_total_frames format - 1 - (first_frame + of_nat frame)\<rparr>)
       [0..<unat (tf_channels format)]"

definition write_tone_packet ::
    "bool \<Rightarrow> u64 \<Rightarrow> ToneFormat \<Rightarrow> u32 \<Rightarrow> u32 \<Rightarrow> int \<Rightarrow> bool \<times> SampleWrite list" where
  "write_tone_packet output capacity format first_frame count frequency_hz =
     (if \<not> output \<or> \<not> tone_format_valid format \<or> frequency_hz < 100 \<or> frequency_hz > 4000 then (False, [])
      else (let total = tone_total_frames format in
        if first_frame > total \<or> count > total - first_frame then (False, [])
        else if ucast count > capacity div tone_stride format then (False, [])
        else (True, concat (map (frame_writes format first_frame) [0..<unat count]))))"

section \<open>The rendering loop\<close>

text \<open>What one attempt meets: the cancellation flag, the padding (\<open>None\<close>: the call fails), whether a buffer
  is handed out and whether it can be released.\<close>

record AttemptAnswers =
  at_cancelled :: bool
  at_padding :: "u32 option"
  at_buffer :: bool
  at_released :: bool

text \<open>A packet handed to the device: first frame, frames, whether it was filled, and the writes.\<close>

record TonePacket =
  tp_first :: u32
  tp_count :: u32
  tp_filled :: bool
  tp_writes :: "SampleWrite list"

text \<open>\<open>attempts\<close> counts down from 130; \<open>drained\<close>: the wait for the device ends without a cancellation.\<close>

fun tone_loop ::
    "(nat \<Rightarrow> AttemptAnswers) \<Rightarrow> bool \<Rightarrow> ToneFormat \<Rightarrow> u32 \<Rightarrow> u16 \<Rightarrow> int \<Rightarrow> nat \<Rightarrow> u32 \<Rightarrow>
     TonePreviewState \<times> TonePacket list" where
  "tone_loop w drained spec capacity block_align frequency 0 submitted = (TonePreviewState.Failed, [])"
| "tone_loop w drained spec capacity block_align frequency (Suc attempts) submitted =
     (let a = w attempts; total = tone_total_frames spec in
      if \<not> submitted < total then (TonePreviewState.Failed, [])
      else if at_cancelled a then (TonePreviewState.Cancelled, [])
      else (case at_padding a of
              None \<Rightarrow> (TonePreviewState.Failed, [])
            | Some padding \<Rightarrow>
                if padding > capacity then (TonePreviewState.Failed, [])
                else (let chunk = min (total - submitted) (capacity - padding) in
                  if chunk = 0
                  then tone_loop w drained spec capacity block_align frequency attempts submitted
                  else if \<not> at_buffer a then (TonePreviewState.Failed, [])
                  else (let (filled, writes) = write_tone_packet True (ucast chunk * ucast block_align)
                              spec submitted chunk frequency;
                            packet = \<lparr>tp_first = submitted, tp_count = chunk, tp_filled = filled,
                                      tp_writes = writes\<rparr>
                        in if \<not> filled \<or> \<not> at_released a then (TonePreviewState.Failed, [packet])
                           else if submitted + chunk = total
                           then (if drained then TonePreviewState.Played else TonePreviewState.Cancelled, [packet])
                           else map_prod id (Cons packet)
                             (tone_loop w drained spec capacity block_align frequency attempts
                               (submitted + chunk))))))"

text \<open>The mix format of the device, as far as the code reads it. \<open>extensible\<close>: the sub-format, if the tag is
  \<open>WAVE_FORMAT_EXTENSIBLE\<close> and the structure is large enough (\<open>None\<close> if it is not).\<close>

datatype WaveTag = TagFloat | TagPcm | TagOther

datatype FormatTag = PlainTag WaveTag | Extensible "WaveTag option"

record MixFormat =
  mx_tag :: FormatTag
  mx_bits :: nat
  mx_rate :: u32
  mx_channels :: u16
  mx_block_align :: u16

definition mix_sample_type :: "MixFormat \<Rightarrow> ToneSampleType option" where
  "mix_sample_type m =
     (case (case mx_tag m of PlainTag t \<Rightarrow> Some t
            | Extensible (Some TagFloat) \<Rightarrow> Some TagFloat
            | Extensible (Some TagPcm) \<Rightarrow> Some TagPcm
            | Extensible _ \<Rightarrow> None) of
        Some TagFloat \<Rightarrow> (if mx_bits m = 32 then Some ToneSampleType.Float32 else None)
      | Some TagPcm \<Rightarrow> (if mx_bits m = 16 then Some ToneSampleType.Pcm16
                         else if mx_bits m = 32 then Some ToneSampleType.Pcm32 else None)
      | _ \<Rightarrow> None)"

record RenderAnswers =
  ra_cancelled_first :: bool
  ra_com :: bool
  ra_enumerator :: bool
  ra_device :: bool
  ra_device_active :: bool
  ra_client :: bool
  ra_mix :: "MixFormat option"
  ra_initialized :: bool
  ra_capacity :: "u32 option"
  ra_sink :: bool
  ra_cancelled_later :: bool
  ra_started :: bool
  ra_attempt :: "nat \<Rightarrow> AttemptAnswers"
  ra_drained :: bool

definition preset_frequency :: "int \<Rightarrow> int" where
  "preset_frequency preset = (if preset = 0 then 440 else if preset = 1 then 550 else if preset = 2 then 660
     else if preset = 3 then 820 else 1040)"

definition render_tone ::
    "RenderAnswers \<Rightarrow> int \<Rightarrow> TonePreviewState \<times> TonePacket list" where
  "render_tone w preset =
     (if \<not> ra_enumerator w then (TonePreviewState.Failed, [])
      else if \<not> ra_device w \<or> \<not> ra_device_active w then (TonePreviewState.MissingDevice, [])
      else if \<not> ra_client w then (TonePreviewState.Failed, [])
      else (case ra_mix w of
              None \<Rightarrow> (TonePreviewState.Failed, [])
            | Some m \<Rightarrow>
                (case mix_sample_type m of
                   None \<Rightarrow> (TonePreviewState.UnsupportedFormat, [])
                 | Some type \<Rightarrow>
                     (let spec = \<lparr>tf_sample_rate = mx_rate m, tf_channels = mx_channels m, tf_type = type\<rparr> in
                      if \<not> tone_format_valid spec \<or> ucast (mx_block_align m) \<noteq> tone_stride spec \<or>
                         tone_total_frames spec = 0
                      then (TonePreviewState.UnsupportedFormat, [])
                      else if \<not> ra_initialized w then (TonePreviewState.Failed, [])
                      else (case ra_capacity w of
                              None \<Rightarrow> (TonePreviewState.Failed, [])
                            | Some capacity \<Rightarrow>
                                if capacity = 0 \<or> \<not> ra_sink w then (TonePreviewState.Failed, [])
                                else if ra_cancelled_later w then (TonePreviewState.Cancelled, [])
                                else if \<not> ra_started w then (TonePreviewState.Failed, [])
                                else tone_loop (ra_attempt w) (ra_drained w) spec capacity
                                       (mx_block_align m) (preset_frequency preset) 130 0)))))"

definition render_preview ::
    "RenderAnswers \<Rightarrow> wstr \<Rightarrow> bool \<Rightarrow> int \<Rightarrow> TonePreviewState \<times> TonePacket list" where
  "render_preview w endpoint_id multimedia_default preset =
     (if ra_cancelled_first w then (TonePreviewState.Cancelled, [])
      else if (endpoint_id = [] \<and> \<not> multimedia_default) \<or> length endpoint_id > 4096 \<or> 0 \<in> set endpoint_id
      then (TonePreviewState.MissingDevice, [])
      else if \<not> ra_com w then (TonePreviewState.Failed, [])
      else render_tone w preset)"

section \<open>The MCI ringtone\<close>

text \<open>\<open>mci_*\<close>: whether each command succeeds; \<open>mci_mode\<close>: the answer of the \<open>i\<close>-th status query (\<open>None\<close>: it
  fails, else whether playback has stopped). The commands sent are the second result.\<close>

record MciAnswers =
  mci_lower :: "wchar \<Rightarrow> wchar"
  mci_file :: bool
  mci_cancelled :: bool
  mci_alias :: wstr
  mci_open :: bool
  mci_play :: bool
  mci_interrupted :: "nat \<Rightarrow> bool"
  mci_mode :: "nat \<Rightarrow> bool option"

definition mci_suffix :: "wstr \<Rightarrow> wstr option" where
  "mci_suffix mp3 = (if wc CHR ''.'' \<notin> set mp3 then None
     else Some (wc CHR ''.'' # rev (takeWhile (\<lambda>c. c \<noteq> wc CHR ''.'') (rev mp3))))"

definition valid_mp3_path :: "MciAnswers \<Rightarrow> wstr \<Rightarrow> bool" where
  "valid_mp3_path w mp3 \<longleftrightarrow> mp3 \<noteq> [] \<and> length mp3 \<le> 2048 \<and> wc CHR 0x22 \<notin> set mp3 \<and> 10 \<notin> set mp3 \<and>
     13 \<notin> set mp3 \<and> 0 \<notin> set mp3 \<and>
     (case mci_suffix mp3 of None \<Rightarrow> False | Some s \<Rightarrow> map (mci_lower w) s = W ''.mp3'') \<and> mci_file w"

text \<open>The polling loop, eighty times at most: the result and the status queries sent.\<close>

fun mci_poll :: "MciAnswers \<Rightarrow> nat \<Rightarrow> TonePreviewState \<times> nat" where
  "mci_poll w 0 = (TonePreviewState.Played, 0)"
| "mci_poll w (Suc left) =
     (if mci_interrupted w left then (TonePreviewState.Cancelled, 0)
      else (case mci_mode w left of
              None \<Rightarrow> (TonePreviewState.Failed, 1)
            | Some stopped \<Rightarrow> if stopped then (TonePreviewState.Played, 1)
                               else map_prod id Suc (mci_poll w left)))"

definition play_windows_ringtone ::
    "RenderAnswers \<Rightarrow> MciAnswers \<Rightarrow> wstr \<Rightarrow> bool \<Rightarrow> int \<Rightarrow> wstr \<Rightarrow>
     TonePreviewState \<times> TonePacket list \<times> wstr list" where
  "play_windows_ringtone r w endpoint_id multimedia_default preset mp3 =
     (if preset < 0 \<or> preset > 5 then (TonePreviewState.UnsupportedFormat, [], [])
      else if preset \<noteq> 5
      then (let (result, packets) = render_preview r endpoint_id multimedia_default preset
            in (result, packets, []))
      else if \<not> valid_mp3_path w mp3 then (TonePreviewState.UnsupportedFormat, [], [])
      else if mci_cancelled w then (TonePreviewState.Cancelled, [], [])
      else (let opening = W ''open '' @ [wc CHR 0x22] @ mp3 @ [wc CHR 0x22] @ W '' type mpegvideo alias '' @ mci_alias w;
                closing = W ''close '' @ mci_alias w
            in if \<not> mci_open w then (TonePreviewState.Failed, [], [opening])
               else (let playing = W ''play '' @ mci_alias w @ W '' from 0'' in
                 if \<not> mci_play w then (TonePreviewState.Failed, [], [opening, playing, closing])
                 else (let (result, queries) = mci_poll w 80
                       in (result, [], [opening, playing] @
                             replicate queries (W ''status '' @ mci_alias w @ W '' mode'') @
                             [W ''stop '' @ mci_alias w, closing])))))"

section \<open>The preview player\<close>

text \<open>\<open>tpl_worker\<close>: no thread, a thread that renders, or one that has ended and was not joined yet.\<close>

datatype ToneWorker = NoToneWorker | ToneRendering | ToneEnded

record TonePreviewPlayer =
  tpl_worker :: ToneWorker
  tpl_cancel :: bool
  tpl_state :: TonePreviewState

definition new_tone_player :: TonePreviewPlayer where
  "new_tone_player = \<lparr>tpl_worker = NoToneWorker, tpl_cancel = False, tpl_state = TonePreviewState.Idle\<rparr>"

text \<open>\<open>None\<close>: the call waits in \<open>join\<close> for a thread that still renders. \<open>thread\<close>: it can be created.\<close>

definition tone_launch :: "bool \<Rightarrow> TonePreviewPlayer \<Rightarrow> (bool \<times> TonePreviewPlayer) option" where
  "tone_launch thread p =
     (if tpl_worker p = ToneRendering then None
      else Some (if thread
                 then (True, \<lparr>tpl_worker = ToneRendering, tpl_cancel = False, tpl_state = TonePreviewState.Playing\<rparr>)
                 else (False, \<lparr>tpl_worker = NoToneWorker, tpl_cancel = False, tpl_state = TonePreviewState.Failed\<rparr>)))"

definition tone_start ::
    "bool \<Rightarrow> wstr \<Rightarrow> bool \<Rightarrow> TonePreviewPlayer \<Rightarrow> (bool \<times> TonePreviewPlayer) option" where
  "tone_start thread endpoint_id multimedia_default p =
     (if (endpoint_id = [] \<and> \<not> multimedia_default) \<or> length endpoint_id > 4096 \<or> 0 \<in> set endpoint_id \<or>
         tpl_state p = TonePreviewState.Playing
      then Some (False, p) else tone_launch thread p)"

definition start_ringtone :: "bool \<Rightarrow> int \<Rightarrow> TonePreviewPlayer \<Rightarrow> (bool \<times> TonePreviewPlayer) option" where
  "start_ringtone thread preset p =
     (if preset < 0 \<or> preset > 5 \<or> tpl_state p = TonePreviewState.Playing
      then Some (False, p) else tone_launch thread p)"

definition tone_request_stop :: "TonePreviewPlayer \<Rightarrow> TonePreviewPlayer" where
  "tone_request_stop p = p\<lparr>tpl_cancel := True\<rparr>"

text \<open>The last store of the thread.\<close>

definition tone_worker_ends :: "TonePreviewState \<Rightarrow> TonePreviewPlayer \<Rightarrow> TonePreviewPlayer" where
  "tone_worker_ends result p =
     (if tpl_worker p = ToneRendering
      then p\<lparr>tpl_worker := ToneEnded,
             tpl_state := (if tpl_cancel p then TonePreviewState.Cancelled else result)\<rparr>
      else p)"

fun tone_preview_feedback :: "TonePreviewState \<Rightarrow> string" where
  "tone_preview_feedback TonePreviewState.Idle = ''Teste de toque disponivel apos selecionar uma saida.''"
| "tone_preview_feedback TonePreviewState.Playing = ''Reproduzindo toque local no dispositivo escolhido...''"
| "tone_preview_feedback TonePreviewState.Played = ''Toque de teste enviado ao Windows. Sem chamada SIP.''"
| "tone_preview_feedback TonePreviewState.MissingDevice = ''Saida do toque desconectada. Atualize dispositivos.''"
| "tone_preview_feedback TonePreviewState.UnsupportedFormat = ''Formato de audio nao suportado para este teste.''"
| "tone_preview_feedback TonePreviewState.Cancelled = ''Teste de toque interrompido.''"
| "tone_preview_feedback TonePreviewState.Failed = ''Falha no teste de toque. Confira a saida do Windows.''"

section \<open>Packets stay in their buffer\<close>

lemma unat_ucast_wider:
  "LENGTH('a) \<le> LENGTH('b) \<Longrightarrow> unat (ucast x :: 'b :: len word) = unat x"
  for x :: "'a :: len word"
  by (simp add: unsigned_ucast_eq take_bit_nat_eq_self_iff order.strict_trans2 [OF unsigned_less])

lemma tone_stride_bounds:
  assumes "tone_format_valid format"
  shows "unat (tone_stride format) = unat (tone_sample_bytes (tf_type format)) * unat (tf_channels format)"
    "0 < unat (tone_stride format)" "unat (tone_sample_bytes (tf_type format)) \<le> 4"
    "unat (tf_channels format) \<le> 8"
proof -
  have c: "0 < unat (tf_channels format)" "unat (tf_channels format) \<le> 8"
    using assms by (simp_all add: tone_format_valid_def word_less_nat_alt word_le_nat_alt)
  have b: "unat (tone_sample_bytes (tf_type format)) = 2 \<or> unat (tone_sample_bytes (tf_type format)) = 4"
    by (simp add: tone_sample_bytes_def)
  have u: "unat (ucast (tf_channels format) :: u64) = unat (tf_channels format)" by (rule unat_ucast_wider) simp
  have "unat (tone_sample_bytes (tf_type format)) * unat (tf_channels format) < 2 ^ 64"
    using b c by (auto intro: le_less_trans [of _ 32])
  then show "unat (tone_stride format) = unat (tone_sample_bytes (tf_type format)) * unat (tf_channels format)"
    unfolding tone_stride_def by (subst unat_mult_lem [THEN iffD1]) (simp_all add: u)
  then show "0 < unat (tone_stride format)" "unat (tone_sample_bytes (tf_type format)) \<le> 4"
    "unat (tf_channels format) \<le> 8" using b c by auto
qed


text \<open>
  What a packet has to be, in numbers that cannot wrap around: sample \<open>ch\<close> of the packet's frame \<open>k\<close> is at
  offset \<open>(k * channels + ch) * size\<close>, and computed from frame \<open>first + k\<close> of the tone and the frames that remain
  after it. Every frame has all its channels, and the samples follow each other without a gap.
\<close>

definition sample_size :: "ToneFormat \<Rightarrow> nat" where
  "sample_size format = (case tf_type format of ToneSampleType.Float32 \<Rightarrow> 4 | ToneSampleType.Pcm16 \<Rightarrow> 2 | ToneSampleType.Pcm32 \<Rightarrow> 4)"

definition sample_values :: "SampleWrite \<Rightarrow> nat \<times> nat \<times> nat" where
  "sample_values sw = (unat (sw_offset sw), unat (sw_index sw), unat (sw_remaining sw))"

definition frame_samples :: "ToneFormat \<Rightarrow> nat \<Rightarrow> nat \<Rightarrow> (nat \<times> nat \<times> nat) list" where
  "frame_samples format first k =
     map (\<lambda>ch. ((k * unat (tf_channels format) + ch) * sample_size format, first + k,
                 unat (tf_sample_rate format) div 4 - 1 - (first + k))) [0..<unat (tf_channels format)]"

definition packet_samples :: "ToneFormat \<Rightarrow> nat \<Rightarrow> nat \<Rightarrow> (nat \<times> nat \<times> nat) list" where
  "packet_samples format first count = concat (map (frame_samples format first) [0..<count])"

lemma unat_sample_bytes: "unat (tone_sample_bytes (tf_type format)) = sample_size format"
  by (cases "tf_type format") (simp_all add: tone_sample_bytes_def sample_size_def)

lemma unat_total_frames:
  "tone_format_valid format \<Longrightarrow> unat (tone_total_frames format) = unat (tf_sample_rate format) div 4"
  by (simp add: tone_total_frames_def unat_div_distrib)

text \<open>The guards of \<open>write_tone_packet\<close>, as facts about numbers.\<close>

lemma packet_guards:
  assumes "write_tone_packet output capacity format first_frame count f = (True, ws)"
  shows "tone_format_valid format" "unat first_frame + unat count \<le> unat (tone_total_frames format)"
    "unat count * unat (tone_stride format) \<le> unat capacity"
    "ws = concat (map (frame_writes format first_frame) [0..<unat count])"
proof -
  let ?total = "tone_total_frames format" and ?s = "unat (tone_stride format)"
  have guard: "tone_format_valid format" "first_frame \<le> ?total" "count \<le> ?total - first_frame"
    "ucast count \<le> capacity div tone_stride format"
    and ws: "ws = concat (map (frame_writes format first_frame) [0..<unat count])"
    using assms(1) by (auto simp: write_tone_packet_def Let_def not_less split: if_splits)
  show "tone_format_valid format" "ws = concat (map (frame_writes format first_frame) [0..<unat count])"
    by (fact guard(1), fact ws)
  show "unat first_frame + unat count \<le> unat ?total"
    using guard(2,3) by (simp add: word_le_nat_alt unat_sub)
  have "unat (ucast count :: u64) = unat count" by (rule unat_ucast_wider) simp
  then have "unat count \<le> unat capacity div ?s"
    using guard(4) by (simp add: word_le_nat_alt unat_div_distrib)
  then show "unat count * ?s \<le> unat capacity"
    using tone_stride_bounds(2) [OF guard(1)] by (simp add: less_eq_div_iff_mult_less_eq)
qed

text \<open>One sample of a packet that fits: no computation wraps around.\<close>

lemma sample_in_packet:
  assumes "tone_format_valid format" "first + unat count \<le> unat (tone_total_frames format)"
    "unat count * unat (tone_stride format) \<le> capacity" "capacity < 2 ^ 64"
    "k < unat count" "ch < unat (tf_channels format)" "first = unat first_frame"
  shows "unat (of_nat k * tone_stride format + of_nat ch * tone_sample_bytes (tf_type format)) =
      (k * unat (tf_channels format) + ch) * sample_size format"
    "(k * unat (tf_channels format) + ch) * sample_size format + sample_size format \<le> unat count * unat (tone_stride format)"
    "unat (first_frame + of_nat k) = first + k"
    "unat (tone_total_frames format - 1 - (first_frame + of_nat k)) =
      unat (tf_sample_rate format) div 4 - 1 - (first + k)"
proof -
  let ?c = "unat (tf_channels format)" and ?b = "sample_size format" and ?total = "tone_total_frames format"
  let ?i = "k * ?c + ch"
  have st: "unat (tone_stride format) = ?b * ?c"
    using tone_stride_bounds(1) [OF assms(1)] by (simp add: unat_sample_bytes)
  have "?i + 1 \<le> (k + 1) * ?c" using assms(6) by simp
  also have "\<dots> \<le> unat count * ?c" using assms(5) by (intro mult_le_mono1) simp
  finally have "(?i + 1) * ?b \<le> unat count * ?c * ?b" by (rule mult_le_mono1)
  then show fits: "?i * ?b + ?b \<le> unat count * unat (tone_stride format)" by (simp add: st ac_simps)
  then have "?i * ?b < 2 ^ LENGTH(64)" using assms(3,4) by simp
  then have "unat (of_nat (?i * ?b) :: u64) = ?i * ?b" by (rule unat_of_nat_less)
  moreover have "of_nat k * tone_stride format + of_nat ch * tone_sample_bytes (tf_type format) =
      (of_nat (k * unat (tone_stride format) + ch * unat (tone_sample_bytes (tf_type format))) :: u64)"
    by simp
  moreover have "k * unat (tone_stride format) + ch * unat (tone_sample_bytes (tf_type format)) = ?i * ?b"
    by (simp add: st unat_sample_bytes algebra_simps)
  ultimately show "unat (of_nat k * tone_stride format + of_nat ch * tone_sample_bytes (tf_type format)) = ?i * ?b"
    by metis
  have "unat ?total < 2 ^ LENGTH(32)" by (rule unsigned_less)
  then have "first + k < 2 ^ LENGTH(32)" using assms(2,5) by linarith
  then have "unat (of_nat (first + k) :: u32) = first + k" by (rule unat_of_nat_less)
  moreover have "first_frame + of_nat k = of_nat (first + k)" using assms(7) by simp
  ultimately show i: "unat (first_frame + of_nat k) = first + k" by metis
  then have less: "unat (first_frame + of_nat k) < unat ?total" using assms(2,5) by linarith
  then have "1 \<le> ?total" by (simp add: word_le_nat_alt)
  then have t1: "unat (?total - 1) = unat ?total - 1" by (simp add: unat_sub)
  have "first_frame + of_nat k \<le> ?total - 1" using less t1 by (simp add: word_le_nat_alt)
  then have "unat (?total - 1 - (first_frame + of_nat k)) = unat (?total - 1) - unat (first_frame + of_nat k)"
    by (rule unat_sub)
  then show "unat (?total - 1 - (first_frame + of_nat k)) = unat (tf_sample_rate format) div 4 - 1 - (first + k)"
    using t1 i unat_total_frames [OF assms(1)] by simp
qed

text \<open>A packet that is filled holds exactly the samples it should, and they fit.\<close>

lemma packet_is_complete:
  assumes "write_tone_packet output capacity format first_frame count f = (True, ws)"
  shows "map sample_values ws = packet_samples format (unat first_frame) (unat count)"
proof -
  note g = packet_guards [OF assms]
  have "unat capacity < 2 ^ 64" using unsigned_less [of capacity] by simp
  note one = sample_in_packet [OF g(1,2,3) this _ _ refl]
  have "map sample_values (frame_writes format first_frame k) = frame_samples format (unat first_frame) k"
    if "k < unat count" for k
    unfolding frame_writes_def frame_samples_def map_map
    by (rule map_cong [OF refl]) (use one(1,3,4) [OF that] in \<open>simp add: sample_values_def\<close>)
  then have "map (\<lambda>k. map sample_values (frame_writes format first_frame k)) [0..<unat count] =
      map (frame_samples format (unat first_frame)) [0..<unat count]"
    by (intro map_cong) simp_all
  then show ?thesis by (simp only: g(4) packet_samples_def map_concat map_map comp_def)
qed

lemma packet_samples_bound:
  assumes "(offset, index, remaining) \<in> set (packet_samples format first count)"
  shows "offset + sample_size format \<le> count * (unat (tf_channels format) * sample_size format)"
proof -
  let ?c = "unat (tf_channels format)" and ?b = "sample_size format"
  obtain k ch where kc: "k < count" "ch < ?c" "offset = (k * ?c + ch) * ?b"
    using assms by (auto simp: packet_samples_def frame_samples_def)
  have "k * ?c + ch + 1 \<le> (k + 1) * ?c" using kc(2) by simp
  also have "\<dots> \<le> count * ?c" using kc(1) by (intro mult_le_mono1) simp
  finally have "(k * ?c + ch + 1) * ?b \<le> count * ?c * ?b" by (rule mult_le_mono1)
  then show ?thesis by (simp add: kc(3) ac_simps)
qed

text \<open>A packet of exactly the size of its frames is always filled.\<close>

lemma packet_filled:
  fixes block_align :: u16
  assumes "tone_format_valid format" "first_frame \<le> tone_total_frames format"
    "count \<le> tone_total_frames format - first_frame" "ucast block_align = tone_stride format"
    "100 \<le> f" "f \<le> 4000"
  shows "fst (write_tone_packet True (ucast count * ucast block_align) format first_frame count f)"
    "unat (ucast count * ucast block_align :: u64) = unat count * unat (tone_stride format)"
proof -
  note st = tone_stride_bounds [OF assms(1)]
  have c: "unat (ucast count :: u64) = unat count" by (rule unat_ucast_wider) simp
  have s: "unat (tone_stride format) \<le> 32"
    unfolding st(1) using mult_le_mono [OF st(3,4)] by simp
  have "unat count < 2 ^ LENGTH(32)" by (rule unsigned_less)
  then have "unat count * unat (tone_stride format) \<le> (2 ^ 32 - 1) * 32" using s by (intro mult_le_mono) simp_all
  then have "unat (ucast count :: u64) * unat (tone_stride format) < 2 ^ LENGTH(64)" unfolding c by simp
  then show u: "unat (ucast count * ucast block_align :: u64) = unat count * unat (tone_stride format)"
    unfolding assms(4) by (subst unat_mult_lem [THEN iffD1]) (simp_all add: c)
  have "(ucast count :: u64) \<le> ucast count * ucast block_align div tone_stride format"
    using st(2) by (simp add: word_le_nat_alt unat_div_distrib u c)
  then show "fst (write_tone_packet True (ucast count * ucast block_align) format first_frame count f)"
    using assms by (simp add: write_tone_packet_def Let_def not_less [symmetric])
qed


section \<open>The loop plays the tone without gaps\<close>

definition packet_frames :: "TonePacket \<Rightarrow> nat list" where
  "packet_frames p = [unat (tp_first p)..<unat (tp_first p) + unat (tp_count p)]"

text \<open>A packet that the loop hands out: filled, no larger than the device's buffer, its writes exactly the samples
  of its frames, in order, every channel of every frame, and each inside the buffer it asked for.\<close>

definition sound_packet :: "ToneFormat \<Rightarrow> u32 \<Rightarrow> TonePacket \<Rightarrow> bool" where
  "sound_packet format capacity p \<longleftrightarrow> tp_filled p \<and> unat (tp_count p) \<le> unat capacity \<and>
     map sample_values (tp_writes p) = packet_samples format (unat (tp_first p)) (unat (tp_count p)) \<and>
     (\<forall>sw \<in> set (tp_writes p). unat (sw_offset sw) + sample_size format \<le>
        unat (tp_count p) * (unat (tf_channels format) * sample_size format))"

text \<open>The frames of the tone that were written, once for each sample.\<close>

definition written_frames :: "TonePacket \<Rightarrow> nat list" where
  "written_frames p = map (\<lambda>sw. unat (sw_index sw)) (tp_writes p)"

lemma sound_packet_frames:
  assumes "sound_packet format capacity p"
  shows "written_frames p = concat (map (replicate (unat (tf_channels format))) (packet_frames p))"
proof -
  have "written_frames p = map (\<lambda>x. fst (snd x)) (map sample_values (tp_writes p))"
    by (simp add: written_frames_def sample_values_def)
  also have "\<dots> = concat (map (\<lambda>k. replicate (unat (tf_channels format)) (unat (tp_first p) + k)) [0..<unat (tp_count p)])"
    using assms by (simp add: sound_packet_def packet_samples_def frame_samples_def map_concat comp_def map_replicate_const)
  also have "map (\<lambda>k. replicate (unat (tf_channels format)) (unat (tp_first p) + k)) [0..<unat (tp_count p)] =
      map (replicate (unat (tf_channels format))) (packet_frames p)"
    by (rule nth_equalityI) (simp_all add: packet_frames_def)
  finally show ?thesis .
qed

lemma sound_packets_frames:
  assumes "\<forall>p \<in> set ps. sound_packet format capacity p"
  shows "concat (map written_frames ps) =
    concat (map (replicate (unat (tf_channels format))) (concat (map packet_frames ps)))"
  using assms by (induction ps) (auto simp: sound_packet_frames)

definition loop_played ::
    "ToneFormat \<Rightarrow> u32 \<Rightarrow> nat \<Rightarrow> nat \<Rightarrow> TonePreviewState \<times> TonePacket list \<Rightarrow> bool" where
  "loop_played format capacity start attempts = (\<lambda>(r, ps). \<exists>n. start \<le> n \<and> n \<le> unat (tone_total_frames format) \<and>
     concat (map packet_frames ps) = [start..<n] \<and> (r = TonePreviewState.Played \<longrightarrow> n = unat (tone_total_frames format)) \<and>
     length ps \<le> attempts \<and> (\<forall>p \<in> set ps. sound_packet format capacity p))"

lemma loop_played_nothing:
  "start \<le> unat (tone_total_frames format) \<Longrightarrow> r \<noteq> TonePreviewState.Played \<Longrightarrow> loop_played format capacity start attempts (r, [])"
  unfolding loop_played_def by (auto intro!: exI [of _ start])

lemma loop_played_packet:
  assumes "loop_played format capacity (start + unat (tp_count p)) attempts (r, ps)" "sound_packet format capacity p"
    "unat (tp_first p) = start"
  shows "loop_played format capacity start (Suc attempts) (r, p # ps)"
proof -
  obtain n where n: "start + unat (tp_count p) \<le> n" "n \<le> unat (tone_total_frames format)"
    "concat (map packet_frames ps) = [start + unat (tp_count p)..<n]"
    "r = TonePreviewState.Played \<longrightarrow> n = unat (tone_total_frames format)" "length ps \<le> attempts"
    "\<forall>p \<in> set ps. sound_packet format capacity p"
    using assms(1) by (auto simp: loop_played_def)
  have "packet_frames p @ [start + unat (tp_count p)..<n] = [start..<n]"
    using upt_add_eq_append [of start "start + unat (tp_count p)" "n - (start + unat (tp_count p))"] n(1) assms(3)
    by (simp add: packet_frames_def)
  then show ?thesis using n assms(2) unfolding loop_played_def by (auto intro!: exI [of _ n])
qed

lemma loop_played_last:
  assumes "start + unat (tp_count p) \<le> unat (tone_total_frames format)" "sound_packet format capacity p"
    "unat (tp_first p) = start"
    "r = TonePreviewState.Played \<Longrightarrow> start + unat (tp_count p) = unat (tone_total_frames format)"
  shows "loop_played format capacity start (Suc attempts) (r, [p])"
proof (rule loop_played_packet [OF _ assms(2,3)])
  show "loop_played format capacity (start + unat (tp_count p)) attempts (r, [])"
    using assms(1,4) by (cases "r = TonePreviewState.Played")
      (auto simp: loop_played_def intro!: exI [of _ "start + unat (tp_count p)"])
qed

lemma loop_played_later: "loop_played format capacity start attempts x \<Longrightarrow> loop_played format capacity start (Suc attempts) x"
  by (auto simp: loop_played_def)

lemma written_packet_sound:
  assumes "write_tone_packet True (ucast chunk * ucast block_align) spec submitted chunk f = (True, ws)"
    "chunk \<le> capacity"
  shows "sound_packet spec capacity \<lparr>tp_first = submitted, tp_count = chunk, tp_filled = True, tp_writes = ws\<rparr>"
proof -
  have all: "map sample_values ws = packet_samples spec (unat submitted) (unat chunk)"
    by (rule packet_is_complete [OF assms(1)])
  have "unat (sw_offset sw) + sample_size spec \<le> unat chunk * (unat (tf_channels spec) * sample_size spec)"
    if "sw \<in> set ws" for sw
  proof -
    have "sample_values sw \<in> set (packet_samples spec (unat submitted) (unat chunk))"
      using that by (simp flip: all)
    then show ?thesis unfolding sample_values_def by (rule packet_samples_bound)
  qed
  then show ?thesis using all assms(2) by (simp add: sound_packet_def word_le_nat_alt)
qed

text \<open>One attempt that is not refused: the chunk it takes and how the loop goes on.\<close>

lemma tone_loop_attempt:
  assumes "tone_format_valid spec" "ucast block_align = tone_stride spec" "100 \<le> f" "f \<le> 4000"
    "submitted < tone_total_frames spec" "\<not> at_cancelled (w attempts)" "at_padding (w attempts) = Some padding"
    "padding \<le> capacity"
  obtains chunk ws where "chunk = min (tone_total_frames spec - submitted) (capacity - padding)"
    "unat submitted + unat chunk \<le> unat (tone_total_frames spec)"
    "unat (submitted + chunk) = unat submitted + unat chunk"
    "sound_packet spec capacity \<lparr>tp_first = submitted, tp_count = chunk, tp_filled = True, tp_writes = ws\<rparr>"
    "tone_loop w drained spec capacity block_align f (Suc attempts) submitted =
      (if chunk = 0 then tone_loop w drained spec capacity block_align f attempts submitted
       else if \<not> at_buffer (w attempts) then (TonePreviewState.Failed, [])
       else if \<not> at_released (w attempts)
       then (TonePreviewState.Failed, [\<lparr>tp_first = submitted, tp_count = chunk, tp_filled = True, tp_writes = ws\<rparr>])
       else if submitted + chunk = tone_total_frames spec
       then (if drained then TonePreviewState.Played else TonePreviewState.Cancelled,
             [\<lparr>tp_first = submitted, tp_count = chunk, tp_filled = True, tp_writes = ws\<rparr>])
       else map_prod id (Cons \<lparr>tp_first = submitted, tp_count = chunk, tp_filled = True, tp_writes = ws\<rparr>)
         (tone_loop w drained spec capacity block_align f attempts (submitted + chunk)))"
proof -
  let ?total = "tone_total_frames spec"
  define chunk where "chunk = min (?total - submitted) (capacity - padding)"
  have below: "submitted \<le> ?total" using assms(5) by simp
  have "capacity - padding \<le> capacity" using assms(8) by (simp add: word_le_nat_alt unat_sub)
  then have chunk: "chunk \<le> ?total - submitted" "chunk \<le> capacity"
    by (auto simp: chunk_def min_le_iff_disj)
  have room: "unat submitted + unat chunk \<le> unat ?total"
    using chunk(1) below by (simp add: word_le_nat_alt unat_sub)
  have "unat submitted + unat chunk < 2 ^ LENGTH(32)"
    using room by (rule le_less_trans) (rule unsigned_less)
  then have sum: "unat (submitted + chunk) = unat submitted + unat chunk"
    by (rule unat_add_lem [THEN iffD1])
  note fill = packet_filled [OF assms(1) below chunk(1) assms(2-4)]
  obtain b ws where bws: "write_tone_packet True (ucast chunk * ucast block_align) spec submitted chunk f = (b, ws)"
    by fastforce
  then have ws: "write_tone_packet True (ucast chunk * ucast block_align) spec submitted chunk f = (True, ws)"
    using fill(1) by simp
  have sp: "sound_packet spec capacity \<lparr>tp_first = submitted, tp_count = chunk, tp_filled = True, tp_writes = ws\<rparr>"
    by (rule written_packet_sound [OF ws chunk(2)])
  have fits: "\<not> capacity < padding" using assms(8) by simp
  show thesis
    by (rule that [OF chunk_def room sum sp]) (use assms(5-7) fits ws in \<open>simp add: Let_def chunk_def [symmetric]\<close>)
qed

lemma tone_loop_played:
  assumes "tone_format_valid spec" "ucast block_align = tone_stride spec" "100 \<le> f" "f \<le> 4000"
    "submitted \<le> tone_total_frames spec"
  shows "loop_played spec capacity (unat submitted) attempts
    (tone_loop w drained spec capacity block_align f attempts submitted)"
  using assms(5)
proof (induction attempts arbitrary: submitted)
  case 0
  then show ?case by (simp add: loop_played_nothing word_le_nat_alt)
next
  case (Suc attempts)
  let ?total = "tone_total_frames spec"
  have le: "unat submitted \<le> unat ?total" using Suc.prems by (simp add: word_le_nat_alt)
  have stop: "loop_played spec capacity (unat submitted) (Suc attempts) (r, [])"
    if "r \<noteq> TonePreviewState.Played" for r
    by (rule loop_played_nothing [OF le that])
  note stops = stop [of TonePreviewState.Failed, simplified] stop [of TonePreviewState.Cancelled, simplified]
  show ?case
  proof (cases "\<not> submitted < ?total \<or> at_cancelled (w attempts) \<or> at_padding (w attempts) = None \<or>
      (\<exists>p. at_padding (w attempts) = Some p \<and> p > capacity)")
    case True
    then show ?thesis using stops by (auto simp: Let_def split: option.split)
  next
    case False
    then obtain padding where pad: "at_padding (w attempts) = Some padding" "padding \<le> capacity"
      and go: "submitted < ?total" "\<not> at_cancelled (w attempts)" by (auto simp: not_less)
    obtain chunk ws where step: "chunk = min (?total - submitted) (capacity - padding)"
      "unat submitted + unat chunk \<le> unat ?total" "unat (submitted + chunk) = unat submitted + unat chunk"
      and sp: "sound_packet spec capacity \<lparr>tp_first = submitted, tp_count = chunk, tp_filled = True, tp_writes = ws\<rparr>"
      and eq: "tone_loop w drained spec capacity block_align f (Suc attempts) submitted =
      (if chunk = 0 then tone_loop w drained spec capacity block_align f attempts submitted
       else if \<not> at_buffer (w attempts) then (TonePreviewState.Failed, [])
       else if \<not> at_released (w attempts)
       then (TonePreviewState.Failed, [\<lparr>tp_first = submitted, tp_count = chunk, tp_filled = True, tp_writes = ws\<rparr>])
       else if submitted + chunk = ?total
       then (if drained then TonePreviewState.Played else TonePreviewState.Cancelled,
             [\<lparr>tp_first = submitted, tp_count = chunk, tp_filled = True, tp_writes = ws\<rparr>])
       else map_prod id (Cons \<lparr>tp_first = submitted, tp_count = chunk, tp_filled = True, tp_writes = ws\<rparr>)
         (tone_loop w drained spec capacity block_align f attempts (submitted + chunk)))"
      by (rule tone_loop_attempt [where w = w and attempts = attempts, OF assms(1-4) go pad])
    let ?p = "\<lparr>tp_first = submitted, tp_count = chunk, tp_filled = True, tp_writes = ws\<rparr>"
    let ?rest = "tone_loop w drained spec capacity block_align f attempts (submitted + chunk)"
    have one: "loop_played spec capacity (unat submitted) (Suc attempts) (r, [?p])"
      if "r = TonePreviewState.Played \<Longrightarrow> submitted + chunk = ?total" for r
      by (rule loop_played_last [OF _ sp]) (use step(2,3) that in auto)
    have more: "loop_played spec capacity (unat submitted) (Suc attempts) (map_prod id (Cons ?p) ?rest)"
    proof -
      have "submitted + chunk \<le> ?total" using step(2,3) by (simp add: word_le_nat_alt)
      from Suc.IH [OF this] have "loop_played spec capacity (unat submitted + unat (tp_count ?p)) attempts
          (fst ?rest, snd ?rest)" unfolding step(3) by simp
      from loop_played_packet [OF this sp] show ?thesis by (simp add: map_prod_def case_prod_beta)
    qed
    have failed: "loop_played spec capacity (unat submitted) (Suc attempts) (TonePreviewState.Failed, [?p])"
      by (rule one) simp
    show ?thesis
      unfolding eq using loop_played_later [OF Suc.IH [OF Suc.prems]] stops(1) one failed more by simp
  qed
qed

text \<open>A device that keeps up plays the tone: with an idle buffer of at least a hundred-and-thirtieth of it, the bound
  on the attempts is never reached.\<close>

lemma tone_loop_finishes:
  assumes "tone_format_valid spec" "ucast block_align = tone_stride spec" "100 \<le> f" "f \<le> 4000" "capacity \<noteq> 0"
    "\<And>n. w n = \<lparr>at_cancelled = False, at_padding = Some 0, at_buffer = True, at_released = True\<rparr>"
    "submitted < tone_total_frames spec"
    "unat (tone_total_frames spec) - unat submitted \<le> attempts * unat capacity"
  shows "fst (tone_loop w True spec capacity block_align f attempts submitted) = TonePreviewState.Played"
  using assms(7,8)
proof (induction attempts arbitrary: submitted)
  case 0
  then show ?case by (simp add: word_less_nat_alt)
next
  case (Suc attempts)
  let ?total = "tone_total_frames spec"
  have idle: "\<not> at_cancelled (w attempts)" "at_padding (w attempts) = Some 0" "0 \<le> capacity"
    by (simp_all add: assms(6))
  obtain chunk ws where step: "chunk = min (?total - submitted) (capacity - 0)"
    "unat submitted + unat chunk \<le> unat ?total" "unat (submitted + chunk) = unat submitted + unat chunk"
    and eq: "tone_loop w True spec capacity block_align f (Suc attempts) submitted =
      (if chunk = 0 then tone_loop w True spec capacity block_align f attempts submitted
       else if \<not> at_buffer (w attempts) then (TonePreviewState.Failed, [])
       else if \<not> at_released (w attempts)
       then (TonePreviewState.Failed, [\<lparr>tp_first = submitted, tp_count = chunk, tp_filled = True, tp_writes = ws\<rparr>])
       else if submitted + chunk = ?total
       then (if True then TonePreviewState.Played else TonePreviewState.Cancelled,
             [\<lparr>tp_first = submitted, tp_count = chunk, tp_filled = True, tp_writes = ws\<rparr>])
       else map_prod id (Cons \<lparr>tp_first = submitted, tp_count = chunk, tp_filled = True, tp_writes = ws\<rparr>)
         (tone_loop w True spec capacity block_align f attempts (submitted + chunk)))"
    by (rule tone_loop_attempt [where w = w and attempts = attempts, OF assms(1-4) Suc.prems(1) idle])
  have left: "unat (?total - submitted) = unat ?total - unat submitted"
    using Suc.prems(1) by (intro unat_sub) simp
  have some: "chunk \<noteq> 0" using step(1) assms(5) Suc.prems(1) by (auto simp: min_def)
  show ?case
  proof (cases "submitted + chunk = ?total")
    case True
    then show ?thesis unfolding eq using some assms(6) by simp
  next
    case False
    then have "unat submitted + unat chunk \<noteq> unat ?total" using step(3) by (metis word_unat_eq_iff)
    then have less: "unat (submitted + chunk) < unat ?total" and "chunk \<noteq> ?total - submitted"
      using step(2,3) left Suc.prems(1) by (auto simp: word_less_nat_alt)
    then have "chunk = capacity" using step(1) by (simp add: min_def split: if_splits)
    then have "unat ?total - unat (submitted + chunk) \<le> attempts * unat capacity"
      using Suc.prems(2) step(3) by simp
    then have ih: "fst (tone_loop w True spec capacity block_align f attempts (submitted + chunk)) = TonePreviewState.Played"
      using less by (intro Suc.IH) (simp_all add: word_less_nat_alt)
    have "at_buffer (w attempts)" "at_released (w attempts)" by (simp_all add: assms(6))
    then show ?thesis unfolding eq using some False ih by simp
  qed
qed

lemma tone_stop_idle:
  "tpl_worker p = ToneRendering \<longrightarrow> tpl_state p = TonePreviewState.Playing \<Longrightarrow>
     tone_start thread i d p \<noteq> None \<and> start_ringtone thread preset p \<noteq> None"
  by (auto simp: tone_start_def start_ringtone_def tone_launch_def)

text \<open>Whatever the file is called, the alias that was opened is closed, and the path is the quoted argument.\<close>

lemma mci_alias_closed:
  assumes "play_windows_ringtone r w i d preset mp3 = (result, packets, commands)" "commands \<noteq> []"
  shows "packets = [] \<and> wc CHR 0x22 \<notin> set mp3 \<and>
    hd commands = W ''open '' @ [wc CHR 0x22] @ mp3 @ [wc CHR 0x22] @ W '' type mpegvideo alias '' @ mci_alias w \<and>
    (mci_open w \<longrightarrow> last commands = W ''close '' @ mci_alias w)"
  using assms by (auto simp: play_windows_ringtone_def valid_mp3_path_def Let_def split: if_splits prod.splits)

section \<open>Properties\<close>

text \<open>
  C35. A preview that is reported as played was played completely, and no packet leaves its buffer. Whatever the
  device answers, the samples written into the packets are those of the tone's frames in order, each frame
  once for every channel, without a gap and without a repetition; if the result is \<open>Played\<close>, of all its
  frames, a quarter of a second. There are at most 130 packets, each filled and no larger than the device's
  buffer; its samples are written one after the other from its start to its end, none outside it, and each
  is computed from its frame and the frames that remain, by arithmetic that does not wrap around.
\<close>

theorem played_tone_is_complete:
  assumes "render_preview w endpoint_id multimedia_default preset = (r, ps)" "ps \<noteq> [] \<or> r = TonePreviewState.Played"
  shows "\<exists>m type capacity format n. ra_mix w = Some m \<and> mix_sample_type m = Some type \<and>
    ra_capacity w = Some capacity \<and>
    format = \<lparr>tf_sample_rate = mx_rate m, tf_channels = mx_channels m, tf_type = type\<rparr> \<and>
    tone_format_valid format \<and> n \<le> unat (mx_rate m) div 4 \<and>
    concat (map written_frames ps) = concat (map (replicate (unat (mx_channels m))) [0..<n]) \<and>
    concat (map packet_frames ps) = [0..<n] \<and>
    (r = TonePreviewState.Played \<longrightarrow> n = unat (mx_rate m) div 4) \<and>
    length ps \<le> 130 \<and> (\<forall>p \<in> set ps. sound_packet format capacity p)"
proof -
  have "render_tone w preset = (r, ps)"
    using assms by (auto simp: render_preview_def split: if_splits)
  then obtain m type capacity where m: "ra_mix w = Some m" "mix_sample_type m = Some type" "ra_capacity w = Some capacity"
    "tone_format_valid \<lparr>tf_sample_rate = mx_rate m, tf_channels = mx_channels m, tf_type = type\<rparr>"
    "ucast (mx_block_align m) = tone_stride \<lparr>tf_sample_rate = mx_rate m, tf_channels = mx_channels m, tf_type = type\<rparr>"
    "tone_loop (ra_attempt w) (ra_drained w) \<lparr>tf_sample_rate = mx_rate m, tf_channels = mx_channels m, tf_type = type\<rparr>
       capacity (mx_block_align m) (preset_frequency preset) 130 0 = (r, ps)"
    using assms(2) by (auto simp: render_tone_def Let_def split: if_splits option.splits)
  let ?f = "\<lparr>tf_sample_rate = mx_rate m, tf_channels = mx_channels m, tf_type = type\<rparr>"
  have freq: "100 \<le> preset_frequency preset" "preset_frequency preset \<le> 4000" by (simp_all add: preset_frequency_def)
  have total: "unat (tone_total_frames ?f) = unat (mx_rate m) div 4"
    using unat_total_frames [OF m(4)] by simp
  have "loop_played ?f capacity (unat (0 :: u32)) 130
      (tone_loop (ra_attempt w) (ra_drained w) ?f capacity (mx_block_align m) (preset_frequency preset) 130 0)"
    by (rule tone_loop_played [OF m(4,5) freq]) simp
  then have "loop_played ?f capacity 0 130 (r, ps)" unfolding m(6) by simp
  then obtain n where "n \<le> unat (mx_rate m) div 4" "concat (map packet_frames ps) = [0..<n]"
    "r = TonePreviewState.Played \<longrightarrow> n = unat (mx_rate m) div 4" "length ps \<le> 130"
    "\<forall>p \<in> set ps. sound_packet ?f capacity p"
    unfolding loop_played_def total by auto
  moreover from sound_packets_frames [OF this(5)] this(2)
  have "concat (map written_frames ps) = concat (map (replicate (unat (mx_channels m))) [0..<n])" by simp
  ultimately show ?thesis using m(1-4) by blast
qed

definition sample_render :: RenderAnswers where
  "sample_render = \<lparr>ra_cancelled_first = False, ra_com = True, ra_enumerator = True, ra_device = True,
     ra_device_active = True, ra_client = True,
     ra_mix = Some \<lparr>mx_tag = PlainTag TagPcm, mx_bits = 16, mx_rate = 8000, mx_channels = 1, mx_block_align = 2\<rparr>,
     ra_initialized = True, ra_capacity = Some 1200, ra_sink = True, ra_cancelled_later = False, ra_started = True,
     ra_attempt = (\<lambda>n. \<lparr>at_cancelled = False, at_padding = Some 0, at_buffer = True, at_released = True\<rparr>),
     ra_drained = True\<rparr>"

theorem played_tone_is_complete_witness:
  "\<exists>ps. render_preview sample_render (W ''speaker'') False 2 = (TonePreviewState.Played, ps) \<and>
     concat (map written_frames ps) = [0..<2000]"
proof -
  obtain r ps where p: "render_preview sample_render (W ''speaker'') False 2 = (r, ps)" by fastforce
  let ?f = "\<lparr>tf_sample_rate = 8000, tf_channels = 1, tf_type = ToneSampleType.Pcm16\<rparr>"
  have "fst (tone_loop (ra_attempt sample_render) True ?f 1200 2 660 130 0) = TonePreviewState.Played"
    by (rule tone_loop_finishes)
      (simp_all add: sample_render_def tone_format_valid_def tone_stride_def tone_sample_bytes_def tone_total_frames_def)
  then have "fst (render_preview sample_render (W ''speaker'') False 2) = TonePreviewState.Played"
    by (simp add: sample_render_def render_preview_def render_tone_def mix_sample_type_def tone_format_valid_def
        tone_stride_def tone_sample_bytes_def tone_total_frames_def preset_frequency_def W_def del: tone_loop.simps)
  then have r: "r = TonePreviewState.Played" using p by simp
  have "unat (8000 :: u32) div 4 = 2000" by simp
  moreover have "concat (map (replicate (Suc 0)) xs) = xs" for xs :: "nat list" by (induction xs) simp_all
  ultimately show ?thesis using played_tone_is_complete [OF p] p r by (auto simp: sample_render_def)
qed

end
