(* ===== verification/Windows_Process.thy ===== *)
theory Windows_Process
  imports Axv_Prelude "HOL-Library.Multiset"
begin

text \<open>
  The child process the laboratory runs: \<open>windows_argument_quote.h\<close> and \<open>windows_process.h\<close> and
  \<open>.cpp\<close>. What Windows answers is an argument of every operation; what the operation asks of it is a
  list of \<open>OsCall\<close>s in order, so that the handles open at any moment are those the calls opened and
  did not close. A null handle is \<open>0\<close>, and closing it is what the source does: nothing. The
  destructors of the scoped locals run at the \<open>return\<close> that leaves the function, or before the
  handler of \<open>std::bad_alloc\<close>.
\<close>

unbundle bit_operations_syntax

section \<open>Quoting one argument\<close>

abbreviation backslash :: wchar where
  "backslash \<equiv> 0x5C"

abbreviation quotation :: wchar where
  "quotation \<equiv> 0x22"

text \<open>The loop, with the count of backslashes just read.\<close>

fun quote_loop :: "nat \<Rightarrow> wstr \<Rightarrow> wstr" where
  "quote_loop slashes [] = replicate (slashes * 2) backslash"
| "quote_loop slashes (c # value) =
     (if c = backslash then quote_loop (slashes + 1) value
      else replicate (if c = quotation then slashes * 2 + 1 else slashes) backslash @
           c # quote_loop 0 value)"

definition quote_windows_argument :: "wstr \<Rightarrow> wstr" where
  "quote_windows_argument value = quotation # quote_loop 0 value @ [quotation]"

text \<open>
  The documented rules by which the C runtime of the child reads an argument back. \<open>scan q s\<close> is the
  text of the argument that starts at \<open>s\<close> and what follows it, \<open>q\<close> inside quotation marks. Backslashes
  stand for themselves unless a quotation mark follows; then two of them are one, and an odd one makes
  the quotation mark a character of the argument. A blank outside quotation marks ends it.
\<close>

definition prepend :: "wstr \<Rightarrow> wstr \<times> wstr \<Rightarrow> wstr \<times> wstr" where
  "prepend s r = (s @ fst r, snd r)"

definition blank_char :: "wchar \<Rightarrow> bool" where
  "blank_char c \<longleftrightarrow> c = 0x20 \<or> c = 0x09"

definition runtime_rules :: "(bool \<Rightarrow> wstr \<Rightarrow> wstr \<times> wstr) \<Rightarrow> bool" where
  "runtime_rules scan \<longleftrightarrow>
     (\<forall>n r. scan False (replicate (2 * n) backslash @ quotation # r) = prepend (replicate n backslash) (scan True r)) \<and>
     (\<forall>n r. (r = [] \<or> blank_char (hd r)) \<longrightarrow>
        scan True (replicate (2 * n) backslash @ quotation # r) = prepend (replicate n backslash) (scan False r)) \<and>
     (\<forall>q n r. scan q (replicate (2 * n + 1) backslash @ quotation # r) =
        prepend (replicate n backslash @ [quotation]) (scan q r)) \<and>
     (\<forall>q n c r. c \<noteq> backslash \<and> c \<noteq> quotation \<and> (q \<or> \<not> blank_char c) \<longrightarrow>
        scan q (replicate n backslash @ c # r) = prepend (replicate n backslash @ [c]) (scan q r)) \<and>
     (\<forall>r. r = [] \<or> blank_char (hd r) \<longrightarrow> scan False r = ([], r))"

lemma prepend_prepend [simp]: "prepend a (prepend b r) = prepend (a @ b) r"
  by (simp add: prepend_def)

lemma prepend_Nil [simp]: "prepend [] r = r"
  by (simp add: prepend_def)

lemmas scan_opens = iffD1 [OF runtime_rules_def, THEN conjunct1, rule_format]
lemmas scan_closes = iffD1 [OF runtime_rules_def, THEN conjunct2, THEN conjunct1, rule_format]
lemmas scan_escaped = iffD1 [OF runtime_rules_def, THEN conjunct2, THEN conjunct2, THEN conjunct1, rule_format]
lemmas scan_plain = iffD1 [OF runtime_rules_def, THEN conjunct2, THEN conjunct2, THEN conjunct2, THEN conjunct1, rule_format]
lemmas scan_ends = iffD1 [OF runtime_rules_def, THEN conjunct2, THEN conjunct2, THEN conjunct2, THEN conjunct2, rule_format]

lemma scan_quoted:
  assumes "runtime_rules scan" "r = [] \<or> blank_char (hd r)"
  shows "scan True (quote_loop n s @ quotation # r) = (replicate n backslash @ s, r)"
proof (induction s arbitrary: n)
  case Nil
  show ?case
    using scan_closes [OF assms, where n = n] scan_ends [OF assms] by (simp add: prepend_def mult.commute)
next
  case (Cons c s)
  consider "c = backslash" | "c = quotation" | "c \<noteq> backslash" "c \<noteq> quotation" by blast
  then show ?case
  proof cases
    case 1
    then show ?thesis using Cons [of "Suc n"] by (simp add: replicate_app_Cons_same)
  next
    case 2
    then show ?thesis
      using scan_escaped [OF assms(1), where q = True and n = n and r = "quote_loop 0 s @ quotation # r"] Cons [of 0]
      by (simp add: prepend_def mult.commute)
  next
    case 3
    then show ?thesis
      using scan_plain [OF assms(1), where c = c and q = True and n = n and r = "quote_loop 0 s @ quotation # r"] Cons [of 0]
      by (simp add: prepend_def)
  qed
qed

lemma scan_argument:
  "runtime_rules scan \<Longrightarrow> r = [] \<or> blank_char (hd r) \<Longrightarrow>
     scan False (quote_windows_argument s @ r) = (s, r)"
  using scan_opens [where scan = scan and n = 0 and r = "quote_loop 0 s @ quotation # r"] scan_quoted [of scan r 0 s]
  by (simp add: quote_windows_argument_def)

text \<open>A path, which has no quotation mark and does not end in a backslash, is only put in quotation
  marks: the program name of a command line is read without the rules for backslashes.\<close>

lemma quote_loop_plain:
  "quotation \<notin> set s \<Longrightarrow> s = [] \<or> last s \<noteq> backslash \<Longrightarrow> s \<noteq> [] \<or> n = 0 \<Longrightarrow>
     quote_loop n s = replicate n backslash @ s"
proof (induction s arbitrary: n)
  case (Cons c s)
  then show ?case
  proof (cases "c = backslash")
    case True
    then have "s \<noteq> []" using Cons.prems(2) by auto
    then show ?thesis using Cons True by (simp add: replicate_app_Cons_same)
  next
    case False
    have "s = [] \<or> last s \<noteq> backslash" using Cons.prems(2) by (auto split: if_splits)
    then have "quote_loop 0 s = s" using Cons.IH [of 0] Cons.prems(1) by auto
    then show ?thesis using Cons.prems(1) False by auto
  qed
qed simp

lemma quote_plain_path:
  "quotation \<notin> set s \<Longrightarrow> s = [] \<or> last s \<noteq> backslash \<Longrightarrow>
     quote_windows_argument s = quotation # s @ [quotation]"
  using quote_loop_plain [of s 0] by (simp add: quote_windows_argument_def)

section \<open>What is asked of Windows\<close>

text \<open>What \<open>CreateProcessW\<close> is given: the application name, which is the image that runs, the command line, the
  inheritance flag, the creation flags, the working directory, and of the extended start-up information
  the list of handles the child may inherit, the flags and the three standard handles.\<close>

abbreviation CREATE_SUSPENDED :: u32 where "CREATE_SUSPENDED \<equiv> 0x00000004"
abbreviation EXTENDED_STARTUPINFO_PRESENT :: u32 where "EXTENDED_STARTUPINFO_PRESENT \<equiv> 0x00080000"
abbreviation CREATE_NO_WINDOW :: u32 where "CREATE_NO_WINDOW \<equiv> 0x08000000"
abbreviation STARTF_USESTDHANDLES :: u32 where "STARTF_USESTDHANDLES \<equiv> 0x00000100"

record ProcessCreation =
  pc_application :: wstr
  pc_command :: wstr
  pc_inherit :: bool
  pc_flags :: u32
  pc_directory :: wstr
  pc_handle_list :: "u64 list"
  pc_startup_flags :: u32
  pc_stdin :: u64
  pc_stdout :: u64
  pc_stderr :: u64

text \<open>Handles are numbers; \<open>HandlesOpened\<close> lists what a call returned.\<close>

datatype OsCall =
    JobCreated u64
  | KillOnJobClose u64
  | HandlesOpened "u64 list"
  | ProcessCreated u64 u64 ProcessCreation
  | AssignedToJob u64 u64
  | Resumed u64
  | ProcessTerminated u64
  | JobTerminated u64
  | WaitedFor u64
  | QuitWritten u64
  | QuitWorker u64
  | HandleClosed u64

text \<open>\<open>if (h) CloseHandle(h)\<close>, and \<open>ScopedHandle::close\<close>.\<close>

definition close_handle :: "u64 \<Rightarrow> OsCall list" where
  "close_handle h = (if h = 0 then [] else [HandleClosed h])"

datatype ProcessStatus = Stopped | Running | Exited | Failed
datatype GracefulStopResult = AlreadyStopped | ExitedAfterQuit | Forced | StopFailed
datatype WaitResult = WaitObject | WaitTimeout | WaitFailed

text \<open>The error codes the source names.\<close>

abbreviation ERROR_SUCCESS :: u32 where "ERROR_SUCCESS \<equiv> 0"
abbreviation ERROR_FILE_NOT_FOUND :: u32 where "ERROR_FILE_NOT_FOUND \<equiv> 2"
abbreviation ERROR_INVALID_HANDLE :: u32 where "ERROR_INVALID_HANDLE \<equiv> 6"
abbreviation ERROR_NOT_ENOUGH_MEMORY :: u32 where "ERROR_NOT_ENOUGH_MEMORY \<equiv> 8"
abbreviation ERROR_WRITE_FAULT :: u32 where "ERROR_WRITE_FAULT \<equiv> 29"
abbreviation ERROR_INVALID_PARAMETER :: u32 where "ERROR_INVALID_PARAMETER \<equiv> 87"
abbreviation ERROR_ALREADY_EXISTS :: u32 where "ERROR_ALREADY_EXISTS \<equiv> 183"

record WindowsProcess =
  wp_job :: u64
  wp_process :: u64
  wp_stdin_write :: u64
  wp_process_id :: u32
  wp_last_error :: u32
  wp_exit_code :: "u32 option"
  wp_state :: ProcessStatus

definition new_process :: WindowsProcess where
  "new_process = \<lparr>wp_job = 0, wp_process = 0, wp_stdin_write = 0, wp_process_id = 0,
     wp_last_error = ERROR_SUCCESS, wp_exit_code = None, wp_state = ProcessStatus.Stopped\<rparr>"

definition release_handles :: "WindowsProcess \<Rightarrow> OsCall list \<times> WindowsProcess" where
  "release_handles p =
     (close_handle (wp_stdin_write p) @ close_handle (wp_process p) @ close_handle (wp_job p),
      p\<lparr>wp_stdin_write := 0, wp_process := 0, wp_job := 0, wp_process_id := 0\<rparr>)"

section \<open>Polling and stopping\<close>

text \<open>The answers of the wait, of \<open>GetExitCodeProcess\<close> (\<open>None\<close>: it fails) and of
  \<open>GetLastError\<close> after the call that failed.\<close>

record PollAnswers =
  pa_wait :: WaitResult
  pa_exit_code :: "u32 option"
  pa_error :: u32

definition process_poll ::
    "PollAnswers \<Rightarrow> WindowsProcess \<Rightarrow> ProcessStatus \<times> OsCall list \<times> WindowsProcess" where
  "process_poll w p =
     (if wp_process p = 0 then (wp_state p, [], p)
      else (let waited = WaitedFor (wp_process p)
            in case pa_wait w of
                 WaitTimeout \<Rightarrow> (ProcessStatus.Running, [waited], p\<lparr>wp_state := ProcessStatus.Running\<rparr>)
               | WaitObject \<Rightarrow>
                   (let p = (case pa_exit_code w of
                               Some code \<Rightarrow> p\<lparr>wp_exit_code := Some code\<rparr>
                             | None \<Rightarrow> p\<lparr>wp_last_error := pa_error w, wp_exit_code := None\<rparr>);
                        (calls, p) = release_handles p
                    in (ProcessStatus.Exited, waited # calls, p\<lparr>wp_state := ProcessStatus.Exited\<rparr>))
               | WaitFailed \<Rightarrow>
                   (ProcessStatus.Failed, [waited],
                    p\<lparr>wp_last_error := pa_error w, wp_state := ProcessStatus.Failed\<rparr>)))"

record StopAnswers =
  st_terminated :: bool
  st_terminate_error :: u32
  st_waited :: WaitResult
  st_wait_error :: u32

definition process_stop ::
    "StopAnswers \<Rightarrow> WindowsProcess \<Rightarrow> bool \<times> OsCall list \<times> WindowsProcess" where
  "process_stop w p =
     (let p = p\<lparr>wp_exit_code := None\<rparr>
      in if wp_process p = 0
         then (let (calls, p) = release_handles p
               in (True, calls, p\<lparr>wp_state := ProcessStatus.Stopped\<rparr>))
         else (let asked = [JobTerminated (wp_job p), WaitedFor (wp_process p)];
                   p = (if \<not> st_terminated w then p\<lparr>wp_last_error := st_terminate_error w\<rparr> else p);
                   p = (if st_waited w = WaitFailed then p\<lparr>wp_last_error := st_wait_error w\<rparr> else p);
                   (calls, p) = release_handles p
               in (st_terminated w \<and> st_waited w = WaitObject, asked @ calls,
                   p\<lparr>wp_state := ProcessStatus.Stopped\<rparr>)))"

section \<open>Asking the child to quit\<close>

text \<open>\<open>qa_sent\<close>: \<open>WriteFile\<close> succeeded; \<open>qa_all\<close>: it wrote the whole command.\<close>

record QuitAnswers =
  qa_sent :: bool
  qa_all :: bool
  qa_closed :: bool
  qa_write_error :: u32
  qa_close_error :: u32
  qa_duplicate :: "u64 option"
  qa_worker :: "u64 option"

definition request_quit ::
    "QuitAnswers \<Rightarrow> WindowsProcess \<Rightarrow> bool \<times> OsCall list \<times> WindowsProcess" where
  "request_quit w p =
     (if wp_process p = 0 \<or> wp_stdin_write p = 0
      then (False, [], p\<lparr>wp_last_error := ERROR_INVALID_HANDLE\<rparr>)
      else (let calls = [QuitWritten (wp_stdin_write p), HandleClosed (wp_stdin_write p)];
                p = (if \<not> qa_sent w then p\<lparr>wp_last_error := qa_write_error w\<rparr>
                     else if \<not> qa_all w then p\<lparr>wp_last_error := ERROR_WRITE_FAULT\<rparr> else p);
                p = (if \<not> qa_closed w then p\<lparr>wp_last_error := qa_close_error w\<rparr> else p)
            in (qa_sent w \<and> qa_all w \<and> qa_closed w, calls, p\<lparr>wp_stdin_write := 0\<rparr>)))"

text \<open>The duplicate goes to a detached thread, \<open>send_quit_on_worker\<close>, which writes to it once and
  closes it.\<close>

definition request_quit_async ::
    "QuitAnswers \<Rightarrow> WindowsProcess \<Rightarrow> bool \<times> OsCall list \<times> WindowsProcess" where
  "request_quit_async w p =
     (if wp_process p = 0 \<or> wp_stdin_write p = 0
      then (False, [], p\<lparr>wp_last_error := ERROR_INVALID_HANDLE\<rparr>)
      else case qa_duplicate w of
        None \<Rightarrow> (False, [], p\<lparr>wp_last_error := qa_write_error w\<rparr>)
      | Some duplicate \<Rightarrow>
          (case qa_worker w of
             None \<Rightarrow> (False, HandlesOpened [duplicate] # close_handle duplicate,
                      p\<lparr>wp_last_error := qa_close_error w\<rparr>)
           | Some worker \<Rightarrow>
               (True, [HandlesOpened [duplicate], HandlesOpened [worker], QuitWorker duplicate] @
                  close_handle worker @ [HandleClosed (wp_stdin_write p)],
                p\<lparr>wp_stdin_write := 0, wp_last_error := ERROR_SUCCESS\<rparr>)))"

definition send_quit_on_worker :: "u64 \<Rightarrow> OsCall list" where
  "send_quit_on_worker duplicate = QuitWritten duplicate # close_handle duplicate"

definition stop_gracefully ::
    "QuitAnswers \<Rightarrow> PollAnswers \<Rightarrow> StopAnswers \<Rightarrow> WindowsProcess \<Rightarrow>
     GracefulStopResult \<times> OsCall list \<times> WindowsProcess" where
  "stop_gracefully qw pw sw p =
     (if wp_process p = 0
      then (let (r, calls, p) = process_stop sw p in (GracefulStopResult.AlreadyStopped, calls, p))
      else (let (sent, quit, p) = request_quit qw p; waited = WaitedFor (wp_process p)
            in if pa_wait pw = WaitObject
               then (let p = (case pa_exit_code pw of
                                Some code \<Rightarrow> p\<lparr>wp_exit_code := Some code\<rparr>
                              | None \<Rightarrow> p\<lparr>wp_last_error := pa_error pw, wp_exit_code := None\<rparr>);
                         (calls, p) = release_handles p
                     in (GracefulStopResult.ExitedAfterQuit, quit @ waited # calls,
                         p\<lparr>wp_state := ProcessStatus.Stopped\<rparr>))
               else (let p = (if pa_wait pw = WaitFailed then p\<lparr>wp_last_error := pa_error pw\<rparr> else p);
                         p = (if \<not> st_terminated sw then p\<lparr>wp_last_error := st_terminate_error sw\<rparr> else p);
                         p = (if st_waited sw = WaitFailed then p\<lparr>wp_last_error := st_wait_error sw\<rparr> else p);
                         asked = [JobTerminated (wp_job p), WaitedFor (wp_process p)];
                         (calls, p) = release_handles (p\<lparr>wp_exit_code := None\<rparr>);
                         stopped = (st_terminated sw \<and> st_waited sw = WaitObject)
                     in (if stopped then GracefulStopResult.Forced else GracefulStopResult.StopFailed,
                         quit @ waited # asked @ calls,
                         p\<lparr>wp_state := (if stopped then ProcessStatus.Stopped else ProcessStatus.Failed)\<rparr>))))"

section \<open>Starting\<close>

text \<open>The \<open>_memory\<close> answers are false where an allocation throws; \<open>sa_executable\<close> is the absolute path
  of a regular file and \<open>sa_directory\<close> its \<open>parent_path()\<close>, \<open>sa_profile\<close> is the absolute path of an ordinary
  directory; \<open>None\<close> where a check fails. The handles of \<open>sa_created\<close> are the process and its thread.\<close>

record ProcessStartAnswers =
  sa_poll :: PollAnswers
  sa_stop :: StopAnswers
  sa_paths_memory :: bool
  sa_executable :: "wstr option"
  sa_directory :: wstr
  sa_profile :: "wstr option"
  sa_job :: u64
  sa_limits :: bool
  sa_pipe :: "(u64 \<times> u64) option"
  sa_not_inherited :: bool
  sa_nul :: "u64 option"
  sa_attribute_memory :: bool
  sa_attribute_list :: bool
  sa_command_memory :: bool
  sa_created :: "(u64 \<times> u64 \<times> u32) option"
  sa_assigned :: bool
  sa_resumed :: bool
  sa_error :: u32

text \<open>Leaving with \<open>release_handles(); state_ = Failed; return false\<close>: the scoped handles go last.
  Leaving by \<open>std::bad_alloc\<close>: they go first.\<close>

definition start_failed ::
    "u32 \<Rightarrow> OsCall list \<Rightarrow> OsCall list \<Rightarrow> WindowsProcess \<Rightarrow> bool \<times> OsCall list \<times> WindowsProcess" where
  "start_failed error calls scoped p =
     (let (released, p) = release_handles p
      in (False, calls @ released @ scoped,
          p\<lparr>wp_last_error := error, wp_state := ProcessStatus.Failed\<rparr>))"

definition start_out_of_memory ::
    "OsCall list \<Rightarrow> OsCall list \<Rightarrow> WindowsProcess \<Rightarrow> bool \<times> OsCall list \<times> WindowsProcess" where
  "start_out_of_memory calls scoped p =
     (let (released, p) = release_handles p
      in (False, calls @ scoped @ released,
          p\<lparr>wp_last_error := ERROR_NOT_ENOUGH_MEMORY, wp_state := ProcessStatus.Failed\<rparr>))"

definition child_command :: "wstr \<Rightarrow> wstr \<Rightarrow> wstr" where
  "child_command executable profile = quote_windows_argument executable @
     (if profile = [] then [] else W '' -f '' @ quote_windows_argument profile)"

definition child_creation :: "wstr \<Rightarrow> wstr \<Rightarrow> wstr \<Rightarrow> u64 \<Rightarrow> u64 \<Rightarrow> ProcessCreation" where
  "child_creation executable command directory child_read nul =
     \<lparr>pc_application = executable, pc_command = command, pc_inherit = True,
      pc_flags = CREATE_SUSPENDED OR CREATE_NO_WINDOW OR EXTENDED_STARTUPINFO_PRESENT,
      pc_directory = directory, pc_handle_list = [child_read, nul],
      pc_startup_flags = STARTF_USESTDHANDLES,
      pc_stdin = child_read, pc_stdout = nul, pc_stderr = nul\<rparr>"

lemma child_creation_handles [simp]:
  "pc_handle_list (child_creation e c d r n) = [r, n]" "pc_stdin (child_creation e c d r n) = r"
  "pc_stdout (child_creation e c d r n) = n" "pc_stderr (child_creation e c d r n) = n"
  by (simp_all add: child_creation_def)

text \<open>From \<open>CreateProcessW\<close> on, with the pipe and the null device open.\<close>

definition create_child ::
    "ProcessStartAnswers \<Rightarrow> OsCall list \<Rightarrow> wstr \<Rightarrow> wstr \<Rightarrow> u64 \<Rightarrow> u64 \<Rightarrow> u64 \<Rightarrow> WindowsProcess \<Rightarrow>
     bool \<times> OsCall list \<times> WindowsProcess" where
  "create_child w calls executable command child_read parent_write nul p =
     (let closed = close_handle child_read @ close_handle nul
      in case sa_created w of
           None \<Rightarrow> start_failed (sa_error w) (calls @ closed) (close_handle parent_write) p
         | Some (process, thread, pid) \<Rightarrow>
             (let creation = child_creation executable command (sa_directory w) child_read nul;
                  calls = calls @ ProcessCreated process thread creation # closed;
                  p = p\<lparr>wp_stdin_write := parent_write, wp_process := process, wp_process_id := pid\<rparr>
              in if \<not> sa_assigned w
                 then start_failed (sa_error w)
                        (calls @ [ProcessTerminated process, WaitedFor process, HandleClosed thread]) [] p
                 else (let calls = calls @ [AssignedToJob process (wp_job p)]
                       in if \<not> sa_resumed w
                          then start_failed (sa_error w)
                                 (calls @ [JobTerminated (wp_job p), WaitedFor process, HandleClosed thread]) [] p
                          else (True, calls @ [Resumed thread, HandleClosed thread],
                                p\<lparr>wp_state := ProcessStatus.Running\<rparr>))))"

text \<open>From \<open>CreateJobObjectW\<close> on.\<close>

definition launch ::
    "ProcessStartAnswers \<Rightarrow> wstr \<Rightarrow> wstr \<Rightarrow> WindowsProcess \<Rightarrow> bool \<times> OsCall list \<times> WindowsProcess" where
  "launch w executable command p =
     (let job = sa_job w; error = sa_error w; p = p\<lparr>wp_job := job\<rparr>
      in if job = 0 then (False, [], p\<lparr>wp_last_error := error, wp_state := ProcessStatus.Failed\<rparr>)
         else if \<not> sa_limits w then start_failed error [JobCreated job] [] p
         else (let calls = [JobCreated job, KillOnJobClose job]
               in case sa_pipe w of
                    None \<Rightarrow> start_failed error calls [] p
                  | Some (child_read, parent_write) \<Rightarrow>
                      (let calls = calls @ [HandlesOpened [child_read, parent_write]];
                           scoped = close_handle parent_write @ close_handle child_read
                       in if \<not> sa_not_inherited w then start_failed error calls scoped p
                          else case sa_nul w of
                            None \<Rightarrow> start_failed error calls scoped p
                          | Some nul \<Rightarrow>
                              (let calls = calls @ [HandlesOpened [nul]]; scoped = close_handle nul @ scoped
                               in if \<not> sa_attribute_memory w then start_out_of_memory calls scoped p
                                  else if \<not> sa_attribute_list w then start_failed error calls scoped p
                                  else if \<not> sa_command_memory w then start_out_of_memory calls scoped p
                                  else create_child w calls executable command child_read parent_write nul p))))"

definition process_start ::
    "bool \<Rightarrow> ProcessStartAnswers \<Rightarrow> WindowsProcess \<Rightarrow> bool \<times> OsCall list \<times> WindowsProcess" where
  "process_start config_given w p =
     (case process_poll (sa_poll w) p of (status, polled, p) \<Rightarrow>
      if status = ProcessStatus.Running then (False, polled, p\<lparr>wp_last_error := ERROR_ALREADY_EXISTS\<rparr>)
      else case process_stop (sa_stop w) p of (stopped_ok, stopped, p) \<Rightarrow>
      let p = p\<lparr>wp_exit_code := None, wp_last_error := ERROR_SUCCESS\<rparr>; before = polled @ stopped in
      if \<not> sa_paths_memory w then start_out_of_memory before [] p
      else case sa_executable w of
          None \<Rightarrow> (False, before, p\<lparr>wp_last_error := ERROR_FILE_NOT_FOUND, wp_state := ProcessStatus.Failed\<rparr>)
        | Some executable \<Rightarrow>
            if config_given \<and> sa_profile w = None
            then (False, before,
                  p\<lparr>wp_last_error := ERROR_INVALID_PARAMETER, wp_state := ProcessStatus.Failed\<rparr>)
            else case launch w executable (child_command executable (if config_given then the (sa_profile w) else [])) p of
                (ok, calls, p) \<Rightarrow> (ok, before @ calls, p))"

section \<open>Handles\<close>

fun opened_by :: "OsCall \<Rightarrow> u64 multiset" where
  "opened_by (JobCreated j) = {#j#}"
| "opened_by (HandlesOpened hs) = mset hs"
| "opened_by (ProcessCreated p t creation) = {#p, t#}"
| "opened_by _ = {#}"

fun used_by :: "OsCall \<Rightarrow> u64 list" where
  "used_by (KillOnJobClose j) = [j]"
| "used_by (ProcessCreated p t creation) =
     pc_handle_list creation @ [pc_stdin creation, pc_stdout creation, pc_stderr creation]"
| "used_by (AssignedToJob p j) = [p, j]"
| "used_by (Resumed t) = [t]"
| "used_by (ProcessTerminated p) = [p]"
| "used_by (JobTerminated j) = [j]"
| "used_by (WaitedFor p) = [p]"
| "used_by (QuitWritten h) = [h]"
| "used_by (QuitWorker h) = [h]"
| "used_by (HandleClosed h) = [h]"
| "used_by _ = []"

text \<open>The open handles after the calls; \<open>None\<close> as soon as one of them uses or closes a handle that is
  not open.\<close>

fun handles_after :: "OsCall list \<Rightarrow> u64 multiset \<Rightarrow> u64 multiset option" where
  "handles_after [] t = Some t"
| "handles_after (c # cs) t =
     (if list_all (\<lambda>h. h \<in># t) (used_by c)
      then handles_after cs ((case c of HandleClosed h \<Rightarrow> t - {#h#} | _ \<Rightarrow> t) + opened_by c) else None)"

definition handle_set :: "u64 \<Rightarrow> u64 multiset" where
  "handle_set h = (if h = 0 then {#} else {#h#})"

definition held :: "WindowsProcess \<Rightarrow> u64 multiset" where
  "held p = handle_set (wp_stdin_write p) + handle_set (wp_process p) + handle_set (wp_job p)"

lemma handles_after_append:
  "handles_after (a @ b) t = Option.bind (handles_after a t) (handles_after b)"
  by (induction a arbitrary: t) auto

lemma handles_close [simp]:
  "handles_after (close_handle h) (handle_set h + t) = Some t"
  "handles_after (close_handle h) (t + handle_set h) = Some t"
  by (simp_all add: close_handle_def handle_set_def)

lemma handles_release:
  "handles_after (fst (release_handles p)) (held p + t) = Some t"
proof -
  have "handles_after (close_handle (wp_process p)) (handle_set (wp_process p) + (handle_set (wp_job p) + t)) =
      Some (handle_set (wp_job p) + t)"
    by (rule handles_close)
  then show ?thesis
    by (simp add: release_handles_def held_def handles_after_append add.assoc)
qed

definition process_ok :: "WindowsProcess \<Rightarrow> bool" where
  "process_ok p \<longleftrightarrow> (wp_process p \<noteq> 0 \<longrightarrow> wp_job p \<noteq> 0) \<and> (wp_job p \<noteq> 0 \<longrightarrow> wp_process p \<noteq> 0) \<and> (wp_stdin_write p \<noteq> 0 \<longrightarrow> wp_process p \<noteq> 0) \<and>
     (wp_state p = ProcessStatus.Running \<longrightarrow> wp_process p \<noteq> 0)"

text \<open>The handles of the rest of the program pass an operation untouched; \<open>left\<close> are those it leaves
  open outside the object.\<close>

definition accounts :: "WindowsProcess \<Rightarrow> OsCall list \<Rightarrow> WindowsProcess \<Rightarrow> u64 multiset \<Rightarrow> bool" where
  "accounts p calls p' left \<longleftrightarrow> (\<forall>t. handles_after calls (held p + t) = Some (held p' + left + t))"

lemma accountsD: "accounts p calls p' left \<Longrightarrow> handles_after calls (held p + t) = Some (held p' + left + t)"
  by (simp add: accounts_def)

lemma accounts_append:
  "accounts p a p1 {#} \<Longrightarrow> accounts p1 b p2 left \<Longrightarrow> accounts p (a @ b) p2 left"
  by (simp add: accounts_def handles_after_append)

lemma held_released: "held (snd (release_handles p)) = {#}"
  by (simp add: release_handles_def held_def handle_set_def)

lemma accounts_release: "accounts p (fst (release_handles p)) (snd (release_handles p)) {#}"
  using handles_release [of p] by (simp add: accounts_def held_released)

lemma held_same:
  "wp_job p' = wp_job p \<Longrightarrow> wp_process p' = wp_process p \<Longrightarrow> wp_stdin_write p' = wp_stdin_write p \<Longrightarrow>
     held p' = held p"
  by (simp add: held_def)

lemma accounts_held:
  "accounts p calls p' left \<Longrightarrow> held q = held p \<Longrightarrow> held q' = held p' \<Longrightarrow> accounts q calls q' left"
  by (simp add: accounts_def)

lemma accounts_uses:
  "accounts p calls p' left \<Longrightarrow> list_all (\<lambda>c. set (used_by c) \<subseteq> set_mset (held p) \<and> opened_by c = {#} \<and>
     (\<forall>h. c \<noteq> HandleClosed h)) uses \<Longrightarrow> accounts p (uses @ calls) p' left"
proof (induction uses)
  case (Cons c uses)
  have "list_all (\<lambda>h. h \<in># held p + t) (used_by c)" for t
    using Cons.prems(2) by (auto simp: list_all_iff)
  moreover have "(case c of HandleClosed h \<Rightarrow> t - {#h#} | _ \<Rightarrow> t) + opened_by c = t" for t
    using Cons.prems(2) by (cases c) auto
  ultimately show ?case using Cons by (simp add: accounts_def)
qed simp

lemma held_process: "wp_process p \<noteq> 0 \<Longrightarrow> wp_process p \<in># held p"
  "wp_job p \<noteq> 0 \<Longrightarrow> wp_job p \<in># held p" "wp_stdin_write p \<noteq> 0 \<Longrightarrow> wp_stdin_write p \<in># held p"
  by (simp_all add: held_def handle_set_def)

lemma release_fields [simp]:
  "wp_process (snd (release_handles p)) = 0" "wp_job (snd (release_handles p)) = 0"
  "wp_stdin_write (snd (release_handles p)) = 0"
  by (simp_all add: release_handles_def)

lemma poll_accounts:
  assumes "process_ok p" "process_poll w p = (r, calls, p')"
  shows "accounts p calls p' {#} \<and> process_ok p' \<and> (r = ProcessStatus.Running \<longrightarrow> wp_process p' \<noteq> 0)"
proof (cases "wp_process p = 0")
  case True
  then show ?thesis using assms by (auto simp: process_poll_def accounts_def process_ok_def)
next
  case False
  show ?thesis
  proof (cases "pa_wait w = WaitObject")
    case True
    define p1 where "p1 = (case pa_exit_code w of Some code \<Rightarrow> p\<lparr>wp_exit_code := Some code\<rparr>
        | None \<Rightarrow> p\<lparr>wp_last_error := pa_error w, wp_exit_code := None\<rparr>)"
    have same: "held p1 = held p" by (simp add: p1_def held_def split: option.split)
    have res: "r = ProcessStatus.Exited" "calls = [WaitedFor (wp_process p)] @ fst (release_handles p1)"
      "p' = (snd (release_handles p1))\<lparr>wp_state := ProcessStatus.Exited\<rparr>"
      using assms(2) False True
      by (simp_all add: process_poll_def Let_def p1_def [symmetric] case_prod_beta)
    have "accounts p1 (fst (release_handles p1)) p' {#}"
      using accounts_release [of p1] by (rule accounts_held) (simp_all add: res(3) held_def)
    then have "accounts p calls p' {#}"
      unfolding res(2) by (intro accounts_uses) (use False same in \<open>simp_all add: held_process accounts_def\<close>)
    then show ?thesis using res by (simp add: process_ok_def)
  next
    case other: False
    then have "calls = [WaitedFor (wp_process p)] @ []" "held p' = held p"
      "wp_process p' = wp_process p" "wp_job p' = wp_job p" "wp_stdin_write p' = wp_stdin_write p"
      using assms(2) False by (auto simp: process_poll_def Let_def held_def split: WaitResult.splits)
    moreover have "accounts p [] p' {#}" using calculation(2) by (simp add: accounts_def)
    ultimately show ?thesis
      using assms(1) False accounts_uses [of p "[]" p' "{#}" "[WaitedFor (wp_process p)]"]
      by (simp add: held_process process_ok_def)
  qed
qed

lemma stop_accounts:
  assumes "process_ok p" "process_stop w p = (r, calls, p')"
  shows "accounts p calls p' {#} \<and> process_ok p' \<and> held p' = {#} \<and> wp_state p' = ProcessStatus.Stopped"
proof -
  define p2 where "p2 = (if wp_process p \<noteq> 0 \<and> \<not> st_terminated w
     then p\<lparr>wp_exit_code := None, wp_last_error := st_terminate_error w\<rparr> else p\<lparr>wp_exit_code := None\<rparr>)"
  define p1 where "p1 = (if wp_process p \<noteq> 0 \<and> st_waited w = WaitFailed
     then p2\<lparr>wp_last_error := st_wait_error w\<rparr> else p2)"
  define uses where "uses = (if wp_process p = 0 then [] else [JobTerminated (wp_job p), WaitedFor (wp_process p)])"
  have same: "held p1 = held p" by (simp add: p1_def p2_def held_def)
  have res: "calls = uses @ fst (release_handles p1) \<and> p' = (snd (release_handles p1))\<lparr>wp_state := ProcessStatus.Stopped\<rparr>"
  proof (cases "wp_process p = 0")
    case True
    then show ?thesis using assms(2) by (simp add: process_stop_def Let_def case_prod_beta p1_def p2_def uses_def)
  next
    case False
    then show ?thesis
      using assms(2) unfolding p1_def p2_def uses_def process_stop_def Let_def
      by (cases "st_terminated w"; cases "st_waited w = WaitFailed") (simp_all add: case_prod_beta)
  qed
  note p1 = same conjunct1 [OF res] conjunct2 [OF res] uses_def
  have "accounts p1 (fst (release_handles p1)) p' {#}"
    using accounts_release [of p1] by (rule accounts_held) (simp_all add: p1(3) held_def)
  then have "accounts p (fst (release_handles p1)) p' {#}" using p1(1) by (simp add: accounts_def)
  then have "accounts p calls p' {#}"
    unfolding p1(2,4) by (intro accounts_uses) (use assms(1) in \<open>simp_all add: held_process process_ok_def\<close>)
  then show ?thesis
    using p1(3) held_released [of p1] by (simp add: process_ok_def held_def)
qed

definition quit_ok :: "QuitAnswers \<Rightarrow> bool" where
  "quit_ok w \<longleftrightarrow> (\<forall>h. qa_duplicate w = Some h \<or> qa_worker w = Some h \<longrightarrow> h \<noteq> 0)"

lemma quit_accounts:
  assumes "process_ok p" "request_quit w p = (r, calls, p')"
  shows "accounts p calls p' {#} \<and> process_ok p' \<and> wp_process p' = wp_process p \<and> wp_job p' = wp_job p \<and>
    wp_stdin_write p' = 0"
proof (cases "wp_process p = 0 \<or> wp_stdin_write p = 0")
  case True
  then have "wp_stdin_write p = 0" "calls = []" "p' = p\<lparr>wp_last_error := ERROR_INVALID_HANDLE\<rparr>"
    using assms by (auto simp: request_quit_def process_ok_def)
  then show ?thesis using assms(1) by (auto simp: accounts_def held_def process_ok_def)
next
  case False
  then have res: "calls = [QuitWritten (wp_stdin_write p), HandleClosed (wp_stdin_write p)]"
    "wp_process p' = wp_process p" "wp_job p' = wp_job p" "wp_stdin_write p' = 0" "wp_state p' = wp_state p"
    using assms(2)
    by (cases "qa_sent w"; cases "qa_all w"; cases "qa_closed w"; auto simp: request_quit_def Let_def)+
  have "accounts p calls p' {#}"
    using False by (simp add: accounts_def held_def res handle_set_def)
  then show ?thesis using assms(1) False res by (simp add: process_ok_def)
qed

lemma quit_async_accounts:
  assumes "process_ok p" "quit_ok w" "request_quit_async w p = (r, calls, p')"
  shows "process_ok p' \<and> accounts p calls p' (if r then {#the (qa_duplicate w)#} else {#})"
proof (cases "wp_process p = 0 \<or> wp_stdin_write p = 0 \<or> qa_duplicate w = None")
  case True
  then obtain e where "\<not> r" "calls = []" "p' = p\<lparr>wp_last_error := e\<rparr>"
    using assms(3) by (auto simp: request_quit_async_def split: if_splits)
  then have "\<not> r" "calls = []" "held p' = held p" "process_ok p'"
    using assms(1) by (simp_all add: held_def process_ok_def)
  then show ?thesis by (simp add: accounts_def)
next
  case False
  then obtain d where d: "qa_duplicate w = Some d" "d \<noteq> 0" using assms(2) by (auto simp: quit_ok_def)
  show ?thesis
  proof (cases "qa_worker w")
    case None
    then have "\<not> r" "calls = [HandlesOpened [d], HandleClosed d]"
      "p' = p\<lparr>wp_last_error := qa_close_error w\<rparr>"
      using False d assms(3) by (simp_all add: request_quit_async_def close_handle_def)
    then have "\<not> r" "calls = [HandlesOpened [d], HandleClosed d]" "held p' = held p" "process_ok p'"
      using assms(1) by (simp_all add: held_def process_ok_def)
    then show ?thesis by (simp add: accounts_def)
  next
    case (Some k)
    then have k: "k \<noteq> 0" using assms(2) by (simp add: quit_ok_def)
    have res: "r" "calls = [HandlesOpened [d], HandlesOpened [k], QuitWorker d, HandleClosed k, HandleClosed (wp_stdin_write p)]"
      "p' = p\<lparr>wp_stdin_write := 0, wp_last_error := ERROR_SUCCESS\<rparr>"
      using False d k Some assms(3) by (simp_all add: request_quit_async_def close_handle_def)
    have "accounts p calls p' {#d#}"
      using False by (auto simp: accounts_def held_def res handle_set_def add_mset_commute)
    then show ?thesis using assms(1) res d by (simp add: process_ok_def)
  qed
qed

lemma worker_accounts: "h \<noteq> 0 \<Longrightarrow> handles_after (send_quit_on_worker h) ({#h#} + t) = Some t"
  by (simp add: send_quit_on_worker_def close_handle_def)

lemma graceful_accounts:
  assumes "process_ok p" "stop_gracefully qw pw sw p = (r, calls, p')"
  shows "accounts p calls p' {#} \<and> process_ok p' \<and> held p' = {#}"
proof (cases "wp_process p = 0")
  case True
  obtain r0 where "process_stop sw p = (r0, calls, p')"
    using assms(2) True by (auto simp: stop_gracefully_def split: prod.splits)
  from stop_accounts [OF assms(1) this] show ?thesis by simp
next
  case False
  obtain sent quit q where quit: "request_quit qw p = (sent, quit, q)" by (metis surj_pair)
  note qa = quit_accounts [OF assms(1) quit]
  define uses where "uses = (if pa_wait pw = WaitObject then [WaitedFor (wp_process p)]
    else [WaitedFor (wp_process p), JobTerminated (wp_job p), WaitedFor (wp_process p)])"
  obtain q1 s where res: "held q1 = held q" "calls = quit @ uses @ fst (release_handles q1)"
    "p' = (snd (release_handles q1))\<lparr>wp_state := s\<rparr>" "s \<noteq> ProcessStatus.Running"
  proof (cases "pa_wait pw = WaitObject")
    case True
    define q1 where "q1 = (case pa_exit_code pw of Some code \<Rightarrow> q\<lparr>wp_exit_code := Some code\<rparr>
        | None \<Rightarrow> q\<lparr>wp_last_error := pa_error pw, wp_exit_code := None\<rparr>)"
    have "held q1 = held q" by (simp add: q1_def held_def split: option.split)
    moreover have "calls = quit @ uses @ fst (release_handles q1)"
      "p' = (snd (release_handles q1))\<lparr>wp_state := ProcessStatus.Stopped\<rparr>"
      using assms(2) False quit True qa
      by (simp_all add: stop_gracefully_def Let_def q1_def [symmetric] case_prod_beta uses_def)
    ultimately show thesis using that [of q1 ProcessStatus.Stopped] by simp
  next
    case kill: False
    define q1 where "q1 = (if pa_wait pw = WaitFailed then q\<lparr>wp_last_error := pa_error pw\<rparr> else q)"
    define q2 where "q2 = (if \<not> st_terminated sw then q1\<lparr>wp_last_error := st_terminate_error sw\<rparr> else q1)"
    define q3 where "q3 = (if st_waited sw = WaitFailed then q2\<lparr>wp_last_error := st_wait_error sw\<rparr> else q2)"
    define s where "s = (if st_terminated sw \<and> st_waited sw = WaitObject then ProcessStatus.Stopped
      else ProcessStatus.Failed)"
    have same: "wp_process q3 = wp_process p" "wp_job q3 = wp_job p" "held q3 = held q"
      using qa by (simp_all add: q3_def q2_def q1_def held_def)
    have "stop_gracefully qw pw sw p = (if s = ProcessStatus.Stopped then GracefulStopResult.Forced
        else GracefulStopResult.StopFailed, quit @ WaitedFor (wp_process q) # [JobTerminated (wp_job q3), WaitedFor (wp_process q3)] @
        fst (release_handles (q3\<lparr>wp_exit_code := None\<rparr>)), (snd (release_handles (q3\<lparr>wp_exit_code := None\<rparr>)))\<lparr>wp_state := s\<rparr>)"
      unfolding stop_gracefully_def quit Let_def prod.case q1_def [symmetric] q2_def [symmetric] q3_def [symmetric]
      using False kill by (simp add: case_prod_beta s_def)
    then have "calls = quit @ uses @ fst (release_handles (q3\<lparr>wp_exit_code := None\<rparr>))"
      "p' = (snd (release_handles (q3\<lparr>wp_exit_code := None\<rparr>)))\<lparr>wp_state := s\<rparr>"
      using assms(2) kill qa same by (simp_all add: uses_def)
    moreover have "held (q3\<lparr>wp_exit_code := None\<rparr>) = held q" using same(3) by (simp add: held_def)
    ultimately show thesis using that [of "q3\<lparr>wp_exit_code := None\<rparr>" s] by (simp add: s_def)
  qed
  have "accounts q1 (fst (release_handles q1)) p' {#}"
    using accounts_release [of q1] by (rule accounts_held) (simp_all add: res(3) held_def)
  then have rel: "accounts q (fst (release_handles q1)) p' {#}" using res(1) by (simp add: accounts_def)
  have "wp_process q \<in># held q" "wp_job q \<in># held q"
    using qa False assms(1) held_process(1,2) [of q] by (auto simp: process_ok_def)
  then have "accounts q (uses @ fst (release_handles q1)) p' {#}"
    using qa by (intro accounts_uses [OF rel]) (simp add: uses_def)
  then have "accounts p calls p' {#}" unfolding res(2) using qa accounts_append by blast
  then show ?thesis using res(3,4) held_released [of q1] by (simp add: process_ok_def held_def)
qed

definition start_ok :: "ProcessStartAnswers \<Rightarrow> bool" where
  "start_ok w \<longleftrightarrow> (\<forall>r h. sa_pipe w = Some (r, h) \<longrightarrow> r \<noteq> 0 \<and> h \<noteq> 0) \<and>
     (\<forall>n. sa_nul w = Some n \<longrightarrow> n \<noteq> 0) \<and>
     (\<forall>h t pid. sa_created w = Some (h, t, pid) \<longrightarrow> h \<noteq> 0 \<and> t \<noteq> 0)"

lemma released_result:
  "held p' = held (snd (release_handles p)) \<Longrightarrow> held p' = {#}"
  by (simp add: held_released)

lemma held_empty: "held p = {#} \<longleftrightarrow> wp_stdin_write p = 0 \<and> wp_process p = 0 \<and> wp_job p = 0"
  by (simp add: held_def handle_set_def)

lemma start_failed_accounts:
  assumes "accounts p0 calls p left" "\<And>t. handles_after scoped (left + t) = Some t"
    "start_failed e calls scoped p = (r, cs, p')"
  shows "\<not> r \<and> accounts p0 cs p' {#} \<and> held p' = {#} \<and> wp_state p' = ProcessStatus.Failed"
proof -
  have res: "\<not> r" "cs = calls @ fst (release_handles p) @ scoped"
    "p' = (snd (release_handles p))\<lparr>wp_last_error := e, wp_state := ProcessStatus.Failed\<rparr>"
    using assms(3) by (simp_all add: start_failed_def case_prod_beta)
  have empty: "held p' = {#}" by (simp add: res(3) held_empty)
  have "handles_after (fst (release_handles p)) (held p + left + t) = Some (left + t)" for t
    using handles_release [of p "left + t"] by (simp add: add.assoc)
  then have "accounts p0 cs p' {#}"
    using assms(1,2) by (simp add: accounts_def res(2) handles_after_append empty)
  then show ?thesis using res empty by simp
qed

lemma start_out_of_memory_accounts:
  assumes "accounts p0 calls p left" "\<And>t. handles_after scoped (left + t) = Some t"
    "start_out_of_memory calls scoped p = (r, cs, p')"
  shows "\<not> r \<and> accounts p0 cs p' {#} \<and> held p' = {#} \<and> wp_state p' = ProcessStatus.Failed"
proof -
  have res: "\<not> r" "cs = calls @ scoped @ fst (release_handles p)"
    "p' = (snd (release_handles p))\<lparr>wp_last_error := ERROR_NOT_ENOUGH_MEMORY, wp_state := ProcessStatus.Failed\<rparr>"
    using assms(3) by (simp_all add: start_out_of_memory_def case_prod_beta)
  have empty: "held p' = {#}" by (simp add: res(3) held_empty)
  have "handles_after scoped (held p + left + t) = Some (held p + t)" for t
    using assms(2) [of "held p + t"] by (simp add: ac_simps)
  then have "accounts p0 cs p' {#}"
    using assms(1) handles_release [of p] by (simp add: accounts_def res(2) handles_after_append empty)
  then show ?thesis using res empty by simp
qed

lemma start_failed_bare:
  "accounts p0 calls p {#} \<Longrightarrow> start_failed e calls [] p = (r, cs, p') \<Longrightarrow>
     \<not> r \<and> accounts p0 cs p' {#} \<and> held p' = {#} \<and> wp_state p' = ProcessStatus.Failed"
  by (rule start_failed_accounts [of p0 calls p "{#}" "[]"]) simp_all

lemma close_nonzero: "h \<noteq> 0 \<Longrightarrow> close_handle h = [HandleClosed h]"
  by (simp add: close_handle_def)

lemma create_child_accounts:
  assumes "start_ok w" "accounts p0 calls p {#n, wr, r#}" "n \<noteq> 0" "wr \<noteq> 0" "r \<noteq> 0"
    "wp_process p = 0" "wp_stdin_write p = 0" "wp_job p \<noteq> 0"
    "create_child w calls executable command r wr n p = (ok, cs, p')"
  shows "accounts p0 cs p' {#} \<and>
    (if ok then wp_job p' \<noteq> 0 \<and> wp_process p' \<noteq> 0 \<and> wp_state p' = ProcessStatus.Running else held p' = {#} \<and> wp_state p' = ProcessStatus.Failed)"
proof (cases "sa_created w")
  case None
  have a: "accounts p0 (calls @ [HandleClosed r, HandleClosed n]) p {#wr#}"
    using assms(2) by (simp add: accounts_def handles_after_append add_mset_commute)
  have b: "start_failed (sa_error w) (calls @ [HandleClosed r, HandleClosed n]) [HandleClosed wr] p = (ok, cs, p')"
    using assms(3-5,9) None by (simp add: create_child_def Let_def close_nonzero)
  from start_failed_accounts [OF a _ b] show ?thesis by simp
next
  case (Some c)
  obtain pr th pid where c: "c = (pr, th, pid)" by (cases c)
  have nz: "pr \<noteq> 0" "th \<noteq> 0" using assms(1) Some c by (auto simp: start_ok_def)
  define calls3 where "calls3 = calls @ [ProcessCreated pr th (child_creation executable command (sa_directory w) r n), HandleClosed r, HandleClosed n]"
  define p3 where "p3 = p\<lparr>wp_stdin_write := wr, wp_process := pr, wp_process_id := pid\<rparr>"
  have a3: "accounts p0 calls3 p3 {#th#}"
    using assms(2,4,6,7) nz by (simp add: accounts_def calls3_def p3_def handles_after_append held_def
        handle_set_def add_mset_commute)
  have in3: "pr \<in># held p3" "wp_job p3 \<in># held p3" "wp_job p3 = wp_job p"
    using nz assms(8) by (simp_all add: p3_def held_def handle_set_def)
  have create: "create_child w calls executable command r wr n p =
     (if \<not> sa_assigned w
      then start_failed (sa_error w) (calls3 @ [ProcessTerminated pr, WaitedFor pr, HandleClosed th]) [] p3
      else if \<not> sa_resumed w
      then start_failed (sa_error w) (calls3 @ [AssignedToJob pr (wp_job p3), JobTerminated (wp_job p3), WaitedFor pr, HandleClosed th]) [] p3
      else (True, calls3 @ [AssignedToJob pr (wp_job p3), Resumed th, HandleClosed th], p3\<lparr>wp_state := ProcessStatus.Running\<rparr>))"
    using Some c assms(3,5) by (simp add: create_child_def Let_def close_nonzero calls3_def p3_def)
  have done3: "accounts p0 (calls3 @ uses @ [HandleClosed th]) p3 {#}"
    if "list_all (\<lambda>c. set (used_by c) \<subseteq> {pr, wp_job p3, th} \<and> opened_by c = {#} \<and> (\<forall>h. c \<noteq> HandleClosed h)) uses" for uses
  proof -
    have "handles_after (uses @ cs) (held p3 + {#th#} + t) = handles_after cs (held p3 + {#th#} + t)" for cs t
      using that
    proof (induction uses)
      case (Cons c uses)
      have "list_all (\<lambda>h. h \<in># held p3 + {#th#} + t) (used_by c)"
        using Cons.prems in3 by (auto simp: list_all_iff)
      moreover have "(case c of HandleClosed h \<Rightarrow> x - {#h#} | _ \<Rightarrow> x) + opened_by c = x" for x
        using Cons.prems by (cases c) auto
      ultimately show ?case using Cons by simp
    qed simp
    then show ?thesis using a3 by (simp add: accounts_def handles_after_append)
  qed
  consider "\<not> sa_assigned w" | "sa_assigned w" "\<not> sa_resumed w" | "sa_assigned w" "sa_resumed w" by blast
  then show ?thesis
  proof cases
    case 1
    then have f: "start_failed (sa_error w) (calls3 @ [ProcessTerminated pr, WaitedFor pr] @ [HandleClosed th]) [] p3 = (ok, cs, p')"
      using assms(9) create by simp
    have "accounts p0 (calls3 @ [ProcessTerminated pr, WaitedFor pr] @ [HandleClosed th]) p3 {#}"
      by (rule done3) simp
    from start_failed_bare [OF this f] show ?thesis by simp
  next
    case 2
    then have f: "start_failed (sa_error w) (calls3 @ [AssignedToJob pr (wp_job p3), JobTerminated (wp_job p3),
        WaitedFor pr] @ [HandleClosed th]) [] p3 = (ok, cs, p')"
      using assms(9) create by simp
    have "accounts p0 (calls3 @ [AssignedToJob pr (wp_job p3), JobTerminated (wp_job p3), WaitedFor pr] @
        [HandleClosed th]) p3 {#}"
      by (rule done3) simp
    from start_failed_bare [OF this f] show ?thesis by simp
  next
    case 3
    have "accounts p0 (calls3 @ [AssignedToJob pr (wp_job p3), Resumed th] @ [HandleClosed th]) p3 {#}"
      by (rule done3) simp
    then have "accounts p0 cs p' {#}" using 3 assms(9) create by (auto simp: accounts_def held_def)
    then show ?thesis using 3 assms(8,9) create nz by (auto simp: p3_def)
  qed
qed

lemma launch_accounts:
  assumes "start_ok w" "held p = {#}" "launch w executable command p = (ok, cs, p')" "wp_state p \<noteq> ProcessStatus.Running"
  shows "accounts p cs p' {#} \<and>
    (if ok then wp_job p' \<noteq> 0 \<and> wp_process p' \<noteq> 0 \<and> wp_state p' = ProcessStatus.Running else held p' = {#} \<and> wp_state p' = ProcessStatus.Failed)"
proof (cases "sa_job w = 0")
  case True
  then have "\<not> ok" "cs = []" "wp_state p' = ProcessStatus.Failed" "held p' = {#}"
    using assms(2,3) by (auto simp: launch_def Let_def held_empty)
  then show ?thesis using assms(2) by (simp add: accounts_def)
next
  case job: False
  let ?j = "sa_job w" and ?e = "sa_error w" and ?p = "p\<lparr>wp_job := sa_job w\<rparr>"
  have z: "wp_stdin_write p = 0" "wp_process p = 0" using assms(2) by (simp_all add: held_empty)
  have a0: "accounts p [JobCreated ?j] ?p {#}" "accounts p [JobCreated ?j, KillOnJobClose ?j] ?p {#}"
    using job z assms(2) by (simp_all add: accounts_def held_def handle_set_def)
  show ?thesis
  proof (cases "\<not> sa_limits w \<or> sa_pipe w = None")
    case True
    then have "start_failed ?e [JobCreated ?j] [] ?p = (ok, cs, p') \<or>
        start_failed ?e [JobCreated ?j, KillOnJobClose ?j] [] ?p = (ok, cs, p')"
      using assms(3) job by (auto simp: launch_def Let_def split: if_splits)
    then have "\<not> ok \<and> accounts p cs p' {#} \<and> held p' = {#} \<and> wp_state p' = ProcessStatus.Failed"
      using start_failed_bare [OF a0(1)] start_failed_bare [OF a0(2)] by blast
    then show ?thesis by simp
  next
    case False
    then obtain r wr where pipe: "sa_limits w" "sa_pipe w = Some (r, wr)" by auto
    have rw: "r \<noteq> 0" "wr \<noteq> 0" using assms(1) pipe by (auto simp: start_ok_def)
    let ?c1 = "[JobCreated ?j, KillOnJobClose ?j, HandlesOpened [r, wr]]"
    have a1: "accounts p ?c1 ?p {#wr, r#}"
      using job z assms(2) by (simp add: accounts_def held_def handle_set_def add_mset_commute)
    show ?thesis
    proof (cases "\<not> sa_not_inherited w \<or> sa_nul w = None")
      case True
      then have "start_failed ?e ?c1 [HandleClosed wr, HandleClosed r] ?p = (ok, cs, p')"
        using assms(3) job pipe rw
        by (cases "sa_not_inherited w"; simp add: launch_def Let_def close_nonzero)
      from start_failed_accounts [OF a1 _ this] show ?thesis by simp
    next
      case False
      then obtain n where n: "sa_not_inherited w" "sa_nul w = Some n" by auto
      then have n0: "n \<noteq> 0" using assms(1) by (auto simp: start_ok_def)
      let ?c2 = "?c1 @ [HandlesOpened [n]]" and ?s = "[HandleClosed n, HandleClosed wr, HandleClosed r]"
      have a2: "accounts p ?c2 ?p {#n, wr, r#}"
        using a1 by (simp add: accounts_def handles_after_append)
      have closing: "handles_after ?s ({#n, wr, r#} + t) = Some t" for t by simp
      have l: "launch w executable command p =
         (if \<not> sa_attribute_memory w then start_out_of_memory ?c2 ?s ?p
          else if \<not> sa_attribute_list w then start_failed ?e ?c2 ?s ?p
          else if \<not> sa_command_memory w then start_out_of_memory ?c2 ?s ?p
          else create_child w ?c2 executable command r wr n ?p)"
        using job pipe n rw n0 by (simp add: launch_def Let_def close_nonzero)
      show ?thesis
      proof (cases "sa_attribute_memory w \<and> sa_attribute_list w \<and> sa_command_memory w")
        case True
        then have "create_child w ?c2 executable command r wr n ?p = (ok, cs, p')" using l assms(3) by simp
        from create_child_accounts [OF assms(1) a2 n0 rw(2,1) _ _ _ this] show ?thesis using z job by simp
      next
        case False
        then have "start_out_of_memory ?c2 ?s ?p = (ok, cs, p') \<or> start_failed ?e ?c2 ?s ?p = (ok, cs, p')"
          using l assms(3) by (auto split: if_splits)
        then have "\<not> ok \<and> accounts p cs p' {#} \<and> held p' = {#} \<and> wp_state p' = ProcessStatus.Failed"
          using start_failed_accounts [OF a2 closing] start_out_of_memory_accounts [OF a2 closing] by blast
        then show ?thesis by simp
      qed
    qed
  qed
qed

lemma start_accounts:
  assumes "process_ok p" "start_ok w" "process_start config_given w p = (r, calls, p')"
  shows "accounts p calls p' {#} \<and> process_ok p' \<and> (r \<longrightarrow> wp_process p' \<noteq> 0)"
proof -
  obtain status polled p1 where poll: "process_poll (sa_poll w) p = (status, polled, p1)" by (metis surj_pair)
  note pa = poll_accounts [OF assms(1) poll]
  show ?thesis
  proof (cases "status = ProcessStatus.Running")
    case True
    then have "calls = polled" "p' = p1\<lparr>wp_last_error := ERROR_ALREADY_EXISTS\<rparr>" "\<not> r"
      using assms(3) poll by (simp_all add: process_start_def)
    then show ?thesis using pa by (auto simp: process_ok_def accounts_def held_def)
  next
    case False
    obtain stopped_ok stopped p2 where stop: "process_stop (sa_stop w) p1 = (stopped_ok, stopped, p2)"
      by (metis surj_pair)
    note sa = stop_accounts [OF conjunct1 [OF conjunct2 [OF pa]] stop]
    define q where "q = p2\<lparr>wp_exit_code := None, wp_last_error := ERROR_SUCCESS\<rparr>"
    have q: "held q = {#}" "wp_state q = ProcessStatus.Stopped" "held q = held p2"
      using sa by (simp_all add: q_def held_def)
    have before: "accounts p (polled @ stopped) q {#}"
      using accounts_append [of p polled p1 stopped p2 "{#}"] pa sa q(3) by (simp add: accounts_def)
    have start: "process_start config_given w p =
       (if \<not> sa_paths_memory w then start_out_of_memory (polled @ stopped) [] q
        else case sa_executable w of
            None \<Rightarrow> (False, polled @ stopped, q\<lparr>wp_last_error := ERROR_FILE_NOT_FOUND, wp_state := ProcessStatus.Failed\<rparr>)
          | Some executable \<Rightarrow>
              if config_given \<and> sa_profile w = None
              then (False, polled @ stopped, q\<lparr>wp_last_error := ERROR_INVALID_PARAMETER, wp_state := ProcessStatus.Failed\<rparr>)
              else case launch w executable (child_command executable (if config_given then the (sa_profile w) else [])) q of
                  (ok, cs, p3) \<Rightarrow> (ok, (polled @ stopped) @ cs, p3))"
      unfolding process_start_def poll stop prod.case Let_def q_def using False by simp
    consider (memory) "start_out_of_memory (polled @ stopped) [] q = (r, calls, p')"
      | (refused) e where "calls = polled @ stopped" "\<not> r" "p' = q\<lparr>wp_last_error := e, wp_state := ProcessStatus.Failed\<rparr>"
      | (launched) executable command cs where "launch w executable command q = (r, cs, p')" "calls = (polled @ stopped) @ cs"
      using assms(3) unfolding start by (auto split: if_splits option.splits prod.splits)
    then show ?thesis
    proof cases
      case memory
      then show ?thesis using start_out_of_memory_accounts [OF before _ memory] by (simp add: process_ok_def held_empty)
    next
      case refused
      have "held p' = {#}" using q(1) refused(3) by (simp add: held_empty)
      then show ?thesis using before refused q(1) by (simp add: accounts_def process_ok_def held_empty)
    next
      case launched
      have l: "accounts q cs p' {#} \<and> (if r then wp_job p' \<noteq> 0 \<and> wp_process p' \<noteq> 0 \<and>
          wp_state p' = ProcessStatus.Running else held p' = {#} \<and> wp_state p' = ProcessStatus.Failed)"
        using launch_accounts [OF assms(2) q(1) launched(1)] q(2) by simp
      then have "accounts p calls p' {#}" unfolding launched(2) using before accounts_append by blast
      then show ?thesis using l by (cases r) (simp_all add: process_ok_def held_empty)
    qed
  qed
qed

section \<open>Runs\<close>

text \<open>The calls so far in order, the object, and the pipe ends that detached quit workers still own.\<close>

inductive process_run :: "OsCall list \<Rightarrow> WindowsProcess \<Rightarrow> u64 list \<Rightarrow> bool" where
  new: "process_run [] new_process []"
| start: "process_run cs p ds \<Longrightarrow> start_ok w \<Longrightarrow> process_start g w p = (r, calls, p') \<Longrightarrow>
    process_run (cs @ calls) p' ds"
| poll: "process_run cs p ds \<Longrightarrow> process_poll pw p = (st, calls, p') \<Longrightarrow> process_run (cs @ calls) p' ds"
| quit: "process_run cs p ds \<Longrightarrow> request_quit qw p = (r, calls, p') \<Longrightarrow> process_run (cs @ calls) p' ds"
| quit_async: "process_run cs p ds \<Longrightarrow> quit_ok qw \<Longrightarrow> request_quit_async qw p = (r, calls, p') \<Longrightarrow>
    process_run (cs @ calls) p' (if r then the (qa_duplicate qw) # ds else ds)"
| worker: "process_run cs p ds \<Longrightarrow> d \<in> set ds \<Longrightarrow> process_run (cs @ send_quit_on_worker d) p (remove1 d ds)"
| graceful: "process_run cs p ds \<Longrightarrow> stop_gracefully qw pw sw p = (gr, calls, p') \<Longrightarrow>
    process_run (cs @ calls) p' ds"
| stop: "process_run cs p ds \<Longrightarrow> process_stop sw p = (r, calls, p') \<Longrightarrow> process_run (cs @ calls) p' ds"

definition process_inv :: "OsCall list \<Rightarrow> WindowsProcess \<Rightarrow> u64 list \<Rightarrow> bool" where
  "process_inv cs p ds \<longleftrightarrow> process_ok p \<and> 0 \<notin> set ds \<and> handles_after cs {#} = Some (held p + mset ds)"

lemma process_inv_step:
  assumes "process_inv cs p ds" "accounts p calls p' left" "process_ok p'"
    "mset ds' = left + mset ds" "0 \<notin> set ds'"
  shows "process_inv (cs @ calls) p' ds'"
  using assms by (simp add: process_inv_def handles_after_append accountsD add.assoc)

lemma process_run_inv: "process_run cs p ds \<Longrightarrow> process_inv cs p ds"
proof (induction rule: process_run.induct)
  case new
  show ?case by (simp add: process_inv_def process_ok_def new_process_def held_def handle_set_def)
next
  case (start cs p ds w g r calls p')
  then have ok: "process_ok p" "0 \<notin> set ds" by (simp_all add: process_inv_def)
  from start_accounts [OF ok(1) start(2,3)] show ?case
    using process_inv_step [OF start(4), of calls p' "{#}" ds] ok by simp
next
  case (poll cs p ds pw st calls p')
  then have ok: "process_ok p" "0 \<notin> set ds" by (simp_all add: process_inv_def)
  from poll_accounts [OF ok(1) poll(2)] show ?case
    using process_inv_step [OF poll(3), of calls p' "{#}" ds] ok by simp
next
  case (quit cs p ds qw r calls p')
  then have ok: "process_ok p" "0 \<notin> set ds" by (simp_all add: process_inv_def)
  from quit_accounts [OF ok(1) quit(2)] show ?case
    using process_inv_step [OF quit(3), of calls p' "{#}" ds] ok by simp
next
  case (quit_async cs p ds qw r calls p')
  then have ok: "process_ok p" "0 \<notin> set ds" by (simp_all add: process_inv_def)
  have "the (qa_duplicate qw) \<noteq> 0" if r
    using quit_async(2,3) that by (auto simp: request_quit_async_def quit_ok_def split: if_splits option.splits)
  with quit_async_accounts [OF ok(1) quit_async(2,3)] show ?case
    using process_inv_step [OF quit_async(4), of calls p'] ok by auto
next
  case (worker cs p ds d)
  then have inv: "process_ok p" "0 \<notin> set ds" "handles_after cs {#} = Some (held p + mset ds)" "d \<noteq> 0"
    by (auto simp: process_inv_def)
  have "held p + mset ds = {#d#} + (held p + mset (remove1 d ds))" using worker(2) by simp
  then have "handles_after (send_quit_on_worker d) (held p + mset ds) = Some (held p + mset (remove1 d ds))"
    using worker_accounts [OF inv(4)] by (simp only:)
  then show ?case using inv notin_set_remove1 [of 0 ds d] by (simp add: process_inv_def handles_after_append)
next
  case (graceful cs p ds qw pw sw gr calls p')
  then have ok: "process_ok p" "0 \<notin> set ds" by (simp_all add: process_inv_def)
  from graceful_accounts [OF ok(1) graceful(2)] show ?case
    using process_inv_step [OF graceful(3), of calls p' "{#}" ds] ok by simp
next
  case (stop cs p ds sw r calls p')
  then have ok: "process_ok p" "0 \<notin> set ds" by (simp_all add: process_inv_def)
  from stop_accounts [OF ok(1) stop(2)] show ?case
    using process_inv_step [OF stop(3), of calls p' "{#}" ds] ok by simp
qed

section \<open>Properties\<close>

text \<open>
  C36. The process object leaks no handle and never closes or uses one that is not open. Over any
  sequence of starts, polls, quit requests and stops, on every error path and with every answer of
  Windows, the handles that are open are exactly the three the object holds and the pipe ends
  handed to quit workers that have not run yet; each is closed once; and stopping, as the destructor
  does, leaves only the latter.
\<close>

theorem process_handles_balanced:
  assumes "process_run cs p ds"
  shows "handles_after cs {#} = Some (held p + mset ds) \<and>
    (\<forall>w r calls p'. process_stop w p = (r, calls, p') \<longrightarrow>
       handles_after (cs @ calls) {#} = Some (mset ds) \<and> held p' = {#} \<and> wp_state p' = ProcessStatus.Stopped)"
proof -
  have inv: "process_ok p" "handles_after cs {#} = Some (held p + mset ds)"
    using process_run_inv [OF assms] by (simp_all add: process_inv_def)
  moreover have "handles_after (cs @ calls) {#} = Some (mset ds) \<and> held p' = {#} \<and> wp_state p' = ProcessStatus.Stopped"
    if "process_stop w p = (r, calls, p')" for w r calls p'
    using stop_accounts [OF inv(1) that] inv(2) by (auto simp: handles_after_append accounts_def)
  ultimately show ?thesis by blast
qed

definition sample_poll :: PollAnswers where
  "sample_poll = \<lparr>pa_wait = WaitTimeout, pa_exit_code = None, pa_error = 0\<rparr>"

definition sample_stop :: StopAnswers where
  "sample_stop = \<lparr>st_terminated = True, st_terminate_error = 0, st_waited = WaitObject, st_wait_error = 0\<rparr>"

definition sample_process_start :: ProcessStartAnswers where
  "sample_process_start = \<lparr>sa_poll = sample_poll, sa_stop = sample_stop, sa_paths_memory = True,
     sa_executable = Some (W ''C:a''), sa_directory = W ''C:'', sa_profile = None, sa_job = 1, sa_limits = True, sa_pipe = Some (2, 3),
     sa_not_inherited = True, sa_nul = Some 4, sa_attribute_memory = True, sa_attribute_list = True,
     sa_command_memory = True, sa_created = Some (5, 6, 7), sa_assigned = True, sa_resumed = True, sa_error = 0\<rparr>"

definition sample_running :: WindowsProcess where
  "sample_running = \<lparr>wp_job = 1, wp_process = 5, wp_stdin_write = 3, wp_process_id = 7,
     wp_last_error = ERROR_SUCCESS, wp_exit_code = None, wp_state = ProcessStatus.Running\<rparr>"

definition sample_calls :: "OsCall list" where
  "sample_calls = [JobCreated 1, KillOnJobClose 1, HandlesOpened [2, 3], HandlesOpened [4],
     ProcessCreated 5 6 (child_creation (W ''C:a'') (child_command (W ''C:a'') []) (W ''C:'') 2 4),
     HandleClosed 2, HandleClosed 4,
     AssignedToJob 5 1, Resumed 6, HandleClosed 6]"

lemma sample_started: "process_start False sample_process_start new_process = (True, sample_calls, sample_running)"
  by code_simp

theorem process_handles_balanced_witness:
  "handles_after sample_calls {#} = Some (held sample_running) \<and>
     held sample_running = {#1, 3, 5#}"
proof -
  have "process_run ([] @ sample_calls) sample_running []"
    by (rule process_run.start [OF process_run.new _ sample_started]) (simp add: start_ok_def sample_process_start_def)
  from process_handles_balanced [OF this] show ?thesis
    by (simp add: held_def sample_running_def handle_set_def)
qed

text \<open>What the calls that follow the creation of a child say about it, which \<open>CREATE_SUSPENDED\<close> left
  suspended: the only call that lets it run comes after it has been put into the job, and a start that
  fails never lets it run and terminates it, by itself or with the job it is in.\<close>

definition confined :: "bool \<Rightarrow> u64 \<Rightarrow> u64 \<Rightarrow> u64 \<Rightarrow> OsCall list \<Rightarrow> bool" where
  "confined ok process thread job after \<longleftrightarrow>
     (if ok then \<exists>a b. after = a @ AssignedToJob process job # b \<and> (\<forall>t. Resumed t \<notin> set a) \<and> Resumed thread \<in> set b
      else (\<forall>t. Resumed t \<notin> set after) \<and>
        (ProcessTerminated process \<in> set after \<or>
         (\<exists>a b. after = a @ AssignedToJob process job # b \<and> JobTerminated job \<in> set b)))"

definition creates :: "OsCall \<Rightarrow> bool" where
  "creates c \<longleftrightarrow> (\<exists>p t creation. c = ProcessCreated p t creation)"

lemma close_handle_calls [simp]: "c \<in> set (close_handle h) \<Longrightarrow> \<exists>h. c = HandleClosed h"
  by (auto simp: close_handle_def split: if_splits)

lemma creates_closing [simp]:
  "filter creates (close_handle h) = []" "Resumed t \<notin> set (close_handle h)"
  "filter creates (fst (release_handles p)) = []" "Resumed t \<notin> set (fst (release_handles p))"
  by (auto simp: close_handle_def creates_def release_handles_def)

lemma creates_poll [simp]: "filter creates (fst (snd (process_poll w p))) = []"
  by (auto simp: process_poll_def creates_def Let_def case_prod_beta close_handle_def release_handles_def
      split: WaitResult.split)

lemma creates_stop [simp]: "filter creates (fst (snd (process_stop w p))) = []"
  by (simp add: process_stop_def Let_def case_prod_beta release_handles_def) (simp add: creates_def)

lemma create_child_confined:
  assumes "create_child w calls executable command r wr n p = (ok, cs, p')" "filter creates calls = []"
    "ProcessCreated h t creation \<in> set cs"
  shows "\<exists>after. cs = calls @ ProcessCreated h t creation # after \<and>
    creation = child_creation executable command (sa_directory w) r n \<and> confined ok h t (wp_job p) after"
proof -
  have not: "ProcessCreated h t creation \<notin> set calls" using assms(2) by (auto simp: creates_def filter_empty_conv)
  show ?thesis
  proof (cases "sa_created w")
    case None
    then have "ProcessCreated h t creation \<in> set calls"
      using assms(1,3) by (auto simp: create_child_def Let_def start_failed_def case_prod_beta release_handles_def
          dest: close_handle_calls)
    with not show ?thesis by blast
  next
    case (Some x)
    obtain pr th pid where x: "x = (pr, th, pid)" by (cases x)
    have eq: "ProcessCreated h t creation = ProcessCreated pr th (child_creation executable command (sa_directory w) r n)"
      using assms(1,3) not Some x
      by (auto simp: create_child_def Let_def start_failed_def case_prod_beta release_handles_def
          dest: close_handle_calls split: if_splits)
    let ?closed = "close_handle r @ close_handle n"
    consider "\<not> sa_assigned w" | "sa_assigned w" "\<not> sa_resumed w" | "sa_assigned w" "sa_resumed w" by blast
    then show ?thesis
    proof cases
      case 1
      then show ?thesis
        using assms(1) Some x eq
        by (auto simp: create_child_def Let_def start_failed_def case_prod_beta confined_def)
    next
      case 2
      then obtain b where "cs = calls @ ProcessCreated h t creation # ?closed @
          AssignedToJob h (wp_job p) # JobTerminated (wp_job p) # b" "\<not> ok" "\<forall>t. Resumed t \<notin> set b"
        using assms(1) Some x eq by (auto simp: create_child_def Let_def start_failed_def case_prod_beta)
      moreover have "confined False h t (wp_job p) (?closed @ AssignedToJob h (wp_job p) # JobTerminated (wp_job p) # b)"
        unfolding confined_def if_False
        by (intro conjI disjI2 exI [of _ ?closed] exI [of _ "JobTerminated (wp_job p) # b"])
          (use calculation(3) in auto)
      ultimately show ?thesis using eq by auto
    next
      case 3
      then have "cs = calls @ ProcessCreated h t creation # ?closed @
          AssignedToJob h (wp_job p) # [Resumed t, HandleClosed t]" and ok: "ok"
        using assms(1) Some x eq by (auto simp: create_child_def Let_def)
      moreover have "confined ok h t (wp_job p) (?closed @
          AssignedToJob h (wp_job p) # [Resumed t, HandleClosed t])"
        unfolding confined_def using ok by (simp only: if_True)
          (rule exI [of _ ?closed], rule exI [of _ "[Resumed t, HandleClosed t]"], simp)
      ultimately show ?thesis using eq by auto
    qed
  qed
qed

lemma start_failed_creates:
  "start_failed e calls scoped p = (ok, cs, p') \<Longrightarrow> \<not> ok \<and> filter creates cs = filter creates (calls @ scoped)"
  "start_out_of_memory calls scoped p = (ok, cs, p') \<Longrightarrow> \<not> ok \<and> filter creates cs = filter creates (calls @ scoped)"
  by (auto simp: start_failed_def start_out_of_memory_def case_prod_beta)

text \<open>Before \<open>CreateProcessW\<close> nothing runs; a launch either ends there or goes through
  \<open>create_child\<close> with the job set to kill on close and the parent's pipe end not inherited.\<close>

lemma launch_cases:
  assumes "launch w executable command p = (ok, cs, p')"
  shows "\<not> ok \<and> filter creates cs = [] \<or>
    (\<exists>r wr n. sa_job w \<noteq> 0 \<and> sa_pipe w = Some (r, wr) \<and> sa_nul w = Some n \<and> sa_not_inherited w \<and>
      create_child w [JobCreated (sa_job w), KillOnJobClose (sa_job w), HandlesOpened [r, wr], HandlesOpened [n]]
        executable command r wr n (p\<lparr>wp_job := sa_job w\<rparr>) = (ok, cs, p'))"
proof (cases "sa_job w = 0 \<or> \<not> sa_limits w \<or> sa_pipe w = None")
  case True
  then show ?thesis using assms
    by (auto simp: launch_def Let_def creates_def dest!: start_failed_creates split: if_splits)
next
  case False
  then obtain r wr where pipe: "sa_pipe w = Some (r, wr)" by auto
  show ?thesis
  proof (cases "\<not> sa_not_inherited w \<or> sa_nul w = None")
    case True
    then show ?thesis using assms False pipe
      by (cases "sa_not_inherited w")
        (auto simp: launch_def Let_def creates_def[of "JobCreated _"] creates_def[of "KillOnJobClose _"]
          creates_def[of "HandlesOpened _"] dest!: start_failed_creates)
  next
    case open_nul: False
    then obtain n where n: "sa_nul w = Some n" by auto
    show ?thesis
    proof (cases "sa_attribute_memory w \<and> sa_attribute_list w \<and> sa_command_memory w")
      case True
      then have "create_child w [JobCreated (sa_job w), KillOnJobClose (sa_job w), HandlesOpened [r, wr], HandlesOpened [n]]
          executable command r wr n (p\<lparr>wp_job := sa_job w\<rparr>) = (ok, cs, p')"
        using assms False open_nul pipe n by (simp add: launch_def Let_def)
      then show ?thesis using False open_nul pipe n by blast
    next
      case early: False
      then show ?thesis using assms False open_nul pipe n
        by (auto simp: launch_def Let_def creates_def[of "JobCreated _"] creates_def[of "KillOnJobClose _"]
            creates_def[of "HandlesOpened _"] dest!: start_failed_creates split: if_splits)
    qed
  qed
qed

lemma start_launches:
  assumes "process_start g w p = (ok, calls, p')" "ProcessCreated h t creation \<in> set calls"
  obtains executable before q cs where "sa_executable w = Some executable" "g \<longrightarrow> sa_profile w \<noteq> None"
    "calls = before @ cs"
    "launch w executable (child_command executable (if g then the (sa_profile w) else [])) q = (ok, cs, p')"
    "ProcessCreated h t creation \<in> set cs"
proof -
  obtain status polled p1 where poll: "process_poll (sa_poll w) p = (status, polled, p1)" by (metis surj_pair)
  obtain so stopped p2 where stop: "process_stop (sa_stop w) p1 = (so, stopped, p2)" by (metis surj_pair)
  have none: "ProcessCreated h t creation \<notin> set (polled @ stopped)"
    using creates_poll [of "sa_poll w" p] creates_stop [of "sa_stop w" p1] poll stop
    by (auto simp: creates_def filter_empty_conv)
  have oom: "ProcessCreated h t creation \<notin> set x" if "start_out_of_memory (polled @ stopped) [] q = (ok, x, p')" for q x
    using that none by (auto simp: start_out_of_memory_def case_prod_beta release_handles_def dest: close_handle_calls)
  define q where "q = p2\<lparr>wp_exit_code := None, wp_last_error := ERROR_SUCCESS\<rparr>"
  have "\<not> (status = ProcessStatus.Running)" using assms poll none by (auto simp: process_start_def)
  then have start: "process_start g w p =
       (if \<not> sa_paths_memory w then start_out_of_memory (polled @ stopped) [] q
        else case sa_executable w of
            None \<Rightarrow> (False, polled @ stopped, q\<lparr>wp_last_error := ERROR_FILE_NOT_FOUND, wp_state := ProcessStatus.Failed\<rparr>)
          | Some executable \<Rightarrow>
              if g \<and> sa_profile w = None
              then (False, polled @ stopped, q\<lparr>wp_last_error := ERROR_INVALID_PARAMETER, wp_state := ProcessStatus.Failed\<rparr>)
              else case launch w executable (child_command executable (if g then the (sa_profile w) else [])) q of
                  (ok, cs, p3) \<Rightarrow> (ok, (polled @ stopped) @ cs, p3))"
    unfolding process_start_def poll stop prod.case Let_def q_def by simp
  obtain executable cs where x: "sa_executable w = Some executable" "g \<longrightarrow> sa_profile w \<noteq> None"
    "calls = (polled @ stopped) @ cs"
    "launch w executable (child_command executable (if g then the (sa_profile w) else [])) q = (ok, cs, p')"
    using assms none oom unfolding start by (auto split: if_splits option.splits prod.splits)
  have "ProcessCreated h t creation \<in> set cs" using assms(2) none x(3) by simp
  then show thesis by (rule that [OF x])
qed

text \<open>
  C37. The child is confined. When a start creates a process, the image that runs is the absolute path
  that was checked to be a regular file, given as the application name so that nothing is looked up; its
  command line is built from that path and the checked profile directory, and its working directory is the
  one of the path. It is created suspended and without a window, and inherits the read end of the pipe, its
  standard input, and the null device, its standard output and error, only; not the end the parent writes
  to. It is created after its job was set to kill on close; if the start succeeds the child was put into the
  job before it was resumed, and if it fails the child was never resumed and has been terminated, by itself
  or with its job. So it never runs a single instruction outside the job.
\<close>

theorem child_starts_confined:
  assumes "process_start g w p = (ok, calls, p')" "ProcessCreated h t creation \<in> set calls"
  shows "\<exists>executable before after r wr n. sa_executable w = Some executable \<and> (g \<longrightarrow> sa_profile w \<noteq> None) \<and>
    sa_pipe w = Some (r, wr) \<and> sa_nul w = Some n \<and> sa_not_inherited w \<and>
    pc_application creation = executable \<and>
    pc_command creation = child_command executable (if g then the (sa_profile w) else []) \<and>
    pc_directory creation = sa_directory w \<and>
    pc_flags creation AND CREATE_SUSPENDED = CREATE_SUSPENDED \<and>
    pc_flags creation AND CREATE_NO_WINDOW = CREATE_NO_WINDOW \<and>
    pc_flags creation AND EXTENDED_STARTUPINFO_PRESENT = EXTENDED_STARTUPINFO_PRESENT \<and>
    pc_inherit creation \<and> pc_handle_list creation = [r, n] \<and>
    pc_startup_flags creation AND STARTF_USESTDHANDLES = STARTF_USESTDHANDLES \<and>
    pc_stdin creation = r \<and> pc_stdout creation = n \<and> pc_stderr creation = n \<and>
    calls = before @ ProcessCreated h t creation # after \<and> KillOnJobClose (sa_job w) \<in> set before \<and>
    confined ok h t (sa_job w) after"
proof -
  obtain executable before q cs where s: "sa_executable w = Some executable" "g \<longrightarrow> sa_profile w \<noteq> None"
    "calls = before @ cs"
    "launch w executable (child_command executable (if g then the (sa_profile w) else [])) q = (ok, cs, p')"
    "ProcessCreated h t creation \<in> set cs"
    by (rule start_launches [OF assms])
  have "creates (ProcessCreated h t creation)" by (simp add: creates_def)
  then have "filter creates cs \<noteq> []" using s(5) by (metis filter_empty_conv)
  then obtain r wr n where l: "sa_pipe w = Some (r, wr)" "sa_nul w = Some n" "sa_not_inherited w"
    "create_child w [JobCreated (sa_job w), KillOnJobClose (sa_job w), HandlesOpened [r, wr], HandlesOpened [n]]
      executable (child_command executable (if g then the (sa_profile w) else [])) r wr n (q\<lparr>wp_job := sa_job w\<rparr>) = (ok, cs, p')"
    using launch_cases [OF s(4)] by blast
  have "filter creates [JobCreated (sa_job w), KillOnJobClose (sa_job w), HandlesOpened [r, wr], HandlesOpened [n]] = []"
    by (simp add: creates_def)
  from create_child_confined [OF l(4) this s(5)] obtain after where a:
    "cs = [JobCreated (sa_job w), KillOnJobClose (sa_job w), HandlesOpened [r, wr], HandlesOpened [n]] @
      ProcessCreated h t creation # after"
    "creation = child_creation executable (child_command executable (if g then the (sa_profile w) else []))
      (sa_directory w) r n"
    "confined ok h t (wp_job (q\<lparr>wp_job := sa_job w\<rparr>)) after"
    by (elim exE conjE)
  show ?thesis
    using s(1,2) l(1-3) a(3)
    by (intro exI [of _ executable] exI [of _ "before @ [JobCreated (sa_job w), KillOnJobClose (sa_job w),
          HandlesOpened [r, wr], HandlesOpened [n]]"] exI [of _ after] exI [of _ r] exI [of _ wr] exI [of _ n])
      (simp add: s(3) a(1,2) child_creation_def)
qed

theorem child_starts_confined_witness:
  "\<exists>creation before after. sample_calls = before @ ProcessCreated 5 6 creation # after \<and>
     pc_application creation = W ''C:a'' \<and> pc_flags creation AND CREATE_SUSPENDED = CREATE_SUSPENDED \<and>
     KillOnJobClose 1 \<in> set before \<and> confined True 5 6 1 after"
proof -
  let ?creation = "child_creation (W ''C:a'') (child_command (W ''C:a'') []) (W ''C:'') 2 4"
  have "ProcessCreated 5 6 ?creation \<in> set sample_calls" by (simp add: sample_calls_def)
  from child_starts_confined [OF sample_started this] show ?thesis
    by (auto simp: sample_process_start_def intro!: exI [of _ ?creation])
qed

text \<open>
  C38. The child reads back what was meant. By the documented rules of the C runtime, whatever
  characters an argument has, quoting it and scanning it again gives that argument and leaves what
  follows; so the child's command line is its path in quotation marks, then \<open>-f\<close>, then one argument that
  is exactly the profile directory.
\<close>

theorem child_arguments_read_back:
  assumes "runtime_rules scan"
    and "profile \<noteq> []" "quotation \<notin> set executable" "executable \<noteq> [] \<longrightarrow> last executable \<noteq> backslash"
  shows "\<exists>arguments. child_command executable profile = quotation # executable @ quotation # 0x20 # arguments \<and>
    scan False arguments = (W ''-f'', 0x20 # quote_windows_argument profile) \<and>
    (\<forall>s r. r = [] \<or> blank_char (hd r) \<longrightarrow> scan False (quote_windows_argument s @ r) = (s, r))"
proof -
  let ?args = "W ''-f '' @ quote_windows_argument profile"
  have dash: "W ''-f '' = [0x2D, 0x66, 0x20]" by (simp add: W_def)
  have plain: "scan False (c # r) = prepend [c] (scan False r)" if "c \<noteq> backslash \<and> c \<noteq> quotation \<and> \<not> blank_char c" for c r
    using scan_plain [OF assms(1), where c = c and q = False and n = 0 and r = r] that by simp
  have "scan False (0x20 # r) = ([], 0x20 # r)" for r
    by (rule scan_ends [OF assms(1)]) (simp add: blank_char_def)
  then have "scan False ?args = (W ''-f'', 0x20 # quote_windows_argument profile)"
    by (simp add: dash plain blank_char_def prepend_def W_def)
  moreover have "child_command executable profile = quotation # executable @ quotation # 0x20 # ?args"
  proof -
    have "executable = [] \<or> last executable \<noteq> backslash" using assms(4) by blast
    from quote_plain_path [OF assms(3) this] show ?thesis using assms(2) by (simp add: child_command_def W_def)
  qed
  ultimately show ?thesis using scan_argument [OF assms(1)] by blast
qed

text \<open>A scanner that follows the rules, with the count of backslashes just read.\<close>

fun sample_scan :: "nat \<Rightarrow> bool \<Rightarrow> wstr \<Rightarrow> wstr \<times> wstr" where
  "sample_scan n q [] = (replicate n backslash, [])"
| "sample_scan n q (c # r) =
     (if c = backslash then sample_scan (n + 1) q r
      else if c = quotation
      then (if even n then prepend (replicate (n div 2) backslash) (sample_scan 0 (\<not> q) r)
            else prepend (replicate (n div 2) backslash @ [quotation]) (sample_scan 0 q r))
      else if \<not> q \<and> blank_char c then (replicate n backslash, c # r)
      else prepend (replicate n backslash @ [c]) (sample_scan 0 q r))"

lemma sample_scan_backslashes: "sample_scan m q (replicate n backslash @ r) = sample_scan (m + n) q r"
  by (induction n arbitrary: m) simp_all

lemma sample_scan_rules: "runtime_rules (sample_scan 0)"
proof -
  have "sample_scan 0 False r = ([], r)" if "r = [] \<or> blank_char (hd r)" for r
    using that by (cases r) (auto simp: blank_char_def)
  then show ?thesis
    unfolding runtime_rules_def by (intro conjI allI impI) (auto simp: sample_scan_backslashes)
qed

theorem child_arguments_read_back_witness:
  "\<exists>arguments. child_command (W ''a'') (W ''b c'') = quotation # W ''a'' @ quotation # 0x20 # arguments \<and>
     sample_scan 0 False arguments = (W ''-f'', 0x20 # quote_windows_argument (W ''b c''))"
proof -
  have a: "W ''b c'' \<noteq> []" "quotation \<notin> set (W ''a'')" "W ''a'' \<noteq> [] \<longrightarrow> last (W ''a'') \<noteq> backslash"
    by (simp_all add: W_def)
  from child_arguments_read_back [OF sample_scan_rules a] show ?thesis by blast
qed

end
