(* ===== verification/Lab_Profile.thy ===== *)
theory Lab_Profile
  imports Cti_Server
begin

text \<open>
  The audit of the laboratory profile before a child process is started with it, \<open>baresip_profile.h\<close>, and
  the inventory of the modules beside the executable, \<open>baresip_modules.h\<close>. What the file system
  answers is an argument: the status of each entry, its Windows attributes, its size and the bytes
  that could be read. The locale of \<open>tolower\<close> is the C locale.
\<close>

section \<open>What the file system answers\<close>

text \<open>\<open>symlink_status\<close>: an error, no entry, or the kind of the entry. \<open>attributes\<close>: \<open>None\<close> if
  \<open>GetFileAttributesW\<close> fails, else whether the entry is a reparse point.\<close>

datatype EntryKind = RegularFile | DirectoryEntry | SymbolicLink | OtherEntry

datatype EntryStatus = StatusError | NoEntry | Entry EntryKind

record ProfileFile =
  pf_status :: EntryStatus
  pf_attributes :: "bool option"
  pf_size :: "nat option"
  pf_open :: bool
  pf_bytes :: string
  pf_bad :: bool

record ProfileDirectory =
  pd_empty :: bool
  pd_status :: EntryStatus
  pd_created :: bool
  pd_attributes :: "bool option"
  pd_file :: "string \<Rightarrow> ProfileFile"

section \<open>One line of the configuration\<close>

datatype BaresipProfileStatus =
    Ready | CreateFailed | UnsafePath | UnsafeFile | AccountsConfigured | InsecureRemoteControl
  | UnsafeConfiguration | OversizedConfiguration | ReadFailed

definition line_blank :: "char \<Rightarrow> bool" where
  "line_blank c \<longleftrightarrow> c = CHR '' '' \<or> c = CHR 0x09 \<or> c = CHR 0x0D \<or> c = CHR 0x0A"

text \<open>\<open>s.find(w) != npos\<close>.\<close>

definition has_substring :: "string \<Rightarrow> string \<Rightarrow> bool" where
  "has_substring w s \<longleftrightarrow> list_ex (\<lambda>i. starts_with w (drop i s)) [0..<Suc (length s)]"

definition oversized_line :: "string \<Rightarrow> bool" where
  "oversized_line line \<longleftrightarrow> length line > 4096 \<or> CHR 0x00 \<in> set line"

text \<open>The line from the first character that is not blank on; empty for \<open>npos\<close>.\<close>

definition line_text :: "string \<Rightarrow> string" where
  "line_text line = dropWhile line_blank line"

definition idle_line :: "string \<Rightarrow> bool" where
  "idle_line line \<longleftrightarrow> line_text line = [] \<or> hd (line_text line) = CHR ''#''"

definition active_text :: "string \<Rightarrow> string" where
  "active_text line = takeWhile (\<lambda>c. c \<noteq> CHR ''#'') (lower (line_text line))"

definition line_key :: "string \<Rightarrow> string" where
  "line_key line = takeWhile (\<lambda>c. \<not> (c = CHR '' '' \<or> c = CHR 0x09 \<or> c = CHR ''='' \<or> c = CHR 0x0D \<or> c = CHR 0x0A))
     (active_text line)"

definition refused_keys :: "string list" where
  "refused_keys = [''include'', ''module_path'', ''module_preload'', ''module_dir'']"

definition remote_controls :: "string list" where
  "remote_controls = [''ctrl_tcp'', ''ctrl_http'', ''ctrl_ws'']"

definition inspect_baresip_config_line :: "string \<Rightarrow> BaresipProfileStatus" where
  "inspect_baresip_config_line line =
     (if oversized_line line then BaresipProfileStatus.UnsafeConfiguration
      else if idle_line line then BaresipProfileStatus.Ready
      else if line_key line \<in> set refused_keys then BaresipProfileStatus.UnsafeConfiguration
      else if list_ex (\<lambda>w. has_substring w (active_text line)) remote_controls
      then BaresipProfileStatus.InsecureRemoteControl
      else BaresipProfileStatus.Ready)"

section \<open>The audit\<close>

text \<open>\<open>getline\<close>: a last line without a terminator counts, nothing after the last terminator does not.\<close>

fun getlines :: "string \<Rightarrow> string \<Rightarrow> string list" where
  "getlines read [] = (if read = [] then [] else [rev read])"
| "getlines read (c # cs) =
     (if c = CHR 0x0A then rev read # getlines [] cs else getlines (c # read) cs)"

fun inspect_lines :: "bool \<Rightarrow> string list \<Rightarrow> BaresipProfileStatus" where
  "inspect_lines accounts [] = BaresipProfileStatus.Ready"
| "inspect_lines accounts (line # lines) =
     (if oversized_line line then BaresipProfileStatus.UnsafeConfiguration
      else if idle_line line then inspect_lines accounts lines
      else if accounts then BaresipProfileStatus.AccountsConfigured
      else if inspect_baresip_config_line line \<noteq> BaresipProfileStatus.Ready
      then inspect_baresip_config_line line
      else inspect_lines accounts lines)"

text \<open>What the loop over \<open>getline\<close> sees: when the stream goes bad, \<open>getline\<close> fails on the line it is reading,
  so that only the lines that were terminated are inspected.\<close>

definition lines_read :: "ProfileFile \<Rightarrow> string list" where
  "lines_read f = getlines []
     (if pf_bad f then rev (dropWhile (\<lambda>c. c \<noteq> CHR 0x0A) (rev (pf_bytes f))) else pf_bytes f)"

definition inspect_profile_file :: "string \<Rightarrow> ProfileFile \<Rightarrow> BaresipProfileStatus" where
  "inspect_profile_file filename f =
     (case pf_status f of
        NoEntry \<Rightarrow> BaresipProfileStatus.Ready
      | StatusError \<Rightarrow> BaresipProfileStatus.ReadFailed
      | Entry kind \<Rightarrow>
          if kind \<noteq> RegularFile then BaresipProfileStatus.UnsafeFile
          else if pf_attributes f \<noteq> Some False then BaresipProfileStatus.UnsafeFile
          else if filename \<noteq> ''accounts'' \<and> filename \<noteq> ''config'' then BaresipProfileStatus.Ready
          else (case pf_size f of
                  None \<Rightarrow> BaresipProfileStatus.ReadFailed
                | Some bytes \<Rightarrow>
                    if bytes > 128 * 1024 then BaresipProfileStatus.OversizedConfiguration
                    else if \<not> pf_open f then BaresipProfileStatus.ReadFailed
                    else (let decision = inspect_lines (filename = ''accounts'') (lines_read f)
                          in if decision \<noteq> BaresipProfileStatus.Ready then decision
                             else if pf_bad f then BaresipProfileStatus.ReadFailed
                             else BaresipProfileStatus.Ready)))"

fun inspect_profile_files :: "(string \<Rightarrow> ProfileFile) \<Rightarrow> string list \<Rightarrow> BaresipProfileStatus" where
  "inspect_profile_files file [] = BaresipProfileStatus.Ready"
| "inspect_profile_files file (name # names) =
     (let status = inspect_profile_file name (file name)
      in if status \<noteq> BaresipProfileStatus.Ready then status else inspect_profile_files file names)"

definition profile_filenames :: "string list" where
  "profile_filenames = [''config'', ''accounts'', ''contacts'', ''uuid'']"

definition prepare_baresip_lab_profile :: "ProfileDirectory \<Rightarrow> BaresipProfileStatus" where
  "prepare_baresip_lab_profile d =
     (if pd_empty d then BaresipProfileStatus.UnsafePath
      else if pd_status d = StatusError then BaresipProfileStatus.UnsafePath
      else if pd_status d \<noteq> NoEntry \<and> pd_status d \<noteq> Entry DirectoryEntry then BaresipProfileStatus.UnsafePath
      else if pd_status d = NoEntry \<and> \<not> pd_created d then BaresipProfileStatus.CreateFailed
      else if pd_attributes d \<noteq> Some False then BaresipProfileStatus.UnsafePath
      else inspect_profile_files (pd_file d) profile_filenames)"

section \<open>The module inventory\<close>

datatype LocalArtifact = ArtifactMissing | ArtifactPresent | ArtifactUnsafe

datatype BaresipModuleScanStatus =
    MissingBinary | UnsafeBinary | MissingModuleDirectory | UnsafeModuleDirectory | Inspected

text \<open>An artifact: whether its path is empty, its status, its attributes.\<close>

record Artifact =
  ar_empty :: bool
  ar_status :: EntryStatus
  ar_attributes :: "bool option"

definition inspect_local_artifact :: "Artifact \<Rightarrow> bool \<Rightarrow> LocalArtifact" where
  "inspect_local_artifact a expect_directory =
     (if ar_empty a then ArtifactMissing
      else (case ar_status a of
              NoEntry \<Rightarrow> ArtifactMissing
            | StatusError \<Rightarrow> ArtifactUnsafe
            | Entry kind \<Rightarrow>
                if kind \<noteq> (if expect_directory then DirectoryEntry else RegularFile) then ArtifactUnsafe
                else if ar_attributes a \<noteq> Some False then ArtifactUnsafe
                else ArtifactPresent))"

record BaresipModuleInventory =
  mi_status :: BaresipModuleScanStatus
  mi_g711_file :: bool
  mi_g722_file :: bool
  mi_opus_file :: bool
  mi_wasapi_file :: bool
  mi_winwave_file :: bool
  mi_srtp_file :: bool
  mi_dtls_srtp_file :: bool

definition default_module_inventory :: BaresipModuleInventory where
  "default_module_inventory = \<lparr>mi_status = BaresipModuleScanStatus.MissingBinary, mi_g711_file = False,
     mi_g722_file = False, mi_opus_file = False, mi_wasapi_file = False, mi_winwave_file = False,
     mi_srtp_file = False, mi_dtls_srtp_file = False\<rparr>"

text \<open>The table of probes: a file name and the member it sets.\<close>

definition module_probes ::
    "(string \<times> (bool \<Rightarrow> BaresipModuleInventory \<Rightarrow> BaresipModuleInventory)) list" where
  "module_probes =
     [(''g711.dll'', \<lambda>b i. i\<lparr>mi_g711_file := b\<rparr>), (''g722.dll'', \<lambda>b i. i\<lparr>mi_g722_file := b\<rparr>),
      (''opus.dll'', \<lambda>b i. i\<lparr>mi_opus_file := b\<rparr>), (''wasapi.dll'', \<lambda>b i. i\<lparr>mi_wasapi_file := b\<rparr>),
      (''winwave.dll'', \<lambda>b i. i\<lparr>mi_winwave_file := b\<rparr>), (''srtp.dll'', \<lambda>b i. i\<lparr>mi_srtp_file := b\<rparr>),
      (''dtls_srtp.dll'', \<lambda>b i. i\<lparr>mi_dtls_srtp_file := b\<rparr>)]"

fun run_module_probes ::
    "(string \<Rightarrow> Artifact) \<Rightarrow> (string \<times> (bool \<Rightarrow> BaresipModuleInventory \<Rightarrow> BaresipModuleInventory)) list \<Rightarrow>
     BaresipModuleInventory \<Rightarrow> BaresipModuleInventory" where
  "run_module_probes modules [] result = result\<lparr>mi_status := BaresipModuleScanStatus.Inspected\<rparr>"
| "run_module_probes modules ((file, target) # probes) result =
     (let found = inspect_local_artifact (modules file) False
      in if found = ArtifactUnsafe then result\<lparr>mi_status := BaresipModuleScanStatus.UnsafeModuleDirectory\<rparr>
         else run_module_probes modules probes (target (found = ArtifactPresent) result))"

definition inspect_baresip_module_files ::
    "Artifact \<Rightarrow> Artifact \<Rightarrow> (string \<Rightarrow> Artifact) \<Rightarrow> BaresipModuleInventory" where
  "inspect_baresip_module_files executable directory modules =
     (let result = default_module_inventory; binary = inspect_local_artifact executable False in
      if binary = ArtifactMissing then result
      else if binary = ArtifactUnsafe then result\<lparr>mi_status := BaresipModuleScanStatus.UnsafeBinary\<rparr>
      else (let found = inspect_local_artifact directory True in
        if found = ArtifactMissing then result\<lparr>mi_status := BaresipModuleScanStatus.MissingModuleDirectory\<rparr>
        else if found = ArtifactUnsafe then result\<lparr>mi_status := BaresipModuleScanStatus.UnsafeModuleDirectory\<rparr>
        else run_module_probes modules module_probes result))"

definition module_line :: "string \<Rightarrow> bool \<Rightarrow> string" where
  "module_line label found = label @ (if found then '': arquivo presente\<newline>'' else '': ausente\<newline>'')"

fun baresip_module_inventory_summary :: "BaresipModuleInventory \<Rightarrow> string" where
  "baresip_module_inventory_summary i =
     (case mi_status i of
        BaresipModuleScanStatus.MissingBinary \<Rightarrow> ''baresip.exe nao foi encontrado ao lado do AXE Voice.''
      | BaresipModuleScanStatus.UnsafeBinary \<Rightarrow>
          ''baresip.exe nao e um arquivo regular ou possui redirecionamento. Inicializacao bloqueada.''
      | BaresipModuleScanStatus.UnsafeModuleDirectory \<Rightarrow>
          ''Pasta modules ou arquivo examinado possui tipo/redirecionamento inseguro. Inicializacao bloqueada.''
      | BaresipModuleScanStatus.MissingModuleDirectory \<Rightarrow>
          ''Arquivo Baresip encontrado. Pasta modules ausente.\<newline>'' @
          ''Codecs estaticos ou instalacao em outro layout: DESCONHECIDOS.''
      | BaresipModuleScanStatus.Inspected \<Rightarrow>
          ''Inventario de arquivos (NAO comprova suporte SIP/codec):\<newline>'' @
          module_line ''G.711 (PCMA/PCMU)'' (mi_g711_file i) @ module_line ''G.722'' (mi_g722_file i) @
          module_line ''Opus'' (mi_opus_file i) @ module_line ''WASAPI'' (mi_wasapi_file i) @
          module_line ''WinWave'' (mi_winwave_file i) @ module_line ''SRTP'' (mi_srtp_file i) @
          module_line ''DTLS-SRTP'' (mi_dtls_srtp_file i) @
          ''G.729: indisponivel ate verificacao independente.\<newline>'' @
          ''Arquivos presentes nao foram carregados ou autenticados.\<newline>'' @
          ''Registro e chamadas SIP continuam desabilitados.'')"

section \<open>What the audit guarantees\<close>

lemma getlines_join:
  "(\<exists>rest. concat (map (\<lambda>l. l @ [CHR 0x0A]) (getlines read cs)) = rev read @ cs @ rest \<and>
      (rest = [] \<or> rest = [CHR 0x0A]))"
  by (induction read cs rule: getlines.induct) auto

lemma inspect_lines_ready:
  "inspect_lines accounts lines = BaresipProfileStatus.Ready \<longleftrightarrow>
     (\<forall>l \<in> set lines. \<not> oversized_line l \<and> (idle_line l \<or>
        \<not> accounts \<and> inspect_baresip_config_line l = BaresipProfileStatus.Ready))"
  by (induction lines) auto

lemma profile_files_ready:
  "inspect_profile_files file names = BaresipProfileStatus.Ready \<longleftrightarrow>
     (\<forall>n \<in> set names. inspect_profile_file n (file n) = BaresipProfileStatus.Ready)"
  by (induction names) (auto simp: Let_def)

lemma has_substring_iff: "has_substring w s \<longleftrightarrow> (\<exists>a b. s = a @ w @ b)"
proof
  assume "has_substring w s"
  then obtain i where "starts_with w (drop i s)"
    unfolding has_substring_def list_ex_iff by blast
  then obtain t where "drop i s = w @ t" by (auto simp: starts_with_conv)
  then have "s = take i s @ w @ t" by (metis append_take_drop_id)
  then show "\<exists>a b. s = a @ w @ b" by blast
next
  assume "\<exists>a b. s = a @ w @ b"
  then obtain a b where "s = a @ w @ b" by blast
  then have "starts_with w (drop (length a) s)" "length a \<in> set [0..<Suc (length s)]" by auto
  then show "has_substring w s" unfolding has_substring_def list_ex_iff by blast
qed

text \<open>The lower-case letters are those of the line, position by position.\<close>

lemma lower_append: "lower (a @ b) = lower a @ lower b"
  by (simp add: lower_def)

lemma lower_hash [simp]: "lower_char c = CHR ''#'' \<longleftrightarrow> c = CHR ''#''"
proof -
  have "lower_char c \<noteq> CHR ''#'' \<or> c = CHR ''#''"
  proof (cases "65 \<le> (of_char c :: nat) \<and> (of_char c :: nat) \<le> 90")
    case True
    then have "(of_char (lower_char c) :: nat) = of_char c + 32" by (simp add: lower_char_def Let_def)
    then show ?thesis using True by auto
  next
    case False
    then have "lower_char c = c" unfolding lower_char_def Let_def by (rule if_not_P)
    then show ?thesis by simp
  qed
  moreover have "lower_char (CHR ''#'') = CHR ''#''" by code_simp
  ultimately show ?thesis by blast
qed

lemma active_text_lower: "active_text line = lower (takeWhile (\<lambda>c. c \<noteq> CHR ''#'') (line_text line))"
  by (simp add: active_text_def lower_def takeWhile_map comp_def)

lemma active_text_part:
  assumes "line_text line = a @ w @ b" "CHR ''#'' \<notin> set (a @ w)"
  shows "\<exists>c. active_text line = lower a @ lower w @ c"
proof -
  have "takeWhile (\<lambda>c. c \<noteq> CHR ''#'') ((a @ w) @ b) = (a @ w) @ takeWhile (\<lambda>c. c \<noteq> CHR ''#'') b"
    by (rule takeWhile_append2) (use assms(2) in auto)
  then show ?thesis using assms(1) by (simp add: active_text_lower lower_append)
qed

text \<open>A separator or a comment ends the key.\<close>

definition key_end :: "char \<Rightarrow> bool" where
  "key_end c \<longleftrightarrow> line_blank c \<or> c = CHR ''='' \<or> c = CHR ''#''"

lemma lower_blank: "line_blank c \<or> c = CHR ''='' \<Longrightarrow> lower_char c = c"
  by (auto simp: line_blank_def; code_simp)

lemma refused_key_text:
  assumes "lower k \<in> set refused_keys"
  shows "CHR ''#'' \<notin> set k" "\<forall>c \<in> set (lower k). \<not> key_end c"
proof -
  have all: "\<forall>r \<in> set refused_keys. \<forall>c \<in> set r. \<not> key_end c" by code_simp
  then show "\<forall>c \<in> set (lower k). \<not> key_end c" using assms by blast
  then show "CHR ''#'' \<notin> set k" by (auto simp: lower_def key_end_def)
qed

lemma line_key_found:
  assumes "line_text line = k @ rest" "lower k \<in> set refused_keys" "rest = [] \<or> key_end (hd rest)"
  shows "line_key line = lower k"
proof -
  let ?sep = "\<lambda>c. \<not> (c = CHR '' '' \<or> c = CHR 0x09 \<or> c = CHR ''='' \<or> c = CHR 0x0D \<or> c = CHR 0x0A)"
  note k = refused_key_text [OF assms(2)]
  let ?x = "lower (takeWhile (\<lambda>c. c \<noteq> CHR ''#'') rest)"
  have "takeWhile (\<lambda>c. c \<noteq> CHR ''#'') (k @ rest) = k @ takeWhile (\<lambda>c. c \<noteq> CHR ''#'') rest"
    by (rule takeWhile_append2) (use k(1) in auto)
  then have a: "active_text line = lower k @ ?x"
    using assms(1) by (simp add: active_text_lower lower_append)
  have "takeWhile ?sep ?x = []"
  proof (cases rest)
    case Nil
    then show ?thesis by (simp add: lower_def)
  next
    case (Cons c cs)
    then show ?thesis
      using assms(3) lower_blank [of c] by (auto simp: key_end_def lower_def line_blank_def)
  qed
  moreover have "takeWhile ?sep (lower k @ ?x) = lower k @ takeWhile ?sep ?x"
    by (rule takeWhile_append2) (use k(2) in \<open>auto simp: key_end_def line_blank_def\<close>)
  ultimately show ?thesis using a by (simp add: line_key_def)
qed

lemma idle_line_ready:
  "\<not> oversized_line line \<Longrightarrow> idle_line line \<Longrightarrow> inspect_baresip_config_line line = BaresipProfileStatus.Ready"
  by (simp add: inspect_baresip_config_line_def)

text \<open>What a line says that was let through: no remote control before a comment, no refused directive.\<close>

lemma ready_line:
  assumes "inspect_baresip_config_line line = BaresipProfileStatus.Ready"
  shows "length line \<le> 4096" "CHR 0x00 \<notin> set line"
    "\<forall>a w b. line_text line = a @ w @ b \<and> CHR ''#'' \<notin> set (a @ w) \<longrightarrow> lower w \<notin> set remote_controls"
    "(\<forall>k rest. line_text line = k @ rest \<and> lower k \<in> set refused_keys \<longrightarrow> rest \<noteq> [] \<and> \<not> key_end (hd rest))"
proof -
  have fit: "\<not> oversized_line line"
    and busy: "\<not> idle_line line \<Longrightarrow> line_key line \<notin> set refused_keys \<and>
      (\<forall>w \<in> set remote_controls. \<not> has_substring w (active_text line))"
    using assms by (auto simp: inspect_baresip_config_line_def list_ex_iff split: if_splits)
  have remote: "lower w \<notin> set remote_controls" if t: "line_text line = a @ w @ b" "CHR ''#'' \<notin> set (a @ w)" for a w b
  proof
    assume w: "lower w \<in> set remote_controls"
    then have "w \<noteq> []" by (auto simp: remote_controls_def lower_def)
    then have "line_text line \<noteq> []" "hd (line_text line) \<in> set (a @ w)" using t(1) by (cases a; cases w; auto)+
    then have "\<not> idle_line line" using t(2) by (auto simp: idle_line_def)
    moreover obtain c where "active_text line = lower a @ lower w @ c" using active_text_part [OF t] by blast
    ultimately show False using busy w has_substring_iff by metis
  qed
  have directive: "rest \<noteq> [] \<and> \<not> key_end (hd rest)"
    if t: "line_text line = k @ rest" "lower k \<in> set refused_keys" for k rest
  proof (rule ccontr)
    assume c: "\<not> (rest \<noteq> [] \<and> \<not> key_end (hd rest))"
    have "k \<noteq> []" using t(2) by (auto simp: refused_keys_def lower_def)
    then have "line_text line \<noteq> []" "hd (line_text line) \<in> set k" using t(1) by (cases k; auto)+
    then have "\<not> idle_line line" using refused_key_text(1) [OF t(2)] by (auto simp: idle_line_def)
    then show False using busy line_key_found [OF t] c t(2) by auto
  qed
  show "length line \<le> 4096" "CHR 0x00 \<notin> set line" using fit by (simp_all add: oversized_line_def not_less)
  show "\<forall>a w b. line_text line = a @ w @ b \<and> CHR ''#'' \<notin> set (a @ w) \<longrightarrow> lower w \<notin> set remote_controls"
    using remote by blast
  show "\<forall>k rest. line_text line = k @ rest \<and> lower k \<in> set refused_keys \<longrightarrow> rest \<noteq> [] \<and> \<not> key_end (hd rest)"
    using directive by blast
qed

lemma ready_file:
  assumes "inspect_profile_file n f = BaresipProfileStatus.Ready" "pf_status f \<noteq> NoEntry"
  shows "pf_status f = Entry RegularFile \<and> pf_attributes f = Some False \<and>
    (n = ''accounts'' \<or> n = ''config'' \<longrightarrow>
       pf_open f \<and> \<not> pf_bad f \<and> (\<exists>bytes \<le> 128 * 1024. pf_size f = Some bytes) \<and>
       inspect_lines (n = ''accounts'') (getlines [] (pf_bytes f)) = BaresipProfileStatus.Ready)"
proof -
  obtain kind where kind: "pf_status f = Entry kind"
    using assms by (cases "pf_status f") (auto simp: inspect_profile_file_def)
  then have "kind = RegularFile" "pf_attributes f = Some False"
    using assms(1) by (auto simp: inspect_profile_file_def split: if_splits)
  moreover have "pf_open f \<and> \<not> pf_bad f \<and> (\<exists>bytes \<le> 128 * 1024. pf_size f = Some bytes) \<and>
       inspect_lines (n = ''accounts'') (getlines [] (pf_bytes f)) = BaresipProfileStatus.Ready"
    if "n = ''accounts'' \<or> n = ''config''"
    using assms(1) kind calculation that
    by (auto simp: inspect_profile_file_def Let_def not_less lines_read_def split: if_splits option.splits)
  ultimately show ?thesis using kind by simp
qed

lemma prepared_files:
  assumes "prepare_baresip_lab_profile d = BaresipProfileStatus.Ready"
  shows "\<not> pd_empty d" "pd_status d = Entry DirectoryEntry \<or> pd_status d = NoEntry \<and> pd_created d"
    "pd_attributes d = Some False" "n \<in> set profile_filenames \<Longrightarrow>
       inspect_profile_file n (pd_file d n) = BaresipProfileStatus.Ready"
  using assms by (auto simp: prepare_baresip_lab_profile_def profile_files_ready split: if_splits)

lemma module_probes_inspected:
  "mi_status (run_module_probes modules probes i) = BaresipModuleScanStatus.Inspected \<longleftrightarrow>
     (\<forall>p \<in> set probes. inspect_local_artifact (modules (fst p)) False \<noteq> ArtifactUnsafe)"
  by (induction modules probes i rule: run_module_probes.induct) (auto simp: Let_def)

text \<open>What the audit says of a profile that is let through, in terms of the tables of the source.\<close>

lemma ready_profile_facts:
  assumes "prepare_baresip_lab_profile d = BaresipProfileStatus.Ready"
  shows "\<not> pd_empty d \<and> (pd_status d = Entry DirectoryEntry \<or> pd_status d = NoEntry \<and> pd_created d) \<and>
    pd_attributes d = Some False \<and>
    (\<forall>n \<in> set profile_filenames. pf_status (pd_file d n) = NoEntry \<or>
       pf_status (pd_file d n) = Entry RegularFile \<and> pf_attributes (pd_file d n) = Some False) \<and>
    (\<forall>n \<in> {''accounts'', ''config''}. pf_status (pd_file d n) \<noteq> NoEntry \<longrightarrow>
       pf_open (pd_file d n) \<and> \<not> pf_bad (pd_file d n) \<and>
       (\<forall>line \<in> set (getlines [] (pf_bytes (pd_file d n))). length line \<le> 4096 \<and> CHR 0x00 \<notin> set line \<and>
          (n = ''accounts'' \<longrightarrow> line_text line = [] \<or> hd (line_text line) = CHR ''#'') \<and>
          (n = ''config'' \<longrightarrow>
             (\<forall>a w b. line_text line = a @ w @ b \<and> CHR ''#'' \<notin> set (a @ w) \<longrightarrow>
                lower w \<notin> set remote_controls) \<and>
             (\<forall>k rest. line_text line = k @ rest \<and> lower k \<in> set refused_keys \<longrightarrow>
                rest \<noteq> [] \<and> \<not> key_end (hd rest)))))"
proof -
  note p = prepared_files [OF assms]
  have files: "pf_status (pd_file d n) = NoEntry \<or>
       pf_status (pd_file d n) = Entry RegularFile \<and> pf_attributes (pd_file d n) = Some False"
    if "n \<in> set profile_filenames" for n
    using ready_file [OF p(4) [OF that]] by blast
  have read: "pf_open (pd_file d n) \<and> \<not> pf_bad (pd_file d n) \<and>
      inspect_lines (n = ''accounts'') (getlines [] (pf_bytes (pd_file d n))) = BaresipProfileStatus.Ready"
    if "n \<in> {''accounts'', ''config''}" "pf_status (pd_file d n) \<noteq> NoEntry" for n
  proof -
    have "n \<in> set profile_filenames" using that(1) by (auto simp: profile_filenames_def)
    from ready_file [OF p(4) [OF this] that(2)] that(1) show ?thesis by blast
  qed
  have line: "length line \<le> 4096 \<and> CHR 0x00 \<notin> set line \<and>
      (n = ''accounts'' \<longrightarrow> line_text line = [] \<or> hd (line_text line) = CHR ''#'') \<and>
      (n = ''config'' \<longrightarrow>
         (\<forall>a w b. line_text line = a @ w @ b \<and> CHR ''#'' \<notin> set (a @ w) \<longrightarrow> lower w \<notin> set remote_controls) \<and>
         (\<forall>k rest. line_text line = k @ rest \<and> lower k \<in> set refused_keys \<longrightarrow>
            rest \<noteq> [] \<and> \<not> key_end (hd rest)))"
    if "n \<in> {''accounts'', ''config''}" "pf_status (pd_file d n) \<noteq> NoEntry"
      "line \<in> set (getlines [] (pf_bytes (pd_file d n)))" for n line
  proof -
    have l: "\<not> oversized_line line \<and> (idle_line line \<or>
        n \<noteq> ''accounts'' \<and> inspect_baresip_config_line line = BaresipProfileStatus.Ready)"
      using read [OF that(1,2)] that(3) unfolding inspect_lines_ready by blast
    then have i: "inspect_baresip_config_line line = BaresipProfileStatus.Ready"
      using idle_line_ready by blast
    have a: "n = ''accounts'' \<Longrightarrow> line_text line = [] \<or> hd (line_text line) = CHR ''#''"
      using l by (simp add: idle_line_def)
    show ?thesis by (intro conjI impI ready_line [OF i] a)
  qed
  have open_both: "pf_open (pd_file d n)" "\<not> pf_bad (pd_file d n)"
    if "n \<in> {''accounts'', ''config''}" "pf_status (pd_file d n) \<noteq> NoEntry" for n
    using read [OF that] by blast+
  have dirs: "\<forall>n \<in> set profile_filenames. pf_status (pd_file d n) = NoEntry \<or>
       pf_status (pd_file d n) = Entry RegularFile \<and> pf_attributes (pd_file d n) = Some False"
    by (rule ballI) (rule files)
  have both: "(\<forall>n \<in> {''accounts'', ''config''}. pf_status (pd_file d n) \<noteq> NoEntry \<longrightarrow>
       pf_open (pd_file d n) \<and> \<not> pf_bad (pd_file d n) \<and>
       (\<forall>line \<in> set (getlines [] (pf_bytes (pd_file d n))). length line \<le> 4096 \<and> CHR 0x00 \<notin> set line \<and>
          (n = ''accounts'' \<longrightarrow> line_text line = [] \<or> hd (line_text line) = CHR ''#'') \<and>
          (n = ''config'' \<longrightarrow>
             (\<forall>a w b. line_text line = a @ w @ b \<and> CHR ''#'' \<notin> set (a @ w) \<longrightarrow>
                lower w \<notin> set remote_controls) \<and>
             (\<forall>k rest. line_text line = k @ rest \<and> lower k \<in> set refused_keys \<longrightarrow>
                rest \<noteq> [] \<and> \<not> key_end (hd rest)))))"
  proof (rule ballI, rule impI)
    fix n assume n: "n \<in> {''accounts'', ''config''}" "pf_status (pd_file d n) \<noteq> NoEntry"
    show "pf_open (pd_file d n) \<and> \<not> pf_bad (pd_file d n) \<and>
       (\<forall>line \<in> set (getlines [] (pf_bytes (pd_file d n))). length line \<le> 4096 \<and> CHR 0x00 \<notin> set line \<and>
          (n = ''accounts'' \<longrightarrow> line_text line = [] \<or> hd (line_text line) = CHR ''#'') \<and>
          (n = ''config'' \<longrightarrow>
             (\<forall>a w b. line_text line = a @ w @ b \<and> CHR ''#'' \<notin> set (a @ w) \<longrightarrow>
                lower w \<notin> set remote_controls) \<and>
             (\<forall>k rest. line_text line = k @ rest \<and> lower k \<in> set refused_keys \<longrightarrow>
                rest \<noteq> [] \<and> \<not> key_end (hd rest))))"
      by (rule conjI [OF open_both(1) [OF n] conjI [OF open_both(2) [OF n] ballI [OF line [OF n]]]])
  qed
  show ?thesis by (rule conjI [OF p(1) conjI [OF p(2) conjI [OF p(3) conjI [OF dirs both]]]])
qed

section \<open>Properties\<close>

text \<open>
  C39. A profile that is let through is harmless. If the audit answers \<open>Ready\<close>, the directory is a directory or
  has just been created, and is not redirected; each of the four files is missing or a regular file that
  is not redirected; the accounts file consists of blank lines and comments only, so that no SIP account
  is configured; no line of the configuration, in whatever case, names a remote control module before a
  comment or starts with a directive that loads other files or modules; and both were read completely.
\<close>

theorem ready_profile_is_harmless:
  assumes "prepare_baresip_lab_profile d = BaresipProfileStatus.Ready"
  shows "\<not> pd_empty d \<and> (pd_status d = Entry DirectoryEntry \<or> pd_status d = NoEntry \<and> pd_created d) \<and>
    pd_attributes d = Some False \<and>
    (\<forall>n \<in> {''config'', ''accounts'', ''contacts'', ''uuid''}. pf_status (pd_file d n) = NoEntry \<or>
       pf_status (pd_file d n) = Entry RegularFile \<and> pf_attributes (pd_file d n) = Some False) \<and>
    (\<forall>n \<in> {''accounts'', ''config''}. pf_status (pd_file d n) \<noteq> NoEntry \<longrightarrow>
       pf_open (pd_file d n) \<and> \<not> pf_bad (pd_file d n) \<and>
       (\<forall>line \<in> set (getlines [] (pf_bytes (pd_file d n))). length line \<le> 4096 \<and> CHR 0x00 \<notin> set line \<and>
          (n = ''accounts'' \<longrightarrow> line_text line = [] \<or> hd (line_text line) = CHR ''#'') \<and>
          (n = ''config'' \<longrightarrow>
             (\<forall>a w b. line_text line = a @ w @ b \<and> CHR ''#'' \<notin> set (a @ w) \<longrightarrow>
                lower w \<notin> {''ctrl_tcp'', ''ctrl_http'', ''ctrl_ws''}) \<and>
             (\<forall>k rest. line_text line = k @ rest \<and> lower k \<in> {''include'', ''module_path'', ''module_preload'', ''module_dir''} \<longrightarrow>
                rest \<noteq> [] \<and> \<not> key_end (hd rest)))))"
proof -
  have tables: "set remote_controls = {''ctrl_tcp'', ''ctrl_http'', ''ctrl_ws''}"
    "set refused_keys = {''include'', ''module_path'', ''module_preload'', ''module_dir''}"
    "set profile_filenames = {''config'', ''accounts'', ''contacts'', ''uuid''}"
    by (simp_all only: remote_controls_def refused_keys_def profile_filenames_def list.set)
  show ?thesis using ready_profile_facts [OF assms] unfolding tables .
qed

definition sample_profile :: "string \<Rightarrow> ProfileDirectory" where
  "sample_profile config = \<lparr>pd_empty = False, pd_status = Entry DirectoryEntry, pd_created = False,
     pd_attributes = Some False,
     pd_file = (\<lambda>n. \<lparr>pf_status = (if n = ''config'' then Entry RegularFile else NoEntry),
       pf_attributes = Some False, pf_size = Some (length config), pf_open = True, pf_bytes = config,
       pf_bad = False\<rparr>)\<rparr>"

lemmas profile_evals = prepare_baresip_lab_profile_def sample_profile_def profile_filenames_def
  inspect_profile_file_def lines_read_def oversized_line_def idle_line_def line_text_def line_blank_def
  inspect_baresip_config_line_def line_key_def active_text_def refused_keys_def remote_controls_def
  has_substring_def starts_with_def lower_def lower_char_def Let_def

theorem ready_profile_is_harmless_witness:
  "prepare_baresip_lab_profile (sample_profile ''audio_player wasapi\<newline># module_path x\<newline>'') =
     BaresipProfileStatus.Ready \<and>
   lower (''module_path'') \<in> set refused_keys \<and>
   \<not> pd_empty (sample_profile ''audio_player wasapi\<newline># module_path x\<newline>'')"
proof -
  let ?d = "sample_profile ''audio_player wasapi\<newline># module_path x\<newline>''"
  have r: "prepare_baresip_lab_profile ?d = BaresipProfileStatus.Ready" by (simp add: profile_evals)
  have e: "\<not> pd_empty ?d" using ready_profile_is_harmless [OF r] by (rule conjunct1)
  have m: "lower (''module_path'') \<in> set refused_keys" by code_simp
  show ?thesis by (intro conjI r m e)
qed

end
