(* ===== verification/Spec2Isabelle.thy ===== *)
theory Spec2Isabelle
  imports Registration_Dispatcher Call_Authorization Event_Projection Cti_Server Contact_Query
    Contact_Store Native_Account Engine_Safety Native_Ingress Registration_Host Recent_Destinations
    Tone_Preview Windows_Process Lab_Profile
begin

text \<open>
  A verification development for the native core of AXE Voice Desktop, a SIP softphone for Windows:
  the code under \<open>src/src\<close> between the user's clicks and the third-party SIP stack (libre and
  Baresip), the local service through which other programs on the machine ask for calls, the contact
  book, and the audio and process helpers beside them.

  \<^bold>\<open>The program.\<close>
  The user interface runs on one thread. It validates what is typed, and hands intents to an application
  service, which passes them to the native engine. The engine keeps a reactor thread: on it the SDK runs,
  reports what happens in callbacks, and executes what was submitted. Callbacks go through an adapter, a
  fence that counts them, an ingress that admits them and a bounded mailbox. The user interface drains the
  mailbox, reduces the events to one observation and shows that. Every arrow fails closed: evidence that
  cannot be trusted (a foreign session, an overflow, an impossible order, a missed deadline) revokes the
  session. Registration commands take a second path, a revisioned queue from the clients' threads to a
  dispatcher on the reactor thread. The local CTI service lets a browser extension or a script submit one
  call request at a time over a loopback socket and read an event feed; the user interface polls its queue.

  \<^bold>\<open>Theories.\<close> In the order of the code, files without a directory are under \<open>src/src\<close>.

  \<^item> \<open>Axv_Prelude\<close>: the machine types, UTF-16 and byte strings, \<open>std::string\<close> operations, and shared lemmas.
  \<^item> \<open>Sip_Runtime\<close>: statuses, accounts, observations and the pure policies over them (\<open>sip_engine.h\<close>,
    \<open>call_policy.h\<close>, \<open>engine_lifecycle.h\<close>, \<open>sip_runtime_observation.h\<close> and others).
  \<^item> \<open>Sip_Address\<close>: hosts, addresses, account forms (\<open>sip_host.h\<close>, \<open>sip_address.cpp\<close>, \<open>sip_account.h\<close>).
  \<^item> \<open>Event_Reducer\<close>, \<open>Event_Mailbox\<close>, \<open>Event_Projection\<close>: from an event to the observation shown
    (\<open>baresip_event_reducer.h\<close>, \<open>baresip_event_identity.h\<close>, \<open>baresip_event_mailbox.h\<close>,
    \<open>legacy_sip_event_projection.h\<close>, \<open>sip_event_projection.h\<close>, \<open>sip_runtime_session_guard.h\<close>).
  \<^item> \<open>Callback_Ingress\<close>, \<open>Callback_Lifecycle\<close>, \<open>Sdk_Adapter\<close>, \<open>Native_Ingress\<close>: from an SDK callback to the
    mailbox (\<open>baresip_callback_ingress.h\<close>, \<open>baresip_callback_lifecycle.h\<close>, \<open>baresip_sdk_event_adapter.h\<close>,
    \<open>baresip_native_ingress.h\<close>).
  \<^item> \<open>Registration_Queue\<close>, \<open>Registration_Gateway\<close>, \<open>Registration_Dispatcher\<close>, \<open>Registration_Host\<close>:
    registration commands (\<open>baresip_registration_command_queue.h\<close>, \<open>baresip_registration_watchdog.h\<close>,
    \<open>baresip_sdk_registration_gateway.h\<close>, \<open>baresip_registration_command_dispatcher.h\<close>,
    \<open>baresip_native_registration_host.h\<close>, \<open>baresip_registration_lab_worker.h\<close>).
  \<^item> \<open>Call_Authorization\<close>: the permission to dial, answer and hang up, and the executor of commands
    (\<open>dial_authorization.h\<close>, \<open>call_command_authorization.h\<close>, \<open>sip_command_executor.h\<close>).
  \<^item> \<open>Native_Account\<close>, \<open>Native_Control\<close>, \<open>Sdk_Call_Port\<close>, \<open>Sip_Engine\<close>, \<open>Engine_Safety\<close>: the native engine:
    its configuration, the admission of commands, the SDK calls on a tracked call, the engine with its reactor,
    and the runs of it (\<open>native_account_config.h\<close>, \<open>native_session_control.h\<close>, \<open>baresip_sdk_call_port.h\<close>,
    \<open>baresip_sip_engine.cpp\<close>, \<open>baresip_native_libre_reactor.cpp\<close>, \<open>voice_application_service.h\<close> and others).
  \<^item> \<open>Cti_Events\<close>, \<open>Cti_Requests\<close>, \<open>Cti_Contract\<close>, \<open>Cti_Server\<close>: the local service
    (\<open>local_cti_events.h\<close>, \<open>local_cti_requests.h\<close>, \<open>local_cti_contract.h\<close>, \<open>local_cti_server_win32.cpp\<close>).
  \<^item> \<open>Contact_Book\<close>, \<open>Contact_Query\<close>, \<open>Contact_Backup\<close>, \<open>Contact_Store\<close>: contacts in memory, the search, the
    backup text down to its bytes, the file and the import (\<open>contact_book.cpp\<close>, \<open>contact_favorites.cpp\<close>,
    \<open>contact_query.cpp\<close>, \<open>contact_backup.cpp\<close>, \<open>contact_store_win32.cpp\<close>, \<open>contact_import_win32.cpp\<close>).
  \<^item> \<open>Recent_Destinations\<close>: dial pad and recently dialled list (\<open>dialpad_model.h\<close>, \<open>recent_destinations.h\<close>).
  \<^item> \<open>Audio_Inventory\<close>, \<open>Incoming_Ringtone\<close>, \<open>Tone_Preview\<close>: the device list and its refresh, the ringtone
    worker, the preview tone (\<open>audio_inventory_async.cpp\<close>, \<open>incoming_ringtone_player.cpp\<close>,
    \<open>audio_test_tone_win32.cpp\<close> and the policies beside them).
  \<^item> \<open>Windows_Process\<close>, \<open>Lab_Profile\<close>: the child process of the laboratory and the audit of its profile
    (\<open>windows_process.cpp\<close>, \<open>windows_argument_quote.h\<close>, \<open>baresip_profile.h\<close>, \<open>baresip_modules.h\<close>).

  \<^bold>\<open>Correspondence.\<close>
  A class is a record of its members, a method a function on that record, with the source's name where
  HOL leaves it free. An enumeration is a datatype whose constructors are written qualified, as in C++.
  An early return, an exception that is handled and an error code are branches of the function. A method
  that holds a mutex throughout is one function; where a class gives its mutex up or takes it several times,
  each critical section is a function and the theory has an inductive step relation whose runs are the
  interleavings of the threads (\<open>lifecycle_run\<close>, \<open>inventory_run\<close>, \<open>ring_run\<close>), or the operation takes what
  other threads do in between as an argument (\<open>Registration_Dispatcher\<close>, \<open>Sip_Engine\<close>). A wait on a
  condition variable is a step that is enabled while its predicate holds; an operation that would block is
  \<open>None\<close>, and that this does not happen is proved (\<open>engine_always_returns\<close>, \<open>host_leaves_nothing_behind\<close>,
  \<open>adapter_tracks_ingress\<close>, \<open>tick_fails_closed\<close>).

  Counters, tokens, deadlines and pointers are 64-bit words that wrap around; where the source tests for
  the largest value before it counts, so does the model. What is not in the repository answers through
  arguments, for all answers: SDK functions and the callbacks they run before they return, libre,
  Windows calls (files, processes, MCI, Winsock), the clock, and the character classes beyond ASCII (the
  record \<open>wctype\<close>; \<open>ascii_ctype\<close> says that ASCII is classified as the C standard demands, and \<open>c_locale\<close>
  is an instance that satisfies it).

  \<^bold>\<open>Bounds.\<close>
  No operation needs fuel: recursions are structural or come with a measure, and the bounded loops count
  as the source does: 130 packets in the tone, 80 polls of the MCI device, 32 slots in the mailbox, 500
  contacts, 32 results and 64 transitions of requests, ten recent destinations.

  \<^bold>\<open>What is shown.\<close>
  \<^item> Specifications and refinement: the reducer accepts exactly the steps of the SIP line protocol
    \<open>sip_step\<close>; the ring buffer of the mailbox is a bounded list; projections equal the reducer over all
    events of a session or have rejected it; runs of the engine are runs of the event loop of the call port;
    the book is a map with unique destinations; the recent destinations are a move-to-front list.
  \<^item> Contracts: \<open>session_queue\<close> (interpreted on the mailbox), \<open>fenced_projection\<close> (on both projections),
    \<open>event_log\<close> (on the event journal and on the log of requests), \<open>favorite_store\<close> (on the book),
    \<open>native_port\<close> (on the engine).
  \<^item> Safety over all interleavings: only the live session publishes, the fence counts who is inside, tokens
    are never reused, a call enters only after a confirmation of the registration in the same session that
    nothing has withdrawn since, a command reaches the SDK at most once and only while it is current and
    authorised, the password stays where it is needed, a stopped host keeps no owner or command, the
    ringtone renders only the ringing call, handles of child processes are balanced, and a child is created
    suspended and runs in its job only.
  \<^item> Text formats: addresses, deep links and request bodies, configuration lines that cannot be
    injected, quoting that the C runtime reads back, and the round trip of the contact backup.
  \<^item> Errors and termination: stores never lose an update, closing outcomes leave nothing behind, every
    wait of the engine ends, an unconfirmed registration expires.

  Two remarks on the code are lemmas as well: \<open>padded_key_accepted\<close> in \<open>Cti_Contract\<close> and
  \<open>clear_hides_lost_transitions\<close> in \<open>Cti_Requests\<close>.

  \<^bold>\<open>Not modelled.\<close>
  Window procedures, dialogs and drawing (\<open>main.cpp\<close> apart from the code that feeds the ringtone, the
  \<open>ui_\<close> headers), Core Audio (\<open>audio_devices_win32.cpp\<close>, \<open>audio_endpoint_watcher_win32.cpp\<close>,
  \<open>microphone_test_win32.cpp\<close>), the waveform of the tone, which is floating-point arithmetic, the accept loop and
  the partial sends of the server, diagnostic texts and the installer's guard, the static assertions on the
  SDK's headers, and the third-party sources under \<open>src/upstream\<close>. Exhausted memory is a branch where a
  handler in the source makes it one (\<open>Windows_Process\<close> and \<open>Recent_Destinations\<close>, for
  instance), and left out elsewhere, in the hooks of the reactor in particular.
\<close>

end
